(* ===== verification/Wire_Prelude.thy ===== *)
theory Wire_Prelude
  imports Complex_Main "HOL-Library.Word" "HOL-Library.AList" "HOL-Library.List_Lexorder"
    "HOL-Library.Signed_Division" "HOL-Library.Multiset"
begin

text \<open>
  Shared vocabulary of the development: Go's machine integers, Go's maps, the big- and
  little-endian integer encodings of \<^verbatim>\<open>encoding/binary\<close>, the binary search of
  \<^verbatim>\<open>sort.Search\<close>, and the generic list lemmas the component theories use.

  Conventions. An \<^verbatim>\<open>int64\<close> (and Go's \<^verbatim>\<open>int\<close>, 64 bits wide here) is an
  \<^typ>\<open>int\<close> whose arithmetic is written with \<open>wrap64\<close>; an unsigned type is an
  \<open>n word\<close>. A Go map is an association list: \<open>map_of\<close> looks a key up,
  \<open>AList.update\<close> and \<open>AList.delete\<close> change it. A Go error result is an
  \<open>option\<close> (\<open>None\<close> for nil) or the left half of a sum. A byte slice is a \<open>slice\<close>
  where the code tells nil (\<open>None\<close>) from empty, and a list of \<open>bytes\<close> elsewhere.
\<close>

unbundle bit_operations_syntax

type_synonym byte = "8 word"
type_synonym bytes = "8 word list"
type_synonym slice = "bytes option"
type_synonym u8 = "8 word"
type_synonym u16 = "16 word"
type_synonym u32 = "32 word"
type_synonym u64 = "64 word"

named_theorems i64_simps \<open>rewrite rules that remove wrap-around from in-range arithmetic\<close>
named_theorems codec_simps \<open>rewrite rules of the fixed-width integer encodings\<close>

section \<open>Signed 64-bit arithmetic\<close>

definition MinInt64 :: int where
  "MinInt64 = - 9223372036854775808"

definition MaxInt64 :: int where
  "MaxInt64 = 9223372036854775807"

definition wrap64 :: "int \<Rightarrow> int" where
  "wrap64 x = (x + 9223372036854775808) mod 18446744073709551616 - 9223372036854775808"

definition in_i64 :: "int \<Rightarrow> bool" where
  "in_i64 x \<longleftrightarrow> MinInt64 \<le> x \<and> x \<le> MaxInt64"

text \<open>Go's integer division truncates towards zero; a zero divisor panics and is
  written as a guard where the source can reach it.\<close>

definition go_div :: "int \<Rightarrow> int \<Rightarrow> int" where
  "go_div a b = wrap64 (a sdiv b)"

definition go_rem :: "int \<Rightarrow> int \<Rightarrow> int" where
  "go_rem a b = a smod b"

lemma wrap64_id [i64_simps]: "in_i64 x \<Longrightarrow> wrap64 x = x"
  by (simp add: wrap64_def in_i64_def MinInt64_def MaxInt64_def)

lemma in_i64_wrap64 [simp]: "in_i64 (wrap64 x)"
  unfolding wrap64_def in_i64_def MinInt64_def MaxInt64_def
  by (smt (verit) pos_mod_bound pos_mod_sign)

lemma go_div_nonneg:
  assumes "0 \<le> a" "0 < b" "in_i64 a"
  shows "go_div a b = a div b"
proof -
  have "a sdiv b = a div b"
    using assms(1,2) by (cases "a = 0") (simp_all add: signed_divide_int_def)
  moreover have "in_i64 (a div b)"
    using assms unfolding in_i64_def MinInt64_def MaxInt64_def
    by (smt (verit) div_by_1 pos_imp_zdiv_nonneg_iff zdiv_mono2)
  ultimately show ?thesis
    by (simp add: go_div_def wrap64_id)
qed

section \<open>Go maps\<close>

type_synonym ('k, 'v) gomap = "('k \<times> 'v) list"

text \<open>Reading a missing key gives the zero value of the element type.\<close>

definition mget :: "('k, 'v) gomap \<Rightarrow> 'k \<Rightarrow> 'v \<Rightarrow> 'v" where
  "mget m k z = (case map_of m k of None \<Rightarrow> z | Some v \<Rightarrow> v)"

lemma mget_Nil [simp]: "mget [] k z = z"
  by (simp add: mget_def)

lemma mget_update [simp]:
  "mget (AList.update k v m) k' z = (if k' = k then v else mget m k' z)"
  by (simp add: mget_def update_conv')

lemma mget_delete [simp]:
  "mget (AList.delete k m) k' z = (if k' = k then z else mget m k' z)"
  by (simp add: mget_def delete_conv')

lemma distinct_fst_update [simp]:
  "distinct (map fst m) \<Longrightarrow> distinct (map fst (AList.update k v m))"
  by (rule distinct_update)

lemma distinct_fst_delete [simp]:
  "distinct (map fst m) \<Longrightarrow> distinct (map fst (AList.delete k m))"
  by (rule distinct_delete)

section \<open>Floating-point numbers\<close>

text \<open>A floating-point number as far as the program looks at it: not a number, an infinity (the
  positive one for True), or a finite value, which is a rational number.\<close>

datatype float64 = NaN | Infinity bool | Finite rat

section \<open>Fixed-width integer encodings\<close>

text \<open>\<open>be n x\<close> is the \<open>n\<close>-byte big-endian encoding of \<open>x\<close>; \<open>be_val\<close> reads a
  big-endian byte string.\<close>

primrec be :: "nat \<Rightarrow> nat \<Rightarrow> bytes" where
  "be 0 x = []"
| "be (Suc n) x = word_of_nat (x div 256 ^ n) # be n (x mod 256 ^ n)"

definition be_val :: "bytes \<Rightarrow> nat" where
  "be_val bs = foldl (\<lambda>a b. a * 256 + unat b) 0 bs"

lemma length_be [simp]: "length (be n x) = n"
  by (induction n arbitrary: x) simp_all

lemma foldl_be_val:
  "foldl (\<lambda>a b. a * 256 + unat b) k bs = k * 256 ^ length bs + be_val bs"
proof (induction bs arbitrary: k)
  case Nil
  then show ?case by (simp add: be_val_def)
next
  case (Cons b bs)
  have "be_val (b # bs) = unat b * 256 ^ length bs + be_val bs"
    using Cons.IH [of "unat b"] by (simp add: be_val_def)
  then show ?case
    using Cons.IH [of "k * 256 + unat b"] by (simp add: algebra_simps)
qed

lemma be_val_Cons: "be_val (b # bs) = unat b * 256 ^ length bs + be_val bs"
  using foldl_be_val [of "unat b" bs] by (simp add: be_val_def)

lemma unat_bound: "unat (w :: 'a::len word) < 2 ^ LENGTH('a)"
  by (rule unsigned_less)

lemma unat_be_digit:
  "x < 256 ^ Suc n \<Longrightarrow> unat (word_of_nat (x div 256 ^ n) :: byte) = x div 256 ^ n"
proof -
  assume "x < 256 ^ Suc n"
  then have "x div 256 ^ n < 256"
    by (simp add: less_mult_imp_div_less mult.commute)
  then show ?thesis by (simp add: unat_of_nat)
qed

lemma be_val_be: "x < 256 ^ n \<Longrightarrow> be_val (be n x) = x"
proof (induction n arbitrary: x)
  case 0
  then show ?case by (simp add: be_val_def)
next
  case (Suc n)
  have "be_val (be (Suc n) x) = x div 256 ^ n * 256 ^ n + x mod 256 ^ n"
    using Suc.IH [of "x mod 256 ^ n"] unat_be_digit [OF Suc.prems] by (simp add: be_val_Cons)
  also have "\<dots> = x" by (rule div_mult_mod_eq)
  finally show ?case .
qed

lemma be_val_less: "be_val bs < 256 ^ length bs"
proof (induction bs)
  case Nil
  then show ?case by (simp add: be_val_def)
next
  case (Cons b bs)
  have "unat b < 256"
    using unat_bound [of b] by simp
  then have "unat b * 256 ^ length bs + be_val bs < (unat b + 1) * 256 ^ length bs"
    using Cons by simp
  also have "\<dots> \<le> 256 * 256 ^ length bs"
    using \<open>unat b < 256\<close> by (intro mult_right_mono) simp_all
  finally show ?case by (simp add: be_val_Cons)
qed

lemma be_be_val: "length bs = n \<Longrightarrow> be n (be_val bs) = bs"
proof (induction bs arbitrary: n)
  case Nil
  then show ?case by simp
next
  case (Cons b bs)
  have "be_val bs < 256 ^ length bs"
    by (rule be_val_less)
  then show ?case
    using Cons by (auto simp: be_val_Cons)
qed

lemma be_mono: "x < y \<Longrightarrow> y < 256 ^ n \<Longrightarrow> be n x < be n y"
proof (induction n arbitrary: x y)
  case 0
  then show ?case by simp
next
  case (Suc n)
  have le: "x div 256 ^ n \<le> y div 256 ^ n"
    using Suc.prems(1) by (simp add: div_le_mono)
  show ?case
  proof (cases "x div 256 ^ n = y div 256 ^ n")
    case False
    then have "(word_of_nat (x div 256 ^ n) :: byte) < word_of_nat (y div 256 ^ n)"
      using le unat_be_digit [of x n] unat_be_digit [of y n] Suc.prems
      by (simp add: word_less_nat_alt)
    then show ?thesis by simp
  next
    case True
    have "x mod 256 ^ n < y mod 256 ^ n"
      using Suc.prems(1) True by (metis div_mult_mod_eq nat_add_left_cancel_less)
    then have "be n (x mod 256 ^ n) < be n (y mod 256 ^ n)"
      by (rule Suc.IH) simp
    with True show ?thesis by simp
  qed
qed

text \<open>The contract of a fixed-width encoder and decoder, and what every framed format
  built from one relies on.\<close>

locale fixed_codec =
  fixes enc :: "'a \<Rightarrow> bytes" and dec :: "bytes \<Rightarrow> 'a" and width :: nat
  assumes length_enc: "length (enc x) = width"
    and dec_enc: "dec (enc x) = x"
    and enc_dec: "length bs = width \<Longrightarrow> enc (dec bs) = bs"
begin

lemma take_enc: "take width (enc x @ r) = enc x"
  by (simp add: length_enc)

lemma drop_enc: "drop width (enc x @ r) = r"
  by (simp add: length_enc)

lemma dec_take_enc: "dec (take width (enc x @ r)) = x"
  by (simp only: take_enc dec_enc)

lemma enc_inject: "enc x @ r = enc y @ s \<longleftrightarrow> x = y \<and> r = s"
  by (metis dec_take_enc drop_enc)

lemma split_enc: "width \<le> length bs \<Longrightarrow> bs = enc (dec (take width bs)) @ drop width bs"
  by (simp add: enc_dec)

end

definition PutUint16BE :: "u16 \<Rightarrow> bytes" where
  "PutUint16BE w = be 2 (unat w)"

definition Uint16BE :: "bytes \<Rightarrow> u16" where
  "Uint16BE bs = word_of_nat (be_val bs)"

definition PutUint32BE :: "u32 \<Rightarrow> bytes" where
  "PutUint32BE w = be 4 (unat w)"

definition Uint32BE :: "bytes \<Rightarrow> u32" where
  "Uint32BE bs = word_of_nat (be_val bs)"

definition PutUint64BE :: "u64 \<Rightarrow> bytes" where
  "PutUint64BE w = be 8 (unat w)"

definition Uint64BE :: "bytes \<Rightarrow> u64" where
  "Uint64BE bs = word_of_nat (be_val bs)"

definition PutUint32LE :: "u32 \<Rightarrow> bytes" where
  "PutUint32LE w = rev (be 4 (unat w))"

definition Uint32LE :: "bytes \<Rightarrow> u32" where
  "Uint32LE bs = word_of_nat (be_val (rev bs))"

lemma be_word_roundtrip:
  fixes w :: "'a::len word"
  assumes "256 ^ n = (2::nat) ^ LENGTH('a)"
  shows "word_of_nat (be_val (be n (unat w))) = w"
  using assms unat_bound [of w] by (simp add: be_val_be)

lemma be_unat_of_val:
  assumes "256 ^ n = (2::nat) ^ LENGTH('a::len)" and "length bs = n"
  shows "be n (unat (word_of_nat (be_val bs) :: 'a word)) = bs"
  using assms be_val_less [of bs] be_be_val [of bs n] by (simp add: unat_of_nat)

interpretation be16: fixed_codec PutUint16BE Uint16BE 2
  by unfold_locales
    (simp_all add: PutUint16BE_def Uint16BE_def be_word_roundtrip be_unat_of_val)

interpretation be32: fixed_codec PutUint32BE Uint32BE 4
  by unfold_locales
    (simp_all add: PutUint32BE_def Uint32BE_def be_word_roundtrip be_unat_of_val)

interpretation be64: fixed_codec PutUint64BE Uint64BE 8
  by unfold_locales
    (simp_all add: PutUint64BE_def Uint64BE_def be_word_roundtrip be_unat_of_val)

interpretation le32: fixed_codec PutUint32LE Uint32LE 4
  by unfold_locales
    (simp_all add: PutUint32LE_def Uint32LE_def be_word_roundtrip be_unat_of_val)

lemmas codec_facts [codec_simps] =
  be16.length_enc be16.dec_enc be16.take_enc be16.drop_enc be16.dec_take_enc
  be32.length_enc be32.dec_enc be32.take_enc be32.drop_enc be32.dec_take_enc
  be64.length_enc be64.dec_enc be64.take_enc be64.drop_enc be64.dec_take_enc
  le32.length_enc le32.dec_enc le32.take_enc le32.drop_enc le32.dec_take_enc

lemma lex_append_less: "(a::'a::linorder list) < b \<Longrightarrow> length a = length b \<Longrightarrow> a @ r < b @ s"
proof (induction a arbitrary: b)
  case Nil
  then show ?case by simp
next
  case (Cons x a)
  then show ?case by (cases b) auto
qed

lemma PutUint16BE_less: "v < w \<Longrightarrow> PutUint16BE v @ r < PutUint16BE w @ s"
  unfolding PutUint16BE_def
  by (rule lex_append_less, rule be_mono)
    (use unat_bound [of w] in \<open>simp_all add: word_less_nat_alt\<close>)

section \<open>Binary search\<close>

text \<open>The loop of \<^verbatim>\<open>sort.Search\<close>: the least index in \<open>[i, j)\<close> where a monotone
  predicate holds, or \<open>j\<close>.\<close>

function search_loop :: "(nat \<Rightarrow> bool) \<Rightarrow> nat \<Rightarrow> nat \<Rightarrow> nat" where
  "search_loop f i j =
     (if i < j then
        let h = (i + j) div 2 in if \<not> f h then search_loop f (h + 1) j else search_loop f i h
      else i)"
  by pat_completeness auto
termination
  by (relation "measure (\<lambda>(f, i, j). j - i)") auto

declare search_loop.simps [simp del]

definition sort_Search :: "nat \<Rightarrow> (nat \<Rightarrow> bool) \<Rightarrow> nat" where
  "sort_Search n f = search_loop f 0 n"

lemma search_loop_spec:
  assumes "i \<le> j" "\<And>a b. a \<le> b \<Longrightarrow> b < j \<Longrightarrow> f a \<Longrightarrow> f b"
  shows "i \<le> search_loop f i j \<and> search_loop f i j \<le> j
    \<and> (\<forall>k. i \<le> k \<and> k < search_loop f i j \<longrightarrow> \<not> f k)
    \<and> (search_loop f i j < j \<longrightarrow> f (search_loop f i j))"
  using assms
proof (induction f i j rule: search_loop.induct)
  case (1 f i j)
  define h where "h = (i + j) div 2"
  show ?case
  proof (cases "i < j")
    case False
    then have "search_loop f i j = i" by (simp add: search_loop.simps [of f i j])
    with False "1.prems"(1) show ?thesis by auto
  next
    case less: True
    then have h: "i \<le> h" "h < j" by (auto simp: h_def)
    show ?thesis
    proof (cases "f h")
      case False
      then have eq: "search_loop f i j = search_loop f (h + 1) j"
        using less by (simp add: search_loop.simps [of f i j] Let_def h_def)
      have below: "\<not> f k" if "k \<le> h" for k
        using "1.prems"(2) [OF that \<open>h < j\<close>] False by blast
      have "h + 1 \<le> search_loop f (h + 1) j \<and> search_loop f (h + 1) j \<le> j
          \<and> (\<forall>k. h + 1 \<le> k \<and> k < search_loop f (h + 1) j \<longrightarrow> \<not> f k)
          \<and> (search_loop f (h + 1) j < j \<longrightarrow> f (search_loop f (h + 1) j))"
        by (rule "1.IH"(1) [OF less h_def]) (use False h "1.prems"(2) in \<open>simp, simp, blast\<close>)
      then show ?thesis
        unfolding eq using below h by (auto simp: not_le Suc_le_eq) (meson leI)+
    next
      case True
      then have eq: "search_loop f i j = search_loop f i h"
        using less by (simp add: search_loop.simps [of f i j] Let_def h_def)
      have "i \<le> search_loop f i h \<and> search_loop f i h \<le> h
          \<and> (\<forall>k. i \<le> k \<and> k < search_loop f i h \<longrightarrow> \<not> f k)
          \<and> (search_loop f i h < h \<longrightarrow> f (search_loop f i h))"
      proof (rule "1.IH"(2) [OF less h_def])
        show "\<not> \<not> f h" using True by simp
        show "i \<le> h" by (rule h)
        show "f b" if "a \<le> b" "b < h" "f a" for a b
          using "1.prems"(2) [OF that(1) _ that(3)] that(2) h(2) by simp
      qed
      then show ?thesis
        unfolding eq using True h by (cases "search_loop f i h = h") auto
    qed
  qed
qed

text \<open>On a sorted list, searching for the first element not below \<open>k\<close> splits the list
  into the elements below \<open>k\<close> and the rest.\<close>

lemma sort_Search_split:
  fixes k :: "'a::linorder"
  assumes "sorted xs"
  shows "sort_Search (length xs) (\<lambda>i. xs ! i \<ge> k) = length (takeWhile (\<lambda>x. x < k) xs)"
proof -
  let ?f = "\<lambda>i. xs ! i \<ge> k"
  let ?r = "sort_Search (length xs) ?f"
  have spec: "?r \<le> length xs" "\<forall>i < ?r. \<not> ?f i" "?r < length xs \<longrightarrow> ?f ?r"
    using search_loop_spec [of 0 "length xs" ?f] assms
    by (auto simp: sort_Search_def dest: sorted_nth_mono order_trans)
  have "takeWhile (\<lambda>x. x < k) xs = take ?r xs"
  proof (rule takeWhile_eq_take_P_nth)
    show "\<And>i. i < ?r \<Longrightarrow> i < length xs \<Longrightarrow> xs ! i < k"
      using spec(2) by (simp add: not_le)
    show "?r < length xs \<Longrightarrow> \<not> xs ! ?r < k"
      using spec(3) by (simp add: not_less)
  qed
  then show ?thesis using spec(1) by simp
qed

section \<open>Sorting\<close>

text \<open>\<^verbatim>\<open>sort.Slice\<close> is not stable. Where the sort keys are distinct the result is
  unique, so \<open>sort_key\<close> is the function it computes.\<close>

lemma filter_key_singleton:
  "distinct (map f xs) \<Longrightarrow> k \<in> set xs \<Longrightarrow> filter (\<lambda>x. f k = f x) xs = [k]"
  by (induction xs) (auto simp: filter_empty_conv dest: sym)

lemma sort_key_unique:
  assumes "mset ys = mset xs" "sorted (map f ys)" "distinct (map f xs)"
  shows "ys = sort_key f xs"
proof -
  have "mset (map f ys) = mset (map f xs)"
    using assms(1) by simp
  then have "distinct (map f ys)"
    using assms(3) by (metis mset_eq_imp_distinct_iff)
  moreover have "set ys = set xs"
    using assms(1) by (rule mset_eq_setD)
  ultimately have "\<forall>k \<in> set ys. filter (\<lambda>x. f k = f x) ys = filter (\<lambda>x. f k = f x) xs"
    using assms(3) by (simp add: filter_key_singleton)
  then show ?thesis
    using properties_for_sort_key [OF assms(1) _ assms(2)] by simp
qed

end
