(* ===== verification/KeyGroup.thy ===== *)
theory KeyGroup
  imports Wire_Prelude
begin

text \<open>
  The package \<^verbatim>\<open>internal/keygroup\<close>: the configuration check, the assignment of key
  groups to tasks, the boundary walk that plans a rescale, and the composite Pebble keys.
  The hash function is a third-party package and a parameter (\<open>sum32\<close>).
\<close>

section \<open>Configuration\<close>

datatype kg_error =
    ErrParallelismExceedsKeyGroups
  | ErrInvalidParallelism
  | ErrNotPowerOfTwo
  | ErrKeyGroupsOutOfRange
  | ErrKeyGroupsMismatch
  | ErrInvalidTaskIndex
  | ErrPebbleKeyTooShort

definition DefaultNumKeyGroups :: int where
  "DefaultNumKeyGroups = 128"

definition MinKeyGroups :: int where
  "MinKeyGroups = 1"

definition MaxKeyGroups :: int where
  "MaxKeyGroups = 32768"

record kg_config =
  NumKeyGroups :: int
  Parallelism :: int

definition DefaultConfig :: kg_config where
  "DefaultConfig = \<lparr>NumKeyGroups = DefaultNumKeyGroups, Parallelism = 1\<rparr>"

definition kg_Validate :: "kg_config \<Rightarrow> kg_error option" where
  "kg_Validate c =
     (if NumKeyGroups c < MinKeyGroups \<or> NumKeyGroups c > MaxKeyGroups
      then Some ErrKeyGroupsOutOfRange
      else if NumKeyGroups c AND (NumKeyGroups c - 1) \<noteq> 0 then Some ErrNotPowerOfTwo
      else if Parallelism c < 1 then Some ErrInvalidParallelism
      else if Parallelism c > NumKeyGroups c then Some ErrParallelismExceedsKeyGroups
      else None)"

text \<open>The hot path of \<^verbatim>\<open>hasher.go\<close>; a zero modulus panics.\<close>

definition KeyGroup_of :: "(bytes \<Rightarrow> u32) \<Rightarrow> bytes \<Rightarrow> int \<Rightarrow> u16 option" where
  "KeyGroup_of sum32 key numKeyGroups =
     (let n = word_of_int numKeyGroups :: u32
      in if n = 0 then None else Some (ucast (sum32 key mod n)))"

section \<open>Assignment\<close>

record KeyGroupRange =
  Start :: u16
  End :: u16

definition Contains :: "KeyGroupRange \<Rightarrow> u16 \<Rightarrow> bool" where
  "Contains r keyGroup \<longleftrightarrow> keyGroup \<ge> Start r \<and> keyGroup < End r"

definition Size :: "KeyGroupRange \<Rightarrow> int" where
  "Size r = uint (End r) - uint (Start r)"

text \<open>\<open>None\<close> is the panic of a division by a zero key-group count.\<close>

definition AssignedTask :: "u16 \<Rightarrow> int \<Rightarrow> int \<Rightarrow> int option" where
  "AssignedTask keyGroup numKeyGroups parallelism =
     (if numKeyGroups = 0 then None else
      let g = uint keyGroup;
          t = go_div (wrap64 (g * parallelism)) numKeyGroups
      in if wrap64 (t + 1) < parallelism \<and>
            go_div (wrap64 (wrap64 (t + 1) * numKeyGroups)) parallelism \<le> g
         then Some (wrap64 (t + 1)) else Some t)"

definition TaskKeyGroupRange :: "int \<Rightarrow> int \<Rightarrow> int \<Rightarrow> kg_error + KeyGroupRange" where
  "TaskKeyGroupRange taskIndex numKeyGroups parallelism =
     (case kg_Validate \<lparr>NumKeyGroups = numKeyGroups, Parallelism = parallelism\<rparr> of
        Some err \<Rightarrow> Inl err
      | None \<Rightarrow>
          if taskIndex < 0 \<or> taskIndex \<ge> parallelism then Inl ErrInvalidTaskIndex
          else
            let start = go_div (wrap64 (taskIndex * numKeyGroups)) parallelism;
                stop = go_div (wrap64 ((taskIndex + 1) * numKeyGroups)) parallelism
            in Inr \<lparr>Start = word_of_int start, End = word_of_int stop\<rparr>)"

text \<open>The loop of \<open>AllTaskRanges\<close>: fill the result, stop at the first error.\<close>

fun task_ranges_loop :: "nat list \<Rightarrow> int \<Rightarrow> int \<Rightarrow> kg_error + KeyGroupRange list" where
  "task_ranges_loop [] numKeyGroups parallelism = Inr []"
| "task_ranges_loop (i # is) numKeyGroups parallelism =
     (case TaskKeyGroupRange (int i) numKeyGroups parallelism of
        Inl err \<Rightarrow> Inl err
      | Inr r \<Rightarrow>
          (case task_ranges_loop is numKeyGroups parallelism of
             Inl err \<Rightarrow> Inl err
           | Inr rs \<Rightarrow> Inr (r # rs)))"

definition AllTaskRanges :: "int \<Rightarrow> int \<Rightarrow> kg_error + KeyGroupRange list" where
  "AllTaskRanges numKeyGroups parallelism =
     (case kg_Validate \<lparr>NumKeyGroups = numKeyGroups, Parallelism = parallelism\<rparr> of
        Some err \<Rightarrow> Inl err
      | None \<Rightarrow> task_ranges_loop [0..<nat parallelism] numKeyGroups parallelism)"

text \<open>The boundary walk of \<open>RescaleMapping\<close>. At least one of the two indices advances
  in every iteration.\<close>

function rescale_walk ::
  "KeyGroupRange list \<Rightarrow> KeyGroupRange list \<Rightarrow> nat \<Rightarrow> nat \<Rightarrow> (nat, KeyGroupRange list) gomap
   \<Rightarrow> (nat, KeyGroupRange list) gomap" where
  "rescale_walk oldRanges newRanges oldIdx newIdx result =
     (if oldIdx < length oldRanges \<and> newIdx < length newRanges then
        let oldRange = oldRanges ! oldIdx;
            newRange = newRanges ! newIdx;
            start = max (Start newRange) (Start oldRange);
            stop = min (End newRange) (End oldRange);
            result' = (if start < stop
                       then AList.update newIdx
                              (mget result newIdx [] @ [\<lparr>Start = start, End = stop\<rparr>]) result
                       else result);
            oldIdx' = (if End oldRange \<le> End newRange then oldIdx + 1 else oldIdx);
            newIdx' = (if End newRange \<le> End oldRange then newIdx + 1 else newIdx)
        in rescale_walk oldRanges newRanges oldIdx' newIdx' result'
      else result)"
  by pat_completeness auto
termination
  by (relation "measure (\<lambda>(old, new, i, j, _). (length old - i) + (length new - j))")
    (auto simp: Let_def split: if_splits)

declare rescale_walk.simps [simp del]

definition RescaleMapping ::
  "int \<Rightarrow> int \<Rightarrow> int \<Rightarrow> kg_error + (nat, KeyGroupRange list) gomap" where
  "RescaleMapping numKeyGroups oldParallelism newParallelism =
     (case AllTaskRanges numKeyGroups oldParallelism of
        Inl err \<Rightarrow> Inl err
      | Inr oldRanges \<Rightarrow>
          (case AllTaskRanges numKeyGroups newParallelism of
             Inl err \<Rightarrow> Inl err
           | Inr newRanges \<Rightarrow> Inr (rescale_walk oldRanges newRanges 0 0 [])))"

section \<open>Pebble keys\<close>

definition MinPebbleKeySize :: nat where
  "MinPebbleKeySize = 6"

definition EncodePebbleKey :: "u16 \<Rightarrow> u32 \<Rightarrow> bytes \<Rightarrow> bytes \<Rightarrow> bytes" where
  "EncodePebbleKey keyGroup operatorID userKey namespace =
     PutUint16BE keyGroup @ PutUint32BE operatorID @ userKey @ namespace"

definition DecodePebbleKey :: "bytes \<Rightarrow> kg_error + (u16 \<times> u32 \<times> bytes)" where
  "DecodePebbleKey key =
     (if length key < MinPebbleKeySize then Inl ErrPebbleKeyTooShort
      else Inr (Uint16BE (take 2 key), Uint32BE (take 4 (drop 2 key)), drop 6 key))"

definition PebbleRangeStart :: "u16 \<Rightarrow> bytes" where
  "PebbleRangeStart keyGroup = PutUint16BE keyGroup"

section \<open>The configuration check\<close>

lemma and_pred_eq_0_iff:
  fixes n :: int
  assumes "0 < n"
  shows "n AND (n - 1) = 0 \<longleftrightarrow> (\<exists>k. n = 2 ^ k)"
  using assms
proof (induction "nat n" arbitrary: n rule: less_induct)
  case less
  define m where "m = n div 2"
  show ?case
  proof (cases "even n")
    case True
    then have n: "n = 2 * m" and "0 < m" using less.prems by (auto simp: m_def)
    have "(n - 1) div 2 = m - 1" using n by simp
    then have "n AND (n - 1) = 2 * (m AND (m - 1))"
      using True by (subst and_int_rec) (simp add: m_def)
    moreover have "m AND (m - 1) = 0 \<longleftrightarrow> (\<exists>k. m = 2 ^ k)"
      using less.hyps [of m] n \<open>0 < m\<close> by simp
    moreover have "(\<exists>k. n = 2 ^ k) \<longleftrightarrow> (\<exists>k. m = 2 ^ k)"
    proof
      assume "\<exists>k. n = 2 ^ k"
      then obtain k where "n = 2 ^ k" ..
      then show "\<exists>k. m = 2 ^ k" using n True by (cases k) auto
    qed (use n in \<open>auto intro: exI [of _ "Suc _"]\<close>)
    ultimately show ?thesis by simp
  next
    case False
    then have n: "n = 2 * m + 1" by (auto simp: m_def)
    have "n AND (n - 1) = 2 * m"
      using False n by (subst and_int_rec) simp
    moreover have "(\<exists>k. n = 2 ^ k) \<longleftrightarrow> m = 0"
    proof
      assume "\<exists>k. n = 2 ^ k"
      then obtain k where "n = 2 ^ k" ..
      then show "m = 0" using n False by (cases k) auto
    qed (use n in \<open>auto intro: exI [of _ 0]\<close>)
    ultimately show ?thesis by simp
  qed
qed

definition valid_kg :: "int \<Rightarrow> int \<Rightarrow> bool" where
  "valid_kg n p \<longleftrightarrow> kg_Validate \<lparr>NumKeyGroups = n, Parallelism = p\<rparr> = None"

lemma valid_kg_bounds:
  assumes "valid_kg n p"
  shows "1 \<le> n" "n \<le> 32768" "1 \<le> p" "p \<le> n"
  using assms
  by (auto simp: valid_kg_def kg_Validate_def MinKeyGroups_def MaxKeyGroups_def split: if_splits)

section \<open>Key-group ownership\<close>

definition kg_lo :: "int \<Rightarrow> int \<Rightarrow> int \<Rightarrow> int" where
  "kg_lo n p t = t * n div p"

lemma kg_lo_mono: "valid_kg n p \<Longrightarrow> s \<le> t \<Longrightarrow> kg_lo n p s \<le> kg_lo n p t"
  using valid_kg_bounds [of n p] by (simp add: kg_lo_def zdiv_mono1 mult_right_mono)

lemma kg_lo_bounds:
  assumes "valid_kg n p" "0 \<le> t" "t \<le> p"
  shows "0 \<le> kg_lo n p t" "kg_lo n p t \<le> n"
  using kg_lo_mono [OF assms(1), of 0 t] kg_lo_mono [OF assms(1), of t p]
    valid_kg_bounds [OF assms(1)] assms by (simp_all add: kg_lo_def)

lemma uint_word16: "0 \<le> x \<Longrightarrow> x \<le> 32768 \<Longrightarrow> uint (word_of_int x :: u16) = x"
  by (simp add: uint_word_of_int)

lemma small_product_i64:
  assumes "0 \<le> a" "a \<le> 65536" "0 \<le> b" "b \<le> 65536"
  shows "in_i64 (a * b)"
proof -
  have "0 \<le> a * b" using assms by simp
  moreover have "a * b \<le> 65536 * 65536" using assms by (intro mult_mono) auto
  ultimately show ?thesis by (simp add: in_i64_def MinInt64_def MaxInt64_def)
qed

lemma go_div_product:
  assumes "0 \<le> a" "a \<le> 65536" "0 \<le> b" "b \<le> 65536" "0 < c"
  shows "go_div (wrap64 (a * b)) c = a * b div c"
  using assms small_product_i64 [OF assms(1-4)] by (simp add: wrap64_id go_div_nonneg)

lemma TaskKeyGroupRange_eq:
  assumes "valid_kg n p"
  shows "TaskKeyGroupRange t n p =
    (if 0 \<le> t \<and> t < p
     then Inr \<lparr>Start = word_of_int (kg_lo n p t), End = word_of_int (kg_lo n p (t + 1))\<rparr>
     else Inl ErrInvalidTaskIndex)"
proof -
  note b = valid_kg_bounds [OF assms]
  have "go_div (wrap64 (s * n)) p = kg_lo n p s" if "0 \<le> s" "s \<le> p" for s
    unfolding kg_lo_def using that b by (intro go_div_product) auto
  then show ?thesis
    using assms by (auto simp: TaskKeyGroupRange_def valid_kg_def)
qed

lemma Contains_range:
  assumes "valid_kg n p" "0 \<le> t" "t < p"
  shows "Contains \<lparr>Start = word_of_int (kg_lo n p t), End = word_of_int (kg_lo n p (t + 1))\<rparr> g
    \<longleftrightarrow> kg_lo n p t \<le> uint g \<and> uint g < kg_lo n p (t + 1)"
  using kg_lo_bounds [OF assms(1), of t] kg_lo_bounds [OF assms(1), of "t + 1"]
    valid_kg_bounds [OF assms(1)] assms(2,3)
  by (simp add: Contains_def word_le_def word_less_def uint_word16)

lemma kg_owner_unique:
  assumes "valid_kg n p" "kg_lo n p s \<le> g" "g < kg_lo n p (s + 1)"
    "kg_lo n p t \<le> g" "g < kg_lo n p (t + 1)"
  shows "s = t"
  using kg_lo_mono [OF assms(1), of "s + 1" t] kg_lo_mono [OF assms(1), of "t + 1" s] assms(2-)
  by (cases s t rule: linorder_cases) auto

text \<open>The estimate \<open>g * p div n\<close> is the owner or one below it.\<close>

lemma kg_estimate:
  assumes "valid_kg n p" "0 \<le> g" "g < n"
  defines "t \<equiv> g * p div n"
  shows "0 \<le> t" "t < p" "kg_lo n p t \<le> g" "g \<le> kg_lo n p (t + 1)" "g < kg_lo n p (t + 2)"
proof -
  note b = valid_kg_bounds [OF assms(1)]
  have "t * n + g * p mod n = g * p" "0 \<le> g * p mod n" "g * p mod n < n"
    using b by (simp_all add: t_def)
  then have below: "t * n \<le> g * p" and above: "g * p < (t + 1) * n"
    by (simp_all add: distrib_right)
  show "0 \<le> t" using b assms(2) by (simp add: t_def pos_imp_zdiv_nonneg_iff)
  have "g * p < n * p" using b assms(3) by simp
  then have "t * n < p * n" using below by (simp add: mult.commute)
  then show "t < p" using b by simp
  have "t * n div p \<le> g * p div p" using b below by (intro zdiv_mono1) auto
  then show "kg_lo n p t \<le> g" using b by (simp add: kg_lo_def)
  have "g * p div p \<le> (t + 1) * n div p" using b above by (intro zdiv_mono1) auto
  then show "g \<le> kg_lo n p (t + 1)" using b by (simp add: kg_lo_def)
  have "(g + 1) * p \<le> (t + 2) * n" using b above by (simp add: algebra_simps)
  then have "(g + 1) * p div p \<le> (t + 2) * n div p" using b by (intro zdiv_mono1) auto
  then show "g < kg_lo n p (t + 2)" using b by (simp add: kg_lo_def)
qed

lemma AssignedTask_owner:
  assumes "valid_kg n p" "uint g < n"
  obtains t where "AssignedTask g n p = Some t" "0 \<le> t" "t < p"
    "kg_lo n p t \<le> uint g" "uint g < kg_lo n p (t + 1)"
proof -
  note b = valid_kg_bounds [OF assms(1)]
  define t where "t = uint g * p div n"
  note e = kg_estimate [OF assms(1) uint_ge_0 [of g] assms(2), folded t_def]
  have small: "wrap64 (t + 1) = t + 1"
    using e b by (simp add: wrap64_id in_i64_def MinInt64_def MaxInt64_def)
  have "go_div (wrap64 (uint g * p)) n = t"
    unfolding t_def using b assms(2) by (intro go_div_product) auto
  moreover have "go_div (wrap64 ((t + 1) * n)) p = kg_lo n p (t + 1)"
    unfolding kg_lo_def using b e by (intro go_div_product) auto
  ultimately have eq: "AssignedTask g n p =
      (if t + 1 < p \<and> kg_lo n p (t + 1) \<le> uint g then Some (t + 1) else Some t)"
    using b by (auto simp: AssignedTask_def small Let_def)
  show thesis
  proof (cases "t + 1 < p \<and> kg_lo n p (t + 1) \<le> uint g")
    case True
    then show ?thesis using that [of "t + 1"] e eq by (simp add: add.assoc)
  next
    case False
    have "uint g < kg_lo n p (t + 1)"
    proof (cases "t + 1 < p")
      case True
      with False show ?thesis by simp
    next
      case last: False
      then have "t + 1 = p" using e by simp
      then have "kg_lo n p (t + 1) = n" using b by (simp add: kg_lo_def)
      then show ?thesis using assms(2) by simp
    qed
    then show ?thesis using that [of t] e eq False by auto
  qed
qed

section \<open>The rescale walk\<close>

definition kg_range :: "int \<Rightarrow> int \<Rightarrow> int \<Rightarrow> KeyGroupRange" where
  "kg_range n p t = \<lparr>Start = word_of_int (kg_lo n p t), End = word_of_int (kg_lo n p (t + 1))\<rparr>"

lemma task_ranges_loop_eq:
  assumes "valid_kg n p" "\<forall>i \<in> set is. int i < p"
  shows "task_ranges_loop is n p = Inr (map (\<lambda>i. kg_range n p (int i)) is)"
  using assms(2)
  by (induction "is") (simp_all add: TaskKeyGroupRange_eq [OF assms(1)] kg_range_def)

lemma AllTaskRanges_eq:
  assumes "valid_kg n p"
  shows "AllTaskRanges n p = Inr (map (\<lambda>i. kg_range n p (int i)) [0..<nat p])"
proof -
  have "kg_Validate \<lparr>NumKeyGroups = n, Parallelism = p\<rparr> = None"
    using assms by (simp add: valid_kg_def)
  then show ?thesis
    by (simp add: AllTaskRanges_def task_ranges_loop_eq [OF assms] zless_nat_eq_int_zless)
qed

definition overlap :: "KeyGroupRange \<Rightarrow> KeyGroupRange \<Rightarrow> KeyGroupRange" where
  "overlap a b = \<lparr>Start = max (Start b) (Start a), End = min (End b) (End a)\<rparr>"

text \<open>The specification of the plan: intersect every old range with the new one and keep
  what is not empty.\<close>

definition overlaps :: "KeyGroupRange list \<Rightarrow> KeyGroupRange \<Rightarrow> KeyGroupRange list" where
  "overlaps olds new =
     filter (\<lambda>r. Start r < End r) (map (\<lambda>a. overlap a new) olds)"

lemma overlaps_Nil [simp]: "overlaps [] new = []"
  by (simp add: overlaps_def)

lemma overlaps_Cons:
  "overlaps (a # olds) new =
     (if Start (overlap a new) < End (overlap a new) then [overlap a new] else [])
     @ overlaps olds new"
  by (simp add: overlaps_def)

definition ascending :: "KeyGroupRange list \<Rightarrow> bool" where
  "ascending rs \<longleftrightarrow> (\<forall>i j. i < j \<and> j < length rs \<longrightarrow> End (rs ! i) \<le> Start (rs ! j))"

lemma overlap_disjoint:
  "End a \<le> Start b \<or> End b \<le> Start a \<Longrightarrow> \<not> Start (overlap a b) < End (overlap a b)"
  by (auto simp: overlap_def)

lemma overlaps_after:
  assumes "\<forall>a \<in> set olds. End new \<le> Start a"
  shows "overlaps olds new = []"
  using assms overlap_disjoint by (auto simp: overlaps_def filter_empty_conv)

lemma ascending_drop:
  assumes "ascending rs" "i < length rs" "a \<in> set (drop (Suc i) rs)"
  shows "End (rs ! i) \<le> Start a"
proof -
  obtain k where "k < length rs - Suc i" "a = rs ! (Suc i + k)"
    using assms(3) by (auto simp: in_set_conv_nth)
  then show ?thesis using assms(1,2) by (auto simp: ascending_def)
qed

lemma rescale_walk_eq:
  assumes "ascending olds" "ascending news" "t < length news"
  shows "mget (rescale_walk olds news i j m) t [] =
    mget m t [] @ (if j \<le> t then overlaps (drop i olds) (news ! t) else [])"
proof (induction "length olds - i + (length news - j)" arbitrary: i j m rule: less_induct)
  case less
  show ?case
  proof (cases "i < length olds \<and> j < length news")
    case False
    then show ?thesis using assms(3) by (subst rescale_walk.simps) auto
  next
    case True
    define a where "a = olds ! i"
    define b where "b = news ! j"
    define piece where "piece = (if Start (overlap a b) < End (overlap a b) then [overlap a b] else [])"
    define m' where "m' = (if Start (overlap a b) < End (overlap a b)
      then AList.update j (mget m j [] @ [overlap a b]) m else m)"
    define i' where "i' = (if End a \<le> End b then Suc i else i)"
    define j' where "j' = (if End b \<le> End a then Suc j else j)"
    have step: "rescale_walk olds news i j m = rescale_walk olds news i' j' m'"
      using True by (subst rescale_walk.simps)
        (simp only: Let_def a_def b_def m'_def i'_def j'_def overlap_def KeyGroupRange.simps
          Suc_eq_plus1 if_True simp_thms)
    have "length olds - i' + (length news - j') < length olds - i + (length news - j)"
      using True by (auto simp: i'_def j'_def)
    then have IH: "mget (rescale_walk olds news i' j' m') t [] =
        mget m' t [] @ (if j' \<le> t then overlaps (drop i' olds) (news ! t) else [])"
      by (rule less.hyps)
    have m': "mget m' t [] = mget m t [] @ (if t = j then piece else [])"
      by (simp add: m'_def mget_update piece_def)
    have drop_i: "drop i olds = a # drop (Suc i) olds"
      using True by (simp add: a_def Cons_nth_drop_Suc)
    have here: "overlaps (drop i olds) b = piece @ overlaps (drop (Suc i) olds) b"
      by (simp add: drop_i overlaps_Cons piece_def)
    have rest: "overlaps (drop (Suc i) olds) b = []" if "End b \<le> End a"
      using ascending_drop [OF assms(1), of i] True that
      by (intro overlaps_after) (auto simp: a_def intro: order_trans)
    have skip: "overlaps (drop i olds) (news ! t) = overlaps (drop (Suc i) olds) (news ! t)"
      if "End a \<le> End b" "j < t"
    proof -
      have "End b \<le> Start (news ! t)" using that assms by (simp add: b_def ascending_def)
      then have "\<not> Start (overlap a (news ! t)) < End (overlap a (news ! t))"
        using that(1) by (intro overlap_disjoint) auto
      then show ?thesis by (simp add: drop_i overlaps_Cons)
    qed
    consider "t < j" | "t = j" | "j < t" by linarith
    then show ?thesis
    proof cases
      case 1
      then show ?thesis unfolding step IH m' by (simp add: j'_def)
    next
      case 2
      then have "news ! t = b" by (simp add: b_def)
      then show ?thesis unfolding step IH m'
        using 2 rest here by (simp add: i'_def j'_def)
    next
      case 3
      then show ?thesis unfolding step IH m'
        using skip by (simp add: i'_def j'_def)
    qed
  qed
qed

lemma ascending_ranges:
  assumes "valid_kg n p"
  shows "ascending (map (\<lambda>i. kg_range n p (int i)) [0..<nat p])"
  unfolding ascending_def
proof (intro allI impI)
  fix i j
  assume "i < j \<and> j < length (map (\<lambda>i. kg_range n p (int i)) [0..<nat p])"
  then have ij: "i < j" "int j < p" by auto
  have "kg_lo n p (int i + 1) \<le> kg_lo n p (int j)"
    using ij by (intro kg_lo_mono [OF assms]) auto
  then show "End (map (\<lambda>i. kg_range n p (int i)) [0..<nat p] ! i)
      \<le> Start (map (\<lambda>i. kg_range n p (int i)) [0..<nat p] ! j)"
    using ij kg_lo_bounds [OF assms, of "int i + 1"] kg_lo_bounds [OF assms, of "int j"]
      valid_kg_bounds [OF assms]
    by (simp add: kg_range_def word_le_def uint_word16)
qed

lemma Contains_kg_range:
  assumes "valid_kg n p" "uint g < n" "AssignedTask g n p = Some t" "0 \<le> s" "s < p"
  shows "Contains (kg_range n p s) g \<longleftrightarrow> s = t"
proof -
  obtain t' where t': "AssignedTask g n p = Some t'" "0 \<le> t'" "t' < p"
    "kg_lo n p t' \<le> uint g" "uint g < kg_lo n p (t' + 1)"
    using AssignedTask_owner [OF assms(1,2)] by blast
  then show ?thesis
    using Contains_range [OF assms(1,4,5), folded kg_range_def] kg_owner_unique [OF assms(1)]
      assms(3) by fastforce
qed

lemma Contains_overlap: "Contains (overlap a b) g \<longleftrightarrow> Contains a g \<and> Contains b g"
  by (auto simp: Contains_def overlap_def)

lemma filter_upt_single: "k < n \<Longrightarrow> filter (\<lambda>i. i = k) [0..<n] = [k]"
  by (induction n) (auto simp: less_Suc_eq filter_empty_conv)

lemma filter_Contains_overlaps:
  "filter (\<lambda>r. Contains r g) (overlaps olds new) =
    (if Contains new g then map (\<lambda>a. overlap a new) (filter (\<lambda>a. Contains a g) olds) else [])"
proof -
  have nonempty: "Start r < End r" if "Contains r g" for r
    using that by (auto simp: Contains_def)
  have "filter (\<lambda>r. Contains r g) (overlaps olds new) =
      filter (\<lambda>r. Contains r g) (map (\<lambda>a. overlap a new) olds)"
    unfolding overlaps_def filter_filter by (rule filter_cong) (auto dest: nonempty)
  then show ?thesis by (simp add: filter_map o_def Contains_overlap)
qed

lemma filter_owner:
  assumes "valid_kg n p" "uint g < n" "AssignedTask g n p = Some t" "0 \<le> t" "t < p"
  shows "filter (\<lambda>r. Contains r g) (map (\<lambda>i. kg_range n p (int i)) [0..<nat p])
    = [kg_range n p t]"
proof -
  have "filter (\<lambda>i. Contains (kg_range n p (int i)) g) [0..<nat p] =
      filter (\<lambda>i. i = nat t) [0..<nat p]"
    using Contains_kg_range [OF assms(1,2,3)] assms(4) by (intro filter_cong) auto
  then show ?thesis
    using assms(4,5) by (simp add: filter_map o_def filter_upt_single)
qed

lemma RescaleMapping_eq:
  assumes "valid_kg n p" "valid_kg n q"
  obtains m where "RescaleMapping n p q = Inr m"
    "\<And>t. t < nat q \<Longrightarrow> mget m t [] =
       overlaps (map (\<lambda>i. kg_range n p (int i)) [0..<nat p]) (kg_range n q (int t))"
  using that rescale_walk_eq [OF ascending_ranges [OF assms(1)] ascending_ranges [OF assms(2)],
      where i = 0 and j = 0 and m = "[]"]
  by (simp add: RescaleMapping_def AllTaskRanges_eq assms)

section \<open>Key order\<close>

lemma EncodePebbleKey_prefix:
  "EncodePebbleKey g oper k ns = PebbleRangeStart g @ (PutUint32BE oper @ k @ ns)"
  by (simp add: EncodePebbleKey_def PebbleRangeStart_def)

lemma PebbleRangeStart_le_iff: "PebbleRangeStart a \<le> PebbleRangeStart b @ r \<longleftrightarrow> a \<le> b"
proof (cases a b rule: linorder_cases)
  case less
  then show ?thesis
    using PutUint16BE_less [OF less, of "[]" r] by (auto simp: PebbleRangeStart_def)
next
  case equal
  have "(xs :: byte list) \<le> xs @ r" for xs by (induction xs) auto
  then show ?thesis using equal by simp
next
  case greater
  then show ?thesis
    using PutUint16BE_less [OF greater, of r "[]"] by (auto simp: PebbleRangeStart_def)
qed

section \<open>Properties\<close>

text \<open>The configuration check accepts exactly the configurations it documents: a
  power-of-two number of key groups between 1 and 32768 and a parallelism between 1 and
  that number.\<close>

theorem validate_accepts_iff:
  "kg_Validate c = None \<longleftrightarrow>
    (\<exists>k \<le> 15. NumKeyGroups c = 2 ^ k) \<and> 1 \<le> Parallelism c \<and> Parallelism c \<le> NumKeyGroups c"
proof -
  have range: "2 ^ k \<le> (32768 :: int) \<longleftrightarrow> k \<le> 15" for k
    using power_increasing_iff [of "2 :: int" k 15] by simp
  have "NumKeyGroups c \<ge> 1 \<and> NumKeyGroups c \<le> 32768 \<and> (\<exists>k. NumKeyGroups c = 2 ^ k)
      \<longleftrightarrow> (\<exists>k \<le> 15. NumKeyGroups c = 2 ^ k)"
    using range by (auto simp: one_le_power)
  then show ?thesis
    using and_pred_eq_0_iff [of "NumKeyGroups c"]
    by (auto simp: kg_Validate_def MinKeyGroups_def MaxKeyGroups_def)
qed

text \<open>C5. Ownership is a function: for a valid configuration every key group has exactly one
  task whose range contains it, and \<open>AssignedTask\<close>, which never builds the ranges, returns
  that task.\<close>

theorem assigned_task_unique_owner:
  assumes "kg_Validate \<lparr>NumKeyGroups = n, Parallelism = p\<rparr> = None" and "uint g < n"
  shows "\<exists>t r. AssignedTask g n p = Some t \<and> TaskKeyGroupRange t n p = Inr r \<and> Contains r g \<and>
    (\<forall>t' r'. TaskKeyGroupRange t' n p = Inr r' \<and> Contains r' g \<longrightarrow> t' = t)"
proof -
  have v: "valid_kg n p" using assms(1) by (simp add: valid_kg_def)
  obtain t where t: "AssignedTask g n p = Some t" "0 \<le> t" "t < p"
    using AssignedTask_owner [OF v assms(2)] by blast
  note own = Contains_kg_range [OF v assms(2) t(1)]
  have range: "TaskKeyGroupRange t' n p = Inr r' \<longleftrightarrow> 0 \<le> t' \<and> t' < p \<and> r' = kg_range n p t'"
    for t' r'
    by (auto simp: TaskKeyGroupRange_eq [OF v] kg_range_def)
  show ?thesis using t own by (intro exI [of _ t]) (auto simp: range)
qed

theorem assigned_task_unique_owner_witness:
  "\<exists>t r. AssignedTask 127 128 3 = Some t \<and> TaskKeyGroupRange t 128 3 = Inr r \<and> Contains r 127 \<and>
    (\<forall>t' r'. TaskKeyGroupRange t' 128 3 = Inr r' \<and> Contains r' 127 \<longrightarrow> t' = t)"
  by (rule assigned_task_unique_owner)
    (simp_all add: kg_Validate_def MinKeyGroups_def MaxKeyGroups_def)

text \<open>C26. A rescale moves every key group exactly once. Whatever the two parallelisms, the
  plan of the boundary walk gives each key group to its new owner and to nobody else, in one
  piece, and that piece is the overlap of the ranges of the old and the new owner.\<close>

theorem rescale_moves_each_key_group_once:
  assumes "kg_Validate \<lparr>NumKeyGroups = n, Parallelism = p\<rparr> = None"
    and "kg_Validate \<lparr>NumKeyGroups = n, Parallelism = q\<rparr> = None" and "uint g < n"
  shows "\<exists>m old new ro rn. RescaleMapping n p q = Inr m
    \<and> AssignedTask g n p = Some old \<and> TaskKeyGroupRange old n p = Inr ro
    \<and> AssignedTask g n q = Some new \<and> TaskKeyGroupRange new n q = Inr rn
    \<and> (\<forall>t < nat q. filter (\<lambda>r. Contains r g) (mget m t []) =
        (if int t = new then [\<lparr>Start = max (Start rn) (Start ro), End = min (End rn) (End ro)\<rparr>]
         else []))"
proof -
  have v: "valid_kg n p" "valid_kg n q" using assms(1,2) by (simp_all add: valid_kg_def)
  obtain m where m: "RescaleMapping n p q = Inr m"
    "\<And>t. t < nat q \<Longrightarrow> mget m t [] =
       overlaps (map (\<lambda>i. kg_range n p (int i)) [0..<nat p]) (kg_range n q (int t))"
    using RescaleMapping_eq [OF v] by blast
  obtain old where old: "AssignedTask g n p = Some old" "0 \<le> old" "old < p"
    using AssignedTask_owner [OF v(1) assms(3)] by blast
  obtain new where new: "AssignedTask g n q = Some new" "0 \<le> new" "new < q"
    using AssignedTask_owner [OF v(2) assms(3)] by blast
  have "filter (\<lambda>r. Contains r g) (mget m t []) =
      (if int t = new then [overlap (kg_range n p old) (kg_range n q new)] else [])"
    if "t < nat q" for t
    using that m(2) Contains_kg_range [OF v(2) assms(3) new(1), of "int t"]
    by (simp add: filter_Contains_overlaps filter_owner [OF v(1) assms(3) old])
  then show ?thesis
    using m(1) old new
    by (simp add: TaskKeyGroupRange_eq [OF v(1)] TaskKeyGroupRange_eq [OF v(2)]
        kg_range_def overlap_def)
qed

theorem rescale_moves_each_key_group_once_witness:
  "\<exists>m old new ro rn. RescaleMapping 8 3 2 = Inr m
    \<and> AssignedTask 4 8 3 = Some old \<and> TaskKeyGroupRange old 8 3 = Inr ro
    \<and> AssignedTask 4 8 2 = Some new \<and> TaskKeyGroupRange new 8 2 = Inr rn
    \<and> (\<forall>t < nat 2. filter (\<lambda>r. Contains r 4) (mget m t []) =
        (if int t = new then [\<lparr>Start = max (Start rn) (Start ro), End = min (End rn) (End ro)\<rparr>]
         else []))"
  by (rule rescale_moves_each_key_group_once)
    (simp_all add: kg_Validate_def MinKeyGroups_def MaxKeyGroups_def)

text \<open>Pebble keys decode to what was encoded, a key shorter than the fixed prefix is
  rejected, and a scan between two range starts visits exactly the keys of the key groups
  between them.\<close>

theorem pebble_key_codec:
  "DecodePebbleKey (EncodePebbleKey g oper k ns) = Inr (g, oper, k @ ns)
   \<and> (DecodePebbleKey bs = Inl ErrPebbleKeyTooShort \<longleftrightarrow> length bs < 6)
   \<and> (PebbleRangeStart lo \<le> EncodePebbleKey g oper k ns \<and>
      EncodePebbleKey g oper k ns < PebbleRangeStart hi \<longleftrightarrow> lo \<le> g \<and> g < hi)"
proof (intro conjI)
  have "drop 6 (EncodePebbleKey g oper k ns) = drop 4 (drop 2 (EncodePebbleKey g oper k ns))"
    by simp
  then show "DecodePebbleKey (EncodePebbleKey g oper k ns) = Inr (g, oper, k @ ns)"
    by (simp add: DecodePebbleKey_def MinPebbleKeySize_def EncodePebbleKey_def codec_simps
        del: drop_drop)
  show "DecodePebbleKey bs = Inl ErrPebbleKeyTooShort \<longleftrightarrow> length bs < 6"
    by (simp add: DecodePebbleKey_def MinPebbleKeySize_def)
  have "PebbleRangeStart lo \<le> EncodePebbleKey g oper k ns \<longleftrightarrow> lo \<le> g" for lo
    by (simp add: EncodePebbleKey_prefix PebbleRangeStart_le_iff)
  from this [of lo] this [of hi]
  show "PebbleRangeStart lo \<le> EncodePebbleKey g oper k ns \<and>
      EncodePebbleKey g oper k ns < PebbleRangeStart hi \<longleftrightarrow> lo \<le> g \<and> g < hi"
    by (simp add: not_le [symmetric])
qed

end
