(* ===== verification/Events.thy ===== *)
theory Events
  imports Wire_Prelude
begin

text \<open>
  The records that flow through a task (\<^verbatim>\<open>internal/engine/event.go\<close>): data events with
  their internal markers, control messages and output messages. A nil and an empty byte
  slice are both the empty list. A pointer to the shared watermark tracker is left out of the
  markers: a task has one tracker, and the marker's input index selects the entry.
\<close>

text \<open>A reference to the snapshot of an operator (\<^verbatim>\<open>internal/engine/state_backend.go\<close>).\<close>

record SnapshotHandle =
  hd_CheckpointID :: u64
  hd_BackendType :: string
  hd_Data :: bytes

record DataRecordMsg =
  msg_Key :: bytes
  msg_Value :: bytes
  msg_EventTime :: int
  msg_Headers :: "(string, bytes) gomap"

record Event =
  inputActivity :: "int option"
  inputWatermark :: "(int \<times> int) option"
  ev_watermark :: "int option"
  Key :: bytes
  Value :: bytes
  EventTime :: int
  Headers :: "(string, bytes) gomap"

definition EventFromProto :: "DataRecordMsg \<Rightarrow> Event" where
  "EventFromProto msg =
     \<lparr>inputActivity = None, inputWatermark = None, ev_watermark = None,
      Key = msg_Key msg, Value = msg_Value msg, EventTime = msg_EventTime msg,
      Headers = msg_Headers msg\<rparr>"

definition ToProto :: "Event \<Rightarrow> DataRecordMsg" where
  "ToProto e =
     \<lparr>msg_Key = Key e, msg_Value = Value e, msg_EventTime = EventTime e,
      msg_Headers = Headers e\<rparr>"

definition WatermarkEvent :: "int \<Rightarrow> Event" where
  "WatermarkEvent timestamp =
     \<lparr>inputActivity = None, inputWatermark = None, ev_watermark = Some timestamp,
      Key = [], Value = [], EventTime = 0, Headers = []\<rparr>"

text \<open>The logical size of a buffered event. The header loop adds in map order, which does not
  change the sum.\<close>

definition eventPayloadBytes :: "Event \<Rightarrow> int" where
  "eventPayloadBytes event =
     wrap64 (int (length (Key event)) + int (length (Value event)) + 8
       + (\<Sum>(k, v) \<leftarrow> Headers event. int (length k) + int (length v)))"

datatype ControlType =
    CtrlBarrierReceived
  | CtrlAbortCheckpoint
  | CtrlShutdown
  | CtrlEndOfPartition
  | CtrlCommitCheckpoint
  | CtrlAbortTransaction
  | CtrlDrainInputs

record ControlMsg =
  ctl_Type :: ControlType
  ctl_InputIndex :: int
  ctl_CheckpointID :: u64
  ctl_EpochID :: u64

datatype OutputMsg =
    OutputData Event
  | OutputBarrier u64 u64
  | OutputWatermark int
  | OutputEnd

lemma ToProto_FromProto: "ToProto (EventFromProto msg) = msg"
  by (simp add: ToProto_def EventFromProto_def)

end
