(* ===== verification/Barrier.thy ===== *)
theory Barrier
  imports Events
begin

text \<open>
  Checkpoint barrier alignment (\<^verbatim>\<open>internal/engine/barrier.go\<close>). Every operation runs under
  the aligner's mutex, so it is one atomic function on the state. The \<open>changed\<close> channel is a
  generation number: \<open>signalChangeLocked\<close> closes the channel and makes a new one. An operation
  that blocks on it is modelled by one iteration of its loop, with an outcome that says it
  waits. The clock is an argument. The zero time is \<open>None\<close>.
\<close>

section \<open>State and operations\<close>

record BarrierAligner =
  retiredID :: u64
  retiredEpoch :: u64
  changed :: nat
  draining :: bool
  bufferedBytes :: int
  numInputs :: int
  maxBufferSize :: int
  activeID :: u64
  activeEpoch :: u64
  arrived :: "(int, bool) gomap"
  sideBuffers :: "(int, Event list) gomap"
  alignStartTime :: "int option"

definition NewBarrierAligner :: "int \<Rightarrow> int \<Rightarrow> BarrierAligner" where
  "NewBarrierAligner inputs maxSize =
     \<lparr>retiredID = 0, retiredEpoch = 0, changed = 0, draining = False, bufferedBytes = 0,
      numInputs = inputs, maxBufferSize = maxSize, activeID = 0, activeEpoch = 0,
      arrived = [], sideBuffers = [], alignStartTime = None\<rparr>"

definition signalChangeLocked :: "BarrierAligner \<Rightarrow> BarrierAligner" where
  "signalChangeLocked ba = ba\<lparr>changed := Suc (changed ba)\<rparr>"

definition isRetiredLocked :: "BarrierAligner \<Rightarrow> u64 \<Rightarrow> u64 \<Rightarrow> bool" where
  "isRetiredLocked ba cid epoch \<longleftrightarrow>
     epoch < retiredEpoch ba \<or> (epoch = retiredEpoch ba \<and> cid \<le> retiredID ba)"

definition retireLocked :: "u64 \<Rightarrow> u64 \<Rightarrow> BarrierAligner \<Rightarrow> BarrierAligner" where
  "retireLocked cid epoch ba =
     (if cid \<noteq> 0 \<and> \<not> isRetiredLocked ba cid epoch
      then ba\<lparr>retiredID := cid, retiredEpoch := epoch\<rparr> else ba)"

text \<open>The first barrier of a checkpoint starts the alignment.\<close>

definition start_alignment :: "int \<Rightarrow> u64 \<Rightarrow> u64 \<Rightarrow> BarrierAligner \<Rightarrow> BarrierAligner" where
  "start_alignment now checkpointID epochID ba =
     (if activeID ba = 0
      then ba\<lparr>activeID := checkpointID, activeEpoch := epochID, alignStartTime := Some now\<rparr>
      else ba)"

text \<open>Allocating a side buffer with a negative capacity panics: \<open>None\<close>.\<close>

definition OnBarrier ::
  "int \<Rightarrow> int \<Rightarrow> u64 \<Rightarrow> u64 \<Rightarrow> BarrierAligner \<Rightarrow> (bool \<times> BarrierAligner) option" where
  "OnBarrier now inputIndex checkpointID epochID ba =
     (if isRetiredLocked ba checkpointID epochID \<or> draining ba \<or> inputIndex < 0 \<or>
         inputIndex \<ge> numInputs ba \<or> checkpointID = 0
      then Some (False, ba)
      else if activeID ba \<noteq> 0 \<and> (activeID ba \<noteq> checkpointID \<or> activeEpoch ba \<noteq> epochID)
      then Some (False, ba)
      else
        let ba1 = start_alignment now checkpointID epochID ba;
            ba2 = ba1\<lparr>arrived := AList.update inputIndex True (arrived ba1)\<rparr>
        in if map_of (sideBuffers ba2) inputIndex = None
           then if maxBufferSize ba2 < 0 then None
                else let ba3 = ba2\<lparr>sideBuffers := AList.update inputIndex [] (sideBuffers ba2)\<rparr>
                     in Some (int (length (arrived ba3)) \<ge> numInputs ba3, ba3)
           else Some (int (length (arrived ba2)) \<ge> numInputs ba2, ba2))"

definition IsAligning :: "BarrierAligner \<Rightarrow> int \<Rightarrow> bool" where
  "IsAligning ba inputIndex \<longleftrightarrow> activeID ba \<noteq> 0 \<and> mget (arrived ba) inputIndex False"

text \<open>\<open>BufferEvent\<close> returns \<open>True\<close> for \<open>ErrSideBufferFull\<close>.\<close>

definition BufferEvent :: "int \<Rightarrow> Event \<Rightarrow> BarrierAligner \<Rightarrow> bool \<times> BarrierAligner" where
  "BufferEvent inputIndex event ba =
     (let buf = mget (sideBuffers ba) inputIndex []
      in if int (length buf) \<ge> maxBufferSize ba then (True, ba)
         else (False, ba\<lparr>sideBuffers := AList.update inputIndex (buf @ [event]) (sideBuffers ba),
                         bufferedBytes := wrap64 (bufferedBytes ba + eventPayloadBytes event)\<rparr>))"

definition AllAligned :: "BarrierAligner \<Rightarrow> u64 \<Rightarrow> bool" where
  "AllAligned ba checkpointID \<longleftrightarrow>
     checkpointID \<noteq> 0 \<and> activeID ba = checkpointID \<and> int (length (arrived ba)) \<ge> numInputs ba"

text \<open>The loop that every release shares: append the buffer of each input in order and leave
  an empty buffer behind.\<close>

fun drain_loop ::
  "int list \<Rightarrow> (int, Event list) gomap \<Rightarrow> Event list \<times> (int, Event list) gomap" where
  "drain_loop [] bufs = ([], bufs)"
| "drain_loop (i # is) bufs =
     (let buf = mget bufs i [];
          (rest, bufs') = drain_loop is (AList.update i [] bufs)
      in (buf @ rest, bufs'))"

definition inputs_of :: "BarrierAligner \<Rightarrow> int list" where
  "inputs_of ba = map int [0..<nat (numInputs ba)]"

definition DrainAll :: "u64 \<Rightarrow> BarrierAligner \<Rightarrow> Event list \<times> BarrierAligner" where
  "DrainAll checkpointID ba =
     (if activeID ba \<noteq> checkpointID then ([], ba)
      else let (events, bufs) = drain_loop (inputs_of ba) (sideBuffers ba)
           in (events, signalChangeLocked (ba\<lparr>sideBuffers := bufs, bufferedBytes := 0\<rparr>)))"

definition Reset :: "u64 \<Rightarrow> BarrierAligner \<Rightarrow> BarrierAligner" where
  "Reset checkpointID ba =
     (if activeID ba \<noteq> checkpointID \<and> activeID ba \<noteq> 0 then ba
      else signalChangeLocked
        (ba\<lparr>activeID := 0, activeEpoch := 0, alignStartTime := None, arrived := [],
            sideBuffers := map (\<lambda>(i, _). (i, [])) (sideBuffers ba), bufferedBytes := 0\<rparr>))"

definition BufferedEventCount :: "BarrierAligner \<Rightarrow> int" where
  "BufferedEventCount ba = (\<Sum>(_, buf) \<leftarrow> sideBuffers ba. int (length buf))"

text \<open>One iteration of \<open>BufferAlignedEvent\<close>: the context error, the event is not part of an
  alignment, it was buffered, or the buffer is full and the caller waits for a change.\<close>

datatype buffer_outcome = BufCancelled | BufNotAligning | BufStored | BufWait

definition BufferAlignedEvent ::
  "bool \<Rightarrow> int \<Rightarrow> Event \<Rightarrow> BarrierAligner \<Rightarrow> buffer_outcome \<times> BarrierAligner" where
  "BufferAlignedEvent ctxErr input event ba =
     (if ctxErr then (BufCancelled, ba)
      else if activeID ba = 0 \<or> \<not> mget (arrived ba) input False then (BufNotAligning, ba)
      else if int (length (mget (sideBuffers ba) input [])) < maxBufferSize ba
      then (BufStored,
            ba\<lparr>sideBuffers := AList.update input (mget (sideBuffers ba) input [] @ [event])
                               (sideBuffers ba),
               bufferedBytes := wrap64 (bufferedBytes ba + eventPayloadBytes event)\<rparr>)
      else (BufWait, ba))"

definition FinishAlignment :: "u64 \<Rightarrow> BarrierAligner \<Rightarrow> Event list \<times> BarrierAligner" where
  "FinishAlignment checkpointID ba =
     (if activeID ba \<noteq> checkpointID then ([], ba)
      else
        let ba1 = retireLocked (activeID ba) (activeEpoch ba) ba;
            (events, bufs) = drain_loop (inputs_of ba1) (sideBuffers ba1)
        in (events, signalChangeLocked
             (ba1\<lparr>sideBuffers := bufs, activeID := 0, activeEpoch := 0, alignStartTime := None,
                  arrived := [], bufferedBytes := 0\<rparr>)))"

datatype prior_outcome = PriorOk | PriorSkipped int u64 u64 | PriorWait

definition WaitForPriorAlignment :: "int \<Rightarrow> u64 \<Rightarrow> BarrierAligner \<Rightarrow> prior_outcome" where
  "WaitForPriorAlignment input checkpointID ba =
     (if activeID ba = 0 \<or> activeID ba \<ge> checkpointID then PriorOk
      else if \<not> mget (arrived ba) input False then PriorSkipped input (activeID ba) checkpointID
      else PriorWait)"

definition BeginDrain :: "BarrierAligner \<Rightarrow> Event list \<times> BarrierAligner" where
  "BeginDrain ba =
     (let (events, bufs) = drain_loop (inputs_of ba) (sideBuffers ba)
      in (events, signalChangeLocked
           (ba\<lparr>draining := True, sideBuffers := bufs, activeID := 0, activeEpoch := 0,
               arrived := [], alignStartTime := None, bufferedBytes := 0\<rparr>)))"

definition AbortAlignment :: "u64 \<Rightarrow> u64 \<Rightarrow> BarrierAligner \<Rightarrow> Event list \<times> BarrierAligner" where
  "AbortAlignment cid epoch ba =
     (let ba1 = retireLocked cid epoch ba
      in if activeID ba1 \<noteq> cid \<or> activeEpoch ba1 \<noteq> epoch then ([], ba1)
         else
           let (events, bufs) = drain_loop (inputs_of ba1) (sideBuffers ba1)
           in (events, signalChangeLocked
                (ba1\<lparr>sideBuffers := bufs, activeID := 0, activeEpoch := 0, alignStartTime := None,
                     arrived := [], bufferedBytes := 0\<rparr>)))"

section \<open>The state machine\<close>

text \<open>The operations the engine performs on a shared aligner: the input readers call
  \<open>OnBarrier\<close> and \<open>BufferAlignedEvent\<close>, the operator chain calls the three releases.\<close>

datatype aligner_label =
    LBarrier int u64 u64 bool
  | LBuffer int Event buffer_outcome
  | LRelease "Event list"

inductive aligner_step :: "BarrierAligner \<Rightarrow> aligner_label \<Rightarrow> BarrierAligner \<Rightarrow> bool" where
  barrier: "OnBarrier now i cid ep ba = Some (r, ba') \<Longrightarrow> aligner_step ba (LBarrier i cid ep r) ba'"
| buffer: "BufferAlignedEvent ctxErr i e ba = (out, ba') \<Longrightarrow> aligner_step ba (LBuffer i e out) ba'"
| finish: "FinishAlignment cid ba = (es, ba') \<Longrightarrow> aligner_step ba (LRelease es) ba'"
| abort: "AbortAlignment cid ep ba = (es, ba') \<Longrightarrow> aligner_step ba (LRelease es) ba'"
| drain: "BeginDrain ba = (es, ba') \<Longrightarrow> aligner_step ba (LRelease es) ba'"

inductive_cases aligner_stepE: "aligner_step ba l ba'"

inductive aligner_run :: "BarrierAligner \<Rightarrow> aligner_label list \<Rightarrow> BarrierAligner \<Rightarrow> bool" where
  start: "aligner_run ba [] ba"
| more: "aligner_run ba ls ba' \<Longrightarrow> aligner_step ba' l ba'' \<Longrightarrow> aligner_run ba (ls @ [l]) ba''"

fun stored_from :: "int \<Rightarrow> aligner_label list \<Rightarrow> Event list" where
  "stored_from i [] = []"
| "stored_from i (l # ls) =
     (case l of LBuffer j e BufStored \<Rightarrow> (if j = i then [e] else []) | _ \<Rightarrow> [])
     @ stored_from i ls"

fun released :: "aligner_label list \<Rightarrow> Event list list" where
  "released [] = []"
| "released (l # ls) = (case l of LRelease es \<Rightarrow> [es] | _ \<Rightarrow> []) @ released ls"

section \<open>Invariant\<close>

definition payload_sum :: "Event list \<Rightarrow> int" where
  "payload_sum es = (\<Sum>e \<leftarrow> es. eventPayloadBytes e)"

definition aligner_inv :: "BarrierAligner \<Rightarrow> bool" where
  "aligner_inv ba \<longleftrightarrow>
     distinct (map fst (arrived ba))
     \<and> (\<forall>(i, b) \<in> set (arrived ba). b \<and> 0 \<le> i \<and> i < numInputs ba)
     \<and> (activeID ba = 0 \<longrightarrow> arrived ba = [] \<and> activeEpoch ba = 0 \<and> alignStartTime ba = None)
     \<and> (draining ba \<longrightarrow> activeID ba = 0)
     \<and> (\<forall>i. mget (sideBuffers ba) i [] \<noteq> [] \<longrightarrow>
          mget (arrived ba) i False \<and> int (length (mget (sideBuffers ba) i [])) \<le> maxBufferSize ba)
     \<and> bufferedBytes ba = wrap64 (\<Sum>i \<in> {0..<numInputs ba}. payload_sum (mget (sideBuffers ba) i []))"

lemma aligner_invI:
  assumes "distinct (map fst (arrived ba))"
    and "\<And>i b. (i, b) \<in> set (arrived ba) \<Longrightarrow> b \<and> 0 \<le> i \<and> i < numInputs ba"
    and "activeID ba = 0 \<Longrightarrow> arrived ba = [] \<and> activeEpoch ba = 0 \<and> alignStartTime ba = None"
    and "draining ba \<Longrightarrow> activeID ba = 0"
    and "\<And>i. mget (sideBuffers ba) i [] \<noteq> [] \<Longrightarrow>
      mget (arrived ba) i False \<and> int (length (mget (sideBuffers ba) i [])) \<le> maxBufferSize ba"
    and "bufferedBytes ba =
      wrap64 (\<Sum>i \<in> {0..<numInputs ba}. payload_sum (mget (sideBuffers ba) i []))"
  shows "aligner_inv ba"
  unfolding aligner_inv_def using assms by blast

lemma aligner_invD:
  assumes "aligner_inv ba"
  shows "distinct (map fst (arrived ba))"
    and "(i, b) \<in> set (arrived ba) \<Longrightarrow> b \<and> 0 \<le> i \<and> i < numInputs ba"
    and "activeID ba = 0 \<Longrightarrow> arrived ba = [] \<and> activeEpoch ba = 0 \<and> alignStartTime ba = None"
    and "draining ba \<Longrightarrow> activeID ba = 0"
    and "mget (sideBuffers ba) i [] \<noteq> [] \<Longrightarrow>
      mget (arrived ba) i False \<and> int (length (mget (sideBuffers ba) i [])) \<le> maxBufferSize ba"
    and "bufferedBytes ba =
      wrap64 (\<Sum>i \<in> {0..<numInputs ba}. payload_sum (mget (sideBuffers ba) i []))"
  using assms unfolding aligner_inv_def by blast+

lemma mget_arrived_iff:
  assumes "aligner_inv ba"
  shows "mget (arrived ba) i False \<longleftrightarrow> i \<in> fst ` set (arrived ba)"
proof
  assume "mget (arrived ba) i False"
  then show "i \<in> fst ` set (arrived ba)"
    by (auto simp: mget_def split: option.splits dest: map_of_SomeD intro: rev_image_eqI)
next
  assume "i \<in> fst ` set (arrived ba)"
  then obtain b where "(i, b) \<in> set (arrived ba)" by auto
  then show "mget (arrived ba) i False" using assms by (auto simp: aligner_inv_def mget_def)
qed

lemma arrived_in_range:
  "aligner_inv ba \<Longrightarrow> mget (arrived ba) i False \<Longrightarrow> 0 \<le> i \<and> i < numInputs ba"
  by (auto simp: mget_arrived_iff) (auto simp: aligner_inv_def)

lemma buffer_in_range:
  "aligner_inv ba \<Longrightarrow> mget (sideBuffers ba) i [] \<noteq> [] \<Longrightarrow> 0 \<le> i \<and> i < numInputs ba"
  by (rule arrived_in_range) (auto simp: aligner_inv_def)

lemma all_arrived_iff:
  assumes "aligner_inv ba"
  shows "numInputs ba \<le> int (length (arrived ba)) \<longleftrightarrow>
    (\<forall>i. 0 \<le> i \<and> i < numInputs ba \<longrightarrow> mget (arrived ba) i False)"
proof -
  define K where "K = fst ` set (arrived ba)"
  have sub: "K \<subseteq> {0..<numInputs ba}"
    using assms by (auto simp: K_def aligner_inv_def)
  have "distinct (map fst (arrived ba))" using assms by (simp add: aligner_inv_def)
  from distinct_card [OF this] have card: "card K = length (arrived ba)" by (simp add: K_def)
  have "numInputs ba \<le> int (card K) \<longleftrightarrow> K = {0..<numInputs ba}"
  proof
    assume "numInputs ba \<le> int (card K)"
    then have "card {0..<numInputs ba} \<le> card K" by simp
    then show "K = {0..<numInputs ba}" using sub by (intro card_seteq) auto
  qed simp
  then show ?thesis
    using sub by (auto simp: card mget_arrived_iff [OF assms] K_def [symmetric])
qed

lemma wrap64_add: "wrap64 (wrap64 a + b) = wrap64 (a + b)"
  by (simp add: wrap64_def mod_simps algebra_simps)

lemma aligner_inv_New: "aligner_inv (NewBarrierAligner n m)"
  by (simp add: aligner_inv_def NewBarrierAligner_def payload_sum_def wrap64_id in_i64_def
      MinInt64_def MaxInt64_def)

subsection \<open>Draining\<close>

lemma drain_loop_events:
  "distinct is \<Longrightarrow> fst (drain_loop is bufs) = concat (map (\<lambda>i. mget bufs i []) is)"
proof (induction "is" arbitrary: bufs)
  case (Cons i "is")
  then have "map (\<lambda>j. mget (AList.update i [] bufs) j []) is = map (\<lambda>j. mget bufs j []) is"
    by (intro map_cong) auto
  with Cons show ?case by (simp add: Let_def split_def del: mget_update map_eq_conv)
qed simp

lemma drain_loop_bufs:
  "mget (snd (drain_loop is bufs)) j [] = (if j \<in> set is then [] else mget bufs j [])"
  by (induction "is" arbitrary: bufs) (auto simp: Let_def split_def)

lemma distinct_inputs_of [simp]: "distinct (inputs_of ba)"
  by (simp add: inputs_of_def distinct_map)

lemma set_inputs_of [simp]: "i \<in> set (inputs_of ba) \<longleftrightarrow> 0 \<le> i \<and> i < numInputs ba"
  by (auto simp: inputs_of_def image_iff intro!: bexI [of _ "nat i"])

text \<open>What the three releases share: nothing happened but a retirement, or every buffer was
  emptied in input order and the alignment ended.\<close>

definition cleared :: "BarrierAligner \<Rightarrow> BarrierAligner \<Rightarrow> bool" where
  "cleared ba ba' \<longleftrightarrow> activeID ba' = 0 \<and> activeEpoch ba' = 0 \<and> alignStartTime ba' = None
     \<and> arrived ba' = [] \<and> bufferedBytes ba' = 0 \<and> numInputs ba' = numInputs ba
     \<and> maxBufferSize ba' = maxBufferSize ba
     \<and> sideBuffers ba' = snd (drain_loop (inputs_of ba) (sideBuffers ba))"

lemma retireLocked_fields [simp]:
  "activeID (retireLocked cid ep ba) = activeID ba"
  "activeEpoch (retireLocked cid ep ba) = activeEpoch ba"
  "sideBuffers (retireLocked cid ep ba) = sideBuffers ba"
  "numInputs (retireLocked cid ep ba) = numInputs ba"
  "maxBufferSize (retireLocked cid ep ba) = maxBufferSize ba"
  "inputs_of (retireLocked cid ep ba) = inputs_of ba"
  "arrived (retireLocked cid ep ba) = arrived ba"
  "aligner_inv (retireLocked cid ep ba) = aligner_inv ba"
  by (simp_all add: retireLocked_def inputs_of_def aligner_inv_def)

lemma release_cases:
  assumes "FinishAlignment cid ba = (es, ba') \<or> AbortAlignment cid ep ba = (es, ba') \<or>
    BeginDrain ba = (es, ba')"
  obtains "es = []" "\<exists>c e. ba' = retireLocked c e ba \<or> ba' = ba"
  | "es = fst (drain_loop (inputs_of ba) (sideBuffers ba))" "cleared ba ba'"
  using assms
  by (auto simp: FinishAlignment_def AbortAlignment_def BeginDrain_def cleared_def Let_def
      split_def signalChangeLocked_def split: if_splits)

lemma cleared_inv:
  assumes "aligner_inv ba" "cleared ba ba'"
  shows "aligner_inv ba'" "mget (sideBuffers ba') i [] = []"
proof -
  show e: "mget (sideBuffers ba') i [] = []" for i
    using buffer_in_range [OF assms(1), of i] assms(2) by (auto simp: cleared_def drain_loop_bufs)
  show "aligner_inv ba'"
    using assms(2) e by (simp add: aligner_inv_def cleared_def payload_sum_def wrap64_id in_i64_def
      MinInt64_def MaxInt64_def)
qed

subsection \<open>One step\<close>

lemma start_alignment_fields [simp]:
  "activeID (start_alignment now cid ep ba) = (if activeID ba = 0 then cid else activeID ba)"
  "activeEpoch (start_alignment now cid ep ba) = (if activeID ba = 0 then ep else activeEpoch ba)"
  "arrived (start_alignment now cid ep ba) = arrived ba"
  "sideBuffers (start_alignment now cid ep ba) = sideBuffers ba"
  "numInputs (start_alignment now cid ep ba) = numInputs ba"
  "maxBufferSize (start_alignment now cid ep ba) = maxBufferSize ba"
  "bufferedBytes (start_alignment now cid ep ba) = bufferedBytes ba"
  "draining (start_alignment now cid ep ba) = draining ba"
  "retiredID (start_alignment now cid ep ba) = retiredID ba"
  "retiredEpoch (start_alignment now cid ep ba) = retiredEpoch ba"
  by (simp_all add: start_alignment_def)

definition barrier_accepted :: "BarrierAligner \<Rightarrow> int \<Rightarrow> u64 \<Rightarrow> u64 \<Rightarrow> bool" where
  "barrier_accepted ba i cid ep \<longleftrightarrow>
     \<not> isRetiredLocked ba cid ep \<and> \<not> draining ba \<and> 0 \<le> i \<and> i < numInputs ba \<and> cid \<noteq> 0 \<and>
     (activeID ba = 0 \<or> activeID ba = cid \<and> activeEpoch ba = ep)"

lemma OnBarrier_rejected:
  "\<not> barrier_accepted ba i cid ep \<Longrightarrow> OnBarrier now i cid ep ba = Some (False, ba)"
  by (auto simp: barrier_accepted_def OnBarrier_def split del: if_split split: if_splits)

lemma OnBarrier_cases:
  assumes "OnBarrier now i cid ep ba = Some (r, ba')"
  obtains (ignored) "\<not> r" "ba' = ba" "\<not> barrier_accepted ba i cid ep"
  | (counted) "0 \<le> i" "i < numInputs ba" "cid \<noteq> 0" "\<not> draining ba" "\<not> isRetiredLocked ba cid ep"
      "activeID ba = 0 \<or> activeID ba = cid \<and> activeEpoch ba = ep"
      "activeID ba' = cid" "activeEpoch ba' = ep"
      "arrived ba' = AList.update i True (arrived ba)"
      "\<And>j. mget (sideBuffers ba') j [] = mget (sideBuffers ba) j []"
      "numInputs ba' = numInputs ba" "maxBufferSize ba' = maxBufferSize ba"
      "bufferedBytes ba' = bufferedBytes ba" "draining ba' = draining ba"
      "retiredID ba' = retiredID ba" "retiredEpoch ba' = retiredEpoch ba"
      "r \<longleftrightarrow> numInputs ba \<le> int (length (arrived ba'))"
proof (cases "barrier_accepted ba i cid ep")
  case False
  then show ?thesis using assms OnBarrier_rejected [OF False] ignored by simp
next
  case True
  note acc = True [unfolded barrier_accepted_def]
  have absent: "mget (sideBuffers ba) i [] = []" if "map_of (sideBuffers ba) i = None"
    using that by (simp add: mget_def)
  show ?thesis
    using assms acc
    by (intro counted) (auto simp: OnBarrier_def Let_def absent split: if_splits)
qed

lemma set_update_distinct:
  assumes "distinct (map fst al)"
  shows "(j, b) \<in> set (AList.update i v al) \<longleftrightarrow> (if j = i then b = v else (j, b) \<in> set al)"
proof -
  have "(j, b) \<in> set (AList.update i v al) \<longleftrightarrow> map_of (AList.update i v al) j = Some b"
    using assms by (intro map_of_eq_Some_iff [symmetric]) (rule distinct_fst_update)
  then show ?thesis using assms by (auto simp: update_conv')
qed

lemma OnBarrier_inv:
  assumes "aligner_inv ba" "OnBarrier now i cid ep ba = Some (r, ba')"
  shows "aligner_inv ba'"
  using assms(2)
proof (cases rule: OnBarrier_cases)
  case ignored
  then show ?thesis using assms(1) by simp
next
  case counted
  have d: "distinct (map fst (arrived ba))" using assms(1) by (simp add: aligner_inv_def)
  note old = aligner_invD [OF assms(1)]
  show ?thesis
  proof (rule aligner_invI, unfold counted(7-16))
    show "distinct (map fst (AList.update i True (arrived ba)))"
      using old(1) by (rule distinct_fst_update)
    show "b \<and> 0 \<le> j \<and> j < numInputs ba" if "(j, b) \<in> set (AList.update i True (arrived ba))" for j b
      using that old(2) [of j b] counted(1,2)
      by (simp add: set_update_distinct [OF d] split: if_splits)
    show "mget (AList.update i True (arrived ba)) j False \<and>
        int (length (mget (sideBuffers ba) j [])) \<le> maxBufferSize ba"
      if "mget (sideBuffers ba) j [] \<noteq> []" for j
      using old(5) [OF that] by simp
    show "bufferedBytes ba =
        wrap64 (\<Sum>j \<in> {0..<numInputs ba}. payload_sum (mget (sideBuffers ba) j []))"
      by (rule old(6))
  qed (use counted(3,4) in simp_all)
qed

lemma sum_mget_update:
  assumes "0 \<le> i" "i < n"
  shows "(\<Sum>j \<in> {0..<n :: int}. payload_sum (mget (AList.update i v m) j [])) =
    (\<Sum>j \<in> {0..<n}. payload_sum (mget m j [])) - payload_sum (mget m i []) + payload_sum v"
proof -
  have "(\<Sum>j \<in> {0..<n}. payload_sum (mget (AList.update i v m) j [])) =
      payload_sum v + (\<Sum>j \<in> {0..<n} - {i}. payload_sum (mget m j []))"
    using assms by (subst sum.remove [of _ i]) (auto intro!: sum.cong)
  moreover have "(\<Sum>j \<in> {0..<n}. payload_sum (mget m j [])) =
      payload_sum (mget m i []) + (\<Sum>j \<in> {0..<n} - {i}. payload_sum (mget m j []))"
    using assms by (subst sum.remove [of _ i]) auto
  ultimately show ?thesis by simp
qed

lemma BufferAlignedEvent_cases:
  assumes "BufferAlignedEvent ctxErr i e ba = (out, ba')"
  obtains (same) "out \<noteq> BufStored" "ba' = ba"
  | (stored) "out = BufStored" "activeID ba \<noteq> 0" "mget (arrived ba) i False"
      "int (length (mget (sideBuffers ba) i [])) < maxBufferSize ba"
      "ba' = ba\<lparr>sideBuffers := AList.update i (mget (sideBuffers ba) i [] @ [e]) (sideBuffers ba),
                bufferedBytes := wrap64 (bufferedBytes ba + eventPayloadBytes e)\<rparr>"
proof (cases "ctxErr \<or> activeID ba = 0 \<or> \<not> mget (arrived ba) i False \<or>
    \<not> int (length (mget (sideBuffers ba) i [])) < maxBufferSize ba")
  case True
  then have "out \<noteq> BufStored \<and> ba' = ba"
    using assms unfolding BufferAlignedEvent_def by (elim disjE) (simp_all split: if_splits)
  then show ?thesis using same by simp
next
  case False
  then show ?thesis using assms by (intro stored) (simp_all add: BufferAlignedEvent_def)
qed

lemma BufferAlignedEvent_inv:
  assumes "aligner_inv ba" "BufferAlignedEvent ctxErr i e ba = (out, ba')"
  shows "aligner_inv ba'"
  using assms(2)
proof (cases rule: BufferAlignedEvent_cases)
  case same
  then show ?thesis using assms(1) by simp
next
  case stored
  note old = aligner_invD [OF assms(1)]
  have range: "0 \<le> i" "i < numInputs ba" using arrived_in_range [OF assms(1) stored(3)] by auto
  have "payload_sum (mget (sideBuffers ba) i [] @ [e]) =
      payload_sum (mget (sideBuffers ba) i []) + eventPayloadBytes e"
    by (simp add: payload_sum_def)
  then have "bufferedBytes ba' =
      wrap64 (\<Sum>j \<in> {0..<numInputs ba'}. payload_sum (mget (sideBuffers ba') j []))"
    using old(6) by (simp add: stored(5) sum_mget_update [OF range] wrap64_add del: mget_update)
  then show ?thesis
  proof (rule aligner_invI [rotated 5])
    show "b \<and> 0 \<le> j \<and> j < numInputs ba'" if "(j, b) \<in> set (arrived ba')" for j b
      using that old(2) [of j b] by (simp add: stored(5))
    show "mget (arrived ba') j False \<and>
        int (length (mget (sideBuffers ba') j [])) \<le> maxBufferSize ba'"
      if "mget (sideBuffers ba') j [] \<noteq> []" for j
      using that old(5) [of j] stored(2-5) by (simp split: if_splits)
  qed (use old(1,3,4) in \<open>simp_all add: stored(5)\<close>)
qed

lemma release_inv:
  assumes "aligner_inv ba" "FinishAlignment cid ba = (es, ba') \<or> AbortAlignment cid ep ba = (es, ba') \<or>
    BeginDrain ba = (es, ba')"
  shows "aligner_inv ba'"
  using assms(2)
  by (cases rule: release_cases) (use assms(1) cleared_inv in auto)

lemma release_sizes:
  assumes "FinishAlignment cid ba = (es, ba') \<or> AbortAlignment cid ep ba = (es, ba') \<or>
    BeginDrain ba = (es, ba')"
  shows "numInputs ba' = numInputs ba \<and> maxBufferSize ba' = maxBufferSize ba"
  using assms by (cases rule: release_cases) (auto simp: cleared_def)

lemma aligner_step_inv:
  assumes "aligner_step ba l ba'" "aligner_inv ba"
  shows "aligner_inv ba'" "numInputs ba' = numInputs ba \<and> maxBufferSize ba' = maxBufferSize ba"
proof -
  show "aligner_inv ba'"
    using assms by (cases rule: aligner_step.cases)
      (auto intro: OnBarrier_inv BufferAlignedEvent_inv release_inv)
  show "numInputs ba' = numInputs ba \<and> maxBufferSize ba' = maxBufferSize ba"
    using assms(1)
  proof (cases rule: aligner_step.cases)
    case (barrier now i cid ep r)
    from barrier(2) show ?thesis by (cases rule: OnBarrier_cases) auto
  next
    case (buffer ctxErr i e out)
    from buffer(2) show ?thesis by (cases rule: BufferAlignedEvent_cases) auto
  qed (use release_sizes in blast)+
qed

lemma aligner_run_inv:
  assumes "aligner_run ba ls ba'" "aligner_inv ba"
  shows "aligner_inv ba'" "numInputs ba' = numInputs ba" "maxBufferSize ba' = maxBufferSize ba"
proof -
  have "aligner_inv ba' \<and> numInputs ba' = numInputs ba \<and> maxBufferSize ba' = maxBufferSize ba"
    using assms
  proof (induction rule: aligner_run.induct)
    case (more ba ls ba' l ba'')
    then show ?case using aligner_step_inv [OF more.hyps(2)] by simp
  qed simp
  then show "aligner_inv ba'" "numInputs ba' = numInputs ba" "maxBufferSize ba' = maxBufferSize ba"
    by auto
qed

subsection \<open>What a step does to the buffers\<close>

definition step_effect :: "BarrierAligner \<Rightarrow> aligner_label \<Rightarrow> BarrierAligner \<Rightarrow> bool" where
  "step_effect ba l ba' \<longleftrightarrow>
     (case l of
        LRelease es \<Rightarrow>
          (\<exists>c. es = concat (map c (inputs_of ba)) \<and>
               (\<forall>i. mget (sideBuffers ba) i [] = c i @ mget (sideBuffers ba') i []))
      | LBuffer j e BufStored \<Rightarrow>
          (\<forall>i. mget (sideBuffers ba') i [] = mget (sideBuffers ba) i [] @ (if i = j then [e] else []))
      | _ \<Rightarrow> (\<forall>i. mget (sideBuffers ba') i [] = mget (sideBuffers ba) i []))"

lemma release_effect:
  assumes "aligner_inv ba" "FinishAlignment cid ba = (es, ba') \<or> AbortAlignment cid ep ba = (es, ba') \<or>
    BeginDrain ba = (es, ba')"
  shows "step_effect ba (LRelease es) ba'"
  using assms(2)
proof (cases rule: release_cases)
  case 1
  then show ?thesis by (auto simp: step_effect_def intro!: exI [of _ "\<lambda>_. []"])
next
  case 2
  then show ?thesis
    using cleared_inv [OF assms(1)]
    by (auto simp: step_effect_def drain_loop_events intro!: exI [of _ "\<lambda>i. mget (sideBuffers ba) i []"])
qed

lemma aligner_step_effect:
  assumes "aligner_step ba l ba'" "aligner_inv ba"
  shows "step_effect ba l ba'"
  using assms(1)
proof (cases rule: aligner_step.cases)
  case (barrier now i cid ep r)
  from barrier(2) show ?thesis by (cases rule: OnBarrier_cases) (auto simp: barrier(1) step_effect_def)
next
  case (buffer ctxErr i e out)
  from buffer(2) show ?thesis
    by (cases rule: BufferAlignedEvent_cases)
      (auto simp: buffer(1) step_effect_def split: buffer_outcome.splits)
qed (auto intro: release_effect [OF assms(2)])

lemma stored_from_append: "stored_from i (ls @ ms) = stored_from i ls @ stored_from i ms"
  by (induction ls) auto

lemma released_append: "released (ls @ ms) = released ls @ released ms"
  by (induction ls) auto

lemma inputs_of_cong: "numInputs ba = numInputs ba' \<Longrightarrow> inputs_of ba = inputs_of ba'"
  by (simp add: inputs_of_def)

text \<open>The chunks of a run: one function from inputs to events for each release.\<close>

lemma aligner_run_chunks:
  assumes "aligner_run ba ls ba'" "aligner_inv ba" "sideBuffers ba = []"
  shows "\<exists>chunks. released ls = map (\<lambda>c. concat (map c (inputs_of ba))) chunks \<and>
    (\<forall>i. stored_from i ls = concat (map (\<lambda>c. c i) chunks) @ mget (sideBuffers ba') i [])"
  using assms
proof (induction rule: aligner_run.induct)
  case (start ba)
  then show ?case by (auto intro!: exI [of _ "[]"])
next
  case (more ba ls ba' l ba'')
  note inv = aligner_run_inv [OF more.hyps(1) more.prems(1)]
  have ins: "inputs_of ba' = inputs_of ba" using inv(2) by (rule inputs_of_cong)
  have eff: "step_effect ba' l ba''" using more.hyps(2) inv(1) by (rule aligner_step_effect)
  obtain chunks where ch: "released ls = map (\<lambda>c. concat (map c (inputs_of ba))) chunks"
    "\<And>i. stored_from i ls = concat (map (\<lambda>c. c i) chunks) @ mget (sideBuffers ba') i []"
    using more.IH [OF more.prems] by blast
  show ?case
  proof (cases l)
    case (LRelease es)
    then obtain c where "es = concat (map c (inputs_of ba))"
      "\<And>i. mget (sideBuffers ba') i [] = c i @ mget (sideBuffers ba'') i []"
      using eff by (auto simp: step_effect_def ins)
    then show ?thesis
      using ch LRelease by (intro exI [of _ "chunks @ [c]"])
        (simp add: released_append stored_from_append)
  next
    case (LBuffer j e out)
    then show ?thesis
      using ch eff by (cases out; intro exI [of _ chunks])
        (simp_all add: released_append stored_from_append step_effect_def)
  next
    case (LBarrier j cid ep r)
    then show ?thesis
      using ch eff by (intro exI [of _ chunks])
        (simp add: released_append stored_from_append step_effect_def)
  qed
qed

subsection \<open>Who has arrived\<close>

lemma aligner_run_arrived:
  assumes "aligner_run ba ls ba'" "aligner_inv ba" "arrived ba = []"
    and "mget (arrived ba') i False"
  shows "\<exists>r. LBarrier i (activeID ba') (activeEpoch ba') r \<in> set ls"
  using assms
proof (induction rule: aligner_run.induct)
  case (more ba ls ba' l ba'')
  note inv = aligner_run_inv(1) [OF more.hyps(1) more.prems(1)]
  have keep: ?case if "arrived ba'' = arrived ba'" "activeID ba'' = activeID ba'"
      "activeEpoch ba'' = activeEpoch ba'"
    using more.IH [OF more.prems(1,2)] more.prems(3) that by auto
  have release: ?case if "FinishAlignment cid ba' = (es, ba'') \<or> AbortAlignment cid ep ba' = (es, ba'') \<or>
    BeginDrain ba' = (es, ba'')" for cid ep es
    using that by (cases rule: release_cases) (use keep more.prems(3) in \<open>auto simp: cleared_def\<close>)
  from more.hyps(2) show ?case
  proof (cases rule: aligner_step.cases)
    case (barrier now j cid ep r)
    from barrier(2) show ?thesis
    proof (cases rule: OnBarrier_cases)
      case ignored
      then show ?thesis using keep by simp
    next
      case counted
      show ?thesis
      proof (cases "i = j")
        case True
        then show ?thesis using barrier(1) counted(7,8) by auto
      next
        case False
        then have old: "mget (arrived ba') i False" using more.prems(3) counted(9) by simp
        then have "activeID ba' \<noteq> 0" using aligner_invD(3) [OF inv] by auto
        then show ?thesis using more.IH [OF more.prems(1,2) old] counted(6-8) by auto
      qed
    qed
  next
    case (buffer ctxErr j e out)
    from buffer(2) show ?thesis by (cases rule: BufferAlignedEvent_cases) (use keep in auto)
  qed (use release in blast)+
qed simp

subsection \<open>Retirement\<close>

lemma isRetired_retire:
  "isRetiredLocked ba c e \<Longrightarrow> isRetiredLocked (retireLocked cid ep ba) c e"
  "cid \<noteq> 0 \<Longrightarrow> isRetiredLocked (retireLocked cid ep ba) cid ep"
  by (auto simp: isRetiredLocked_def retireLocked_def)

lemma isRetired_cong:
  "retiredID ba' = retiredID ba \<Longrightarrow> retiredEpoch ba' = retiredEpoch ba \<Longrightarrow>
   isRetiredLocked ba' c e = isRetiredLocked ba c e"
  by (simp add: isRetiredLocked_def)

lemma retired_Finish:
  "FinishAlignment cid ba = (es, ba') \<Longrightarrow>
   ba' = ba \<or> (activeID ba = cid \<and> retiredID ba' = retiredID (retireLocked (activeID ba) (activeEpoch ba) ba) \<and>
     retiredEpoch ba' = retiredEpoch (retireLocked (activeID ba) (activeEpoch ba) ba))"
  by (auto simp: FinishAlignment_def Let_def split_def signalChangeLocked_def split: if_splits)

lemma retired_Abort:
  "AbortAlignment cid ep ba = (es, ba') \<Longrightarrow>
   retiredID ba' = retiredID (retireLocked cid ep ba) \<and> retiredEpoch ba' = retiredEpoch (retireLocked cid ep ba)"
  by (auto simp: AbortAlignment_def Let_def split_def signalChangeLocked_def split: if_splits)

lemma retired_step:
  assumes "aligner_step ba l ba'" "isRetiredLocked ba c e"
  shows "isRetiredLocked ba' c e"
  using assms(1)
proof (cases rule: aligner_step.cases)
  case (barrier now i cid ep r)
  from barrier(2) show ?thesis
    by (cases rule: OnBarrier_cases) (use assms(2) in \<open>auto simp: isRetiredLocked_def\<close>)
next
  case (buffer ctxErr i x out)
  from buffer(2) show ?thesis
    by (cases rule: BufferAlignedEvent_cases) (use assms(2) in \<open>auto simp: isRetiredLocked_def\<close>)
next
  case (finish cid es)
  show ?thesis
    using retired_Finish [OF finish(2)] isRetired_retire(1) [OF assms(2)] assms(2)
      isRetired_cong [of ba'] by metis
next
  case (abort cid ep es)
  show ?thesis
    using retired_Abort [OF abort(2)] isRetired_retire(1) [OF assms(2)] isRetired_cong [of ba'] by metis
next
  case (drain es)
  then show ?thesis
    using assms(2)
    by (auto simp: BeginDrain_def Let_def split_def signalChangeLocked_def isRetiredLocked_def)
qed

lemma retired_run:
  "aligner_run ba ls ba' \<Longrightarrow> isRetiredLocked ba c e \<Longrightarrow> isRetiredLocked ba' c e"
  by (induction rule: aligner_run.induct) (auto intro: retired_step)

subsection \<open>Completion\<close>

lemma OnBarrier_complete_iff:
  assumes "aligner_inv ba" "OnBarrier now i cid ep ba = Some (r, ba')"
  shows "r \<longleftrightarrow> barrier_accepted ba i cid ep \<and>
    (\<forall>j \<in> {0..<numInputs ba}. j = i \<or> IsAligning ba j)"
proof (cases "barrier_accepted ba i cid ep")
  case False
  then show ?thesis using OnBarrier_rejected assms(2) by fastforce
next
  case True
  have inv': "aligner_inv ba'" using assms by (rule OnBarrier_inv)
  have aligning: "IsAligning ba j \<longleftrightarrow> mget (arrived ba) j False" for j
    using aligner_invD(3) [OF assms(1)] by (auto simp: IsAligning_def)
  from assms(2) show ?thesis
  proof (cases rule: OnBarrier_cases)
    case counted
    then show ?thesis
      using all_arrived_iff [OF inv'] True by (auto simp: aligning)
  next
    case ignored
    then show ?thesis by simp
  qed
qed

lemma OnBarrier_complete_state:
  assumes "OnBarrier now i cid ep ba = Some (r, ba')" "r"
  shows "activeID ba' = cid" "activeEpoch ba' = ep"
    "mget (arrived ba') j False \<longleftrightarrow> j = i \<or> mget (arrived ba) j False"
proof -
  have "activeID ba' = cid \<and> activeEpoch ba' = ep \<and>
      (mget (arrived ba') j False \<longleftrightarrow> j = i \<or> mget (arrived ba) j False)"
    using assms(1) by (cases rule: OnBarrier_cases) (use assms(2) in auto)
  then show "activeID ba' = cid" "activeEpoch ba' = ep"
    "mget (arrived ba') j False \<longleftrightarrow> j = i \<or> mget (arrived ba) j False" by auto
qed

section \<open>Properties\<close>

text \<open>C8. Alignment neither loses, duplicates nor reorders records. In every run of the aligner
  there is one chunk per release such that each release hands over its chunk input by input,
  and the records buffered from an input are, in order, the chunks of that input followed by
  what its side buffer still holds.\<close>

theorem alignment_preserves_records:
  assumes "aligner_run (NewBarrierAligner n m) ls ba"
  shows "\<exists>chunks. released ls = map (\<lambda>c. concat (map c (map int [0..<nat n]))) chunks \<and>
    (\<forall>i. stored_from i ls = concat (map (\<lambda>c. c i) chunks) @ mget (sideBuffers ba) i [])"
  using aligner_run_chunks [OF assms aligner_inv_New]
  by (simp add: inputs_of_def NewBarrierAligner_def)

theorem alignment_preserves_records_witness:
  "\<exists>(ba :: BarrierAligner) chunks. sideBuffers ba \<noteq> [] \<and>
    released [LBarrier 0 1 1 False, LBuffer 0 (WatermarkEvent 5) BufStored] =
      map (\<lambda>c. concat (map c (map int [0..<nat 2]))) chunks \<and>
    (\<forall>i. stored_from i [LBarrier 0 1 1 False, LBuffer 0 (WatermarkEvent 5) BufStored] =
      concat (map (\<lambda>c. c i) chunks) @ mget (sideBuffers ba) i [])"
proof -
  define ba1 where "ba1 = snd (the (OnBarrier 9 0 1 1 (NewBarrierAligner 2 4)))"
  define ba2 where "ba2 = snd (BufferAlignedEvent False 0 (WatermarkEvent 5) ba1)"
  have "OnBarrier 9 0 1 1 (NewBarrierAligner 2 4) = Some (False, ba1)"
    by (simp add: ba1_def OnBarrier_def NewBarrierAligner_def isRetiredLocked_def
        start_alignment_def)
  moreover have buf: "BufferAlignedEvent False 0 (WatermarkEvent 5) ba1 = (BufStored, ba2)"
    by (simp add: ba1_def ba2_def OnBarrier_def NewBarrierAligner_def isRetiredLocked_def
        start_alignment_def BufferAlignedEvent_def mget_def)
  ultimately have "aligner_run (NewBarrierAligner 2 4)
      (([] @ [LBarrier 0 1 1 False]) @ [LBuffer 0 (WatermarkEvent 5) BufStored]) ba2"
    by (intro aligner_run.more [OF aligner_run.more [OF aligner_run.start]])
      (rule aligner_step.barrier aligner_step.buffer, assumption)+
  then have run: "aligner_run (NewBarrierAligner 2 4)
      [LBarrier 0 1 1 False, LBuffer 0 (WatermarkEvent 5) BufStored] ba2"
    by simp
  have "sideBuffers ba2 \<noteq> []"
    by (simp add: ba2_def ba1_def OnBarrier_def NewBarrierAligner_def isRetiredLocked_def
        start_alignment_def BufferAlignedEvent_def mget_def)
  with alignment_preserves_records [OF run] show ?thesis by blast
qed

text \<open>C28. \<open>OnBarrier\<close> reports a complete alignment exactly when it accepts the barrier (not
  retired, not draining, a known input, the identity of the alignment under way) and every
  other input has already arrived. Then the history holds a barrier of this very checkpoint
  and epoch for every input.\<close>

theorem alignment_complete_iff_all_arrived:
  assumes "aligner_run (NewBarrierAligner n m) ls ba"
    and "OnBarrier now i cid ep ba = Some (r, ba')"
  shows "(r \<longleftrightarrow> barrier_accepted ba i cid ep \<and> (\<forall>j \<in> {0..<n}. j = i \<or> IsAligning ba j))
    \<and> (r \<longrightarrow> (\<forall>j \<in> {0..<n}. \<exists>r'. LBarrier j cid ep r' \<in> set (ls @ [LBarrier i cid ep r])))"
proof
  have New: "numInputs (NewBarrierAligner n m) = n" "arrived (NewBarrierAligner n m) = []"
    by (simp_all add: NewBarrierAligner_def)
  have inv: "aligner_inv ba" "numInputs ba = n"
    using aligner_run_inv [OF assms(1) aligner_inv_New] New(1) by auto
  show iff: "r \<longleftrightarrow> barrier_accepted ba i cid ep \<and> (\<forall>j \<in> {0..<n}. j = i \<or> IsAligning ba j)"
    using OnBarrier_complete_iff [OF inv(1) assms(2)] inv(2) by simp
  have run: "aligner_run (NewBarrierAligner n m) (ls @ [LBarrier i cid ep r]) ba'"
    using assms by (auto intro: aligner_run.more aligner_step.barrier)
  show "r \<longrightarrow> (\<forall>j \<in> {0..<n}. \<exists>r'. LBarrier j cid ep r' \<in> set (ls @ [LBarrier i cid ep r]))"
  proof (intro impI ballI)
    fix j assume "r" and j: "j \<in> {0..<n}"
    have "mget (arrived ba') j False" "activeID ba' = cid" "activeEpoch ba' = ep"
      using OnBarrier_complete_state [OF assms(2) \<open>r\<close>] iff \<open>r\<close> j by (auto simp: IsAligning_def)
    then show "\<exists>r'. LBarrier j cid ep r' \<in> set (ls @ [LBarrier i cid ep r])"
      using aligner_run_arrived [OF run aligner_inv_New New(2)] by auto
  qed
qed

theorem alignment_complete_iff_all_arrived_witness:
  "\<exists>r ba'. OnBarrier 9 0 1 1 (NewBarrierAligner 1 4) = Some (r, ba') \<and>
    ((r \<longleftrightarrow> barrier_accepted (NewBarrierAligner 1 4) 0 1 1 \<and>
        (\<forall>j \<in> {0..<1}. j = 0 \<or> IsAligning (NewBarrierAligner 1 4) j))
     \<and> (r \<longrightarrow> (\<forall>j \<in> {0..<1}. \<exists>r'. LBarrier j 1 1 r' \<in> set ([] @ [LBarrier 0 1 1 r]))))"
proof -
  obtain r ba' where "OnBarrier 9 0 1 1 (NewBarrierAligner 1 4) = Some (r, ba')"
    by (auto simp: OnBarrier_def NewBarrierAligner_def isRetiredLocked_def start_alignment_def)
  then show ?thesis
    using alignment_complete_iff_all_arrived [OF aligner_run.start] by blast
qed

text \<open>C17. A completed or aborted checkpoint stays fenced. After the abort of an identity, or
  the end of its alignment, no later barrier of it or of an earlier identity has any effect,
  whatever happened in between.\<close>

theorem retired_checkpoints_stay_fenced:
  assumes "AbortAlignment cid ep ba0 = (es, ba1) \<or>
      FinishAlignment cid ba0 = (es, ba1) \<and> activeID ba0 = cid \<and> activeEpoch ba0 = ep"
    and "cid \<noteq> 0" and "aligner_run ba1 ls ba"
    and "ep' < ep \<or> ep' = ep \<and> cid' \<le> cid"
  shows "OnBarrier now i cid' ep' ba = Some (False, ba)"
proof -
  have "isRetiredLocked ba1 cid ep"
    using assms(1)
  proof
    assume "AbortAlignment cid ep ba0 = (es, ba1)"
    from retired_Abort [OF this] show ?thesis
      using isRetired_retire(2) [OF assms(2), of ep ba0] by (simp add: isRetiredLocked_def)
  next
    assume "FinishAlignment cid ba0 = (es, ba1) \<and> activeID ba0 = cid \<and> activeEpoch ba0 = ep"
    then show ?thesis
      using isRetired_retire(2) [OF assms(2), of ep ba0]
      by (auto simp: FinishAlignment_def Let_def split_def signalChangeLocked_def isRetiredLocked_def)
  qed
  then have "isRetiredLocked ba1 cid' ep'"
    using assms(4) by (auto simp: isRetiredLocked_def)
  from retired_run [OF assms(3) this] show ?thesis
    by (simp add: OnBarrier_def)
qed

theorem retired_checkpoints_stay_fenced_witness:
  "\<exists>es ba1. AbortAlignment 7 2 (NewBarrierAligner 2 4) = (es, ba1) \<and>
    OnBarrier 9 0 6 2 ba1 = Some (False, ba1)"
  using retired_checkpoints_stay_fenced [OF disjI1 _ aligner_run.start, of 7 2 "NewBarrierAligner 2 4"]
  by (cases "AbortAlignment 7 2 (NewBarrierAligner 2 4)") auto

text \<open>C31. Side buffers respect their capacity and the byte gauge is exact: in every reachable
  state only inputs that have delivered their barrier hold records, each at most
  \<open>maxBufferSize\<close> of them, and \<open>BufferedBytes\<close> is the payload of what the buffers hold, in
  64-bit arithmetic.\<close>

theorem side_buffers_bounded:
  assumes "aligner_run (NewBarrierAligner n m) ls ba"
  shows "(\<forall>i. mget (sideBuffers ba) i [] = [] \<or>
      IsAligning ba i \<and> 0 \<le> i \<and> i < n \<and> int (length (mget (sideBuffers ba) i [])) \<le> m)
    \<and> bufferedBytes ba =
        wrap64 (\<Sum>i \<in> {0..<n}. \<Sum>e \<leftarrow> mget (sideBuffers ba) i []. eventPayloadBytes e)"
proof -
  have inv: "aligner_inv ba" "numInputs ba = n" "maxBufferSize ba = m"
    using aligner_run_inv [OF assms aligner_inv_New]
    by (auto simp: NewBarrierAligner_def)
  have "IsAligning ba i \<and> 0 \<le> i \<and> i < n \<and> int (length (mget (sideBuffers ba) i [])) \<le> m"
    if "mget (sideBuffers ba) i [] \<noteq> []" for i
    using aligner_invD(3,5) [OF inv(1)] that buffer_in_range [OF inv(1) that] inv(2,3)
    by (auto simp: IsAligning_def)
  then show ?thesis
    using aligner_invD(6) [OF inv(1)] inv(2) by (auto simp: payload_sum_def)
qed

theorem side_buffers_bounded_witness:
  "(\<forall>i. mget (sideBuffers (NewBarrierAligner 2 4)) i [] = [] \<or>
      IsAligning (NewBarrierAligner 2 4) i \<and> 0 \<le> i \<and> i < 2 \<and>
      int (length (mget (sideBuffers (NewBarrierAligner 2 4)) i [])) \<le> 4)
    \<and> bufferedBytes (NewBarrierAligner 2 4) = wrap64 (\<Sum>i \<in> {0..<2 :: int}.
        \<Sum>e \<leftarrow> mget (sideBuffers (NewBarrierAligner 2 4)) i []. eventPayloadBytes e)"
  by (rule side_buffers_bounded [OF aligner_run.start])

end
