(* ===== verification/Watermark.thy ===== *)
theory Watermark
  imports Events
begin

text \<open>
  Event-time progress (\<^verbatim>\<open>internal/engine/watermark_*.go\<close>, \<^verbatim>\<open>ordered_watermark.go\<close> and
  \<^verbatim>\<open>source_watermark.go\<close>): the per-input tracker of a task, the strategies of a source, the
  periodic emitters, and the queue of a source in which records and boundaries are serialized.
  Times are 64-bit integers. A compare-and-swap loop is the update at its linearization point.
  A clock reading, a cancelled context and a blocked send are arguments of the step that
  meets them.
\<close>

section \<open>The input tracker\<close>

record InputWatermarkTracker =
  idleTimeouts :: "int list"
  trk_ordered :: bool
  watermarks :: "int list"
  lastActivityNs :: "int list"
  pending :: "int list"
  trk_numInputs :: int

text \<open>A negative number of inputs makes the allocation panic.\<close>

definition newInputWatermarkTracker :: "int \<Rightarrow> int \<Rightarrow> InputWatermarkTracker option" where
  "newInputWatermarkTracker inputs now =
     (if inputs < 0 then None
      else Some \<lparr>idleTimeouts = [], trk_ordered = False,
                 watermarks = replicate (nat inputs) MinInt64,
                 lastActivityNs = replicate (nat inputs) now,
                 pending = replicate (nat inputs) 0, trk_numInputs = inputs\<rparr>)"

definition valid_input :: "InputWatermarkTracker \<Rightarrow> int \<Rightarrow> bool" where
  "valid_input t i \<longleftrightarrow> 0 \<le> i \<and> i < trk_numInputs t"

text \<open>An index outside the slices panics: \<open>None\<close>.\<close>

definition AdvanceWatermark ::
  "int \<Rightarrow> int \<Rightarrow> InputWatermarkTracker \<Rightarrow> InputWatermarkTracker option" where
  "AdvanceWatermark inputIndex timestamp t =
     (if \<not> valid_input t inputIndex then None
      else if timestamp \<le> watermarks t ! nat inputIndex then Some t
      else Some (t\<lparr>watermarks := (watermarks t)[nat inputIndex := timestamp]\<rparr>))"

definition RecordActivity ::
  "int \<Rightarrow> int \<Rightarrow> InputWatermarkTracker \<Rightarrow> InputWatermarkTracker option" where
  "RecordActivity now inputIndex t =
     (if \<not> valid_input t inputIndex then None
      else Some (t\<lparr>lastActivityNs := (lastActivityNs t)[nat inputIndex := now]\<rparr>))"

definition recordQueued ::
  "int \<Rightarrow> int \<Rightarrow> InputWatermarkTracker \<Rightarrow> InputWatermarkTracker option" where
  "recordQueued now input t =
     (if \<not> valid_input t input then None
      else RecordActivity now input
        (t\<lparr>pending := (pending t)[nat input := wrap64 (pending t ! nat input + 1)]\<rparr>))"

definition recordProcessed ::
  "int \<Rightarrow> int \<Rightarrow> InputWatermarkTracker \<Rightarrow> InputWatermarkTracker option" where
  "recordProcessed now input t =
     (case RecordActivity now input t of
        None \<Rightarrow> None
      | Some t' \<Rightarrow>
          Some (t'\<lparr>pending := (pending t')[nat input := wrap64 (pending t' ! nat input - 1)]\<rparr>))"

definition input_timeout :: "InputWatermarkTracker \<Rightarrow> int \<Rightarrow> nat \<Rightarrow> int" where
  "input_timeout t idleTimeout i =
     (if i < length (idleTimeouts t) \<and> idleTimeouts t ! i \<noteq> 0 then idleTimeouts t ! i
      else idleTimeout)"

definition input_idle :: "InputWatermarkTracker \<Rightarrow> int \<Rightarrow> int \<Rightarrow> nat \<Rightarrow> bool" where
  "input_idle t now idleTimeout i \<longleftrightarrow>
     pending t ! i = 0 \<and> input_timeout t idleTimeout i > 0 \<and>
     wrap64 (now - lastActivityNs t ! i) \<ge> input_timeout t idleTimeout i"

text \<open>The loop of \<open>MinWatermark\<close>; the accumulator is \<open>(minWM, found)\<close>.\<close>

fun min_loop ::
  "InputWatermarkTracker \<Rightarrow> int \<Rightarrow> int \<Rightarrow> nat list \<Rightarrow> int \<times> bool \<Rightarrow> int \<times> bool" where
  "min_loop t now idleTimeout [] acc = acc"
| "min_loop t now idleTimeout (i # is) (minWM, found) =
     (if input_idle t now idleTimeout i then min_loop t now idleTimeout is (minWM, found)
      else let wm = watermarks t ! i
           in if \<not> found \<or> wm < minWM then min_loop t now idleTimeout is (wm, True)
              else min_loop t now idleTimeout is (minWM, found))"

definition MinWatermark :: "int \<Rightarrow> int \<Rightarrow> InputWatermarkTracker \<Rightarrow> int \<times> bool" where
  "MinWatermark now idleTimeout t =
     (let (minWM, found) = min_loop t now idleTimeout [0..<nat (trk_numInputs t)] (0, False)
      in if \<not> found then (0, True) else (minWM, False))"

section \<open>Strategies\<close>

definition DefaultMaxOOO :: int where
  "DefaultMaxOOO = 5 * 1000000000"

record BoundedOutOfOrdernessStrategy =
  maxObservedTimestamp :: int
  maxOutOfOrderness :: int

text \<open>\<open>Duration.Milliseconds\<close> divides nanoseconds by a million, truncating.\<close>

definition NewBoundedOutOfOrdernessStrategy :: "int \<Rightarrow> BoundedOutOfOrdernessStrategy" where
  "NewBoundedOutOfOrdernessStrategy maxOOO =
     (let d = (if maxOOO \<le> 0 then DefaultMaxOOO else maxOOO)
      in \<lparr>maxObservedTimestamp = MinInt64, maxOutOfOrderness = go_div d 1000000\<rparr>)"

definition NewMonotonicTimestampsStrategy :: BoundedOutOfOrdernessStrategy where
  "NewMonotonicTimestampsStrategy = \<lparr>maxObservedTimestamp = MinInt64, maxOutOfOrderness = 0\<rparr>"

definition bounded_GenerateWatermark :: "BoundedOutOfOrdernessStrategy \<Rightarrow> int" where
  "bounded_GenerateWatermark s =
     (if maxObservedTimestamp s < wrap64 (MinInt64 + maxOutOfOrderness s) then MinInt64
      else wrap64 (maxObservedTimestamp s - maxOutOfOrderness s))"

definition bounded_ObserveEventTime ::
  "int \<Rightarrow> BoundedOutOfOrdernessStrategy \<Rightarrow> BoundedOutOfOrdernessStrategy" where
  "bounded_ObserveEventTime eventTime s =
     (if eventTime \<le> maxObservedTimestamp s then s
      else s\<lparr>maxObservedTimestamp := eventTime\<rparr>)"

text \<open>The strategies of a source: bounded, ingestion time, or a legacy source whose own
  \<open>GenerateWatermark\<close> is read. For the latter two a reading is an argument.\<close>

datatype strategy =
    Bounded BoundedOutOfOrdernessStrategy
  | IngestionTime
  | LegacySource

fun GenerateWatermark :: "strategy \<Rightarrow> int \<Rightarrow> int" where
  "GenerateWatermark (Bounded s) reading = bounded_GenerateWatermark s"
| "GenerateWatermark IngestionTime reading = reading"
| "GenerateWatermark LegacySource reading = reading"

fun ObserveEventTime :: "int \<Rightarrow> strategy \<Rightarrow> strategy" where
  "ObserveEventTime eventTime (Bounded s) = Bounded (bounded_ObserveEventTime eventTime s)"
| "ObserveEventTime eventTime IngestionTime = IngestionTime"
| "ObserveEventTime eventTime LegacySource = LegacySource"

section \<open>Periodic emission\<close>

text \<open>One tick of the emitter and of the two propagators: the last value emitted and the
  observation give the boundary to send, if any, and the new last value. A cancelled context
  ends the loop, so a run is its ticks before the cancellation.\<close>

definition emitter_tick :: "int \<Rightarrow> int \<Rightarrow> int option \<times> int" where
  "emitter_tick lastEmitted ts =
     (if ts \<le> lastEmitted then (None, lastEmitted) else (Some ts, ts))"

definition propagator_tick :: "int \<Rightarrow> int \<times> bool \<Rightarrow> int option \<times> int" where
  "propagator_tick lastEmitted obs =
     (let (minWM, allIdle) = obs
      in if allIdle then (None, lastEmitted)
         else if minWM \<le> lastEmitted then (None, lastEmitted)
         else (Some minWM, minWM))"

definition ordered_propagator_tick :: "int \<Rightarrow> int \<times> bool \<Rightarrow> int option \<times> int" where
  "ordered_propagator_tick lastTs obs =
     (let (timestamp, idle) = obs
      in if idle \<or> timestamp \<le> lastTs then (None, lastTs) else (Some timestamp, timestamp))"

fun run_ticks :: "(int \<Rightarrow> 'obs \<Rightarrow> int option \<times> int) \<Rightarrow> int \<Rightarrow> 'obs list \<Rightarrow> int list" where
  "run_ticks tick lastTs [] = []"
| "run_ticks tick lastTs (ob # obs) =
     (let (out, lastTs') = tick lastTs ob
      in (case out of None \<Rightarrow> [] | Some w \<Rightarrow> [w]) @ run_ticks tick lastTs' obs)"

definition runWatermarkEmitter :: "int list \<Rightarrow> int list" where
  "runWatermarkEmitter readings = run_ticks emitter_tick MinInt64 readings"

definition runWatermarkPropagator :: "(int \<times> bool) list \<Rightarrow> int list" where
  "runWatermarkPropagator observed = run_ticks propagator_tick MinInt64 observed"

definition runOrderedWatermarkPropagator :: "(int \<times> bool) list \<Rightarrow> int list" where
  "runOrderedWatermarkPropagator observed = run_ticks ordered_propagator_tick MinInt64 observed"

section \<open>The source queue\<close>

record source_state =
  src_strategy :: "strategy option"
  src_last :: int
  src_queue :: "Event list"

text \<open>\<open>emit\<close>: a boundary enters the queue only if it advances. \<open>True\<close> is the context error.\<close>

definition source_emit :: "bool \<Rightarrow> bool \<Rightarrow> int \<Rightarrow> strategy \<Rightarrow> source_state \<Rightarrow> bool \<times> source_state" where
  "source_emit ctxErr sent reading strategy st =
     (if ctxErr then (True, st)
      else
        let next = GenerateWatermark strategy reading
        in if next \<le> src_last st then (False, st)
           else if sent
           then (False, st\<lparr>src_queue := src_queue st @ [WatermarkEvent next], src_last := next\<rparr>)
           else (True, st))"

text \<open>\<open>dispatchSourceBatch\<close>: each record comes with the clock reading and the choice of its
  select statement.\<close>

fun dispatchSourceBatch ::
  "(Event \<times> int \<times> bool) list \<Rightarrow> source_state \<Rightarrow> bool \<times> source_state" where
  "dispatchSourceBatch [] st = (False, st)"
| "dispatchSourceBatch ((event, clock, sent) # batch) st =
     (let event' = (if src_strategy st = Some IngestionTime then event\<lparr>EventTime := clock\<rparr>
                    else event)
      in if sent
         then dispatchSourceBatch batch
                (st\<lparr>src_queue := src_queue st @ [event'],
                    src_strategy := map_option (ObserveEventTime (EventTime event')) (src_strategy st)\<rparr>)
         else (True, st))"

datatype source_action =
    ABatch "(Event \<times> int \<times> bool) list"
  | ATick bool bool int

text \<open>The two producers of \<open>RunSourceReaderWithWatermarks\<close>, serialized by the queue's mutex.
  An error of either stops that producer and cancels the context of the other, which notices the
  cancellation at one of its own select statements and may still queue until then.\<close>

definition is_batch :: "source_action \<Rightarrow> bool" where
  "is_batch a = (case a of ABatch _ \<Rightarrow> True | ATick _ _ _ \<Rightarrow> False)"

fun run_source :: "source_action list \<Rightarrow> source_state \<Rightarrow> source_state" where
  "run_source [] st = st"
| "run_source (ABatch batch # as) st =
     (let (err, st') = dispatchSourceBatch batch st
      in run_source (if err then filter (\<lambda>a. \<not> is_batch a) as else as) st')"
| "run_source (ATick ctxErr sent reading # as) st =
     (case src_strategy st of
        None \<Rightarrow> run_source as st
      | Some strategy \<Rightarrow>
          let (err, st') = source_emit ctxErr sent reading strategy st
          in run_source (if err then filter is_batch as else as) st')"

definition source_start :: "strategy option \<Rightarrow> source_state" where
  "source_start strategy = \<lparr>src_strategy = strategy, src_last = MinInt64, src_queue = []\<rparr>"

section \<open>Minimum over the active inputs\<close>

definition tracker_wf :: "InputWatermarkTracker \<Rightarrow> bool" where
  "tracker_wf t \<longleftrightarrow> 0 \<le> trk_numInputs t
     \<and> length (watermarks t) = nat (trk_numInputs t)
     \<and> length (lastActivityNs t) = nat (trk_numInputs t)
     \<and> length (pending t) = nat (trk_numInputs t)"

definition active_inputs :: "InputWatermarkTracker \<Rightarrow> int \<Rightarrow> int \<Rightarrow> nat set" where
  "active_inputs t now timeout =
     {i. i < nat (trk_numInputs t) \<and> \<not> input_idle t now timeout i}"

lemma min_loop_found:
  "min_loop t now timeout is (m, True) =
     (Min (insert m ((!) (watermarks t) ` {i \<in> set is. \<not> input_idle t now timeout i})), True)"
proof (induction "is" arbitrary: m)
  case (Cons i "is")
  define A where "A = (!) (watermarks t) ` {i \<in> set is. \<not> input_idle t now timeout i}"
  have fin: "finite A" by (simp add: A_def)
  show ?case
  proof (cases "input_idle t now timeout i")
    case True
    then have "{j \<in> set (i # is). \<not> input_idle t now timeout j} =
        {j \<in> set is. \<not> input_idle t now timeout j}" by auto
    then show ?thesis using True Cons by simp
  next
    case False
    then have "{j \<in> set (i # is). \<not> input_idle t now timeout j} =
        insert i {j \<in> set is. \<not> input_idle t now timeout j}" by auto
    then have img: "(!) (watermarks t) ` {j \<in> set (i # is). \<not> input_idle t now timeout j} =
        insert (watermarks t ! i) A" by (simp add: A_def)
    show ?thesis
      unfolding img using False Cons [folded A_def] fin
      by (cases "A = {}") (auto simp: Let_def min_def Min_insert)
  qed
qed simp

lemma min_loop_start:
  "min_loop t now timeout is (m, False) =
     (let A = (!) (watermarks t) ` {i \<in> set is. \<not> input_idle t now timeout i}
      in if A = {} then (m, False) else (Min A, True))"
proof (induction "is")
  case (Cons i "is")
  show ?case
  proof (cases "input_idle t now timeout i")
    case True
    then have "{j \<in> set (i # is). \<not> input_idle t now timeout j} =
        {j \<in> set is. \<not> input_idle t now timeout j}" by auto
    then show ?thesis using True Cons by simp
  next
    case False
    then have "{j \<in> set (i # is). \<not> input_idle t now timeout j} =
        insert i {j \<in> set is. \<not> input_idle t now timeout j}" by auto
    then show ?thesis using False by (simp add: min_loop_found Let_def)
  qed
qed (simp add: Let_def)

lemma MinWatermark_eq:
  "MinWatermark now timeout t =
    (if active_inputs t now timeout = {} then (0, True)
     else (Min ((!) (watermarks t) ` active_inputs t now timeout), False))"
proof -
  have "{i \<in> set [0..<nat (trk_numInputs t)]. \<not> input_idle t now timeout i}
      = active_inputs t now timeout"
    by (auto simp: active_inputs_def)
  then show ?thesis by (simp add: MinWatermark_def min_loop_start Let_def)
qed

lemma AdvanceWatermark_max:
  assumes "tracker_wf t"
  shows "AdvanceWatermark i ts t =
    (if 0 \<le> i \<and> i < trk_numInputs t
     then Some (t\<lparr>watermarks := (watermarks t)[nat i := max ts (watermarks t ! nat i)]\<rparr>)
     else None)"
  using assms
  by (auto simp: AdvanceWatermark_def valid_input_def tracker_wf_def max_def)

section \<open>Emission\<close>

text \<open>What the three emitters share: a tick either keeps the last value or sends a larger one
  and remembers it.\<close>

locale boundary_ticker =
  fixes tick :: "int \<Rightarrow> 'obs \<Rightarrow> int option \<times> int"
  assumes tick_keep: "tick lastTs ob = (None, l) \<Longrightarrow> l = lastTs"
    and tick_send: "tick lastTs ob = (Some w, l) \<Longrightarrow> l = w \<and> lastTs < w"
begin

lemma run_above: "w \<in> set (run_ticks tick lastTs obs) \<Longrightarrow> lastTs < w"
proof (induction obs arbitrary: lastTs)
  case (Cons ob obs)
  obtain out l where t: "tick lastTs ob = (out, l)" by fastforce
  then show ?case
    using Cons.prems Cons.IH [of l] tick_keep tick_send by (cases out) fastforce+
qed simp

lemma run_ascending: "sorted_wrt (<) (run_ticks tick lastTs obs)"
proof (induction obs arbitrary: lastTs)
  case (Cons ob obs)
  obtain out l where t: "tick lastTs ob = (out, l)" by fastforce
  show ?case
  proof (cases out)
    case None
    then show ?thesis using t Cons.IH by simp
  next
    case (Some w)
    then have "l = w" using t tick_send by blast
    then show ?thesis using t Some Cons.IH run_above by auto
  qed
qed simp

end

interpretation emitter: boundary_ticker emitter_tick
  by unfold_locales (auto simp: emitter_tick_def split: if_splits)

interpretation propagator: boundary_ticker propagator_tick
  by unfold_locales (auto simp: propagator_tick_def Let_def split: if_splits prod.splits)

interpretation ordered: boundary_ticker ordered_propagator_tick
  by unfold_locales (auto simp: ordered_propagator_tick_def Let_def split: if_splits prod.splits)

text \<open>The two propagators decide alike.\<close>

lemma ordered_propagator_tick_eq: "ordered_propagator_tick = propagator_tick"
  by (intro ext) (auto simp: ordered_propagator_tick_def propagator_tick_def Let_def)

section \<open>The strategy contract\<close>

text \<open>What a source relies on: observing an event time never moves the watermark back.\<close>

locale watermark_strategy =
  fixes generate :: "'s \<Rightarrow> int" and observe :: "int \<Rightarrow> 's \<Rightarrow> 's" and inv :: "'s \<Rightarrow> bool"
  assumes generate_mono: "inv s \<Longrightarrow> in_i64 t \<Longrightarrow> generate s \<le> generate (observe t s)"
    and observe_inv: "inv s \<Longrightarrow> in_i64 t \<Longrightarrow> inv (observe t s)"
begin

lemma fold_observe_mono:
  "inv s \<Longrightarrow> \<forall>t \<in> set ts. in_i64 t \<Longrightarrow> generate s \<le> generate (fold observe ts s)"
proof (induction ts arbitrary: s)
  case (Cons t ts)
  then have "generate s \<le> generate (observe t s)" by (simp add: generate_mono)
  also have "\<dots> \<le> generate (fold observe ts (observe t s))"
    using Cons by (simp add: observe_inv)
  finally show ?case by simp
qed simp

end

definition bounded_inv :: "BoundedOutOfOrdernessStrategy \<Rightarrow> bool" where
  "bounded_inv s \<longleftrightarrow> in_i64 (maxObservedTimestamp s) \<and> 0 \<le> maxOutOfOrderness s
     \<and> maxOutOfOrderness s \<le> MaxInt64"

lemma bounded_generate_eq:
  assumes "bounded_inv s"
  shows "bounded_GenerateWatermark s = max MinInt64 (maxObservedTimestamp s - maxOutOfOrderness s)"
proof -
  have "in_i64 (MinInt64 + maxOutOfOrderness s)"
    using assms by (simp add: bounded_inv_def in_i64_def MinInt64_def MaxInt64_def)
  moreover have "in_i64 (maxObservedTimestamp s - maxOutOfOrderness s)"
    if "\<not> maxObservedTimestamp s < MinInt64 + maxOutOfOrderness s"
    using that assms by (simp add: bounded_inv_def in_i64_def MinInt64_def MaxInt64_def)
  ultimately show ?thesis
    by (auto simp: bounded_GenerateWatermark_def wrap64_id)
qed

lemma bounded_inv_observe:
  "bounded_inv s \<Longrightarrow> in_i64 t \<Longrightarrow> bounded_inv (bounded_ObserveEventTime t s)"
  by (simp add: bounded_inv_def bounded_ObserveEventTime_def)

lemma bounded_observe_max:
  "maxObservedTimestamp (bounded_ObserveEventTime t s) = max t (maxObservedTimestamp s)"
  "maxOutOfOrderness (bounded_ObserveEventTime t s) = maxOutOfOrderness s"
  by (auto simp: bounded_ObserveEventTime_def)

interpretation bounded: watermark_strategy bounded_GenerateWatermark bounded_ObserveEventTime bounded_inv
proof
  fix s t
  assume "bounded_inv s" "in_i64 t"
  then show "bounded_GenerateWatermark s \<le> bounded_GenerateWatermark (bounded_ObserveEventTime t s)"
    by (simp add: bounded_generate_eq bounded_inv_observe bounded_observe_max)
qed (rule bounded_inv_observe)

lemma bounded_inv_New:
  assumes "in_i64 d"
  shows "bounded_inv (NewBoundedOutOfOrdernessStrategy d)"
proof -
  define x where "x = (if d \<le> 0 then DefaultMaxOOO else d)"
  have x: "0 < x" "x \<le> MaxInt64"
    using assms by (auto simp: x_def DefaultMaxOOO_def in_i64_def MaxInt64_def)
  then have "go_div x 1000000 = x div 1000000"
    by (intro go_div_nonneg) (auto simp: in_i64_def MinInt64_def MaxInt64_def)
  moreover have "x div 1000000 \<le> x" using x zdiv_mono2 [of x 1 1000000] by simp
  ultimately show ?thesis
    using x by (simp add: NewBoundedOutOfOrdernessStrategy_def bounded_inv_def x_def [symmetric]
        Let_def pos_imp_zdiv_nonneg_iff in_i64_def MinInt64_def MaxInt64_def)
qed

section \<open>Boundaries in the source queue\<close>

definition is_record :: "Event \<Rightarrow> bool" where
  "is_record e \<longleftrightarrow> ev_watermark e = None"

text \<open>A boundary \<open>w\<close> behind the records \<open>pre\<close>: their largest event time is \<open>w\<close> plus the bound.\<close>

definition covers :: "int \<Rightarrow> Event list \<Rightarrow> int \<Rightarrow> bool" where
  "covers bound pre w \<longleftrightarrow>
     (\<forall>e \<in> set pre. is_record e \<longrightarrow> EventTime e \<le> w + bound)
     \<and> (\<exists>e \<in> set pre. is_record e \<and> EventTime e = w + bound)"

definition boundaries_cover :: "int \<Rightarrow> Event list \<Rightarrow> bool" where
  "boundaries_cover bound q \<longleftrightarrow>
     (\<forall>k < length q. case ev_watermark (q ! k) of None \<Rightarrow> True | Some w \<Rightarrow> covers bound (take k q) w)"

definition boundaries :: "Event list \<Rightarrow> int list" where
  "boundaries q = List.map_filter ev_watermark q"

lemma boundaries_snoc:
  "boundaries (q @ [e]) = boundaries q @ (case ev_watermark e of None \<Rightarrow> [] | Some w \<Rightarrow> [w])"
  by (simp add: boundaries_def map_filter_def split: option.splits)

lemma boundaries_cover_snoc:
  "boundaries_cover bound (q @ [e]) \<longleftrightarrow> boundaries_cover bound q \<and>
     (case ev_watermark e of None \<Rightarrow> True | Some w \<Rightarrow> covers bound q w)"
  by (auto simp: boundaries_cover_def nth_append less_Suc_eq all_conj_distrib split: option.splits)

definition source_inv :: "int \<Rightarrow> source_state \<Rightarrow> bool" where
  "source_inv bound st \<longleftrightarrow>
     (\<exists>s. src_strategy st = Some (Bounded s) \<and> bounded_inv s \<and> maxOutOfOrderness s = bound
        \<and> (\<forall>e \<in> set (src_queue st). is_record e \<longrightarrow> EventTime e \<le> maxObservedTimestamp s)
        \<and> (maxObservedTimestamp s = MinInt64 \<or>
           (\<exists>e \<in> set (src_queue st). is_record e \<and> EventTime e = maxObservedTimestamp s)))
     \<and> MinInt64 \<le> src_last st
     \<and> (\<forall>w \<in> set (boundaries (src_queue st)). w \<le> src_last st)
     \<and> sorted_wrt (<) (boundaries (src_queue st))
     \<and> boundaries_cover bound (src_queue st)"

lemma source_inv_start:
  "bounded_inv s \<Longrightarrow> maxObservedTimestamp s = MinInt64 \<Longrightarrow>
   source_inv (maxOutOfOrderness s) (source_start (Some (Bounded s)))"
  by (simp add: source_inv_def source_start_def boundaries_def boundaries_cover_def map_filter_def)

lemma source_inv_record:
  assumes "source_inv bound st" "is_record e" "in_i64 (EventTime e)"
  shows "source_inv bound (st\<lparr>src_queue := src_queue st @ [e],
    src_strategy := map_option (ObserveEventTime (EventTime e)) (src_strategy st)\<rparr>)"
proof -
  obtain s where s: "src_strategy st = Some (Bounded s)" "bounded_inv s" "maxOutOfOrderness s = bound"
    "\<forall>e \<in> set (src_queue st). is_record e \<longrightarrow> EventTime e \<le> maxObservedTimestamp s"
    "maxObservedTimestamp s = MinInt64 \<or>
      (\<exists>e \<in> set (src_queue st). is_record e \<and> EventTime e = maxObservedTimestamp s)"
    using assms(1) by (auto simp: source_inv_def)
  define s' where "s' = bounded_ObserveEventTime (EventTime e) s"
  have "bounded_inv s'" "maxOutOfOrderness s' = bound"
    using s(2,3) assms(3) by (simp_all add: s'_def bounded_inv_observe bounded_observe_max)
  moreover have "\<forall>x \<in> set (src_queue st @ [e]). is_record x \<longrightarrow> EventTime x \<le> maxObservedTimestamp s'"
    using s(4) by (auto simp: s'_def bounded_observe_max)
  moreover have "\<exists>x \<in> set (src_queue st @ [e]). is_record x \<and> EventTime x = maxObservedTimestamp s'"
    if "maxObservedTimestamp s' \<noteq> MinInt64"
    using that s(5) assms(2,3)
    by (auto simp: s'_def bounded_observe_max max_def in_i64_def split: if_splits)
  moreover have "ev_watermark e = None" using assms(2) by (simp add: is_record_def)
  ultimately show ?thesis
    using assms(1) s(1)
    by (auto simp: source_inv_def s'_def boundaries_snoc boundaries_cover_snoc)
qed

lemma source_inv_dispatch:
  assumes "source_inv bound st" "\<forall>(e, _) \<in> set batch. is_record e \<and> in_i64 (EventTime e)"
  shows "source_inv bound (snd (dispatchSourceBatch batch st))"
  using assms
proof (induction batch arbitrary: st)
  case (Cons x batch)
  obtain e clock sent where x: "x = (e, clock, sent)" by (cases x)
  have "src_strategy st \<noteq> Some IngestionTime" using Cons.prems(1) by (auto simp: source_inv_def)
  then show ?case
    using Cons source_inv_record [OF Cons.prems(1), of e] by (simp add: x)
qed simp

lemma source_inv_emit:
  assumes "source_inv bound st" "src_strategy st = Some strategy"
  shows "source_inv bound (snd (source_emit ctxErr sent reading strategy st))"
proof -
  obtain s where s: "strategy = Bounded s" "bounded_inv s" "maxOutOfOrderness s = bound"
    "\<forall>e \<in> set (src_queue st). is_record e \<longrightarrow> EventTime e \<le> maxObservedTimestamp s"
    "maxObservedTimestamp s = MinInt64 \<or>
      (\<exists>e \<in> set (src_queue st). is_record e \<and> EventTime e = maxObservedTimestamp s)"
    using assms by (auto simp: source_inv_def)
  define w where "w = bounded_GenerateWatermark s"
  show ?thesis
  proof (cases "ctxErr \<or> w \<le> src_last st \<or> \<not> sent")
    case True
    then have "snd (source_emit ctxErr sent reading strategy st) = st"
      by (auto simp: source_emit_def s(1) w_def Let_def)
    then show ?thesis using assms(1) by simp
  next
    case False
    have bnd: "0 \<le> bound" using s(2,3) by (simp add: bounded_inv_def)
    have min: "MinInt64 \<le> src_last st" using assms(1) by (simp add: source_inv_def)
    then have w: "w = maxObservedTimestamp s - bound"
      using False bounded_generate_eq [OF s(2)] s(3) by (auto simp: w_def max_def split: if_splits)
    then have "maxObservedTimestamp s \<noteq> MinInt64" using False min bnd by auto
    then have "covers bound (src_queue st) w"
      using s(4,5) by (auto simp: covers_def w)
    moreover have "snd (source_emit ctxErr sent reading strategy st) =
        st\<lparr>src_queue := src_queue st @ [WatermarkEvent w], src_last := w\<rparr>"
      using False by (simp add: source_emit_def s(1) w_def Let_def)
    ultimately show ?thesis
      using assms s False min
      by (auto simp: source_inv_def boundaries_snoc boundaries_cover_snoc WatermarkEvent_def
          is_record_def sorted_wrt_append)
  qed
qed

lemma source_inv_run:
  assumes "source_inv bound st"
    and "\<forall>a \<in> set acts. case a of ABatch batch \<Rightarrow> \<forall>(e, _) \<in> set batch. is_record e \<and> in_i64 (EventTime e)
      | _ \<Rightarrow> True"
  shows "source_inv bound (run_source acts st)"
  using assms
proof (induction acts st rule: run_source.induct)
  case (2 batch as st)
  then have "source_inv bound (snd (dispatchSourceBatch batch st))"
    using source_inv_dispatch by simp
  with 2 show ?case by (cases "dispatchSourceBatch batch st") auto
next
  case (3 ctxErr sent reading as st)
  obtain strategy where strat: "src_strategy st = Some strategy"
    using 3(3) by (auto simp: source_inv_def)
  have "source_inv bound (snd (source_emit ctxErr sent reading strategy st))"
    using 3(3) strat by (rule source_inv_emit)
  with 3 strat show ?case by (cases "source_emit ctxErr sent reading strategy st") auto
qed simp

section \<open>Properties\<close>

text \<open>\<open>MinWatermark\<close> is the minimum of the watermarks of the inputs that are not idle, and
  it reports idleness exactly when every input is idle. An input with a queued record is
  never idle.\<close>

theorem min_watermark_over_active_inputs:
  "MinWatermark now timeout t =
     (if active_inputs t now timeout = {} then (0, True)
      else (Min ((!) (watermarks t) ` active_inputs t now timeout), False))
   \<and> (i < nat (trk_numInputs t) \<and> pending t ! i \<noteq> 0 \<longrightarrow> i \<in> active_inputs t now timeout)"
  by (simp add: MinWatermark_eq) (simp add: active_inputs_def input_idle_def)

theorem min_watermark_over_active_inputs_witness:
  "\<exists>t. newInputWatermarkTracker 2 0 = Some t \<and>
     (MinWatermark 10 5 t =
       (if active_inputs t 10 5 = {} then (0, True)
        else (Min ((!) (watermarks t) ` active_inputs t 10 5), False))
      \<and> (0 < nat (trk_numInputs t) \<and> pending t ! 0 \<noteq> 0 \<longrightarrow> 0 \<in> active_inputs t 10 5))"
  by (rule exI, rule conjI, simp add: newInputWatermarkTracker_def,
      rule min_watermark_over_active_inputs)

text \<open>Watermarks leave a task in strictly ascending order, whatever the strategy or the
  tracker reports from tick to tick.\<close>

theorem emitted_watermarks_ascend:
  "sorted_wrt (<) (runWatermarkEmitter readings)
   \<and> sorted_wrt (<) (runWatermarkPropagator observed)
   \<and> sorted_wrt (<) (runOrderedWatermarkPropagator observed')"
  by (simp add: runWatermarkEmitter_def runWatermarkPropagator_def
      runOrderedWatermarkPropagator_def emitter.run_ascending propagator.run_ascending
      ordered.run_ascending)

text \<open>C30. In the queue of a source with a bounded strategy, boundaries ascend and each one is
  exactly the largest event time of the records ahead of it minus the out-of-orderness
  bound, for every interleaving of record batches and ticks.\<close>

theorem source_boundaries_cover_records:
  assumes "in_i64 d"
    and "\<forall>a \<in> set acts. case a of ABatch batch \<Rightarrow> \<forall>(e, _) \<in> set batch. is_record e \<and> in_i64 (EventTime e)
      | _ \<Rightarrow> True"
    and "s = NewBoundedOutOfOrdernessStrategy d"
    and "q = src_queue (run_source acts (source_start (Some (Bounded s))))"
  shows "sorted_wrt (<) (boundaries q) \<and>
    (\<forall>k w. k < length q \<and> ev_watermark (q ! k) = Some w \<longrightarrow> covers (maxOutOfOrderness s) (take k q) w)"
proof -
  have "source_inv (maxOutOfOrderness s) (source_start (Some (Bounded s)))"
    using bounded_inv_New [OF assms(1)]
    by (intro source_inv_start) (simp_all add: assms(3) NewBoundedOutOfOrdernessStrategy_def Let_def)
  from source_inv_run [OF this assms(2)] show ?thesis
    by (auto simp: source_inv_def boundaries_cover_def assms(4) [symmetric])
qed

theorem source_boundaries_cover_records_witness:
  "let e = EventFromProto \<lparr>msg_Key = [], msg_Value = [], msg_EventTime = 9000, msg_Headers = []\<rparr>;
       s = NewBoundedOutOfOrdernessStrategy 1000000000;
       q = src_queue (run_source [ABatch [(e, 0, True)], ATick False True 0]
             (source_start (Some (Bounded s))))
   in sorted_wrt (<) (boundaries q) \<and>
     (\<forall>k w. k < length q \<and> ev_watermark (q ! k) = Some w \<longrightarrow> covers (maxOutOfOrderness s) (take k q) w)"
  unfolding Let_def
  by (rule source_boundaries_cover_records [OF _ _ refl refl])
    (simp_all add: in_i64_def MinInt64_def MaxInt64_def is_record_def EventFromProto_def)

end
