(* ===== verification/Checksum.thy ===== *)
theory Checksum
  imports Wire_Prelude
begin

text \<open>
  The CRC-32 of Go's \<^verbatim>\<open>hash/crc32\<close>: with the IEEE polynomial for the checksum of window
  and state snapshots, with the Castagnoli polynomial for the checksum of wire frames. This is the
  bit-at-a-time definition that the table-driven library routine computes.
\<close>

definition IEEE :: u32 where
  "IEEE = 0xEDB88320"

definition Castagnoli :: u32 where
  "Castagnoli = 0x82F63B78"

definition crc_bit :: "u32 \<Rightarrow> u32 \<Rightarrow> u32" where
  "crc_bit poly c = (if c AND 1 \<noteq> 0 then drop_bit 1 c XOR poly else drop_bit 1 c)"

definition crc_byte :: "u32 \<Rightarrow> byte \<Rightarrow> u32 \<Rightarrow> u32" where
  "crc_byte poly b c = (crc_bit poly ^^ 8) (c XOR ucast b)"

definition crc32_Update :: "u32 \<Rightarrow> u32 \<Rightarrow> bytes \<Rightarrow> u32" where
  "crc32_Update crc poly bs = NOT (fold (crc_byte poly) bs (NOT crc))"

definition ChecksumIEEE :: "bytes \<Rightarrow> u32" where
  "ChecksumIEEE bs = crc32_Update 0 IEEE bs"

lemma funpow_8: "(f ^^ 8) x = f (f (f (f (f (f (f (f x)))))))"
  by (simp add: eval_nat_numeral)

lemma Update_start: "crc32_Update 0 poly bs = NOT (fold (crc_byte poly) bs 0xFFFFFFFF)"
proof -
  have "NOT 0 = (0xFFFFFFFF :: u32)" by simp
  then show ?thesis by (simp only: crc32_Update_def)
qed

lemmas crc_eval =
  ChecksumIEEE_def Update_start crc_byte_def funpow_8 crc_bit_def IEEE_def Castagnoli_def

text \<open>The check values of the CRC-32 catalogue: the checksums of the ASCII digits 1 to 9.\<close>

lemma ChecksumIEEE_check_value:
  "ChecksumIEEE [0x31, 0x32, 0x33, 0x34, 0x35, 0x36, 0x37, 0x38, 0x39] = 0xCBF43926"
  by (simp add: crc_eval)

lemma Castagnoli_check_value:
  "crc32_Update 0 Castagnoli [0x31, 0x32, 0x33, 0x34, 0x35, 0x36, 0x37, 0x38, 0x39] = 0xE3069283"
  by (simp add: crc_eval)

lemma Update_append: "crc32_Update crc poly (xs @ ys) = crc32_Update (crc32_Update crc poly xs) poly ys"
  by (simp add: crc32_Update_def)

section \<open>The register as a linear map\<close>

lemma and_one_bit: "c AND 1 \<noteq> 0 \<longleftrightarrow> bit (c :: u32) 0"
  by (simp add: and_one_eq odd_iff_mod_2_eq_one bit_0)

lemma crc_bit_bits:
  "bit (crc_bit p c) n \<longleftrightarrow> n < 32 \<and> (bit c (Suc n) \<noteq> (bit c 0 \<and> bit p n))"
  by (auto simp: crc_bit_def and_one_bit bit_xor_iff bit_drop_bit_eq dest: bit_imp_le_length)

lemma crc_bit_xor: "crc_bit p (c XOR d) = crc_bit p c XOR crc_bit p d"
  by (rule bit_word_eqI) (auto simp: crc_bit_bits bit_xor_iff)

lemma crc_bits_xor: "(crc_bit p ^^ n) (c XOR d) = (crc_bit p ^^ n) c XOR (crc_bit p ^^ n) d"
  by (induction n) (simp_all add: crc_bit_xor)

lemma crc_bits_zero: "(crc_bit p ^^ n) 0 = 0"
  by (induction n) (simp_all add: crc_bit_def)

lemma xor_cancel: "c XOR (c XOR x) = (x :: u32)"
  by (simp add: xor.assoc [symmetric])

lemma xor_zero_iff: "c XOR d = 0 \<longleftrightarrow> c = (d :: u32)"
  by (metis xor_cancel xor.right_neutral xor_self_eq)

lemma ucast_byte_inject: "(ucast b :: u32) = ucast b' \<Longrightarrow> b = (b' :: byte)"
proof -
  have "ucast (ucast x :: u32) = x" for x :: byte
    by (rule bit_word_eqI) (auto simp: bit_unsigned_iff dest: bit_imp_le_length)
  then show "(ucast b :: u32) = ucast b' \<Longrightarrow> b = b'" by metis
qed

lemma ucast_byte_xor: "ucast (b XOR b') = (ucast b XOR ucast b' :: u32)" for b b' :: byte
  by (rule bit_word_eqI) (auto simp: bit_unsigned_iff bit_xor_iff)

text \<open>A register whose low bits are clear is shifted.\<close>

lemma crc_bit_push: "n = 1 \<Longrightarrow> \<not> bit c 31 \<Longrightarrow> crc_bit p (push_bit n c) = c"
proof (rule bit_word_eqI)
  fix i
  assume "n = 1" "\<not> bit c 31" "i < LENGTH(32)"
  then show "bit (crc_bit p (push_bit n c)) i = bit c i"
    by (cases "i = 31") (simp_all add: crc_bit_bits bit_push_bit_iff del: One_nat_def push_bit_of_1 mult_2 )
qed

lemma crc_bits_push:
  "k \<le> 24 \<Longrightarrow> (crc_bit p ^^ k) (push_bit k (ucast b)) = ucast (b :: byte)"
proof (induction k)
  case (Suc k)
  have "\<not> bit (push_bit k (ucast b :: u32)) 31"
    using Suc.prems bit_imp_le_length [of b "31 - k"]
    by (auto simp: bit_push_bit_iff bit_unsigned_iff)
  then have "crc_bit p (push_bit (Suc k) (ucast b)) = push_bit k (ucast b)"
    using crc_bit_push [of 1 "push_bit k (ucast b)" p] by (simp add: push_bit_push_bit)
  then show ?case using Suc by (simp add: funpow_Suc_right del: funpow.simps)
qed simp

text \<open>The difference of two registers after equally long inputs.\<close>

definition byte_diff :: "bytes \<Rightarrow> bytes \<Rightarrow> bytes" where
  "byte_diff xs ys = map2 (XOR) xs ys"

lemma byte_diff_zero: "length xs = length ys \<Longrightarrow> set (byte_diff xs ys) \<subseteq> {0} \<Longrightarrow> xs = ys"
proof (induction xs ys rule: list_induct2)
  case (Cons x xs y ys)
  have "x XOR y = 0" using Cons.prems by (simp add: byte_diff_def)
  then have "x = y" by (metis xor.assoc xor.right_neutral xor.left_neutral xor_self_eq)
  then show ?case using Cons by (simp add: byte_diff_def)
qed simp

lemma crc_byte_diff:
  "crc_byte p b c XOR crc_byte p b' c' = crc_byte p (b XOR b') (c XOR c')"
proof -
  have "(c XOR ucast b) XOR (c' XOR ucast b') = (c XOR c') XOR ucast (b XOR b')"
    by (simp add: ucast_byte_xor ac_simps)
  then show ?thesis by (simp add: crc_byte_def crc_bits_xor [symmetric])
qed

lemma fold_crc_diff:
  "length xs = length ys \<Longrightarrow>
   fold (crc_byte p) xs c XOR fold (crc_byte p) ys c'
     = fold (crc_byte p) (byte_diff xs ys) (c XOR c')"
  by (induction xs ys arbitrary: c c' rule: list_induct2)
    (simp_all add: byte_diff_def crc_byte_diff)

text \<open>The bytes of a short input, as the register before any shift: \<open>le_word k bs\<close> is the
  little-endian word of \<open>bs\<close>, moved up by \<open>k\<close> bits.\<close>

primrec le_word :: "nat \<Rightarrow> bytes \<Rightarrow> u32" where
  "le_word k [] = 0"
| "le_word k (b # bs) = push_bit k (ucast b) XOR le_word (k + 8) bs"

lemma fold_crc_word:
  "k + 8 * length bs \<le> 32 \<Longrightarrow>
   fold (crc_byte p) bs ((crc_bit p ^^ k) c) = (crc_bit p ^^ (k + 8 * length bs)) (c XOR le_word k bs)"
proof (induction bs arbitrary: k c)
  case (Cons b bs)
  have "crc_byte p b ((crc_bit p ^^ k) c) = (crc_bit p ^^ 8) ((crc_bit p ^^ k) (c XOR push_bit k (ucast b)))"
    using Cons.prems by (simp add: crc_byte_def crc_bits_xor crc_bits_push)
  also have "\<dots> = (crc_bit p ^^ (k + 8)) (c XOR push_bit k (ucast b))"
    by (simp add: funpow_add add.commute [of k])
  finally show ?case using Cons.IH [of "k + 8" "c XOR push_bit k (ucast b)"] Cons.prems
    by (simp add: xor.assoc ac_simps)
qed simp

lemma le_word_low: "n < k \<Longrightarrow> \<not> bit (le_word k bs) n"
  by (induction bs arbitrary: k) (auto simp: bit_xor_iff bit_push_bit_iff)

lemma le_word_zero: "k + 8 * length bs \<le> 32 \<Longrightarrow> le_word k bs = 0 \<Longrightarrow> set bs \<subseteq> {0}"
proof (induction bs arbitrary: k)
  case (Cons b bs)
  have "\<not> bit b n" if "n < 8" for n
  proof -
    have "bit (le_word k (b # bs)) (k + n) = bit b n"
      using that Cons.prems(1) le_word_low [of "k + n" "k + 8" bs]
      by (simp add: bit_xor_iff bit_push_bit_iff bit_unsigned_iff)
    then show ?thesis using Cons.prems(2) by simp
  qed
  then have zero: "b = 0" by (intro bit_word_eqI) simp
  then show ?case using Cons.IH [of "k + 8"] Cons.prems by simp
qed simp

text \<open>The little-endian word of four bytes is the one that the decoder reads.\<close>

lemma le_word_val: "k + 8 * length bs \<le> 32 \<Longrightarrow> le_word k bs = word_of_nat (2 ^ k * be_val (rev bs))"
proof (induction bs arbitrary: k)
  case (Cons b bs)
  have apart: "push_bit k (ucast b) AND le_word (k + 8) bs = (0 :: u32)"
  proof (rule bit_word_eqI)
    fix n
    show "bit (push_bit k (ucast b :: u32) AND le_word (k + 8) bs) n = bit (0 :: u32) n"
    proof (cases "n < k + 8")
      case True
      then show ?thesis using le_word_low [of n "k + 8" bs] by (simp add: bit_and_iff)
    next
      case False
      then have "\<not> bit b (n - k)" using bit_imp_le_length [of b "n - k"] by auto
      then show ?thesis by (simp add: bit_and_iff bit_push_bit_iff bit_unsigned_iff)
    qed
  qed
  have low: "push_bit k (ucast b :: u32) = word_of_nat (2 ^ k * unat b)"
    by (simp add: push_bit_eq_mult mult.commute)
  have "le_word k (b # bs) = push_bit k (ucast b) + le_word (k + 8) bs"
    using disjunctive_add_eq_xor [OF apart] by simp
  also have "\<dots> = word_of_nat (2 ^ k * unat b) + word_of_nat (2 ^ (k + 8) * be_val (rev bs))"
    using Cons.IH [of "k + 8"] Cons.prems low by simp
  also have "\<dots> = word_of_nat (2 ^ k * be_val (rev (b # bs)))"
    by (simp add: be_val_def algebra_simps power_add)
  finally show ?case .
qed (simp add: be_val_def)

lemma le_word_Uint32LE: "length s = 4 \<Longrightarrow> le_word 0 s = Uint32LE s"
  using le_word_val [of 0 s] by (simp add: Uint32LE_def)

text \<open>When the last four bytes are the checksum of what precedes them, the register over everything
  is a constant, the residue.\<close>

definition residue :: "u32 \<Rightarrow> u32" where
  "residue poly = (crc_bit poly ^^ 32) (NOT 0)"

lemma trailer_residue:
  assumes "length s = 4" "Uint32LE s = crc32_Update 0 poly xs"
  shows "fold (crc_byte poly) (xs @ s) (NOT 0) = residue poly"
proof -
  define c where "c = fold (crc_byte poly) xs (NOT 0)"
  have "le_word 0 s = NOT c"
    using assms by (simp add: le_word_Uint32LE c_def crc32_Update_def)
  then have "c XOR le_word 0 s = NOT 0" by (simp add: bit_eq_iff bit_xor_iff bit_not_iff)
  moreover have "fold (crc_byte poly) s c = (crc_bit poly ^^ 32) (c XOR le_word 0 s)"
    using fold_crc_word [of 0 s poly c] assms(1) by simp
  ultimately show ?thesis by (simp add: residue_def c_def)
qed

section \<open>Burst errors\<close>

text \<open>A generator polynomial of full degree gives an invertible register, so no error that is
  confined to four consecutive bytes escapes the checksum.\<close>

locale crc_polynomial =
  fixes poly :: u32
  assumes top_bit: "bit poly 31"
begin

lemma crc_bit_inject: "crc_bit poly c = crc_bit poly d \<Longrightarrow> c = d"
proof -
  assume eq: "crc_bit poly c = crc_bit poly d"
  have top: "\<not> bit (x :: u32) (Suc 31)" for x using bit_imp_le_length [of x "Suc 31"] by auto
  have zero: "bit c 0 = bit d 0"
    using arg_cong [OF eq, of "\<lambda>x. bit x 31"] top [of c] top [of d] top_bit
    by (auto simp: crc_bit_bits)
  have "bit c n = bit d n" if "n < 32" for n
  proof (cases n)
    case (Suc m)
    then show ?thesis
      using arg_cong [OF eq, of "\<lambda>x. bit x m"] zero that by (auto simp: crc_bit_bits)
  qed (use zero in simp)
  then show "c = d" by (intro bit_word_eqI) simp
qed

lemma crc_bits_inject: "(crc_bit poly ^^ n) c = (crc_bit poly ^^ n) d \<Longrightarrow> c = d"
  by (induction n) (auto dest: crc_bit_inject)

lemma fold_crc_inject: "fold (crc_byte poly) bs c = fold (crc_byte poly) bs d \<Longrightarrow> c = d"
proof (induction bs arbitrary: c d)
  case (Cons b bs)
  then have "crc_byte poly b c = crc_byte poly b d" by simp
  then have "c XOR ucast b = d XOR ucast b"
    by (auto simp: crc_byte_def dest: crc_bits_inject)
  then show ?case by (metis xor.commute xor_cancel)
qed simp

lemma burst_changes_register:
  assumes "length w = length w'" "length w \<le> 4" "w \<noteq> w'"
  shows "fold (crc_byte poly) w c \<noteq> fold (crc_byte poly) w' c"
proof
  assume "fold (crc_byte poly) w c = fold (crc_byte poly) w' c"
  then have "fold (crc_byte poly) (byte_diff w w') 0 = 0"
    using fold_crc_diff [OF assms(1), of poly c c] by (simp add: xor_zero_iff)
  moreover have "length (byte_diff w w') = length w" using assms(1) by (simp add: byte_diff_def)
  ultimately have "(crc_bit poly ^^ (8 * length w)) (le_word 0 (byte_diff w w'))
      = (crc_bit poly ^^ (8 * length w)) 0"
    using fold_crc_word [of 0 "byte_diff w w'" poly 0] assms(2) by (simp add: crc_bits_zero)
  then have "set (byte_diff w w') \<subseteq> {0}"
    using le_word_zero [of 0 "byte_diff w w'"] assms(1,2)
    by (auto simp: byte_diff_def dest: crc_bits_inject)
  then have "w = w'" using byte_diff_zero [OF assms(1)] by blast
  with assms(3) show False ..
qed

lemma burst_changes_checksum:
  assumes "length w = length w'" "length w \<le> 4" "w \<noteq> w'"
  shows "crc32_Update 0 poly (xs @ w @ ys) \<noteq> crc32_Update 0 poly (xs @ w' @ ys)"
  using burst_changes_register [OF assms] by (auto simp: crc32_Update_def dest!: fold_crc_inject)

text \<open>The burst may also cross the boundary between the data and the checksum behind it.\<close>

lemma burst_breaks_trailer:
  assumes data: "xs @ s = pre @ w @ post" "length s = 4" "Uint32LE s = crc32_Update 0 poly xs"
    and changed: "xs' @ s' = pre @ w' @ post" "length s' = 4"
    and burst: "length w = length w'" "length w \<le> 4" "w \<noteq> w'"
  shows "Uint32LE s' \<noteq> crc32_Update 0 poly xs'"
proof
  assume "Uint32LE s' = crc32_Update 0 poly xs'"
  from trailer_residue [OF changed(2) this] trailer_residue [OF data(2,3)]
  have "fold (crc_byte poly) (pre @ w @ post) (NOT 0) = fold (crc_byte poly) (pre @ w' @ post) (NOT 0)"
    by (simp only: data(1) changed(1))
  then show False
    using burst_changes_register [OF burst] by (auto dest!: fold_crc_inject)
qed

end

interpretation ieee: crc_polynomial IEEE
  by unfold_locales (simp add: IEEE_def)

interpretation castagnoli: crc_polynomial Castagnoli
  by unfold_locales (simp add: Castagnoli_def)

lemma ChecksumIEEE_single_byte:
  "b \<noteq> b' \<Longrightarrow> ChecksumIEEE (xs @ b # ys) \<noteq> ChecksumIEEE (xs @ b' # ys)"
  using ieee.burst_changes_checksum [of "[b]" "[b']" xs ys] by (simp add: ChecksumIEEE_def)

end
