(* ===== verification/Window.thy ===== *)
theory Window
  imports Events Checksum
begin

text \<open>
  Event-time windows (\<^verbatim>\<open>internal/engine/window_processor.go\<close>, \<^verbatim>\<open>window_snapshot.go\<close> and
  \<^verbatim>\<open>window_operator.go\<close>). A nil-able byte slice is a \<open>slice\<close>: a window without an accumulator
  holds \<open>None\<close>. The aggregator is a record of its four functions. JSON is the pair of a
  marshalling and an unmarshalling function.
\<close>

section \<open>Data\<close>

record WindowAggregator =
  CreateAccumulator :: slice
  Add :: "slice \<Rightarrow> Event \<Rightarrow> slice"
  GetResult :: "slice \<Rightarrow> slice"
  Merge :: "slice \<Rightarrow> slice \<Rightarrow> slice"

record WindowConfig =
  Kind :: string
  w_Size :: int
  w_Slide :: int
  w_Gap :: int
  AllowedLateness :: int
  AggregationID :: string
  MaxWindows :: int

record WindowResult =
  r_Key :: bytes
  WindowStart :: int
  WindowEnd :: int
  r_Value :: slice
  IsUpdate :: bool

record WindowStats =
  Late :: u64
  Allowed :: u64
  Dropped :: u64
  RetainedWindows :: int

record retainedWindow =
  w_Key :: bytes
  w_Start :: int
  w_End :: int
  Accumulator :: slice
  Fired :: bool
  Emitted :: bool

record WindowProcessor =
  wp_config :: WindowConfig
  wp_watermark :: int
  wp_windows :: "(bytes, retainedWindow list) gomap"
  wp_stats :: WindowStats

datatype window_error =
    WErrInvalidLatenessOrAggregator
  | WErrInvalidStateLimit
  | WErrPositiveSizeRequired
  | WErrPositiveSlideRequired
  | WErrAssignmentExceedsLimit
  | WErrPositiveGapRequired
  | WErrUnknownKind string
  | WErrEndOverflow
  | WErrStartUnderflow
  | ErrMemoryLimitExceeded
  | ErrSnapshotCorrupt

definition check_window_kind :: "WindowConfig \<Rightarrow> window_error option" where
  "check_window_kind c =
     (if Kind c = ''tumbling'' then
        if w_Size c \<le> 0 then Some WErrPositiveSizeRequired else None
      else if Kind c = ''sliding'' then
        if w_Size c \<le> 0 \<or> w_Slide c \<le> 0 then Some WErrPositiveSlideRequired
        else if wrap64 (go_div (wrap64 (w_Size c - 1)) (w_Slide c) + 1) > MaxWindows c
        then Some WErrAssignmentExceedsLimit else None
      else if Kind c = ''session'' then
        if w_Gap c \<le> 0 then Some WErrPositiveGapRequired else None
      else Some (WErrUnknownKind (Kind c)))"

definition NewWindowProcessor ::
  "WindowConfig \<Rightarrow> WindowAggregator option \<Rightarrow> window_error + WindowProcessor" where
  "NewWindowProcessor c0 aggregator =
     (if AllowedLateness c0 < 0 \<or> AggregationID c0 = [] \<or> aggregator = None
      then Inl WErrInvalidLatenessOrAggregator
      else
        let c = (if MaxWindows c0 = 0 then c0\<lparr>MaxWindows := 100000\<rparr> else c0)
        in if MaxWindows c < 1 then Inl WErrInvalidStateLimit
           else case check_window_kind c of
                  Some e \<Rightarrow> Inl e
                | None \<Rightarrow> Inr \<lparr>wp_config = c, wp_watermark = MinInt64, wp_windows = [],
                               wp_stats = \<lparr>Late = 0, Allowed = 0, Dropped = 0, RetainedWindows = 0\<rparr>\<rparr>)"

section \<open>Arithmetic\<close>

definition windowEnd :: "int \<Rightarrow> int \<Rightarrow> window_error + int" where
  "windowEnd start duration =
     (if start > wrap64 (MaxInt64 - duration) then Inl WErrEndOverflow
      else Inr (wrap64 (start + duration)))"

definition deadline :: "WindowConfig \<Rightarrow> int \<Rightarrow> int" where
  "deadline c stop =
     (if stop > wrap64 (MaxInt64 - AllowedLateness c) then MaxInt64
      else wrap64 (stop + AllowedLateness c))"

definition floorWindowStart :: "int \<Rightarrow> int \<Rightarrow> window_error + int" where
  "floorWindowStart timestamp step =
     (let r = go_rem timestamp step;
          remainder = (if r < 0 then wrap64 (r + step) else r)
      in if timestamp < wrap64 (MinInt64 + remainder) then Inl WErrStartUnderflow
         else Inr (wrap64 (timestamp - remainder)))"

definition window_result :: "WindowAggregator \<Rightarrow> retainedWindow \<Rightarrow> bool \<Rightarrow> WindowResult" where
  "window_result agg w update =
     \<lparr>r_Key = w_Key w, WindowStart = w_Start w, WindowEnd = w_End w,
      r_Value = GetResult agg (Accumulator w), IsUpdate = update\<rparr>"

section \<open>Assigning an event\<close>

definition new_window :: "bytes \<Rightarrow> int \<Rightarrow> int \<Rightarrow> slice \<Rightarrow> retainedWindow" where
  "new_window key start stop acc =
     \<lparr>w_Key = key, w_Start = start, w_End = stop, Accumulator = acc, Fired = False, Emitted = False\<rparr>"

definition merge_window :: "WindowAggregator \<Rightarrow> retainedWindow \<Rightarrow> retainedWindow \<Rightarrow> retainedWindow" where
  "merge_window agg merged w =
     merged\<lparr>w_Start := min (w_Start merged) (w_Start w), w_End := max (w_End merged) (w_End w),
            Accumulator := Merge agg (Accumulator merged) (Accumulator w),
            Emitted := (Emitted merged \<or> Emitted w)\<rparr>"

text \<open>One pass of the session merge over the retained windows: the merged window, what
  remains, and whether anything was merged.\<close>

fun session_pass ::
  "WindowAggregator \<Rightarrow> retainedWindow \<Rightarrow> retainedWindow list
   \<Rightarrow> retainedWindow \<times> retainedWindow list \<times> bool" where
  "session_pass agg merged [] = (merged, [], False)"
| "session_pass agg merged (w # ws) =
     (if w_Start w \<le> w_End merged \<and> w_End w \<ge> w_Start merged then
        let (m, rest, _) = session_pass agg (merge_window agg merged w) ws in (m, rest, True)
      else
        let (m, rest, c) = session_pass agg merged ws in (m, w # rest, c))"

lemma session_pass_length:
  "session_pass agg merged ws = (m, rest, c) \<Longrightarrow>
   length rest \<le> length ws \<and> (c \<longrightarrow> length rest < length ws)"
  by (induction ws arbitrary: merged m rest c)
    (fastforce simp: Let_def split: if_splits prod.splits)+

function session_merge ::
  "WindowAggregator \<Rightarrow> retainedWindow \<Rightarrow> retainedWindow list
   \<Rightarrow> retainedWindow \<times> retainedWindow list" where
  "session_merge agg merged next =
     (case session_pass agg merged next of
        (m, rest, c) \<Rightarrow> if c then session_merge agg m rest else (m, rest))"
  by pat_completeness auto
termination
  by (relation "measure (\<lambda>(_, _, ws). length ws)")
    (auto dest: session_pass_length [OF sym])

declare session_merge.simps [simp del]

text \<open>The loop that walks the starts of the tumbling or sliding windows of an event. A step
  that is not positive would not end: the value is then \<open>None\<close>.\<close>

partial_function (option) assign_loop ::
  "bool \<Rightarrow> int \<Rightarrow> int \<Rightarrow> bytes \<Rightarrow> int \<Rightarrow> int \<Rightarrow> retainedWindow list
   \<Rightarrow> (window_error + retainedWindow list) option" where
  "assign_loop tumbling sz step key t start assigned =
     (case windowEnd start sz of
        Inl err \<Rightarrow> Some (Inl err)
      | Inr stop \<Rightarrow>
          if t \<ge> stop then Some (Inr assigned)
          else if tumbling \<or> start < wrap64 (MinInt64 + step)
          then Some (Inr (assigned @ [new_window key start stop None]))
          else assign_loop tumbling sz step key t (wrap64 (start - step))
                 (assigned @ [new_window key start stop None]))"

declare assign_loop.simps [code]

definition window_step :: "WindowConfig \<Rightarrow> int" where
  "window_step c = (if Kind c = ''sliding'' then w_Slide c else w_Size c)"

text \<open>The windows assigned to an event, and the retained windows that are left after a
  session merge.\<close>

definition assign_windows ::
  "WindowAggregator \<Rightarrow> WindowConfig \<Rightarrow> Event \<Rightarrow> retainedWindow list
   \<Rightarrow> (window_error + retainedWindow list \<times> retainedWindow list) option" where
  "assign_windows agg c event next =
     (if Kind c = ''session'' then
        case windowEnd (EventTime event) (w_Gap c) of
          Inl err \<Rightarrow> Some (Inl err)
        | Inr stop \<Rightarrow>
            let (merged, rest) = session_merge agg
                  (new_window (Key event) (EventTime event) stop (CreateAccumulator agg)) next
            in Some (Inr ([merged], rest))
      else
        case floorWindowStart (EventTime event) (window_step c) of
          Inl err \<Rightarrow> Some (Inl err)
        | Inr start \<Rightarrow>
            map_option (map_sum id (\<lambda>assigned. (assigned, next)))
              (assign_loop (Kind c = ''tumbling'') (w_Size c) (window_step c) (Key event)
                 (EventTime event) start []))"

section \<open>Processing an event\<close>

fun find_bounds :: "int \<Rightarrow> int \<Rightarrow> retainedWindow list \<Rightarrow> nat option" where
  "find_bounds start stop [] = None"
| "find_bounds start stop (w # ws) =
     (if w_Start w = start \<and> w_End w = stop then Some 0
      else map_option Suc (find_bounds start stop ws))"

text \<open>One iteration of the loop over the assigned windows. The state is the number of accepted
  windows, the retained windows and the results.\<close>

definition accept_window ::
  "WindowAggregator \<Rightarrow> WindowConfig \<Rightarrow> int \<Rightarrow> Event \<Rightarrow> retainedWindow
   \<Rightarrow> nat \<times> retainedWindow list \<times> WindowResult list
   \<Rightarrow> nat \<times> retainedWindow list \<times> WindowResult list" where
  "accept_window agg c watermark event window0 state =
     (case state of (accepted, next, results) \<Rightarrow>
        if watermark \<ge> deadline c (w_End window0) then state
        else
          let found = (if Kind c \<noteq> ''session''
                       then find_bounds (w_Start window0) (w_End window0) next else None);
              window1 = (case found of Some i \<Rightarrow> next ! i | None \<Rightarrow> window0);
              acc = (if Accumulator window1 = None then CreateAccumulator agg
                     else Accumulator window1);
              window2 = window1\<lparr>Accumulator := Add agg acc event\<rparr>;
              fire = (watermark \<ge> w_End window2);
              results' = (if fire then results @ [window_result agg window2 (Emitted window2)]
                          else results);
              window3 = (if fire then window2\<lparr>Fired := True, Emitted := True\<rparr> else window2);
              next' = (case found of Some i \<Rightarrow> next[i := window3] | None \<Rightarrow> next @ [window3])
          in (Suc accepted, next', results'))"

text \<open>The end of \<open>Process\<close>: the state limit, the new window list of the key and the
  counters. \<open>some\<close> tells whether any window was assigned.\<close>

definition commit_windows ::
  "Event \<Rightarrow> bool \<Rightarrow> nat \<Rightarrow> retainedWindow list \<Rightarrow> WindowResult list \<Rightarrow> WindowProcessor
   \<Rightarrow> (window_error + WindowResult list \<times> bool) \<times> WindowProcessor" where
  "commit_windows event some accepted next1 results p =
     (let existing = mget (wp_windows p) (Key event) [];
          next2 = (if accepted = 0 then existing else next1);
          newCount = RetainedWindows (wp_stats p) - int (length existing) + int (length next2)
      in if newCount > MaxWindows (wp_config p) then (Inl ErrMemoryLimitExceeded, p)
         else
           let ordered = sort_key w_Start next2;
               windows' = (if ordered \<noteq> [] then AList.update (Key event) ordered (wp_windows p)
                           else wp_windows p);
               late = (EventTime event < wp_watermark p);
               tooLate = (some \<and> accepted = 0);
               st = wp_stats p;
               stats' = \<lparr>Late = (if late then Late st + 1 else Late st),
                         Allowed = (if late \<and> accepted > 0 then Allowed st + 1 else Allowed st),
                         Dropped = (if tooLate then Dropped st + 1 else Dropped st),
                         RetainedWindows = newCount\<rparr>
           in (Inr (results, tooLate), p\<lparr>wp_windows := windows', wp_stats := stats'\<rparr>))"

definition Process ::
  "WindowAggregator \<Rightarrow> Event \<Rightarrow> WindowProcessor
   \<Rightarrow> ((window_error + WindowResult list \<times> bool) \<times> WindowProcessor) option" where
  "Process agg event p =
     (case assign_windows agg (wp_config p) event (mget (wp_windows p) (Key event) []) of
        None \<Rightarrow> None
      | Some (Inl err) \<Rightarrow> Some (Inl err, p)
      | Some (Inr (assigned, next0)) \<Rightarrow>
          let (accepted, next1, results) =
                fold (accept_window agg (wp_config p) (wp_watermark p) event) assigned (0, next0, [])
          in Some (commit_windows event (assigned \<noteq> []) accepted next1 results p))"

section \<open>Advancing the watermark\<close>

text \<open>The loop over the windows of one key: results, the windows that stay, and the number
  purged.\<close>

fun advance_key ::
  "WindowAggregator \<Rightarrow> WindowConfig \<Rightarrow> int \<Rightarrow> retainedWindow list
   \<Rightarrow> WindowResult list \<times> retainedWindow list \<times> int" where
  "advance_key agg c watermark [] = ([], [], 0)"
| "advance_key agg c watermark (w # ws) =
     (let fire = (\<not> Fired w \<and> watermark \<ge> w_End w);
          w' = (if fire then w\<lparr>Fired := True, Emitted := True\<rparr> else w);
          (results, remaining, purged) = advance_key agg c watermark ws
      in ((if fire then [window_result agg w (Emitted w)] else []) @ results,
          (if watermark < deadline c (w_End w) then w' # remaining else remaining),
          (if watermark < deadline c (w_End w) then purged else purged + 1)))"

fun advance_keys ::
  "WindowAggregator \<Rightarrow> int \<Rightarrow> bytes list \<Rightarrow> WindowProcessor \<Rightarrow> WindowResult list \<times> WindowProcessor" where
  "advance_keys agg watermark [] p = ([], p)"
| "advance_keys agg watermark (key # keys) p =
     (let (results, remaining, purged) =
            advance_key agg (wp_config p) watermark (mget (wp_windows p) key []);
          windows' = (if remaining = [] then AList.delete key (wp_windows p)
                      else AList.update key remaining (wp_windows p));
          p' = p\<lparr>wp_windows := windows',
                 wp_stats := (wp_stats p)\<lparr>RetainedWindows := RetainedWindows (wp_stats p) - purged\<rparr>\<rparr>;
          (rest, p'') = advance_keys agg watermark keys p'
      in (results @ rest, p''))"

definition window_AdvanceWatermark ::
  "WindowAggregator \<Rightarrow> int \<Rightarrow> WindowProcessor \<Rightarrow> WindowResult list \<times> WindowProcessor" where
  "window_AdvanceWatermark agg watermark p =
     (if watermark \<le> wp_watermark p then ([], p)
      else advance_keys agg watermark (sort (map fst (wp_windows p)))
             (p\<lparr>wp_watermark := watermark\<rparr>))"

section \<open>Arithmetic without wrap-around\<close>

definition config_ok :: "WindowConfig \<Rightarrow> bool" where
  "config_ok c \<longleftrightarrow> check_window_kind c = None \<and> 0 \<le> AllowedLateness c \<and> AllowedLateness c \<le> MaxInt64
     \<and> 1 \<le> MaxWindows c \<and> in_i64 (w_Size c) \<and> in_i64 (w_Slide c) \<and> in_i64 (w_Gap c)"

lemma config_ok_kinds:
  assumes "config_ok c"
  shows "Kind c = ''session'' \<Longrightarrow> 0 < w_Gap c \<and> w_Gap c \<le> MaxInt64"
    and "Kind c \<noteq> ''session'' \<Longrightarrow> 0 < w_Size c \<and> w_Size c \<le> MaxInt64"
    and "Kind c \<noteq> ''session'' \<Longrightarrow> 0 < window_step c \<and> window_step c \<le> MaxInt64"
    and "Kind c = ''tumbling'' \<Longrightarrow> window_step c = w_Size c"
    and "Kind c = ''tumbling'' \<or> Kind c = ''sliding'' \<or> Kind c = ''session''"
  using assms
  by (auto simp: config_ok_def check_window_kind_def window_step_def in_i64_def split: if_splits)

lemma windowEnd_eq:
  assumes "in_i64 start" "0 < d" "d \<le> MaxInt64"
  shows "windowEnd start d = (if start + d > MaxInt64 then Inl WErrEndOverflow else Inr (start + d))"
proof -
  have "wrap64 (MaxInt64 - d) = MaxInt64 - d"
    using assms by (intro wrap64_id) (auto simp: in_i64_def MinInt64_def MaxInt64_def)
  moreover have "wrap64 (start + d) = start + d" if "start + d \<le> MaxInt64"
    using assms that by (intro wrap64_id) (auto simp: in_i64_def MinInt64_def MaxInt64_def)
  ultimately show ?thesis by (auto simp: windowEnd_def)
qed

lemma deadline_eq:
  assumes "0 \<le> AllowedLateness c" "AllowedLateness c \<le> MaxInt64" "in_i64 stop"
  shows "deadline c stop = min MaxInt64 (stop + AllowedLateness c)"
proof -
  have "wrap64 (MaxInt64 - AllowedLateness c) = MaxInt64 - AllowedLateness c"
    using assms by (intro wrap64_id) (auto simp: in_i64_def MinInt64_def MaxInt64_def)
  moreover have "wrap64 (stop + AllowedLateness c) = stop + AllowedLateness c"
    if "stop + AllowedLateness c \<le> MaxInt64"
    using assms that by (intro wrap64_id) (auto simp: in_i64_def MinInt64_def MaxInt64_def)
  ultimately show ?thesis by (auto simp: deadline_def min_def)
qed

lemma deadline_mono:
  "config_ok c \<Longrightarrow> in_i64 a \<Longrightarrow> in_i64 b \<Longrightarrow> a \<le> b \<Longrightarrow> deadline c a \<le> deadline c b"
  by (simp add: deadline_eq config_ok_def)

lemma deadline_ge: "config_ok c \<Longrightarrow> in_i64 a \<Longrightarrow> a \<le> deadline c a"
  by (simp add: deadline_eq config_ok_def in_i64_def)

lemma go_rem_floor:
  assumes "0 < step" "r = go_rem t step"
  shows "(if r < 0 then r + step else r) = t mod step"
proof (cases "0 \<le> t")
  case True
  then have "r = t mod step"
    using assms by (cases "t = 0") (simp_all add: go_rem_def signed_modulo_int_def)
  moreover have "0 \<le> t mod step" using assms(1) by simp
  ultimately show ?thesis by simp
next
  case False
  then have r: "r = - ((- t) mod step)" using assms by (simp add: go_rem_def signed_modulo_int_def)
  have "0 \<le> (- t) mod step" using assms(1) by simp
  then show ?thesis
    using zmod_zminus1_eq_if [of "- t" step] r by auto
qed

lemma floorWindowStart_eq:
  assumes "in_i64 t" "0 < step" "step \<le> MaxInt64"
  shows "floorWindowStart t step =
    (if t - t mod step < MinInt64 then Inl WErrStartUnderflow else Inr (t - t mod step))"
proof -
  define r where "r = go_rem t step"
  have m: "0 \<le> t mod step" "t mod step < step" using assms(2) by auto
  have "r + step = t mod step" if "r < 0" using go_rem_floor [OF assms(2) r_def] that by simp
  then have "wrap64 (r + step) = r + step" if "r < 0"
    using that m assms(3) by (intro wrap64_id) (auto simp: in_i64_def MinInt64_def MaxInt64_def)
  then have "(if r < 0 then wrap64 (r + step) else r) = t mod step"
    using go_rem_floor [OF assms(2) r_def] by auto
  moreover have "wrap64 (MinInt64 + t mod step) = MinInt64 + t mod step"
    using m assms(3) by (intro wrap64_id) (auto simp: in_i64_def MinInt64_def MaxInt64_def)
  moreover have "wrap64 (t - t mod step) = t - t mod step" if "MinInt64 \<le> t - t mod step"
    using m that assms(1) by (intro wrap64_id) (auto simp: in_i64_def)
  ultimately show ?thesis
    by (auto simp: floorWindowStart_def Let_def r_def [symmetric])
qed

section \<open>Assignment\<close>

lemma ex_nat_split: "(\<exists>k. P k) \<longleftrightarrow> P 0 \<or> (\<exists>k. P (Suc k))"
  by (metis not0_implies_Suc)

lemma assign_loop_spec:
  assumes "0 < step" "step \<le> MaxInt64" "0 < sz" "sz \<le> MaxInt64" "MinInt64 \<le> start"
    "start + sz \<le> MaxInt64" "start \<le> t" "tumbling \<longrightarrow> step = sz"
  shows "\<exists>ws. assign_loop tumbling sz step key t start acc = Some (Inr (acc @ ws))
    \<and> sorted_wrt (\<lambda>a b. w_Start b < w_Start a) ws
    \<and> (\<forall>w. w \<in> set ws \<longleftrightarrow> (\<exists>k. w = new_window key (start - int k * step) (start - int k * step + sz) None
          \<and> MinInt64 \<le> start - int k * step \<and> t < start - int k * step + sz))"
  using assms(5-7)
proof (induction "nat (start - MinInt64)" arbitrary: start acc rule: less_induct)
  case less
  let ?w0 = "new_window key start (start + sz) None"
  have i64: "in_i64 start" using less.prems assms(3) by (auto simp: in_i64_def)
  have stop: "windowEnd start sz = Inr (start + sz)"
    using windowEnd_eq [OF i64 assms(3,4)] less.prems(2) by simp
  have low: "wrap64 (MinInt64 + step) = MinInt64 + step"
    using assms(1,2) by (intro wrap64_id) (auto simp: in_i64_def MinInt64_def MaxInt64_def)
  have below: "start - int k * step \<le> start" for k using assms(1) by simp
  consider "t \<ge> start + sz" | "t < start + sz" "tumbling \<or> start < MinInt64 + step"
    | "t < start + sz" "\<not> tumbling" "MinInt64 + step \<le> start" by linarith
  then show ?case
  proof cases
    case 1
    then have "\<not> t < start - int k * step + sz" for k using below [of k] by linarith
    then show ?thesis using 1 by (subst assign_loop.simps) (auto simp: stop)
  next
    case 2
    have "k = 0" if "MinInt64 \<le> start - int k * step" "t < start - int k * step + sz" for k
    proof (rule ccontr)
      assume "k \<noteq> 0"
      then have "step \<le> int k * step" using assms(1) by (cases k) (auto simp: distrib_right)
      then show False
        using 2(2) that assms(8) less.prems(3) by (cases tumbling) linarith+
    qed
    then have "w \<in> set [?w0] \<longleftrightarrow>
        (\<exists>k. w = new_window key (start - int k * step) (start - int k * step + sz) None
          \<and> MinInt64 \<le> start - int k * step \<and> t < start - int k * step + sz)" for w
      using 2(1) less.prems(1) by (auto intro!: exI [of _ 0]) fastforce
    moreover have "assign_loop tumbling sz step key t start acc = Some (Inr (acc @ [?w0]))"
      using 2 by (subst assign_loop.simps) (auto simp: stop low)
    ultimately show ?thesis by (intro exI [of _ "[?w0]"]) simp
  next
    case 3
    define start' where "start' = start - step"
    have wrap: "wrap64 (start - step) = start'"
      unfolding start'_def using 3 less.prems assms(1-4)
      by (intro wrap64_id) (auto simp: in_i64_def)
    have "nat (start' - MinInt64) < nat (start - MinInt64)"
      using 3 assms(1) by (simp add: start'_def)
    from less.hyps [OF this, of "acc @ [?w0]"]
    obtain ws where ws: "assign_loop tumbling sz step key t start' (acc @ [?w0]) = Some (Inr ((acc @ [?w0]) @ ws))"
      "sorted_wrt (\<lambda>a b. w_Start b < w_Start a) ws"
      "\<And>w. w \<in> set ws \<longleftrightarrow> (\<exists>k. w = new_window key (start' - int k * step) (start' - int k * step + sz) None
          \<and> MinInt64 \<le> start' - int k * step \<and> t < start' - int k * step + sz)"
      using 3 less.prems assms(1) by (auto simp: start'_def)
    have shift: "start' - int k * step = start - int (Suc k) * step" for k
      by (simp add: start'_def algebra_simps)
    have "w \<in> set (?w0 # ws) \<longleftrightarrow> (\<exists>k. w = new_window key (start - int k * step) (start - int k * step + sz) None
          \<and> MinInt64 \<le> start - int k * step \<and> t < start - int k * step + sz)" (is "_ \<longleftrightarrow> (\<exists>k. ?P w k)") for w
    proof -
      have "w \<in> set ws \<longleftrightarrow> (\<exists>k. ?P w (Suc k))" by (simp only: ws(3) shift)
      moreover have "w = ?w0 \<longleftrightarrow> ?P w 0" using 3 less.prems by simp
      ultimately show ?thesis using ex_nat_split [of "?P w"] by simp
    qed
    moreover have "w_Start w < start" if w: "w \<in> set ws" for w
    proof -
      obtain k where "w = new_window key (start - int (Suc k) * step) (start - int (Suc k) * step + sz) None"
        using w unfolding ws(3) shift by blast
      moreover have "0 < int (Suc k) * step" using assms(1) by simp
      ultimately show ?thesis by (simp add: new_window_def)
    qed
    then have "sorted_wrt (\<lambda>a b. w_Start b < w_Start a) (?w0 # ws)"
      using ws(2) by (simp add: new_window_def)
    moreover have "assign_loop tumbling sz step key t start acc = Some (Inr (acc @ ?w0 # ws))"
      using 3 ws(1) by (subst assign_loop.simps) (simp add: stop low wrap)
    ultimately show ?thesis by (intro exI [of _ "?w0 # ws"]) simp
  qed
qed

text \<open>The windows of an event under a tumbling or sliding configuration: the aligned starts
  whose window holds its event time.\<close>

definition aligned_start :: "WindowConfig \<Rightarrow> int \<Rightarrow> int \<Rightarrow> bool" where
  "aligned_start c t s \<longleftrightarrow> s mod window_step c = 0 \<and> s \<le> t \<and> t < s + w_Size c \<and> MinInt64 \<le> s"

lemma assign_windows_fixed:
  assumes "config_ok c" "Kind c \<noteq> ''session''" "in_i64 (EventTime e)"
  defines "start \<equiv> EventTime e - EventTime e mod window_step c"
  shows "start < MinInt64 \<Longrightarrow> assign_windows agg c e next = Some (Inl WErrStartUnderflow)"
    and "MinInt64 \<le> start \<Longrightarrow> MaxInt64 < start + w_Size c \<Longrightarrow>
      assign_windows agg c e next = Some (Inl WErrEndOverflow)"
    and "MinInt64 \<le> start \<Longrightarrow> start + w_Size c \<le> MaxInt64 \<Longrightarrow>
      \<exists>ws. assign_windows agg c e next = Some (Inr (ws, next))
        \<and> sorted_wrt (\<lambda>a b. w_Start b < w_Start a) ws
        \<and> (\<forall>w. w \<in> set ws \<longleftrightarrow>
            (\<exists>s. aligned_start c (EventTime e) s \<and> w = new_window (Key e) s (s + w_Size c) None))"
proof -
  define t where "t = EventTime e"
  define step where "step = window_step c"
  define sz where "sz = w_Size c"
  have step: "0 < step" "step \<le> MaxInt64" and sz: "0 < sz" "sz \<le> MaxInt64"
    using config_ok_kinds(2,3) [OF assms(1,2)] by (auto simp: step_def sz_def)
  have tumb: "Kind c = ''tumbling'' \<longrightarrow> step = sz"
    using config_ok_kinds(4) [OF assms(1)] by (simp add: step_def sz_def)
  have start: "start = t - t mod step" by (simp add: start_def t_def step_def)
  have le: "start \<le> t" using step by (simp add: start)
  note floor = floorWindowStart_eq [OF assms(3) [folded t_def] step, folded start]
  show "start < MinInt64 \<Longrightarrow> assign_windows agg c e next = Some (Inl WErrStartUnderflow)"
    using assms(2) floor by (simp add: assign_windows_def t_def step_def)
  have i64: "in_i64 start" if "MinInt64 \<le> start"
    using that le assms(3) by (simp add: in_i64_def t_def)
  show "assign_windows agg c e next = Some (Inl WErrEndOverflow)"
    if "MinInt64 \<le> start" "MaxInt64 < start + w_Size c"
  proof -
    have "windowEnd start sz = Inl WErrEndOverflow"
      using windowEnd_eq [OF i64 [OF that(1)] sz] that(2) by (simp add: sz_def)
    then have "assign_loop (Kind c = ''tumbling'') sz step (Key e) t start [] =
        Some (Inl WErrEndOverflow)"
      by (subst assign_loop.simps) simp
    then show ?thesis
      using that(1) assms(2) floor by (simp add: assign_windows_def t_def step_def sz_def)
  qed
  assume h: "MinInt64 \<le> start" "start + w_Size c \<le> MaxInt64"
  obtain ws where ws: "assign_loop (Kind c = ''tumbling'') sz step (Key e) t start [] = Some (Inr ([] @ ws))"
    "sorted_wrt (\<lambda>a b. w_Start b < w_Start a) ws"
    "\<And>w. w \<in> set ws \<longleftrightarrow> (\<exists>k. w = new_window (Key e) (start - int k * step) (start - int k * step + sz) None
          \<and> MinInt64 \<le> start - int k * step \<and> t < start - int k * step + sz)"
    using assign_loop_spec [OF step sz h(1) _ le tumb, of "Key e" "[]"] h(2)
    unfolding sz_def [symmetric] by blast
  have al: "s mod step = 0 \<and> s \<le> t \<longleftrightarrow> (\<exists>k. s = start - int k * step)" for s
  proof
    assume s: "s mod step = 0 \<and> s \<le> t"
    define q where "q = start div step - s div step"
    have s': "s = s div step * step" and start': "start = start div step * step"
      using s by (auto simp: start minus_mod_eq_div_mult)
    have "s div step \<le> start div step"
    proof -
      have "s div step \<le> t div step" using s step by (simp add: zdiv_mono1)
      then show ?thesis using step by (simp add: start minus_mod_eq_div_mult)
    qed
    then have "0 \<le> q" by (simp add: q_def)
    moreover have "s = start - q * step"
      using s' start' by (simp add: q_def algebra_simps)
    ultimately show "\<exists>k. s = start - int k * step" by (metis nonneg_int_cases)
  next
    assume "\<exists>k. s = start - int k * step"
    then obtain k where k: "s = start - int k * step" ..
    have "start mod step = 0" by (simp add: start minus_mod_eq_div_mult)
    then have "s mod step = 0" by (simp add: k mod_diff_eq [symmetric])
    moreover have "s \<le> t" using le step by (simp add: k) (smt (verit) mult_nonneg_nonneg of_nat_0_le_iff)
    ultimately show "s mod step = 0 \<and> s \<le> t" by simp
  qed
  have "w \<in> set ws \<longleftrightarrow> (\<exists>s. aligned_start c t s \<and> w = new_window (Key e) s (s + sz) None)" for w
  proof -
    have "w \<in> set ws \<longleftrightarrow> (\<exists>s. (\<exists>k. s = start - int k * step) \<and> MinInt64 \<le> s \<and> t < s + sz \<and>
        w = new_window (Key e) s (s + sz) None)"
      unfolding ws(3) by blast
    then show ?thesis
      unfolding al [symmetric] aligned_start_def step_def [symmetric] sz_def [symmetric]
      by (simp only: conj_assoc conj_commute conj_left_commute)
  qed
  then show "\<exists>ws. assign_windows agg c e next = Some (Inr (ws, next))
        \<and> sorted_wrt (\<lambda>a b. w_Start b < w_Start a) ws
        \<and> (\<forall>w. w \<in> set ws \<longleftrightarrow>
            (\<exists>s. aligned_start c (EventTime e) s \<and> w = new_window (Key e) s (s + w_Size c) None))"
    using ws(1,2) h assms(2) floor
    by (intro exI [of _ ws]) (simp add: assign_windows_def t_def [symmetric] step_def [symmetric] sz_def [symmetric])
qed

section \<open>Invariant\<close>

definition window_ok :: "WindowConfig \<Rightarrow> int \<Rightarrow> bytes \<Rightarrow> retainedWindow \<Rightarrow> bool" where
  "window_ok c wm k w \<longleftrightarrow>
     w_Key w = k \<and> w_Start w < w_End w \<and> MinInt64 \<le> w_Start w \<and> w_End w \<le> MaxInt64
     \<and> wm < deadline c (w_End w) \<and> (Fired w \<longleftrightarrow> w_End w \<le> wm) \<and> (Fired w \<longrightarrow> Emitted w)
     \<and> (Kind c \<noteq> ''session'' \<longrightarrow>
          w_Start w mod window_step c = 0 \<and> w_End w = w_Start w + w_Size c \<and> (Emitted w \<longrightarrow> Fired w))"

definition key_ok :: "WindowConfig \<Rightarrow> int \<Rightarrow> bytes \<Rightarrow> retainedWindow list \<Rightarrow> bool" where
  "key_ok c wm k ws \<longleftrightarrow>
     (\<forall>w \<in> set ws. window_ok c wm k w) \<and> sorted_wrt (\<lambda>a b. w_Start a < w_Start b) ws
     \<and> (Kind c = ''session'' \<longrightarrow> sorted_wrt (\<lambda>a b. w_End a < w_Start b) ws)"

definition retained_count :: "(bytes, retainedWindow list) gomap \<Rightarrow> int" where
  "retained_count m = (\<Sum>(_, ws) \<leftarrow> m. int (length ws))"

definition wp_inv :: "WindowProcessor \<Rightarrow> bool" where
  "wp_inv p \<longleftrightarrow>
     config_ok (wp_config p) \<and> in_i64 (wp_watermark p) \<and> distinct (map fst (wp_windows p))
     \<and> (\<forall>k ws. map_of (wp_windows p) k = Some ws \<longrightarrow> ws \<noteq> [] \<and> key_ok (wp_config p) (wp_watermark p) k ws)
     \<and> RetainedWindows (wp_stats p) = retained_count (wp_windows p)
     \<and> retained_count (wp_windows p) \<le> MaxWindows (wp_config p)"

lemma window_ok_i64: "window_ok c wm k w \<Longrightarrow> in_i64 (w_Start w) \<and> in_i64 (w_End w)"
  by (auto simp: window_ok_def in_i64_def)

lemma key_ok_Nil [simp]: "key_ok c wm k []"
  by (simp add: key_ok_def)

lemma wp_inv_key_ok:
  "wp_inv p \<Longrightarrow> key_ok (wp_config p) (wp_watermark p) k (mget (wp_windows p) k [])"
  by (cases "map_of (wp_windows p) k") (auto simp: wp_inv_def mget_def)

lemma retained_count_update:
  "distinct (map fst m) \<Longrightarrow>
   retained_count (AList.update k ws m) = retained_count m - int (length (mget m k [])) + int (length ws)"
proof (induction m)
  case (Cons x m)
  obtain k' ws' where x: "x = (k', ws')" by (cases x)
  show ?case
  proof (cases "k' = k")
    case True
    then show ?thesis by (simp add: x retained_count_def mget_def)
  next
    case False
    then have "mget (x # m) k [] = mget m k []" by (simp add: x mget_def)
    then show ?thesis using False Cons by (simp add: x retained_count_def)
  qed
qed (simp add: retained_count_def)

lemma retained_count_delete:
  "distinct (map fst m) \<Longrightarrow>
   retained_count (AList.delete k m) = retained_count m - int (length (mget m k []))"
proof (induction m)
  case (Cons x m)
  obtain k' ws' where x: "x = (k', ws')" by (cases x)
  show ?case
  proof (cases "k' = k")
    case True
    then have "k \<notin> fst ` set m" using Cons.prems by (auto simp: x)
    then have "AList.delete k m = m" by (rule delete_id)
    then show ?thesis using True by (simp add: x retained_count_def mget_def)
  next
    case False
    then have "mget (x # m) k [] = mget m k []" by (simp add: x mget_def)
    then show ?thesis using False Cons by (simp add: x retained_count_def)
  qed
qed (simp add: retained_count_def)

lemma map_of_update_iff: "map_of (AList.update k v m) j = (if j = k then Some v else map_of m j)"
  by (simp add: update_conv')

lemma map_of_delete_iff: "map_of (AList.delete k m) j = (if j = k then None else map_of m j)"
  by (simp add: delete_conv')

section \<open>Accepting the windows of an event\<close>

definition add_event :: "WindowAggregator \<Rightarrow> int \<Rightarrow> Event \<Rightarrow> retainedWindow \<Rightarrow> retainedWindow" where
  "add_event agg wm e w =
     w\<lparr>Accumulator := Add agg (if Accumulator w = None then CreateAccumulator agg else Accumulator w) e,
       Fired := (Fired w \<or> w_End w \<le> wm), Emitted := (Emitted w \<or> w_End w \<le> wm)\<rparr>"

definition pick :: "retainedWindow list \<Rightarrow> retainedWindow \<Rightarrow> retainedWindow" where
  "pick next w = (case find (\<lambda>y. w_Start y = w_Start w) next of Some y \<Rightarrow> y | None \<Rightarrow> w)"

definition fixed_list :: "int \<Rightarrow> retainedWindow list \<Rightarrow> bool" where
  "fixed_list sz ws \<longleftrightarrow> distinct (map w_Start ws) \<and> (\<forall>w \<in> set ws. w_End w = w_Start w + sz)"

lemma find_bounds_Some:
  "find_bounds s e ws = Some i \<Longrightarrow> i < length ws \<and> w_Start (ws ! i) = s \<and> w_End (ws ! i) = e"
  by (induction ws arbitrary: i) (auto split: if_splits)

lemma find_bounds_None:
  "find_bounds s e ws = None \<longleftrightarrow> (\<forall>w \<in> set ws. \<not> (w_Start w = s \<and> w_End w = e))"
  by (induction ws) auto

lemma pick_start [simp]: "w_Start (pick next w) = w_Start w"
  by (auto simp: pick_def find_Some_iff split: option.splits)

lemma pick_end:
  "fixed_list sz next \<Longrightarrow> w_End w = w_Start w + sz \<Longrightarrow> w_End (pick next w) = w_Start w + sz"
  by (auto simp: pick_def fixed_list_def find_Some_iff split: option.splits)

lemma pick_mem: "fixed_list sz next \<Longrightarrow> y \<in> set next \<Longrightarrow> w_Start y = w_Start w \<Longrightarrow> pick next w = y"
proof -
  assume "fixed_list sz next" "y \<in> set next" "w_Start y = w_Start w"
  then have "find (\<lambda>y. w_Start y = w_Start w) next = Some y"
    by (induction "next") (auto simp: fixed_list_def image_iff)
  then show ?thesis by (simp add: pick_def)
qed

lemma pick_new: "\<forall>y \<in> set next. w_Start y \<noteq> w_Start w \<Longrightarrow> pick next w = w"
  by (auto simp: pick_def find_Some_iff split: option.splits)

lemma pick_cong:
  assumes "fixed_list sz a" "fixed_list sz b"
    and "\<And>y. w_Start y = w_Start w \<Longrightarrow> y \<in> set a \<longleftrightarrow> y \<in> set b"
  shows "pick a w = pick b w"
proof (cases "\<exists>y \<in> set a. w_Start y = w_Start w")
  case True
  then show ?thesis using assms pick_mem by metis
next
  case False
  then have "\<forall>y \<in> set b. w_Start y \<noteq> w_Start w" using assms(3) by blast
  then show ?thesis using False pick_new by metis
qed

lemma add_event_bounds [simp]:
  "w_Start (add_event agg wm e w) = w_Start w" "w_End (add_event agg wm e w) = w_End w"
  "w_Key (add_event agg wm e w) = w_Key w"
  by (simp_all add: add_event_def)

lemma accept_window_fixed:
  assumes "Kind c \<noteq> ''session''" "fixed_list sz next" "w_End w = w_Start w + sz"
  shows "accept_window agg c wm e w (n, next, rs) =
      (if deadline c (w_End w) \<le> wm then (n, next, rs)
       else (Suc n, fst (snd (accept_window agg c wm e w (n, next, rs))),
             rs @ (if w_End w \<le> wm
                   then [window_result agg (add_event agg wm e (pick next w)) (Emitted (pick next w))]
                   else [])))"
    and "\<not> deadline c (w_End w) \<le> wm \<Longrightarrow>
      next' = fst (snd (accept_window agg c wm e w (n, next, rs))) \<Longrightarrow>
      fixed_list sz next' \<and>
      (\<forall>x. x \<in> set next' \<longleftrightarrow> x \<in> set next \<and> w_Start x \<noteq> w_Start w \<or> x = add_event agg wm e (pick next w))"
proof -
  define found where "found = find_bounds (w_Start w) (w_End w) next"
  define w1 where "w1 = pick next w"
  have w1: "(case found of Some i \<Rightarrow> next ! i | None \<Rightarrow> w) = w1"
  proof (cases found)
    case None
    then have "\<forall>y \<in> set next. w_Start y \<noteq> w_Start w"
      using assms(2,3) by (auto simp: found_def find_bounds_None fixed_list_def)
    then show ?thesis using None by (simp add: w1_def pick_new)
  next
    case (Some i)
    then have "next ! i \<in> set next" "w_Start (next ! i) = w_Start w"
      using find_bounds_Some by (auto simp: found_def)
    then show ?thesis using Some pick_mem [OF assms(2)] by (simp add: w1_def)
  qed
  have stop: "w_End w1 = w_End w" using pick_end [OF assms(2,3)] assms(3) by (simp add: w1_def)
  have eval: "accept_window agg c wm e w (n, next, rs) =
      (Suc n, (case found of Some i \<Rightarrow> next[i := add_event agg wm e w1] | None \<Rightarrow> next @ [add_event agg wm e w1]),
       rs @ (if w_End w \<le> wm then [window_result agg (add_event agg wm e w1) (Emitted w1)] else []))"
    if "\<not> deadline c (w_End w) \<le> wm"
  proof -
    have f: "(if Kind c \<noteq> ''session'' then find_bounds (w_Start w) (w_End w) next else None) = found"
      using assms(1) by (simp add: found_def)
    show ?thesis
      unfolding accept_window_def prod.case f using that w1 stop
      by (cases found) (simp_all add: Let_def add_event_def window_result_def)
  qed
  show "accept_window agg c wm e w (n, next, rs) =
      (if deadline c (w_End w) \<le> wm then (n, next, rs)
       else (Suc n, fst (snd (accept_window agg c wm e w (n, next, rs))),
             rs @ (if w_End w \<le> wm
                   then [window_result agg (add_event agg wm e (pick next w)) (Emitted (pick next w))]
                   else [])))"
    using eval by (auto simp: accept_window_def w1_def)
  assume live: "\<not> deadline c (w_End w) \<le> wm"
    and next': "next' = fst (snd (accept_window agg c wm e w (n, next, rs)))"
  have d: "distinct (map w_Start next)" using assms(2) by (simp add: fixed_list_def)
  show "fixed_list sz next' \<and>
      (\<forall>x. x \<in> set next' \<longleftrightarrow> x \<in> set next \<and> w_Start x \<noteq> w_Start w \<or> x = add_event agg wm e (pick next w))"
  proof (cases found)
    case None
    then have "\<forall>y \<in> set next. w_Start y \<noteq> w_Start w"
      using assms(2,3) by (auto simp: found_def find_bounds_None fixed_list_def)
    then show ?thesis
      using None assms(2,3) stop by (auto simp: next' eval [OF live] fixed_list_def w1_def)
  next
    case (Some i)
    then have i: "i < length next" "w_Start (next ! i) = w_Start w"
      using find_bounds_Some by (auto simp: found_def)
    have same: "map w_Start (next[i := add_event agg wm e w1]) = map w_Start next"
      using i by (simp add: map_update w1_def list_update_same_conv)
    have "x \<in> set (next[i := add_event agg wm e w1]) \<longleftrightarrow>
        x \<in> set next \<and> w_Start x \<noteq> w_Start w \<or> x = add_event agg wm e w1" for x
    proof -
      have "distinct next" using d by (simp add: distinct_map)
      then have "set (next[i := add_event agg wm e w1]) = insert (add_event agg wm e w1) (set next - {next ! i})"
        using i(1) by (rule set_update_distinct)
      moreover have "x = next ! i" if "x \<in> set next" "w_Start x = w_Start w"
        using that i d by (auto simp: distinct_map inj_on_def)
      ultimately show ?thesis using i(2) by (auto simp: w1_def)
    qed
    then show ?thesis
      using Some assms(2,3) d stop same
      by (auto simp: next' eval [OF live] fixed_list_def w1_def)
  qed
qed

definition live :: "WindowConfig \<Rightarrow> int \<Rightarrow> retainedWindow \<Rightarrow> bool" where
  "live c wm w \<longleftrightarrow> wm < deadline c (w_End w)"

lemma fold_accept_fixed:
  assumes "Kind c \<noteq> ''session''" "fixed_list sz next" "fixed_list sz ws"
  shows "\<exists>next'. fold (accept_window agg c wm e) ws (n, next, rs) =
      (n + length (filter (live c wm) ws), next',
       rs @ map (\<lambda>w. window_result agg (add_event agg wm e (pick next w)) (Emitted (pick next w)))
              (filter (\<lambda>w. live c wm w \<and> w_End w \<le> wm) ws))
    \<and> fixed_list sz next' \<and> (filter (live c wm) ws = [] \<longrightarrow> next' = next)
    \<and> (\<forall>x. x \<in> set next' \<longleftrightarrow>
        x \<in> set next \<and> \<not> (\<exists>w \<in> set ws. live c wm w \<and> w_Start w = w_Start x)
        \<or> (\<exists>w \<in> set ws. live c wm w \<and> x = add_event agg wm e (pick next w)))"
  using assms(2,3)
proof (induction ws arbitrary: n "next" rs)
  case Nil
  then show ?case by simp
next
  case (Cons w ws)
  have ws: "fixed_list sz ws" "w_End w = w_Start w + sz" "\<forall>v \<in> set ws. w_Start v \<noteq> w_Start w"
    using Cons.prems(2) by (auto simp: fixed_list_def image_iff)
  show ?case
  proof (cases "live c wm w")
    case False
    then have "accept_window agg c wm e w (n, next, rs) = (n, next, rs)"
      by (simp add: accept_window_def live_def)
    then show ?thesis using Cons.IH [OF Cons.prems(1) ws(1), of n rs] False by auto
  next
    case True
    then have alive: "\<not> deadline c (w_End w) \<le> wm" by (simp add: live_def)
    define n1 where "n1 = fst (snd (accept_window agg c wm e w (n, next, rs)))"
    define rs1 where "rs1 = rs @ (if w_End w \<le> wm
      then [window_result agg (add_event agg wm e (pick next w)) (Emitted (pick next w))] else [])"
    have step: "accept_window agg c wm e w (n, next, rs) = (Suc n, n1, rs1)"
      using accept_window_fixed(1) [OF assms(1) Cons.prems(1) ws(2), of agg wm e n rs] alive
      unfolding n1_def rs1_def by presburger
    have n1: "fixed_list sz n1"
      "\<And>x. x \<in> set n1 \<longleftrightarrow> x \<in> set next \<and> w_Start x \<noteq> w_Start w \<or> x = add_event agg wm e (pick next w)"
      using accept_window_fixed(2) [OF assms(1) Cons.prems(1) ws(2) alive n1_def] by auto
    have pick: "pick n1 v = pick next v" if "v \<in> set ws" for v
      using n1 ws(3) that Cons.prems(1) by (intro pick_cong) auto
    obtain next' where IH: "fold (accept_window agg c wm e) ws (Suc n, n1, rs1) =
        (Suc n + length (filter (live c wm) ws), next',
         rs1 @ map (\<lambda>w. window_result agg (add_event agg wm e (pick n1 w)) (Emitted (pick n1 w)))
                (filter (\<lambda>w. live c wm w \<and> w_End w \<le> wm) ws))"
      "fixed_list sz next'"
      "\<And>x. x \<in> set next' \<longleftrightarrow>
          x \<in> set n1 \<and> \<not> (\<exists>w \<in> set ws. live c wm w \<and> w_Start w = w_Start x)
          \<or> (\<exists>w \<in> set ws. live c wm w \<and> x = add_event agg wm e (pick n1 w))"
      using Cons.IH [OF n1(1) ws(1)] by blast
    have "map (\<lambda>w. window_result agg (add_event agg wm e (pick n1 w)) (Emitted (pick n1 w)))
          (filter (\<lambda>w. live c wm w \<and> w_End w \<le> wm) ws) =
        map (\<lambda>w. window_result agg (add_event agg wm e (pick next w)) (Emitted (pick next w)))
          (filter (\<lambda>w. live c wm w \<and> w_End w \<le> wm) ws)"
      by (rule map_cong) (auto simp: pick)
    then have out: "fold (accept_window agg c wm e) (w # ws) (n, next, rs) =
        (n + length (filter (live c wm) (w # ws)), next',
         rs @ map (\<lambda>w. window_result agg (add_event agg wm e (pick next w)) (Emitted (pick next w)))
                (filter (\<lambda>w. live c wm w \<and> w_End w \<le> wm) (w # ws)))"
      using IH(1) step True by (simp add: rs1_def)
    have mem: "x \<in> set next' \<longleftrightarrow>
        x \<in> set next \<and> \<not> (\<exists>v \<in> set (w # ws). live c wm v \<and> w_Start v = w_Start x)
        \<or> (\<exists>v \<in> set (w # ws). live c wm v \<and> x = add_event agg wm e (pick next v))" for x
      unfolding IH(3) n1(2) using ws(3) True pick by auto
    show ?thesis
      using out IH(2) mem True by (intro exI [of _ next']) simp
  qed
qed

section \<open>Processing under a tumbling or sliding configuration\<close>

lemma aligned_le:
  assumes "aligned_start c t s" "0 < window_step c"
  shows "s \<le> t - t mod window_step c"
proof -
  have "s div window_step c * window_step c \<le> t div window_step c * window_step c"
    using assms by (intro mult_right_mono zdiv_mono1) (auto simp: aligned_start_def)
  moreover have "s div window_step c * window_step c = s"
    using assms(1) by (auto simp: aligned_start_def)
  ultimately show ?thesis by (simp add: minus_mod_eq_div_mult)
qed

definition touched :: "WindowProcessor \<Rightarrow> Event \<Rightarrow> int \<Rightarrow> bool" where
  "touched p e s \<longleftrightarrow> aligned_start (wp_config p) (EventTime e) s
     \<and> wp_watermark p < deadline (wp_config p) (s + w_Size (wp_config p))"

definition target :: "WindowProcessor \<Rightarrow> Event \<Rightarrow> int \<Rightarrow> retainedWindow" where
  "target p e s = pick (mget (wp_windows p) (Key e) [])
     (new_window (Key e) s (s + w_Size (wp_config p)) None)"

lemma sorted_sort_key_distinct:
  "distinct (map f xs) \<Longrightarrow> sorted_wrt (\<lambda>a b. f a < (f b :: int)) (sort_key f xs)"
proof -
  assume "distinct (map f xs)"
  then have "distinct (map f (sort_key f xs))"
    using mset_eq_imp_distinct_iff [of "map f (sort_key f xs)" "map f xs"] by simp
  then have "sorted_wrt (<) (map f (sort_key f xs))"
    by (simp add: strict_sorted_iff)
  then show ?thesis by (simp add: sorted_wrt_map)
qed

lemma key_ok_fixed_list:
  "Kind c \<noteq> ''session'' \<Longrightarrow> key_ok c wm k ws \<Longrightarrow> fixed_list (w_Size c) ws"
proof -
  assume k: "Kind c \<noteq> ''session''" "key_ok c wm k ws"
  have "sorted_wrt (\<lambda>a b. w_Start a < w_Start b) ws" using k by (simp add: key_ok_def)
  then have "distinct (map w_Start ws)" by (induction ws) auto
  then show ?thesis using k by (auto simp: fixed_list_def key_ok_def window_ok_def)
qed

lemma wp_inv_map_of: "wp_inv p \<Longrightarrow> map_of (wp_windows p) k \<noteq> Some []"
  unfolding wp_inv_def by blast

lemma sort_key_Nil_iff: "sort_key f xs = [] \<longleftrightarrow> xs = []"
  by (metis length_0_conv length_sort)

text \<open>What a commit does when it does not hit the state limit.\<close>

definition committed ::
  "WindowProcessor \<Rightarrow> bytes \<Rightarrow> retainedWindow list \<Rightarrow> WindowProcessor \<Rightarrow> bool" where
  "committed p k ws p' \<longleftrightarrow>
     wp_config p' = wp_config p \<and> wp_watermark p' = wp_watermark p
     \<and> (\<forall>j. map_of (wp_windows p') j =
          (if j = k then if ws = [] then None else Some (sort_key w_Start ws)
           else map_of (wp_windows p) j))
     \<and> distinct (map fst (wp_windows p'))
     \<and> RetainedWindows (wp_stats p') = retained_count (wp_windows p')
     \<and> retained_count (wp_windows p') \<le> MaxWindows (wp_config p)"

lemma commit_windows_cases:
  assumes "wp_inv p" "next2 = (if accepted = 0 then mget (wp_windows p) (Key e) [] else next1)"
    "next2 = [] \<Longrightarrow> mget (wp_windows p) (Key e) [] = []"
  obtains (full) "commit_windows e some accepted next1 results p = (Inl ErrMemoryLimitExceeded, p)"
  | (stored) p' where
      "commit_windows e some accepted next1 results p = (Inr (results, some \<and> accepted = 0), p')"
      "committed p (Key e) next2 p'"
proof -
  define count where "count =
    RetainedWindows (wp_stats p) - int (length (mget (wp_windows p) (Key e) [])) + int (length next2)"
  define m' where "m' = (if sort_key w_Start next2 \<noteq> []
    then AList.update (Key e) (sort_key w_Start next2) (wp_windows p) else wp_windows p)"
  have inv: "distinct (map fst (wp_windows p))" "RetainedWindows (wp_stats p) = retained_count (wp_windows p)"
    using assms(1) by (auto simp: wp_inv_def)
  have none: "map_of (wp_windows p) (Key e) = None" if "next2 = []"
    using assms(3) [OF that] wp_inv_map_of [OF assms(1)] by (auto simp: mget_def split: option.splits)
  have cnt: "retained_count m' = count"
  proof (cases "next2 = []")
    case True
    then show ?thesis using assms(3) inv(2) by (simp add: m'_def count_def sort_key_Nil_iff)
  next
    case False
    then show ?thesis
      using inv by (simp add: m'_def count_def sort_key_Nil_iff retained_count_update)
  qed
  show thesis
  proof (cases "count > MaxWindows (wp_config p)")
    case True
    then show ?thesis
      using full by (simp add: commit_windows_def assms(2) [symmetric] count_def [symmetric])
  next
    case False
    obtain st where st: "commit_windows e some accepted next1 results p =
        (Inr (results, some \<and> accepted = 0), p\<lparr>wp_windows := m', wp_stats := st\<rparr>)"
      "RetainedWindows st = count"
    proof
      show "commit_windows e some accepted next1 results p =
        (Inr (results, some \<and> accepted = 0), p\<lparr>wp_windows := m', wp_stats :=
          wp_stats (snd (commit_windows e some accepted next1 results p))\<rparr>)"
        using False unfolding commit_windows_def Let_def assms(2) [symmetric] count_def [symmetric] m'_def [symmetric]
        by simp
      show "RetainedWindows (wp_stats (snd (commit_windows e some accepted next1 results p))) = count"
        using False unfolding commit_windows_def Let_def assms(2) [symmetric] count_def [symmetric] m'_def [symmetric]
        by simp
    qed
    have "committed p (Key e) next2 (p\<lparr>wp_windows := m', wp_stats := st\<rparr>)"
      using False st(2) cnt inv(1) none
      by (auto simp: committed_def m'_def map_of_update_iff sort_key_Nil_iff simp del: distinct_map)
    then show ?thesis using stored [OF st(1)] by simp
  qed
qed

text \<open>Assignment and acceptance for fixed windows: the windows of the event's key become the
  old ones with the touched ones updated or created.\<close>

definition fixed_update ::
  "WindowAggregator \<Rightarrow> WindowProcessor \<Rightarrow> Event \<Rightarrow> retainedWindow list \<Rightarrow> bool" where
  "fixed_update agg p e ws \<longleftrightarrow> fixed_list (w_Size (wp_config p)) ws
     \<and> (\<forall>x. x \<in> set ws \<longleftrightarrow>
          x \<in> set (mget (wp_windows p) (Key e) []) \<and> \<not> touched p e (w_Start x)
          \<or> (\<exists>s. touched p e s \<and> x = add_event agg (wp_watermark p) e (target p e s)))"

definition fixed_results ::
  "WindowAggregator \<Rightarrow> WindowProcessor \<Rightarrow> Event \<Rightarrow> WindowResult list \<Rightarrow> bool" where
  "fixed_results agg p e results \<longleftrightarrow>
     (\<forall>r. r \<in> set results \<longleftrightarrow>
        (\<exists>s. touched p e s \<and> s + w_Size (wp_config p) \<le> wp_watermark p \<and>
           r = window_result agg (add_event agg (wp_watermark p) e (target p e s))
                 (Emitted (target p e s))))"

lemma fixed_update_empty: "fixed_update agg p e [] \<Longrightarrow> mget (wp_windows p) (Key e) [] = []"
  by (cases "mget (wp_windows p) (Key e) []") (auto simp: fixed_update_def)

lemma accept_fixed:
  assumes "wp_inv p" "Kind (wp_config p) \<noteq> ''session''" "fixed_list (w_Size (wp_config p)) ws"
    "\<And>w. w \<in> set ws \<longleftrightarrow> (\<exists>s. aligned_start (wp_config p) (EventTime e) s \<and>
        w = new_window (Key e) s (s + w_Size (wp_config p)) None)"
  obtains n ws' rs where
    "fold (accept_window agg (wp_config p) (wp_watermark p) e) ws
       (0, mget (wp_windows p) (Key e) [], []) = (n, ws', rs)"
    "n = 0 \<longleftrightarrow> \<not> (\<exists>s. touched p e s)" "n = 0 \<Longrightarrow> ws' = mget (wp_windows p) (Key e) []"
    "fixed_update agg p e ws'" "fixed_results agg p e rs"
proof -
  define c where "c = wp_config p"
  define wm where "wm = wp_watermark p"
  define old where "old = mget (wp_windows p) (Key e) []"
  note defs = c_def [symmetric] wm_def [symmetric] old_def [symmetric]
  have k: "Kind c \<noteq> ''session''" using assms(2) by (simp add: c_def)
  have fl: "fixed_list (w_Size c) old"
    unfolding old_def c_def by (rule key_ok_fixed_list [OF assms(2) wp_inv_key_ok [OF assms(1)]])
  have lv: "(\<exists>w \<in> set ws. live c wm w \<and> P w) \<longleftrightarrow>
      (\<exists>s. touched p e s \<and> P (new_window (Key e) s (s + w_Size c) None))" for P
  proof -
    have "(\<exists>w \<in> set ws. live c wm w \<and> P w) \<longleftrightarrow> (\<exists>s. aligned_start c (EventTime e) s \<and>
        live c wm (new_window (Key e) s (s + w_Size c) None) \<and> P (new_window (Key e) s (s + w_Size c) None))"
      unfolding Bex_def assms(4) defs by blast
    then show ?thesis by (simp add: touched_def live_def defs new_window_def)
  qed
  obtain ws' where out: "fold (accept_window agg c wm e) ws (0, old, []) =
      (0 + length (filter (live c wm) ws), ws',
       [] @ map (\<lambda>w. window_result agg (add_event agg wm e (pick old w)) (Emitted (pick old w)))
            (filter (\<lambda>w. live c wm w \<and> w_End w \<le> wm) ws))"
    and ws': "fixed_list (w_Size c) ws'" "filter (live c wm) ws = [] \<longrightarrow> ws' = old"
      "\<And>x. x \<in> set ws' \<longleftrightarrow>
        x \<in> set old \<and> \<not> (\<exists>w \<in> set ws. live c wm w \<and> w_Start w = w_Start x)
        \<or> (\<exists>w \<in> set ws. live c wm w \<and> x = add_event agg wm e (pick old w))"
    using fold_accept_fixed [OF k fl assms(3) [folded c_def], of agg wm e 0 "[]"]
    by (elim exE conjE) (rule that, assumption, assumption, assumption, erule spec)
  have "fixed_update agg p e ws'"
    unfolding fixed_update_def ws'(3) lv target_def defs using ws'(1) by (simp add: new_window_def)
  moreover have "fixed_results agg p e (map f (filter (\<lambda>w. live c wm w \<and> w_End w \<le> wm) ws))"
    if f: "f = (\<lambda>w. window_result agg (add_event agg wm e (pick old w)) (Emitted (pick old w)))" for f
  proof -
    have "r \<in> set (map f (filter (\<lambda>w. live c wm w \<and> w_End w \<le> wm) ws)) \<longleftrightarrow>
        (\<exists>w \<in> set ws. live c wm w \<and> (w_End w \<le> wm \<and> r = f w))" for r
      by auto
    then show ?thesis
      unfolding fixed_results_def target_def defs lv by (simp add: f new_window_def)
  qed
  moreover have "length (filter (live c wm) ws) = 0 \<longleftrightarrow> \<not> (\<exists>s. touched p e s)"
    using lv [of "\<lambda>_. True"] by (auto simp: filter_empty_conv)
  ultimately show thesis
    using ws'(2) by (intro that [unfolded defs, OF out]) simp_all
qed

text \<open>Every outcome of \<open>Process\<close> for fixed windows.\<close>

lemma Process_fixed:
  assumes "wp_inv p" "Kind (wp_config p) \<noteq> ''session''" "in_i64 (EventTime e)"
  obtains (failed) err where "Process agg e p = Some (Inl err, p)"
  | (finished) results late ws p' where
      "Process agg e p = Some (Inr (results, late), p')" "committed p (Key e) ws p'"
      "fixed_update agg p e ws" "fixed_results agg p e results"
      "\<And>s. touched p e s \<Longrightarrow> s + w_Size (wp_config p) \<le> MaxInt64"
      "late \<longleftrightarrow> (\<exists>s. aligned_start (wp_config p) (EventTime e) s) \<and> \<not> (\<exists>s. touched p e s)"
proof -
  define c where "c = wp_config p"
  define start where "start = EventTime e - EventTime e mod window_step c"
  have c: "config_ok c" "Kind c \<noteq> ''session''" using assms(1,2) by (auto simp: wp_inv_def c_def)
  note fixed = assign_windows_fixed [OF c assms(3), folded start_def]
  show thesis
  proof (cases "MinInt64 \<le> start \<and> start + w_Size c \<le> MaxInt64")
    case False
    then obtain err where "assign_windows agg c e (mget (wp_windows p) (Key e) []) = Some (Inl err)"
      using fixed(1,2) by (meson not_le)
    then show ?thesis using failed by (simp add: Process_def c_def)
  next
    case True
    obtain as where as: "assign_windows agg c e (mget (wp_windows p) (Key e) []) =
        Some (Inr (as, mget (wp_windows p) (Key e) []))"
      "sorted_wrt (\<lambda>a b. w_Start b < w_Start a) as"
      "\<And>w. w \<in> set as \<longleftrightarrow> (\<exists>s. aligned_start c (EventTime e) s \<and> w = new_window (Key e) s (s + w_Size c) None)"
      using fixed(3) True by blast
    have "distinct (map w_Start as)" using as(2) by (induction as) auto
    moreover have "w_End w = w_Start w + w_Size c" if "w \<in> set as" for w
      using that unfolding as(3) by (auto simp: new_window_def)
    ultimately have fl: "fixed_list (w_Size c) as" by (simp add: fixed_list_def)
    obtain n ws rs where acc: "fold (accept_window agg (wp_config p) (wp_watermark p) e) as
       (0, mget (wp_windows p) (Key e) [], []) = (n, ws, rs)"
      "n = 0 \<longleftrightarrow> \<not> (\<exists>s. touched p e s)" "n = 0 \<Longrightarrow> ws = mget (wp_windows p) (Key e) []"
      "fixed_update agg p e ws" "fixed_results agg p e rs"
      by (rule accept_fixed [where agg = agg, OF assms(1,2) fl [unfolded c_def] as(3) [unfolded c_def]])
        (rule that)
    have eval: "Process agg e p = Some (commit_windows e (as \<noteq> []) n ws rs p)"
      using as(1) acc(1) by (simp add: Process_def c_def)
    have bound: "s + w_Size (wp_config p) \<le> MaxInt64" if "touched p e s" for s
      using aligned_le [of c "EventTime e" s] that True config_ok_kinds(3) [OF c]
      by (auto simp: touched_def start_def c_def)
    have late: "as \<noteq> [] \<longleftrightarrow> (\<exists>s. aligned_start c (EventTime e) s)"
    proof -
      have "as \<noteq> [] \<longleftrightarrow> (\<exists>w. w \<in> set as)" by (cases as) auto
      then show ?thesis unfolding as(3) by blast
    qed
    have next2: "ws = (if n = 0 then mget (wp_windows p) (Key e) [] else ws)" using acc(3) by simp
    have empty: "mget (wp_windows p) (Key e) [] = []" if "ws = []"
      using fixed_update_empty acc(4) that by blast
    show ?thesis
    proof (rule commit_windows_cases [OF assms(1) next2 empty, of "as \<noteq> []" rs])
      assume "commit_windows e (as \<noteq> []) n ws rs p = (Inl ErrMemoryLimitExceeded, p)"
      then show ?thesis using failed eval by simp
    next
      fix p'
      assume stored: "commit_windows e (as \<noteq> []) n ws rs p = (Inr (rs, as \<noteq> [] \<and> n = 0), p')"
        "committed p (Key e) ws p'"
      show ?thesis
        by (rule finished [OF _ stored(2) acc(4,5) bound])
          (use eval stored(1) late acc(2) in \<open>auto simp: c_def\<close>)
    qed
  qed
qed

section \<open>The invariant under \<open>Process\<close>\<close>

lemma committed_inv:
  assumes "wp_inv p" "committed p k ws p'"
    "key_ok (wp_config p) (wp_watermark p) k (sort_key w_Start ws)"
  shows "wp_inv p'"
proof -
  have "ys \<noteq> [] \<and> key_ok (wp_config p) (wp_watermark p) j ys"
    if "map_of (wp_windows p') j = Some ys" for j ys
  proof (cases "j = k")
    case True
    then show ?thesis
      using that assms(2,3) by (auto simp: committed_def sort_key_Nil_iff split: if_splits)
  next
    case False
    then have "map_of (wp_windows p) j = Some ys" using that assms(2) by (simp add: committed_def)
    then show ?thesis using assms(1) unfolding wp_inv_def by blast
  qed
  moreover have "config_ok (wp_config p)" "in_i64 (wp_watermark p)"
    using assms(1) unfolding wp_inv_def by blast+
  ultimately show ?thesis
    using assms(2) unfolding wp_inv_def committed_def by simp
qed

lemma committed_mget:
  "committed p k ws p' \<Longrightarrow> mget (wp_windows p') j [] = (if j = k then sort_key w_Start ws else mget (wp_windows p) j [])"
  by (auto simp: committed_def mget_def)

lemma window_ok_add_event: "window_ok c wm k w \<Longrightarrow> window_ok c wm k (add_event agg wm e w)"
  by (auto simp: window_ok_def add_event_def)

lemma window_ok_add_new:
  assumes "touched p e s" "s + w_Size (wp_config p) \<le> MaxInt64" "config_ok (wp_config p)"
    "Kind (wp_config p) \<noteq> ''session''"
  shows "window_ok (wp_config p) (wp_watermark p) (Key e)
    (add_event agg (wp_watermark p) e (new_window (Key e) s (s + w_Size (wp_config p)) None))"
  using assms config_ok_kinds(2) [OF assms(3,4)]
  by (auto simp: window_ok_def add_event_def new_window_def touched_def aligned_start_def)

lemma target_cases:
  assumes "wp_inv p" "Kind (wp_config p) \<noteq> ''session''"
  obtains (old) "target p e s \<in> set (mget (wp_windows p) (Key e) [])" "w_Start (target p e s) = s"
  | (new) "target p e s = new_window (Key e) s (s + w_Size (wp_config p)) None"
      "\<forall>y \<in> set (mget (wp_windows p) (Key e) []). w_Start y \<noteq> s"
proof -
  let ?w = "new_window (Key e) s (s + w_Size (wp_config p)) None"
  have fl: "fixed_list (w_Size (wp_config p)) (mget (wp_windows p) (Key e) [])"
    by (rule key_ok_fixed_list [OF assms(2) wp_inv_key_ok [OF assms(1)]])
  have s: "w_Start ?w = s" by (simp add: new_window_def)
  show thesis
  proof (cases "\<exists>y \<in> set (mget (wp_windows p) (Key e) []). w_Start y = s")
    case True
    then obtain y where "y \<in> set (mget (wp_windows p) (Key e) [])" "w_Start y = s" by blast
    moreover from this have "target p e s = y"
      unfolding target_def using pick_mem [OF fl, of y ?w] s by simp
    ultimately show ?thesis using old by simp
  next
    case False
    then show ?thesis using new pick_new [of _ ?w] s by (simp add: target_def)
  qed
qed

lemma Process_fixed_inv:
  assumes "wp_inv p" "Kind (wp_config p) \<noteq> ''session''" "committed p (Key e) ws p'"
    "fixed_update agg p e ws" "\<And>s. touched p e s \<Longrightarrow> s + w_Size (wp_config p) \<le> MaxInt64"
  shows "wp_inv p'"
proof (rule committed_inv [OF assms(1,3)])
  have c: "config_ok (wp_config p)" using assms(1) unfolding wp_inv_def by blast
  have old: "\<forall>w \<in> set (mget (wp_windows p) (Key e) []). window_ok (wp_config p) (wp_watermark p) (Key e) w"
    using wp_inv_key_ok [OF assms(1)] by (auto simp: key_ok_def)
  have new: "window_ok (wp_config p) (wp_watermark p) (Key e)
      (add_event agg (wp_watermark p) e (target p e s))" if t: "touched p e s" for s
  proof (rule target_cases [OF assms(1,2), of e s])
    assume "target p e s \<in> set (mget (wp_windows p) (Key e) [])"
    then show ?thesis using old window_ok_add_event by blast
  next
    assume "target p e s = new_window (Key e) s (s + w_Size (wp_config p)) None"
    then show ?thesis using window_ok_add_new [OF t assms(5) [OF t] c assms(2)] by simp
  qed
  have "window_ok (wp_config p) (wp_watermark p) (Key e) x" if "x \<in> set ws" for x
  proof -
    have "x \<in> set (mget (wp_windows p) (Key e) []) \<or>
        (\<exists>s. touched p e s \<and> x = add_event agg (wp_watermark p) e (target p e s))"
      using that assms(4) unfolding fixed_update_def by blast
    then show ?thesis using old new by blast
  qed
  moreover have "sorted_wrt (\<lambda>a b. w_Start a < w_Start b) (sort_key w_Start ws)"
    using assms(4) by (intro sorted_sort_key_distinct) (simp add: fixed_update_def fixed_list_def)
  ultimately show "key_ok (wp_config p) (wp_watermark p) (Key e) (sort_key w_Start ws)"
    using assms(2) by (simp add: key_ok_def)
qed

subsection \<open>Sessions\<close>

definition touches :: "retainedWindow \<Rightarrow> retainedWindow \<Rightarrow> bool" where
  "touches m w \<longleftrightarrow> w_Start w \<le> w_End m \<and> w_End w \<ge> w_Start m"

lemma session_pass_sub:
  "session_pass agg m ws = (m', rest, c) \<Longrightarrow> set rest \<subseteq> set ws"
  by (induction ws arbitrary: m m' rest c) (fastforce split: if_splits prod.splits)+

lemma session_pass_sorted:
  "session_pass agg m ws = (m', rest, c) \<Longrightarrow> sorted_wrt P ws \<Longrightarrow> sorted_wrt P rest"
proof (induction ws arbitrary: m m' rest c)
  case (Cons w ws)
  then show ?case using session_pass_sub by (fastforce split: if_splits prod.splits)
qed simp

lemma session_pass_same:
  "session_pass agg m ws = (m', rest, False) \<Longrightarrow> m' = m \<and> rest = ws \<and> (\<forall>w \<in> set ws. \<not> touches m w)"
  by (induction ws arbitrary: m m' rest) (fastforce simp: touches_def split: if_splits prod.splits)+

lemma session_pass_keeps:
  assumes "session_pass agg m ws = (m', rest, c)" "Q m"
    "\<forall>x w. Q x \<and> w \<in> set ws \<longrightarrow> Q (merge_window agg x w)"
  shows "Q m'"
  using assms
proof (induction ws arbitrary: m m' rest c)
  case (Cons w ws)
  have step: "Q (merge_window agg m w)" using Cons.prems(2,3) by simp
  have later: "\<forall>x v. Q x \<and> v \<in> set ws \<longrightarrow> Q (merge_window agg x v)" using Cons.prems(3) by simp
  show ?case
  proof (cases "w_Start w \<le> w_End m \<and> w_End w \<ge> w_Start m")
    case True
    then obtain r d where "session_pass agg (merge_window agg m w) ws = (m', r, d)"
      using Cons.prems(1) by (auto split: prod.splits)
    then show ?thesis using Cons.IH step later by blast
  next
    case False
    then obtain r d where "session_pass agg m ws = (m', r, d)"
      using Cons.prems(1) by (auto split: prod.splits)
    then show ?thesis using Cons.IH Cons.prems(2) later by blast
  qed
qed simp

lemma session_merge_spec:
  assumes "session_merge agg m ws = (m', rest)" "Q m"
    "\<forall>x w. Q x \<and> w \<in> set ws \<longrightarrow> Q (merge_window agg x w)"
  shows "set rest \<subseteq> set ws \<and> (sorted_wrt P ws \<longrightarrow> sorted_wrt P rest)
    \<and> (\<forall>w \<in> set rest. \<not> touches m' w) \<and> Q m'"
  using assms
proof (induction agg m ws rule: session_merge.induct)
  case (1 agg m ws)
  obtain m1 r1 c where p: "session_pass agg m ws = (m1, r1, c)" by (metis prod_cases3)
  have sub: "set r1 \<subseteq> set ws" and q: "Q m1"
    using session_pass_sub [OF p] session_pass_keeps [where Q = Q, OF p "1.prems"(2,3)] by auto
  show ?case
  proof (cases c)
    case True
    then have m: "session_merge agg m1 r1 = (m', rest)"
      using "1.prems"(1) p by (subst (asm) session_merge.simps) simp
    have "\<forall>x w. Q x \<and> w \<in> set r1 \<longrightarrow> Q (merge_window agg x w)"
      using "1.prems"(3) sub by auto
    from "1.IH" [OF p [symmetric] refl True m q this] show ?thesis
      using sub session_pass_sorted [OF p, of P] by auto
  next
    case False
    then have "m' = m1" "rest = r1"
      using "1.prems"(1) p by (subst (asm) session_merge.simps, simp)+
    then show ?thesis using session_pass_same [of agg m ws m1 r1] p False q by simp
  qed
qed

lemma sorted_wrt_pair:
  "sorted_wrt P xs \<Longrightarrow> x \<in> set xs \<Longrightarrow> y \<in> set xs \<Longrightarrow> x \<noteq> y \<Longrightarrow> P x y \<or> P y x"
  by (induction xs) auto

definition separated :: "retainedWindow \<Rightarrow> retainedWindow \<Rightarrow> bool" where
  "separated a b \<longleftrightarrow> w_End a < w_Start b \<or> w_End b < w_Start a"

lemma key_ok_session_sort:
  assumes "\<forall>w \<in> set ws. window_ok c wm k w" "distinct ws"
    "\<forall>x \<in> set ws. \<forall>y \<in> set ws. x \<noteq> y \<longrightarrow> separated x y"
  shows "key_ok c wm k (sort_key w_Start ws)"
proof -
  define ys where "ys = sort_key w_Start ws"
  have ys: "set ys = set ws" "distinct ys" "sorted (map w_Start ys)"
    using assms(2) by (auto simp: ys_def)
  have order: "w_Start (ys ! i) < w_Start (ys ! j) \<and> w_End (ys ! i) < w_Start (ys ! j)"
    if "i < j" "j < length ys" for i j
  proof -
    have mem: "ys ! i \<in> set ws" "ys ! j \<in> set ws" using that ys(1) nth_mem [of _ ys] by auto
    have "ys ! i \<noteq> ys ! j" using that ys(2) by (simp add: nth_eq_iff_index_eq)
    then have "separated (ys ! i) (ys ! j)" using mem assms(3) by blast
    moreover have "w_Start (ys ! i) \<le> w_Start (ys ! j)"
      using sorted_nth_mono [OF ys(3), of i j] that by simp
    moreover have "w_Start (ys ! i) < w_End (ys ! i)" "w_Start (ys ! j) < w_End (ys ! j)"
      using mem assms(1) by (auto simp: window_ok_def)
    ultimately show ?thesis unfolding separated_def by linarith
  qed
  then show ?thesis
    using assms(1) ys(1) by (simp add: key_ok_def sorted_wrt_iff_nth_less ys_def [symmetric])
qed

lemma key_ok_session_pairs:
  assumes "key_ok c wm k ws" "Kind c = ''session''"
  shows "distinct ws" "\<forall>x \<in> set ws. \<forall>y \<in> set ws. x \<noteq> y \<longrightarrow> separated x y"
proof -
  have "sorted_wrt (\<lambda>a b. w_Start a < w_Start b) ws" using assms(1) by (simp add: key_ok_def)
  then show "distinct ws" by (induction ws) auto
  have "sorted_wrt (\<lambda>a b. w_End a < w_Start b) ws" using assms by (simp add: key_ok_def)
  from sorted_wrt_pair [OF this]
  show "\<forall>x \<in> set ws. \<forall>y \<in> set ws. x \<noteq> y \<longrightarrow> separated x y" by (auto simp: separated_def)
qed

definition session_shape :: "bytes \<Rightarrow> retainedWindow \<Rightarrow> bool" where
  "session_shape k m \<longleftrightarrow> w_Key m = k \<and> w_Start m < w_End m \<and> MinInt64 \<le> w_Start m
     \<and> w_End m \<le> MaxInt64 \<and> \<not> Fired m"

lemma session_shape_merge:
  "session_shape k m \<Longrightarrow> window_ok c wm k w \<Longrightarrow> session_shape k (merge_window agg m w)"
  by (auto simp: session_shape_def window_ok_def merge_window_def)

lemma accept_session:
  assumes "Kind c = ''session''"
  shows "accept_window agg c wm e m (n, rest, rs) =
    (if live c wm m
     then (Suc n, rest @ [add_event agg wm e m],
           rs @ (if w_End m \<le> wm then [window_result agg (add_event agg wm e m) (Emitted m)] else []))
     else (n, rest, rs))"
  using assms
  by (auto simp: accept_window_def live_def Let_def add_event_def window_result_def)

text \<open>What a session merge leaves: the merged window and the others are separated and in
  shape.\<close>

lemma session_merge_ok:
  assumes "key_ok c wm (Key e) ws" "Kind c = ''session''" "session_shape (Key e) m0"
    "session_merge agg m0 ws = (m, rest)"
  shows "session_shape (Key e) m" "\<forall>w \<in> set rest. window_ok c wm (Key e) w" "distinct rest"
    "\<forall>x \<in> set rest. \<forall>y \<in> set rest. x \<noteq> y \<longrightarrow> separated x y" "\<forall>w \<in> set rest. separated w m"
proof -
  have ok: "\<forall>w \<in> set ws. window_ok c wm (Key e) w" using assms(1) by (simp add: key_ok_def)
  then have keep: "\<forall>x w. session_shape (Key e) x \<and> w \<in> set ws \<longrightarrow> session_shape (Key e) (merge_window agg x w)"
    using session_shape_merge by blast
  have srt: "sorted_wrt (\<lambda>a b. w_Start a < w_Start b) ws" using assms(1) by (simp add: key_ok_def)
  note spec = session_merge_spec [where Q = "session_shape (Key e)" and P = "\<lambda>a b. w_Start a < w_Start b",
      OF assms(4,3) keep]
  show "session_shape (Key e) m" using spec by simp
  show "\<forall>w \<in> set rest. window_ok c wm (Key e) w" using spec ok by blast
  have "sorted_wrt (\<lambda>a b. w_Start a < w_Start b) rest" using spec srt by simp
  then show "distinct rest" by (induction rest) auto
  show "\<forall>x \<in> set rest. \<forall>y \<in> set rest. x \<noteq> y \<longrightarrow> separated x y"
    using spec key_ok_session_pairs(2) [OF assms(1,2)] by blast
  show "\<forall>w \<in> set rest. separated w m"
    using spec by (auto simp: touches_def separated_def)
qed

lemma window_ok_add_session:
  assumes "session_shape k m" "live c wm m" "Kind c = ''session''"
  shows "window_ok c wm k (add_event agg wm e m)"
  using assms by (auto simp: window_ok_def add_event_def session_shape_def live_def)

lemma Process_session:
  assumes "wp_inv p" "Kind (wp_config p) = ''session''" "in_i64 (EventTime e)"
  obtains (failed) err where "Process agg e p = Some (Inl err, p)"
  | (finished) results late p' where "Process agg e p = Some (Inr (results, late), p')" "wp_inv p'"
      "wp_watermark p' = wp_watermark p" "wp_config p' = wp_config p"
proof -
  define c where "c = wp_config p"
  define wm where "wm = wp_watermark p"
  define old where "old = mget (wp_windows p) (Key e) []"
  note defs = c_def [symmetric] wm_def [symmetric] old_def [symmetric]
  have c: "config_ok c" "Kind c = ''session''" using assms(1,2) by (auto simp: c_def wp_inv_def)
  have gap: "0 < w_Gap c" "w_Gap c \<le> MaxInt64" using config_ok_kinds(1) [OF c] by auto
  have okold: "key_ok c wm (Key e) old"
    unfolding defs [symmetric] by (rule wp_inv_key_ok [OF assms(1)])
  note stop = windowEnd_eq [OF assms(3) gap]
  show thesis
  proof (cases "EventTime e + w_Gap c > MaxInt64")
    case True
    then show ?thesis
      using failed c(2) stop by (simp add: Process_def assign_windows_def defs)
  next
    case False
    define m0 where "m0 = new_window (Key e) (EventTime e) (EventTime e + w_Gap c) (CreateAccumulator agg)"
    have shape: "session_shape (Key e) m0"
      using False gap assms(3) by (simp add: m0_def session_shape_def new_window_def in_i64_def)
    obtain m rest where merge: "session_merge agg m0 old = (m, rest)" by fastforce
    note ok = session_merge_ok [OF okold c(2) shape merge]
    define n where "n = (if live c wm m then Suc 0 else 0)"
    define ws where "ws = (if n = 0 then old else rest @ [add_event agg wm e m])"
    obtain ws1 rs where fold: "fold (accept_window agg c wm e) [m] (0, rest, []) = (n, ws1, rs)"
      and ws1: "n \<noteq> 0 \<Longrightarrow> ws1 = rest @ [add_event agg wm e m]"
      by (cases "live c wm m") (auto simp: accept_session [OF c(2)] n_def)
    have eval: "Process agg e p = Some (commit_windows e True n ws1 rs p)"
      using False c(2) stop merge fold
      by (simp add: Process_def assign_windows_def defs m0_def [symmetric])
    have ws: "ws = (if n = 0 then mget (wp_windows p) (Key e) [] else ws1)"
      using ws1 by (simp add: ws_def old_def)
    have empty: "mget (wp_windows p) (Key e) [] = []" if "ws = []"
      using that by (auto simp: ws_def old_def split: if_splits)
    have key: "key_ok c wm (Key e) (sort_key w_Start ws)"
    proof (cases "n = 0")
      case True
      then show ?thesis
        using okold key_ok_session_pairs [OF okold c(2)]
        by (intro key_ok_session_sort) (auto simp: ws_def key_ok_def)
    next
      case False
      then have lv: "live c wm m" by (simp add: n_def split: if_splits)
      have sep: "separated w (add_event agg wm e m)" "separated (add_event agg wm e m) w"
        if "w \<in> set rest" for w using ok(5) that by (auto simp: separated_def)
      have "w_Start m < w_End m" using ok(1) by (simp add: session_shape_def)
      then have "add_event agg wm e m \<notin> set rest" using sep by (fastforce simp: separated_def)
      then show ?thesis
        using False ok(2-4) sep window_ok_add_session [OF ok(1) lv c(2)]
        by (intro key_ok_session_sort) (auto simp: ws_def)
    qed
    show ?thesis
    proof (rule commit_windows_cases [OF assms(1) ws empty, of True rs])
      assume "commit_windows e True n ws1 rs p = (Inl ErrMemoryLimitExceeded, p)"
      then show ?thesis using failed eval by simp
    next
      fix p'
      assume st: "commit_windows e True n ws1 rs p = (Inr (rs, True \<and> n = 0), p')"
        "committed p (Key e) ws p'"
      have "wp_inv p'" by (rule committed_inv [OF assms(1) st(2)]) (use key in \<open>simp add: defs\<close>)
      then show ?thesis using finished eval st by (simp add: committed_def)
    qed
  qed
qed

lemma Process_inv:
  assumes "wp_inv p" "in_i64 (EventTime e)"
  obtains r p' where "Process agg e p = Some (r, p')" "wp_inv p'" "isl r \<Longrightarrow> p' = p"
    "wp_watermark p' = wp_watermark p" "wp_config p' = wp_config p"
proof (cases "Kind (wp_config p) = ''session''")
  case True
  show thesis
    by (rule Process_session [OF assms(1) True assms(2), of agg]) (use that assms(1) in auto)
next
  case False
  show thesis
  proof (rule Process_fixed [OF assms(1) False assms(2), of agg])
    fix err assume "Process agg e p = Some (Inl err, p)"
    then show ?thesis using that assms(1) by auto
  next
    fix results late ws p'
    assume f: "Process agg e p = Some (Inr (results, late), p')" "committed p (Key e) ws p'"
      "fixed_update agg p e ws" "\<And>s. touched p e s \<Longrightarrow> s + w_Size (wp_config p) \<le> MaxInt64"
    have "wp_inv p'" by (rule Process_fixed_inv [OF assms(1) False f(2,3,4)])
    then show ?thesis using that f(1,2) by (simp add: committed_def)
  qed
qed

end
