(* ===== verification/Window_Run.thy ===== *)
theory Window_Run
  imports Window
begin

text \<open>
  Runs of the window processor: the invariant under every operation, and the contents of the
  windows compared with the history of the events that were processed.
\<close>

section \<open>Advancing the watermark\<close>

definition mark_fired :: "int \<Rightarrow> retainedWindow \<Rightarrow> retainedWindow" where
  "mark_fired wm w = (if \<not> Fired w \<and> w_End w \<le> wm then w\<lparr>Fired := True, Emitted := True\<rparr> else w)"

definition key_results :: "WindowAggregator \<Rightarrow> int \<Rightarrow> retainedWindow list \<Rightarrow> WindowResult list" where
  "key_results agg wm ws =
     map (\<lambda>w. window_result agg w (Emitted w)) (filter (\<lambda>w. \<not> Fired w \<and> w_End w \<le> wm) ws)"

definition key_remaining :: "WindowConfig \<Rightarrow> int \<Rightarrow> retainedWindow list \<Rightarrow> retainedWindow list" where
  "key_remaining c wm ws = map (mark_fired wm) (filter (live c wm) ws)"

lemma advance_key_eq:
  "advance_key agg c wm ws =
    (key_results agg wm ws, key_remaining c wm ws,
     int (length ws) - int (length (key_remaining c wm ws)))"
  by (induction ws)
    (auto simp: key_results_def key_remaining_def mark_fired_def live_def Let_def)

lemma mark_fired_bounds [simp]:
  "w_Start (mark_fired wm w) = w_Start w" "w_End (mark_fired wm w) = w_End w"
  "w_Key (mark_fired wm w) = w_Key w" "Accumulator (mark_fired wm w) = Accumulator w"
  by (simp_all add: mark_fired_def)

lemma window_ok_mark:
  "window_ok c wm k w \<Longrightarrow> wm \<le> wm' \<Longrightarrow> live c wm' w \<Longrightarrow> window_ok c wm' k (mark_fired wm' w)"
  by (auto simp: window_ok_def mark_fired_def live_def)

lemma sorted_wrt_map_filter:
  "sorted_wrt P xs \<Longrightarrow> (\<And>x y. P x y \<Longrightarrow> P (f x) (f y)) \<Longrightarrow> sorted_wrt P (map f (filter Q xs))"
  by (induction xs) auto

lemma key_ok_remaining:
  assumes "key_ok c wm k ws" "wm \<le> wm'"
  shows "key_ok c wm' k (key_remaining c wm' ws)"
  unfolding key_ok_def key_remaining_def
proof (intro conjI impI)
  show "\<forall>w \<in> set (map (mark_fired wm') (filter (live c wm') ws)). window_ok c wm' k w"
    using assms window_ok_mark by (auto simp: key_ok_def)
  show "sorted_wrt (\<lambda>a b. w_Start a < w_Start b) (map (mark_fired wm') (filter (live c wm') ws))"
    using assms by (intro sorted_wrt_map_filter) (auto simp: key_ok_def)
  show "sorted_wrt (\<lambda>a b. w_End a < w_Start b) (map (mark_fired wm') (filter (live c wm') ws))"
    if "Kind c = ''session''"
    using assms that by (intro sorted_wrt_map_filter) (auto simp: key_ok_def)
qed

lemma advance_keys_spec:
  assumes "distinct keys" "distinct (map fst (wp_windows p))" "advance_keys agg wm keys p = (results, p')"
  shows "results = concat (map (\<lambda>k. key_results agg wm (mget (wp_windows p) k [])) keys)
    \<and> wp_config p' = wp_config p \<and> wp_watermark p' = wp_watermark p
    \<and> distinct (map fst (wp_windows p'))
    \<and> (\<forall>k. map_of (wp_windows p') k =
        (if k \<in> set keys
         then let ws = key_remaining (wp_config p) wm (mget (wp_windows p) k [])
              in if ws = [] then None else Some ws
         else map_of (wp_windows p) k))
    \<and> RetainedWindows (wp_stats p') - retained_count (wp_windows p') =
        RetainedWindows (wp_stats p) - retained_count (wp_windows p)
    \<and> retained_count (wp_windows p') \<le> retained_count (wp_windows p)"
  using assms
proof (induction keys arbitrary: p results)
  case Nil
  then show ?case by simp
next
  case (Cons key keys)
  define ws where "ws = mget (wp_windows p) key []"
  define rem where "rem = key_remaining (wp_config p) wm ws"
  define m1 where "m1 = (if rem = [] then AList.delete key (wp_windows p) else AList.update key rem (wp_windows p))"
  define p1 where "p1 = p\<lparr>wp_windows := m1,
    wp_stats := (wp_stats p)\<lparr>RetainedWindows := RetainedWindows (wp_stats p) - (int (length ws) - int (length rem))\<rparr>\<rparr>"
  obtain rest where rest: "advance_keys agg wm keys p1 = (rest, p')" "results = key_results agg wm ws @ rest"
    using Cons.prems(3)
    by (auto simp: advance_key_eq Let_def ws_def [symmetric] rem_def [symmetric] m1_def [symmetric]
        p1_def [symmetric] split: prod.splits)
  have d: "distinct (map fst m1)" using Cons.prems(2) by (simp add: m1_def del: distinct_map)
  have look: "map_of m1 k = (if k = key then if rem = [] then None else Some rem else map_of (wp_windows p) k)" for k
    by (simp add: m1_def map_of_update_iff map_of_delete_iff)
  have other: "mget m1 k [] = mget (wp_windows p) k []" if "k \<noteq> key" for k
    using that by (simp add: mget_def look)
  have cnt: "retained_count m1 = retained_count (wp_windows p) - int (length ws) + int (length rem)"
    using Cons.prems(2) by (simp add: m1_def ws_def retained_count_update retained_count_delete)
  have shrink: "length rem \<le> length ws" by (simp add: rem_def key_remaining_def)
  have IH: "rest = concat (map (\<lambda>k. key_results agg wm (mget m1 k [])) keys)
    \<and> wp_config p' = wp_config p \<and> wp_watermark p' = wp_watermark p
    \<and> distinct (map fst (wp_windows p'))
    \<and> (\<forall>k. map_of (wp_windows p') k =
        (if k \<in> set keys
         then let ws = key_remaining (wp_config p) wm (mget m1 k []) in if ws = [] then None else Some ws
         else map_of m1 k))
    \<and> RetainedWindows (wp_stats p') - retained_count (wp_windows p') = RetainedWindows (wp_stats p1) - retained_count m1
    \<and> retained_count (wp_windows p') \<le> retained_count m1"
    using Cons.IH [OF _ _ rest(1)] Cons.prems(1) d by (simp add: p1_def)
  have ne: "mget m1 k [] = mget (wp_windows p) k []" if "k \<in> set keys" for k
    using that Cons.prems(1) by (intro other) auto
  have eq: "map (\<lambda>k. key_results agg wm (mget m1 k [])) keys =
      map (\<lambda>k. key_results agg wm (mget (wp_windows p) k [])) keys"
    by (rule map_cong) (simp_all add: ne)
  have "map_of (wp_windows p') k =
        (if k \<in> set (key # keys)
         then let ws = key_remaining (wp_config p) wm (mget (wp_windows p) k [])
              in if ws = [] then None else Some ws
         else map_of (wp_windows p) k)" for k
  proof (cases "k \<in> set keys")
    case True
    then show ?thesis using IH ne [OF True] by simp
  next
    case False
    then show ?thesis using IH look [of k] by (simp add: rem_def ws_def Let_def)
  qed
  then show ?case
    using IH rest(2) cnt shrink by (simp add: p1_def ws_def eq del: map_eq_conv)
qed

text \<open>Every outcome of an advance in one lemma.\<close>

lemma window_AdvanceWatermark_spec:
  assumes "wp_inv p" "wp_watermark p < wm" "in_i64 wm" "window_AdvanceWatermark agg wm p = (results, p')"
  shows "results = concat (map (\<lambda>k. key_results agg wm (mget (wp_windows p) k [])) (sort (map fst (wp_windows p))))"
    "wp_config p' = wp_config p" "wp_watermark p' = wm"
    "mget (wp_windows p') k [] = key_remaining (wp_config p) wm (mget (wp_windows p) k [])"
    "wp_inv p'"
proof -
  define ks where "ks = sort (map fst (wp_windows p))"
  define p0 where "p0 = p\<lparr>wp_watermark := wm\<rparr>"
  have inv: "distinct (map fst (wp_windows p))" "RetainedWindows (wp_stats p) = retained_count (wp_windows p)"
    "retained_count (wp_windows p) \<le> MaxWindows (wp_config p)" "config_ok (wp_config p)"
    using assms(1) unfolding wp_inv_def by blast+
  have "distinct ks" using inv(1) by (simp add: ks_def del: distinct_map)
  moreover have "distinct (map fst (wp_windows p0))" using inv(1) by (simp add: p0_def del: distinct_map)
  moreover have "advance_keys agg wm ks p0 = (results, p')"
    using assms(2,4) by (simp add: window_AdvanceWatermark_def ks_def p0_def)
  ultimately have spec: "results = concat (map (\<lambda>k. key_results agg wm (mget (wp_windows p) k [])) ks)
    \<and> wp_config p' = wp_config p \<and> wp_watermark p' = wm \<and> distinct (map fst (wp_windows p'))
    \<and> (\<forall>k. map_of (wp_windows p') k =
        (if k \<in> set ks
         then let ws = key_remaining (wp_config p) wm (mget (wp_windows p) k [])
              in if ws = [] then None else Some ws
         else map_of (wp_windows p) k))
    \<and> RetainedWindows (wp_stats p') - retained_count (wp_windows p') =
        RetainedWindows (wp_stats p) - retained_count (wp_windows p)
    \<and> retained_count (wp_windows p') \<le> retained_count (wp_windows p)"
    using advance_keys_spec [of ks p0 agg wm results p'] by (simp add: p0_def)
  have ks: "k \<in> set ks \<longleftrightarrow> map_of (wp_windows p) k \<noteq> None" for k
    by (auto simp: ks_def map_of_eq_None_iff)
  have gone: "mget (wp_windows p) k [] = []" if "k \<notin> set ks" for k
    using that ks by (simp add: mget_def)
  show "results = concat (map (\<lambda>k. key_results agg wm (mget (wp_windows p) k [])) (sort (map fst (wp_windows p))))"
    "wp_config p' = wp_config p" "wp_watermark p' = wm"
    using spec by (simp_all add: ks_def)
  have look: "map_of (wp_windows p') k = (let ws = key_remaining (wp_config p) wm (mget (wp_windows p) k [])
              in if ws = [] then None else Some ws)" for k
    using spec ks [of k] gone [of k] by (auto simp: key_remaining_def)
  show "mget (wp_windows p') k [] = key_remaining (wp_config p) wm (mget (wp_windows p) k [])" for k
    by (simp add: mget_def [of "wp_windows p'"] look Let_def)
  have "ws \<noteq> [] \<and> key_ok (wp_config p) wm k ws" if "map_of (wp_windows p') k = Some ws" for k ws
    using that key_ok_remaining [OF wp_inv_key_ok [OF assms(1), of k], of wm] assms(2)
    by (auto simp: look Let_def split: if_splits)
  then show "wp_inv p'"
    unfolding wp_inv_def using spec inv assms(3) by simp
qed

section \<open>The aggregator contract\<close>

text \<open>What the processor relies on: accumulators reached from a fresh one are valid and not
  nil, and merging continues the second accumulator's events after the first's.\<close>

locale window_aggregator =
  fixes agg :: WindowAggregator and valid :: "slice \<Rightarrow> bool"
  assumes create_valid: "valid (CreateAccumulator agg)"
    and add_valid: "valid a \<Longrightarrow> valid (Add agg a e)"
    and merge_valid: "valid a \<Longrightarrow> valid b \<Longrightarrow> valid (Merge agg a b)"
    and valid_not_nil: "valid a \<Longrightarrow> a \<noteq> None"
    and merge_create: "valid a \<Longrightarrow> Merge agg a (CreateAccumulator agg) = a"
    and merge_add: "valid a \<Longrightarrow> valid b \<Longrightarrow> Merge agg a (Add agg b e) = Add agg (Merge agg a b) e"
begin

lemma fold_valid: "valid a \<Longrightarrow> valid (foldl (Add agg) a es)"
  by (induction es arbitrary: a) (auto intro: add_valid)

lemma merge_fold: "valid a \<Longrightarrow> Merge agg a (foldl (Add agg) (CreateAccumulator agg) es) = foldl (Add agg) a es"
proof (induction es rule: rev_induct)
  case (snoc e es)
  then show ?case using create_valid by (simp add: merge_add fold_valid)
qed (simp add: merge_create)

end

text \<open>The aggregate of the events of a window in the order they were processed.\<close>

definition window_events :: "Event list \<Rightarrow> bytes \<Rightarrow> int \<Rightarrow> int \<Rightarrow> Event list" where
  "window_events hist k start stop =
     filter (\<lambda>e. Key e = k \<and> start \<le> EventTime e \<and> EventTime e < stop) hist"

definition aggregate :: "WindowAggregator \<Rightarrow> Event list \<Rightarrow> slice" where
  "aggregate agg es = foldl (Add agg) (CreateAccumulator agg) es"

lemma window_events_snoc:
  "window_events (h @ [e]) k s stop =
    window_events h k s stop @ (if Key e = k \<and> s \<le> EventTime e \<and> EventTime e < stop then [e] else [])"
  by (simp add: window_events_def)

section \<open>Contents of fixed windows\<close>

definition occupied :: "WindowConfig \<Rightarrow> Event list \<Rightarrow> bytes \<Rightarrow> int \<Rightarrow> bool" where
  "occupied c hist k s \<longleftrightarrow> (\<exists>e \<in> set hist. Key e = k \<and> aligned_start c (EventTime e) s)"

definition contents_ok :: "WindowAggregator \<Rightarrow> Event list \<Rightarrow> WindowProcessor \<Rightarrow> bool" where
  "contents_ok agg hist p \<longleftrightarrow>
     (\<forall>k. (\<forall>w \<in> set (mget (wp_windows p) k []).
             Accumulator w = aggregate agg (window_events hist k (w_Start w) (w_End w)))
        \<and> (\<forall>s. (\<exists>w \<in> set (mget (wp_windows p) k []). w_Start w = s) \<longleftrightarrow>
             occupied (wp_config p) hist k s
             \<and> wp_watermark p < deadline (wp_config p) (s + w_Size (wp_config p))))"

lemma contents_okD:
  assumes "contents_ok agg hist p"
  shows "w \<in> set (mget (wp_windows p) k []) \<Longrightarrow>
      Accumulator w = aggregate agg (window_events hist k (w_Start w) (w_End w))"
    and "(\<exists>w \<in> set (mget (wp_windows p) k []). w_Start w = s) \<longleftrightarrow>
      occupied (wp_config p) hist k s \<and> wp_watermark p < deadline (wp_config p) (s + w_Size (wp_config p))"
  using assms unfolding contents_ok_def by blast+

lemma occupied_snoc:
  "occupied c (h @ [e]) k s \<longleftrightarrow> occupied c h k s \<or> (Key e = k \<and> aligned_start c (EventTime e) s)"
  by (auto simp: occupied_def)

lemma in_window_aligned:
  assumes "window_ok c wm k w" "Kind c \<noteq> ''session''"
  shows "w_Start w \<le> t \<and> t < w_End w \<longleftrightarrow> aligned_start c t (w_Start w)"
  using assms by (auto simp: window_ok_def aligned_start_def)

context window_aggregator
begin

lemma aggregate_valid: "aggregate agg es \<noteq> None"
  unfolding aggregate_def by (rule valid_not_nil [OF fold_valid [OF create_valid]])

lemma contents_target:
  assumes "wp_inv p" "Kind (wp_config p) \<noteq> ''session''" "contents_ok agg h p" "touched p e s"
  shows "Accumulator (add_event agg (wp_watermark p) e (target p e s)) =
    aggregate agg (window_events (h @ [e]) (Key e) s (s + w_Size (wp_config p)))"
proof -
  let ?stop = "s + w_Size (wp_config p)"
  have in_e: "s \<le> EventTime e" "EventTime e < ?stop"
    using assms(4) by (auto simp: touched_def aligned_start_def)
  have "(if Accumulator (target p e s) = None then CreateAccumulator agg else Accumulator (target p e s))
      = aggregate agg (window_events h (Key e) s ?stop)"
  proof (rule target_cases [OF assms(1,2), of e s])
    assume t: "target p e s \<in> set (mget (wp_windows p) (Key e) [])" "w_Start (target p e s) = s"
    have "w_End (target p e s) = ?stop"
      using t wp_inv_key_ok [OF assms(1), of "Key e"] assms(2) by (auto simp: key_ok_def window_ok_def)
    then have "Accumulator (target p e s) = aggregate agg (window_events h (Key e) s ?stop)"
      using contents_okD(1) [OF assms(3) t(1)] t(2) by simp
    then show ?thesis using aggregate_valid [of "window_events h (Key e) s ?stop"] by auto
  next
    assume t: "target p e s = new_window (Key e) s ?stop None"
      "\<forall>y \<in> set (mget (wp_windows p) (Key e) []). w_Start y \<noteq> s"
    then have "\<not> occupied (wp_config p) h (Key e) s"
      using contents_okD(2) [OF assms(3), of "Key e" s] assms(4) by (auto simp: touched_def)
    moreover have "aligned_start (wp_config p) t' s" if "s \<le> t'" "t' < ?stop" for t'
      using that assms(4) by (simp add: touched_def aligned_start_def)
    ultimately have "window_events h (Key e) s ?stop = []"
      by (auto simp: window_events_def occupied_def filter_empty_conv)
    then show ?thesis using t(1) by (simp add: new_window_def aggregate_def)
  qed
  then show ?thesis
    using in_e by (simp add: add_event_def window_events_snoc aggregate_def)
qed

lemma contents_Process:
  assumes "wp_inv p" "Kind (wp_config p) \<noteq> ''session''" "contents_ok agg h p"
    "committed p (Key e) ws p'" "fixed_update agg p e ws"
  shows "contents_ok agg (h @ [e]) p'"
  unfolding contents_ok_def
proof (intro allI conjI ballI)
  fix k
  have cfg: "wp_config p' = wp_config p" "wp_watermark p' = wp_watermark p"
    using assms(4) by (simp_all add: committed_def)
  have mem: "x \<in> set (mget (wp_windows p') k []) \<longleftrightarrow>
      (if k = Key e then x \<in> set (mget (wp_windows p) (Key e) []) \<and> \<not> touched p e (w_Start x)
          \<or> (\<exists>s. touched p e s \<and> x = add_event agg (wp_watermark p) e (target p e s))
       else x \<in> set (mget (wp_windows p) k []))" for x
    using assms(5) by (simp add: committed_mget [OF assms(4)] fixed_update_def)
  have ok: "window_ok (wp_config p) (wp_watermark p) k w" if "w \<in> set (mget (wp_windows p) k [])" for w
    using wp_inv_key_ok [OF assms(1), of k] that by (simp add: key_ok_def)
  have bounds: "w_Start (add_event agg (wp_watermark p) e (target p e s)) = s \<and>
      w_End (add_event agg (wp_watermark p) e (target p e s)) = s + w_Size (wp_config p)"
    if "touched p e s" for s
  proof (rule target_cases [OF assms(1,2), of e s])
    assume t: "target p e s \<in> set (mget (wp_windows p) (Key e) [])" "w_Start (target p e s) = s"
    then have "window_ok (wp_config p) (wp_watermark p) (Key e) (target p e s)"
      using wp_inv_key_ok [OF assms(1), of "Key e"] by (simp add: key_ok_def)
    then show ?thesis using t(2) assms(2) by (simp add: window_ok_def)
  next
    assume "target p e s = new_window (Key e) s (s + w_Size (wp_config p)) None"
    then show ?thesis by (simp add: new_window_def)
  qed
  show "Accumulator w = aggregate agg (window_events (h @ [e]) k (w_Start w) (w_End w))"
    if w: "w \<in> set (mget (wp_windows p') k [])" for w
  proof (cases "\<exists>s. k = Key e \<and> touched p e s \<and> w = add_event agg (wp_watermark p) e (target p e s)")
    case True
    then obtain s where s: "k = Key e" "touched p e s"
      "w = add_event agg (wp_watermark p) e (target p e s)" by blast
    then show ?thesis using contents_target [OF assms(1-3) s(2)] bounds [OF s(2)] by simp
  next
    case False
    then have old: "w \<in> set (mget (wp_windows p) k [])" "k = Key e \<longrightarrow> \<not> touched p e (w_Start w)"
      using w mem [of w] by (auto split: if_splits)
    have live: "wp_watermark p < deadline (wp_config p) (w_Start w + w_Size (wp_config p))"
      using ok [OF old(1)] assms(2) by (auto simp: window_ok_def)
    have "\<not> (Key e = k \<and> w_Start w \<le> EventTime e \<and> EventTime e < w_End w)"
      using old(2) live in_window_aligned [OF ok [OF old(1)] assms(2), of "EventTime e"]
      by (auto simp: touched_def)
    then show ?thesis
      using contents_okD(1) [OF assms(3) old(1)] by (auto simp: window_events_snoc)
  qed
  fix s
  have "(\<exists>w \<in> set (mget (wp_windows p') k []). w_Start w = s) \<longleftrightarrow>
      (\<exists>w \<in> set (mget (wp_windows p) k []). w_Start w = s) \<or> (k = Key e \<and> touched p e s)"
  proof (cases "k = Key e")
    case True
    have "(\<exists>w \<in> set (mget (wp_windows p') k []). w_Start w = s) \<longleftrightarrow>
        (\<exists>w \<in> set (mget (wp_windows p) (Key e) []). \<not> touched p e (w_Start w) \<and> w_Start w = s) \<or> touched p e s"
      unfolding Bex_def mem using True bounds by auto
    then show ?thesis using True by auto
  next
    case False
    then show ?thesis unfolding Bex_def mem by simp
  qed
  then show "(\<exists>w \<in> set (mget (wp_windows p') k []). w_Start w = s) \<longleftrightarrow>
      occupied (wp_config p') (h @ [e]) k s \<and> wp_watermark p' < deadline (wp_config p') (s + w_Size (wp_config p'))"
    unfolding cfg occupied_snoc contents_okD(2) [OF assms(3)] by (auto simp: touched_def)
qed

end

lemma contents_Advance:
  assumes "wp_inv p" "Kind (wp_config p) \<noteq> ''session''" "contents_ok agg h p" "wp_watermark p < wm" "in_i64 wm"
    "window_AdvanceWatermark agg wm p = (results, p')"
  shows "contents_ok agg h p'"
  unfolding contents_ok_def
proof (intro allI conjI ballI)
  fix k
  note adv = window_AdvanceWatermark_spec [OF assms(1,4,5,6)]
  have mem: "w \<in> set (mget (wp_windows p') k []) \<longleftrightarrow>
      (\<exists>v \<in> set (mget (wp_windows p) k []). live (wp_config p) wm v \<and> w = mark_fired wm v)" for w
    unfolding adv(4) key_remaining_def by auto
  show "Accumulator w = aggregate agg (window_events h k (w_Start w) (w_End w))"
    if "w \<in> set (mget (wp_windows p') k [])" for w
    using that contents_okD(1) [OF assms(3)] unfolding mem by auto
  fix s
  have ok: "window_ok (wp_config p) (wp_watermark p) k w" if "w \<in> set (mget (wp_windows p) k [])" for w
    using wp_inv_key_ok [OF assms(1), of k] that by (simp add: key_ok_def)
  have "(\<exists>w \<in> set (mget (wp_windows p') k []). w_Start w = s) \<longleftrightarrow>
      (\<exists>v \<in> set (mget (wp_windows p) k []). w_Start v = s) \<and> wm < deadline (wp_config p) (s + w_Size (wp_config p))"
  proof -
    have "live (wp_config p) wm v \<longleftrightarrow> wm < deadline (wp_config p) (w_Start v + w_Size (wp_config p))"
      if "v \<in> set (mget (wp_windows p) k [])" for v
      using ok [OF that] assms(2) by (simp add: live_def window_ok_def)
    moreover have "(\<exists>w \<in> set (mget (wp_windows p') k []). w_Start w = s) \<longleftrightarrow>
        (\<exists>v \<in> set (mget (wp_windows p) k []). live (wp_config p) wm v \<and> w_Start v = s)"
      unfolding adv(4) key_remaining_def by auto
    ultimately show ?thesis by auto
  qed
  then show "(\<exists>w \<in> set (mget (wp_windows p') k []). w_Start w = s) \<longleftrightarrow>
      occupied (wp_config p') h k s \<and> wp_watermark p' < deadline (wp_config p') (s + w_Size (wp_config p'))"
    using contents_okD(2) [OF assms(3), of k s] assms(4) adv(2,3) by auto
qed

section \<open>Runs\<close>

datatype window_op = WEvent Event | WMark int

text \<open>A run collects the events that were processed without an error. \<open>None\<close> would be an
  operation that does not return.\<close>

fun run_windows ::
  "WindowAggregator \<Rightarrow> window_op list \<Rightarrow> Event list \<times> WindowProcessor \<Rightarrow> (Event list \<times> WindowProcessor) option" where
  "run_windows agg [] st = Some st"
| "run_windows agg (WEvent e # ops) (h, p) =
     (case Process agg e p of
        None \<Rightarrow> None
      | Some (Inl _, p') \<Rightarrow> run_windows agg ops (h, p')
      | Some (Inr _, p') \<Rightarrow> run_windows agg ops (h @ [e], p'))"
| "run_windows agg (WMark wm # ops) (h, p) =
     run_windows agg ops (h, snd (window_AdvanceWatermark agg wm p))"

definition op_i64 :: "window_op \<Rightarrow> bool" where
  "op_i64 op = (case op of WEvent e \<Rightarrow> in_i64 (EventTime e) | WMark wm \<Rightarrow> in_i64 wm)"

definition config_i64 :: "WindowConfig \<Rightarrow> bool" where
  "config_i64 c \<longleftrightarrow> in_i64 (w_Size c) \<and> in_i64 (w_Slide c) \<and> in_i64 (w_Gap c)
     \<and> in_i64 (AllowedLateness c) \<and> in_i64 (MaxWindows c)"

lemma NewWindowProcessor_inv:
  assumes "NewWindowProcessor c a = Inr p" "config_i64 c"
  shows "wp_inv p" "wp_windows p = []" "Kind (wp_config p) = Kind c" "w_Size (wp_config p) = w_Size c"
  using assms
  by (auto simp: NewWindowProcessor_def Let_def wp_inv_def config_ok_def config_i64_def in_i64_def
      MinInt64_def MaxInt64_def retained_count_def split: if_splits option.splits)

lemma Advance_inv:
  assumes "wp_inv p" "in_i64 wm"
  shows "wp_inv (snd (window_AdvanceWatermark agg wm p))"
    "wp_config (snd (window_AdvanceWatermark agg wm p)) = wp_config p"
proof -
  obtain rs p' where adv: "window_AdvanceWatermark agg wm p = (rs, p')" by fastforce
  have "wp_inv p' \<and> wp_config p' = wp_config p"
  proof (cases "wp_watermark p < wm")
    case True
    then show ?thesis using window_AdvanceWatermark_spec [OF assms(1) True assms(2) adv] by blast
  next
    case False
    then have "p' = p" using adv by (simp add: window_AdvanceWatermark_def)
    then show ?thesis using assms(1) by simp
  qed
  then show "wp_inv (snd (window_AdvanceWatermark agg wm p))"
    "wp_config (snd (window_AdvanceWatermark agg wm p)) = wp_config p"
    by (simp_all add: adv)
qed

lemma run_windows_inv:
  assumes "wp_inv p" "\<forall>op \<in> set ops. op_i64 op"
  shows "\<exists>h' p'. run_windows agg ops (h, p) = Some (h', p') \<and> wp_inv p' \<and> wp_config p' = wp_config p"
  using assms
proof (induction ops arbitrary: h p)
  case (Cons op ops)
  show ?case
  proof (cases op)
    case (WEvent e)
    have i: "in_i64 (EventTime e)" using Cons.prems(2) WEvent by (simp add: op_i64_def)
    obtain r p' where "Process agg e p = Some (r, p')" "wp_inv p'" "wp_config p' = wp_config p"
      by (rule Process_inv [OF Cons.prems(1) i, of agg])
    then show ?thesis using WEvent Cons.IH [of p'] Cons.prems(2) by (cases r) auto
  next
    case (WMark wm)
    then show ?thesis
      using Advance_inv [OF Cons.prems(1), of wm agg] Cons.prems(2)
        Cons.IH [of "snd (window_AdvanceWatermark agg wm p)" h] by (auto simp: op_i64_def)
  qed
qed simp

context window_aggregator
begin

lemma run_windows_contents:
  assumes "wp_inv p" "Kind (wp_config p) \<noteq> ''session''" "contents_ok agg h p" "\<forall>op \<in> set ops. op_i64 op"
    "run_windows agg ops (h, p) = Some (h', p')"
  shows "contents_ok agg h' p' \<and> wp_inv p' \<and> wp_config p' = wp_config p"
  using assms
proof (induction ops arbitrary: h p)
  case (Cons op ops)
  show ?case
  proof (cases op)
    case (WMark wm)
    obtain rs q where adv: "window_AdvanceWatermark agg wm p = (rs, q)" by fastforce
    have i: "in_i64 wm" using Cons.prems(4) WMark by (simp add: op_i64_def)
    have q: "wp_inv q" "wp_config q = wp_config p" using Advance_inv [OF Cons.prems(1) i, of agg] adv by auto
    have "contents_ok agg h q"
    proof (cases "wp_watermark p < wm")
      case True
      then show ?thesis using contents_Advance [OF Cons.prems(1-3) True i adv] by simp
    next
      case False
      then show ?thesis using adv Cons.prems(3) by (simp add: window_AdvanceWatermark_def)
    qed
    then show ?thesis using Cons.IH [OF q(1), of h] Cons.prems q(2) WMark adv by simp
  next
    case (WEvent e)
    have i: "in_i64 (EventTime e)" using Cons.prems(4) WEvent by (simp add: op_i64_def)
    show ?thesis
    proof (rule Process_fixed [OF Cons.prems(1,2) i, of agg])
      fix err assume "Process agg e p = Some (Inl err, p)"
      then show ?thesis using Cons.IH [OF Cons.prems(1-3)] Cons.prems(4,5) WEvent by simp
    next
      fix results late ws q
      assume f: "Process agg e p = Some (Inr (results, late), q)" "committed p (Key e) ws q"
        "fixed_update agg p e ws" "\<And>s. touched p e s \<Longrightarrow> s + w_Size (wp_config p) \<le> MaxInt64"
      have q: "wp_inv q" "wp_config q = wp_config p" "contents_ok agg (h @ [e]) q"
        using Process_fixed_inv [OF Cons.prems(1,2) f(2,3,4)] f(2)
          contents_Process [OF Cons.prems(1-3) f(2,3)] by (auto simp: committed_def)
      then show ?thesis using Cons.IH [OF q(1) _ q(3)] Cons.prems f(1) WEvent by simp
    qed
  qed
qed simp

lemma fires_exactly:
  assumes "wp_inv p" "Kind (wp_config p) \<noteq> ''session''" "contents_ok agg h p"
    "wp_watermark p < wm" "in_i64 wm" "window_AdvanceWatermark agg wm p = (results, p')"
  shows "r \<in> set results \<longleftrightarrow> (\<exists>k s. occupied (wp_config p) h k s \<and> wp_watermark p < s + w_Size (wp_config p)
    \<and> s + w_Size (wp_config p) \<le> wm
    \<and> r = \<lparr>r_Key = k, WindowStart = s, WindowEnd = s + w_Size (wp_config p),
           r_Value = GetResult agg (aggregate agg (window_events h k s (s + w_Size (wp_config p)))),
           IsUpdate = False\<rparr>)"
proof -
  let ?sz = "w_Size (wp_config p)"
  have c: "config_ok (wp_config p)" using assms(1) unfolding wp_inv_def by blast
  have ok: "window_ok (wp_config p) (wp_watermark p) k w" if "w \<in> set (mget (wp_windows p) k [])" for w k
    using wp_inv_key_ok [OF assms(1), of k] that by (simp add: key_ok_def)
  have key: "k \<in> set (sort (map fst (wp_windows p)))" if "w \<in> set (mget (wp_windows p) k [])" for k w
  proof (rule ccontr)
    assume "k \<notin> set (sort (map fst (wp_windows p)))"
    then have "map_of (wp_windows p) k = None" by (simp add: map_of_eq_None_iff)
    then show False using that by (simp add: mget_def)
  qed
  have "r \<in> set results \<longleftrightarrow> (\<exists>k \<in> set (sort (map fst (wp_windows p))). \<exists>w \<in> set (mget (wp_windows p) k []).
      \<not> Fired w \<and> w_End w \<le> wm \<and> r = window_result agg w (Emitted w))"
    unfolding window_AdvanceWatermark_spec(1) [OF assms(1,4,5,6)] by (auto simp: key_results_def)
  also have "\<dots> \<longleftrightarrow> (\<exists>k w. w \<in> set (mget (wp_windows p) k []) \<and> \<not> Fired w \<and> w_End w \<le> wm
      \<and> r = window_result agg w (Emitted w))"
    using key by blast
  also have "\<dots> \<longleftrightarrow> (\<exists>k s. (\<exists>w \<in> set (mget (wp_windows p) k []). w_Start w = s) \<and> wp_watermark p < s + ?sz
    \<and> s + ?sz \<le> wm
    \<and> r = \<lparr>r_Key = k, WindowStart = s, WindowEnd = s + ?sz,
           r_Value = GetResult agg (aggregate agg (window_events h k s (s + ?sz))), IsUpdate = False\<rparr>)"
  proof -
    have "\<not> Fired w \<and> w_End w \<le> wm \<and> r = window_result agg w (Emitted w) \<longleftrightarrow>
        wp_watermark p < w_Start w + ?sz \<and> w_Start w + ?sz \<le> wm \<and>
        r = \<lparr>r_Key = k, WindowStart = w_Start w, WindowEnd = w_Start w + ?sz,
           r_Value = GetResult agg (aggregate agg (window_events h k (w_Start w) (w_Start w + ?sz))), IsUpdate = False\<rparr>"
      if "w \<in> set (mget (wp_windows p) k [])" for k w
      using ok [OF that] contents_okD(1) [OF assms(3) that] assms(2)
      by (auto simp: window_ok_def window_result_def)
    then show ?thesis by blast
  qed
  also have "\<dots> \<longleftrightarrow> (\<exists>k s. occupied (wp_config p) h k s \<and> wp_watermark p < s + ?sz \<and> s + ?sz \<le> wm
    \<and> r = \<lparr>r_Key = k, WindowStart = s, WindowEnd = s + ?sz,
           r_Value = GetResult agg (aggregate agg (window_events h k s (s + ?sz))), IsUpdate = False\<rparr>)"
  proof -
    have "(\<exists>w \<in> set (mget (wp_windows p) k []). w_Start w = s) \<longleftrightarrow> occupied (wp_config p) h k s"
      if "wp_watermark p < s + ?sz" "s + ?sz \<le> wm" for k s
    proof -
      have "in_i64 (s + ?sz)" if "occupied (wp_config p) h k s"
        using that \<open>s + ?sz \<le> wm\<close> assms(5) config_ok_kinds(2) [OF c assms(2)]
        by (auto simp: occupied_def aligned_start_def in_i64_def)
      then show ?thesis
        using contents_okD(2) [OF assms(3), of k s] that(1) deadline_ge [OF c, of "s + ?sz"] by auto
    qed
    then show ?thesis by blast
  qed
  finally show ?thesis .
qed

end

end
