(* ===== verification/Windowing.thy ===== *)
theory Windowing
  imports Window_Run
begin

text \<open>
  The counting aggregator of the SDK (\<^verbatim>\<open>sdk/aggregator.go\<close>) as an instance of the aggregator
  contract, and the properties of windowed aggregation.
\<close>

section \<open>CountAggregator\<close>

definition count_CreateAccumulator :: bytes where
  "count_CreateAccumulator = PutUint64BE 0"

text \<open>Reading eight bytes of a shorter slice panics: \<open>None\<close>. The first eight bytes are
  overwritten in place.\<close>

definition count_Add :: "bytes \<Rightarrow> Event \<Rightarrow> bytes option" where
  "count_Add acc event =
     (if length acc < 8 then None
      else Some (PutUint64BE (Uint64BE (take 8 acc) + 1) @ drop 8 acc))"

definition count_GetResult :: "bytes \<Rightarrow> bytes" where
  "count_GetResult acc = acc"

definition count_Merge :: "bytes \<Rightarrow> bytes \<Rightarrow> bytes option" where
  "count_Merge a b =
     (if length a < 8 \<or> length b < 8 then None
      else Some (PutUint64BE (Uint64BE (take 8 a) + Uint64BE (take 8 b)) @ drop 8 a))"

text \<open>As a \<open>WindowAggregator\<close>; the accumulators a processor holds never reach the panics.\<close>

definition CountAggregator :: WindowAggregator where
  "CountAggregator =
     \<lparr>CreateAccumulator = Some count_CreateAccumulator,
      Add = (\<lambda>acc e. Option.bind acc (\<lambda>a. count_Add a e)),
      GetResult = map_option count_GetResult,
      Merge = (\<lambda>a b. Option.bind a (\<lambda>x. Option.bind b (count_Merge x)))\<rparr>"

definition count_valid :: "slice \<Rightarrow> bool" where
  "count_valid a \<longleftrightarrow> (\<exists>n. a = Some (PutUint64BE n))"

lemma count_Add_eq: "Add CountAggregator (Some (PutUint64BE n)) e = Some (PutUint64BE (n + 1))"
  by (simp add: CountAggregator_def count_Add_def codec_simps be64.dec_enc)

lemma count_Merge_eq:
  "Merge CountAggregator (Some (PutUint64BE m)) (Some (PutUint64BE n)) = Some (PutUint64BE (m + n))"
  by (simp add: CountAggregator_def count_Merge_def codec_simps be64.dec_enc)

lemma count_Create_eq: "CreateAccumulator CountAggregator = Some (PutUint64BE 0)"
  by (simp add: CountAggregator_def count_CreateAccumulator_def)

interpretation counting: window_aggregator CountAggregator count_valid
  by unfold_locales
    (auto simp: count_valid_def count_Add_eq count_Merge_eq count_Create_eq algebra_simps)

lemma aggregate_count: "aggregate CountAggregator es = Some (PutUint64BE (of_nat (length es)))"
  by (induction es rule: rev_induct)
    (simp_all add: aggregate_def count_Create_eq count_Add_eq algebra_simps)

section \<open>Properties\<close>

text \<open>C27. The window processor never diverges and keeps its invariant: from a processor that
  \<open>NewWindowProcessor\<close> accepts, every sequence of events and watermarks returns, and in the
  state it reaches the retained windows are sorted, lie before their deadline, have fired
  exactly when the watermark has passed their end, sessions of a key are separated, and the
  counter of retained windows is exact and within the limit.\<close>

theorem window_runs_keep_invariant:
  assumes "NewWindowProcessor c (Some agg) = Inr p0" and "config_i64 c" and "\<forall>op \<in> set ops. op_i64 op"
  shows "\<exists>h p. run_windows agg ops ([], p0) = Some (h, p) \<and> wp_inv p"
  using run_windows_inv [OF NewWindowProcessor_inv(1) [OF assms(1,2)] assms(3)] by blast

definition example_config :: WindowConfig where
  "example_config = \<lparr>Kind = ''sliding'', w_Size = 10, w_Slide = 5, w_Gap = 0, AllowedLateness = 3,
     AggregationID = ''count'', MaxWindows = 100\<rparr>"

definition example_event :: Event where
  "example_event = EventFromProto \<lparr>msg_Key = [1], msg_Value = [], msg_EventTime = 12, msg_Headers = []\<rparr>"

lemma example_New:
  "NewWindowProcessor example_config (Some agg) =
    Inr \<lparr>wp_config = example_config, wp_watermark = MinInt64, wp_windows = [],
         wp_stats = \<lparr>Late = 0, Allowed = 0, Dropped = 0, RetainedWindows = 0\<rparr>\<rparr>"
proof -
  have "go_div 9 5 = 1" by (subst go_div_nonneg) (simp_all add: in_i64_def MinInt64_def MaxInt64_def)
  then show ?thesis
    by (simp add: NewWindowProcessor_def example_config_def check_window_kind_def wrap64_id in_i64_def
        MinInt64_def MaxInt64_def)
qed

lemma example_i64: "config_i64 example_config" "op_i64 (WEvent example_event)" "op_i64 (WMark 15)"
  by (simp_all add: config_i64_def example_config_def op_i64_def example_event_def EventFromProto_def
      in_i64_def MinInt64_def MaxInt64_def)

lemma example_assign:
  "assign_loop False 10 5 [1] 12 10 [] =
    Some (Inr [new_window [1] 10 20 None, new_window [1] 5 15 None])"
  by (subst assign_loop.simps, simp add: windowEnd_def wrap64_def MinInt64_def MaxInt64_def)+

lemma example_floor: "floorWindowStart 12 5 = Inr 10"
  by (simp add: floorWindowStart_def go_rem_def signed_modulo_int_def wrap64_def MinInt64_def MaxInt64_def)

text \<open>The event of the example falls into the windows that start at 5 and at 10.\<close>

lemma example_run:
  assumes "NewWindowProcessor example_config (Some CountAggregator) = Inr p0"
  obtains p where "run_windows CountAggregator [WEvent example_event] ([], p0) = Some ([example_event], p)"
    "wp_watermark p = MinInt64" "map w_Start (mget (wp_windows p) [1] []) = [5, 10]"
  using assms example_New [of CountAggregator]
  by (simp add: Process_def assign_windows_def example_event_def EventFromProto_def window_step_def
      example_config_def example_floor example_assign accept_window_def new_window_def deadline_def
      wrap64_def MinInt64_def MaxInt64_def count_Create_eq count_Add_eq commit_windows_def Let_def mget_def)

theorem window_runs_keep_invariant_witness:
  "\<exists>p0 h p. NewWindowProcessor example_config (Some CountAggregator) = Inr p0 \<and>
    run_windows CountAggregator [WEvent example_event, WMark 15] ([], p0) = Some (h, p) \<and> wp_inv p"
  using window_runs_keep_invariant [OF example_New [of CountAggregator] example_i64(1),
      of "[WEvent example_event, WMark 15]"]
  by (auto simp: example_i64 example_New)

text \<open>C13. Tumbling and sliding windows hold exactly their events. After any run, a window of a
  key is retained if and only if it is aligned, some processed event falls into it and the
  watermark is before its deadline, and its accumulator is the aggregate of all processed
  events of that key and interval, in order: no event is lost, counted twice or put in the
  wrong window, however events and watermarks interleave.\<close>

theorem window_contents_exact:
  assumes "window_aggregator agg valid" and "NewWindowProcessor c (Some agg) = Inr p0"
    and "config_i64 c" and "Kind c \<noteq> ''session''" and "\<forall>op \<in> set ops. op_i64 op"
    and "run_windows agg ops ([], p0) = Some (h, p)"
  shows "(\<forall>w \<in> set (mget (wp_windows p) k []).
      Accumulator w = aggregate agg (window_events h k (w_Start w) (w_End w)))
    \<and> ((\<exists>w \<in> set (mget (wp_windows p) k []). w_Start w = s) \<longleftrightarrow>
        occupied (wp_config p) h k s \<and> wp_watermark p < deadline (wp_config p) (s + w_Size (wp_config p)))"
proof -
  note new = NewWindowProcessor_inv [OF assms(2,3)]
  have "contents_ok agg [] p0" using new(2) by (simp add: contents_ok_def occupied_def)
  then have "contents_ok agg h p"
    using window_aggregator.run_windows_contents [OF assms(1) new(1) _ _ assms(5,6)] new(3) assms(4) by simp
  then show ?thesis by (auto simp: contents_ok_def)
qed

theorem window_contents_exact_witness:
  "\<exists>p0 p. NewWindowProcessor example_config (Some CountAggregator) = Inr p0 \<and>
    run_windows CountAggregator [WEvent example_event] ([], p0) = Some ([example_event], p) \<and>
    (\<forall>w \<in> set (mget (wp_windows p) [1] []).
      Accumulator w = aggregate CountAggregator (window_events [example_event] [1] (w_Start w) (w_End w)))
    \<and> ((\<exists>w \<in> set (mget (wp_windows p) [1] []). w_Start w = 10) \<longleftrightarrow>
        occupied (wp_config p) [example_event] [1] 10 \<and>
        wp_watermark p < deadline (wp_config p) (10 + w_Size (wp_config p)))"
proof -
  obtain p0 where p0: "NewWindowProcessor example_config (Some CountAggregator) = Inr p0"
    using example_New by blast
  obtain p where run: "run_windows CountAggregator [WEvent example_event] ([], p0) = Some ([example_event], p)"
    by (rule example_run [OF p0])
  have "Kind example_config \<noteq> ''session''" "\<forall>op \<in> set [WEvent example_event]. op_i64 op"
    by (simp_all add: example_i64) (simp add: example_config_def)
  from window_contents_exact [OF counting.window_aggregator_axioms p0 example_i64(1) this run, of "[1]" 10]
  show ?thesis using p0 run by blast
qed

text \<open>C16. A watermark fires exactly the windows it closes. When the watermark advances, the
  results are those of the occupied windows whose end lies between the old and the new
  watermark, each with the aggregate of all its events and none marked as an update.\<close>

theorem watermark_fires_closed_windows:
  assumes "window_aggregator agg valid" and "NewWindowProcessor c (Some agg) = Inr p0"
    and "config_i64 c" and "Kind c \<noteq> ''session''" and "\<forall>op \<in> set ops. op_i64 op"
    and "run_windows agg ops ([], p0) = Some (h, p)"
    and "wp_watermark p < wm" and "in_i64 wm"
  shows "r \<in> set (fst (window_AdvanceWatermark agg wm p)) \<longleftrightarrow>
    (\<exists>k s. occupied (wp_config p) h k s \<and> wp_watermark p < s + w_Size (wp_config p)
       \<and> s + w_Size (wp_config p) \<le> wm
       \<and> r = \<lparr>r_Key = k, WindowStart = s, WindowEnd = s + w_Size (wp_config p),
              r_Value = GetResult agg (aggregate agg (window_events h k s (s + w_Size (wp_config p)))),
              IsUpdate = False\<rparr>)"
proof -
  note new = NewWindowProcessor_inv [OF assms(2,3)]
  have "contents_ok agg [] p0" using new(2) by (simp add: contents_ok_def occupied_def)
  then have run: "contents_ok agg h p" "wp_inv p" "Kind (wp_config p) \<noteq> ''session''"
    using window_aggregator.run_windows_contents [OF assms(1) new(1) _ _ assms(5,6)] new(3) assms(4) by auto
  show ?thesis
    by (rule window_aggregator.fires_exactly [OF assms(1) run(2,3,1) assms(7,8) prod.collapse [symmetric]])
qed

theorem watermark_fires_closed_windows_witness:
  "\<exists>p0 p. NewWindowProcessor example_config (Some CountAggregator) = Inr p0 \<and>
    run_windows CountAggregator [WEvent example_event] ([], p0) = Some ([example_event], p) \<and>
    (\<forall>r. r \<in> set (fst (window_AdvanceWatermark CountAggregator 15 p)) \<longleftrightarrow>
     (\<exists>k s. occupied (wp_config p) [example_event] k s \<and> wp_watermark p < s + w_Size (wp_config p)
       \<and> s + w_Size (wp_config p) \<le> 15
       \<and> r = \<lparr>r_Key = k, WindowStart = s, WindowEnd = s + w_Size (wp_config p),
              r_Value = GetResult CountAggregator (aggregate CountAggregator
                 (window_events [example_event] k s (s + w_Size (wp_config p)))), IsUpdate = False\<rparr>))"
proof -
  obtain p0 where p0: "NewWindowProcessor example_config (Some CountAggregator) = Inr p0"
    using example_New by blast
  obtain p where run: "run_windows CountAggregator [WEvent example_event] ([], p0) = Some ([example_event], p)"
    "wp_watermark p = MinInt64"
    by (rule example_run [OF p0])
  have hyp: "Kind example_config \<noteq> ''session''" "\<forall>op \<in> set [WEvent example_event]. op_i64 op"
    "wp_watermark p < 15" "in_i64 15"
    using run(2) by (simp_all add: example_i64 in_i64_def MinInt64_def MaxInt64_def)
      (simp add: example_config_def)
  note fires = watermark_fires_closed_windows
    [OF counting.window_aggregator_axioms p0 example_i64(1) hyp(1,2) run(1) hyp(3,4)]
  show ?thesis using p0 run(1) fires by blast
qed

text \<open>With the SDK's counting aggregator, the value a tumbling or sliding window holds is the
  number of its events as a big-endian 64-bit integer.\<close>

theorem counting_windows_count_events:
  assumes "NewWindowProcessor c (Some CountAggregator) = Inr p0"
    and "config_i64 c" and "Kind c \<noteq> ''session''" and "\<forall>op \<in> set ops. op_i64 op"
    and "run_windows CountAggregator ops ([], p0) = Some (h, p)"
    and "w \<in> set (mget (wp_windows p) k [])"
  shows "GetResult CountAggregator (Accumulator w) =
    Some (PutUint64BE (of_nat (length (window_events h k (w_Start w) (w_End w)))))"
proof -
  note new = NewWindowProcessor_inv [OF assms(1,2)]
  have "contents_ok CountAggregator [] p0" using new(2) by (simp add: contents_ok_def occupied_def)
  then have "contents_ok CountAggregator h p"
    using counting.run_windows_contents [OF new(1) _ _ assms(4,5)] new(3) assms(3) by simp
  from contents_okD(1) [OF this assms(6)] show ?thesis
    by (simp add: aggregate_count) (simp add: CountAggregator_def count_GetResult_def)
qed

theorem counting_windows_count_events_witness:
  "\<exists>p0 p. NewWindowProcessor example_config (Some CountAggregator) = Inr p0 \<and>
    run_windows CountAggregator [WEvent example_event] ([], p0) = Some ([example_event], p) \<and>
    mget (wp_windows p) [1] [] \<noteq> [] \<and>
    (\<forall>w \<in> set (mget (wp_windows p) [1] []).
      GetResult CountAggregator (Accumulator w) =
      Some (PutUint64BE (of_nat (length (window_events [example_event] [1] (w_Start w) (w_End w))))))"
proof -
  obtain p0 where p0: "NewWindowProcessor example_config (Some CountAggregator) = Inr p0"
    using example_New by blast
  obtain p where run: "run_windows CountAggregator [WEvent example_event] ([], p0) = Some ([example_event], p)"
    and some: "map w_Start (mget (wp_windows p) [1] []) = [5, 10]"
    by (rule example_run [OF p0])
  have "Kind example_config \<noteq> ''session''" "\<forall>op \<in> set [WEvent example_event]. op_i64 op"
    by (simp_all add: example_i64) (simp add: example_config_def)
  note count = counting_windows_count_events [OF p0 example_i64(1) this run]
  moreover have "mget (wp_windows p) [1] [] \<noteq> []" using some by auto
  ultimately show ?thesis using p0 run by blast
qed

end
