(* ===== verification/Window_Snapshot.thy ===== *)
theory Window_Snapshot
  imports Windowing
begin

text \<open>
  Checkpoints of the window processor (\<^verbatim>\<open>internal/engine/window_snapshot.go\<close>) and the operator
  around it (\<^verbatim>\<open>window_operator.go\<close>). The JSON encoding is a pair of parameters: \<open>marshal\<close>
  and \<open>unmarshal\<close>, of which the round trip assumes only that the second inverts the first.
\<close>

section \<open>Checkpoint and restore\<close>

record windowSnapshot =
  Version :: int
  snap_CheckpointID :: u64
  snap_Config :: WindowConfig
  snap_Watermark :: int
  snap_Windows :: "retainedWindow list"
  snap_Stats :: WindowStats

definition make_snapshot :: "u64 \<Rightarrow> WindowProcessor \<Rightarrow> windowSnapshot" where
  "make_snapshot checkpointID p =
     \<lparr>Version = 1, snap_CheckpointID = checkpointID, snap_Config = wp_config p,
      snap_Watermark = wp_watermark p,
      snap_Windows = concat (map (\<lambda>key. mget (wp_windows p) key []) (sort (map fst (wp_windows p)))),
      snap_Stats = wp_stats p\<rparr>"

text \<open>\<open>None\<close> is a marshalling error.\<close>

definition window_Checkpoint ::
  "(windowSnapshot \<Rightarrow> bytes option) \<Rightarrow> u64 \<Rightarrow> WindowProcessor \<Rightarrow> bytes option" where
  "window_Checkpoint marshal checkpointID p =
     (case marshal (make_snapshot checkpointID p) of
        None \<Rightarrow> None
      | Some data \<Rightarrow> Some (data @ PutUint32BE (ChecksumIEEE data)))"

definition window_bounds_bad :: "WindowConfig \<Rightarrow> retainedWindow \<Rightarrow> bool" where
  "window_bounds_bad c w \<longleftrightarrow> Kind c \<noteq> ''session'' \<and>
     (case windowEnd (w_Start w) (w_Size c) of
        Inl _ \<Rightarrow> True
      | Inr stop \<Rightarrow> go_rem (w_Start w) (window_step c) \<noteq> 0 \<or> stop \<noteq> w_End w)"

definition retained_bad :: "WindowConfig \<Rightarrow> int \<Rightarrow> retainedWindow \<Rightarrow> bool" where
  "retained_bad c wm w \<longleftrightarrow> w_End w \<le> w_Start w \<or> wm \<ge> deadline c (w_End w) \<or>
     (Fired w \<and> \<not> Emitted w) \<or> Fired w \<noteq> (wm \<ge> w_End w)"

text \<open>The loop over the windows of a snapshot. \<open>None\<close> is any of its errors.\<close>

fun restore_loop ::
  "WindowConfig \<Rightarrow> int \<Rightarrow> retainedWindow list \<Rightarrow> (bytes \<times> int \<times> int) list
   \<Rightarrow> (bytes, retainedWindow list) gomap \<Rightarrow> (bytes, retainedWindow list) gomap option" where
  "restore_loop c wm [] seen windows = Some windows"
| "restore_loop c wm (w # ws) seen windows =
     (if retained_bad c wm w then None
      else if (w_Key w, w_Start w, w_End w) \<in> set seen then None
      else if window_bounds_bad c w then None
      else restore_loop c wm ws ((w_Key w, w_Start w, w_End w) # seen)
             (AList.update (w_Key w) (mget windows (w_Key w) [] @ [w]) windows))"

fun unmerged :: "retainedWindow list \<Rightarrow> bool" where
  "unmerged (a # b # ws) \<longleftrightarrow> w_End a \<ge> w_Start b \<or> unmerged (b # ws)"
| "unmerged _ \<longleftrightarrow> False"

definition window_Restore ::
  "(bytes \<Rightarrow> windowSnapshot option) \<Rightarrow> bytes \<Rightarrow> WindowProcessor \<Rightarrow> window_error + WindowProcessor" where
  "window_Restore unmarshal data p =
     (if length data < 4 then Inl ErrSnapshotCorrupt
      else
        let body = take (length data - 4) data
        in if ChecksumIEEE body \<noteq> Uint32BE (drop (length data - 4) data) then Inl ErrSnapshotCorrupt
           else case unmarshal body of
             None \<Rightarrow> Inl ErrSnapshotCorrupt
           | Some snapshot \<Rightarrow>
               if Version snapshot \<noteq> 1 \<or> snap_Config snapshot \<noteq> wp_config p \<or>
                  int (length (snap_Windows snapshot)) > MaxWindows (wp_config p) \<or>
                  RetainedWindows (snap_Stats snapshot) \<noteq> int (length (snap_Windows snapshot))
               then Inl ErrSnapshotCorrupt
               else case restore_loop (wp_config p) (snap_Watermark snapshot) (snap_Windows snapshot) [] [] of
                 None \<Rightarrow> Inl ErrSnapshotCorrupt
               | Some windows \<Rightarrow>
                   let ordered = map (\<lambda>(k, ws). (k, sort_key w_Start ws)) windows
                   in if Kind (wp_config p) = ''session'' \<and> list_ex (\<lambda>(_, ws). unmerged ws) ordered
                      then Inl ErrSnapshotCorrupt
                      else Inr (p\<lparr>wp_windows := ordered, wp_watermark := snap_Watermark snapshot,
                                  wp_stats := snap_Stats snapshot\<rparr>))"

section \<open>The operator\<close>

text \<open>\<open>FlatMap\<close>: the events emitted, or the record handed to the late callback. \<open>has_late\<close> tells
  whether a callback is configured.\<close>

datatype flat_map_result = FmError window_error | FmLate Event | FmEmit "Event list"

definition FlatMap ::
  "WindowAggregator \<Rightarrow> (WindowResult \<Rightarrow> Event) \<Rightarrow> bool \<Rightarrow> Event \<Rightarrow> WindowProcessor
   \<Rightarrow> (flat_map_result \<times> WindowProcessor) option" where
  "FlatMap agg encodeResult has_late event p =
     (case Process agg event p of
        None \<Rightarrow> None
      | Some (Inl err, p') \<Rightarrow> Some (FmError err, p')
      | Some (Inr (results, late), p') \<Rightarrow>
          if late \<and> has_late then Some (FmLate event, p')
          else Some (FmEmit (map encodeResult results), p'))"

definition OnWatermark ::
  "WindowAggregator \<Rightarrow> (WindowResult \<Rightarrow> Event) \<Rightarrow> int \<Rightarrow> WindowProcessor \<Rightarrow> Event list \<times> WindowProcessor" where
  "OnWatermark agg encodeResult timestamp p =
     (let (results, p') = window_AdvanceWatermark agg timestamp p in (map encodeResult results, p'))"

section \<open>The restore loop\<close>

definition bnds :: "retainedWindow \<Rightarrow> bytes \<times> int \<times> int" where
  "bnds w = (w_Key w, w_Start w, w_End w)"

lemma restore_loop_Some:
  "(\<exists>m. restore_loop c wm ws seen windows = Some m) \<longleftrightarrow>
    (\<forall>w \<in> set ws. \<not> retained_bad c wm w \<and> \<not> window_bounds_bad c w)
    \<and> distinct (map bnds ws) \<and> set (map bnds ws) \<inter> set seen = {}"
  by (induction ws arbitrary: seen windows) (auto simp: bnds_def)

lemma restore_loop_map:
  "restore_loop c wm ws seen windows = Some m \<Longrightarrow> distinct (map fst windows) \<Longrightarrow>
   distinct (map fst m) \<and>
   (\<forall>k. map_of m k = (case filter (\<lambda>w. w_Key w = k) ws of
      [] \<Rightarrow> map_of windows k | x # xs \<Rightarrow> Some (mget windows k [] @ x # xs)))"
proof (induction ws arbitrary: seen windows)
  case (Cons w ws)
  define windows' where "windows' = AList.update (w_Key w) (mget windows (w_Key w) [] @ [w]) windows"
  have rest: "restore_loop c wm ws (bnds w # seen) windows' = Some m"
    using Cons.prems(1) by (simp add: windows'_def bnds_def split: if_splits)
  have "distinct (map fst windows')"
    using Cons.prems(2) by (simp add: windows'_def del: distinct_map)
  from Cons.IH [OF rest this] have IH: "distinct (map fst m)"
    "\<And>k. map_of m k = (case filter (\<lambda>w. w_Key w = k) ws of
      [] \<Rightarrow> map_of windows' k | x # xs \<Rightarrow> Some (mget windows' k [] @ x # xs))" by auto
  have "map_of m k = (case filter (\<lambda>w. w_Key w = k) (w # ws) of
      [] \<Rightarrow> map_of windows k | x # xs \<Rightarrow> Some (mget windows k [] @ x # xs))" for k
    unfolding IH(2) by (auto simp: windows'_def map_of_update_iff split: list.splits)
  then show ?case using IH(1) by blast
qed simp

lemma restore_loop_groups:
  assumes "restore_loop c wm ws [] [] = Some m"
  shows "distinct (map fst m)"
    "map_of m k = (if filter (\<lambda>w. w_Key w = k) ws = [] then None else Some (filter (\<lambda>w. w_Key w = k) ws))"
  using restore_loop_map [OF assms] by (auto split: list.splits)

lemma map_of_sorted:
  "map_of (map (\<lambda>(k, ws). (k, f ws)) m) k = map_option f (map_of m k)"
  by (induction m) auto

lemma distinct_fst_sorted: "map fst (map (\<lambda>(k, ws). (k, f ws)) m) = map fst m"
  by (simp add: case_prod_unfold comp_def)

lemma retained_count_groups:
  assumes "distinct (map fst m)" "\<And>k. mget m k [] = filter (\<lambda>w. w_Key w = k) ws"
  shows "retained_count m = int (length ws)"
  using assms
proof (induction m arbitrary: ws)
  case Nil
  have "filter (\<lambda>w. w_Key w = k) ws = []" for k using Nil(2) [of k] by simp
  from this [of "w_Key (hd ws)"] have "ws = []" by (cases ws) auto
  then show ?case by (simp add: retained_count_def)
next
  case (Cons x m)
  obtain k0 g where x: "x = (k0, g)" by (cases x)
  have notin: "map_of m k0 = None" using Cons.prems(1) by (simp add: x map_of_eq_None_iff)
  have g: "g = filter (\<lambda>w. w_Key w = k0) ws"
    using Cons.prems(2) [of k0] by (simp add: x mget_def)
  have "mget m k [] = filter (\<lambda>w. w_Key w = k) (filter (\<lambda>w. w_Key w \<noteq> k0) ws)" for k
  proof (cases "k = k0")
    case True
    then show ?thesis using notin by (simp add: mget_def filter_empty_conv)
  next
    case False
    then have "mget m k [] = filter (\<lambda>w. w_Key w = k) ws"
      using Cons.prems(2) [of k] by (simp add: x mget_def)
    also have "\<dots> = filter (\<lambda>w. w_Key w = k) (filter (\<lambda>w. w_Key w \<noteq> k0) ws)"
      using False by (auto intro: filter_cong)
    finally show ?thesis .
  qed
  then have "retained_count m = int (length (filter (\<lambda>w. w_Key w \<noteq> k0) ws))"
    using Cons.IH Cons.prems(1) by (simp add: x)
  moreover have "length (filter (\<lambda>w. w_Key w = k0) ws) + length (filter (\<lambda>w. w_Key w \<noteq> k0) ws) = length ws"
    by (rule sum_length_filter_compl)
  ultimately show ?case by (simp add: retained_count_def x g)
qed

lemma not_unmerged:
  "\<not> unmerged ws \<Longrightarrow> \<forall>w \<in> set ws. w_Start w < w_End w \<Longrightarrow> sorted_wrt (\<lambda>a b. w_End a < w_Start b) ws"
proof (induction ws rule: unmerged.induct)
  case (1 a b ws)
  then have "sorted_wrt (\<lambda>a b. w_End a < w_Start b) (b # ws)" "w_End a < w_Start b" by auto
  moreover have "w_Start b < w_End b" using "1.prems" by simp
  ultimately show ?case by fastforce
qed auto

lemma unmerged_sorted: "sorted_wrt (\<lambda>a b. w_End a < w_Start b) ws \<Longrightarrow> \<not> unmerged ws"
  by (induction ws rule: unmerged.induct) auto

section \<open>Restored states\<close>

definition snapshot_i64 :: "windowSnapshot \<Rightarrow> bool" where
  "snapshot_i64 s \<longleftrightarrow> in_i64 (snap_Watermark s) \<and>
     (\<forall>w \<in> set (snap_Windows s). in_i64 (w_Start w) \<and> in_i64 (w_End w))"

lemma go_rem_0_iff: "0 < step \<Longrightarrow> go_rem t step = 0 \<longleftrightarrow> t mod step = 0"
  by (cases "t = 0") (auto simp: go_rem_def signed_modulo_int_def sgn_if mod_eq_0_iff_dvd)

lemma window_ok_iff:
  assumes "config_ok c" "in_i64 (w_Start w)" "in_i64 (w_End w)"
  shows "window_ok c wm k w \<longleftrightarrow>
    w_Key w = k \<and> \<not> retained_bad c wm w \<and> \<not> window_bounds_bad c w \<and>
    (Kind c \<noteq> ''session'' \<longrightarrow> Emitted w \<longrightarrow> Fired w)"
proof (cases "Kind c = ''session''")
  case True
  then show ?thesis
    using assms(2,3) by (auto simp: window_ok_def retained_bad_def window_bounds_bad_def in_i64_def)
next
  case False
  have "\<not> window_bounds_bad c w \<longleftrightarrow>
      w_Start w mod window_step c = 0 \<and> w_End w = w_Start w + w_Size c \<and> w_Start w + w_Size c \<le> MaxInt64"
    using False windowEnd_eq [OF assms(2)] config_ok_kinds(2,3) [OF assms(1) False] go_rem_0_iff
    by (auto simp: window_bounds_bad_def)
  then show ?thesis
    using False assms(2,3) config_ok_kinds(2) [OF assms(1) False]
    by (auto simp: window_ok_def retained_bad_def in_i64_def)
qed

lemma distinct_bnds_start:
  assumes "distinct (map bnds ws)" "\<forall>w \<in> set ws. w_Key w = k \<and> w_End w = w_Start w + d"
  shows "distinct (map w_Start ws)"
  using assms by (auto simp: distinct_map inj_on_def bnds_def)

lemma distinct_map_filter: "distinct (map f xs) \<Longrightarrow> distinct (map f (filter P xs))"
  by (induction xs) auto

lemma restored_key_ok:
  assumes "config_ok c" "\<forall>w \<in> set ws. window_ok c wm k w" "distinct (map bnds ws)"
    "Kind c = ''session'' \<longrightarrow> \<not> unmerged (sort_key w_Start ws)"
  shows "key_ok c wm k (sort_key w_Start ws)"
proof (cases "Kind c = ''session''")
  case True
  have lt: "\<forall>w \<in> set (sort_key w_Start ws). w_Start w < w_End w" using assms(2) by (simp add: window_ok_def)
  have sep: "sorted_wrt (\<lambda>a b. w_End a < w_Start b) (sort_key w_Start ws)"
    using not_unmerged lt assms(4) True by blast
  then have "sorted_wrt (\<lambda>a b. w_Start a < w_Start b) (sort_key w_Start ws)"
    by (rule sorted_wrt_mono_rel [rotated]) (use lt in fastforce)
  then show ?thesis using sep assms(2) by (simp add: key_ok_def)
next
  case False
  have "distinct (map w_Start ws)"
    using assms(2,3) False by (intro distinct_bnds_start [where k = k and d = "w_Size c"]) (auto simp: window_ok_def)
  then show ?thesis
    using assms(2) False by (simp add: key_ok_def sorted_sort_key_distinct)
qed

lemma restored_inv:
  assumes "config_ok c" "\<forall>w \<in> set ws. in_i64 (w_Start w) \<and> in_i64 (w_End w)" "in_i64 wm"
    "\<forall>w \<in> set ws. Kind c \<noteq> ''session'' \<longrightarrow> Emitted w \<longrightarrow> Fired w"
    "restore_loop c wm ws [] [] = Some m" "int (length ws) \<le> MaxWindows c" "RetainedWindows st = int (length ws)"
    "ordered = map (\<lambda>(k, ws). (k, sort_key w_Start ws)) m"
    "Kind c = ''session'' \<longrightarrow> \<not> list_ex (\<lambda>(_, ws). unmerged ws) ordered"
    "wp_config p = c" "wp_watermark p = wm" "wp_windows p = ordered" "wp_stats p = st"
  shows "wp_inv p"
proof -
  note groups = restore_loop_groups [OF assms(5)]
  have loop: "\<forall>w \<in> set ws. \<not> retained_bad c wm w \<and> \<not> window_bounds_bad c w" "distinct (map bnds ws)"
    using restore_loop_Some [of c wm ws "[]" "[]"] assms(5) by auto
  have d: "distinct (map fst ordered)" unfolding assms(8) distinct_fst_sorted by (rule groups(1))
  have look: "map_of ordered k = map_option (sort_key w_Start) (map_of m k)" for k
    unfolding assms(8) by (rule map_of_sorted)
  have key: "ys \<noteq> [] \<and> key_ok c wm k ys" if "map_of ordered k = Some ys" for k ys
  proof -
    define g where "g = filter (\<lambda>w. w_Key w = k) ws"
    have g: "g \<noteq> []" "ys = sort_key w_Start g"
      using that by (auto simp: look groups(2) g_def split: if_splits)
    have "\<forall>w \<in> set g. window_ok c wm k w"
      using loop(1) assms(1,2,4) window_ok_iff by (auto simp: g_def)
    moreover have "distinct (map bnds g)" using loop(2) by (simp add: g_def distinct_map_filter)
    moreover have "Kind c = ''session'' \<longrightarrow> \<not> unmerged ys"
      using assms(9) map_of_SomeD [OF that] by (auto simp: list_ex_iff)
    ultimately show ?thesis using restored_key_ok [OF assms(1)] g by (auto simp: sort_key_Nil_iff)
  qed
  have cnt: "retained_count ordered = int (length ws)"
  proof -
    have "retained_count ordered = retained_count m"
      unfolding retained_count_def assms(8) by (simp add: case_prod_unfold comp_def)
    moreover have "retained_count m = int (length ws)"
      using groups by (intro retained_count_groups) (auto simp: mget_def)
    ultimately show ?thesis by simp
  qed
  show ?thesis
    unfolding wp_inv_def assms(10-13) using assms(1,3,6,7) d key cnt by simp
qed

section \<open>Checkpointed states\<close>

lemma filter_groups:
  assumes "distinct ks" "\<forall>k \<in> set ks. \<forall>w \<in> set (g k). w_Key w = k"
  shows "filter (\<lambda>w. w_Key w = k) (concat (map g ks)) = (if k \<in> set ks then g k else [])"
  using assms
proof (induction ks)
  case (Cons j ks)
  have "filter (\<lambda>w. w_Key w = k) (g j) = (if j = k then g j else [])"
    using Cons.prems(2) by (auto simp: filter_empty_conv filter_id_conv)
  then show ?case using Cons by auto
qed simp

lemma distinct_groups:
  assumes "distinct ks" "\<forall>k \<in> set ks. (\<forall>w \<in> set (g k). w_Key w = k) \<and> distinct (map w_Start (g k))"
  shows "distinct (map bnds (concat (map g ks)))"
  using assms
proof (induction ks)
  case (Cons j ks)
  have "distinct (map bnds (g j))"
    using Cons.prems(2) by (auto simp: distinct_map inj_on_def bnds_def)
  moreover have "set (map bnds (g j)) \<inter> set (map bnds (concat (map g ks))) = {}"
    using Cons.prems by (fastforce simp: bnds_def)
  ultimately show ?case using Cons by simp
qed simp

lemma sort_key_sorted: "sorted_wrt (\<lambda>a b. f a < (f b :: int)) xs \<Longrightarrow> sort_key f xs = xs"
proof (induction xs)
  case (Cons x xs)
  then show ?case by (cases xs) (auto simp: insort_is_Cons)
qed simp

text \<open>The windows of a snapshot pass the restore loop and come back key by key.\<close>

lemma restore_make_snapshot:
  fixes cid :: u64
  assumes "wp_inv p"
  defines "ws \<equiv> snap_Windows (make_snapshot cid p)"
  obtains m where "restore_loop (wp_config p) (wp_watermark p) ws [] [] = Some m"
    "map_of (map (\<lambda>(k, ws). (k, sort_key w_Start ws)) m) = map_of (wp_windows p)"
    "int (length ws) = retained_count (wp_windows p)"
    "Kind (wp_config p) = ''session'' \<longrightarrow>
      \<not> list_ex (\<lambda>(_, ws). unmerged ws) (map (\<lambda>(k, ws). (k, sort_key w_Start ws)) m)"
    "distinct (map fst m)"
proof -
  define ks where "ks = sort (map fst (wp_windows p))"
  define g where "g k = mget (wp_windows p) k []" for k
  have ws: "ws = concat (map g ks)" by (simp add: ws_def make_snapshot_def ks_def g_def [abs_def])
  have c: "config_ok (wp_config p)" and dk: "distinct (map fst (wp_windows p))"
    using assms(1) unfolding wp_inv_def by blast+
  have ks: "distinct ks" using dk by (simp add: ks_def del: distinct_map)
  have ok: "key_ok (wp_config p) (wp_watermark p) k (g k)" for k
    unfolding g_def by (rule wp_inv_key_ok [OF assms(1)])
  have srt: "sorted_wrt (\<lambda>a b. w_Start a < w_Start b) (g k)" for k using ok [of k] by (simp add: key_ok_def)
  have wok: "window_ok (wp_config p) (wp_watermark p) k w" if "w \<in> set (g k)" for w k
    using ok [of k] that by (simp add: key_ok_def)
  have keyk: "\<forall>k \<in> set ks. \<forall>w \<in> set (g k). w_Key w = k" using wok by (auto simp: window_ok_def)
  have dst: "distinct (map w_Start (g k))" for k
    using srt [of k] strict_sorted_iff [of "map w_Start (g k)"] by (simp add: sorted_wrt_map)
  have bad: "\<forall>w \<in> set ws. \<not> retained_bad (wp_config p) (wp_watermark p) w \<and> \<not> window_bounds_bad (wp_config p) w"
    using wok window_ok_iff [OF c] window_ok_i64 by (fastforce simp: ws)
  have "distinct (map bnds ws)" unfolding ws using ks keyk dst by (intro distinct_groups) auto
  then obtain m where m: "restore_loop (wp_config p) (wp_watermark p) ws [] [] = Some m"
    using restore_loop_Some [of "wp_config p" "wp_watermark p" ws "[]" "[]"] bad by auto
  note groups = restore_loop_groups [OF m]
  have grp: "filter (\<lambda>w. w_Key w = k) ws = g k" for k
  proof -
    have "g k = []" if "k \<notin> set ks"
      using that by (simp add: g_def mget_def ks_def map_of_eq_None_iff [symmetric])
    then show ?thesis unfolding ws filter_groups [OF ks keyk] by auto
  qed
  have look: "map_of (map (\<lambda>(k, ws). (k, sort_key w_Start ws)) m) k = map_of (wp_windows p) k" for k
    unfolding map_of_sorted groups(2) grp
    using wp_inv_map_of [OF assms(1), of k] sort_key_sorted [OF srt [of k]]
    by (cases "map_of (wp_windows p) k") (auto simp: g_def mget_def)
  show thesis
  proof (rule that [OF m ext [OF look] _ _ groups(1)])
    have "retained_count m = int (length ws)"
      using groups by (intro retained_count_groups) (auto simp: mget_def)
    moreover have "retained_count (wp_windows p) = int (length ws)"
      by (rule retained_count_groups [OF dk]) (simp add: grp g_def)
    ultimately show "int (length ws) = retained_count (wp_windows p)" by simp
    have "\<not> unmerged ys" if sess: "Kind (wp_config p) = ''session''" and "(k, ys) \<in> set (map (\<lambda>(k, ws). (k, sort_key w_Start ws)) m)" for k ys
    proof -
      have "map_of (map (\<lambda>(k, ws). (k, sort_key w_Start ws)) m) k = Some ys"
        using that(2) groups(1) by (intro map_of_is_SomeI) (simp_all only: distinct_fst_sorted)
      then have "ys = g k" unfolding look by (simp add: g_def mget_def)
      then show ?thesis using ok [of k] sess unmerged_sorted [of "g k"] by (simp add: key_ok_def)
    qed
    then show "Kind (wp_config p) = ''session'' \<longrightarrow>
        \<not> list_ex (\<lambda>(_, ws). unmerged ws) (map (\<lambda>(k, ws). (k, sort_key w_Start ws)) m)"
      unfolding list_ex_iff by (metis (mono_tags, lifting) case_prod_unfold prod.collapse)
  qed
qed

section \<open>Properties\<close>

definition example_processor :: WindowProcessor where
  "example_processor = \<lparr>wp_config = example_config, wp_watermark = MinInt64, wp_windows = [],
     wp_stats = \<lparr>Late = 0, Allowed = 0, Dropped = 0, RetainedWindows = 0\<rparr>\<rparr>"

lemma example_processor_inv: "wp_inv example_processor"
  unfolding example_processor_def
  by (rule NewWindowProcessor_inv(1) [OF example_New [of CountAggregator] example_i64(1)])

text \<open>For the examples: an encoding that ignores its input and decodes to one snapshot.\<close>

definition example_unmarshal :: "bytes \<Rightarrow> windowSnapshot option" where
  "example_unmarshal body = (if body = [] then Some (make_snapshot 7 example_processor) else None)"

lemma example_snapshot:
  "make_snapshot 7 example_processor = \<lparr>Version = 1, snap_CheckpointID = 7, snap_Config = example_config,
     snap_Watermark = MinInt64, snap_Windows = [],
     snap_Stats = \<lparr>Late = 0, Allowed = 0, Dropped = 0, RetainedWindows = 0\<rparr>\<rparr>"
  by (simp add: make_snapshot_def example_processor_def)

lemma window_Restore_Inr:
  assumes "window_Restore unmarshal data p = Inr p'"
  obtains snapshot m where "snap_Config snapshot = wp_config p"
    "unmarshal (take (length data - 4) data) = Some snapshot"
    "int (length (snap_Windows snapshot)) \<le> MaxWindows (wp_config p)"
    "RetainedWindows (snap_Stats snapshot) = int (length (snap_Windows snapshot))"
    "restore_loop (wp_config p) (snap_Watermark snapshot) (snap_Windows snapshot) [] [] = Some m"
    "Kind (wp_config p) = ''session'' \<longrightarrow>
      \<not> list_ex (\<lambda>(_, ws). unmerged ws) (map (\<lambda>(k, ws). (k, sort_key w_Start ws)) m)"
    "p' = p\<lparr>wp_windows := map (\<lambda>(k, ws). (k, sort_key w_Start ws)) m,
            wp_watermark := snap_Watermark snapshot, wp_stats := snap_Stats snapshot\<rparr>"
  using assms
  by (auto simp: window_Restore_def Let_def not_less split: if_splits option.splits)

text \<open>Restoring is safe: whatever bytes \<open>Restore\<close> accepts, the processor it leaves satisfies the
  invariant, provided the decoded integers fit their type and, outside session windows, the
  update flag is only set on fired windows.\<close>

theorem accepted_snapshots_satisfy_invariant:
  assumes "wp_inv p" and "window_Restore unmarshal data p = Inr p'"
    and "\<And>body s. unmarshal body = Some s \<Longrightarrow> snapshot_i64 s \<and>
      (\<forall>w \<in> set (snap_Windows s). Kind (snap_Config s) \<noteq> ''session'' \<longrightarrow> Emitted w \<longrightarrow> Fired w)"
  shows "wp_inv p'"
proof -
  obtain s m where r: "snap_Config s = wp_config p" "unmarshal (take (length data - 4) data) = Some s"
    "int (length (snap_Windows s)) \<le> MaxWindows (wp_config p)"
    "RetainedWindows (snap_Stats s) = int (length (snap_Windows s))"
    "restore_loop (wp_config p) (snap_Watermark s) (snap_Windows s) [] [] = Some m"
    "Kind (wp_config p) = ''session'' \<longrightarrow>
      \<not> list_ex (\<lambda>(_, ws). unmerged ws) (map (\<lambda>(k, ws). (k, sort_key w_Start ws)) m)"
    "p' = p\<lparr>wp_windows := map (\<lambda>(k, ws). (k, sort_key w_Start ws)) m,
            wp_watermark := snap_Watermark s, wp_stats := snap_Stats s\<rparr>"
    by (rule window_Restore_Inr [OF assms(2)])
  have "config_ok (wp_config p)" using assms(1) unfolding wp_inv_def by blast
  with assms(3) [OF r(2)] show ?thesis
    by (intro restored_inv [OF _ _ _ _ r(5,3,4) refl r(6)]) (auto simp: r(1,7) snapshot_i64_def)
qed

theorem accepted_snapshots_satisfy_invariant_witness:
  "\<exists>p'. window_Restore example_unmarshal [0, 0, 0, 0] example_processor = Inr p' \<and> wp_inv p'"
proof -
  have "Uint32BE [0, 0, 0, 0] = 0" by (simp add: Uint32BE_def be_val_def)
  then obtain p' where r: "window_Restore example_unmarshal [0, 0, 0, 0] example_processor = Inr p'"
    by (simp add: window_Restore_def example_unmarshal_def example_snapshot crc_eval)
      (simp add: example_processor_def example_config_def)
  have "wp_inv p'"
    by (rule accepted_snapshots_satisfy_invariant [OF example_processor_inv r])
      (auto simp: example_unmarshal_def example_snapshot snapshot_i64_def in_i64_def MinInt64_def MaxInt64_def
        split: if_splits)
  with r show ?thesis by blast
qed

text \<open>C29. A checkpoint restores the processor it was taken from: in any processor with the same
  configuration, the bytes of \<open>Checkpoint\<close> bring back the windows of every key, the watermark
  and the counters.\<close>

theorem checkpoint_restore_roundtrip:
  assumes "wp_inv p" and "marshal (make_snapshot cid p) = Some body"
    and "unmarshal body = Some (make_snapshot cid p)" and "wp_config q = wp_config p"
  shows "\<exists>data q'. window_Checkpoint marshal cid p = Some data \<and> window_Restore unmarshal data q = Inr q'
    \<and> map_of (wp_windows q') = map_of (wp_windows p) \<and> wp_watermark q' = wp_watermark p
    \<and> wp_stats q' = wp_stats p \<and> wp_config q' = wp_config p"
proof -
  define s where "s = make_snapshot cid p"
  have s: "Version s = 1" "snap_Config s = wp_config p" "snap_Watermark s = wp_watermark p" "snap_Stats s = wp_stats p"
    by (simp_all add: s_def make_snapshot_def)
  have body: "marshal s = Some body" "unmarshal body = Some s" using assms(2,3) by (simp_all add: s_def)
  define data where "data = body @ PutUint32BE (ChecksumIEEE body)"
  have data: "length data = length body + 4" "take (length body) data = body"
    "Uint32BE (drop (length body) data) = ChecksumIEEE body"
    by (simp_all add: data_def be32.length_enc be32.dec_enc)
  obtain m where m: "restore_loop (wp_config p) (wp_watermark p) (snap_Windows s) [] [] = Some m"
    "map_of (map (\<lambda>(k, ws). (k, sort_key w_Start ws)) m) = map_of (wp_windows p)"
    "int (length (snap_Windows s)) = retained_count (wp_windows p)"
    "Kind (wp_config p) = ''session'' \<longrightarrow>
      \<not> list_ex (\<lambda>(_, ws). unmerged ws) (map (\<lambda>(k, ws). (k, sort_key w_Start ws)) m)"
    "distinct (map fst m)"
    unfolding s_def by (rule restore_make_snapshot [OF assms(1), of cid])
  have st: "RetainedWindows (wp_stats p) = retained_count (wp_windows p)"
    "retained_count (wp_windows p) \<le> MaxWindows (wp_config p)"
    using assms(1) unfolding wp_inv_def by blast+
  have "window_Restore unmarshal data q =
      Inr (q\<lparr>wp_windows := map (\<lambda>(k, ws). (k, sort_key w_Start ws)) m,
             wp_watermark := wp_watermark p, wp_stats := wp_stats p\<rparr>)"
    using data(1) m(1,3,4) st
    by (simp add: window_Restore_def Let_def data(2,3) body s assms(4))
  moreover have "window_Checkpoint marshal cid p = Some data"
    using body by (simp add: window_Checkpoint_def s_def data_def)
  ultimately show ?thesis using m(2) assms(4) by auto
qed

theorem checkpoint_restore_roundtrip_witness:
  "\<exists>data q'. window_Checkpoint (\<lambda>_. Some []) 7 example_processor = Some data
    \<and> window_Restore example_unmarshal data example_processor = Inr q'
    \<and> map_of (wp_windows q') = map_of (wp_windows example_processor)
    \<and> wp_watermark q' = wp_watermark example_processor
    \<and> wp_stats q' = wp_stats example_processor \<and> wp_config q' = wp_config example_processor"
  by (rule checkpoint_restore_roundtrip [OF example_processor_inv])
    (simp_all add: example_unmarshal_def)

end
