(* ===== verification/Sorted_Slice.thy ===== *)
theory Sorted_Slice
  imports Wire_Prelude
begin

text \<open>Slices of key-value pairs kept sorted by key, as the in-memory metadata store of the
  coordinator and the in-memory state backend of the engine keep them: the binary search for the
  insertion point of a key, and the range of the keys under a prefix.\<close>

definition HasPrefix :: "'a list \<Rightarrow> 'a list \<Rightarrow> bool" where
  "HasPrefix s p = (take (length p) s = p)"

lemma search_loop_cong:
  assumes "\<And>i. i < j \<Longrightarrow> f i = g i"
  shows "search_loop f i j = search_loop g i j"
  using assms
proof (induction f i j rule: search_loop.induct)
  case (1 f i j)
  show ?case
  proof (cases "i < j")
    case False
    then show ?thesis by (simp add: search_loop.simps [of f] search_loop.simps [of g])
  next
    case True
    then have h: "f ((i + j) div 2) = g ((i + j) div 2)"
      using "1.prems" [of "(i + j) div 2"] by auto
    show ?thesis
      using True h "1.IH"(1) [OF True refl] "1.IH"(2) [OF True refl] "1.prems"
      by (auto simp: search_loop.simps [of f i j] search_loop.simps [of g i j] Let_def)
  qed
qed

definition keys_ok :: "('k::linorder \<times> 'v) list \<Rightarrow> bool" where
  "keys_ok es = (sorted (map fst es) \<and> distinct (map fst es))"

lemma keys_ok_strict: "keys_ok es = sorted_wrt (<) (map fst es)"
  by (simp add: keys_ok_def strict_sorted_iff)

abbreviation below :: "'k::linorder \<Rightarrow> ('k \<times> 'v) list \<Rightarrow> ('k \<times> 'v) list" where
  "below k es \<equiv> takeWhile (\<lambda>e. fst e < k) es"

abbreviation from_key :: "'k::linorder \<Rightarrow> ('k \<times> 'v) list \<Rightarrow> ('k \<times> 'v) list" where
  "from_key k es \<equiv> dropWhile (\<lambda>e. fst e < k) es"

text \<open>The insertion point of a key, and what is found there.\<close>

definition slice_search :: "('k::linorder \<times> 'v) list \<Rightarrow> 'k \<Rightarrow> nat" where
  "slice_search es key = sort_Search (length es) (\<lambda>i. fst (es ! i) \<ge> key)"

lemma slice_search_below:
  assumes "keys_ok es"
  shows "slice_search es k = length (below k es)"
proof -
  have "slice_search es k = sort_Search (length (map fst es)) (\<lambda>i. map fst es ! i \<ge> k)"
    unfolding slice_search_def sort_Search_def length_map by (rule search_loop_cong) simp
  also have "\<dots> = length (takeWhile (\<lambda>x. x < k) (map fst es))"
    using assms by (intro sort_Search_split) (simp add: keys_ok_def)
  finally show ?thesis
    by (simp add: takeWhile_map comp_def)
qed

lemma take_below: "take (length (below k es)) es = below k es"
  by (metis append_eq_conv_conj takeWhile_dropWhile_id)

lemma drop_below: "drop (length (below k es)) es = from_key k es"
  by (simp add: dropWhile_eq_drop)

text \<open>The entry at the insertion point carries the key exactly when the key is present.\<close>

lemma below_map_of: "map_of (below k es) k = None"
  by (metis (no_types, lifting) map_of_eq_None_iff less_irrefl image_iff set_takeWhileD)

lemma map_of_from_key: "map_of es k = map_of (from_key k es) k"
proof -
  have "map_of (below k es @ from_key k es) k = map_of (from_key k es) k"
    unfolding map_of_append map_add_def below_map_of by (simp split: option.split)
  then show ?thesis by (simp only: takeWhile_dropWhile_id)
qed

lemma from_key_hd:
  assumes "keys_ok es"
  shows "map_of es k = (case from_key k es of [] \<Rightarrow> None | e # _ \<Rightarrow> if fst e = k then Some (snd e) else None)"
proof (cases "from_key k es")
  case (Cons e r)
  have "keys_ok (from_key k es)"
    using assms unfolding keys_ok_strict
    by (metis takeWhile_dropWhile_id map_append sorted_wrt_append)
  then have gt: "\<forall>x \<in> set r. fst e < fst x"
    unfolding Cons keys_ok_strict by auto
  have "\<not> fst e < k"
    using Cons by (metis dropWhile_eq_Cons_conv)
  then have "map_of r k = None"
    using gt by (metis (no_types, lifting) image_iff map_of_eq_None_iff)
  then show ?thesis
    using Cons by (cases e) (simp add: map_of_from_key [of es])
next
  case Nil
  show ?thesis unfolding map_of_from_key [of es] Nil by simp
qed

lemma keys_ok_append:
  "keys_ok (b @ f) \<longleftrightarrow> keys_ok b \<and> keys_ok f \<and> (\<forall>x \<in> set b. \<forall>y \<in> set f. fst x < fst y)"
  unfolding keys_ok_strict by (auto simp: sorted_wrt_append)

lemma keys_ok_Cons: "keys_ok (e # f) \<longleftrightarrow> keys_ok f \<and> (\<forall>y \<in> set f. fst e < fst y)"
  unfolding keys_ok_strict by auto

lemma from_key_ge: "keys_ok es \<Longrightarrow> e \<in> set (from_key k es) \<Longrightarrow> k \<le> fst e"
proof (induction es)
  case (Cons a es)
  then show ?case
    by (auto simp: keys_ok_Cons not_less split: if_splits)
qed simp

lemma split_sorted:
  assumes "keys_ok es"
  obtains b f where "es = b @ f" "below k es = b" "from_key k es = f" "keys_ok b" "keys_ok f"
    "\<forall>x \<in> set b. fst x < k" "\<forall>x \<in> set f. k \<le> fst x" "\<forall>x \<in> set b. \<forall>y \<in> set f. fst x < fst y"
proof
  have "keys_ok (below k es @ from_key k es)"
    using assms by simp
  then show "keys_ok (below k es)" "keys_ok (from_key k es)"
    "\<forall>x \<in> set (below k es). \<forall>y \<in> set (from_key k es). fst x < fst y"
    unfolding keys_ok_append by simp_all
  show "\<forall>x \<in> set (below k es). fst x < k" by (auto dest: set_takeWhileD)
  show "\<forall>x \<in> set (from_key k es). k \<le> fst x" using assms from_key_ge by blast
qed simp_all

lemma map_of_None_below: "\<forall>x \<in> set b. fst x < k \<Longrightarrow> map_of b (k::'k::linorder) = None"
  by (auto simp: map_of_eq_None_iff)

lemma map_of_None_above: "\<forall>x \<in> set f. k < fst x \<Longrightarrow> map_of f (k::'k::linorder) = None"
  by (auto simp: map_of_eq_None_iff)

text \<open>A key is either at its insertion point or absent, with the smaller keys before and the
  larger keys after.\<close>

lemma sorted_position:
  assumes "keys_ok es"
  obtains (found) b v r where "es = b @ (k, v) # r" "slice_search es k = length b"
      "\<forall>x \<in> set b. fst x < k" "\<forall>x \<in> set r. k < fst x" "keys_ok b" "keys_ok r" "map_of es k = Some v"
      "\<forall>x \<in> set b. \<forall>y \<in> set r. fst x < fst y"
  | (missing) b f where "es = b @ f" "slice_search es k = length b"
      "\<forall>x \<in> set b. fst x < k" "\<forall>x \<in> set f. k < fst x" "keys_ok b" "keys_ok f" "map_of es k = None"
      "\<forall>x \<in> set b. \<forall>y \<in> set f. fst x < fst y"
proof (rule split_sorted [OF assms, of k])
  fix b f
  assume es: "es = b @ f" and b: "below k es = b" and ok: "keys_ok b" "keys_ok f"
    and lt: "\<forall>x \<in> set b. fst x < k" and ge: "\<forall>x \<in> set f. k \<le> fst x"
    and cross: "\<forall>x \<in> set b. \<forall>y \<in> set f. fst x < fst y"
  have at: "slice_search es k = length b"
    unfolding slice_search_below [OF assms] b ..
  show thesis
  proof (cases "\<exists>v r. f = (k, v) # r")
    case True
    then obtain v r where f: "f = (k, v) # r" by (elim exE) (rule that)
    show thesis
    proof (rule found)
      show "map_of es k = Some v"
        unfolding es f using lt by (simp add: map_add_def map_of_None_below)
    qed (use es f at lt ok cross in \<open>auto simp: keys_ok_Cons\<close>)
  next
    case False
    have gt: "\<forall>x \<in> set f. k < fst x"
      using False ge ok(2) by (cases f) (force simp: keys_ok_Cons le_less)+
    show thesis
    proof (rule missing)
      show "map_of es k = None"
        unfolding es using lt gt by (simp add: map_add_def map_of_None_below map_of_None_above)
    qed (use es at lt gt ok cross in auto)
  qed
qed

section \<open>Prefix ranges\<close>

lemma HasPrefix_iff: "HasPrefix s p \<longleftrightarrow> (\<exists>r. s = p @ r)"
  unfolding HasPrefix_def by (metis append_eq_conv_conj)

lemma HasPrefix_ge: "HasPrefix s p \<Longrightarrow> p \<le> (s::'a::linorder list)"
proof -
  have "p \<le> p @ r" for r by (induction p) simp_all
  then show "HasPrefix s p \<Longrightarrow> p \<le> s" unfolding HasPrefix_iff by blast
qed

lemma prefix_block:
  "(p::'a::linorder list) \<le> s \<Longrightarrow> \<not> HasPrefix s p \<Longrightarrow> s \<le> t \<Longrightarrow> \<not> HasPrefix t p"
proof (induction p arbitrary: s t)
  case (Cons a p)
  then show ?case
    by (cases s; cases t) (auto simp: HasPrefix_def)
qed (simp add: HasPrefix_def)

lemma prefix_takeWhile:
  assumes "keys_ok es" "\<forall>e \<in> set es. p \<le> fst e"
  shows "takeWhile (\<lambda>e. HasPrefix (fst e) p) es = filter (\<lambda>e. HasPrefix (fst e) p) es"
  using assms
proof (induction es)
  case (Cons e es)
  have "filter (\<lambda>e. HasPrefix (fst e) p) es = []" if "\<not> HasPrefix (fst e) p"
    using that Cons.prems prefix_block [of p "fst e"]
    by (auto simp: filter_empty_conv keys_ok_Cons less_imp_le)
  with Cons show ?case by (auto simp: keys_ok_Cons)
qed simp

lemma prefix_scan_filter:
  assumes "keys_ok es"
  shows "takeWhile (\<lambda>e. HasPrefix (fst e) p) (from_key p es) = filter (\<lambda>e. HasPrefix (fst e) p) es"
proof (rule split_sorted [OF assms, of p])
  fix b f
  assume es: "es = b @ f" and f: "from_key p es = f" and ok: "keys_ok f"
    and lt: "\<forall>x \<in> set b. fst x < p" and ge: "\<forall>x \<in> set f. p \<le> fst x"
  have "filter (\<lambda>e. HasPrefix (fst e) p) b = []"
    using lt HasPrefix_ge by (fastforce simp: filter_empty_conv)
  then show ?thesis
    unfolding f prefix_takeWhile [OF ok ge] by (simp add: es)
qed

lemma keys_ok_filter: "keys_ok es \<Longrightarrow> keys_ok (filter P es)"
  unfolding keys_ok_strict by (induction es) auto

lemma map_of_filter_keys: "map_of (filter (\<lambda>e. P (fst e)) es) = (\<lambda>k. if P k then map_of es k else None)"
  by (induction es) (auto simp: fun_eq_iff)

end
