(* ===== verification/Metadata_Store.thy ===== *)
theory Metadata_Store
  imports Sorted_Slice "HOL-Library.Char_ord"
begin

text \<open>The metadata store of the coordinator: its interface
  (\<^verbatim>\<open>internal/coordinator/store.go\<close>), the in-memory implementation on a sorted slice
  (\<^verbatim>\<open>store_memory.go\<close>) and the term-scoped handle of a leader
  (\<^verbatim>\<open>store_leadership.go\<close>).

  A Go interface value is a table of operations over a state, so \<open>MetadataStore\<close> is a record
  of functions over a state type. The locale \<open>metadata_store\<close> states what the interface
  promises; it is interpreted on the in-memory store and on leadership handles over it.
  Keys are strings (Go compares them bytewise), values are byte strings.\<close>

section \<open>Errors of the coordinator\<close>

text \<open>The error values of \<^verbatim>\<open>internal/coordinator/errors.go\<close>. An error wrapped with
  \<^verbatim>\<open>%w\<close> is the error it wraps; the last constructor is an error with a message only.\<close>

datatype coord_error =
    ErrHARequiresStoreFactory | ErrCheckpointUnavailable | ErrSavepointInUse
  | ErrCheckpointInProgress | ErrStaleEpoch | ErrNoLeader | ErrNotLeader | ErrLeadershipLost
  | ErrStoreCorrupted | ErrWorkerNotFound | ErrJobNotFound | ErrRecoveryFailed
  | ErrEpochMismatch | ErrInvalidTransition | ErrJobNotRunning | ErrJobNotPaused
  | ErrSavepointNotFound | ErrInvalidConfig | ErrJobExists | ErrCheckpointMinPause
  | errFinalCheckpointNotReady | ErrContext | ErrOther

section \<open>The interface\<close>

type_synonym kvEntry = "string \<times> bytes"

record 's MetadataStore =
  Get :: "'s \<Rightarrow> string \<Rightarrow> coord_error + bytes option"
  Set :: "'s \<Rightarrow> string \<Rightarrow> bytes \<Rightarrow> coord_error option \<times> 's"
  Delete :: "'s \<Rightarrow> string \<Rightarrow> coord_error option \<times> 's"
  WriteBatch :: "'s \<Rightarrow> kvEntry list \<Rightarrow> coord_error option \<times> 's"
  PrefixScan :: "'s \<Rightarrow> string \<Rightarrow> coord_error + kvEntry list"
  Close :: "'s \<Rightarrow> coord_error option \<times> 's"

text \<open>\<open>PrefixScan\<close> hands every pair to a callback that may stop the iteration. \<open>scan\<close> runs a
  callback with an accumulator over the pairs, until it answers \<open>False\<close>.\<close>

primrec scan :: "('k \<Rightarrow> 'v \<Rightarrow> 'a \<Rightarrow> 'a \<times> bool) \<Rightarrow> 'a \<Rightarrow> ('k \<times> 'v) list \<Rightarrow> 'a" where
  "scan fn acc [] = acc"
| "scan fn acc (kv # kvs) =
     (case fn (fst kv) (snd kv) acc of (acc', True) \<Rightarrow> scan fn acc' kvs | (acc', False) \<Rightarrow> acc')"

section \<open>The in-memory store\<close>

record MemoryStore =
  entries :: "kvEntry list"
  mem_closed :: bool

definition NewMemoryStore :: MemoryStore where
  "NewMemoryStore = \<lparr>entries = [], mem_closed = False\<rparr>"

definition search :: "MemoryStore \<Rightarrow> string \<Rightarrow> nat" where
  "search m key = sort_Search (length (entries m)) (\<lambda>i. fst (entries m ! i) \<ge> key)"

definition memory_Get :: "MemoryStore \<Rightarrow> string \<Rightarrow> coord_error + bytes option" where
  "memory_Get m key =
     (if mem_closed m then Inl ErrStoreCorrupted
      else let idx = search m key in
        if idx < length (entries m) \<and> fst (entries m ! idx) = key
        then Inr (Some (snd (entries m ! idx)))
        else Inr None)"

text \<open>Overwriting an entry in place, or shifting the tail and writing the new entry at the
  insertion point.\<close>

definition put_entry :: "MemoryStore \<Rightarrow> string \<Rightarrow> bytes \<Rightarrow> MemoryStore" where
  "put_entry m k v =
     (let idx = search m k in
      if idx < length (entries m) \<and> fst (entries m ! idx) = k
      then m\<lparr>entries := (entries m)[idx := (k, v)]\<rparr>
      else m\<lparr>entries := take idx (entries m) @ (k, v) # drop idx (entries m)\<rparr>)"

definition memory_Set :: "MemoryStore \<Rightarrow> string \<Rightarrow> bytes \<Rightarrow> coord_error option \<times> MemoryStore" where
  "memory_Set m key v =
     (if mem_closed m then (Some ErrStoreCorrupted, m) else (None, put_entry m key v))"

definition memory_Delete :: "MemoryStore \<Rightarrow> string \<Rightarrow> coord_error option \<times> MemoryStore" where
  "memory_Delete m key =
     (if mem_closed m then (Some ErrStoreCorrupted, m)
      else let idx = search m key in
        if idx < length (entries m) \<and> fst (entries m ! idx) = key
        then (None, m\<lparr>entries := take idx (entries m) @ drop (idx + 1) (entries m)\<rparr>)
        else (None, m))"

primrec batch_loop :: "kvEntry list \<Rightarrow> MemoryStore \<Rightarrow> MemoryStore" where
  "batch_loop [] m = m"
| "batch_loop (kv # batch) m = batch_loop batch (put_entry m (fst kv) (snd kv))"

definition memory_WriteBatch :: "MemoryStore \<Rightarrow> kvEntry list \<Rightarrow> coord_error option \<times> MemoryStore" where
  "memory_WriteBatch m batch =
     (if mem_closed m then (Some ErrStoreCorrupted, m) else (None, batch_loop batch m))"

primrec prefix_loop :: "(string \<Rightarrow> bytes \<Rightarrow> 'a \<Rightarrow> 'a \<times> bool) \<Rightarrow> string \<Rightarrow> 'a \<Rightarrow> kvEntry list \<Rightarrow> 'a" where
  "prefix_loop fn p acc [] = acc"
| "prefix_loop fn p acc (e # es) =
     (if \<not> HasPrefix (fst e) p then acc
      else case fn (fst e) (snd e) acc of
        (acc', False) \<Rightarrow> acc' | (acc', True) \<Rightarrow> prefix_loop fn p acc' es)"

definition memory_PrefixScan ::
  "MemoryStore \<Rightarrow> string \<Rightarrow> (string \<Rightarrow> bytes \<Rightarrow> 'a \<Rightarrow> 'a \<times> bool) \<Rightarrow> 'a \<Rightarrow> coord_error + 'a" where
  "memory_PrefixScan m p fn acc =
     (if mem_closed m then Inl ErrStoreCorrupted
      else Inr (prefix_loop fn p acc (drop (search m p) (entries m))))"

text \<open>A snapshot goes to the file system, a state of its own: \<open>MkdirAll\<close>, \<open>WriteFile\<close> and the JSON
  encoding of the entries are arguments.\<close>

definition memory_Snapshot ::
  "(string \<Rightarrow> 'f \<Rightarrow> coord_error option \<times> 'f) \<Rightarrow> (kvEntry list \<Rightarrow> coord_error + bytes)
     \<Rightarrow> (string \<Rightarrow> bytes \<Rightarrow> 'f \<Rightarrow> coord_error option \<times> 'f)
     \<Rightarrow> MemoryStore \<Rightarrow> string \<Rightarrow> 'f \<Rightarrow> coord_error option \<times> 'f" where
  "memory_Snapshot MkdirAll json_Marshal WriteFile m destDir fs =
     (if mem_closed m then (Some ErrStoreCorrupted, fs)
      else case MkdirAll destDir fs of
        (Some e, fs1) \<Rightarrow> (Some e, fs1)
      | (None, fs1) \<Rightarrow> (case json_Marshal (entries m) of
          Inl e \<Rightarrow> (Some e, fs1)
        | Inr data \<Rightarrow> WriteFile (destDir @ ''/snapshot.json'') data fs1))"

definition memory_Close :: "MemoryStore \<Rightarrow> coord_error option \<times> MemoryStore" where
  "memory_Close m = (None, m\<lparr>mem_closed := True, entries := []\<rparr>)"

definition memory_ops :: "MemoryStore MetadataStore" where
  "memory_ops = \<lparr>Get = memory_Get, Set = memory_Set, Delete = memory_Delete,
     WriteBatch = memory_WriteBatch,
     PrefixScan = (\<lambda>m p. memory_PrefixScan m p (\<lambda>k v acc. (acc @ [(k, v)], True)) []),
     Close = memory_Close\<rparr>"

section \<open>The leadership handle\<close>

text \<open>\<open>ctx_err\<close> says whether the context of the election grant is done.\<close>

record 's LeadershipStore =
  ctx_err :: bool
  backend :: 's
  ls_closed :: bool

definition OpenLeadershipStore ::
  "'s MetadataStore \<Rightarrow> bool \<Rightarrow> coord_error + 's \<Rightarrow> bool \<Rightarrow> (coord_error + 's LeadershipStore) \<times> 's option" where
  "OpenLeadershipStore ops revoked_before opened revoked_after =
     (if revoked_before then (Inl ErrContext, None)
      else case opened of
        Inl e \<Rightarrow> (Inl e, None)
      | Inr b \<Rightarrow>
          if revoked_after then (Inl ErrContext, Some (snd (Close ops b)))
          else (Inr \<lparr>ctx_err = False, backend = b, ls_closed = False\<rparr>, Some b))"

definition availableLocked :: "'s LeadershipStore \<Rightarrow> coord_error option" where
  "availableLocked s = (if ls_closed s \<or> ctx_err s then Some ErrNotLeader else None)"

definition leader_Get ::
  "'s MetadataStore \<Rightarrow> 's LeadershipStore \<Rightarrow> string \<Rightarrow> coord_error + bytes option" where
  "leader_Get ops s key =
     (case availableLocked s of Some e \<Rightarrow> Inl e | None \<Rightarrow> Get ops (backend s) key)"

definition guarded ::
  "('s \<Rightarrow> coord_error option \<times> 's) \<Rightarrow> 's LeadershipStore \<Rightarrow> coord_error option \<times> 's LeadershipStore" where
  "guarded f s =
     (case availableLocked s of
        Some e \<Rightarrow> (Some e, s)
      | None \<Rightarrow> (case f (backend s) of (e, b) \<Rightarrow> (e, s\<lparr>backend := b\<rparr>)))"

definition leader_Set ::
  "'s MetadataStore \<Rightarrow> 's LeadershipStore \<Rightarrow> string \<Rightarrow> bytes \<Rightarrow> coord_error option \<times> 's LeadershipStore" where
  "leader_Set ops s key v = guarded (\<lambda>b. Set ops b key v) s"

definition leader_Delete ::
  "'s MetadataStore \<Rightarrow> 's LeadershipStore \<Rightarrow> string \<Rightarrow> coord_error option \<times> 's LeadershipStore" where
  "leader_Delete ops s key = guarded (\<lambda>b. Delete ops b key) s"

definition leader_WriteBatch ::
  "'s MetadataStore \<Rightarrow> 's LeadershipStore \<Rightarrow> kvEntry list \<Rightarrow> coord_error option \<times> 's LeadershipStore" where
  "leader_WriteBatch ops s batch = guarded (\<lambda>b. WriteBatch ops b batch) s"

text \<open>The context may end while the scan runs: \<open>stop_at = Some n\<close> ends it after \<open>n\<close> callbacks. The
  callback is then not called again and the scan fails.\<close>

definition leader_PrefixScan ::
  "'s MetadataStore \<Rightarrow> 's LeadershipStore \<Rightarrow> nat option \<Rightarrow> string \<Rightarrow>
     (string \<Rightarrow> bytes \<Rightarrow> 'a \<Rightarrow> 'a \<times> bool) \<Rightarrow> 'a \<Rightarrow> 'a \<times> coord_error option" where
  "leader_PrefixScan ops s stop_at p fn acc =
     (case availableLocked s of
        Some e \<Rightarrow> (acc, Some e)
      | None \<Rightarrow> (case PrefixScan ops (backend s) p of
          Inl e \<Rightarrow> (acc, Some (if stop_at = None then e else ErrNotLeader))
        | Inr kvs \<Rightarrow> (case stop_at of
            None \<Rightarrow> (scan fn acc kvs, None)
          | Some n \<Rightarrow> (scan fn acc (take n kvs), Some ErrNotLeader))))"

text \<open>\<open>snapshot\<close> is the operation of the store behind the handle.\<close>

definition leader_Snapshot ::
  "('s \<Rightarrow> string \<Rightarrow> 'f \<Rightarrow> coord_error option \<times> 'f) \<Rightarrow> 's LeadershipStore \<Rightarrow> string \<Rightarrow> 'f
     \<Rightarrow> coord_error option \<times> 'f" where
  "leader_Snapshot snapshot s destDir fs =
     (case availableLocked s of Some e \<Rightarrow> (Some e, fs) | None \<Rightarrow> snapshot (backend s) destDir fs)"

definition leader_Close ::
  "'s MetadataStore \<Rightarrow> 's LeadershipStore \<Rightarrow> coord_error option \<times> 's LeadershipStore" where
  "leader_Close ops s =
     (if ls_closed s then (None, s)
      else case Close ops (backend s) of (e, b) \<Rightarrow> (e, s\<lparr>ls_closed := True, backend := b\<rparr>))"

definition leader_ops :: "'s MetadataStore \<Rightarrow> 's LeadershipStore MetadataStore" where
  "leader_ops ops = \<lparr>Get = leader_Get ops, Set = leader_Set ops, Delete = leader_Delete ops,
     WriteBatch = leader_WriteBatch ops,
     PrefixScan = (\<lambda>s p. case leader_PrefixScan ops s None p (\<lambda>k v acc. (acc @ [(k, v)], True)) [] of
        (kvs, None) \<Rightarrow> Inr kvs | (_, Some e) \<Rightarrow> Inl e),
     Close = leader_Close ops\<rparr>"

section \<open>Sorted slices\<close>

lemma search_below:
  assumes "keys_ok (entries m)"
  shows "search m k = length (below k (entries m))"
  unfolding search_def slice_search_def [symmetric] by (rule slice_search_below) (rule assms)

lemma found_iff:
  assumes "keys_ok (entries m)"
  shows "(search m k < length (entries m) \<and> fst (entries m ! search m k) = k)
    \<longleftrightarrow> (\<exists>v r. from_key k (entries m) = (k, v) # r)"
proof -
  have "entries m ! search m k = hd (from_key k (entries m))" if "search m k < length (entries m)"
    using that by (metis assms drop_below hd_drop_conv_nth search_below)
  moreover have "search m k < length (entries m) \<longleftrightarrow> from_key k (entries m) \<noteq> []"
    by (metis assms drop_below drop_eq_Nil not_le search_below)
  ultimately show ?thesis
    by (cases "from_key k (entries m)") (auto simp del: dropWhile_eq_Nil_conv)
qed

lemma nth_search:
  assumes "keys_ok (entries m)" "from_key k (entries m) = e # r"
  shows "entries m ! search m k = e"
proof -
  have "drop (search m k) (entries m) = e # r"
    using assms by (simp add: search_below drop_below)
  then show ?thesis by (metis nth_via_drop)
qed

text \<open>What the slice holds after an insertion and after a deletion.\<close>

lemma put_entry_entries:
  assumes "keys_ok (entries m)"
  shows "keys_ok (entries (put_entry m k v)) \<and> map_of (entries (put_entry m k v)) = (map_of (entries m))(k \<mapsto> v)"
proof (rule split_sorted [OF assms, of k])
  fix b f
  assume es: "entries m = b @ f" and b: "below k (entries m) = b" and f: "from_key k (entries m) = f"
    and ok: "keys_ok b" "keys_ok f" and lt: "\<forall>x \<in> set b. fst x < k" and ge: "\<forall>x \<in> set f. k \<le> fst x"
    and cross: "\<forall>x \<in> set b. \<forall>y \<in> set f. fst x < fst y"
  show ?thesis
  proof (cases "\<exists>v0 r. f = (k, v0) # r")
    case True
    then obtain v0 r where r: "f = (k, v0) # r" by blast
    have "put_entry m k v = m\<lparr>entries := (entries m)[search m k := (k, v)]\<rparr>"
      unfolding put_entry_def Let_def found_iff [OF assms] f by (rule if_P) (rule True)
    then have "put_entry m k v = m\<lparr>entries := (b @ f)[length b := (k, v)]\<rparr>"
      unfolding search_below [OF assms] b unfolding es .
    then have "entries (put_entry m k v) = b @ (k, v) # r"
      by (simp add: r list_update_append)
    moreover have "map_of (b @ (k, v) # r) = (map_of (b @ (k, v0) # r))(k \<mapsto> v)"
      using lt by (auto simp: map_add_def fun_eq_iff map_of_None_below split: option.split)
    ultimately show ?thesis
      using ok cross lt unfolding es r by (simp add: keys_ok_append keys_ok_Cons)
  next
    case False
    have gt: "\<forall>x \<in> set f. k < fst x"
      using False ge ok(2) by (cases f) (force simp: keys_ok_Cons le_less)+
    have "put_entry m k v = m\<lparr>entries := take (search m k) (entries m) @ (k, v) # drop (search m k) (entries m)\<rparr>"
      unfolding put_entry_def Let_def found_iff [OF assms] f by (rule if_not_P) (rule False)
    then have "put_entry m k v = m\<lparr>entries := b @ (k, v) # f\<rparr>"
      unfolding search_below [OF assms] b unfolding es by simp
    moreover have "map_of (b @ (k, v) # f) = (map_of (b @ f))(k \<mapsto> v)"
      using lt by (auto simp: map_add_def fun_eq_iff map_of_None_below split: option.split)
    ultimately show ?thesis
      using ok gt lt cross unfolding es by (simp add: keys_ok_append keys_ok_Cons)
  qed
qed

lemma put_entry_closed [simp]: "mem_closed (put_entry m k v) = mem_closed m"
  by (simp add: put_entry_def Let_def)

lemma delete_entries:
  assumes "keys_ok (entries m)" "\<not> mem_closed m"
  shows "fst (memory_Delete m k) = None \<and> keys_ok (entries (snd (memory_Delete m k)))
    \<and> map_of (entries (snd (memory_Delete m k))) = (map_of (entries m))(k := None)
    \<and> \<not> mem_closed (snd (memory_Delete m k))"
proof (rule split_sorted [OF assms(1), of k])
  fix b f
  assume es: "entries m = b @ f" and b: "below k (entries m) = b" and f: "from_key k (entries m) = f"
    and ok: "keys_ok b" "keys_ok f" and lt: "\<forall>x \<in> set b. fst x < k" and ge: "\<forall>x \<in> set f. k \<le> fst x"
    and cross: "\<forall>x \<in> set b. \<forall>y \<in> set f. fst x < fst y"
  show ?thesis
  proof (cases "\<exists>v0 r. f = (k, v0) # r")
    case True
    then obtain v0 r where r: "f = (k, v0) # r" by blast
    have "memory_Delete m k = (None, m\<lparr>entries := b @ r\<rparr>)"
      using found_iff [OF assms(1), of k] True assms(2) unfolding memory_Delete_def Let_def f
      by (simp add: search_below [OF assms(1)] b) (simp add: es r)
    moreover have gt: "\<forall>x \<in> set r. k < fst x"
      using ok(2) unfolding r by (simp add: keys_ok_Cons)
    moreover have "map_of (b @ r) = (map_of (b @ (k, v0) # r))(k := None)"
      using lt gt by (auto simp: map_add_def fun_eq_iff map_of_None_below map_of_None_above split: option.split)
    ultimately show ?thesis
      using ok cross assms(2) unfolding es r by (simp add: keys_ok_append keys_ok_Cons)
  next
    case False
    have gt: "\<forall>x \<in> set f. k < fst x"
      using False ge ok(2) by (cases f) (force simp: keys_ok_Cons le_less)+
    have "memory_Delete m k = (None, m)"
      unfolding memory_Delete_def Let_def found_iff [OF assms(1)] f if_not_P [OF False]
      using assms(2) by simp
    moreover have "map_of (b @ f) = (map_of (b @ f))(k := None)"
      using lt gt by (auto simp: map_add_def fun_eq_iff map_of_None_below map_of_None_above split: option.split)
    ultimately show ?thesis
      using assms es by simp
  qed
qed

lemma memory_Get_spec:
  assumes "keys_ok (entries m)" "\<not> mem_closed m"
  shows "memory_Get m k = Inr (map_of (entries m) k)"
proof (cases "from_key k (entries m)")
  case Nil
  then show ?thesis
    using found_iff [OF assms(1), of k] assms(2) unfolding memory_Get_def Let_def from_key_hd [OF assms(1)]
    by (simp del: dropWhile_eq_Nil_conv)
next
  case (Cons e r)
  then show ?thesis
    using found_iff [OF assms(1), of k] assms(2)
    unfolding memory_Get_def Let_def from_key_hd [OF assms(1)] nth_search [OF assms(1) Cons]
    by (cases e) (auto simp del: dropWhile_eq_Nil_conv)
qed

lemma batch_loop_entries:
  assumes "keys_ok (entries m)"
  shows "keys_ok (entries (batch_loop batch m))
    \<and> map_of (entries (batch_loop batch m)) = map_of (entries m) ++ map_of (rev batch)
    \<and> mem_closed (batch_loop batch m) = mem_closed m"
  using assms
proof (induction batch arbitrary: m)
  case (Cons kv batch)
  show ?case
    using Cons.IH [of "put_entry m (fst kv) (snd kv)"] put_entry_entries [OF Cons.prems]
    by (simp add: map_add_def fun_eq_iff split: option.splits)
qed simp

section \<open>Prefix scans\<close>

lemma prefix_loop_scan: "prefix_loop fn p acc es = scan fn acc (takeWhile (\<lambda>e. HasPrefix (fst e) p) es)"
  by (induction es arbitrary: acc) (auto split: prod.split bool.split)

lemma scan_collect: "scan (\<lambda>k v acc. (acc @ [(k, v)], True)) acc kvs = acc @ kvs"
  by (induction kvs arbitrary: acc) auto

text \<open>The loop of the scan visits exactly the entries under the prefix, in key order, until the
  callback stops it.\<close>

lemma memory_PrefixScan_spec:
  assumes "keys_ok (entries m)" "\<not> mem_closed m"
  shows "memory_PrefixScan m p fn acc = Inr (scan fn acc (filter (\<lambda>e. HasPrefix (fst e) p) (entries m)))"
  using assms
  by (simp add: memory_PrefixScan_def prefix_loop_scan search_below drop_below prefix_scan_filter)

section \<open>What the interface promises\<close>

text \<open>A store holds a partial map. A write that succeeds changes exactly the keys it names and a
  write that fails changes nothing, so a batch is atomic. A scan returns the pairs under the
  prefix in strictly ascending key order.\<close>

locale metadata_store =
  fixes ops :: "'s MetadataStore" and contents :: "'s \<Rightarrow> string \<Rightarrow> bytes option" and inv :: "'s \<Rightarrow> bool"
  assumes get: "inv s \<Longrightarrow> Get ops s k = Inr r \<Longrightarrow> r = contents s k"
    and set: "inv s \<Longrightarrow> Set ops s k v = (e, s') \<Longrightarrow>
      inv s' \<and> contents s' = (if e = None then (contents s)(k \<mapsto> v) else contents s)"
    and delete: "inv s \<Longrightarrow> Delete ops s k = (e, s') \<Longrightarrow>
      inv s' \<and> contents s' = (if e = None then (contents s)(k := None) else contents s)"
    and batch: "inv s \<Longrightarrow> WriteBatch ops s kvs = (e, s') \<Longrightarrow>
      inv s' \<and> contents s' = (if e = None then contents s ++ map_of (rev kvs) else contents s)"
    and prefix_scan: "inv s \<Longrightarrow> PrefixScan ops s p = Inr kvs \<Longrightarrow>
      keys_ok kvs \<and> map_of kvs = (\<lambda>k. if HasPrefix k p then contents s k else None)"
begin

lemma get_after_set:
  "inv s \<Longrightarrow> Set ops s k v = (None, s') \<Longrightarrow> Get ops s' k' = Inr r \<Longrightarrow>
     r = (if k' = k then Some v else contents s k')"
  using get set by fastforce

lemma failed_set: "inv s \<Longrightarrow> Set ops s k v = (Some e, s') \<Longrightarrow> inv s' \<and> contents s' = contents s"
  using set by fastforce

lemma scan_pairs:
  assumes "inv s" "PrefixScan ops s p = Inr kvs"
  shows "(k, v) \<in> set kvs \<longleftrightarrow> HasPrefix k p \<and> contents s k = Some v"
proof -
  have "distinct (map fst kvs)" using prefix_scan [OF assms] by (simp add: keys_ok_def)
  then have "(k, v) \<in> set kvs \<longleftrightarrow> map_of kvs k = Some v" by (simp add: map_of_eq_Some_iff)
  then show ?thesis using prefix_scan [OF assms] by (simp split: if_splits)
qed

text \<open>A leadership handle over a store is again a store.\<close>

lemma guarded_law:
  assumes "\<And>e b. f (backend s) = (e, b) \<Longrightarrow> inv b \<and> contents b = (if e = None then g (contents (backend s)) else contents (backend s))"
    and "inv (backend s)" "guarded f s = (e, s')"
  shows "inv (backend s') \<and> contents (backend s') = (if e = None then g (contents (backend s)) else contents (backend s))"
  using assms(2,3) assms(1) [of "fst (f (backend s))" "snd (f (backend s))"]
  by (auto simp: guarded_def availableLocked_def split: if_splits prod.splits)

lemma leader_is_store: "metadata_store (leader_ops ops) (\<lambda>s. contents (backend s)) (\<lambda>s. inv (backend s))"
proof
  fix s k v
  show "inv (backend s) \<Longrightarrow> Get (leader_ops ops) s k = Inr v \<Longrightarrow> v = contents (backend s) k"
    by (auto simp: leader_ops_def leader_Get_def availableLocked_def get split: if_splits)
next
  fix s k v e s'
  show "inv (backend s) \<Longrightarrow> Set (leader_ops ops) s k v = (e, s') \<Longrightarrow>
      inv (backend s') \<and> contents (backend s') = (if e = None then (contents (backend s))(k \<mapsto> v) else contents (backend s))"
    by (rule guarded_law [where f = "\<lambda>b. Set ops b k v" and g = "\<lambda>c. c(k \<mapsto> v)"])
      (simp_all add: leader_ops_def leader_Set_def set)
next
  fix s k e s'
  show "inv (backend s) \<Longrightarrow> Delete (leader_ops ops) s k = (e, s') \<Longrightarrow>
      inv (backend s') \<and> contents (backend s') = (if e = None then (contents (backend s))(k := None) else contents (backend s))"
    by (rule guarded_law [where f = "\<lambda>b. Delete ops b k" and g = "\<lambda>c. c(k := None)"])
      (simp_all add: leader_ops_def leader_Delete_def delete)
next
  fix s kvs e s'
  show "inv (backend s) \<Longrightarrow> WriteBatch (leader_ops ops) s kvs = (e, s') \<Longrightarrow>
      inv (backend s') \<and> contents (backend s') = (if e = None then contents (backend s) ++ map_of (rev kvs) else contents (backend s))"
    by (rule guarded_law [where f = "\<lambda>b. WriteBatch ops b kvs" and g = "\<lambda>c. c ++ map_of (rev kvs)"])
      (simp_all add: leader_ops_def leader_WriteBatch_def batch)
next
  fix s p kvs
  show "inv (backend s) \<Longrightarrow> PrefixScan (leader_ops ops) s p = Inr kvs \<Longrightarrow>
      keys_ok kvs \<and> map_of kvs = (\<lambda>k. if HasPrefix k p then contents (backend s) k else None)"
    by (drule prefix_scan [of "backend s" p kvs])
      (auto simp: leader_ops_def leader_PrefixScan_def availableLocked_def scan_collect split: if_splits sum.splits)
qed

end

interpretation memory: metadata_store memory_ops "\<lambda>m. map_of (entries m)" "\<lambda>m. keys_ok (entries m)"
proof
  fix s k v
  show "keys_ok (entries s) \<Longrightarrow> Get memory_ops s k = Inr v \<Longrightarrow> v = map_of (entries s) k"
    by (cases "mem_closed s") (auto simp: memory_ops_def memory_Get_spec, simp add: memory_Get_def)
next
  fix s k v e s'
  show "keys_ok (entries s) \<Longrightarrow> Set memory_ops s k v = (e, s') \<Longrightarrow>
      keys_ok (entries s') \<and> map_of (entries s') = (if e = None then (map_of (entries s))(k \<mapsto> v) else map_of (entries s))"
    using put_entry_entries [of s k v] by (auto simp: memory_ops_def memory_Set_def split: if_splits)
next
  fix s k e s'
  show "keys_ok (entries s) \<Longrightarrow> Delete memory_ops s k = (e, s') \<Longrightarrow>
      keys_ok (entries s') \<and> map_of (entries s') = (if e = None then (map_of (entries s))(k := None) else map_of (entries s))"
    using delete_entries [of s k] by (cases "mem_closed s") (auto simp: memory_ops_def, simp_all add: memory_Delete_def)
next
  fix s kvs e s'
  show "keys_ok (entries s) \<Longrightarrow> WriteBatch memory_ops s kvs = (e, s') \<Longrightarrow>
      keys_ok (entries s') \<and> map_of (entries s') = (if e = None then map_of (entries s) ++ map_of (rev kvs) else map_of (entries s))"
    using batch_loop_entries [of s kvs] by (auto simp: memory_ops_def memory_WriteBatch_def split: if_splits)
next
  fix s p kvs
  show "keys_ok (entries s) \<Longrightarrow> PrefixScan memory_ops s p = Inr kvs \<Longrightarrow>
      keys_ok kvs \<and> map_of kvs = (\<lambda>k. if HasPrefix k p then map_of (entries s) k else None)"
    by (cases "mem_closed s")
      (auto simp: memory_ops_def memory_PrefixScan_spec scan_collect keys_ok_filter
         map_of_filter_keys [where P = "\<lambda>k. HasPrefix k p"], simp_all add: memory_PrefixScan_def)
qed

interpretation leadership: metadata_store "leader_ops memory_ops"
  "\<lambda>s. map_of (entries (backend s))" "\<lambda>s. keys_ok (entries (backend s))"
  by (rule memory.leader_is_store)

section \<open>Properties\<close>

text \<open>The writes of a client, and the partial map they describe.\<close>

datatype store_write = WSet string bytes | WDelete string | WBatch "kvEntry list"

primrec apply_write :: "'s MetadataStore \<Rightarrow> store_write \<Rightarrow> 's \<Rightarrow> coord_error option \<times> 's" where
  "apply_write ops (WSet k v) s = Set ops s k v"
| "apply_write ops (WDelete k) s = Delete ops s k"
| "apply_write ops (WBatch kvs) s = WriteBatch ops s kvs"

primrec abstract_write :: "store_write \<Rightarrow> (string \<Rightarrow> bytes option) \<Rightarrow> string \<Rightarrow> bytes option" where
  "abstract_write (WSet k v) c = c(k \<mapsto> v)"
| "abstract_write (WDelete k) c = c(k := None)"
| "abstract_write (WBatch kvs) c = c ++ map_of (rev kvs)"

primrec run_writes :: "'s MetadataStore \<Rightarrow> store_write list \<Rightarrow> 's \<Rightarrow> 's" where
  "run_writes ops [] s = s"
| "run_writes ops (w # ws) s = run_writes ops ws (snd (apply_write ops w s))"

lemma apply_write_memory:
  assumes "keys_ok (entries m)" "\<not> mem_closed m"
  shows "keys_ok (entries (snd (apply_write memory_ops w m))) \<and> \<not> mem_closed (snd (apply_write memory_ops w m))
    \<and> map_of (entries (snd (apply_write memory_ops w m))) = abstract_write w (map_of (entries m))"
proof (cases w)
  case (WSet k v)
  then show ?thesis
    using put_entry_entries [OF assms(1), of k v] assms(2) by (simp add: memory_ops_def memory_Set_def)
next
  case (WDelete k)
  then show ?thesis using delete_entries [OF assms, of k] by (simp add: memory_ops_def)
next
  case (WBatch kvs)
  then show ?thesis
    using batch_loop_entries [OF assms(1), of kvs] assms(2) by (simp add: memory_ops_def memory_WriteBatch_def)
qed

lemma run_writes_memory:
  assumes "keys_ok (entries m)" "\<not> mem_closed m"
  shows "keys_ok (entries (run_writes memory_ops ws m)) \<and> \<not> mem_closed (run_writes memory_ops ws m)
    \<and> map_of (entries (run_writes memory_ops ws m)) = fold abstract_write ws (map_of (entries m))"
  using assms
proof (induction ws arbitrary: m)
  case (Cons w ws)
  show ?case
    using Cons.IH [of "snd (apply_write memory_ops w m)"] apply_write_memory [OF Cons.prems, of w] by simp
qed simp

text \<open>C32. The in-memory store is a partial map. After any sequence of writes a read returns
  what the map described by the writes holds at the key, and a prefix scan runs its callback over
  exactly the pairs of the map under the prefix, in strictly ascending key order, until the
  callback stops it.\<close>

theorem memory_store_refines_map:
  fixes ws :: "store_write list"
  defines "m \<equiv> run_writes memory_ops ws NewMemoryStore"
    and "c \<equiv> fold abstract_write ws Map.empty"
  shows "memory_Get m k = Inr (c k)
    \<and> (\<exists>kvs. memory_PrefixScan m p fn acc = Inr (scan fn acc kvs)
        \<and> sorted_wrt (<) (map fst kvs) \<and> map_of kvs = (\<lambda>k. if HasPrefix k p then c k else None))"
proof -
  have ok: "keys_ok (entries m)" "\<not> mem_closed m" and c: "map_of (entries m) = c"
    using run_writes_memory [of NewMemoryStore ws]
    by (simp_all add: NewMemoryStore_def m_def c_def keys_ok_def)
  show ?thesis
    unfolding memory_Get_spec [OF ok] memory_PrefixScan_spec [OF ok] c
    using keys_ok_filter [OF ok(1)] map_of_filter_keys [of "\<lambda>k. HasPrefix k p" "entries m"]
    unfolding keys_ok_strict c by blast
qed

text \<open>What can happen to a leadership handle: a write of its holder, the end of its election grant, and
  its closing. Reads, scans and snapshots leave the handle as it is. An operation runs under the
  handle's lock from its check to its return, so one that was admitted before the grant ended counts
  as a step before that end.\<close>

inductive handle_step :: "'s MetadataStore \<Rightarrow> 's LeadershipStore \<Rightarrow> 's LeadershipStore \<Rightarrow> bool" for ops where
  "handle_step ops s (snd (apply_write (leader_ops ops) w s))"
| "handle_step ops s (s\<lparr>ctx_err := True\<rparr>)"
| "handle_step ops s (snd (leader_Close ops s))"

lemma revoked_step:
  assumes "handle_step ops s s'" "availableLocked s \<noteq> None"
  shows "availableLocked s' \<noteq> None \<and> (ls_closed s \<longrightarrow> ls_closed s' \<and> backend s' = backend s)
    \<and> (\<not> ls_closed s \<longrightarrow> backend s' = backend s \<and> \<not> ls_closed s'
        \<or> ls_closed s' \<and> backend s' = snd (Close ops (backend s)))"
  using assms
proof cases
  case (1 w)
  then have "s' = s"
    using assms(2)
    by (cases w) (auto simp: leader_ops_def leader_Set_def leader_Delete_def leader_WriteBatch_def guarded_def)
  then show ?thesis using assms(2) by auto
next
  case 2
  then show ?thesis by (simp add: availableLocked_def)
next
  case 3
  then show ?thesis using assms(2)
    by (auto simp: leader_Close_def availableLocked_def split: prod.split)
qed

lemma revoked_steps:
  assumes "(handle_step ops)\<^sup>*\<^sup>* s s'" "availableLocked s \<noteq> None"
  shows "availableLocked s' \<noteq> None \<and> (ls_closed s \<longrightarrow> ls_closed s' \<and> backend s' = backend s)
    \<and> (\<not> ls_closed s \<longrightarrow> backend s' = backend s \<and> \<not> ls_closed s'
        \<or> ls_closed s' \<and> backend s' = snd (Close ops (backend s)))"
  using assms(1)
proof (induction rule: rtranclp_induct)
  case (step s1 s2)
  then show ?case using revoked_step [of ops s1 s2] by (cases "ls_closed s1") auto
qed (use assms(2) in auto)

text \<open>C22. A leadership handle whose grant has ended, or which has been closed, never becomes
  usable again: whatever its holder does afterwards, every read, write, batch, prefix scan and snapshot
  fails with \<open>ErrNotLeader\<close>, no callback of a scan runs, no file is written, and the store behind the
  handle is untouched but for the one close.\<close>

theorem revoked_handle_never_writes:
  assumes "(handle_step ops)\<^sup>*\<^sup>* s s'" "ctx_err s \<or> ls_closed s"
  shows "leader_Get ops s' k = Inl ErrNotLeader \<and> apply_write (leader_ops ops) w s' = (Some ErrNotLeader, s')
    \<and> leader_PrefixScan ops s' stop_at p fn acc = (acc, Some ErrNotLeader)
    \<and> leader_Snapshot snapshot s' destDir fs = (Some ErrNotLeader, fs)
    \<and> backend s' \<in> {backend s, snd (Close ops (backend s))} \<and> (ls_closed s \<longrightarrow> backend s' = backend s)"
proof -
  have r: "availableLocked s' \<noteq> None" "ls_closed s \<longrightarrow> backend s' = backend s"
    "backend s' \<in> {backend s, snd (Close ops (backend s))}"
    using revoked_steps [OF assms(1)] assms(2) by (auto simp: availableLocked_def)
  then have a: "availableLocked s' = Some ErrNotLeader" by (auto simp: availableLocked_def split: if_splits)
  have "apply_write (leader_ops ops) w s' = (Some ErrNotLeader, s')"
    by (cases w) (simp_all add: leader_ops_def leader_Set_def leader_Delete_def leader_WriteBatch_def guarded_def a)
  then show ?thesis using r a by (simp add: leader_Get_def leader_PrefixScan_def leader_Snapshot_def)
qed

definition example_handle :: "MemoryStore LeadershipStore" where
  "example_handle = \<lparr>ctx_err = True, backend = put_entry NewMemoryStore ''jobs/a/meta'' [1], ls_closed = False\<rparr>"

theorem revoked_handle_never_writes_witness:
  "leader_Get memory_ops (snd (leader_Close memory_ops example_handle)) ''jobs/a/meta'' = Inl ErrNotLeader
   \<and> apply_write (leader_ops memory_ops) (WSet ''k'' [2]) example_handle = (Some ErrNotLeader, example_handle)
   \<and> leader_PrefixScan memory_ops example_handle None ''jobs/'' (\<lambda>k v n. (n + 1, True)) (0 :: nat)
       = (0, Some ErrNotLeader)
   \<and> leader_Snapshot (memory_Snapshot (\<lambda>_ fs. (None, fs)) (\<lambda>_. Inr []) (\<lambda>f d fs. (None, (f, d) # fs)))
       example_handle ''backup'' [] = (Some ErrNotLeader, [])"
proof -
  have closed: "(handle_step memory_ops)\<^sup>*\<^sup>* example_handle (snd (leader_Close memory_ops example_handle))"
    by (rule r_into_rtranclp) (rule handle_step.intros(3))
  have revoked: "ctx_err example_handle \<or> ls_closed example_handle" by (simp add: example_handle_def)
  have get: "leader_Get memory_ops (snd (leader_Close memory_ops example_handle)) ''jobs/a/meta'' = Inl ErrNotLeader"
    by (rule conjunct1 [OF revoked_handle_never_writes [OF closed revoked]])
  show ?thesis
    using get revoked_handle_never_writes [OF rtranclp.rtrancl_refl revoked, of memory_ops "''k''" "WSet ''k'' [2]" None
        "''jobs/''" "\<lambda>k v n. (n + 1, True)" "0 :: nat"
        "memory_Snapshot (\<lambda>_ fs. (None, fs)) (\<lambda>_. Inr []) (\<lambda>f d fs. (None, (f, d) # fs))" "''backup''" "[]"]
    by (elim conjE) (intro conjI; assumption)
qed

end
