(* ===== verification/Coord_Types.thy ===== *)
theory Coord_Types
  imports Complex_Main Metadata_Store KeyGroup
begin

text \<open>The data of the coordinator (\<^verbatim>\<open>internal/coordinator/types.go\<close>), the messages of the
  control protocol it uses (\<^verbatim>\<open>internal/rpc/messages.go\<close>, \<^verbatim>\<open>watermark.go\<close>,
  \<^verbatim>\<open>error_policy.go\<close>) and the keys of its metadata (\<^verbatim>\<open>keys.go\<close>).

  A \<^verbatim>\<open>time.Time\<close> is the number of nanoseconds since the zero time, so the zero value is 0;
  a \<^verbatim>\<open>time.Duration\<close> is an \<open>int\<close> of nanoseconds. An enumeration over
  \<^verbatim>\<open>uint8\<close> that is read back from the store may hold any number, which the last constructor of
  its datatype stands for. Go maps are association lists.\<close>

section \<open>Time and numbers\<close>

type_synonym time = int

abbreviation IsZero :: "time \<Rightarrow> bool" where
  "IsZero t \<equiv> t = 0"

text \<open>\<^verbatim>\<open>Time.Sub\<close> saturates at the range of a duration.\<close>

definition Sub :: "time \<Rightarrow> time \<Rightarrow> int" where
  "Sub t u = max MinInt64 (min MaxInt64 (t - u))"

definition to_int32 :: "int \<Rightarrow> int" where
  "to_int32 x = (x + 2 ^ 31) mod 2 ^ 32 - 2 ^ 31"

text \<open>The verbs \<^verbatim>\<open>%d\<close> and \<^verbatim>\<open>%016x\<close> of \<^verbatim>\<open>fmt\<close>.\<close>

fun decimal :: "nat \<Rightarrow> string" where
  "decimal n = (if n < 10 then [char_of (48 + n)] else decimal (n div 10) @ [char_of (48 + n mod 10)])"

declare decimal.simps [simp del]

definition hex_digit :: "nat \<Rightarrow> char" where
  "hex_digit d = char_of (if d < 10 then 48 + d else 87 + d)"

primrec hex :: "nat \<Rightarrow> nat \<Rightarrow> string" where
  "hex 0 x = []"
| "hex (Suc n) x = hex_digit (x div 16 ^ n mod 16) # hex n x"

section \<open>Lifecycle states\<close>

datatype CoordinatorState = StateStandby | StateCandidate | StateLeader

datatype JobStatus =
    JobCreated | JobDeploying | JobRunning | JobFinishing | JobFinished | JobFailing | JobFailed
  | JobCanceling | JobCanceled | JobPaused | JobStatusOther nat

fun JobStatus_String :: "JobStatus \<Rightarrow> string" where
  "JobStatus_String JobCreated = ''CREATED''"
| "JobStatus_String JobDeploying = ''DEPLOYING''"
| "JobStatus_String JobRunning = ''RUNNING''"
| "JobStatus_String JobFinishing = ''FINISHING''"
| "JobStatus_String JobFinished = ''FINISHED''"
| "JobStatus_String JobFailing = ''FAILING''"
| "JobStatus_String JobFailed = ''FAILED''"
| "JobStatus_String JobCanceling = ''CANCELING''"
| "JobStatus_String JobCanceled = ''CANCELED''"
| "JobStatus_String JobPaused = ''PAUSED''"
| "JobStatus_String (JobStatusOther _) = ''UNKNOWN''"

definition IsTerminal :: "JobStatus \<Rightarrow> bool" where
  "IsTerminal s = (s = JobFinished \<or> s = JobFailed \<or> s = JobCanceled)"

datatype CheckpointStatus =
    CheckpointTriggered | CheckpointInProgress | CheckpointCompleted | CheckpointFailed
  | CheckpointAborted | CheckpointStatusOther nat

datatype SavepointStatus =
  SavepointInProgress | SavepointCompleted | SavepointFailed | SavepointStatusOther nat

datatype TaskStatus =
    TaskStatusUnknown | TaskStatusCreated | TaskStatusScheduled | TaskStatusDeploying
  | TaskStatusRunning | TaskStatusFinishing | TaskStatusCanceling | TaskStatusFailed
  | TaskStatusCanceled | TaskStatusRecovering | TaskStatusFinished | TaskStatusOther nat

datatype OperatorType =
    OperatorTypeUnknown | OperatorTypeSource | OperatorTypeMap | OperatorTypeFlatMap
  | OperatorTypeFilter | OperatorTypeKeyBy | OperatorTypeWindow | OperatorTypeReduce
  | OperatorTypeJoin | OperatorTypeProcess | OperatorTypeSink | OperatorTypeOther nat

datatype ShuffleStrategy =
    ShuffleStrategyUnknown | ShuffleStrategyForward | ShuffleStrategyHash
  | ShuffleStrategyBroadcast | ShuffleStrategyRebalance | ShuffleStrategyOther nat

datatype CheckpointType = CheckpointTypeUnknown | CheckpointTypePeriodic | CheckpointTypeSavepoint

datatype CommandType =
    CommandTypeNone | CommandTypeCancelJob | CommandTypeDeployTask | CommandTypeCancelTask
  | CommandTypeTakeSnapshot | CommandTypeUpdateConfig | CommandTypeAbortCheckpoint
  | CommandTypeCommitCheckpoint

section \<open>Job graphs and tasks\<close>

record WatermarkConfig =
  wmc_Strategy :: string
  wmc_MaxOOO :: "int option"
  wmc_EmitInterval :: int
  wmc_IdleTimeout :: int

definition WatermarkConfig_Validate :: "WatermarkConfig \<Rightarrow> bool" where
  "WatermarkConfig_Validate c =
     (wmc_Strategy c \<in> {''bounded-ooo'', ''monotonic'', ''ingestion-time''}
      \<and> \<not> ((case wmc_MaxOOO c of Some d \<Rightarrow> d < 0 | None \<Rightarrow> False)
            \<or> wmc_EmitInterval c < 0 \<or> wmc_IdleTimeout c < 0)
      \<and> \<not> (wmc_Strategy c \<noteq> ''bounded-ooo'' \<and> wmc_MaxOOO c \<noteq> None))"

record ErrorPolicy =
  ep_MaxRetries :: int
  ep_Backoff :: string
  ep_InitialDelayMS :: int
  ep_MaxDelayMS :: int
  ep_Multiplier :: float64
  ep_OnExhausted :: string

record DLQSinkDescriptor =
  dlq_ClassName :: string
  dlq_Config :: bytes

record OperatorDescriptor =
  op_Watermark :: "WatermarkConfig option"
  op_DLQSink :: "DLQSinkDescriptor option"
  op_ErrorPolicy :: "ErrorPolicy option"
  op_OperatorID :: string
  op_Name :: string
  op_Type :: OperatorType
  op_Parallelism :: int
  op_ClassName :: string
  op_Config :: bytes

record EdgeDescriptor =
  SourceOperatorID :: string
  TargetOperatorID :: string
  Shuffle :: ShuffleStrategy
  KeySelector :: string

record JobGraph =
  g_NumKeyGroups :: int
  Operators :: "OperatorDescriptor list"
  Edges :: "EdgeDescriptor list"

record rpc_KeyGroupRange =
  kg_Start :: int
  kg_End :: int

record CheckpointRestoreDescriptor =
  crd_ArchiveSHA256 :: string
  crd_ArchiveSize :: int
  crd_SourceTaskID :: string
  crd_CheckpointID :: u64
  crd_EpochID :: u64
  crd_ReplicaAddress :: string

record RescaleStatePart =
  rsp_ArchiveSHA256 :: string
  rsp_ArchiveSize :: int
  rsp_SourceTaskID :: string
  rsp_ReplicaAddress :: string
  rsp_Groups :: rpc_KeyGroupRange

record RescaleRestoreDescriptor =
  rrd_CheckpointID :: u64
  rrd_EpochID :: u64
  rrd_NumKeyGroups :: int
  rrd_Parts :: "RescaleStatePart list"

record UpstreamChannelInfo =
  up_IdleTimeout :: int
  up_TaskID :: string
  up_PartitionIndex :: u16
  up_OperatorID :: string
  up_SubtaskIndex :: int
  up_Address :: string

record DownstreamChannelInfo =
  dn_TaskID :: string
  dn_PartitionIndex :: u16
  dn_OperatorID :: string
  dn_SubtaskIndex :: int
  dn_Address :: string

record TaskDescriptor =
  td_DeploymentGeneration :: u64
  td_RestoreRescale :: "RescaleRestoreDescriptor option"
  td_OutputKeyGroups :: int
  td_NumKeyGroups :: int
  td_AttemptID :: string
  td_RestoreCheckpoint :: "CheckpointRestoreDescriptor option"
  td_CheckpointReplicaAddress :: string
  td_EpochID :: u64
  td_TaskID :: string
  td_OperatorID :: string
  td_SubtaskIndex :: int
  td_Parallelism :: int
  td_KeyGroup :: rpc_KeyGroupRange
  td_OperatorChain :: "OperatorDescriptor list"
  td_Upstream :: "UpstreamChannelInfo list"
  td_Downstream :: "DownstreamChannelInfo list"

section \<open>Persisted metadata\<close>

record RescaleRollback =
  rb_PlacementFailedSince :: time
  rb_Config :: bytes
  rb_Parallelism :: int
  rb_Checkpoint :: u64
  rb_Attempted :: bool

record JobMeta =
  DeploymentGeneration :: u64
  CheckpointOutcomes :: "bool list"
  CheckpointAttempts :: u64
  CheckpointFailures :: u64
  ConsecutiveCheckpointFailures :: int
  LastCheckpointCompletion :: time
  CheckpointFailure :: string
  job_RescaleRollback :: "RescaleRollback option"
  RescaleFailure :: string
  RescaleRequested :: bool
  RecoveryAttempts :: int
  RunningSince :: time
  RescaleCheckpoint :: u64
  job_ID :: string
  job_Name :: string
  job_Status :: JobStatus
  job_Parallelism :: int
  ConfigHash :: string
  CreatedAt :: time
  UpdatedAt :: time
  StartedAt :: time
  FinishedAt :: time
  RestartCount :: int
  LatestCheckpoint :: u64
  job_Config :: bytes
  SavepointPath :: string

record TaskAssignmentMap =
  RecoveryAttemptCharged :: bool
  RestoreCheckpoints :: "(string, CheckpointRestoreDescriptor) gomap"
  RescaleParts :: "(string, RescaleStatePart list) gomap"
  tam_TaskDescriptors :: "TaskDescriptor list"
  tam_EpochID :: u64
  tam_AttemptID :: string
  tam_Replicas :: "(string, string) gomap"
  tam_JobID :: string
  Assignments :: "(string, string) gomap"

record CheckpointMeta =
  cp_Final :: bool
  cp_AttemptID :: string
  InvalidReason :: string
  ManifestVersion :: int
  TaskManifests :: "(string, bytes) gomap"
  cp_TaskDescriptors :: "TaskDescriptor list"
  cp_NumKeyGroups :: int
  cp_SavepointID :: string
  cp_Replicas :: "(string, string) gomap"
  cp_EpochID :: u64
  cp_Tasks :: "(string, string) gomap"
  cp_ID :: u64
  cp_JobID :: string
  cp_Status :: CheckpointStatus
  Offsets :: "(string, int) gomap"
  StatePaths :: "(string, string) gomap"
  cp_Timestamp :: time

record SavepointMeta =
  sp_NumKeyGroups :: int
  sp_CheckpointID :: u64
  sp_EpochID :: u64
  sp_ID :: string
  sp_JobID :: string
  sp_Status :: SavepointStatus
  sp_Path :: string
  TriggerTime :: time
  CompletionTime :: time

text \<open>The RPC client of a worker is a connection; the model keeps its identity. The resource and
  task reports of heartbeats are only displayed and are not part of the model.\<close>

record WorkerMeta =
  Lost :: bool
  RPCPeerEpoch :: u64
  RPCClient :: "nat option"
  SupportsReservations :: bool
  CheckpointAddress :: string
  w_ID :: string
  w_Address :: string
  TaskSlotsTotal :: int
  TaskSlotsAvailable :: int
  LastHeartbeat :: time
  RunningTasks :: "string list"

record ClusterConfig =
  cc_CheckpointInterval :: int
  DefaultParallelism :: int

record WorkerCommand =
  wc_AttemptID :: string
  wc_EpochID :: u64
  wc_Type :: CommandType
  wc_JobID :: string
  wc_TaskID :: string
  wc_Data :: bytes

section \<open>Keys\<close>

abbreviation JobsPrefix :: string where "JobsPrefix \<equiv> ''jobs/''"
abbreviation WorkersPrefix :: string where "WorkersPrefix \<equiv> ''workers/''"

definition JobMetaKey :: "string \<Rightarrow> string" where
  "JobMetaKey jobID = ''jobs/'' @ jobID @ ''/meta''"

definition JobGraphKey :: "string \<Rightarrow> string" where
  "JobGraphKey jobID = ''jobs/'' @ jobID @ ''/graph''"

definition JobAssignmentsKey :: "string \<Rightarrow> string" where
  "JobAssignmentsKey jobID = ''jobs/'' @ jobID @ ''/assignments''"

definition CheckpointsPrefix :: "string \<Rightarrow> string" where
  "CheckpointsPrefix jobID = ''jobs/'' @ jobID @ ''/checkpoints/''"

definition CheckpointKey :: "string \<Rightarrow> u64 \<Rightarrow> string" where
  "CheckpointKey jobID cpID = ''jobs/'' @ jobID @ ''/checkpoints/'' @ hex 16 (unat cpID)"

definition LatestCheckpointKey :: "string \<Rightarrow> string" where
  "LatestCheckpointKey jobID = ''jobs/'' @ jobID @ ''/checkpoints/latest''"

definition CheckpointManifestKey :: "string \<Rightarrow> u64 \<Rightarrow> string" where
  "CheckpointManifestKey jobID cpID =
     ''jobs/'' @ jobID @ ''/checkpoints/chk-'' @ decimal (unat cpID) @ ''/metadata.json''"

definition WorkerMetaKey :: "string \<Rightarrow> string" where
  "WorkerMetaKey workerID = ''workers/'' @ workerID @ ''/meta''"

definition WorkerTasksKey :: "string \<Rightarrow> string" where
  "WorkerTasksKey workerID = ''workers/'' @ workerID @ ''/tasks''"

definition ClusterConfigKey :: string where
  "ClusterConfigKey = ''cluster/config''"

definition ClusterEpochKey :: string where
  "ClusterEpochKey = ''cluster/epoch''"

definition TaskStatusKey :: "string \<Rightarrow> string" where
  "TaskStatusKey taskID = ''tasks/'' @ taskID @ ''/status''"

definition ClusterLeaderKey :: string where
  "ClusterLeaderKey = ''cluster/leader''"

definition SavepointKey :: "string \<Rightarrow> string \<Rightarrow> string" where
  "SavepointKey jobID spID = ''jobs/'' @ jobID @ ''/savepoints/'' @ spID"

definition SavepointsPrefix :: "string \<Rightarrow> string" where
  "SavepointsPrefix jobID = ''jobs/'' @ jobID @ ''/savepoints/''"

definition JobConfigKey :: "string \<Rightarrow> string" where
  "JobConfigKey jobID = ''jobs/'' @ jobID @ ''/config''"

definition WorkerHeartbeatKey :: "string \<Rightarrow> string" where
  "WorkerHeartbeatKey workerID = ''workers/'' @ workerID @ ''/heartbeat''"

end
