(* ===== verification/Coordinator.thy ===== *)
theory Coordinator
  imports Coord_Types
begin

text \<open>The coordinator's state, its command queues and the lifecycle of jobs
  (\<^verbatim>\<open>internal/coordinator/coordinator.go\<close>, \<^verbatim>\<open>job_state_machine.go\<close>,
  \<^verbatim>\<open>job_manager.go\<close>, \<^verbatim>\<open>task_restart.go\<close>, \<^verbatim>\<open>slot_release.go\<close>,
  \<^verbatim>\<open>key_groups.go\<close>, \<^verbatim>\<open>watermark_config.go\<close>).

  The coordinator keeps pointers to its jobs and several of its routines copy a job, change the
  copy and publish it, so jobs live in cells: \<open>c_jobs\<close> maps a job ID to the address of its cell.
  Workers are only reached through their map and are kept by value. A critical section is one
  step; the sections of a routine that releases the lock are separate definitions. The current
  time is an argument. The msgpack codec is a third-party library: its encoders and decoders for
  the types of the coordinator are the record \<open>msgpack\<close>, an argument of the routines that use
  it. Log messages and metrics are not part of the model.\<close>

section \<open>The codec\<close>

record TriggerCheckpointRequest =
  tcr_Final :: bool
  tcr_AttemptID :: string
  tcr_JobID :: string
  tcr_CheckpointID :: u64
  tcr_EpochID :: u64
  tcr_Type :: CheckpointType
  tcr_Timestamp :: int

record msgpack =
  enc_job :: "JobMeta \<Rightarrow> bytes option"
  dec_job :: "bytes \<Rightarrow> JobMeta option"
  enc_worker :: "WorkerMeta \<Rightarrow> bytes option"
  dec_worker :: "bytes \<Rightarrow> WorkerMeta option"
  enc_cp :: "CheckpointMeta \<Rightarrow> bytes option"
  dec_cp :: "bytes \<Rightarrow> CheckpointMeta option"
  enc_sp :: "SavepointMeta \<Rightarrow> bytes option"
  dec_sp :: "bytes \<Rightarrow> SavepointMeta option"
  enc_tam :: "TaskAssignmentMap \<Rightarrow> bytes option"
  dec_tam :: "bytes \<Rightarrow> TaskAssignmentMap option"
  enc_graph :: "JobGraph \<Rightarrow> bytes option"
  dec_graph :: "bytes \<Rightarrow> JobGraph option"
  dec_task_list :: "bytes \<Rightarrow> string list option"
  dec_cluster :: "bytes \<Rightarrow> ClusterConfig option"
  enc_status :: "JobStatus \<Rightarrow> bytes option"
  enc_trigger :: "TriggerCheckpointRequest \<Rightarrow> bytes option"
  dec_trigger :: "bytes \<Rightarrow> TriggerCheckpointRequest option"
  enc_task :: "TaskDescriptor \<Rightarrow> bytes option"

text \<open>A missing value is a nil slice, which decodes as an empty one.\<close>

definition nil_bytes :: "bytes option \<Rightarrow> bytes" where
  "nil_bytes d = (case d of None \<Rightarrow> [] | Some b \<Rightarrow> b)"

section \<open>State\<close>

abbreviation Millisecond :: int where "Millisecond \<equiv> 1000000"
abbreviation Second :: int where "Second \<equiv> 1000 * Millisecond"
abbreviation Minute :: int where "Minute \<equiv> 60 * Second"

record CoordinatorConfig =
  NodeID :: string
  ListenAddr :: string
  HTTPAdvertiseAddr :: string
  HeartbeatFlushInterval :: int
  WorkerTimeout :: int
  HeartbeatInterval :: int
  CheckpointTimeout :: int
  CheckpointMinPause :: int
  CheckpointMaxConsecutiveFailures :: int
  CheckpointTolerableFailureRate :: rat
  RestartMaxAttempts :: int
  RestartBackoff :: int
  RestartResetAfter :: int

abbreviation DefaultHeartbeatInterval :: int where "DefaultHeartbeatInterval \<equiv> 5 * Second"

definition resolve :: "CoordinatorConfig \<Rightarrow> CoordinatorConfig" where
  "resolve c = c\<lparr>
     HTTPAdvertiseAddr := if HTTPAdvertiseAddr c = [] then ListenAddr c else HTTPAdvertiseAddr c,
     HeartbeatInterval := if HeartbeatInterval c \<le> 0 then DefaultHeartbeatInterval else HeartbeatInterval c,
     RestartResetAfter := if RestartResetAfter c \<le> 0 then Minute else RestartResetAfter c,
     RestartMaxAttempts := if RestartMaxAttempts c \<le> 0 then 3 else RestartMaxAttempts c,
     RestartBackoff := if RestartBackoff c \<le> 0 then Second else RestartBackoff c,
     CheckpointTimeout := if CheckpointTimeout c \<le> 0 then 10 * Minute else CheckpointTimeout c,
     HeartbeatFlushInterval := if HeartbeatFlushInterval c \<le> 0 then 30 * Second else HeartbeatFlushInterval c,
     WorkerTimeout := if WorkerTimeout c \<le> 0 then 30 * Second else WorkerTimeout c\<rparr>"

text \<open>A channel of commands: what is buffered and whether it has been closed.\<close>

record cmd_chan =
  buffered :: "WorkerCommand list"
  chan_closed :: bool

record 's Coordinator =
  c_state :: CoordinatorState
  c_epoch :: u64
  c_nodeID :: string
  c_config :: CoordinatorConfig
  c_store :: 's
  c_jobs :: "(string, nat) gomap"
  c_cells :: "nat \<Rightarrow> JobMeta"
  c_fresh :: nat
  c_workers :: "(string, WorkerMeta) gomap"
  activeCheckpoints :: "(string, CheckpointMeta) gomap"
  activeJobNames :: "(string, string) gomap"
  pendingCmds :: "(string, WorkerCommand list) gomap"
  cmdStreams :: "(string, nat) gomap"
  c_chans :: "cmd_chan list"
  schedulerKick :: bool
  taskStatuses :: "(string, TaskStatus) gomap"
  leaderCtx_err :: bool
  recoveryFenceUntil :: time
  recovered :: bool

definition zero_job :: JobMeta where
  "zero_job = \<lparr>DeploymentGeneration = 0, CheckpointOutcomes = [], CheckpointAttempts = 0,
     CheckpointFailures = 0, ConsecutiveCheckpointFailures = 0, LastCheckpointCompletion = 0,
     CheckpointFailure = [], job_RescaleRollback = None, RescaleFailure = [],
     RescaleRequested = False, RecoveryAttempts = 0, RunningSince = 0, RescaleCheckpoint = 0,
     job_ID = [], job_Name = [], job_Status = JobCreated, job_Parallelism = 0, ConfigHash = [],
     CreatedAt = 0, UpdatedAt = 0, StartedAt = 0, FinishedAt = 0, RestartCount = 0,
     LatestCheckpoint = 0, job_Config = [], SavepointPath = []\<rparr>"

definition New :: "CoordinatorConfig \<Rightarrow> 's \<Rightarrow> 's Coordinator" where
  "New cfg s =
     \<lparr>c_state = StateStandby, c_epoch = 0, c_nodeID = NodeID cfg, c_config = resolve cfg,
      c_store = s, c_jobs = [], c_cells = (\<lambda>_. zero_job), c_fresh = 0, c_workers = [],
      activeCheckpoints = [], activeJobNames = [], pendingCmds = [], cmdStreams = [],
      c_chans = [], schedulerKick = False, taskStatuses = [], leaderCtx_err = False,
      recoveryFenceUntil = 0, recovered = False\<rparr>"

definition job_of :: "'s Coordinator \<Rightarrow> string \<Rightarrow> JobMeta option" where
  "job_of c jobID = map_option (c_cells c) (map_of (c_jobs c) jobID)"

definition set_cell :: "nat \<Rightarrow> JobMeta \<Rightarrow> 's Coordinator \<Rightarrow> 's Coordinator" where
  "set_cell p j c = c\<lparr>c_cells := (c_cells c)(p := j)\<rparr>"

definition readyLocked :: "'s Coordinator \<Rightarrow> bool" where
  "readyLocked c = (c_state c = StateLeader \<and> recovered c \<and> \<not> leaderCtx_err c)"

definition ValidateEpoch :: "'s Coordinator \<Rightarrow> u64 \<Rightarrow> coord_error option" where
  "ValidateEpoch c workerEpoch = (if workerEpoch > c_epoch c then Some ErrStaleEpoch else None)"

section \<open>Commands\<close>

abbreviation bufSize :: nat where "bufSize \<equiv> 64"

definition enqueueCommandLocked :: "string \<Rightarrow> WorkerCommand \<Rightarrow> 's Coordinator \<Rightarrow> 's Coordinator" where
  "enqueueCommandLocked workerID cmd c =
     (case map_of (cmdStreams c) workerID of
        Some ch \<Rightarrow>
          if length (buffered (c_chans c ! ch)) < bufSize
          then c\<lparr>c_chans := (c_chans c)[ch := (c_chans c ! ch)\<lparr>buffered := buffered (c_chans c ! ch) @ [cmd]\<rparr>]\<rparr>
          else c\<lparr>pendingCmds := AList.update workerID (mget (pendingCmds c) workerID [] @ [cmd]) (pendingCmds c)\<rparr>
      | None \<Rightarrow>
          c\<lparr>pendingCmds := AList.update workerID (mget (pendingCmds c) workerID [] @ [cmd]) (pendingCmds c)\<rparr>)"

definition DrainCommands :: "string \<Rightarrow> 's Coordinator \<Rightarrow> WorkerCommand list \<times> 's Coordinator" where
  "DrainCommands workerID c =
     (let cmds = mget (pendingCmds c) workerID [] in
      (cmds, if cmds \<noteq> [] then c\<lparr>pendingCmds := AList.delete workerID (pendingCmds c)\<rparr> else c))"

text \<open>A new stream closes the stream it replaces and takes over the backlog as far as its buffer
  holds it; the rest is queued again.\<close>

definition RegisterCommandStream :: "string \<Rightarrow> 's Coordinator \<Rightarrow> nat \<times> 's Coordinator" where
  "RegisterCommandStream workerID c =
     (let chans = (case map_of (cmdStreams c) workerID of
                     Some old \<Rightarrow> (c_chans c)[old := (c_chans c ! old)\<lparr>chan_closed := True\<rparr>]
                   | None \<Rightarrow> c_chans c);
          ch = length chans;
          backlog = mget (pendingCmds c) workerID [];
          rest = drop bufSize backlog
      in (ch, c\<lparr>
            c_chans := chans @ [\<lparr>buffered = take bufSize backlog, chan_closed = False\<rparr>],
            cmdStreams := AList.update workerID ch (cmdStreams c),
            pendingCmds := (if rest = [] then AList.delete workerID (pendingCmds c)
                            else AList.update workerID rest (AList.delete workerID (pendingCmds c)))\<rparr>))"

definition CloseCommandStream :: "string \<Rightarrow> nat \<Rightarrow> 's Coordinator \<Rightarrow> 's Coordinator" where
  "CloseCommandStream workerID ch c =
     (if map_of (cmdStreams c) workerID = Some ch
      then c\<lparr>cmdStreams := AList.delete workerID (cmdStreams c),
             c_chans := (c_chans c)[ch := (c_chans c ! ch)\<lparr>chan_closed := True\<rparr>]\<rparr>
      else c)"

text \<open>One receive of the handler that pushes commands: it takes the oldest buffered command, ends
  when the channel is closed and drained, and blocks on an open empty channel. A command whose
  encoding or write fails has left the buffer.\<close>

datatype watch_event = Deliver WorkerCommand | StreamEnd | Blocked

definition WatchCommands_receive :: "nat \<Rightarrow> 's Coordinator \<Rightarrow> watch_event \<times> 's Coordinator" where
  "WatchCommands_receive ch c =
     (case buffered (c_chans c ! ch) of
        cmd # rest \<Rightarrow> (Deliver cmd, c\<lparr>c_chans := (c_chans c)[ch := (c_chans c ! ch)\<lparr>buffered := rest\<rparr>]\<rparr>)
      | [] \<Rightarrow> (if chan_closed (c_chans c ! ch) then StreamEnd else Blocked, c))"

section \<open>Persisting jobs and workers\<close>

definition persistJobLocked ::
  "msgpack \<Rightarrow> 's MetadataStore \<Rightarrow> nat \<Rightarrow> 's Coordinator \<Rightarrow> coord_error option \<times> 's Coordinator" where
  "persistJobLocked mp ops p c =
     (let job = c_cells c p in
      case enc_job mp job of
        None \<Rightarrow> (Some ErrOther, c)
      | Some data \<Rightarrow>
          (case Set ops (c_store c) (JobMetaKey (job_ID job)) data of
             (Some e, s) \<Rightarrow> (Some e, c\<lparr>c_store := s\<rparr>)
           | (None, s) \<Rightarrow> (None, c\<lparr>c_store := s, c_jobs := AList.update (job_ID job) p (c_jobs c)\<rparr>)))"

text \<open>Persisting a changed copy of a job: the copy gets a cell of its own.\<close>

definition persist_copy ::
  "msgpack \<Rightarrow> 's MetadataStore \<Rightarrow> JobMeta \<Rightarrow> 's Coordinator \<Rightarrow> coord_error option \<times> 's Coordinator" where
  "persist_copy mp ops next c =
     persistJobLocked mp ops (c_fresh c) (set_cell (c_fresh c) next c\<lparr>c_fresh := Suc (c_fresh c)\<rparr>)"

definition persistWorker ::
  "msgpack \<Rightarrow> 's MetadataStore \<Rightarrow> WorkerMeta \<Rightarrow> 's Coordinator \<Rightarrow> coord_error option \<times> 's Coordinator" where
  "persistWorker mp ops worker c =
     (case enc_worker mp worker of
        None \<Rightarrow> (Some ErrOther, c)
      | Some data \<Rightarrow>
          (case Set ops (c_store c) (WorkerMetaKey (w_ID worker)) data of
             (Some e, s) \<Rightarrow> (Some e, c\<lparr>c_store := s\<rparr>)
           | (None, s) \<Rightarrow> (None, c\<lparr>c_store := s, c_workers := AList.update (w_ID worker) worker (c_workers c)\<rparr>)))"

definition persistEpoch ::
  "'s MetadataStore \<Rightarrow> u64 \<Rightarrow> 's Coordinator \<Rightarrow> coord_error option \<times> 's Coordinator" where
  "persistEpoch ops epoch c =
     (case Set ops (c_store c) ClusterEpochKey (PutUint64BE epoch) of
        (Some e, s) \<Rightarrow> (Some e, c\<lparr>c_store := s\<rparr>)
      | (None, s) \<Rightarrow> (None, c\<lparr>c_store := s, c_epoch := epoch\<rparr>))"

text \<open>\<open>RemoveWorker\<close> restores the cached entry when the store refuses the deletion.\<close>

definition RemoveWorker ::
  "'s MetadataStore \<Rightarrow> string \<Rightarrow> 's Coordinator \<Rightarrow> coord_error option \<times> 's Coordinator" where
  "RemoveWorker ops nodeID c =
     (case map_of (c_workers c) nodeID of
        None \<Rightarrow> (Some ErrWorkerNotFound, c)
      | Some worker \<Rightarrow>
          let c1 = c\<lparr>c_workers := AList.delete nodeID (c_workers c)\<rparr> in
          (case Delete ops (c_store c1) (WorkerMetaKey nodeID) of
             (Some e, s) \<Rightarrow>
               (Some e, c1\<lparr>c_store := s, c_workers := AList.update nodeID worker (c_workers c1)\<rparr>)
           | (None, s) \<Rightarrow> (None, c1\<lparr>c_store := s\<rparr>)))"

definition markTaskFailed ::
  "msgpack \<Rightarrow> 's MetadataStore \<Rightarrow> string \<Rightarrow> 's Coordinator \<Rightarrow> coord_error option \<times> 's Coordinator" where
  "markTaskFailed mp ops taskID c =
     (case enc_status mp JobFailed of
        None \<Rightarrow> (Some ErrOther, c)
      | Some data \<Rightarrow> (case Set ops (c_store c) (TaskStatusKey taskID) data of (e, s) \<Rightarrow> (e, c\<lparr>c_store := s\<rparr>)))"

definition allTasksInStatus ::
  "msgpack \<Rightarrow> 's MetadataStore \<Rightarrow> string \<Rightarrow> TaskStatus \<Rightarrow> 's Coordinator \<Rightarrow> bool" where
  "allTasksInStatus mp ops jobID status c =
     (case Get ops (c_store c) (JobAssignmentsKey jobID) of
        Inr (Some data) \<Rightarrow>
          (case dec_tam mp data of
             None \<Rightarrow> False
           | Some assignments \<Rightarrow>
               Assignments assignments \<noteq> [] \<and>
               (\<forall>taskID \<in> set (map fst (Assignments assignments)).
                  let observed = mget (taskStatuses c) taskID TaskStatusUnknown in
                  observed = status \<or> (status = TaskStatusRunning \<and> observed = TaskStatusFinishing)))
      | _ \<Rightarrow> False)"

definition aliveWorkerCount :: "time \<Rightarrow> 's Coordinator \<Rightarrow> nat" where
  "aliveWorkerCount now c =
     length (filter (\<lambda>(_, w). \<not> Lost w \<and> \<not> IsZero (LastHeartbeat w) \<and> Sub now (LastHeartbeat w) < WorkerTimeout (c_config c))
       (c_workers c))"

definition jobStateCounts :: "'s Coordinator \<Rightarrow> (string, nat) gomap" where
  "jobStateCounts c =
     fold (\<lambda>(_, p) counts. let s = JobStatus_String (job_Status (c_cells c p)) in
        AList.update s (mget counts s 0 + 1) counts) (c_jobs c) []"

section \<open>The job state machine\<close>

definition validTransitions :: "(JobStatus, JobStatus list) gomap" where
  "validTransitions =
    [(JobCreated, [JobDeploying, JobFailing, JobCanceling]),
     (JobDeploying, [JobRunning, JobFailing, JobCanceling]),
     (JobRunning, [JobFinishing, JobPaused, JobFailing, JobCanceling]),
     (JobPaused, [JobDeploying]),
     (JobFinishing, [JobFinished]),
     (JobFailing, [JobDeploying, JobFailed, JobCanceled]),
     (JobCanceling, [JobCanceled]),
     (JobFinished, []),
     (JobFailed, []),
     (JobCanceled, [])]"

definition ValidateTransition :: "JobStatus \<Rightarrow> JobStatus \<Rightarrow> coord_error option" where
  "ValidateTransition from to =
     (case map_of validTransitions from of
        None \<Rightarrow> Some ErrInvalidTransition
      | Some targets \<Rightarrow> if to \<in> set targets then None else Some ErrInvalidTransition)"

definition resetStableRecoveryBudget :: "'s Coordinator \<Rightarrow> time \<Rightarrow> JobMeta \<Rightarrow> JobMeta" where
  "resetStableRecoveryBudget c now job =
     (if job_Status job = JobRunning \<and> \<not> IsZero (RunningSince job)
         \<and> Sub now (RunningSince job) \<ge> RestartResetAfter (c_config c)
      then job\<lparr>RecoveryAttempts := 0\<rparr> else job)"

definition transition_fields :: "'s Coordinator \<Rightarrow> time \<Rightarrow> JobStatus \<Rightarrow> JobMeta \<Rightarrow> JobMeta" where
  "transition_fields c now to job0 =
     (let job = (if to = JobFailing then resetStableRecoveryBudget c now job0 else job0);
          job = (if to = JobRunning
                 then job\<lparr>job_RescaleRollback := None, RunningSince := now,
                          ConsecutiveCheckpointFailures := 0, CheckpointOutcomes := []\<rparr> else job);
          job = (if to = JobRunning \<and> IsZero (StartedAt job) then job\<lparr>StartedAt := now\<rparr> else job);
          job = (if IsTerminal to then job\<lparr>FinishedAt := now\<rparr> else job);
          job = (if job_Status job = JobFailing \<and> to = JobDeploying
                 then (if \<not> RescaleRequested job
                       then job\<lparr>RestartCount := wrap64 (RestartCount job + 1),
                                RecoveryAttempts := wrap64 (RecoveryAttempts job + 1)\<rparr>
                       else job)\<lparr>RescaleRequested := False\<rparr>
                 else job)
      in job\<lparr>job_Status := to, UpdatedAt := now\<rparr>)"

definition transitionJob ::
  "msgpack \<Rightarrow> 's MetadataStore \<Rightarrow> time \<Rightarrow> nat \<Rightarrow> JobStatus \<Rightarrow> 's Coordinator \<Rightarrow> coord_error option \<times> 's Coordinator" where
  "transitionJob mp ops now p to c =
     (case ValidateTransition (job_Status (c_cells c p)) to of
        Some e \<Rightarrow> (Some e, c)
      | None \<Rightarrow>
          let job = c_cells c p;
              c1 = set_cell p (transition_fields c now to job) c;
              c2 = (if IsTerminal to then c1\<lparr>activeJobNames := AList.delete (job_Name job) (activeJobNames c1)\<rparr> else c1)
          in persistJobLocked mp ops p c2)"

section \<open>Job management\<close>

fun validateGraphWatermarks :: "OperatorDescriptor list \<Rightarrow> coord_error option" where
  "validateGraphWatermarks [] = None"
| "validateGraphWatermarks (op # ops) =
     (case op_Watermark op of
        None \<Rightarrow> validateGraphWatermarks ops
      | Some wm \<Rightarrow>
          if op_Type op \<noteq> OperatorTypeSource then Some ErrInvalidConfig
          else if \<not> WatermarkConfig_Validate wm then Some ErrInvalidConfig
          else validateGraphWatermarks ops)"

definition validateGraphKeyGroups :: "JobGraph \<Rightarrow> int \<Rightarrow> coord_error + int" where
  "validateGraphKeyGroups graph parallelism =
     (case validateGraphWatermarks (Operators graph) of
        Some e \<Rightarrow> Inl e
      | None \<Rightarrow>
          let count = (if g_NumKeyGroups graph = 0 then DefaultNumKeyGroups else g_NumKeyGroups graph) in
          if kg_Validate \<lparr>NumKeyGroups = count, Parallelism = parallelism\<rparr> \<noteq> None then Inl ErrInvalidConfig
          else if \<exists>op \<in> set (Operators graph). op_Parallelism op \<noteq> 0
                    \<and> kg_Validate \<lparr>NumKeyGroups = count, Parallelism = op_Parallelism op\<rparr> \<noteq> None
          then Inl ErrInvalidConfig
          else Inr count)"

text \<open>The checks before the name is reserved, the reservation under the lock, and the write that
  follows after the lock has been released. \<open>jid\<close> is the generated job ID.\<close>

definition SubmitJob_check :: "msgpack \<Rightarrow> 's Coordinator \<Rightarrow> string \<Rightarrow> int \<Rightarrow> bytes \<Rightarrow> coord_error option" where
  "SubmitJob_check mp c name parallelism config =
     (if \<not> readyLocked c then Some ErrNotLeader
      else if name = [] then Some ErrInvalidConfig
      else if parallelism < 1 then Some ErrInvalidConfig
      else case dec_graph mp config of
        None \<Rightarrow> None
      | Some graph \<Rightarrow> (case validateGraphKeyGroups graph parallelism of Inl e \<Rightarrow> Some e | Inr _ \<Rightarrow> None))"

definition submitted_job :: "string \<Rightarrow> string \<Rightarrow> int \<Rightarrow> bytes \<Rightarrow> time \<Rightarrow> JobMeta" where
  "submitted_job jid name parallelism config now =
     zero_job\<lparr>job_ID := jid, job_Name := name, job_Status := JobCreated,
       job_Parallelism := parallelism, job_Config := config, CreatedAt := now, UpdatedAt := now\<rparr>"

definition SubmitJob_reserve :: "JobMeta \<Rightarrow> 's Coordinator \<Rightarrow> coord_error + 's Coordinator" where
  "SubmitJob_reserve job c =
     (if map_of (activeJobNames c) (job_Name job) \<noteq> None then Inl ErrJobExists
      else Inr ((set_cell (c_fresh c) job c)\<lparr>
        activeJobNames := AList.update (job_Name job) (job_ID job) (activeJobNames c),
        c_jobs := AList.update (job_ID job) (c_fresh c) (c_jobs c),
        c_fresh := Suc (c_fresh c)\<rparr>))"

definition SubmitJob_persist ::
  "'s MetadataStore \<Rightarrow> JobMeta \<Rightarrow> bytes \<Rightarrow> 's Coordinator \<Rightarrow> coord_error option \<times> 's Coordinator" where
  "SubmitJob_persist ops job data c =
     (case WriteBatch ops (c_store c) [(JobMetaKey (job_ID job), data), (JobConfigKey (job_ID job), job_Config job)] of
        (Some e, s) \<Rightarrow>
          (Some e, c\<lparr>c_store := s, c_jobs := AList.delete (job_ID job) (c_jobs c),
                     activeJobNames := AList.delete (job_Name job) (activeJobNames c)\<rparr>)
      | (None, s) \<Rightarrow> (None, c\<lparr>c_store := s, schedulerKick := True\<rparr>))"

definition SubmitJob ::
  "msgpack \<Rightarrow> 's MetadataStore \<Rightarrow> time \<Rightarrow> string \<Rightarrow> string \<Rightarrow> int \<Rightarrow> bytes \<Rightarrow> 's Coordinator \<Rightarrow>
     (coord_error + JobMeta) \<times> 's Coordinator" where
  "SubmitJob mp ops now jid name parallelism config c =
     (case SubmitJob_check mp c name parallelism config of
        Some e \<Rightarrow> (Inl e, c)
      | None \<Rightarrow>
          let job = submitted_job jid name parallelism config now in
          (case enc_job mp job of
             None \<Rightarrow> (Inl ErrOther, c)
           | Some data \<Rightarrow>
               (case SubmitJob_reserve job c of
                  Inl e \<Rightarrow> (Inl e, c)
                | Inr c1 \<Rightarrow>
                    (case SubmitJob_persist ops job data c1 of
                       (Some e, c2) \<Rightarrow> (Inl e, c2)
                     | (None, c2) \<Rightarrow> (Inr job, c2)))))"

definition GetJob :: "'s Coordinator \<Rightarrow> string \<Rightarrow> coord_error + JobMeta" where
  "GetJob c jobID = (case job_of c jobID of None \<Rightarrow> Inl ErrJobNotFound | Some job \<Rightarrow> Inr job)"

definition ListJobs :: "'s Coordinator \<Rightarrow> JobStatus option \<Rightarrow> JobMeta list" where
  "ListJobs c statusFilter =
     filter (\<lambda>j. case statusFilter of None \<Rightarrow> True | Some s \<Rightarrow> job_Status j = s)
       (map (\<lambda>(_, p). c_cells c p) (c_jobs c))"

definition cancel_command :: "string \<Rightarrow> TaskAssignmentMap \<Rightarrow> string \<Rightarrow> WorkerCommand" where
  "cancel_command jobID tam taskID =
     \<lparr>wc_AttemptID = tam_AttemptID tam, wc_EpochID = tam_EpochID tam,
      wc_Type = CommandTypeCancelTask, wc_JobID = jobID, wc_TaskID = taskID, wc_Data = []\<rparr>"

definition CancelJob ::
  "msgpack \<Rightarrow> 's MetadataStore \<Rightarrow> time \<Rightarrow> string \<Rightarrow> 's Coordinator \<Rightarrow> coord_error option \<times> 's Coordinator" where
  "CancelJob mp ops now jobID c =
     (if \<not> readyLocked c then (Some ErrNotLeader, c)
      else case map_of (c_jobs c) jobID of
        None \<Rightarrow> (Some ErrJobNotFound, c)
      | Some p \<Rightarrow>
          (case transitionJob mp ops now p JobCanceling c of
             (Some e, c1) \<Rightarrow> (Some e, c1)
           | (None, c1) \<Rightarrow>
               (case Get ops (c_store c1) (JobAssignmentsKey jobID) of
                  Inr (Some data) \<Rightarrow>
                    (case dec_tam mp data of
                       Some tam \<Rightarrow>
                         (None, fold (\<lambda>(taskID, workerID). enqueueCommandLocked workerID (cancel_command jobID tam taskID))
                            (Assignments tam) c1)
                     | None \<Rightarrow> (None, c1))
                | _ \<Rightarrow> (None, c1))))"

definition ResumeJob ::
  "msgpack \<Rightarrow> 's MetadataStore \<Rightarrow> time \<Rightarrow> string \<Rightarrow> 's Coordinator \<Rightarrow> coord_error option \<times> 's Coordinator" where
  "ResumeJob mp ops now jobID c =
     (if \<not> readyLocked c then (Some ErrNotLeader, c)
      else case map_of (c_jobs c) jobID of
        None \<Rightarrow> (Some ErrJobNotFound, c)
      | Some p \<Rightarrow> transitionJob mp ops now p JobDeploying c)"

section \<open>Slots\<close>

text \<open>A terminal task gives its slot back. \<open>slices.Index\<close> finds the first occurrence.\<close>

definition releaseTaskSlotLocked :: "string \<Rightarrow> string \<Rightarrow> 's Coordinator \<Rightarrow> bool \<times> 's Coordinator" where
  "releaseTaskSlotLocked workerID taskID c =
     (case map_of (c_workers c) workerID of
        None \<Rightarrow> (False, c)
      | Some w \<Rightarrow>
          if taskID \<notin> set (RunningTasks w) then (False, c)
          else
            let running = remove1 taskID (RunningTasks w);
                unassigned = max 0 (TaskSlotsTotal w - int (length running));
                w' = w\<lparr>RunningTasks := running,
                       TaskSlotsAvailable := max (TaskSlotsAvailable w) (min (TaskSlotsAvailable w + 1) unassigned)\<rparr>
            in (True, c\<lparr>c_workers := AList.update workerID w' (c_workers c)\<rparr>))"

end
