(* ===== verification/Job_Lifecycle.thy ===== *)
theory Job_Lifecycle
  imports Coordinator
begin

text \<open>Correctness of the job lifecycle and of the command queues of \<open>Coordinator\<close>: the state
  machine of jobs, the index of active job names, what is persisted on which path, slot release
  and command delivery.\<close>

section \<open>The state machine\<close>

lemma validate_iff:
  "ValidateTransition s t = None \<longleftrightarrow> (case s of
      JobCreated \<Rightarrow> t \<in> {JobDeploying, JobFailing, JobCanceling}
    | JobDeploying \<Rightarrow> t \<in> {JobRunning, JobFailing, JobCanceling}
    | JobRunning \<Rightarrow> t \<in> {JobFinishing, JobPaused, JobFailing, JobCanceling}
    | JobPaused \<Rightarrow> t = JobDeploying
    | JobFinishing \<Rightarrow> t = JobFinished
    | JobFailing \<Rightarrow> t \<in> {JobDeploying, JobFailed, JobCanceled}
    | JobCanceling \<Rightarrow> t = JobCanceled
    | _ \<Rightarrow> False)"
  by (cases s) (auto simp: ValidateTransition_def validTransitions_def)

lemma validate_nonterminal: "ValidateTransition s t = None \<Longrightarrow> \<not> IsTerminal s"
  by (cases s) (auto simp: validate_iff IsTerminal_def)

section \<open>The index of active names\<close>

text \<open>Every cached job is found under its ID, and the name index holds exactly the names of the
  jobs that are not terminal.\<close>

definition index_ok :: "'s Coordinator \<Rightarrow> bool" where
  "index_ok c \<longleftrightarrow>
     distinct (map fst (c_jobs c)) \<and> distinct (map fst (activeJobNames c))
     \<and> (\<forall>i p. map_of (c_jobs c) i = Some p \<longrightarrow> p < c_fresh c \<and> job_ID (c_cells c p) = i)
     \<and> (\<forall>n i. map_of (activeJobNames c) n = Some i \<longleftrightarrow>
          (\<exists>j. job_of c i = Some j \<and> \<not> IsTerminal (job_Status j) \<and> job_Name j = n))"

lemma index_okD:
  assumes "index_ok c"
  shows "distinct (map fst (c_jobs c))" "distinct (map fst (activeJobNames c))"
    "map_of (c_jobs c) i = Some p \<Longrightarrow> p < c_fresh c \<and> job_ID (c_cells c p) = i"
    "map_of (activeJobNames c) n = Some i \<longleftrightarrow>
       (\<exists>j. job_of c i = Some j \<and> \<not> IsTerminal (job_Status j) \<and> job_Name j = n)"
  using assms unfolding index_ok_def by blast+

lemma index_ok_cong:
  assumes "c_jobs c' = c_jobs c" "c_cells c' = c_cells c" "c_fresh c' = c_fresh c" "activeJobNames c' = activeJobNames c"
  shows "index_ok c' = index_ok c"
  using assms by (simp add: index_ok_def job_of_def)

lemma job_of_set_cell:
  assumes "index_ok c" "map_of (c_jobs c) i = Some p"
  shows "job_of (set_cell p j c) k = (if k = i then Some j else job_of c k)"
proof (cases "map_of (c_jobs c) k")
  case (Some q)
  then have "job_ID (c_cells c q) = k" "job_ID (c_cells c p) = i"
    using index_okD(3) [OF assms(1)] assms(2) by blast+
  then have "k \<noteq> i \<Longrightarrow> q \<noteq> p" by metis
  then show ?thesis
    using Some assms(2) by (cases "k = i") (simp_all add: job_of_def set_cell_def)
next
  case None
  then show ?thesis using assms(2) by (auto simp: job_of_def set_cell_def)
qed

lemma set_cell_simps [simp]:
  "c_jobs (set_cell p j c) = c_jobs c" "activeJobNames (set_cell p j c) = activeJobNames c"
  "c_fresh (set_cell p j c) = c_fresh c" "c_store (set_cell p j c) = c_store c"
  "c_cells (set_cell p j c) = (c_cells c)(p := j)"
  by (simp_all add: set_cell_def)

text \<open>Changing a job but not its identity, nor whether it is terminal, keeps the index exact.\<close>

lemma index_ok_set_cell:
  assumes ok: "index_ok c" and p: "map_of (c_jobs c) i = Some p"
    and j: "job_ID j = i" "job_Name j = job_Name (c_cells c p)"
      "IsTerminal (job_Status j) = IsTerminal (job_Status (c_cells c p))"
  shows "index_ok (set_cell p j c)"
proof -
  have old: "job_of c i = Some (c_cells c p)" using p by (simp add: job_of_def)
  have ids: "q < c_fresh c \<and> job_ID (c_cells (set_cell p j c) q) = k" if "map_of (c_jobs c) k = Some q" for k q
    using index_okD(3) [OF ok that] index_okD(3) [OF ok p] j(1) by auto
  have names: "map_of (activeJobNames c) n = Some k \<longleftrightarrow>
      (\<exists>x. job_of (set_cell p j c) k = Some x \<and> \<not> IsTerminal (job_Status x) \<and> job_Name x = n)" for n k
    unfolding index_okD(4) [OF ok] job_of_set_cell [OF ok p] using old j by auto
  show ?thesis
    unfolding index_ok_def using index_okD(1,2) [OF ok] ids names by simp
qed

text \<open>A job that becomes terminal gives its name back.\<close>

lemma index_ok_release:
  assumes ok: "index_ok c" and p: "map_of (c_jobs c) i = Some p"
    and j: "job_ID j = i" "IsTerminal (job_Status j)" and old: "\<not> IsTerminal (job_Status (c_cells c p))"
  shows "index_ok ((set_cell p j c)\<lparr>activeJobNames := AList.delete (job_Name (c_cells c p)) (activeJobNames c)\<rparr>)"
    (is "index_ok ?c")
proof -
  let ?n0 = "job_Name (c_cells c p)"
  have jo: "job_of c i = Some (c_cells c p)" using p by (simp add: job_of_def)
  then have n0: "map_of (activeJobNames c) ?n0 = Some i"
    using index_okD(4) [OF ok, of ?n0 i] old by blast
  have ids: "q < c_fresh c \<and> job_ID (c_cells (set_cell p j c) q) = k" if "map_of (c_jobs c) k = Some q" for k q
    using index_okD(3) [OF ok that] index_okD(3) [OF ok p] j(1) by auto
  have jof: "job_of ?c k = (if k = i then Some j else job_of c k)" for k
    using job_of_set_cell [OF ok p, of j k] by (simp add: job_of_def)
  have names: "map_of (AList.delete ?n0 (activeJobNames c)) n = Some k \<longleftrightarrow>
      (\<exists>x. job_of ?c k = Some x \<and> \<not> IsTerminal (job_Status x) \<and> job_Name x = n)" for n k
  proof (cases "n = ?n0")
    case True
    have "k = i" if "job_of c k = Some x" "\<not> IsTerminal (job_Status x)" "job_Name x = ?n0" for x
      using that index_okD(4) [OF ok, of ?n0 k] n0 by auto
    then show ?thesis unfolding jof using True j(2) by (auto simp: delete_conv')
  next
    case False
    then show ?thesis
      unfolding jof using index_okD(4) [OF ok, of n k] jo j(2) by (auto simp: delete_conv')
  qed
  show ?thesis
    unfolding index_ok_def using index_okD(1,2) [OF ok] ids names by simp
qed

text \<open>A new job under a fresh ID and a free name.\<close>

lemma index_ok_reserve:
  assumes ok: "index_ok c" and fresh: "map_of (c_jobs c) (job_ID job) = None" and live: "\<not> IsTerminal (job_Status job)"
    and r: "SubmitJob_reserve job c = Inr c'"
  shows "index_ok c'"
proof -
  let ?p = "c_fresh c"
  have free: "map_of (activeJobNames c) (job_Name job) = None"
    and c': "c' = (set_cell ?p job c)\<lparr>activeJobNames := AList.update (job_Name job) (job_ID job) (activeJobNames c),
        c_jobs := AList.update (job_ID job) ?p (c_jobs c), c_fresh := Suc ?p\<rparr>"
    using r by (auto simp: SubmitJob_reserve_def split: if_splits)
  have jof: "job_of c' k = (if k = job_ID job then Some job else job_of c k)" for k
    using index_okD(3) [OF ok, of k] fresh
    by (cases "map_of (c_jobs c) k") (auto simp: c' job_of_def update_conv')
  have ids: "q < c_fresh c' \<and> job_ID (c_cells c' q) = k" if "map_of (c_jobs c') k = Some q" for k q
    using that index_okD(3) [OF ok, of k q] by (auto simp: c' update_conv' split: if_splits)
  have names: "map_of (activeJobNames c') n = Some k \<longleftrightarrow>
      (\<exists>x. job_of c' k = Some x \<and> \<not> IsTerminal (job_Status x) \<and> job_Name x = n)" for n k
  proof -
    have "job_of c (job_ID job) = None" using fresh by (simp add: job_of_def)
    then have "map_of (activeJobNames c) n \<noteq> Some (job_ID job)"
      using index_okD(4) [OF ok, of n "job_ID job"] by auto
    then show ?thesis
      unfolding jof using live free index_okD(4) [OF ok, of n k] by (auto simp: c' update_conv')
  qed
  show ?thesis
    unfolding index_ok_def using index_okD(1,2) [OF ok] ids names by (simp add: c')
qed

lemma index_ok_New: "index_ok (New cfg s)"
  by (simp add: index_ok_def New_def job_of_def)

text \<open>Rolling a reservation back restores the jobs and names there were.\<close>

lemma delete_update_fresh: "map_of m k = None \<Longrightarrow> AList.delete k (AList.update k v m) = m"
  by (induction m) (auto simp: AList.delete_eq split: if_splits)

section \<open>Persisting\<close>

text \<open>What persisting a registered job changes of the coordinator: at most the store.\<close>

lemma persistJobLocked_fields:
  assumes "persistJobLocked mp ops p c = (e, c')"
  shows "c_cells c' = c_cells c" "c_fresh c' = c_fresh c" "activeJobNames c' = activeJobNames c"
    "map_of (c_jobs c) (job_ID (c_cells c p)) = Some p \<Longrightarrow> map_of (c_jobs c') = map_of (c_jobs c)"
    "distinct (map fst (c_jobs c)) \<Longrightarrow> distinct (map fst (c_jobs c'))"
proof -
  consider s where "c' = c\<lparr>c_store := s\<rparr>" | "c' = c"
    | s where "c' = c\<lparr>c_store := s, c_jobs := AList.update (job_ID (c_cells c p)) p (c_jobs c)\<rparr>"
    using assms unfolding persistJobLocked_def Let_def by (simp split: option.splits prod.splits) blast+
  note cs = this
  show "c_cells c' = c_cells c" "c_fresh c' = c_fresh c" "activeJobNames c' = activeJobNames c"
    "map_of (c_jobs c) (job_ID (c_cells c p)) = Some p \<Longrightarrow> map_of (c_jobs c') = map_of (c_jobs c)"
    "distinct (map fst (c_jobs c)) \<Longrightarrow> distinct (map fst (c_jobs c'))"
    by (rule cs; simp add: update_conv' fun_upd_idem)+
qed

lemma index_ok_map_of:
  assumes "c_cells c' = c_cells c" "c_fresh c' = c_fresh c" "activeJobNames c' = activeJobNames c"
    "map_of (c_jobs c') = map_of (c_jobs c)" "distinct (map fst (c_jobs c'))" "index_ok c"
  shows "index_ok c'"
  using assms unfolding index_ok_def job_of_def by simp

lemma index_ok_persist:
  assumes "persistJobLocked mp ops p c = (e, c')" "index_ok c" "map_of (c_jobs c) (job_ID (c_cells c p)) = Some p"
  shows "index_ok c'"
  by (rule index_ok_map_of [OF persistJobLocked_fields(1,2,3) [OF assms(1)] persistJobLocked_fields(4) [OF assms(1,3)]
      persistJobLocked_fields(5) [OF assms(1) index_okD(1) [OF assms(2)]] assms(2)])

context metadata_store
begin

lemma persistJobLocked_store:
  assumes "persistJobLocked mp ops p c = (e, c')" "inv (c_store c)"
  shows "inv (c_store c')
    \<and> (e = None \<longrightarrow> (\<exists>data. enc_job mp (c_cells c p) = Some data
          \<and> contents (c_store c') = (contents (c_store c))(JobMetaKey (job_ID (c_cells c p)) \<mapsto> data)))
    \<and> (e \<noteq> None \<longrightarrow> contents (c_store c') = contents (c_store c))"
proof (cases "enc_job mp (c_cells c p)")
  case (Some data)
  obtain e' s where s: "Set ops (c_store c) (JobMetaKey (job_ID (c_cells c p))) data = (e', s)"
    by fastforce
  have "e = e'" "c_store c' = s"
    using assms(1) Some s unfolding persistJobLocked_def Let_def by (auto split: option.splits)
  then show ?thesis
    using set [OF assms(2) s] Some by auto
qed (use assms in \<open>auto simp: persistJobLocked_def Let_def\<close>)

end

section \<open>Transitions\<close>

lemma transition_fields_id [simp]:
  "job_ID (transition_fields c now to job) = job_ID job"
  "job_Name (transition_fields c now to job) = job_Name job"
  "job_Status (transition_fields c now to job) = to"
  by (simp_all add: transition_fields_def Let_def resetStableRecoveryBudget_def)

text \<open>The state a valid transition hands to the store.\<close>

definition transitioned :: "time \<Rightarrow> nat \<Rightarrow> JobStatus \<Rightarrow> 's Coordinator \<Rightarrow> 's Coordinator" where
  "transitioned now p to c =
     (let c1 = set_cell p (transition_fields c now to (c_cells c p)) c in
      if IsTerminal to then c1\<lparr>activeJobNames := AList.delete (job_Name (c_cells c p)) (activeJobNames c1)\<rparr> else c1)"

lemma transitionJob_eq:
  "transitionJob mp ops now p to c =
     (case ValidateTransition (job_Status (c_cells c p)) to of
        Some e \<Rightarrow> (Some e, c) | None \<Rightarrow> persistJobLocked mp ops p (transitioned now p to c))"
  unfolding transitionJob_def transitioned_def Let_def by (rule refl)

lemma transitioned_simps [simp]:
  "c_cells (transitioned now p to c) = (c_cells c)(p := transition_fields c now to (c_cells c p))"
  "c_jobs (transitioned now p to c) = c_jobs c" "c_store (transitioned now p to c) = c_store c"
  "c_fresh (transitioned now p to c) = c_fresh c"
  by (simp_all add: transitioned_def Let_def)

lemma index_ok_transitioned:
  assumes "index_ok c" "map_of (c_jobs c) i = Some p" "ValidateTransition (job_Status (c_cells c p)) to = None"
  shows "index_ok (transitioned now p to c)"
proof -
  have i: "job_ID (c_cells c p) = i" using index_okD(3) [OF assms(1,2)] by simp
  have live: "\<not> IsTerminal (job_Status (c_cells c p))" by (rule validate_nonterminal [OF assms(3)])
  show ?thesis
  proof (cases "IsTerminal to")
    case True
    then show ?thesis
      using index_ok_release [OF assms(1,2), of "transition_fields c now to (c_cells c p)"] i live
      by (simp add: transitioned_def Let_def)
  next
    case False
    then show ?thesis
      using index_ok_set_cell [OF assms(1,2), of "transition_fields c now to (c_cells c p)"] i live
      by (simp add: transitioned_def Let_def)
  qed
qed

lemma index_ok_transitionJob:
  assumes "transitionJob mp ops now p to c = (e, c')" "index_ok c" "map_of (c_jobs c) i = Some p"
  shows "index_ok c'"
proof (cases "ValidateTransition (job_Status (c_cells c p)) to")
  case None
  have "job_ID (c_cells c p) = i" using index_okD(3) [OF assms(2,3)] by simp
  then show ?thesis
    using assms(1,3) None index_ok_persist [of mp ops p "transitioned now p to c" e c']
      index_ok_transitioned [OF assms(2,3) None, of now]
    by (simp add: transitionJob_eq)
qed (use assms in \<open>simp add: transitionJob_eq\<close>)

lemma transitionJob_fields:
  assumes "transitionJob mp ops now p to c = (e, c')"
  shows "c_fresh c' = c_fresh c"
    "map_of (c_jobs c) (job_ID (c_cells c p)) = Some p \<Longrightarrow> map_of (c_jobs c') = map_of (c_jobs c)"
  using assms persistJobLocked_fields(2,4) [of mp ops p "transitioned now p to c"]
  unfolding transitionJob_eq by (auto split: option.splits)

section \<open>Job management\<close>

lemma reserve_rollback:
  assumes "SubmitJob_reserve job c = Inr c1" "map_of (c_jobs c) (job_ID job) = None"
  shows "AList.delete (job_ID job) (c_jobs c1) = c_jobs c"
    "AList.delete (job_Name job) (activeJobNames c1) = activeJobNames c"
    "c_fresh c1 = Suc (c_fresh c)" "c_cells c1 = (c_cells c)(c_fresh c := job)" "c_store c1 = c_store c"
  using assms by (auto simp: SubmitJob_reserve_def delete_update_fresh split: if_splits)

lemma index_ok_more_cells:
  assumes "index_ok c" "c_jobs c' = c_jobs c" "activeJobNames c' = activeJobNames c"
    "c_fresh c' = Suc (c_fresh c)" "\<forall>p < c_fresh c. c_cells c' p = c_cells c p"
  shows "index_ok c'"
proof -
  have "job_of c' k = job_of c k" for k
    using index_okD(3) [OF assms(1), of k] assms(2,5)
    by (cases "map_of (c_jobs c) k") (auto simp: job_of_def)
  moreover have "job_ID (c_cells c' p) = k \<and> p < Suc (c_fresh c)" if "map_of (c_jobs c) k = Some p" for k p
    using index_okD(3) [OF assms(1) that] assms(5) by auto
  ultimately show ?thesis
    unfolding index_ok_def using index_okD(1,2) [OF assms(1)] index_okD(4) [OF assms(1)] assms(2,3,4) by simp
qed

lemma index_ok_SubmitJob:
  assumes "SubmitJob mp ops now jid name par config c = (r, c')" "index_ok c" "map_of (c_jobs c) jid = None"
  shows "index_ok c'"
proof -
  let ?job = "submitted_job jid name par config now"
  have job: "job_ID ?job = jid" "job_Name ?job = name" "\<not> IsTerminal (job_Status ?job)"
    by (simp_all add: submitted_job_def IsTerminal_def)
  consider "c' = c"
    | c1 s where "SubmitJob_reserve ?job c = Inr c1"
        "c' = c1\<lparr>c_store := s, c_jobs := AList.delete jid (c_jobs c1), activeJobNames := AList.delete name (activeJobNames c1)\<rparr>"
    | c1 s where "SubmitJob_reserve ?job c = Inr c1" "c' = c1\<lparr>c_store := s, schedulerKick := True\<rparr>"
    using assms(1) job unfolding SubmitJob_def SubmitJob_persist_def Let_def
    by (auto split: option.splits sum.splits prod.splits)
  then show ?thesis
  proof cases
    case 1
    then show ?thesis using assms(2) by simp
  next
    case 2
    show ?thesis
      by (rule index_ok_more_cells [OF assms(2)])
        (use reserve_rollback [OF 2(1)] assms(3) job in \<open>simp_all add: 2(2)\<close>)
  next
    case 3
    then show ?thesis
      using index_ok_reserve [OF assms(2) _ job(3) 3(1)] assms(3) job
      by (simp add: index_ok_cong [of "c1\<lparr>c_store := s, schedulerKick := True\<rparr>" c1])
  qed
qed

section \<open>What a transition leaves behind\<close>

lemma transitionJob_invalid:
  "ValidateTransition (job_Status (c_cells c p)) to = Some e \<Longrightarrow> transitionJob mp ops now p to c = (Some e, c)"
  by (simp add: transitionJob_eq)

lemma validate_error: "ValidateTransition s t = Some e \<Longrightarrow> e = ErrInvalidTransition"
  by (auto simp: ValidateTransition_def split: option.splits if_splits)

lemma transitionJob_cell:
  assumes "transitionJob mp ops now p to c = (e, c')" "ValidateTransition (job_Status (c_cells c p)) to = None"
  shows "c_cells c' p = transition_fields c now to (c_cells c p)"
  using assms persistJobLocked_fields(1) [of mp ops p "transitioned now p to c" e c']
  by (simp add: transitionJob_eq)

context metadata_store
begin

lemma transitionJob_store:
  assumes "transitionJob mp ops now p to c = (e, c')" "inv (c_store c)"
    "ValidateTransition (job_Status (c_cells c p)) to = None"
  shows "inv (c_store c')
    \<and> (e = None \<longrightarrow> (\<exists>data. enc_job mp (c_cells c' p) = Some data
          \<and> contents (c_store c') = (contents (c_store c))(JobMetaKey (job_ID (c_cells c p)) \<mapsto> data)))
    \<and> (e \<noteq> None \<longrightarrow> contents (c_store c') = contents (c_store c))"
  using persistJobLocked_store [of mp p "transitioned now p to c" e c'] assms transitionJob_cell [OF assms(1,3)]
  by (simp add: transitionJob_eq)

end

text \<open>C34. The outcomes of a transition. An illegal one is refused and changes nothing. A legal
  one that succeeds leaves the job in the target state, and the store holds exactly that job under
  its key. A legal one whose write fails is reported as an error and leaves the store as it was;
  the cached job has changed all the same.\<close>

theorem transition_outcomes:
  assumes "transitionJob mp memory_ops now p to c = (e, c')" "keys_ok (entries (c_store c))"
  shows "(ValidateTransition (job_Status (c_cells c p)) to \<noteq> None \<longrightarrow> e = Some ErrInvalidTransition \<and> c' = c)
    \<and> (e = None \<longrightarrow> job_Status (c_cells c' p) = to
        \<and> (\<exists>data. enc_job mp (c_cells c' p) = Some data
             \<and> map_of (entries (c_store c')) = (map_of (entries (c_store c)))(JobMetaKey (job_ID (c_cells c p)) \<mapsto> data)))
    \<and> (e \<noteq> None \<longrightarrow> map_of (entries (c_store c')) = map_of (entries (c_store c)))
    \<and> (e \<noteq> None \<longrightarrow> ValidateTransition (job_Status (c_cells c p)) to = None \<longrightarrow> job_Status (c_cells c' p) = to)"
proof (cases "ValidateTransition (job_Status (c_cells c p)) to")
  case None
  show ?thesis
    using memory.transitionJob_store [OF assms None] transitionJob_cell [OF assms(1) None] None by auto
next
  case (Some a)
  then show ?thesis
    using assms(1) transitionJob_invalid [OF Some, of mp memory_ops now] validate_error [OF Some] by auto
qed

lemma persist_memory_ok:
  assumes "enc_job mp (c_cells c p) = Some d" "\<not> mem_closed (c_store c)"
  shows "fst (persistJobLocked mp memory_ops p c) = None"
  using assms by (simp add: persistJobLocked_def memory_ops_def memory_Set_def Let_def)

definition no_msgpack :: msgpack where
  "no_msgpack = \<lparr>enc_job = (\<lambda>_. None), dec_job = (\<lambda>_. None), enc_worker = (\<lambda>_. None), dec_worker = (\<lambda>_. None),
     enc_cp = (\<lambda>_. None), dec_cp = (\<lambda>_. None), enc_sp = (\<lambda>_. None), dec_sp = (\<lambda>_. None),
     enc_tam = (\<lambda>_. None), dec_tam = (\<lambda>_. None), enc_graph = (\<lambda>_. None), dec_graph = (\<lambda>_. None),
     dec_task_list = (\<lambda>_. None), dec_cluster = (\<lambda>_. None), enc_status = (\<lambda>_. None),
     enc_trigger = (\<lambda>_. None), dec_trigger = (\<lambda>_. None), enc_task = (\<lambda>_. None)\<rparr>"

definition example_coord_config :: CoordinatorConfig where
  "example_coord_config = \<lparr>NodeID = ''n1'', ListenAddr = ''a'', HTTPAdvertiseAddr = [],
     HeartbeatFlushInterval = 0, WorkerTimeout = 0, HeartbeatInterval = 0, CheckpointTimeout = 0,
     CheckpointMinPause = 0, CheckpointMaxConsecutiveFailures = 0, CheckpointTolerableFailureRate = 0,
     RestartMaxAttempts = 0, RestartBackoff = 0, RestartResetAfter = 0\<rparr>"

definition example_coord :: "MemoryStore Coordinator" where
  "example_coord = (New example_coord_config NewMemoryStore)\<lparr>
     c_state := StateLeader, recovered := True, c_epoch := 1\<rparr>"

definition job_msgpack :: msgpack where
  "job_msgpack = no_msgpack\<lparr>enc_job := (\<lambda>j. Some [if job_Status j = JobFailing then 1 else 0])\<rparr>"

definition example_submitted :: "MemoryStore Coordinator" where
  "example_submitted = snd (SubmitJob job_msgpack memory_ops 5 ''j1'' ''etl'' 2 [] example_coord)"

theorem transition_outcomes_witness:
  "\<exists>c'. transitionJob job_msgpack memory_ops 7 0 JobFailing (New example_coord_config NewMemoryStore) = (None, c')
     \<and> job_Status (c_cells c' 0) = JobFailing \<and> entries (c_store c') \<noteq> []"
proof -
  let ?c = "New example_coord_config NewMemoryStore"
  obtain e c' where t: "transitionJob job_msgpack memory_ops 7 0 JobFailing ?c = (e, c')" by fastforce
  have v: "ValidateTransition (job_Status (c_cells ?c 0)) JobFailing = None"
    by (simp add: New_def zero_job_def validate_iff)
  then have e: "e = None"
    using t persist_memory_ok [of job_msgpack "transitioned 7 0 JobFailing ?c" 0]
    by (simp add: transitionJob_eq job_msgpack_def New_def NewMemoryStore_def)
  have "keys_ok (entries (c_store ?c))" by (simp add: New_def NewMemoryStore_def keys_ok_def)
  from transition_outcomes [OF t this] have "job_Status (c_cells c' 0) = JobFailing"
    "\<exists>k data m. map_of (entries (c_store c')) = m(k \<mapsto> data)"
    using e by blast+
  then show ?thesis
    using t e by (metis fun_upd_same map_of.simps(1) option.distinct(1))
qed

section \<open>Slots\<close>

text \<open>Releasing the slot of a task removes the task from the worker's list and raises
  the number of free slots by at most one, never above the slots no listed task holds unless it
  was already above, and never lowers it. A second report of the same task changes nothing.\<close>

theorem slot_release_bounded:
  assumes "map_of (c_workers c) w = Some wm" "task \<in> set (RunningTasks wm)" "distinct (RunningTasks wm)"
    and r: "releaseTaskSlotLocked w task c = (b, c')"
  shows "\<exists>wm'. b \<and> map_of (c_workers c') w = Some wm' \<and> set (RunningTasks wm') = set (RunningTasks wm) - {task}
    \<and> TaskSlotsAvailable wm \<le> TaskSlotsAvailable wm' \<and> TaskSlotsAvailable wm' \<le> TaskSlotsAvailable wm + 1
    \<and> (TaskSlotsAvailable wm' \<noteq> TaskSlotsAvailable wm \<longrightarrow>
         TaskSlotsAvailable wm' \<le> TaskSlotsTotal wm - int (length (RunningTasks wm')) \<or> TaskSlotsAvailable wm' \<le> 0)
    \<and> releaseTaskSlotLocked w task c' = (False, c')"
proof -
  let ?run = "remove1 task (RunningTasks wm)"
  let ?wm = "wm\<lparr>RunningTasks := ?run, TaskSlotsAvailable := max (TaskSlotsAvailable wm)
      (min (TaskSlotsAvailable wm + 1) (max 0 (TaskSlotsTotal wm - int (length ?run))))\<rparr>"
  have r': "b" "c' = c\<lparr>c_workers := AList.update w ?wm (c_workers c)\<rparr>"
    using r assms(1,2) by (simp_all add: releaseTaskSlotLocked_def Let_def)
  then have wm: "map_of (c_workers c') w = Some ?wm" by (simp add: update_conv')
  moreover have "set ?run = set (RunningTasks wm) - {task}" using assms(3) by simp
  moreover have "releaseTaskSlotLocked w task c' = (False, c')"
    using assms(3) by (simp add: releaseTaskSlotLocked_def wm)
  ultimately show ?thesis
    using r'(1) by (intro exI [of _ ?wm]) (auto simp: max_def min_def)
qed

definition example_worker :: WorkerMeta where
  "example_worker = \<lparr>Lost = False, RPCPeerEpoch = 1, RPCClient = None, SupportsReservations = False,
     CheckpointAddress = ''c'', w_ID = ''w1'', w_Address = ''a'', TaskSlotsTotal = 3,
     TaskSlotsAvailable = 1, LastHeartbeat = 1, RunningTasks = [''t1'', ''t2'']\<rparr>"

theorem slot_release_bounded_witness:
  "\<exists>c' wm'. releaseTaskSlotLocked ''w1'' ''t1'' (example_coord\<lparr>c_workers := [(''w1'', example_worker)]\<rparr>) = (True, c')
     \<and> map_of (c_workers c') ''w1'' = Some wm' \<and> TaskSlotsAvailable wm' \<le> 2"
proof -
  let ?c = "example_coord\<lparr>c_workers := [(''w1'', example_worker)]\<rparr>"
  obtain b c' where r: "releaseTaskSlotLocked ''w1'' ''t1'' ?c = (b, c')" by fastforce
  have "map_of (c_workers ?c) ''w1'' = Some example_worker" "''t1'' \<in> set (RunningTasks example_worker)"
    "distinct (RunningTasks example_worker)"
    by (simp_all add: example_worker_def)
  from slot_release_bounded [OF this r] show ?thesis
    using r by (auto simp: example_worker_def)
qed

section \<open>Commands\<close>

text \<open>Every registered stream is an open channel of its own, with at most 64 commands buffered.
  In particular a command is never sent on a closed channel, which would panic.\<close>

definition streams_ok :: "'s Coordinator \<Rightarrow> bool" where
  "streams_ok c \<longleftrightarrow> distinct (map fst (cmdStreams c))
     \<and> (\<forall>w ch. map_of (cmdStreams c) w = Some ch \<longrightarrow>
          ch < length (c_chans c) \<and> \<not> chan_closed (c_chans c ! ch) \<and> length (buffered (c_chans c ! ch)) \<le> bufSize)
     \<and> (\<forall>w w' ch. map_of (cmdStreams c) w = Some ch \<and> map_of (cmdStreams c) w' = Some ch \<longrightarrow> w = w')"

text \<open>The commands of a worker that wait in its open stream, and those that wait for a heartbeat.\<close>

definition streamed :: "'s Coordinator \<Rightarrow> string \<Rightarrow> WorkerCommand list" where
  "streamed c w = (case map_of (cmdStreams c) w of None \<Rightarrow> [] | Some ch \<Rightarrow> buffered (c_chans c ! ch))"




lemma pending_streams [simp]:
  "streamed (c\<lparr>pendingCmds := x\<rparr>) = streamed c" "streams_ok (c\<lparr>pendingCmds := x\<rparr>) = streams_ok c"
  by (simp_all add: streamed_def streams_ok_def fun_eq_iff split: option.split)







text \<open>Sequences of operations on the queues, with a log of the commands that were enqueued for a
  worker, handed to it, and left in a stream when that stream was replaced or closed.\<close>

datatype cmd_action = Enqueue string WorkerCommand | Heartbeat string | OpenStream string | Push string | CloseStream string

record cmd_log =
  enqueued :: "string \<Rightarrow> WorkerCommand multiset"
  delivered :: "string \<Rightarrow> WorkerCommand multiset"
  orphaned :: "string \<Rightarrow> WorkerCommand multiset"

fun cmd_step :: "cmd_action \<Rightarrow> 's Coordinator \<times> cmd_log \<Rightarrow> 's Coordinator \<times> cmd_log" where
  "cmd_step (Enqueue w cmd) (c, l) =
     (enqueueCommandLocked w cmd c, l\<lparr>enqueued := (enqueued l)(w := enqueued l w + {#cmd#})\<rparr>)"
| "cmd_step (Heartbeat w) (c, l) =
     (case DrainCommands w c of (cmds, c') \<Rightarrow> (c', l\<lparr>delivered := (delivered l)(w := delivered l w + mset cmds)\<rparr>))"
| "cmd_step (OpenStream w) (c, l) =
     (snd (RegisterCommandStream w c), l\<lparr>orphaned := (orphaned l)(w := orphaned l w + mset (streamed c w))\<rparr>)"
| "cmd_step (Push w) (c, l) =
     (case map_of (cmdStreams c) w of
        None \<Rightarrow> (c, l)
      | Some ch \<Rightarrow> (case WatchCommands_receive ch c of
          (Deliver cmd, c') \<Rightarrow> (c', l\<lparr>delivered := (delivered l)(w := delivered l w + {#cmd#})\<rparr>)
        | (_, c') \<Rightarrow> (c', l)))"
| "cmd_step (CloseStream w) (c, l) =
     (case map_of (cmdStreams c) w of
        None \<Rightarrow> (c, l)
      | Some ch \<Rightarrow> (CloseCommandStream w ch c, l\<lparr>orphaned := (orphaned l)(w := orphaned l w + mset (streamed c w))\<rparr>))"





definition empty_log :: cmd_log where
  "empty_log = \<lparr>enqueued = (\<lambda>_. {#}), delivered = (\<lambda>_. {#}), orphaned = (\<lambda>_. {#})\<rparr>"


text \<open>A command that is still buffered when its stream closes is not handed over by the next
  heartbeat.\<close>

lemma closed_stream_drops_commands:
  "fst (DrainCommands ''w1'' (fst (fold cmd_step [OpenStream ''w1'', Enqueue ''w1'' cmd, CloseStream ''w1'']
     (New cfg s, empty_log)))) = []"
  by (simp add: New_def DrainCommands_def RegisterCommandStream_def enqueueCommandLocked_def CloseCommandStream_def
      Let_def mget_def)

end
