(* ===== verification/Recovery.thy ===== *)
theory Recovery
  imports Job_Lifecycle
begin

text \<open>Rebuilding the coordinator's state from the metadata store after a restart
  (\<^verbatim>\<open>internal/coordinator/recovery.go\<close>, \<^verbatim>\<open>recover\<close> of \<^verbatim>\<open>coordinator.go\<close>),
  the reconciliation of a worker that registers (\<^verbatim>\<open>reconcile.go\<close>) and the detection of lost
  workers (\<^verbatim>\<open>task_worker_loss.go\<close>). The loops over Go maps visit them in the order of the
  association list.\<close>

section \<open>Strings\<close>

definition HasSuffix :: "'a list \<Rightarrow> 'a list \<Rightarrow> bool" where
  "HasSuffix s p = (length p \<le> length s \<and> drop (length s - length p) s = p)"

text \<open>\<^verbatim>\<open>strings.Split\<close> at a single character.\<close>

primrec Split :: "'a list \<Rightarrow> 'a \<Rightarrow> 'a list list" where
  "Split [] sep = [[]]"
| "Split (x # xs) sep =
     (if x = sep then [] # Split xs sep
      else (case Split xs sep of [] \<Rightarrow> [[x]] | p # ps \<Rightarrow> (x # p) # ps))"

section \<open>Recovery\<close>

record recoveredState =
  rs_jobs :: "(string, JobMeta) gomap"
  rs_workers :: "(string, WorkerMeta) gomap"
  rs_epoch :: u64
  rs_config :: "ClusterConfig option"
  latestCheckpoints :: "(string, CheckpointMeta) gomap"
  checkpointsToAbort :: "CheckpointMeta list"
  savepointsToFail :: "SavepointMeta list"

fun recover_jobs_loop :: "msgpack \<Rightarrow> kvEntry list \<Rightarrow> (string, JobMeta) gomap \<Rightarrow> coord_error + (string, JobMeta) gomap" where
  "recover_jobs_loop mp [] jobs = Inr jobs"
| "recover_jobs_loop mp ((k, v) # kvs) jobs =
     (if \<not> HasSuffix k ''/meta'' then recover_jobs_loop mp kvs jobs
      else let parts = Split k (CHR ''/'') in
        if length parts \<noteq> 3 then recover_jobs_loop mp kvs jobs
        else case dec_job mp v of
          None \<Rightarrow> Inl ErrStoreCorrupted
        | Some job \<Rightarrow>
            if job_ID job \<noteq> parts ! 1 then Inl ErrStoreCorrupted
            else recover_jobs_loop mp kvs (AList.update (parts ! 1) job jobs))"

fun recover_workers_loop :: "msgpack \<Rightarrow> kvEntry list \<Rightarrow> (string, WorkerMeta) gomap \<Rightarrow> coord_error + (string, WorkerMeta) gomap" where
  "recover_workers_loop mp [] workers = Inr workers"
| "recover_workers_loop mp ((k, v) # kvs) workers =
     (if \<not> HasSuffix k ''/meta'' then recover_workers_loop mp kvs workers
      else let parts = Split k (CHR ''/'') in
        if length parts \<noteq> 3 then recover_workers_loop mp kvs workers
        else case dec_worker mp v of
          None \<Rightarrow> Inl ErrStoreCorrupted
        | Some worker \<Rightarrow>
            if w_ID worker \<noteq> parts ! 1 then Inl ErrStoreCorrupted
            else recover_workers_loop mp kvs (AList.update (parts ! 1) (worker\<lparr>LastHeartbeat := 0\<rparr>) workers))"

text \<open>The scan of a job's checkpoints keeps the completed one with the largest ID and collects the
  ones in flight, already marked as aborted.\<close>

fun recover_checkpoints_loop ::
  "msgpack \<Rightarrow> kvEntry list \<Rightarrow> CheckpointMeta option \<Rightarrow> CheckpointMeta list \<Rightarrow>
     coord_error + CheckpointMeta option \<times> CheckpointMeta list" where
  "recover_checkpoints_loop mp [] latest aborts = Inr (latest, aborts)"
| "recover_checkpoints_loop mp ((k, v) # kvs) latest aborts =
     (if HasSuffix k ''/latest'' \<or> HasSuffix k ''/metadata.json'' then recover_checkpoints_loop mp kvs latest aborts
      else case dec_cp mp v of
        None \<Rightarrow> Inl ErrStoreCorrupted
      | Some cp \<Rightarrow>
          (case cp_Status cp of
             CheckpointCompleted \<Rightarrow>
               recover_checkpoints_loop mp kvs
                 (case latest of None \<Rightarrow> Some cp | Some l \<Rightarrow> if cp_ID cp > cp_ID l then Some cp else latest) aborts
           | CheckpointTriggered \<Rightarrow>
               recover_checkpoints_loop mp kvs latest (aborts @ [cp\<lparr>cp_Status := CheckpointAborted\<rparr>])
           | CheckpointInProgress \<Rightarrow>
               recover_checkpoints_loop mp kvs latest (aborts @ [cp\<lparr>cp_Status := CheckpointAborted\<rparr>])
           | _ \<Rightarrow> recover_checkpoints_loop mp kvs latest aborts))"

definition recoverJobCheckpoints ::
  "msgpack \<Rightarrow> 's MetadataStore \<Rightarrow> 's \<Rightarrow> string \<Rightarrow> recoveredState \<Rightarrow> coord_error + recoveredState" where
  "recoverJobCheckpoints mp ops s jobID state =
     (case PrefixScan ops s (CheckpointsPrefix jobID) of
        Inl _ \<Rightarrow> Inl ErrRecoveryFailed
      | Inr kvs \<Rightarrow>
          (case recover_checkpoints_loop mp kvs None (checkpointsToAbort state) of
             Inl e \<Rightarrow> Inl e
           | Inr (latest, aborts) \<Rightarrow>
               Inr (state\<lparr>checkpointsToAbort := aborts,
                      latestCheckpoints := (case latest of None \<Rightarrow> latestCheckpoints state
                        | Some cp \<Rightarrow> AList.update jobID cp (latestCheckpoints state))\<rparr>)))"

fun recover_savepoints_loop :: "msgpack \<Rightarrow> kvEntry list \<Rightarrow> SavepointMeta list \<Rightarrow> coord_error + SavepointMeta list" where
  "recover_savepoints_loop mp [] fails = Inr fails"
| "recover_savepoints_loop mp ((k, v) # kvs) fails =
     (case dec_sp mp v of
        None \<Rightarrow> Inl ErrStoreCorrupted
      | Some sp \<Rightarrow>
          recover_savepoints_loop mp kvs
            (if sp_Status sp = SavepointInProgress then fails @ [sp\<lparr>sp_Status := SavepointFailed\<rparr>] else fails))"

definition recoverJobSavepoints ::
  "msgpack \<Rightarrow> 's MetadataStore \<Rightarrow> 's \<Rightarrow> string \<Rightarrow> recoveredState \<Rightarrow> coord_error + recoveredState" where
  "recoverJobSavepoints mp ops s jobID state =
     (case PrefixScan ops s (SavepointsPrefix jobID) of
        Inl _ \<Rightarrow> Inl ErrRecoveryFailed
      | Inr kvs \<Rightarrow>
          (case recover_savepoints_loop mp kvs (savepointsToFail state) of
             Inl e \<Rightarrow> Inl e | Inr fails \<Rightarrow> Inr (state\<lparr>savepointsToFail := fails\<rparr>)))"

primrec each_job ::
  "(string \<Rightarrow> recoveredState \<Rightarrow> coord_error + recoveredState) \<Rightarrow> string list \<Rightarrow> recoveredState \<Rightarrow> coord_error + recoveredState" where
  "each_job f [] state = Inr state"
| "each_job f (j # js) state = (case f j state of Inl e \<Rightarrow> Inl e | Inr state' \<Rightarrow> each_job f js state')"

text \<open>Reading, incrementing and writing back the epoch.\<close>

definition recover_epoch :: "'s MetadataStore \<Rightarrow> 's \<Rightarrow> coord_error + u64" where
  "recover_epoch ops s =
     (case Get ops s ClusterEpochKey of
        Inl _ \<Rightarrow> Inl ErrRecoveryFailed
      | Inr None \<Rightarrow> Inr 0
      | Inr (Some data) \<Rightarrow> if length data \<noteq> 8 then Inl ErrStoreCorrupted else Inr (Uint64BE data))"

definition recover_cluster_config :: "msgpack \<Rightarrow> 's MetadataStore \<Rightarrow> 's \<Rightarrow> coord_error + ClusterConfig option" where
  "recover_cluster_config mp ops s =
     (case Get ops s ClusterConfigKey of
        Inl _ \<Rightarrow> Inl ErrRecoveryFailed
      | Inr None \<Rightarrow> Inr None
      | Inr (Some data) \<Rightarrow> (case dec_cluster mp data of None \<Rightarrow> Inl ErrStoreCorrupted | Some cfg \<Rightarrow> Inr (Some cfg)))"

definition next_epoch :: "u64 \<Rightarrow> u64 list \<Rightarrow> u64" where
  "next_epoch epoch electionEpoch = fold max electionEpoch (epoch + 1)"

definition scan_jobs :: "msgpack \<Rightarrow> 's MetadataStore \<Rightarrow> 's \<Rightarrow> coord_error + (string, JobMeta) gomap" where
  "scan_jobs mp ops s =
     (case PrefixScan ops s JobsPrefix of Inl _ \<Rightarrow> Inl ErrRecoveryFailed | Inr kvs \<Rightarrow> recover_jobs_loop mp kvs [])"

definition scan_workers :: "msgpack \<Rightarrow> 's MetadataStore \<Rightarrow> 's \<Rightarrow> coord_error + (string, WorkerMeta) gomap" where
  "scan_workers mp ops s =
     (case PrefixScan ops s WorkersPrefix of Inl _ \<Rightarrow> Inl ErrRecoveryFailed | Inr kvs \<Rightarrow> recover_workers_loop mp kvs [])"

definition empty_recovered :: "(string, JobMeta) gomap \<Rightarrow> recoveredState" where
  "empty_recovered jobs = \<lparr>rs_jobs = jobs, rs_workers = [], rs_epoch = 0, rs_config = None,
     latestCheckpoints = [], checkpointsToAbort = [], savepointsToFail = []\<rparr>"

definition recoverFromStore ::
  "msgpack \<Rightarrow> 's MetadataStore \<Rightarrow> u64 list \<Rightarrow> 's \<Rightarrow> (coord_error + recoveredState) \<times> 's" where
  "recoverFromStore mp ops electionEpoch s =
     (case scan_jobs mp ops s of
        Inl e \<Rightarrow> (Inl e, s)
      | Inr jobs \<Rightarrow>
     (case each_job (recoverJobCheckpoints mp ops s) (map fst jobs) (empty_recovered jobs) of
        Inl e \<Rightarrow> (Inl e, s)
      | Inr st1 \<Rightarrow>
     (case each_job (recoverJobSavepoints mp ops s) (map fst jobs) st1 of
        Inl e \<Rightarrow> (Inl e, s)
      | Inr st2 \<Rightarrow>
     (case scan_workers mp ops s of
        Inl e \<Rightarrow> (Inl e, s)
      | Inr workers \<Rightarrow>
     (case recover_epoch ops s of
        Inl e \<Rightarrow> (Inl e, s)
      | Inr epoch \<Rightarrow>
     (case recover_cluster_config mp ops s of
        Inl e \<Rightarrow> (Inl e, s)
      | Inr cfg \<Rightarrow>
          if epoch = - 1 then (Inl ErrRecoveryFailed, s)
          else let epoch' = next_epoch epoch electionEpoch in
            (case Set ops s ClusterEpochKey (PutUint64BE epoch') of
               (Some _, s') \<Rightarrow> (Inl ErrRecoveryFailed, s')
             | (None, s') \<Rightarrow>
                 (Inr (st2\<lparr>rs_workers := workers, rs_config := cfg, rs_epoch := epoch'\<rparr>), s'))))))))"

text \<open>The rest of \<open>recover\<close>: the decisions on what was in flight are written, the caches are
  replaced and the name index is rebuilt.\<close>

primrec persist_aborted :: "msgpack \<Rightarrow> 's MetadataStore \<Rightarrow> CheckpointMeta list \<Rightarrow> 's \<Rightarrow> coord_error option \<times> 's" where
  "persist_aborted mp ops [] s = (None, s)"
| "persist_aborted mp ops (cp # cps) s =
     (case enc_cp mp (cp\<lparr>cp_Status := CheckpointAborted\<rparr>) of
        None \<Rightarrow> (Some ErrOther, s)
      | Some data \<Rightarrow>
          (case Set ops s (CheckpointKey (cp_JobID cp) (cp_ID cp)) data of
             (Some e, s') \<Rightarrow> (Some e, s') | (None, s') \<Rightarrow> persist_aborted mp ops cps s'))"

primrec persist_failed :: "msgpack \<Rightarrow> 's MetadataStore \<Rightarrow> SavepointMeta list \<Rightarrow> 's \<Rightarrow> coord_error option \<times> 's" where
  "persist_failed mp ops [] s = (None, s)"
| "persist_failed mp ops (sp # sps) s =
     (case enc_sp mp (sp\<lparr>sp_Status := SavepointFailed\<rparr>) of
        None \<Rightarrow> (Some ErrOther, s)
      | Some data \<Rightarrow>
          (case Set ops s (SavepointKey (sp_JobID sp) (sp_ID sp)) data of
             (Some e, s') \<Rightarrow> (Some e, s') | (None, s') \<Rightarrow> persist_failed mp ops sps s'))"

primrec load_jobs :: "(string \<times> JobMeta) list \<Rightarrow> 's Coordinator \<Rightarrow> 's Coordinator" where
  "load_jobs [] c = c"
| "load_jobs (ij # jobs) c =
     load_jobs jobs ((set_cell (c_fresh c) (snd ij) c)\<lparr>c_jobs := c_jobs c @ [(fst ij, c_fresh c)], c_fresh := Suc (c_fresh c)\<rparr>)"

definition rebuild_names :: "(string, JobMeta) gomap \<Rightarrow> (string, string) gomap" where
  "rebuild_names jobs =
     fold (\<lambda>(_, j) names. if IsTerminal (job_Status j) then names else AList.update (job_Name j) (job_ID j) names) jobs []"

definition recover ::
  "msgpack \<Rightarrow> 's MetadataStore \<Rightarrow> time \<Rightarrow> 's Coordinator \<Rightarrow> coord_error option \<times> 's Coordinator" where
  "recover mp ops now c =
     (case recoverFromStore mp ops [c_epoch c] (c_store c) of
        (Inl e, s) \<Rightarrow> (Some e, c\<lparr>c_store := s\<rparr>)
      | (Inr state, s) \<Rightarrow>
          (case persist_aborted mp ops (checkpointsToAbort state) s of
             (Some e, s) \<Rightarrow> (Some e, c\<lparr>c_store := s\<rparr>)
           | (None, s) \<Rightarrow>
               (case persist_failed mp ops (savepointsToFail state) s of
                  (Some e, s) \<Rightarrow> (Some e, c\<lparr>c_store := s\<rparr>)
                | (None, s) \<Rightarrow>
                    (None, (load_jobs (rs_jobs state) (c\<lparr>c_jobs := []\<rparr>))\<lparr>
                       c_store := s,
                       c_workers := rs_workers state,
                       recoveryFenceUntil := now + WorkerTimeout (c_config c),
                       activeJobNames := rebuild_names (rs_jobs state),
                       c_epoch := max (c_epoch c) (rs_epoch state),
                       recovered := True\<rparr>))))"

definition runSingleNode_start ::
  "msgpack \<Rightarrow> 's MetadataStore \<Rightarrow> time \<Rightarrow> 's Coordinator \<Rightarrow> coord_error option \<times> 's Coordinator" where
  "runSingleNode_start mp ops now c =
     recover mp ops now (c\<lparr>c_state := StateLeader, c_epoch := 1, leaderCtx_err := False\<rparr>)"

section \<open>Keys of jobs and workers\<close>

lemma Split_not_Nil [simp]: "Split s sep \<noteq> []"
  by (induction s) (auto split: list.split)

lemma Split_prefix: "sep \<notin> set a \<Longrightarrow> Split (a @ sep # r) sep = a # Split r sep"
  by (induction a) auto

lemma Split_free: "sep \<notin> set a \<Longrightarrow> Split a sep = [a]"
  by (induction a) auto

lemma Split_single: "Split r sep = [b] \<Longrightarrow> r = b \<and> sep \<notin> set b"
  by (induction r arbitrary: b) (auto split: if_splits list.splits)

lemma Split_cons: "Split r sep = b # c # d \<Longrightarrow> sep \<notin> set b \<and> (\<exists>r'. r = b @ sep # r' \<and> Split r' sep = c # d)"
proof (induction r arbitrary: b)
  case (Cons x r)
  show ?case
  proof (cases "x = sep")
    case True
    then show ?thesis using Cons.prems by (intro conjI exI [of _ r]) auto
  next
    case False
    then obtain b' where b: "b = x # b'" "Split r sep = b' # c # d"
      using Cons.prems by (cases "Split r sep") auto
    obtain r' where "sep \<notin> set b'" "r = b' @ sep # r'" "Split r' sep = c # d"
      using Cons.IH [OF b(2)] by blast
    then show ?thesis using b False by auto
  qed
qed simp

lemma HasSuffix_iff: "HasSuffix s p \<longleftrightarrow> (\<exists>u. s = u @ p)"
proof
  assume "HasSuffix s p"
  then have "s = take (length s - length p) s @ p"
    unfolding HasSuffix_def by (metis append_take_drop_id)
  then show "\<exists>u. s = u @ p" by blast
qed (auto simp: HasSuffix_def)

lemma last_sep_unique:
  "a @ x # b = d @ x # e \<Longrightarrow> x \<notin> set b \<Longrightarrow> x \<notin> set e \<Longrightarrow> a = d \<and> b = e"
proof (induction a arbitrary: d)
  case Nil
  then show ?case by (cases d) auto
next
  case (Cons y a)
  then show ?case by (cases d) (auto simp: Cons_eq_append_conv)
qed

text \<open>The keys that hold metadata under a prefix are those of the identifiers without a slash.\<close>

lemma meta_key_split:
  assumes pre: "CHR ''/'' \<notin> set p"
  shows "HasPrefix k (p @ ''/'') \<and> HasSuffix k ''/meta'' \<and> length (Split k (CHR ''/'')) = 3
    \<longleftrightarrow> (\<exists>i. CHR ''/'' \<notin> set i \<and> k = p @ ''/'' @ i @ ''/meta'')"
proof
  assume k: "HasPrefix k (p @ ''/'') \<and> HasSuffix k ''/meta'' \<and> length (Split k (CHR ''/'')) = 3"
  then obtain r where r: "k = p @ CHR ''/'' # r" unfolding HasPrefix_iff by auto
  have "length (Split r (CHR ''/'')) = 2" using k Split_prefix [OF pre] by (simp add: r)
  then obtain i m where "Split r (CHR ''/'') = [i, m]"
    by (auto simp: length_Suc_conv numeral_2_eq_2)
  from Split_cons [OF this] obtain r' where i: "CHR ''/'' \<notin> set i" "r = i @ CHR ''/'' # r'" "Split r' (CHR ''/'') = [m]"
    by blast
  then have m: "r' = m" "CHR ''/'' \<notin> set m" using Split_single [OF i(3)] by simp_all
  obtain u where "k = u @ CHR ''/'' # ''meta''" using k unfolding HasSuffix_iff by auto
  then have "u @ CHR ''/'' # ''meta'' = (p @ CHR ''/'' # i) @ CHR ''/'' # m" using r i m by simp
  from last_sep_unique [OF this] m have "m = ''meta''" by simp
  then show "\<exists>i. CHR ''/'' \<notin> set i \<and> k = p @ ''/'' @ i @ ''/meta''"
    using i r m by auto
next
  assume "\<exists>i. CHR ''/'' \<notin> set i \<and> k = p @ ''/'' @ i @ ''/meta''"
  then obtain i where i: "CHR ''/'' \<notin> set i" "k = p @ CHR ''/'' # i @ CHR ''/'' # ''meta''" by auto
  have "Split k (CHR ''/'') = [p, i, ''meta'']"
    unfolding i(2) Split_prefix [OF pre] Split_prefix [OF i(1)] by simp
  moreover have "HasSuffix k ''/meta''" unfolding HasSuffix_iff i(2) by (intro exI [of _ "p @ CHR ''/'' # i"]) simp
  moreover have "HasPrefix k (p @ ''/'')" unfolding HasPrefix_iff i(2) by auto
  ultimately show "HasPrefix k (p @ ''/'') \<and> HasSuffix k ''/meta'' \<and> length (Split k (CHR ''/'')) = 3" by simp
qed

lemma meta_key_parts:
  assumes "CHR ''/'' \<notin> set p" "CHR ''/'' \<notin> set i"
  shows "Split (p @ ''/'' @ i @ ''/meta'') (CHR ''/'') = [p, i, ''meta'']"
proof -
  have "p @ ''/'' @ i @ ''/meta'' = p @ CHR ''/'' # i @ CHR ''/'' # ''meta''" by simp
  then show ?thesis by (simp only: Split_prefix [OF assms(1)] Split_prefix [OF assms(2)]) simp
qed

lemma JobMetaKey_inj: "JobMetaKey i = JobMetaKey j \<longleftrightarrow> i = j"
  by (simp add: JobMetaKey_def)

section \<open>Recovered jobs\<close>

lemma job_meta_key:
  "HasPrefix k JobsPrefix \<Longrightarrow> (HasSuffix k ''/meta'' \<and> length (Split k (CHR ''/'')) = 3)
     \<longleftrightarrow> (\<exists>i. CHR ''/'' \<notin> set i \<and> k = JobMetaKey i)"
  using meta_key_split [of "''jobs''" k] by (simp add: JobMetaKey_def)

lemma job_meta_parts: "CHR ''/'' \<notin> set i \<Longrightarrow> Split (JobMetaKey i) (CHR ''/'') ! 1 = i"
  using meta_key_parts [of "''jobs''" i] by (simp add: JobMetaKey_def)

text \<open>One pair of the scan: either it is skipped, or it is the metadata of a job.\<close>

lemma recover_jobs_skip:
  assumes "HasPrefix k JobsPrefix" "\<nexists>i. CHR ''/'' \<notin> set i \<and> k = JobMetaKey i"
  shows "recover_jobs_loop mp ((k, v) # kvs) jobs = recover_jobs_loop mp kvs jobs"
  using job_meta_key [OF assms(1)] assms(2) by (auto simp: Let_def)

lemma recover_jobs_meta:
  assumes "CHR ''/'' \<notin> set i"
  shows "recover_jobs_loop mp ((JobMetaKey i, v) # kvs) jobs =
    (case dec_job mp v of None \<Rightarrow> Inl ErrStoreCorrupted
     | Some job \<Rightarrow> if job_ID job \<noteq> i then Inl ErrStoreCorrupted
         else recover_jobs_loop mp kvs (AList.update i job jobs))"
proof -
  have "HasPrefix (JobMetaKey i) JobsPrefix" by (simp add: HasPrefix_def JobMetaKey_def)
  then have "HasSuffix (JobMetaKey i) ''/meta'' \<and> length (Split (JobMetaKey i) (CHR ''/'')) = 3"
    using job_meta_key assms by blast
  then show ?thesis
    by (simp only: recover_jobs_loop.simps Let_def job_meta_parts [OF assms]) simp
qed

declare recover_jobs_loop.simps(2) [simp del]

lemma recover_jobs_loop_inv:
  assumes "recover_jobs_loop mp kvs acc = Inr jobs" "P acc"
    "\<And>acc job. P acc \<Longrightarrow> P (AList.update (job_ID job) job acc)"
  shows "P jobs"
  using assms(1,2)
proof (induction mp kvs acc rule: recover_jobs_loop.induct)
  case (2 mp k v kvs acc)
  have upd: "job_ID job = i \<Longrightarrow> P (AList.update i job acc)" for job i
    using assms(3) [OF "2.prems"(2)] by auto
  from 2 show ?case
    by (auto simp: recover_jobs_loop.simps Let_def upd split: if_splits option.splits)
qed simp

lemma recover_jobs_loop_ids:
  assumes "recover_jobs_loop mp kvs [] = Inr jobs"
  shows "distinct (map fst jobs)" "map_of jobs i = Some j \<Longrightarrow> job_ID j = i"
proof -
  show "distinct (map fst jobs)"
    by (rule recover_jobs_loop_inv [OF assms, where P = "\<lambda>m. distinct (map fst m)"]) simp_all
  have "\<forall>i j. map_of jobs i = Some j \<longrightarrow> job_ID j = i"
    by (rule recover_jobs_loop_inv [OF assms, where P = "\<lambda>m. \<forall>i j. map_of m i = Some j \<longrightarrow> job_ID j = i"])
      (auto simp: update_conv')
  then show "map_of jobs i = Some j \<Longrightarrow> job_ID j = i" by blast
qed

text \<open>The job the scan leaves under an identifier.\<close>

definition scanned :: "msgpack \<Rightarrow> kvEntry list \<Rightarrow> (string, JobMeta) gomap \<Rightarrow> string \<Rightarrow> JobMeta option" where
  "scanned mp kvs acc i =
     (if CHR ''/'' \<in> set i then map_of acc i
      else case map_of kvs (JobMetaKey i) of Some v \<Rightarrow> dec_job mp v | None \<Rightarrow> map_of acc i)"

lemma recover_jobs_loop_spec:
  assumes "recover_jobs_loop mp kvs acc = Inr jobs" "\<forall>kv \<in> set kvs. HasPrefix (fst kv) JobsPrefix" "keys_ok kvs"
  shows "map_of jobs i = scanned mp kvs acc i"
  using assms
proof (induction kvs arbitrary: acc)
  case (Cons kv kvs)
  obtain k v where kv: "kv = (k, v)" by fastforce
  have ok: "keys_ok kvs" and pre: "HasPrefix k JobsPrefix" "\<forall>kv \<in> set kvs. HasPrefix (fst kv) JobsPrefix"
    using Cons.prems(2,3) kv by (auto simp: keys_ok_Cons)
  have new: "map_of kvs k = None"
    using Cons.prems(3) kv unfolding keys_ok_Cons map_of_eq_None_iff by auto
  show ?case
  proof (cases "\<exists>i. CHR ''/'' \<notin> set i \<and> k = JobMetaKey i")
    case False
    have r: "recover_jobs_loop mp kvs acc = Inr jobs"
      using Cons.prems(1) recover_jobs_skip [OF pre(1) False] by (simp add: kv)
    have "scanned mp (kv # kvs) acc i = scanned mp kvs acc i"
      using False by (auto simp: kv scanned_def)
    then show ?thesis using Cons.IH [OF r pre(2) ok] by simp
  next
    case True
    then obtain i' where i: "CHR ''/'' \<notin> set i'" "k = JobMetaKey i'" by blast
    obtain job where job: "dec_job mp v = Some job" "job_ID job = i'"
      and r: "recover_jobs_loop mp kvs (AList.update i' job acc) = Inr jobs"
      using Cons.prems(1) unfolding kv i(2) recover_jobs_meta [OF i(1)] by (auto split: option.splits if_splits)
    have "scanned mp kvs (AList.update i' job acc) i = scanned mp (kv # kvs) acc i"
    proof (cases "i = i'")
      case True
      then show ?thesis using i job new by (simp add: scanned_def kv update_conv')
    next
      case False
      then show ?thesis using i by (simp add: scanned_def kv update_conv' JobMetaKey_inj split: option.split)
    qed
    then show ?thesis using Cons.IH [OF r pre(2) ok] by simp
  qed
qed (simp add: scanned_def)

lemma each_job_inv:
  assumes "each_job f js st = Inr st'" "\<And>j st st'. f j st = Inr st' \<Longrightarrow> g st' = g st"
  shows "g st' = g st"
  using assms(1)
proof (induction js arbitrary: st)
  case (Cons j js)
  then show ?case using assms(2) by (auto split: sum.splits)
qed simp

lemma recoverJobCheckpoints_jobs: "recoverJobCheckpoints mp ops s j st = Inr st' \<Longrightarrow> rs_jobs st' = rs_jobs st"
  by (auto simp: recoverJobCheckpoints_def split: sum.splits prod.splits)

lemma recoverJobSavepoints_jobs: "recoverJobSavepoints mp ops s j st = Inr st' \<Longrightarrow> rs_jobs st' = rs_jobs st"
  by (auto simp: recoverJobSavepoints_def split: sum.splits)

text \<open>What a successful recovery has established on its way.\<close>

lemma recoverFromStore_success:
  assumes "recoverFromStore mp ops es s = (Inr st, s')"
  shows "scan_jobs mp ops s = Inr (rs_jobs st)
    \<and> (\<exists>epoch. recover_epoch ops s = Inr epoch \<and> epoch \<noteq> - 1 \<and> rs_epoch st = next_epoch epoch es
         \<and> Set ops s ClusterEpochKey (PutUint64BE (rs_epoch st)) = (None, s'))"
proof -
  obtain jobs where jobs: "scan_jobs mp ops s = Inr jobs"
    using assms unfolding recoverFromStore_def by (auto split: sum.splits)
  obtain st1 where st1: "each_job (recoverJobCheckpoints mp ops s) (map fst jobs) (empty_recovered jobs) = Inr st1"
    using assms unfolding recoverFromStore_def jobs by (auto split: sum.splits)
  obtain st2 where st2: "each_job (recoverJobSavepoints mp ops s) (map fst jobs) st1 = Inr st2"
    using assms unfolding recoverFromStore_def jobs sum.case st1 by (auto split: sum.splits)
  have "rs_jobs st1 = rs_jobs (empty_recovered jobs)"
    by (rule each_job_inv [OF st1]) (rule recoverJobCheckpoints_jobs)
  moreover have "rs_jobs st2 = rs_jobs st1"
    by (rule each_job_inv [OF st2]) (rule recoverJobSavepoints_jobs)
  ultimately have j2: "rs_jobs st2 = jobs" by (simp add: empty_recovered_def)
  show ?thesis
    using assms unfolding recoverFromStore_def jobs sum.case st1 st2
    by (auto simp: Let_def j2 split: sum.splits prod.splits if_splits option.splits)
qed

section \<open>Epochs\<close>

lemma u64_succ_greater: "(e::u64) \<noteq> - 1 \<Longrightarrow> e < e + 1"
  using inc_less_eq_self_iff_eq [of e] by (simp add: not_le [symmetric])

lemma fold_max_ge: "(a::'a::linorder) \<le> fold max es a \<and> (\<forall>e \<in> set es. e \<le> fold max es a)"
proof (induction es arbitrary: a)
  case (Cons e es)
  show ?case using Cons.IH [of "max e a"] by (auto intro: order_trans)
qed simp

lemma next_epoch_greater:
  assumes "e \<noteq> - 1"
  shows "e < next_epoch e es" "m \<in> set es \<Longrightarrow> m \<le> next_epoch e es"
  using u64_succ_greater [OF assms] fold_max_ge [of "e + 1" es] unfolding next_epoch_def
  by (auto intro: less_le_trans)

definition stored_epoch :: "bytes option \<Rightarrow> u64" where
  "stored_epoch d = (case d of None \<Rightarrow> 0 | Some b \<Rightarrow> Uint64BE b)"

lemma stored_epoch_PutUint64BE [simp]: "stored_epoch (Some (PutUint64BE e)) = e"
  using be64.dec_take_enc [of e "[]"] by (simp add: stored_epoch_def codec_simps)

context metadata_store
begin

lemma recovered_jobs:
  assumes "inv s" "recoverFromStore mp ops es s = (Inr st, s')"
  shows "map_of (rs_jobs st) i =
      (if CHR ''/'' \<in> set i then None
       else case contents s (JobMetaKey i) of Some v \<Rightarrow> dec_job mp v | None \<Rightarrow> None)"
    "distinct (map fst (rs_jobs st))" "map_of (rs_jobs st) i = Some j \<Longrightarrow> job_ID j = i"
proof -
  obtain kvs where kvs: "PrefixScan ops s JobsPrefix = Inr kvs" and loop: "recover_jobs_loop mp kvs [] = Inr (rs_jobs st)"
    using recoverFromStore_success [OF assms(2)] by (auto simp: scan_jobs_def split: sum.splits)
  have ok: "keys_ok kvs" and m: "map_of kvs = (\<lambda>k. if HasPrefix k JobsPrefix then contents s k else None)"
    using prefix_scan [OF assms(1) kvs] by auto
  have "\<forall>kv \<in> set kvs. HasPrefix (fst kv) JobsPrefix"
    using scan_pairs [OF assms(1) kvs] by force
  from recover_jobs_loop_spec [OF loop this ok, of i]
  have "map_of (rs_jobs st) i = scanned mp kvs [] i" .
  moreover have "HasPrefix (JobMetaKey i) JobsPrefix" by (simp add: HasPrefix_def JobMetaKey_def)
  ultimately show "map_of (rs_jobs st) i =
      (if CHR ''/'' \<in> set i then None
       else case contents s (JobMetaKey i) of Some v \<Rightarrow> dec_job mp v | None \<Rightarrow> None)"
    by (simp add: scanned_def m split: option.split)
  show "distinct (map fst (rs_jobs st))" "map_of (rs_jobs st) i = Some j \<Longrightarrow> job_ID j = i"
    using recover_jobs_loop_ids [OF loop] by blast+
qed

lemma recovered_epoch:
  assumes "inv s" "recoverFromStore mp ops es s = (Inr st, s')"
  shows "inv s'" "contents s' = (contents s)(ClusterEpochKey \<mapsto> PutUint64BE (rs_epoch st))"
    "stored_epoch (contents s ClusterEpochKey) < rs_epoch st" "m \<in> set es \<Longrightarrow> m \<le> rs_epoch st"
proof -
  obtain epoch where e: "recover_epoch ops s = Inr epoch" "epoch \<noteq> - 1" "rs_epoch st = next_epoch epoch es"
    and w: "Set ops s ClusterEpochKey (PutUint64BE (rs_epoch st)) = (None, s')"
    using recoverFromStore_success [OF assms(2)] by blast
  show "inv s'" "contents s' = (contents s)(ClusterEpochKey \<mapsto> PutUint64BE (rs_epoch st))"
    using set [OF assms(1) w] by simp_all
  obtain d where g: "Get ops s ClusterEpochKey = Inr d"
    using e(1) by (auto simp: recover_epoch_def split: sum.splits)
  have "stored_epoch (contents s ClusterEpochKey) = epoch"
    using e(1) g get [OF assms(1) g] by (auto simp: recover_epoch_def stored_epoch_def split: option.splits if_splits)
  then show "stored_epoch (contents s ClusterEpochKey) < rs_epoch st" "m \<in> set es \<Longrightarrow> m \<le> rs_epoch st"
    using next_epoch_greater [OF e(2)] e(3) by simp_all
qed

end

section \<open>Properties of recovery\<close>

text \<open>C21. Every recovery takes a new epoch. The epoch it publishes is greater than the one
  stored before and at least the one of the election, it is durable before the recovery returns,
  and so the epochs of two recoveries that succeed one after the other on the same store are
  strictly increasing, whatever was written to other keys in between.\<close>

theorem recovery_epochs_increase:
  assumes "keys_ok (entries s)" "recoverFromStore mp memory_ops es s = (Inr st, s1)"
    "keys_ok (entries s2)" "map_of (entries s2) ClusterEpochKey = map_of (entries s1) ClusterEpochKey"
    "recoverFromStore mp' memory_ops es' s2 = (Inr st', s3)"
  shows "rs_epoch st < rs_epoch st' \<and> (\<forall>m \<in> set es. m \<le> rs_epoch st)
    \<and> memory_Get s1 ClusterEpochKey \<in> {Inr (Some (PutUint64BE (rs_epoch st))), Inl ErrStoreCorrupted}"
proof -
  note r1 = memory.recovered_epoch [OF assms(1,2)] and r2 = memory.recovered_epoch [OF assms(3,5)]
  have c: "map_of (entries s1) ClusterEpochKey = Some (PutUint64BE (rs_epoch st))"
    using r1(2) by simp
  have "rs_epoch st < rs_epoch st'"
    using r2(3) unfolding assms(4) c by simp
  moreover have "memory_Get s1 ClusterEpochKey \<in> {Inr (Some (PutUint64BE (rs_epoch st))), Inl ErrStoreCorrupted}"
    using memory_Get_spec [OF r1(1)] c by (cases "mem_closed s1") (simp_all add: memory_Get_def)
  ultimately show ?thesis using r1(4) by blast
qed

text \<open>Recovery finds the jobs that were stored, no others: under an identifier without a
  slash it holds the decoded metadata of that identifier, under any other nothing, every job
  carries the identifier it is stored under, and no identifier occurs twice.\<close>

theorem recovered_jobs_exact:
  assumes "keys_ok (entries s)" "recoverFromStore mp memory_ops es s = (Inr st, s')"
  shows "(\<forall>i. map_of (rs_jobs st) i =
      (if CHR ''/'' \<in> set i then None
       else case map_of (entries s) (JobMetaKey i) of Some v \<Rightarrow> dec_job mp v | None \<Rightarrow> None))
    \<and> distinct (map fst (rs_jobs st)) \<and> (\<forall>i j. map_of (rs_jobs st) i = Some j \<longrightarrow> job_ID j = i)"
  using memory.recovered_jobs [OF assms] by blast

text \<open>C33. A transition that was reported as done survives a crash: if the coordinator restarts
  on the store it left behind, the recovered job is the job as it was after the transition. The
  codec is assumed to decode what it encoded for this job.\<close>

theorem transition_survives_restart:
  assumes "transitionJob mp memory_ops now p to c = (None, c')" "keys_ok (entries (c_store c))"
    and "job_ID (c_cells c p) = i" "CHR ''/'' \<notin> set i"
    and codec: "\<And>d. enc_job mp (c_cells c' p) = Some d \<Longrightarrow> dec_job mp d = Some (c_cells c' p)"
    and "recoverFromStore mp memory_ops es (c_store c') = (Inr st, s')"
  shows "map_of (rs_jobs st) i = Some (c_cells c' p) \<and> job_Status (c_cells c' p) = to"
proof -
  have v: "ValidateTransition (job_Status (c_cells c p)) to = None"
    using assms(1) by (auto simp: transitionJob_eq split: option.splits)
  obtain d where ok: "keys_ok (entries (c_store c'))" and d: "enc_job mp (c_cells c' p) = Some d"
    "map_of (entries (c_store c')) (JobMetaKey i) = Some d"
    using memory.transitionJob_store [OF assms(1,2) v] assms(3) by auto
  show ?thesis
    using memory.recovered_jobs(1) [OF ok assms(6), of i] assms(4) d codec [OF d(1)]
      transitionJob_cell [OF assms(1) v] by simp
qed

text \<open>Recovery succeeds on a store that holds no checkpoints, savepoints or workers and whose jobs
  decode.\<close>

lemma memory_scan_all:
  "keys_ok (entries s) \<Longrightarrow> \<not> mem_closed s \<Longrightarrow>
     PrefixScan memory_ops s p = Inr (filter (\<lambda>e. HasPrefix (fst e) p) (entries s))"
  by (simp add: memory_ops_def memory_PrefixScan_spec scan_collect)

lemma memory_read: "keys_ok (entries s) \<Longrightarrow> \<not> mem_closed s \<Longrightarrow> Get memory_ops s k = Inr (map_of (entries s) k)"
  by (simp add: memory_ops_def memory_Get_spec)

lemma each_job_nothing:
  assumes "\<forall>j \<in> set js. \<forall>st. f j st = Inr st"
  shows "each_job f js st = Inr st"
  using assms by (induction js) auto

lemma recover_memory_success:
  assumes ok: "keys_ok (entries s)" "\<not> mem_closed s"
    and jobs: "recover_jobs_loop mp (filter (\<lambda>e. HasPrefix (fst e) JobsPrefix) (entries s)) [] = Inr jobs"
    and none: "\<forall>i. \<forall>e \<in> set (entries s). \<not> HasPrefix (fst e) (CheckpointsPrefix i) \<and> \<not> HasPrefix (fst e) (SavepointsPrefix i)
      \<and> \<not> HasPrefix (fst e) WorkersPrefix"
    and cluster: "map_of (entries s) ClusterConfigKey = None"
    and epoch: "recover_epoch memory_ops s = Inr e" "e \<noteq> - 1"
  shows "\<exists>st. recoverFromStore mp memory_ops es s = (Inr st, put_entry s ClusterEpochKey (PutUint64BE (next_epoch e es)))"
proof -
  have e: "filter (\<lambda>e. HasPrefix (fst e) (CheckpointsPrefix i)) (entries s) = []"
    "filter (\<lambda>e. HasPrefix (fst e) (SavepointsPrefix i)) (entries s) = []"
    "filter (\<lambda>e. HasPrefix (fst e) WorkersPrefix) (entries s) = []" for i
    unfolding filter_empty_conv using none by blast+
  have cps: "each_job (recoverJobCheckpoints mp memory_ops s) (map fst jobs) st = Inr st" for st
    by (rule each_job_nothing) (simp add: recoverJobCheckpoints_def memory_scan_all [OF ok] e(1))
  have sps: "each_job (recoverJobSavepoints mp memory_ops s) (map fst jobs) st = Inr st" for st
    by (rule each_job_nothing) (simp add: recoverJobSavepoints_def memory_scan_all [OF ok] e(2))
  show ?thesis
    unfolding recoverFromStore_def scan_jobs_def scan_workers_def recover_cluster_config_def
      memory_scan_all [OF ok] memory_read [OF ok] sum.case jobs cps sps e cluster epoch option.case
    using epoch(2) ok(2) by (simp add: memory_ops_def memory_Set_def Let_def)
qed

lemma fresh_memory_recovers:
  "\<exists>st. recoverFromStore mp memory_ops es NewMemoryStore =
     (Inr st, put_entry NewMemoryStore ClusterEpochKey (PutUint64BE (next_epoch 0 es)))"
  by (rule recover_memory_success) (simp_all add: NewMemoryStore_def keys_ok_def recover_epoch_def memory_read)

lemma put_entry_new: "entries (put_entry NewMemoryStore k v) = [(k, v)] \<and> \<not> mem_closed (put_entry NewMemoryStore k v)"
  by (simp add: put_entry_def NewMemoryStore_def search_def sort_Search_def search_loop.simps)

lemma keys_ok_single [simp]: "keys_ok [e]" by (simp add: keys_ok_def)

theorem recovery_epochs_increase_witness:
  "\<exists>st s1 st' s3. recoverFromStore no_msgpack memory_ops [7] NewMemoryStore = (Inr st, s1)
     \<and> recoverFromStore no_msgpack memory_ops [] s1 = (Inr st', s3) \<and> rs_epoch st < rs_epoch st' \<and> 7 \<le> rs_epoch st"
proof -
  let ?s1 = "put_entry NewMemoryStore ClusterEpochKey (PutUint64BE (next_epoch 0 [7]))"
  obtain st where r1: "recoverFromStore no_msgpack memory_ops [7] NewMemoryStore = (Inr st, ?s1)"
    using fresh_memory_recovers by blast
  note s1 = put_entry_new [of ClusterEpochKey "PutUint64BE (next_epoch 0 [7])"]
  have "\<exists>st'. recoverFromStore no_msgpack memory_ops [] ?s1 = (Inr st', put_entry ?s1 ClusterEpochKey (PutUint64BE (next_epoch 7 [])))"
    by (rule recover_memory_success)
      (use s1 in \<open>simp_all add: HasPrefix_def ClusterEpochKey_def ClusterConfigKey_def CheckpointsPrefix_def
         SavepointsPrefix_def recover_epoch_def memory_read next_epoch_def codec_simps\<close>)
  then obtain st' s3 where r2: "recoverFromStore no_msgpack memory_ops [] ?s1 = (Inr st', s3)" by blast
  have "keys_ok (entries NewMemoryStore)" "keys_ok (entries ?s1)" using s1 by (simp_all add: NewMemoryStore_def keys_ok_def)
  from recovery_epochs_increase [OF this(1) r1 this(2) refl r2] show ?thesis
    using r1 r2 by auto
qed

text \<open>A coordinator with one job, whose metadata the codec of the example encodes as one byte.\<close>

definition example_job :: JobMeta where
  "example_job = submitted_job ''j1'' ''etl'' 2 [] 5"

definition example_msgpack :: msgpack where
  "example_msgpack = no_msgpack\<lparr>
     enc_job := (\<lambda>j. Some [if job_Status j = JobFailing then 1 else 0]),
     dec_job := (\<lambda>d. Some (if d = [1] then transition_fields example_coord 7 JobFailing example_job else example_job))\<rparr>"

definition example_with_job :: "MemoryStore Coordinator" where
  "example_with_job = (set_cell 0 example_job example_coord)\<lparr>c_jobs := [(''j1'', 0)], c_fresh := 1,
     activeJobNames := [(''etl'', ''j1'')]\<rparr>"

lemma example_with_job_simps:
  "c_cells example_with_job 0 = example_job" "c_store example_with_job = NewMemoryStore"
  "c_jobs example_with_job = [(''j1'', 0)]" "job_ID example_job = ''j1''" "job_Status example_job = JobCreated"
  "transition_fields example_with_job 7 JobFailing example_job = transition_fields example_coord 7 JobFailing example_job"
  by (simp_all add: example_with_job_def example_coord_def New_def example_job_def submitted_job_def
      transition_fields_def resetStableRecoveryBudget_def Let_def)

lemma example_transition:
  "\<exists>c'. transitionJob example_msgpack memory_ops 7 0 JobFailing example_with_job = (None, c')
     \<and> c_cells c' 0 = transition_fields example_coord 7 JobFailing example_job
     \<and> c_store c' = put_entry NewMemoryStore (JobMetaKey ''j1'') [1]"
proof -
  have "ValidateTransition JobCreated JobFailing = None" by (simp add: validate_iff)
  then show ?thesis
    by (simp add: transitionJob_eq example_with_job_simps persistJobLocked_def Let_def
        example_msgpack_def memory_ops_def memory_Set_def NewMemoryStore_def)
qed

lemma example_recovers:
  "\<exists>st s'. recoverFromStore example_msgpack memory_ops [] (put_entry NewMemoryStore (JobMetaKey ''j1'') [1]) = (Inr st, s')"
proof -
  let ?s = "put_entry NewMemoryStore (JobMetaKey ''j1'') [1]"
  note s = put_entry_new [of "JobMetaKey ''j1''" "[1]"]
  have loop: "recover_jobs_loop example_msgpack [(JobMetaKey ''j1'', [1])] [] =
      Inr [(''j1'', transition_fields example_coord 7 JobFailing example_job)]"
    using recover_jobs_meta [of "''j1''" example_msgpack "[1]" "[]" "[]"] example_with_job_simps(4)
    by (simp add: example_msgpack_def)
  have "\<exists>st. recoverFromStore example_msgpack memory_ops [] ?s = (Inr st, put_entry ?s ClusterEpochKey (PutUint64BE (next_epoch 0 [])))"
  proof (rule recover_memory_success)
    show "recover_jobs_loop example_msgpack (filter (\<lambda>e. HasPrefix (fst e) JobsPrefix) (entries ?s)) [] =
        Inr [(''j1'', transition_fields example_coord 7 JobFailing example_job)]"
      using s loop by (simp add: HasPrefix_def JobMetaKey_def)
    show "\<forall>i. \<forall>e \<in> set (entries ?s). \<not> HasPrefix (fst e) (CheckpointsPrefix i) \<and> \<not> HasPrefix (fst e) (SavepointsPrefix i)
        \<and> \<not> HasPrefix (fst e) WorkersPrefix"
    proof (intro allI ballI)
      fix i e assume "e \<in> set (entries ?s)"
      then have "fst e = ''jobs/j1/meta''" using s by (simp add: JobMetaKey_def)
      then show "\<not> HasPrefix (fst e) (CheckpointsPrefix i) \<and> \<not> HasPrefix (fst e) (SavepointsPrefix i) \<and> \<not> HasPrefix (fst e) WorkersPrefix"
        by (auto simp: HasPrefix_def CheckpointsPrefix_def SavepointsPrefix_def)
    qed
  qed (use s in \<open>simp_all add: recover_epoch_def memory_read JobMetaKey_def ClusterEpochKey_def ClusterConfigKey_def\<close>)
  then show ?thesis by blast
qed

theorem recovered_jobs_exact_witness:
  "\<exists>st s'. recoverFromStore example_msgpack memory_ops [] (put_entry NewMemoryStore (JobMetaKey ''j1'') [1]) = (Inr st, s')
     \<and> map_of (rs_jobs st) ''j1'' = Some (transition_fields example_coord 7 JobFailing example_job)
     \<and> map_of (rs_jobs st) ''j2'' = None"
proof -
  let ?s = "put_entry NewMemoryStore (JobMetaKey ''j1'') [1]"
  obtain st s' where r: "recoverFromStore example_msgpack memory_ops [] ?s = (Inr st, s')"
    using example_recovers by blast
  note s = put_entry_new [of "JobMetaKey ''j1''" "[1]"]
  have "keys_ok (entries ?s)" using s by simp
  from recovered_jobs_exact [OF this r] show ?thesis
    using r s by (simp add: JobMetaKey_inj example_msgpack_def)
qed

theorem transition_survives_restart_witness:
  "\<exists>c' st s'. transitionJob example_msgpack memory_ops 7 0 JobFailing example_with_job = (None, c')
     \<and> recoverFromStore example_msgpack memory_ops [] (c_store c') = (Inr st, s')
     \<and> map_of (rs_jobs st) ''j1'' = Some (c_cells c' 0) \<and> job_Status (c_cells c' 0) = JobFailing"
proof -
  obtain c' where t: "transitionJob example_msgpack memory_ops 7 0 JobFailing example_with_job = (None, c')"
    and c': "c_cells c' 0 = transition_fields example_coord 7 JobFailing example_job"
      "c_store c' = put_entry NewMemoryStore (JobMetaKey ''j1'') [1]"
    using example_transition by blast
  obtain st s' where r: "recoverFromStore example_msgpack memory_ops [] (c_store c') = (Inr st, s')"
    using example_recovers unfolding c'(2) by blast
  have "keys_ok (entries (c_store example_with_job))"
    by (simp add: example_with_job_simps NewMemoryStore_def keys_ok_def)
  from transition_survives_restart [OF t this _ _ _ r, of "''j1''"] show ?thesis
    using t r by (simp add: example_with_job_simps c'(1) example_msgpack_def)
qed

end
