(* ===== verification/Workers.thy ===== *)
theory Workers
  imports Recovery
begin

text \<open>Workers: registration and the reconciliation of their tasks
  (\<^verbatim>\<open>internal/coordinator/reconcile.go\<close>), heartbeats (\<^verbatim>\<open>rpc_handlers.go\<close>) and the
  detection of lost workers (\<^verbatim>\<open>task_worker_loss.go\<close>).\<close>

section \<open>Publishing a changed copy of a job\<close>

text \<open>Several routines persist a changed copy of a job and, when that succeeds, write it back through
  the pointer they hold and put that pointer back into the cache.\<close>

definition publish_copy ::
  "msgpack \<Rightarrow> 's MetadataStore \<Rightarrow> nat \<Rightarrow> JobMeta \<Rightarrow> 's Coordinator \<Rightarrow> coord_error option \<times> 's Coordinator" where
  "publish_copy mp ops p next c =
     (case persist_copy mp ops next c of
        (Some e, c1) \<Rightarrow> (Some e, c1)
      | (None, c1) \<Rightarrow>
          let c2 = set_cell p next c1 in (None, c2\<lparr>c_jobs := AList.update (job_ID next) p (c_jobs c2)\<rparr>))"

section \<open>Reconciliation\<close>

record RegisterWorkerRequest =
  rw_SupportsReservations :: bool
  rw_CheckpointAddress :: string
  rw_WorkerID :: string
  rw_Address :: string
  rw_TaskSlotsTotal :: int
  rw_HighestSeenEpoch :: u64
  rw_RunningTasks :: "string list"

record RegisterWorkerResponse =
  rr_Epoch :: u64
  rr_TasksToCancel :: "string list"
  rr_MissingTasks :: "string list"

record ReconcileResult =
  taskJobs :: "(string, string) gomap"
  TasksToCancel :: "string list"
  MissingTasks :: "string list"

text \<open>The assignments of the jobs that are not terminal: the tasks assigned to the worker and the
  job each belongs to.\<close>

definition note_assignment ::
  "string \<Rightarrow> string \<Rightarrow> string \<times> string \<Rightarrow> (string, bool) gomap \<times> (string, string) gomap \<Rightarrow> (string, bool) gomap \<times> (string, string) gomap" where
  "note_assignment workerID jobID task acc =
     (if snd task = workerID then (AList.update (fst task) True (fst acc), AList.update (fst task) jobID (snd acc)) else acc)"

fun reconcile_jobs ::
  "msgpack \<Rightarrow> 's MetadataStore \<Rightarrow> 's Coordinator \<Rightarrow> string \<Rightarrow> (string \<times> nat) list \<Rightarrow>
     (string, bool) gomap \<times> (string, string) gomap \<Rightarrow> coord_error + (string, bool) gomap \<times> (string, string) gomap" where
  "reconcile_jobs mp ops c workerID [] acc = Inr acc"
| "reconcile_jobs mp ops c workerID ((jobID, p) # jobs) acc =
     (if IsTerminal (job_Status (c_cells c p)) then reconcile_jobs mp ops c workerID jobs acc
      else case Get ops (c_store c) (JobAssignmentsKey jobID) of
        Inl e \<Rightarrow> Inl e
      | Inr data \<Rightarrow>
          if nil_bytes data = [] then reconcile_jobs mp ops c workerID jobs acc
          else case dec_tam mp (nil_bytes data) of
            None \<Rightarrow> Inl ErrOther
          | Some assignment \<Rightarrow>
              if tam_JobID assignment \<noteq> jobID then Inl ErrOther
              else reconcile_jobs mp ops c workerID jobs
                (fold (note_assignment workerID jobID) (Assignments assignment) acc))"

definition worker_task_list :: "msgpack \<Rightarrow> 's MetadataStore \<Rightarrow> 's Coordinator \<Rightarrow> string \<Rightarrow> coord_error + (string, bool) gomap" where
  "worker_task_list mp ops c workerID =
     (case Get ops (c_store c) (WorkerTasksKey workerID) of
        Inl e \<Rightarrow> Inl e
      | Inr None \<Rightarrow> Inr []
      | Inr (Some data) \<Rightarrow>
          (case dec_task_list mp data of
             None \<Rightarrow> Inl ErrOther
           | Some tasks \<Rightarrow> Inr (fold (\<lambda>t m. AList.update t True m) tasks [])))"

definition reconcileTasks ::
  "msgpack \<Rightarrow> 's MetadataStore \<Rightarrow> 's Coordinator \<Rightarrow> string \<Rightarrow> string list \<Rightarrow> coord_error + ReconcileResult" where
  "reconcileTasks mp ops c workerID reported =
     (case worker_task_list mp ops c workerID of
        Inl e \<Rightarrow> Inl e
      | Inr assigned0 \<Rightarrow>
          (case reconcile_jobs mp ops c workerID (c_jobs c) (assigned0, []) of
             Inl e \<Rightarrow> Inl e
           | Inr (assigned, tj) \<Rightarrow>
               Inr \<lparr>taskJobs = tj,
                    TasksToCancel = filter (\<lambda>t. \<not> mget assigned t False) reported,
                    MissingTasks = filter (\<lambda>t. t \<notin> set reported) (map fst assigned)\<rparr>))"

section \<open>Registration\<close>

primrec missing_tasks_loop ::
  "msgpack \<Rightarrow> 's MetadataStore \<Rightarrow> time \<Rightarrow> (string, string) gomap \<Rightarrow> string list \<Rightarrow> 's Coordinator \<Rightarrow> coord_error option \<times> 's Coordinator" where
  "missing_tasks_loop mp ops now tj [] c = (None, c)"
| "missing_tasks_loop mp ops now tj (taskID # tasks) c0 =
     (let c = c0\<lparr>taskStatuses := AList.update taskID TaskStatusFailed (taskStatuses c0)\<rparr>;
          r = (case map_of (c_jobs c) (mget tj taskID []) of
                 None \<Rightarrow> (None, c)
               | Some p \<Rightarrow>
                   if job_Status (c_cells c p) = JobRunning \<or> job_Status (c_cells c p) = JobDeploying
                   then let next = (resetStableRecoveryBudget c now (c_cells c p))\<lparr>job_Status := JobFailing, UpdatedAt := now\<rparr> in
                     (case enc_job mp next of
                        None \<Rightarrow> (Some ErrOther, c)
                      | Some data \<Rightarrow>
                          (case Set ops (c_store c) (JobMetaKey (job_ID next)) data of
                             (Some e, s) \<Rightarrow> (Some e, c\<lparr>c_store := s\<rparr>)
                           | (None, s) \<Rightarrow> (None, set_cell p next (c\<lparr>c_store := s\<rparr>))))
                   else (None, c))
      in case r of
           (Some e, c1) \<Rightarrow> (Some e, c1)
         | (None, c1) \<Rightarrow> missing_tasks_loop mp ops now tj tasks (snd (markTaskFailed mp ops taskID c1)))"

definition registered_worker :: "RegisterWorkerRequest \<Rightarrow> nat option \<Rightarrow> u64 \<Rightarrow> time \<Rightarrow> WorkerMeta" where
  "registered_worker req peer epoch now =
     \<lparr>Lost = False, RPCPeerEpoch = epoch, RPCClient = peer, SupportsReservations = rw_SupportsReservations req,
      CheckpointAddress = rw_CheckpointAddress req, w_ID = rw_WorkerID req, w_Address = rw_Address req,
      TaskSlotsTotal = rw_TaskSlotsTotal req, TaskSlotsAvailable = rw_TaskSlotsTotal req,
      LastHeartbeat = now, RunningTasks = rw_RunningTasks req\<rparr>"

definition registerWorker ::
  "msgpack \<Rightarrow> 's MetadataStore \<Rightarrow> time \<Rightarrow> RegisterWorkerRequest \<Rightarrow> nat option \<Rightarrow> 's Coordinator \<Rightarrow>
     (coord_error + RegisterWorkerResponse) \<times> 's Coordinator" where
  "registerWorker mp ops now req peer c =
     (if \<not> readyLocked c then (Inl ErrNotLeader, c)
      else if rw_HighestSeenEpoch req > c_epoch c then (Inl ErrStaleEpoch, c)
      else
        let worker = registered_worker req peer (c_epoch c) now in
        case persistWorker mp ops worker c of
          (Some e, c1) \<Rightarrow> (Inl e, c1)
        | (None, c1) \<Rightarrow>
            (case reconcileTasks mp ops c1 (rw_WorkerID req) (rw_RunningTasks req) of
               Inl e \<Rightarrow> (Inl e, c1)
             | Inr result \<Rightarrow>
                 (case missing_tasks_loop mp ops now (taskJobs result) (MissingTasks result) c1 of
                    (Some e, c2) \<Rightarrow> (Inl e, c2)
                  | (None, c2) \<Rightarrow>
                      (Inr \<lparr>rr_Epoch = c_epoch c, rr_TasksToCancel = TasksToCancel result,
                            rr_MissingTasks = MissingTasks result\<rparr>, c2))))"

text \<open>When the session of a worker ends, its connection is forgotten, unless the worker has
  registered again in the meantime.\<close>

definition session_done :: "WorkerMeta \<Rightarrow> 's Coordinator \<Rightarrow> 's Coordinator" where
  "session_done worker c =
     (case map_of (c_workers c) (w_ID worker) of
        Some current \<Rightarrow>
          if RPCClient current = RPCClient worker
          then c\<lparr>c_workers := AList.update (w_ID worker) (current\<lparr>RPCClient := None\<rparr>) (c_workers c)\<rparr>
          else c
      | None \<Rightarrow> c)"

section \<open>Loss of workers\<close>

definition contact_expired :: "'s Coordinator \<Rightarrow> time \<Rightarrow> WorkerMeta \<Rightarrow> bool" where
  "contact_expired c now w = (IsZero (LastHeartbeat w) \<or> Sub now (LastHeartbeat w) \<ge> WorkerTimeout (c_config c))"

definition expireWorkersLocked :: "time \<Rightarrow> 's Coordinator \<Rightarrow> bool \<times> 's Coordinator" where
  "expireWorkersLocked now c =
     (\<exists>(_, w) \<in> set (c_workers c). \<not> Lost w \<and> contact_expired c now w,
      c\<lparr>c_workers := map (\<lambda>(i, w). (i, if \<not> Lost w \<and> contact_expired c now w
          then w\<lparr>Lost := True, TaskSlotsAvailable := 0\<rparr> else w)) (c_workers c)\<rparr>)"

definition expireTaskWorkers :: "time \<Rightarrow> 's Coordinator \<Rightarrow> bool \<times> 's Coordinator" where
  "expireTaskWorkers now c = (if \<not> readyLocked c then (False, c) else expireWorkersLocked now c)"

definition owner_gone :: "'s Coordinator \<Rightarrow> string \<Rightarrow> bool" where
  "owner_gone c owner = (case map_of (c_workers c) owner of None \<Rightarrow> True | Some w \<Rightarrow> Lost w)"

text \<open>The tasks of one assignment: those that are not finished and whose worker is gone have
  failed.\<close>

definition lose_tasks :: "(string \<times> string) list \<Rightarrow> 's Coordinator \<Rightarrow> bool \<times> 's Coordinator" where
  "lose_tasks asg c =
     fold (\<lambda>(task, owner) (hit, c).
        if mget (taskStatuses c) task TaskStatusUnknown = TaskStatusFinished then (hit, c)
        else if owner_gone c owner
        then (True, c\<lparr>taskStatuses := AList.update task TaskStatusFailed (taskStatuses c)\<rparr>)
        else (hit, c)) asg (False, c)"

fun lost_jobs_loop ::
  "msgpack \<Rightarrow> 's MetadataStore \<Rightarrow> (string \<times> nat) list \<Rightarrow> nat list \<Rightarrow> 's Coordinator \<Rightarrow> nat list \<times> 's Coordinator" where
  "lost_jobs_loop mp ops [] failed c = (failed, c)"
| "lost_jobs_loop mp ops ((_, p) # jobs) failed c =
     (let job = c_cells c p in
      if job_Status job \<notin> {JobRunning, JobDeploying, JobFailing} then lost_jobs_loop mp ops jobs failed c
      else case Get ops (c_store c) (JobAssignmentsKey (job_ID job)) of
        Inl _ \<Rightarrow> lost_jobs_loop mp ops jobs failed c
      | Inr data \<Rightarrow>
          (case dec_tam mp (nil_bytes data) of
             None \<Rightarrow> lost_jobs_loop mp ops jobs failed c
           | Some assignment \<Rightarrow>
               if tam_JobID assignment \<noteq> job_ID job then lost_jobs_loop mp ops jobs failed c
               else case lose_tasks (Assignments assignment) c of (hit, c1) \<Rightarrow>
                 lost_jobs_loop mp ops jobs
                   (if hit \<and> job_Status job \<noteq> JobFailing then failed @ [p] else failed) c1))"

primrec fail_jobs_loop ::
  "msgpack \<Rightarrow> 's MetadataStore \<Rightarrow> time \<Rightarrow> nat list \<Rightarrow> 's Coordinator \<Rightarrow> 's Coordinator" where
  "fail_jobs_loop mp ops now [] c = c"
| "fail_jobs_loop mp ops now (p # ps) c =
     fail_jobs_loop mp ops now ps
       (snd (publish_copy mp ops p
          ((resetStableRecoveryBudget c now (c_cells c p))\<lparr>job_Status := JobFailing, UpdatedAt := now\<rparr>) c))"

definition detectLostTaskWorkers ::
  "msgpack \<Rightarrow> 's MetadataStore \<Rightarrow> time \<Rightarrow> 's Coordinator \<Rightarrow> bool \<times> 's Coordinator" where
  "detectLostTaskWorkers mp ops now c =
     (if \<not> readyLocked c then (False, c)
      else case expireWorkersLocked now c of (changed, c1) \<Rightarrow>
        (case lost_jobs_loop mp ops (c_jobs c1) [] c1 of (failed, c2) \<Rightarrow>
           (changed \<or> failed \<noteq> [], fail_jobs_loop mp ops now failed c2)))"

section \<open>Heartbeats\<close>

record HeartbeatRequest =
  hb_WorkerID :: string
  hb_EpochID :: u64
  hb_ActiveSlots :: "int option"

record HeartbeatResponse =
  hr_Accepted :: bool
  hr_EpochID :: u64
  hr_Commands :: "WorkerCommand list"

text \<open>\<open>peer\<close> is the connection the request came in on. The resource figures and the task reports
  of a heartbeat are only kept for display and are left out.\<close>

definition HandleHeartbeat ::
  "time \<Rightarrow> HeartbeatRequest \<Rightarrow> nat option \<Rightarrow> 's Coordinator \<Rightarrow> (coord_error + HeartbeatResponse) \<times> 's Coordinator" where
  "HandleHeartbeat now req peer c =
     (let refused = \<lparr>hr_Accepted = False, hr_EpochID = c_epoch c, hr_Commands = []\<rparr> in
      if \<not> readyLocked c \<or> hb_EpochID req \<noteq> c_epoch c then (Inr refused, c)
      else case map_of (c_workers c) (hb_WorkerID req) of
        None \<Rightarrow> (Inl ErrOther, c)
      | Some w \<Rightarrow>
          if peer \<noteq> None \<and> RPCClient w \<noteq> peer then (Inr refused, c)
          else if Lost w \<or> contact_expired c now w
          then (Inr refused, (snd (expireTaskWorkers now c))\<lparr>schedulerKick := True\<rparr>)
          else
            let w1 = w\<lparr>LastHeartbeat := now\<rparr>;
                available = (case hb_ActiveSlots req of
                   None \<Rightarrow> TaskSlotsAvailable w
                 | Some active \<Rightarrow> max 0 (min (TaskSlotsTotal w) (TaskSlotsTotal w - active)));
                freed = (available > TaskSlotsAvailable w);
                c1 = c\<lparr>c_workers := AList.update (hb_WorkerID req) (w1\<lparr>TaskSlotsAvailable := available\<rparr>) (c_workers c),
                       schedulerKick := schedulerKick c \<or> freed\<rparr>
            in (case DrainCommands (hb_WorkerID req) c1 of (cmds, c2) \<Rightarrow>
                  (Inr \<lparr>hr_Accepted = True, hr_EpochID = c_epoch c, hr_Commands = cmds\<rparr>, c2)))"

section \<open>Reconciliation is exact\<close>

text \<open>A task is assigned to a worker when the worker's own list names it or the persisted
  assignment of a job that is not terminal gives it to the worker.\<close>

definition listed_task :: "msgpack \<Rightarrow> 's MetadataStore \<Rightarrow> 's Coordinator \<Rightarrow> string \<Rightarrow> string \<Rightarrow> bool" where
  "listed_task mp ops c w t \<longleftrightarrow>
     (\<exists>data tasks. Get ops (c_store c) (WorkerTasksKey w) = Inr (Some data) \<and> dec_task_list mp data = Some tasks \<and> t \<in> set tasks)"

definition placed_task :: "msgpack \<Rightarrow> 's MetadataStore \<Rightarrow> 's Coordinator \<Rightarrow> (string \<times> nat) list \<Rightarrow> string \<Rightarrow> string \<Rightarrow> bool" where
  "placed_task mp ops c jobs w t \<longleftrightarrow>
     (\<exists>(i, p) \<in> set jobs. \<not> IsTerminal (job_Status (c_cells c p)) \<and>
        (\<exists>data asg. Get ops (c_store c) (JobAssignmentsKey i) = Inr data \<and> nil_bytes data \<noteq> []
           \<and> dec_tam mp (nil_bytes data) = Some asg \<and> (t, w) \<in> set (Assignments asg)))"

text \<open>A map to \<open>True\<close> as the set of its keys.\<close>

definition true_set :: "(string, bool) gomap \<Rightarrow> string set \<Rightarrow> bool" where
  "true_set m S \<longleftrightarrow> distinct (map fst m) \<and> map_of m = (\<lambda>x. if x \<in> S then Some True else None)"

lemma true_set_update: "true_set m S \<Longrightarrow> true_set (AList.update t True m) (insert t S)"
  by (auto simp: true_set_def update_conv' fun_eq_iff)

lemma true_set_keys: "true_set m S \<Longrightarrow> set (map fst m) = S"
proof -
  assume "true_set m S"
  then have "dom (map_of m) = S" by (auto simp: true_set_def dom_def split: if_splits)
  then show ?thesis by (simp add: dom_map_of_conv_image_fst)
qed

lemma true_set_mget: "true_set m S \<Longrightarrow> mget m t False \<longleftrightarrow> t \<in> S"
  by (simp add: true_set_def mget_def)

lemma fold_assign_set:
  "true_set (fst acc) S \<Longrightarrow> true_set (fst (fold (note_assignment w j) asg acc)) (S \<union> {t. (t, w) \<in> set asg})"
proof (induction asg arbitrary: acc S)
  case (Cons x asg)
  show ?case
  proof (cases "snd x = w")
    case True
    then have "S \<union> {t. (t, w) \<in> set (x # asg)} = insert (fst x) S \<union> {t. (t, w) \<in> set asg}" by (cases x) auto
    then show ?thesis
      using Cons.IH [of "note_assignment w j x acc" "insert (fst x) S"] true_set_update [OF Cons.prems] True
      by (simp add: note_assignment_def)
  next
    case False
    then have "{t. (t, w) \<in> set (x # asg)} = {t. (t, w) \<in> set asg}" by (cases x) auto
    then show ?thesis using Cons False by (simp add: note_assignment_def)
  qed
qed simp

lemma reconcile_jobs_set:
  assumes "reconcile_jobs mp ops c w jobs acc = Inr r" "true_set (fst acc) S"
  shows "true_set (fst r) (S \<union> {t. placed_task mp ops c jobs w t})"
  using assms
proof (induction jobs arbitrary: acc S)
  case Nil
  then show ?case by (simp add: placed_task_def)
next
  case (Cons ip jobs)
  obtain i p where ip: "ip = (i, p)" by fastforce
  show ?case
  proof (cases "IsTerminal (job_Status (c_cells c p))")
    case True
    then have "placed_task mp ops c (ip # jobs) w = placed_task mp ops c jobs w"
      by (simp add: ip placed_task_def fun_eq_iff)
    then show ?thesis using Cons True by (simp add: ip)
  next
    case live: False
    then obtain data where d: "Get ops (c_store c) (JobAssignmentsKey i) = Inr data"
      using Cons.prems by (auto simp: ip split: sum.splits)
    show ?thesis
    proof (cases "nil_bytes data = []")
      case True
      then have "placed_task mp ops c (ip # jobs) w = placed_task mp ops c jobs w"
        using d by (simp add: ip placed_task_def fun_eq_iff)
      then show ?thesis using Cons live d True by (simp add: ip)
    next
      case False
      then obtain asg where a: "dec_tam mp (nil_bytes data) = Some asg"
        and r: "reconcile_jobs mp ops c w jobs (fold (note_assignment w i) (Assignments asg) acc) = Inr r"
        using Cons.prems live d by (auto simp: ip split: option.splits if_splits)
      have "{t. placed_task mp ops c (ip # jobs) w t} = {t. (t, w) \<in> set (Assignments asg)} \<union> {t. placed_task mp ops c jobs w t}"
        using live d a False by (auto simp: ip placed_task_def)
      then show ?thesis
        using Cons.IH [OF r fold_assign_set [OF Cons.prems(2)]] by (simp add: Un_assoc)
    qed
  qed
qed

lemma fold_true_set: "true_set m S \<Longrightarrow> true_set (fold (\<lambda>t m. AList.update t True m) ts m) (S \<union> set ts)"
proof (induction ts arbitrary: m S)
  case (Cons t ts)
  show ?case using Cons.IH [OF true_set_update [OF Cons.prems]] by simp
qed simp

lemma worker_task_list_set:
  assumes "worker_task_list mp ops c w = Inr a"
  shows "true_set a {t. listed_task mp ops c w t}"
proof -
  have e: "true_set [] {}" by (simp add: true_set_def)
  consider "Get ops (c_store c) (WorkerTasksKey w) = Inr None" "a = []"
    | data ts where "Get ops (c_store c) (WorkerTasksKey w) = Inr (Some data)" "dec_task_list mp data = Some ts"
      "a = fold (\<lambda>t m. AList.update t True m) ts []"
    using assms by (auto simp: worker_task_list_def split: sum.splits option.splits)
  then show ?thesis
  proof cases
    case 1
    then show ?thesis using e by (simp add: listed_task_def)
  next
    case 2
    then show ?thesis using fold_true_set [OF e, of ts] by (simp add: listed_task_def)
  qed
qed

text \<open>Reconciliation compares the two views exactly: the worker is told to cancel the
  tasks it reports that are not assigned to it, and the tasks that are assigned to it but not
  reported are the missing ones, each listed once.\<close>

theorem reconcile_exact:
  assumes "reconcileTasks mp ops c w reported = Inr r"
  shows "set (TasksToCancel r) = {t \<in> set reported. \<not> (listed_task mp ops c w t \<or> placed_task mp ops c (c_jobs c) w t)}
    \<and> set (MissingTasks r) = {t. (listed_task mp ops c w t \<or> placed_task mp ops c (c_jobs c) w t) \<and> t \<notin> set reported}
    \<and> distinct (MissingTasks r)"
proof -
  obtain a0 a where a0: "worker_task_list mp ops c w = Inr a0"
    and a: "reconcile_jobs mp ops c w (c_jobs c) (a0, []) = Inr a"
    and r: "TasksToCancel r = filter (\<lambda>t. \<not> mget (fst a) t False) reported"
      "MissingTasks r = filter (\<lambda>t. t \<notin> set reported) (map fst (fst a))"
    using assms by (auto simp: reconcileTasks_def split: sum.splits prod.splits)
  note s = reconcile_jobs_set [OF a, unfolded fst_conv, OF worker_task_list_set [OF a0]]
  have keys: "set (map fst (fst a)) = {t. listed_task mp ops c w t \<or> placed_task mp ops c (c_jobs c) w t}"
    using true_set_keys [OF s] by auto
  have t: "mget (fst a) t False \<longleftrightarrow> listed_task mp ops c w t \<or> placed_task mp ops c (c_jobs c) w t" for t
    using true_set_mget [OF s] by simp
  have "set (TasksToCancel r) = {t \<in> set reported. \<not> (listed_task mp ops c w t \<or> placed_task mp ops c (c_jobs c) w t)}"
    unfolding r t by auto
  moreover have "set (MissingTasks r) = {t. (listed_task mp ops c w t \<or> placed_task mp ops c (c_jobs c) w t) \<and> t \<notin> set reported}"
    unfolding r set_filter keys by auto
  moreover have "distinct (MissingTasks r)" unfolding r by (rule distinct_filter) (use s in \<open>simp add: true_set_def\<close>)
  ultimately show ?thesis by blast
qed

theorem reconcile_exact_witness:
  "\<exists>r. reconcileTasks (no_msgpack\<lparr>dec_task_list := (\<lambda>_. Some [''t1'', ''t2''])\<rparr>) memory_ops
       (example_coord\<lparr>c_store := put_entry NewMemoryStore (WorkerTasksKey ''w1'') [0]\<rparr>) ''w1'' [''t2'', ''t3''] = Inr r
     \<and> set (TasksToCancel r) = {''t3''} \<and> set (MissingTasks r) = {''t1''}"
proof -
  let ?mp = "no_msgpack\<lparr>dec_task_list := (\<lambda>_. Some [''t1'', ''t2''])\<rparr>"
  let ?s = "put_entry NewMemoryStore (WorkerTasksKey ''w1'') [0]"
  let ?c = "example_coord\<lparr>c_store := ?s\<rparr>"
  note s = put_entry_new [of "WorkerTasksKey ''w1''" "[0]"]
  have g: "Get memory_ops ?s (WorkerTasksKey ''w1'') = Inr (Some [0])"
    using memory_read [of ?s "WorkerTasksKey ''w1''"] s by simp
  have jobs: "c_jobs ?c = []" by (simp add: example_coord_def New_def)
  obtain r where r: "reconcileTasks ?mp memory_ops ?c ''w1'' [''t2'', ''t3''] = Inr r"
    by (simp add: reconcileTasks_def worker_task_list_def g jobs)
  have l: "listed_task ?mp memory_ops ?c ''w1'' t \<longleftrightarrow> t \<in> {''t1'', ''t2''}" for t
    by (simp add: listed_task_def g)
  have "\<not> placed_task ?mp memory_ops ?c (c_jobs ?c) ''w1'' t" for t
    by (simp add: placed_task_def jobs)
  with reconcile_exact [OF r] have "set (TasksToCancel r) = {t \<in> {''t2'', ''t3''}. t \<notin> {''t1'', ''t2''}}"
    "set (MissingTasks r) = {t \<in> {''t1'', ''t2''}. t \<notin> {''t2'', ''t3''}}"
    unfolding l by auto
  then show ?thesis using r by auto
qed

section \<open>The job index under worker events\<close>

lemma persist_copy_fields:
  assumes "persist_copy mp ops next c = (e, c')"
  shows "c_fresh c' = Suc (c_fresh c)" "c_cells c' = (c_cells c)(c_fresh c := next)" "activeJobNames c' = activeJobNames c"
    "e = None \<Longrightarrow> c_jobs c' = AList.update (job_ID next) (c_fresh c) (c_jobs c)" "e \<noteq> None \<Longrightarrow> c_jobs c' = c_jobs c"
  using assms unfolding persist_copy_def persistJobLocked_def Let_def
  by (auto simp: set_cell_def split: option.splits prod.splits)

lemma update_map_of_same: "map_of m k = Some v \<Longrightarrow> map_of (AList.update k v m) = map_of m"
  by (auto simp: update_conv' fun_eq_iff)

lemma index_ok_publish:
  assumes "publish_copy mp ops p next c = (e, c')" "index_ok c" "map_of (c_jobs c) i = Some p"
    and next_job: "job_ID next = i" "job_Name next = job_Name (c_cells c p)"
      "IsTerminal (job_Status next) = IsTerminal (job_Status (c_cells c p))"
  shows "index_ok c'"
proof -
  obtain e1 c1 where p: "persist_copy mp ops next c = (e1, c1)" by fastforce
  note f = persist_copy_fields [OF p]
  have lt: "p < c_fresh c" using index_okD(3) [OF assms(2,3)] by simp
  let ?c0 = "c1\<lparr>c_jobs := c_jobs c\<rparr>"
  have ok: "index_ok ?c0"
    by (rule index_ok_more_cells [OF assms(2)]) (use f in simp_all)
  show ?thesis
  proof (cases e1)
    case (Some x)
    then have "c' = c1" using assms(1) p by (simp add: publish_copy_def)
    then show ?thesis using f(5) Some ok by (simp add: index_ok_cong [of c1 ?c0])
  next
    case None
    have "index_ok (set_cell p next ?c0)"
      by (rule index_ok_set_cell [OF ok]) (use assms(3) next_job lt f(2) in simp_all)
    moreover have c': "c' = (set_cell p next c1)\<lparr>c_jobs := AList.update i p (AList.update i (c_fresh c) (c_jobs c))\<rparr>"
      using assms(1) p None f(4) next_job(1) by (simp add: publish_copy_def Let_def)
    have "map_of (c_jobs c') = map_of (c_jobs (set_cell p next ?c0))"
      using assms(3) by (auto simp: c' update_conv' fun_eq_iff)
    ultimately show ?thesis
      by (intro index_ok_map_of [of c' "set_cell p next ?c0"]) (use index_okD(1) [OF assms(2)] in \<open>simp_all add: c'\<close>)
  qed
qed

end
