(* ===== verification/Checkpoint_Manifest.thy ===== *)
theory Checkpoint_Manifest
  imports Coord_Types
begin

text \<open>The manifest of a checkpoint and its validation
  (\<^verbatim>\<open>internal/engine/checkpoint_metadata.go\<close>, \<^verbatim>\<open>checkpoint_metadata_complete.go\<close>,
  \<^verbatim>\<open>checkpoint_metadata_validation.go\<close>). Error messages are values of a datatype.
  JSON decoding is an argument.\<close>

section \<open>Data\<close>

record OperatorMeta =
  om_OperatorID :: string
  om_Type :: string
  om_Parallelism :: int
  om_ChainedTo :: "string option"

record JobGraphMeta =
  gm_NumKeyGroups :: int
  gm_Operators :: "OperatorMeta list"

record KeyGroupRangeMeta =
  krm_Start :: int
  krm_End :: int

record TaskMeta =
  SinkPrepared :: bool
  SinkCommittedCheckpoint :: u64
  StateSHA256 :: "(string, string) gomap"
  tm_TaskID :: string
  tm_OperatorID :: string
  tm_SubtaskIndex :: int
  tm_KeyGroupRange :: KeyGroupRangeMeta
  StatePath :: string
  StateSizeBytes :: int
  StateFiles :: "string list"
  SourceOffsets :: bytes
  StateBackendType :: string

record SinkTransaction =
  st_TaskID :: string
  st_OperatorID :: string
  CommittedCheckpoint :: int
  TransactionID :: "string option"
  TransactionState :: string

record CheckpointMetadata =
  SchemaVersion :: int
  cm_Type :: string
  cm_CheckpointID :: int
  cm_JobID :: string
  cm_JobName :: string
  cm_TriggerTime :: time
  cm_CompletionTime :: time
  DurationMs :: int
  cm_JobGraph :: JobGraphMeta
  cm_Tasks :: "TaskMeta list"
  SinkTxns :: "SinkTransaction list"

definition CurrentSchemaVersion :: int where "CurrentSchemaVersion = 1"

abbreviation CheckpointType_name :: string where "CheckpointType_name \<equiv> ''checkpoint''"
abbreviation SavepointType_name :: string where "SavepointType_name \<equiv> ''savepoint''"

section \<open>Paths\<close>

text \<open>\<^verbatim>\<open>utf8.ValidString\<close>: one byte, or a lead byte with its continuation bytes, in the ranges
  that exclude overlong forms, surrogates and values above U+10FFFF.\<close>

definition cont :: "char \<Rightarrow> nat \<Rightarrow> nat \<Rightarrow> bool" where
  "cont c lo hi = (lo \<le> of_char c \<and> of_char c \<le> hi)"

fun valid_utf8 :: "string \<Rightarrow> bool" where
  "valid_utf8 [] = True"
| "valid_utf8 (a # r) =
     (let x = (of_char a :: nat) in
      if x < 128 then valid_utf8 r
      else if 194 \<le> x \<and> x \<le> 223 then (case r of b # r' \<Rightarrow> cont b 128 191 \<and> valid_utf8 r' | _ \<Rightarrow> False)
      else if 224 \<le> x \<and> x \<le> 239 then
        (case r of b # c # r' \<Rightarrow>
           cont b (if x = 224 then 160 else 128) (if x = 237 then 159 else 191) \<and> cont c 128 191 \<and> valid_utf8 r'
         | _ \<Rightarrow> False)
      else if 240 \<le> x \<and> x \<le> 244 then
        (case r of b # c # d # r' \<Rightarrow>
           cont b (if x = 240 then 144 else 128) (if x = 244 then 143 else 191) \<and> cont c 128 191 \<and> cont d 128 191 \<and> valid_utf8 r'
         | _ \<Rightarrow> False)
      else False)"

primrec split_slash :: "string \<Rightarrow> string list" where
  "split_slash [] = [[]]"
| "split_slash (x # xs) =
     (if x = CHR ''/'' then [] # split_slash xs
      else (case split_slash xs of [] \<Rightarrow> [[x]] | p # ps \<Rightarrow> (x # p) # ps))"

text \<open>\<^verbatim>\<open>fs.ValidPath\<close>.\<close>

definition ValidPath :: "string \<Rightarrow> bool" where
  "ValidPath name =
     (valid_utf8 name \<and> (name = ''.'' \<or> (\<forall>e \<in> set (split_slash name). e \<noteq> [] \<and> e \<noteq> ''.'' \<and> e \<noteq> ''..'')))"

definition validCheckpointRelativePath :: "string \<Rightarrow> bool" where
  "validCheckpointRelativePath name =
     (name \<noteq> ''.'' \<and> ValidPath name \<and> (\<forall>c \<in> set name. c \<noteq> char_of (92::nat) \<and> c \<noteq> CHR '':'' \<and> c \<noteq> char_of (0::nat)))"

definition TrimSlash :: "string \<Rightarrow> string" where
  "TrimSlash s = (if s \<noteq> [] \<and> last s = CHR ''/'' then butlast s else s)"

section \<open>Validation\<close>

datatype violation =
    BadSchemaVersion | BadType | EmptyJobID | BadNumKeyGroups
  | EmptyOperatorID nat | DuplicateOperatorID nat | BadParallelism nat
  | EmptyTaskID nat | DuplicateTaskID nat | EmptyTaskOperator nat | UnknownTaskOperator nat
  | SubtaskOutside nat | DuplicateSubtask nat | BadStatePath nat | NegativeStateSize nat
  | BadStateFile nat string | DuplicateStateFile nat string
  | RangeStartNegative nat | RangeEmpty nat | RangeBeyondGroups nat

fun validate_operators :: "nat \<Rightarrow> string list \<Rightarrow> OperatorMeta list \<Rightarrow> string list \<times> violation list" where
  "validate_operators i seen [] = (seen, [])"
| "validate_operators i seen (op # ops) =
     (let (seen', e) =
        (if om_OperatorID op = [] then (seen, [EmptyOperatorID i])
         else if om_OperatorID op \<in> set seen then (seen, [DuplicateOperatorID i])
         else (om_OperatorID op # seen, []));
          e2 = (if om_Parallelism op \<le> 0 then [BadParallelism i] else []);
          (seen'', es) = validate_operators (Suc i) seen' ops
      in (seen'', e @ e2 @ es))"

fun validate_files :: "nat \<Rightarrow> string list \<Rightarrow> string list \<Rightarrow> violation list" where
  "validate_files i seen [] = []"
| "validate_files i seen (name # names) =
     (if \<not> validCheckpointRelativePath name \<or> CHR ''/'' \<in> set name then [BadStateFile i name] else [])
     @ (if name \<in> set seen then [DuplicateStateFile i name] else [])
     @ validate_files i (name # seen) names"

definition validate_range :: "int \<Rightarrow> nat \<Rightarrow> KeyGroupRangeMeta \<Rightarrow> violation list" where
  "validate_range groups i kg =
     (if krm_Start kg < 0 then [RangeStartNegative i] else [])
     @ (if krm_Start kg \<ge> krm_End kg then [RangeEmpty i] else [])
     @ (if groups > 0 \<and> krm_End kg > groups then [RangeBeyondGroups i] else [])"

text \<open>The loop over the tasks carries the task IDs and the subtasks seen so far.\<close>

fun validate_tasks ::
  "int \<Rightarrow> OperatorMeta list \<Rightarrow> string list \<Rightarrow> nat \<Rightarrow> string list \<Rightarrow> (string \<times> int) list \<Rightarrow> TaskMeta list \<Rightarrow> violation list" where
  "validate_tasks groups ops opIDs i ids subtasks [] = []"
| "validate_tasks groups ops opIDs i ids subtasks (task # tasks) =
     (let (ids', e1) =
        (if tm_TaskID task = [] then (ids, [EmptyTaskID i])
         else if tm_TaskID task \<in> set ids then (ids, [DuplicateTaskID i])
         else (tm_TaskID task # ids, []));
          e2 = (if tm_OperatorID task = [] then [EmptyTaskOperator i]
                else if tm_OperatorID task \<notin> set opIDs then [UnknownTaskOperator i] else []);
          (subtasks', e3) =
        (case map_of (rev (map (\<lambda>op. (om_OperatorID op, op)) ops)) (tm_OperatorID task) of
           None \<Rightarrow> (subtasks, [])
         | Some op \<Rightarrow>
             ((tm_OperatorID task, tm_SubtaskIndex task) # subtasks,
              (if tm_SubtaskIndex task < 0 \<or> tm_SubtaskIndex task \<ge> om_Parallelism op then [SubtaskOutside i] else [])
              @ (if (tm_OperatorID task, tm_SubtaskIndex task) \<in> set subtasks then [DuplicateSubtask i] else [])));
          e4 = (if \<not> validCheckpointRelativePath (TrimSlash (StatePath task)) then [BadStatePath i] else []);
          e5 = (if StateSizeBytes task < 0 then [NegativeStateSize i] else []);
          e6 = validate_files i [] (StateFiles task);
          e7 = validate_range groups i (tm_KeyGroupRange task)
      in e1 @ e2 @ e3 @ e4 @ e5 @ e6 @ e7
         @ validate_tasks groups ops opIDs (Suc i) ids' subtasks' tasks)"

definition Validate :: "CheckpointMetadata \<Rightarrow> violation list" where
  "Validate m =
     (let ops = gm_Operators (cm_JobGraph m);
          (opIDs, opErrs) = validate_operators 0 [] ops
      in (if SchemaVersion m \<noteq> CurrentSchemaVersion then [BadSchemaVersion] else [])
         @ (if cm_Type m \<noteq> CheckpointType_name \<and> cm_Type m \<noteq> SavepointType_name then [BadType] else [])
         @ (if cm_JobID m = [] then [EmptyJobID] else [])
         @ (if gm_NumKeyGroups (cm_JobGraph m) \<le> 0 then [BadNumKeyGroups] else [])
         @ opErrs
         @ validate_tasks (gm_NumKeyGroups (cm_JobGraph m)) ops opIDs 0 [] [] (cm_Tasks m))"

section \<open>Completeness\<close>

definition operator_map :: "OperatorMeta list \<Rightarrow> (string, OperatorMeta) gomap" where
  "operator_map ops = fold (\<lambda>op m. AList.update (om_OperatorID op) op m) ops []"

text \<open>The walk from an operator to the head of its chain. Every step enters an operator that has
  not been seen, so the walk ends.\<close>

function chain_walk :: "(string, OperatorMeta) gomap \<Rightarrow> int \<Rightarrow> string list \<Rightarrow> OperatorMeta \<Rightarrow> bool" where
  "chain_walk ops par seen current =
     (case om_ChainedTo current of
        None \<Rightarrow> True
      | Some parentID \<Rightarrow>
          (case map_of ops parentID of
             None \<Rightarrow> False
           | Some parent \<Rightarrow>
               if om_OperatorID parent \<in> set seen then False
               else if om_Parallelism parent \<noteq> par then False
               else chain_walk ops par (om_OperatorID parent # seen) parent))"
  by pat_completeness auto
termination
proof (relation "measure (\<lambda>(ops, par, seen, current). card (om_OperatorID ` snd ` set ops - set seen))")
  fix ops :: "(string, OperatorMeta) gomap" and par seen current parentID parent
  assume "map_of ops parentID = Some parent" "om_OperatorID parent \<notin> set seen"
  then have "om_OperatorID parent \<in> om_OperatorID ` snd ` set ops - set seen"
    by (force dest: map_of_SomeD)
  then have "card (om_OperatorID ` snd ` set ops - set seen - {om_OperatorID parent})
      < card (om_OperatorID ` snd ` set ops - set seen)"
    by (intro card_Diff1_less) auto
  moreover have "om_OperatorID ` snd ` set ops - set (om_OperatorID parent # seen)
      = om_OperatorID ` snd ` set ops - set seen - {om_OperatorID parent}" by auto
  ultimately show "((ops, par, om_OperatorID parent # seen, parent), (ops, par, seen, current))
      \<in> measure (\<lambda>(ops, par, seen, current). card (om_OperatorID ` snd ` set ops - set seen))"
    by simp
qed simp

declare chain_walk.simps [simp del]

definition checksums_ok :: "TaskMeta \<Rightarrow> bool" where
  "checksums_ok task =
     (\<forall>(name, checksum) \<in> set (StateSHA256 task).
        name \<in> set (StateFiles task) \<and> length checksum = 64
        \<and> (\<forall>c \<in> set checksum. c \<in> set ''0123456789abcdefABCDEF''))"

fun complete_tasks ::
  "(string, OperatorMeta) gomap \<Rightarrow> string list \<Rightarrow> TaskMeta list \<Rightarrow> bool" where
  "complete_tasks ops paths [] = True"
| "complete_tasks ops paths (task # tasks) =
     ((case map_of ops (tm_OperatorID task) of None \<Rightarrow> True | Some op \<Rightarrow> om_ChainedTo op = None)
      \<and> TrimSlash (StatePath task) \<notin> set paths \<and> checksums_ok task
      \<and> complete_tasks ops (TrimSlash (StatePath task) # paths) tasks)"

text \<open>The owned ranges, sorted by their start, must follow each other without a gap.\<close>

fun ranges_cover :: "int \<Rightarrow> KeyGroupRangeMeta list \<Rightarrow> int option" where
  "ranges_cover end [] = Some end"
| "ranges_cover end (r # rs) = (if krm_Start r \<noteq> end then None else ranges_cover (krm_End r) rs)"

definition owned_tasks :: "string \<Rightarrow> TaskMeta list \<Rightarrow> TaskMeta list" where
  "owned_tasks opID tasks = filter (\<lambda>t. tm_OperatorID t = opID) tasks"

definition operator_covered :: "int \<Rightarrow> TaskMeta list \<Rightarrow> OperatorMeta \<Rightarrow> bool" where
  "operator_covered groups tasks op =
     (om_ChainedTo op \<noteq> None \<or>
      (let owned = sort_key (\<lambda>t. krm_Start (tm_KeyGroupRange t)) (owned_tasks (om_OperatorID op) tasks) in
       int (length owned) = om_Parallelism op \<and> ranges_cover 0 (map tm_KeyGroupRange owned) = Some groups))"

definition ValidateComplete :: "CheckpointMetadata \<Rightarrow> bool" where
  "ValidateComplete m =
     (let ops = gm_Operators (cm_JobGraph m); opm = operator_map ops in
      Validate m = [] \<and> cm_CheckpointID m > 0 \<and> ops \<noteq> []
      \<and> (\<forall>op \<in> set ops. chain_walk opm (om_Parallelism op) [om_OperatorID op] op)
      \<and> complete_tasks opm [] (cm_Tasks m)
      \<and> (\<forall>op \<in> set ops. operator_covered (gm_NumKeyGroups (cm_JobGraph m)) (cm_Tasks m) op))"

section \<open>Decoding\<close>

datatype manifest_error = ErrInvalidCheckpointMetadata | ErrUnsupportedSchemaVersion | ErrInvalidJSON

definition UnmarshalCheckpointMetadata ::
  "(bytes \<Rightarrow> int option) \<Rightarrow> (bytes \<Rightarrow> CheckpointMetadata option) \<Rightarrow> bytes \<Rightarrow> manifest_error + CheckpointMetadata" where
  "UnmarshalCheckpointMetadata dec_version dec_meta data =
     (case dec_version data of
        None \<Rightarrow> Inl ErrInvalidJSON
      | Some v \<Rightarrow>
          if v \<noteq> CurrentSchemaVersion then Inl ErrUnsupportedSchemaVersion
          else case dec_meta data of
            None \<Rightarrow> Inl ErrInvalidJSON
          | Some m \<Rightarrow> if Validate m \<noteq> [] then Inl ErrInvalidCheckpointMetadata else Inr m)"

section \<open>Compatibility of savepoints\<close>

datatype incompatibility =
    KeyGroupsMismatch | StatefulRemoved string | StatefulAdded string | TypeChanged string

definition isStatefulOperator :: "string \<Rightarrow> bool" where
  "isStatefulOperator opType = (opType \<in> {''source'', ''keyby'', ''window''})"

definition ValidateSavepointCompatibility :: "CheckpointMetadata \<Rightarrow> CheckpointMetadata \<Rightarrow> incompatibility list" where
  "ValidateSavepointCompatibility savepoint newGraph =
     (let sp = operator_map (gm_Operators (cm_JobGraph savepoint));
          ng = operator_map (gm_Operators (cm_JobGraph newGraph))
      in (if gm_NumKeyGroups (cm_JobGraph savepoint) \<noteq> gm_NumKeyGroups (cm_JobGraph newGraph) then [KeyGroupsMismatch] else [])
         @ map (\<lambda>(i, _). StatefulRemoved i) (filter (\<lambda>(i, op). isStatefulOperator (om_Type op) \<and> map_of ng i = None) sp)
         @ map (\<lambda>(i, _). StatefulAdded i) (filter (\<lambda>(i, op). isStatefulOperator (om_Type op) \<and> map_of sp i = None) ng)
         @ map (\<lambda>(i, _). TypeChanged i)
             (filter (\<lambda>(i, op). case map_of sp i of None \<Rightarrow> False | Some o' \<Rightarrow> om_Type o' \<noteq> om_Type op) ng))"

section \<open>Accepted manifests\<close>

lemma validate_tasks_Cons:
  assumes "validate_tasks groups ops opIDs i ids subs (t # tasks) = []"
  shows "validate_range groups i (tm_KeyGroupRange t) = []" "\<exists>i ids subs. validate_tasks groups ops opIDs i ids subs tasks = []"
  using assms unfolding validate_tasks.simps Let_def case_prod_beta append_is_Nil_conv by blast+

declare validate_tasks.simps(2) [simp del]

lemma validate_tasks_ranges:
  assumes "validate_tasks groups ops opIDs i ids subs tasks = []" "t \<in> set tasks"
  shows "krm_Start (tm_KeyGroupRange t) < krm_End (tm_KeyGroupRange t)"
  using assms
proof (induction tasks arbitrary: i ids subs)
  case (Cons a tasks)
  show ?case
  proof (cases "t = a")
    case True
    then show ?thesis
      using validate_tasks_Cons(1) [OF Cons.prems(1)] by (auto simp: validate_range_def split: if_splits)
  next
    case False
    then show ?thesis
      using validate_tasks_Cons(2) [OF Cons.prems(1)] Cons.IH Cons.prems(2) by auto
  qed
qed simp

lemma Validate_ranges:
  assumes "Validate m = []" "t \<in> set (cm_Tasks m)"
  shows "krm_Start (tm_KeyGroupRange t) < krm_End (tm_KeyGroupRange t)"
  using assms validate_tasks_ranges [OF _ assms(2)]
  unfolding Validate_def Let_def by (auto split: prod.splits)

abbreviation in_range :: "int \<Rightarrow> KeyGroupRangeMeta \<Rightarrow> bool" where
  "in_range g r \<equiv> krm_Start r \<le> g \<and> g < krm_End r"

text \<open>Ranges that follow each other from \<open>a\<close> to \<open>n\<close> contain every group between exactly once.\<close>

lemma ranges_cover_once:
  assumes "ranges_cover a rs = Some n" "\<forall>r \<in> set rs. krm_Start r < krm_End r"
  shows "a \<le> n \<and> length (filter (in_range g) rs) = (if a \<le> g \<and> g < n then 1 else 0)"
  using assms
proof (induction rs arbitrary: a)
  case (Cons r rs)
  then show ?case by (fastforce split: if_splits)
qed simp

lemma length_filter_sort_key: "length (filter P (sort_key f xs)) = length (filter P xs)"
  by (metis filter_sort length_sort)

lemma operator_covered_once:
  assumes "Validate m = []" "operator_covered n (cm_Tasks m) op" "om_ChainedTo op = None" "0 \<le> g" "g < n"
  shows "length (filter (\<lambda>t. tm_OperatorID t = om_OperatorID op \<and> in_range g (tm_KeyGroupRange t)) (cm_Tasks m)) = 1"
proof -
  define owned where "owned = sort_key (\<lambda>t. krm_Start (tm_KeyGroupRange t)) (owned_tasks (om_OperatorID op) (cm_Tasks m))"
  have cover: "ranges_cover 0 (map tm_KeyGroupRange owned) = Some n"
    using assms(2,3) by (simp add: operator_covered_def owned_def Let_def)
  have "\<forall>r \<in> set (map tm_KeyGroupRange owned). krm_Start r < krm_End r"
    using Validate_ranges [OF assms(1)] by (auto simp: owned_def owned_tasks_def)
  from ranges_cover_once [OF cover this, of g] assms(4,5)
  have "length (filter (in_range g) (map tm_KeyGroupRange owned)) = 1" by simp
  then have "length (filter (\<lambda>t. in_range g (tm_KeyGroupRange t)) owned) = 1"
    by (simp add: filter_map comp_def)
  then have "length (filter (\<lambda>t. in_range g (tm_KeyGroupRange t)) (owned_tasks (om_OperatorID op) (cm_Tasks m))) = 1"
    unfolding owned_def length_filter_sort_key .
  then show ?thesis by (simp add: owned_tasks_def conj_commute)
qed

text \<open>The operators an operator is chained to, one after the other.\<close>

inductive chained :: "(string, OperatorMeta) gomap \<Rightarrow> OperatorMeta \<Rightarrow> OperatorMeta \<Rightarrow> bool" for ops where
  self: "chained ops op op"
| parent: "om_ChainedTo op = Some i \<Longrightarrow> map_of ops i = Some p \<Longrightarrow> chained ops p h \<Longrightarrow> chained ops op h"

lemma chain_walk_head:
  assumes "chain_walk ops par seen op"
  shows "\<exists>h. chained ops op h \<and> om_ChainedTo h = None \<and> (h = op \<or> om_Parallelism h = par \<and> h \<in> snd ` set ops)"
  using assms
proof (induction ops par seen op rule: chain_walk.induct)
  case (1 ops par seen current)
  show ?case
  proof (cases "om_ChainedTo current")
    case None
    then show ?thesis using chained.self by blast
  next
    case (Some i)
    then obtain p where p: "map_of ops i = Some p" "om_OperatorID p \<notin> set seen" "om_Parallelism p = par"
      and w: "chain_walk ops par (om_OperatorID p # seen) p"
      using "1.prems" by (auto simp: chain_walk.simps [of ops par seen current] split: option.splits if_splits)
    have "p \<in> snd ` set ops" using p(1) by (force dest: map_of_SomeD)
    then show ?thesis
      using "1.IH" [OF Some p(1,2) _ w] p(3) chained.parent [OF Some p(1)] by auto
  qed
qed

lemma operator_map_values: "snd ` set (operator_map ops) \<subseteq> set ops"
proof -
  have "snd ` set (fold (\<lambda>op m. AList.update (om_OperatorID op) op m) ops m) \<subseteq> set ops \<union> snd ` set m" for m
  proof (induction ops arbitrary: m)
    case (Cons op ops)
    have "snd ` set (AList.update (om_OperatorID op) op m) \<subseteq> insert op (snd ` set m)"
      by (induction m) auto
    then show ?case
      using Cons.IH [of "AList.update (om_OperatorID op) op m"] unfolding fold_simps list.set by blast
  qed simp
  from this [of "[]"] show ?thesis by (simp add: operator_map_def)
qed

text \<open>C25. A manifest that is accepted as complete covers the whole state. Every operator is
  chained, in finitely many steps, to a head operator of the graph with the same parallelism; that
  head has exactly as many tasks as its parallelism; and every key group of the job is owned by
  exactly one of them.\<close>

theorem complete_manifest_covers_state:
  assumes "ValidateComplete m" "op \<in> set (gm_Operators (cm_JobGraph m))"
  shows "\<exists>h \<in> set (gm_Operators (cm_JobGraph m)). chained (operator_map (gm_Operators (cm_JobGraph m))) op h
    \<and> om_ChainedTo h = None \<and> om_Parallelism h = om_Parallelism op
    \<and> int (length (owned_tasks (om_OperatorID h) (cm_Tasks m))) = om_Parallelism h
    \<and> (\<forall>g. 0 \<le> g \<and> g < gm_NumKeyGroups (cm_JobGraph m) \<longrightarrow>
         length (filter (\<lambda>t. tm_OperatorID t = om_OperatorID h \<and> in_range g (tm_KeyGroupRange t)) (cm_Tasks m)) = 1)"
proof -
  let ?ops = "gm_Operators (cm_JobGraph m)"
  have v: "Validate m = []" and walk: "chain_walk (operator_map ?ops) (om_Parallelism op) [om_OperatorID op] op"
    and cov: "\<forall>op \<in> set ?ops. operator_covered (gm_NumKeyGroups (cm_JobGraph m)) (cm_Tasks m) op"
    using assms by (simp_all add: ValidateComplete_def Let_def)
  obtain h where h: "chained (operator_map ?ops) op h" "om_ChainedTo h = None"
    "h = op \<or> om_Parallelism h = om_Parallelism op \<and> h \<in> snd ` set (operator_map ?ops)"
    using chain_walk_head [OF walk] by blast
  then have hin: "h \<in> set ?ops" "om_Parallelism h = om_Parallelism op"
    using assms(2) operator_map_values by auto
  then have c: "operator_covered (gm_NumKeyGroups (cm_JobGraph m)) (cm_Tasks m) h" using cov by blast
  have "int (length (owned_tasks (om_OperatorID h) (cm_Tasks m))) = om_Parallelism h"
    using c h(2) by (simp add: operator_covered_def Let_def)
  then show ?thesis
    using h hin operator_covered_once [OF v c h(2)] by blast
qed

definition example_task_meta :: "string \<Rightarrow> int \<Rightarrow> int \<Rightarrow> int \<Rightarrow> TaskMeta" where
  "example_task_meta t i a b =
     \<lparr>SinkPrepared = False, SinkCommittedCheckpoint = 0, StateSHA256 = [], tm_TaskID = t, tm_OperatorID = ''map'',
      tm_SubtaskIndex = i, tm_KeyGroupRange = \<lparr>krm_Start = a, krm_End = b\<rparr>, StatePath = ''state/'' @ t,
      StateSizeBytes = 10, StateFiles = [''a.sst''], SourceOffsets = [], StateBackendType = ''hashmap''\<rparr>"

definition example_manifest :: CheckpointMetadata where
  "example_manifest =
     \<lparr>SchemaVersion = 1, cm_Type = ''checkpoint'', cm_CheckpointID = 3, cm_JobID = ''j1'', cm_JobName = ''etl'',
      cm_TriggerTime = 1, cm_CompletionTime = 2, DurationMs = 1,
      cm_JobGraph = \<lparr>gm_NumKeyGroups = 4, gm_Operators =
        [\<lparr>om_OperatorID = ''map'', om_Type = ''map'', om_Parallelism = 2, om_ChainedTo = None\<rparr>,
         \<lparr>om_OperatorID = ''src'', om_Type = ''source'', om_Parallelism = 2, om_ChainedTo = Some ''map''\<rparr>]\<rparr>,
      cm_Tasks = [example_task_meta ''t1'' 1 2 4, example_task_meta ''t0'' 0 0 2], SinkTxns = []\<rparr>"

lemma example_manifest_complete: "ValidateComplete example_manifest"
  by code_simp

theorem complete_manifest_covers_state_witness:
  "\<exists>h \<in> set (gm_Operators (cm_JobGraph example_manifest)).
     length (filter (\<lambda>t. tm_OperatorID t = om_OperatorID h \<and> in_range 3 (tm_KeyGroupRange t)) (cm_Tasks example_manifest)) = 1"
proof -
  have "gm_Operators (cm_JobGraph example_manifest) ! 1 \<in> set (gm_Operators (cm_JobGraph example_manifest))"
    "(3::int) < gm_NumKeyGroups (cm_JobGraph example_manifest)"
    by (simp_all add: example_manifest_def)
  note op = this
  from complete_manifest_covers_state [OF example_manifest_complete op(1)] obtain h where
    h: "h \<in> set (gm_Operators (cm_JobGraph example_manifest))"
    "\<forall>g. 0 \<le> g \<and> g < gm_NumKeyGroups (cm_JobGraph example_manifest) \<longrightarrow>
       length (filter (\<lambda>t. tm_OperatorID t = om_OperatorID h \<and> in_range g (tm_KeyGroupRange t)) (cm_Tasks example_manifest)) = 1"
    by blast
  have "length (filter (\<lambda>t. tm_OperatorID t = om_OperatorID h \<and> in_range 3 (tm_KeyGroupRange t)) (cm_Tasks example_manifest)) = 1"
    using h(2) [rule_format, of 3] op(2) by simp
  with h(1) show ?thesis by blast
qed

end
