(* ===== verification/Checkpoint_Manager.thy ===== *)
theory Checkpoint_Manager
  imports Recovery Checkpoint_Manifest
begin

text \<open>Checkpoints and savepoints of the coordinator (\<^verbatim>\<open>internal/coordinator/\<close>):
  \<^verbatim>\<open>checkpoint_manager.go\<close>, \<^verbatim>\<open>checkpoint_manifest.go\<close>, \<^verbatim>\<open>savepoint_manager.go\<close>,
  \<^verbatim>\<open>savepoint_decision.go\<close>, \<^verbatim>\<open>final_checkpoint.go\<close> and the failure policy
  (\<^verbatim>\<open>internal/checkpointpolicy/window.go\<close>).

  The JSON codec of task manifests is the argument \<open>js\<close>. The answer of a worker to a trigger is
  the argument \<open>peer\<close>: nothing when it accepts, the message of the error otherwise.\<close>

text \<open>\<^verbatim>\<open>Time.UnixMilli\<close>; the Unix epoch is 62135596800 seconds after the zero time.\<close>

definition UnixMilli :: "time \<Rightarrow> int" where
  "UnixMilli t = t div Millisecond - 62135596800000"

section \<open>Failure policy\<close>

text \<open>The quotient of two float64 values that hold natural numbers \<open>n \<le> m\<close>, rounded to 53 bits, ties
  to even.\<close>

definition round_even :: "rat \<Rightarrow> int" where
  "round_even x =
     (let f = \<lfloor>x\<rfloor>; r = x - of_int f in
      if r < 1 / 2 \<or> (r = 1 / 2 \<and> even f) then f else f + 1)"

primrec doublings :: "nat \<Rightarrow> nat \<Rightarrow> nat \<Rightarrow> nat" where
  "doublings 0 n m = 0"
| "doublings (Suc k) n m = (if m \<le> n then 0 else Suc (doublings k (2 * n) m))"

definition div64 :: "nat \<Rightarrow> nat \<Rightarrow> rat" where
  "div64 n m =
     (if n = 0 then 0
      else let s = doublings m n m + 52 in of_int (round_even (of_nat (n * 2 ^ s) / of_nat m)) / 2 ^ s)"

definition WindowSize :: nat where "WindowSize = 100"

definition Record :: "bool list \<Rightarrow> bool \<Rightarrow> bool list" where
  "Record previous failed =
     (if length previous \<ge> WindowSize then drop (length previous - WindowSize + 1) previous else previous) @ [failed]"

definition Exceeded :: "bool list \<Rightarrow> rat \<Rightarrow> bool" where
  "Exceeded outcomes tolerance =
     (if tolerance \<le> 0 \<or> length outcomes < WindowSize then False
      else div64 (length (filter id outcomes)) (length outcomes) > tolerance)"

section \<open>Building the manifest\<close>

fun OperatorType_String :: "OperatorType \<Rightarrow> string" where
  "OperatorType_String OperatorTypeSource = ''Source''"
| "OperatorType_String OperatorTypeMap = ''Map''"
| "OperatorType_String OperatorTypeFlatMap = ''FlatMap''"
| "OperatorType_String OperatorTypeFilter = ''Filter''"
| "OperatorType_String OperatorTypeKeyBy = ''KeyBy''"
| "OperatorType_String OperatorTypeWindow = ''Window''"
| "OperatorType_String OperatorTypeReduce = ''Reduce''"
| "OperatorType_String OperatorTypeJoin = ''Join''"
| "OperatorType_String OperatorTypeProcess = ''Process''"
| "OperatorType_String OperatorTypeSink = ''Sink''"
| "OperatorType_String _ = ''Unknown''"

text \<open>\<^verbatim>\<open>strings.ToLower\<close> on ASCII.\<close>

definition ToLower :: "string \<Rightarrow> string" where
  "ToLower s = map (\<lambda>c. let x = (of_char c :: nat) in if 65 \<le> x \<and> x \<le> 90 then char_of (x + 32) else c) s"

definition operator_meta :: "TaskDescriptor \<Rightarrow> OperatorDescriptor \<Rightarrow> OperatorMeta" where
  "operator_meta desc op =
     \<lparr>om_OperatorID = op_OperatorID op, om_Type = ToLower (OperatorType_String (op_Type op)),
      om_Parallelism = td_Parallelism desc,
      om_ChainedTo = (if op_OperatorID op \<noteq> td_OperatorID desc then Some (td_OperatorID desc) else None)\<rparr>"

fun manifest_operators ::
  "TaskDescriptor \<Rightarrow> OperatorDescriptor list \<Rightarrow> (string, OperatorMeta) gomap \<Rightarrow> (string, OperatorMeta) gomap option" where
  "manifest_operators desc [] ops = Some ops"
| "manifest_operators desc (op # chain) ops =
     (let meta = operator_meta desc op in
      case map_of ops (op_OperatorID op) of
        Some previous \<Rightarrow>
          if previous \<noteq> meta then None
          else manifest_operators desc chain (AList.update (op_OperatorID op) meta ops)
      | None \<Rightarrow> manifest_operators desc chain (AList.update (op_OperatorID op) meta ops))"

definition sink_operator :: "TaskDescriptor \<Rightarrow> string" where
  "sink_operator desc =
     foldl (\<lambda>i op. if ToLower (OperatorType_String (op_Type op)) = ''sink'' then op_OperatorID op else i) []
       (td_OperatorChain desc)"

definition sink_txn :: "CheckpointMeta \<Rightarrow> TaskDescriptor \<Rightarrow> TaskMeta \<Rightarrow> SinkTransaction list option" where
  "sink_txn cp desc task =
     (if \<not> SinkPrepared task then Some []
      else if SinkCommittedCheckpoint task > cp_ID cp then None
      else if sink_operator desc = [] then None
      else Some [\<lparr>st_TaskID = tm_TaskID task, st_OperatorID = sink_operator desc,
                  CommittedCheckpoint = uint (SinkCommittedCheckpoint task), TransactionID = None,
                  TransactionState = ''PRE_COMMITTED''\<rparr>])"

definition task_entry :: "TaskDescriptor \<Rightarrow> TaskMeta \<Rightarrow> TaskMeta" where
  "task_entry desc task =
     task\<lparr>tm_OperatorID := td_OperatorID desc, tm_SubtaskIndex := td_SubtaskIndex desc,
          tm_KeyGroupRange := \<lparr>krm_Start = kg_Start (td_KeyGroup desc), krm_End = kg_End (td_KeyGroup desc) + 1\<rparr>\<rparr>"

fun manifest_tasks ::
  "CheckpointMeta \<Rightarrow> (string, TaskMeta) gomap \<Rightarrow> TaskDescriptor list \<Rightarrow> string list \<Rightarrow>
     (string, OperatorMeta) gomap \<Rightarrow> TaskMeta list \<Rightarrow> SinkTransaction list \<Rightarrow>
     ((string, OperatorMeta) gomap \<times> TaskMeta list \<times> SinkTransaction list) option" where
  "manifest_tasks cp inventory [] seen ops tasks txns = Some (ops, tasks, txns)"
| "manifest_tasks cp inventory (desc # descs) seen ops tasks txns =
     (if td_TaskID desc \<in> set seen \<or> mget (cp_Tasks cp) (td_TaskID desc) [] = [] then None
      else
        (case map_of inventory (td_TaskID desc) of
           None \<Rightarrow> None
         | Some task \<Rightarrow>
             if tm_TaskID task \<noteq> td_TaskID desc then None
             else
               (case manifest_operators desc (td_OperatorChain desc) ops of
                  None \<Rightarrow> None
                | Some ops' \<Rightarrow>
                    if td_OperatorID desc \<notin> op_OperatorID ` set (td_OperatorChain desc) then None
                    else
                      (case sink_txn cp desc (task_entry desc task) of
                         None \<Rightarrow> None
                       | Some txn \<Rightarrow>
                           manifest_tasks cp inventory descs (td_TaskID desc # seen) ops'
                             (tasks @ [task_entry desc task]) (txns @ txn)))))"

definition checkpointManifest ::
  "JobMeta option \<Rightarrow> CheckpointMeta \<Rightarrow> (string, TaskMeta) gomap \<Rightarrow> time \<Rightarrow> CheckpointMetadata option" where
  "checkpointManifest job cp inventory completed =
     (case job of
        None \<Rightarrow> None
      | Some j \<Rightarrow>
          if job_ID j \<noteq> cp_JobID cp \<or> cp_ID cp = 0 \<or> uint (cp_ID cp) > MaxInt64 then None
          else if length inventory \<noteq> length (cp_Tasks cp) \<or> length (cp_TaskDescriptors cp) \<noteq> length (cp_Tasks cp) then None
          else
            (case manifest_tasks cp inventory (cp_TaskDescriptors cp) [] [] [] [] of
               None \<Rightarrow> None
             | Some (ops, tasks, txns) \<Rightarrow>
                 let m = \<lparr>SchemaVersion = CurrentSchemaVersion,
                          cm_Type = (if cp_SavepointID cp \<noteq> [] then SavepointType_name else CheckpointType_name),
                          cm_CheckpointID = uint (cp_ID cp), cm_JobID = job_ID j, cm_JobName = job_Name j,
                          cm_TriggerTime = cp_Timestamp cp, cm_CompletionTime = completed,
                          DurationMs = go_div (Sub completed (cp_Timestamp cp)) Millisecond,
                          cm_JobGraph = \<lparr>gm_NumKeyGroups = cp_NumKeyGroups cp,
                            gm_Operators = sort_key om_OperatorID (map snd ops)\<rparr>,
                          cm_Tasks = sort_key tm_TaskID tasks,
                          SinkTxns = sort_key st_TaskID txns\<rparr>
                 in if ValidateComplete m then Some m else None))"

section \<open>Savepoints\<close>

definition GetSavepoint ::
  "msgpack \<Rightarrow> 's MetadataStore \<Rightarrow> 's Coordinator \<Rightarrow> string \<Rightarrow> string \<Rightarrow> coord_error + SavepointMeta" where
  "GetSavepoint mp ops c jobID spID =
     (case Get ops (c_store c) (SavepointKey jobID spID) of
        Inl e \<Rightarrow> Inl e
      | Inr None \<Rightarrow> Inl ErrSavepointNotFound
      | Inr (Some data) \<Rightarrow> (case dec_sp mp data of None \<Rightarrow> Inl ErrOther | Some sp \<Rightarrow> Inr sp))"

fun list_savepoints_loop :: "msgpack \<Rightarrow> kvEntry list \<Rightarrow> SavepointMeta list \<Rightarrow> coord_error + SavepointMeta list" where
  "list_savepoints_loop mp [] result = Inr result"
| "list_savepoints_loop mp ((k, v) # kvs) result =
     (case dec_sp mp v of None \<Rightarrow> Inl ErrOther | Some sp \<Rightarrow> list_savepoints_loop mp kvs (result @ [sp]))"

definition ListSavepoints ::
  "msgpack \<Rightarrow> 's MetadataStore \<Rightarrow> 's Coordinator \<Rightarrow> string \<Rightarrow> coord_error + SavepointMeta list" where
  "ListSavepoints mp ops c jobID =
     (case PrefixScan ops (c_store c) (SavepointsPrefix jobID) of
        Inl e \<Rightarrow> Inl e | Inr kvs \<Rightarrow> list_savepoints_loop mp kvs [])"

text \<open>The savepoint a rescaled job still restores from cannot be deleted.\<close>

definition savepoint_in_use :: "JobMeta \<Rightarrow> SavepointMeta \<Rightarrow> bool" where
  "savepoint_in_use job sp =
     (\<not> IsTerminal (job_Status job) \<and> RescaleCheckpoint job \<noteq> 0
      \<and> RescaleCheckpoint job = sp_CheckpointID sp \<and> LatestCheckpoint job = sp_CheckpointID sp)"

definition DeleteSavepoint ::
  "msgpack \<Rightarrow> 's MetadataStore \<Rightarrow> string \<Rightarrow> string \<Rightarrow> 's Coordinator \<Rightarrow> coord_error option \<times> 's Coordinator" where
  "DeleteSavepoint mp ops jobID spID c =
     (if \<not> readyLocked c then (Some ErrNotLeader, c)
      else
        (case GetSavepoint mp ops c jobID spID of
           Inl e \<Rightarrow> (Some e, c)
         | Inr sp \<Rightarrow>
             if (case job_of c jobID of None \<Rightarrow> False | Some job \<Rightarrow> savepoint_in_use job sp)
             then (Some ErrSavepointInUse, c)
             else if sp_Status sp = SavepointInProgress then (Some ErrCheckpointInProgress, c)
             else (case Delete ops (c_store c) (SavepointKey jobID spID) of (e, s) \<Rightarrow> (e, c\<lparr>c_store := s\<rparr>))))"

definition persistSavepoint ::
  "msgpack \<Rightarrow> 's MetadataStore \<Rightarrow> SavepointMeta \<Rightarrow> 's Coordinator \<Rightarrow> coord_error option \<times> 's Coordinator" where
  "persistSavepoint mp ops sp c =
     (case enc_sp mp sp of
        None \<Rightarrow> (Some ErrOther, c)
      | Some data \<Rightarrow> (case Set ops (c_store c) (SavepointKey (sp_JobID sp) (sp_ID sp)) data of (e, s) \<Rightarrow> (e, c\<lparr>c_store := s\<rparr>)))"

text \<open>The write that goes into the same batch as the decision on the checkpoint of a savepoint.\<close>

definition savepoint_decided :: "time \<Rightarrow> CheckpointMeta \<Rightarrow> SavepointMeta \<Rightarrow> SavepointMeta option" where
  "savepoint_decided now cp sp =
     map_option (\<lambda>sp. if IsZero (CompletionTime sp) then sp\<lparr>CompletionTime := now\<rparr> else sp)
       (case cp_Status cp of
          CheckpointCompleted \<Rightarrow>
            Some (sp\<lparr>sp_Status := SavepointCompleted,
                     sp_Path := ''jobs/'' @ cp_JobID cp @ ''/checkpoints/'' @ decimal (unat (cp_ID cp))\<rparr>)
        | CheckpointAborted \<Rightarrow> Some (sp\<lparr>sp_Status := SavepointFailed\<rparr>)
        | _ \<Rightarrow> None)"

definition savepointDecisionLocked ::
  "msgpack \<Rightarrow> 's MetadataStore \<Rightarrow> time \<Rightarrow> 's Coordinator \<Rightarrow> CheckpointMeta \<Rightarrow> coord_error + kvEntry list" where
  "savepointDecisionLocked mp ops now c cp =
     (if cp_SavepointID cp = [] then Inr []
      else
        (case GetSavepoint mp ops c (cp_JobID cp) (cp_SavepointID cp) of
           Inl e \<Rightarrow> Inl e
         | Inr sp \<Rightarrow>
             if sp_CheckpointID sp \<noteq> cp_ID cp \<or> sp_EpochID sp \<noteq> cp_EpochID cp then Inl ErrOther
             else
               (case Option.bind (savepoint_decided now cp sp) (enc_sp mp) of
                  None \<Rightarrow> Inl ErrOther
                | Some data \<Rightarrow> Inr [(SavepointKey (cp_JobID cp) (cp_SavepointID cp), data)])))"

section \<open>Aborting a checkpoint\<close>

text \<open>What a failed checkpoint does to its job: the outcome is recorded, the counters go up, and a job
  that has used up what the policy tolerates fails.\<close>

definition charge_failure :: "'s Coordinator \<Rightarrow> time \<Rightarrow> CheckpointMeta \<Rightarrow> string \<Rightarrow> JobMeta \<Rightarrow> JobMeta" where
  "charge_failure c now cp failure job =
     (let next = job\<lparr>CheckpointOutcomes := Record (CheckpointOutcomes job) True,
                     CheckpointFailures := CheckpointFailures job + 1,
                     ConsecutiveCheckpointFailures := wrap64 (ConsecutiveCheckpointFailures job + 1),
                     CheckpointFailure := failure\<rparr>;
          threshold = (CheckpointMaxConsecutiveFailures (c_config c) > 0
             \<and> ConsecutiveCheckpointFailures next \<ge> CheckpointMaxConsecutiveFailures (c_config c));
          rateExceeded = Exceeded (CheckpointOutcomes next) (CheckpointTolerableFailureRate (c_config c))
      in if (threshold \<or> rateExceeded \<or> cp_Final cp) \<and> job_Status next = JobRunning
         then (resetStableRecoveryBudget c now next)\<lparr>job_Status := JobFailing, UpdatedAt := now\<rparr>
         else next)"

text \<open>The job the abort charges, with the address of its cell.\<close>

definition charged_job ::
  "'s Coordinator \<Rightarrow> time \<Rightarrow> CheckpointMeta \<Rightarrow> string \<Rightarrow> (nat \<times> JobMeta) option" where
  "charged_job c now cp failure =
     (if cp_Status cp \<noteq> CheckpointAborted \<and> cp_SavepointID cp = [] \<and> (failure \<noteq> [] \<or> cp_Final cp)
      then map_option (\<lambda>p. (p, charge_failure c now cp failure (c_cells c p))) (map_of (c_jobs c) (cp_JobID cp))
      else None)"

definition decision_request :: "string \<Rightarrow> string \<Rightarrow> u64 \<Rightarrow> u64 \<Rightarrow> TriggerCheckpointRequest" where
  "decision_request attempt jobID cpID epoch =
     \<lparr>tcr_Final = False, tcr_AttemptID = attempt, tcr_JobID = jobID, tcr_CheckpointID = cpID,
      tcr_EpochID = epoch, tcr_Type = CheckpointTypeUnknown, tcr_Timestamp = 0\<rparr>"

definition checkpoint_command :: "CommandType \<Rightarrow> string \<Rightarrow> bytes \<Rightarrow> string \<Rightarrow> WorkerCommand" where
  "checkpoint_command t jobID data taskID =
     \<lparr>wc_AttemptID = [], wc_EpochID = 0, wc_Type = t, wc_JobID = jobID, wc_TaskID = taskID, wc_Data = data\<rparr>"

definition notify_tasks ::
  "CommandType \<Rightarrow> string \<Rightarrow> bytes \<Rightarrow> (string, string) gomap \<Rightarrow> 's Coordinator \<Rightarrow> 's Coordinator" where
  "notify_tasks t jobID data tasks c =
     fold (\<lambda>(taskID, workerID). enqueueCommandLocked workerID (checkpoint_command t jobID data taskID)) tasks c"

text \<open>The record a request refers to, with its identity checked.\<close>

definition load_checkpoint ::
  "msgpack \<Rightarrow> 's MetadataStore \<Rightarrow> 's Coordinator \<Rightarrow> string \<Rightarrow> u64 \<Rightarrow> coord_error + CheckpointMeta" where
  "load_checkpoint mp ops c jobID cpID =
     (case Get ops (c_store c) (CheckpointKey jobID cpID) of
        Inl e \<Rightarrow> Inl e
      | Inr data \<Rightarrow> (case dec_cp mp (nil_bytes data) of None \<Rightarrow> Inl ErrOther | Some cp \<Rightarrow> Inr cp))"

definition same_checkpoint :: "CheckpointMeta \<Rightarrow> string \<Rightarrow> u64 \<Rightarrow> u64 \<Rightarrow> bool" where
  "same_checkpoint cp jobID cpID epoch = (cp_JobID cp = jobID \<and> cp_ID cp = cpID \<and> cp_EpochID cp = epoch)"

text \<open>The batch of an abort: the record, the savepoint and the charged job. The fields that are
  copied back into the cached job are all the fields in which the persisted copy differs.\<close>

definition abort_batch ::
  "msgpack \<Rightarrow> 's MetadataStore \<Rightarrow> time \<Rightarrow> 's Coordinator \<Rightarrow> CheckpointMeta \<Rightarrow> (nat \<times> JobMeta) option \<Rightarrow>
     coord_error + kvEntry list" where
  "abort_batch mp ops now c cp failed =
     (case enc_cp mp (cp\<lparr>cp_Status := CheckpointAborted\<rparr>) of
        None \<Rightarrow> Inl ErrOther
      | Some encoded \<Rightarrow>
          (case (if cp_Status cp = CheckpointAborted then Inr []
                 else savepointDecisionLocked mp ops now c (cp\<lparr>cp_Status := CheckpointAborted\<rparr>)) of
             Inl e \<Rightarrow> Inl e
           | Inr savepointWrite \<Rightarrow>
               (case failed of
                  None \<Rightarrow> Inr ((CheckpointKey (cp_JobID cp) (cp_ID cp), encoded) # savepointWrite)
                | Some (_, next) \<Rightarrow>
                    (case enc_job mp next of
                       None \<Rightarrow> Inl ErrOther
                     | Some jobData \<Rightarrow>
                         Inr ((CheckpointKey (cp_JobID cp) (cp_ID cp), encoded) # savepointWrite
                              @ [(JobMetaKey (cp_JobID cp), jobData)])))))"

definition abort_publish ::
  "CheckpointMeta \<Rightarrow> (nat \<times> JobMeta) option \<Rightarrow> bytes \<Rightarrow> 's Coordinator \<Rightarrow> 's Coordinator" where
  "abort_publish cp failed command c =
     (let c1 = (case map_of (activeCheckpoints c) (cp_JobID cp) of
                  Some active \<Rightarrow>
                    if cp_ID active = cp_ID cp \<and> cp_EpochID active = cp_EpochID cp
                    then c\<lparr>activeCheckpoints := AList.delete (cp_JobID cp) (activeCheckpoints c)\<rparr> else c
                | None \<Rightarrow> c);
          c2 = (case failed of Some (p, next) \<Rightarrow> set_cell p next c1 | None \<Rightarrow> c1)
      in notify_tasks CommandTypeAbortCheckpoint (cp_JobID cp) command (cp_Tasks cp) c2)"

definition abortCheckpoint ::
  "msgpack \<Rightarrow> 's MetadataStore \<Rightarrow> time \<Rightarrow> string \<Rightarrow> u64 \<Rightarrow> u64 \<Rightarrow> string \<Rightarrow> 's Coordinator \<Rightarrow>
     coord_error option \<times> 's Coordinator" where
  "abortCheckpoint mp ops now jobID cpID epoch failure c =
     (if \<not> readyLocked c then (Some ErrNotLeader, c)
      else if epoch \<noteq> c_epoch c then (Some ErrStaleEpoch, c)
      else
        (case load_checkpoint mp ops c jobID cpID of
           Inl e \<Rightarrow> (Some e, c)
         | Inr cp \<Rightarrow>
             if \<not> same_checkpoint cp jobID cpID epoch then (Some ErrStaleEpoch, c)
             else if cp_Status cp \<notin> {CheckpointInProgress, CheckpointTriggered, CheckpointAborted}
             then (Some ErrOther, c)
             else
               let failed = charged_job c now cp failure in
               (case enc_trigger mp (decision_request (cp_AttemptID cp) jobID cpID epoch) of
                  None \<Rightarrow> (Some ErrOther, c)
                | Some command \<Rightarrow>
                    (case abort_batch mp ops now c cp failed of
                       Inl e \<Rightarrow> (Some e, c)
                     | Inr batch \<Rightarrow>
                         (case WriteBatch ops (c_store c) batch of
                            (Some e, s) \<Rightarrow> (Some e, c\<lparr>c_store := s\<rparr>)
                          | (None, s) \<Rightarrow> (None, abort_publish cp failed command (c\<lparr>c_store := s\<rparr>)))))))"

definition AbortCheckpoint ::
  "msgpack \<Rightarrow> 's MetadataStore \<Rightarrow> time \<Rightarrow> string \<Rightarrow> u64 \<Rightarrow> u64 \<Rightarrow> 's Coordinator \<Rightarrow> coord_error option \<times> 's Coordinator" where
  "AbortCheckpoint mp ops now jobID cpID epoch c = abortCheckpoint mp ops now jobID cpID epoch [] c"

section \<open>Triggering a checkpoint\<close>

text \<open>The sources of an assignment have all reported that they are finishing.\<close>

definition has_source :: "TaskDescriptor \<Rightarrow> bool" where
  "has_source task = (\<exists>op \<in> set (td_OperatorChain task). op_Type op = OperatorTypeSource)"

definition sourcesExhaustedLocked :: "'s Coordinator \<Rightarrow> TaskAssignmentMap \<Rightarrow> bool" where
  "sourcesExhaustedLocked c assignment =
     (let sources = filter has_source (tam_TaskDescriptors assignment) in
      sources \<noteq> [] \<and> (\<forall>task \<in> set sources. mget (taskStatuses c) (td_TaskID task) TaskStatusUnknown = TaskStatusFinishing))"

text \<open>The scan over the earlier checkpoints of the job: the highest ID, unless one of them is in
  flight or the final one of this attempt is complete.\<close>

fun trigger_scan :: "msgpack \<Rightarrow> string \<Rightarrow> string \<Rightarrow> kvEntry list \<Rightarrow> u64 \<Rightarrow> coord_error + u64" where
  "trigger_scan mp jobID attempt [] highest = Inr highest"
| "trigger_scan mp jobID attempt ((k, v) # kvs) highest =
     (if k = LatestCheckpointKey jobID \<or> HasSuffix k ''/metadata.json''
      then trigger_scan mp jobID attempt kvs highest
      else
        (case dec_cp mp v of
           None \<Rightarrow> Inl ErrOther
         | Some previous \<Rightarrow>
             if cp_Final previous \<and> cp_AttemptID previous = attempt \<and> cp_Status previous = CheckpointCompleted
             then Inl errFinalCheckpointNotReady
             else if cp_Status previous \<in> {CheckpointTriggered, CheckpointInProgress} then Inl ErrCheckpointInProgress
             else trigger_scan mp jobID attempt kvs (max highest (cp_ID previous))))"

definition trigger_key_groups :: "msgpack \<Rightarrow> JobMeta \<Rightarrow> coord_error + int" where
  "trigger_key_groups mp job =
     (case dec_graph mp (job_Config job) of
        None \<Rightarrow> Inr DefaultNumKeyGroups
      | Some graph \<Rightarrow> validateGraphKeyGroups graph (max 1 (job_Parallelism job)))"

definition new_checkpoint ::
  "'s Coordinator \<Rightarrow> time \<Rightarrow> string \<Rightarrow> string \<Rightarrow> bool \<Rightarrow> TaskAssignmentMap \<Rightarrow> u64 \<Rightarrow> int \<Rightarrow> CheckpointMeta" where
  "new_checkpoint c now jobID savepointID final assignment cpID groups =
     \<lparr>cp_Final = final, cp_AttemptID = tam_AttemptID assignment, InvalidReason = [], ManifestVersion = 1,
      TaskManifests = [], cp_TaskDescriptors = tam_TaskDescriptors assignment, cp_NumKeyGroups = groups,
      cp_SavepointID = savepointID, cp_Replicas = tam_Replicas assignment, cp_EpochID = c_epoch c,
      cp_Tasks = Assignments assignment, cp_ID = cpID, cp_JobID = jobID, cp_Status = CheckpointInProgress,
      Offsets = [], StatePaths = [], cp_Timestamp = now\<rparr>"

definition trigger_request :: "CheckpointMeta \<Rightarrow> TriggerCheckpointRequest" where
  "trigger_request cp =
     \<lparr>tcr_Final = cp_Final cp, tcr_AttemptID = cp_AttemptID cp, tcr_JobID = cp_JobID cp,
      tcr_CheckpointID = cp_ID cp, tcr_EpochID = cp_EpochID cp,
      tcr_Type = (if cp_SavepointID cp \<noteq> [] then CheckpointTypeSavepoint else CheckpointTypePeriodic),
      tcr_Timestamp = UnixMilli (cp_Timestamp cp)\<rparr>"

text \<open>The job with the attempt counted, when it is not a savepoint, and the batch that makes the
  checkpoint visible.\<close>

definition attempted_job :: "string \<Rightarrow> JobMeta \<Rightarrow> JobMeta" where
  "attempted_job savepointID job =
     (if savepointID = [] then job\<lparr>CheckpointAttempts := CheckpointAttempts job + 1\<rparr> else job)"

definition new_savepoint :: "CheckpointMeta \<Rightarrow> SavepointMeta" where
  "new_savepoint cp =
     \<lparr>sp_NumKeyGroups = cp_NumKeyGroups cp, sp_CheckpointID = cp_ID cp, sp_EpochID = cp_EpochID cp,
      sp_ID = cp_SavepointID cp, sp_JobID = cp_JobID cp, sp_Status = SavepointInProgress, sp_Path = [],
      TriggerTime = cp_Timestamp cp, CompletionTime = 0\<rparr>"

definition trigger_batch :: "msgpack \<Rightarrow> JobMeta \<Rightarrow> CheckpointMeta \<Rightarrow> kvEntry list option" where
  "trigger_batch mp job cp =
     (case (enc_cp mp cp, enc_job mp job, if cp_SavepointID cp = [] then Some [] else enc_sp mp (new_savepoint cp)) of
        (Some encoded, Some jobData, Some raw) \<Rightarrow>
          Some ([(JobMetaKey (cp_JobID cp), jobData), (CheckpointKey (cp_JobID cp) (cp_ID cp), encoded)]
            @ (if cp_SavepointID cp = [] then [] else [(SavepointKey (cp_JobID cp) (cp_SavepointID cp), raw)]))
      | _ \<Rightarrow> None)"

text \<open>The checks on the job and its assignment.\<close>

definition pause_required :: "'s Coordinator \<Rightarrow> time \<Rightarrow> JobMeta \<Rightarrow> bool" where
  "pause_required c now job =
     (CheckpointMinPause (c_config c) > 0 \<and> \<not> IsZero (LastCheckpointCompletion job)
      \<and> Sub now (LastCheckpointCompletion job) < CheckpointMinPause (c_config c))"

definition trigger_assignment ::
  "msgpack \<Rightarrow> 's MetadataStore \<Rightarrow> 's Coordinator \<Rightarrow> string \<Rightarrow> bool \<Rightarrow> coord_error + TaskAssignmentMap" where
  "trigger_assignment mp ops c jobID final =
     (case Get ops (c_store c) (JobAssignmentsKey jobID) of
        Inl e \<Rightarrow> Inl e
      | Inr data \<Rightarrow>
          (case dec_tam mp (nil_bytes data) of
             None \<Rightarrow> Inl ErrOther
           | Some assignment \<Rightarrow>
               if tam_JobID assignment \<noteq> jobID \<or> Assignments assignment = [] then Inl ErrOther
               else if final \<and> \<not> sourcesExhaustedLocked c assignment then Inl errFinalCheckpointNotReady
               else if \<exists>(taskID, _) \<in> set (Assignments assignment). mget (tam_Replicas assignment) taskID [] = []
               then Inl ErrCheckpointUnavailable
               else Inr assignment))"

definition trigger_checkpoint_id ::
  "msgpack \<Rightarrow> 's MetadataStore \<Rightarrow> 's Coordinator \<Rightarrow> string \<Rightarrow> string \<Rightarrow> coord_error + u64" where
  "trigger_checkpoint_id mp ops c jobID attempt =
     (case PrefixScan ops (c_store c) (CheckpointsPrefix jobID) of
        Inl e \<Rightarrow> Inl e
      | Inr kvs \<Rightarrow>
          (case trigger_scan mp jobID attempt kvs 0 of
             Inl e \<Rightarrow> Inl e
           | Inr highest \<Rightarrow> if highest = - 1 then Inl ErrOther else Inr (highest + 1)))"

text \<open>The critical section of a trigger: the checkpoint is decided on and persisted. Its result is
  the record, the encoded request and the tasks to notify.\<close>

definition trigger_prepare ::
  "msgpack \<Rightarrow> 's MetadataStore \<Rightarrow> time \<Rightarrow> string \<Rightarrow> string \<Rightarrow> bool \<Rightarrow> 's Coordinator \<Rightarrow>
     coord_error + nat \<times> CheckpointMeta" where
  "trigger_prepare mp ops now jobID savepointID final c =
     (if \<not> readyLocked c then Inl ErrNotLeader
      else
        (case map_of (c_jobs c) jobID of
           None \<Rightarrow> Inl ErrJobNotFound
         | Some p \<Rightarrow>
             let job = c_cells c p in
             if job_Status job \<noteq> JobRunning then Inl ErrJobNotRunning
             else if \<not> final \<and> savepointID = [] \<and> pause_required c now job then Inl ErrCheckpointMinPause
             else
               (case trigger_assignment mp ops c jobID final of
                  Inl e \<Rightarrow> Inl e
                | Inr assignment \<Rightarrow>
                    (case trigger_checkpoint_id mp ops c jobID (tam_AttemptID assignment) of
                       Inl e \<Rightarrow> Inl e
                     | Inr cpID \<Rightarrow>
                         (case trigger_key_groups mp job of
                            Inl e \<Rightarrow> Inl e
                          | Inr groups \<Rightarrow>
                              Inr (p, new_checkpoint c now jobID savepointID final assignment cpID groups))))))"

definition trigger_persist ::
  "msgpack \<Rightarrow> 's MetadataStore \<Rightarrow> nat \<Rightarrow> CheckpointMeta \<Rightarrow> 's Coordinator \<Rightarrow>
     (coord_error + bytes) \<times> 's Coordinator" where
  "trigger_persist mp ops p cp c =
     (let job = attempted_job (cp_SavepointID cp) (c_cells c p) in
      case (trigger_batch mp job cp, enc_trigger mp (trigger_request cp)) of
        (Some batch, Some trigger) \<Rightarrow>
          (case WriteBatch ops (c_store c) batch of
             (Some e, s) \<Rightarrow> (Inl e, c\<lparr>c_store := s\<rparr>)
           | (None, s) \<Rightarrow>
               (Inr trigger,
                (set_cell p job (c\<lparr>c_store := s\<rparr>))\<lparr>activeCheckpoints := AList.update (cp_JobID cp) cp (activeCheckpoints c)\<rparr>))
      | _ \<Rightarrow> (Inl ErrOther, c))"

text \<open>The dispatch that follows the critical section. A worker with slot reservations is called
  once, the others get a command for every task; a failed call aborts the checkpoint.\<close>

fun trigger_dispatch ::
  "msgpack \<Rightarrow> 's MetadataStore \<Rightarrow> time \<Rightarrow> (nat \<Rightarrow> TriggerCheckpointRequest \<Rightarrow> string option) \<Rightarrow> CheckpointMeta \<Rightarrow> bytes \<Rightarrow>
     (string \<times> string) list \<Rightarrow> string list \<Rightarrow> 's Coordinator \<Rightarrow> coord_error option \<times> 's Coordinator" where
  "trigger_dispatch mp ops now peer cp trigger [] sent c = (None, c)"
| "trigger_dispatch mp ops now peer cp trigger ((taskID, workerID) # tasks) sent c =
     (case map_of (c_workers c) workerID of
        None \<Rightarrow>
          trigger_dispatch mp ops now peer cp trigger tasks sent
            (enqueueCommandLocked workerID (checkpoint_command CommandTypeTakeSnapshot (cp_JobID cp) trigger taskID) c)
      | Some worker \<Rightarrow>
          if \<not> SupportsReservations worker
          then trigger_dispatch mp ops now peer cp trigger tasks sent
                 (enqueueCommandLocked workerID (checkpoint_command CommandTypeTakeSnapshot (cp_JobID cp) trigger taskID) c)
          else if workerID \<in> set sent then trigger_dispatch mp ops now peer cp trigger tasks sent c
          else
            (case dec_trigger mp trigger of
               None \<Rightarrow> (Some ErrOther, c)
             | Some request \<Rightarrow>
                 (case (case RPCClient worker of
                          None \<Rightarrow> Some ''checkpoint worker RPC disconnected'' | Some client \<Rightarrow> peer client request) of
                    None \<Rightarrow> trigger_dispatch mp ops now peer cp trigger tasks (workerID # sent) c
                  | Some message \<Rightarrow>
                      (case abortCheckpoint mp ops now (cp_JobID cp) (cp_ID cp) (cp_EpochID cp) message c of
                         (Some e, c1) \<Rightarrow> (Some e, c1) | (None, c1) \<Rightarrow> (Some ErrOther, c1)))))"

text \<open>The code releases the coordinator's lock between persisting the checkpoint and the dispatch of its
  trigger. Here the two happen in a row; the dispatch reads the cached workers, and it changes the
  checkpoint only through \<open>abortCheckpoint\<close>, which reads the record again under the lock.\<close>

definition triggerCheckpointBoundary ::
  "msgpack \<Rightarrow> 's MetadataStore \<Rightarrow> time \<Rightarrow> (nat \<Rightarrow> TriggerCheckpointRequest \<Rightarrow> string option) \<Rightarrow> string \<Rightarrow> string \<Rightarrow> bool \<Rightarrow>
     's Coordinator \<Rightarrow> (coord_error + CheckpointMeta) \<times> 's Coordinator" where
  "triggerCheckpointBoundary mp ops now peer jobID savepointID final c =
     (case trigger_prepare mp ops now jobID savepointID final c of
        Inl e \<Rightarrow> (Inl e, c)
      | Inr (p, cp) \<Rightarrow>
          (case trigger_persist mp ops p cp c of
             (Inl e, c1) \<Rightarrow> (Inl e, c1)
           | (Inr trigger, c1) \<Rightarrow>
               (case trigger_dispatch mp ops now peer cp trigger (cp_Tasks cp) [] c1 of
                  (Some e, c2) \<Rightarrow> (Inl e, c2) | (None, c2) \<Rightarrow> (Inr cp, c2))))"

definition TriggerCheckpoint ::
  "msgpack \<Rightarrow> 's MetadataStore \<Rightarrow> time \<Rightarrow> (nat \<Rightarrow> TriggerCheckpointRequest \<Rightarrow> string option) \<Rightarrow> string \<Rightarrow>
     's Coordinator \<Rightarrow> (coord_error + CheckpointMeta) \<times> 's Coordinator" where
  "TriggerCheckpoint mp ops now peer jobID c = triggerCheckpointBoundary mp ops now peer jobID [] False c"

text \<open>\<open>spID\<close> is the generated identifier of the savepoint.\<close>

definition TriggerSavepoint ::
  "msgpack \<Rightarrow> 's MetadataStore \<Rightarrow> time \<Rightarrow> (nat \<Rightarrow> TriggerCheckpointRequest \<Rightarrow> string option) \<Rightarrow> string \<Rightarrow> string \<Rightarrow>
     's Coordinator \<Rightarrow> (coord_error + SavepointMeta) \<times> 's Coordinator" where
  "TriggerSavepoint mp ops now peer spID jobID c =
     (case triggerCheckpointBoundary mp ops now peer jobID spID False c of
        (Inl e, c1) \<Rightarrow> (Inl e, c1)
      | (Inr _, c1) \<Rightarrow> (GetSavepoint mp ops c1 jobID spID, c1))"

section \<open>Acknowledgements\<close>

record StateHandle =
  sh_Manifest :: bytes
  sh_TaskID :: string
  sh_Path :: string
  sh_SizeBytes :: int

record AcknowledgeCheckpointRequest =
  ack_AttemptID :: string
  ack_Failure :: string
  ack_WorkerID :: string
  ack_JobID :: string
  ack_TaskID :: string
  ack_CheckpointID :: u64
  ack_EpochID :: u64
  ack_State :: "StateHandle option"

record manifest_json =
  dec_task_meta :: "bytes \<Rightarrow> TaskMeta option"
  enc_manifest :: "CheckpointMetadata \<Rightarrow> bytes option"

text \<open>The report comes from the worker and the attempt the task was assigned to.\<close>

definition reporter_ok :: "CheckpointMeta \<Rightarrow> AcknowledgeCheckpointRequest \<Rightarrow> bool" where
  "reporter_ok cp req =
     (case map_of (cp_Tasks cp) (ack_TaskID req) of
        None \<Rightarrow> False
      | Some worker \<Rightarrow> worker \<noteq> [] \<and> worker = ack_WorkerID req \<and> ack_AttemptID req = cp_AttemptID cp)"

definition add_manifest :: "manifest_json \<Rightarrow> string \<Rightarrow> bytes \<Rightarrow> CheckpointMeta \<Rightarrow> CheckpointMeta option" where
  "add_manifest js taskID manifest cp =
     (if manifest = [] then None
      else
        (case dec_task_meta js manifest of
           None \<Rightarrow> None
         | Some task \<Rightarrow>
             if tm_TaskID task \<noteq> taskID then None
             else if map_of (TaskManifests cp) taskID \<notin> {None, Some manifest} then None
             else Some (cp\<lparr>TaskManifests := AList.update taskID manifest (TaskManifests cp)\<rparr>)))"

text \<open>The record with the report added.\<close>

definition ack_record :: "manifest_json \<Rightarrow> AcknowledgeCheckpointRequest \<Rightarrow> CheckpointMeta \<Rightarrow> coord_error + CheckpointMeta" where
  "ack_record js req cp =
     (if \<not> same_checkpoint cp (ack_JobID req) (ack_CheckpointID req) (ack_EpochID req) then Inl ErrStaleEpoch
      else if \<not> reporter_ok cp req then Inl ErrOther
      else
        (case ack_State req of
           None \<Rightarrow> Inl ErrOther
         | Some state \<Rightarrow>
             if sh_TaskID state \<noteq> ack_TaskID req \<or> sh_Path state = [] then Inl ErrOther
             else if mget (cp_Replicas cp) (ack_TaskID req) [] = [] \<or> sh_Path state \<noteq> mget (cp_Replicas cp) (ack_TaskID req) []
             then Inl ErrOther
             else if cp_Status cp \<notin> {CheckpointInProgress, CheckpointCompleted} then Inl ErrOther
             else
               (case (if ManifestVersion cp \<noteq> 0 then add_manifest js (ack_TaskID req) (sh_Manifest state) cp else Some cp) of
                  None \<Rightarrow> Inl ErrOther
                | Some cp1 \<Rightarrow>
                    if map_of (StatePaths cp1) (ack_TaskID req) \<notin> {None, Some (sh_Path state)} then Inl ErrOther
                    else Inr (cp1\<lparr>StatePaths := AList.update (ack_TaskID req) (sh_Path state) (StatePaths cp1)\<rparr>))))"

primrec read_inventory :: "manifest_json \<Rightarrow> (string \<times> bytes) list \<Rightarrow> (string, TaskMeta) gomap \<Rightarrow> (string, TaskMeta) gomap option" where
  "read_inventory js [] inventory = Some inventory"
| "read_inventory js (ir # raws) inventory =
     (case dec_task_meta js (snd ir) of
        None \<Rightarrow> None | Some task \<Rightarrow> read_inventory js raws (AList.update (fst ir) task inventory))"

definition manifest_write ::
  "manifest_json \<Rightarrow> time \<Rightarrow> 's Coordinator \<Rightarrow> CheckpointMeta \<Rightarrow> kvEntry list option" where
  "manifest_write js now c cp =
     (if ManifestVersion cp = 0 then Some []
      else
        (case read_inventory js (TaskManifests cp) [] of
           None \<Rightarrow> None
         | Some inventory \<Rightarrow>
             (case Option.bind (checkpointManifest (job_of c (cp_JobID cp)) cp inventory now) (enc_manifest js) of
                None \<Rightarrow> None
              | Some raw \<Rightarrow> Some [(CheckpointManifestKey (cp_JobID cp) (cp_ID cp), raw)])))"

definition completed_job :: "time \<Rightarrow> CheckpointMeta \<Rightarrow> JobMeta \<Rightarrow> JobMeta" where
  "completed_job now cp job =
     (let next = job\<lparr>LatestCheckpoint := cp_ID cp, LastCheckpointCompletion := now\<rparr> in
      if cp_SavepointID cp = []
      then next\<lparr>CheckpointOutcomes := Record (CheckpointOutcomes next) False,
                ConsecutiveCheckpointFailures := 0, CheckpointFailure := []\<rparr>
      else next)"

text \<open>The batch that completes a checkpoint: its record, the manifest, the job and the savepoint. As
  for an abort, the fields copied back into the cached job are all that the persisted copy changes.\<close>

definition complete_batch ::
  "msgpack \<Rightarrow> manifest_json \<Rightarrow> 's MetadataStore \<Rightarrow> time \<Rightarrow> 's Coordinator \<Rightarrow> CheckpointMeta \<Rightarrow> nat \<Rightarrow> bytes \<Rightarrow>
     coord_error + kvEntry list" where
  "complete_batch mp js ops now c cp p encoded =
     (case (manifest_write js now c cp, enc_job mp (completed_job now cp (c_cells c p))) of
        (Some manifest, Some jobData) \<Rightarrow>
          (case savepointDecisionLocked mp ops now c cp of
             Inl e \<Rightarrow> Inl e
           | Inr savepointWrite \<Rightarrow>
               Inr ((CheckpointKey (cp_JobID cp) (cp_ID cp), encoded) # manifest
                    @ [(JobMetaKey (cp_JobID cp), jobData)] @ savepointWrite))
      | _ \<Rightarrow> Inl ErrOther)"

definition all_reported :: "CheckpointMeta \<Rightarrow> bool" where
  "all_reported cp = (length (StatePaths cp) = length (cp_Tasks cp))"

definition ack_partial ::
  "msgpack \<Rightarrow> 's MetadataStore \<Rightarrow> CheckpointMeta \<Rightarrow> 's Coordinator \<Rightarrow> coord_error option \<times> 's Coordinator" where
  "ack_partial mp ops cp c =
     (case enc_cp mp cp of
        None \<Rightarrow> (Some ErrOther, c)
      | Some encoded \<Rightarrow>
          (case WriteBatch ops (c_store c) [(CheckpointKey (cp_JobID cp) (cp_ID cp), encoded)] of
             (e, s) \<Rightarrow> (e, c\<lparr>c_store := s\<rparr>)))"

definition ack_complete ::
  "msgpack \<Rightarrow> manifest_json \<Rightarrow> 's MetadataStore \<Rightarrow> time \<Rightarrow> CheckpointMeta \<Rightarrow> bytes \<Rightarrow> 's Coordinator \<Rightarrow>
     coord_error option \<times> 's Coordinator" where
  "ack_complete mp js ops now cp decision c =
     (case (enc_cp mp cp, manifest_write js now c cp, map_of (c_jobs c) (cp_JobID cp)) of
        (Some encoded, Some _, Some p) \<Rightarrow>
          (case complete_batch mp js ops now c cp p encoded of
             Inl e \<Rightarrow> (Some e, c)
           | Inr batch \<Rightarrow>
               (case WriteBatch ops (c_store c) batch of
                  (Some e, s) \<Rightarrow> (Some e, c\<lparr>c_store := s\<rparr>)
                | (None, s) \<Rightarrow>
                    (None, notify_tasks CommandTypeCommitCheckpoint (cp_JobID cp) decision (cp_Tasks cp)
                       ((set_cell p (completed_job now cp (c_cells c p)) (c\<lparr>c_store := s\<rparr>))\<lparr>
                          activeCheckpoints := AList.delete (cp_JobID cp) (activeCheckpoints c)\<rparr>))))
      | (Some _, Some _, None) \<Rightarrow> (Some ErrJobNotFound, c)
      | _ \<Rightarrow> (Some ErrOther, c))"

definition AcknowledgeCheckpoint ::
  "msgpack \<Rightarrow> manifest_json \<Rightarrow> 's MetadataStore \<Rightarrow> time \<Rightarrow> AcknowledgeCheckpointRequest \<Rightarrow> 's Coordinator \<Rightarrow>
     coord_error option \<times> 's Coordinator" where
  "AcknowledgeCheckpoint mp js ops now req c =
     (case enc_trigger mp (decision_request (ack_AttemptID req) (ack_JobID req) (ack_CheckpointID req) (ack_EpochID req)) of
        None \<Rightarrow> (Some ErrOther, c)
      | Some decision \<Rightarrow>
          if \<not> readyLocked c then (Some ErrNotLeader, c)
          else if ack_EpochID req \<noteq> c_epoch c then (Some ErrStaleEpoch, c)
          else
            (case load_checkpoint mp ops c (ack_JobID req) (ack_CheckpointID req) of
               Inl e \<Rightarrow> (Some e, c)
             | Inr cp0 \<Rightarrow>
                 (case ack_record js req cp0 of
                    Inl e \<Rightarrow> (Some e, c)
                  | Inr cp \<Rightarrow>
                      if cp_Status cp = CheckpointCompleted
                      then (None, notify_tasks CommandTypeCommitCheckpoint (ack_JobID req) decision (cp_Tasks cp) c)
                      else if all_reported cp
                      then ack_complete mp js ops now (cp\<lparr>cp_Status := CheckpointCompleted\<rparr>) decision c
                      else ack_partial mp ops cp c)))"

definition ReportCheckpointFailure ::
  "msgpack \<Rightarrow> 's MetadataStore \<Rightarrow> time \<Rightarrow> AcknowledgeCheckpointRequest \<Rightarrow> 's Coordinator \<Rightarrow> coord_error option \<times> 's Coordinator" where
  "ReportCheckpointFailure mp ops now req c =
     (if ack_Failure req = [] then (Some ErrOther, c)
      else if \<not> readyLocked c then (Some ErrNotLeader, c)
      else if ack_EpochID req \<noteq> c_epoch c then (Some ErrStaleEpoch, c)
      else
        (case load_checkpoint mp ops c (ack_JobID req) (ack_CheckpointID req) of
           Inl e \<Rightarrow> (Some e, c)
         | Inr cp \<Rightarrow>
             if \<not> reporter_ok cp req then (Some ErrOther, c)
             else abortCheckpoint mp ops now (ack_JobID req) (ack_CheckpointID req) (ack_EpochID req) (ack_Failure req) c))"

definition HandleAcknowledgeCheckpoint ::
  "msgpack \<Rightarrow> manifest_json \<Rightarrow> 's MetadataStore \<Rightarrow> time \<Rightarrow> AcknowledgeCheckpointRequest \<Rightarrow> 's Coordinator \<Rightarrow> bool \<times> 's Coordinator" where
  "HandleAcknowledgeCheckpoint mp js ops now req c =
     (case (if ack_Failure req \<noteq> [] then ReportCheckpointFailure mp ops now req c
            else AcknowledgeCheckpoint mp js ops now req c) of (e, c') \<Rightarrow> (e = None, c'))"

section \<open>Time-outs and final checkpoints\<close>

definition expired_checkpoints :: "'s Coordinator \<Rightarrow> time \<Rightarrow> CheckpointMeta list" where
  "expired_checkpoints c now =
     filter (\<lambda>cp. cp_EpochID cp = c_epoch c \<and> Sub now (cp_Timestamp cp) \<ge> CheckpointTimeout (c_config c))
       (map snd (activeCheckpoints c))"

definition expireCheckpoints ::
  "msgpack \<Rightarrow> 's MetadataStore \<Rightarrow> time \<Rightarrow> 's Coordinator \<Rightarrow> 's Coordinator" where
  "expireCheckpoints mp ops now c =
     fold (\<lambda>cp c. snd (abortCheckpoint mp ops now (cp_JobID cp) (cp_ID cp) (cp_EpochID cp) ''checkpoint timed out'' c))
       (expired_checkpoints c now)
       (c\<lparr>activeCheckpoints := filter (\<lambda>(_, cp). cp_EpochID cp = c_epoch c) (activeCheckpoints c)\<rparr>)"

text \<open>\<open>stop\<close> tells whether the context has been cancelled when the loop reaches a job.\<close>

fun final_checkpoints_loop ::
  "msgpack \<Rightarrow> 's MetadataStore \<Rightarrow> time \<Rightarrow> (nat \<Rightarrow> TriggerCheckpointRequest \<Rightarrow> string option) \<Rightarrow> (string \<Rightarrow> bool) \<Rightarrow>
     string list \<Rightarrow> 's Coordinator \<Rightarrow> 's Coordinator" where
  "final_checkpoints_loop mp ops now peer stop [] c = c"
| "final_checkpoints_loop mp ops now peer stop (jobID # jobs) c =
     (if stop jobID then c
      else
        (case Get ops (c_store c) (JobAssignmentsKey jobID) of
           Inl _ \<Rightarrow> final_checkpoints_loop mp ops now peer stop jobs c
         | Inr data \<Rightarrow>
             (case dec_tam mp (nil_bytes data) of
                None \<Rightarrow> final_checkpoints_loop mp ops now peer stop jobs c
              | Some assignment \<Rightarrow>
                  if \<not> sourcesExhaustedLocked c assignment then final_checkpoints_loop mp ops now peer stop jobs c
                  else
                    (case triggerCheckpointBoundary mp ops now peer jobID [] True c of
                       (r, c1) \<Rightarrow>
                         final_checkpoints_loop mp ops now peer stop jobs
                           (case (r, map_of (c_jobs c1) jobID) of
                              (Inl ErrCheckpointUnavailable, Some p) \<Rightarrow> snd (transitionJob mp ops now p JobFailing c1)
                            | _ \<Rightarrow> c1)))))"

definition scheduleFinalCheckpoints ::
  "msgpack \<Rightarrow> 's MetadataStore \<Rightarrow> time \<Rightarrow> (nat \<Rightarrow> TriggerCheckpointRequest \<Rightarrow> string option) \<Rightarrow> (string \<Rightarrow> bool) \<Rightarrow>
     's Coordinator \<Rightarrow> 's Coordinator" where
  "scheduleFinalCheckpoints mp ops now peer stop c =
     final_checkpoints_loop mp ops now peer stop
       (map fst (filter (\<lambda>(_, p). job_Status (c_cells c p) = JobRunning) (c_jobs c))) c"

end
