(* ===== verification/Task_Status.thy ===== *)
theory Task_Status
  imports Checkpoint_Manager
begin

text \<open>Status reports of tasks (\<^verbatim>\<open>internal/coordinator/rpc_handlers.go\<close>,
  \<^verbatim>\<open>HandleUpdateTaskStatus\<close>). The handler records the status under the lock; the transition of
  the job that follows from it is a second critical section.\<close>

section \<open>Requests\<close>

record TaskFailureInfo =
  tf_ErrorMessage :: string
  tf_ErrorClass :: string
  tf_StackTrace :: string
  tf_Timestamp :: int

record UpdateTaskStatusRequest =
  us_AttemptID :: string
  us_WorkerID :: string
  us_JobID :: string
  us_TaskID :: string
  us_Status :: TaskStatus
  us_EpochID :: u64
  us_Failure :: "TaskFailureInfo option"

datatype status_reply = Denied | Retained | Accepted

abbreviation terminal_status :: "TaskStatus \<Rightarrow> bool" where
  "terminal_status s \<equiv> s \<in> {TaskStatusFinished, TaskStatusFailed, TaskStatusCanceled}"

section \<open>Recording a status\<close>

text \<open>A status is known when it lies between \<open>TaskStatusCreated\<close> and \<open>TaskStatusFinished\<close>.\<close>

definition known_status :: "TaskStatus \<Rightarrow> bool" where
  "known_status s = (case s of TaskStatusUnknown \<Rightarrow> False | TaskStatusOther _ \<Rightarrow> False | _ \<Rightarrow> True)"

text \<open>The assignment that a report must match.\<close>

definition matches_assignment :: "TaskAssignmentMap \<Rightarrow> UpdateTaskStatusRequest \<Rightarrow> bool" where
  "matches_assignment assignment req =
     (tam_JobID assignment = us_JobID req
      \<and> mget (Assignments assignment) (us_TaskID req) [] = us_WorkerID req
      \<and> tam_AttemptID assignment = us_AttemptID req)"

definition status_retained :: "TaskStatus option \<Rightarrow> TaskStatus \<Rightarrow> bool" where
  "status_retained previous s =
     (case previous of
        None \<Rightarrow> False
      | Some p \<Rightarrow>
          terminal_status p \<and> p \<noteq> s
          \<or> p = TaskStatusRunning \<and> s = TaskStatusDeploying
          \<or> p = TaskStatusFinishing \<and> s \<in> {TaskStatusRunning, TaskStatusDeploying})"

text \<open>A task that could not restore its checkpoint marks it as invalid, and the attempt that was
  charged for the deployment is refunded, once.\<close>

definition refunded_job :: "TaskAssignmentMap \<Rightarrow> JobMeta \<Rightarrow> JobMeta" where
  "refunded_job assignment job =
     (if RecoveryAttemptCharged assignment \<and> RecoveryAttempts job > 0
      then job\<lparr>RecoveryAttempts := RecoveryAttempts job - 1\<rparr> else job)"

definition invalidate_batch ::
  "msgpack \<Rightarrow> string \<Rightarrow> JobMeta \<Rightarrow> CheckpointMeta \<Rightarrow> TaskAssignmentMap \<Rightarrow> kvEntry list option" where
  "invalidate_batch mp jobID job cp assignment =
     (case (enc_cp mp cp, enc_job mp job, enc_tam mp assignment) of
        (Some raw, Some jobRaw, Some assignmentRaw) \<Rightarrow>
          Some [(CheckpointKey jobID (cp_ID cp), raw), (JobMetaKey (job_ID job), jobRaw),
                (JobAssignmentsKey (job_ID job), assignmentRaw)]
      | _ \<Rightarrow> None)"

definition invalidate_checkpoint ::
  "msgpack \<Rightarrow> 's MetadataStore \<Rightarrow> string \<Rightarrow> string \<Rightarrow> CheckpointRestoreDescriptor \<Rightarrow> TaskAssignmentMap \<Rightarrow> nat \<Rightarrow>
     's Coordinator \<Rightarrow> coord_error option \<times> 's Coordinator" where
  "invalidate_checkpoint mp ops jobID reason restore assignment p c =
     (case load_checkpoint mp ops c jobID (crd_CheckpointID restore) of
        Inl e \<Rightarrow> (Some e, c)
      | Inr cp \<Rightarrow>
          if cp_JobID cp \<noteq> jobID \<or> cp_EpochID cp \<noteq> crd_EpochID restore then (None, c)
          else
            let next = refunded_job assignment (c_cells c p) in
            (case invalidate_batch mp jobID next (cp\<lparr>InvalidReason := reason\<rparr>)
                    (assignment\<lparr>RecoveryAttemptCharged := False\<rparr>) of
               None \<Rightarrow> (Some ErrOther, c)
             | Some batch \<Rightarrow>
                 (case WriteBatch ops (c_store c) batch of
                    (Some e, s) \<Rightarrow> (Some e, c\<lparr>c_store := s\<rparr>)
                  | (None, s) \<Rightarrow> (None, set_cell p next (c\<lparr>c_store := s\<rparr>)))))"

definition unavailable_restore ::
  "UpdateTaskStatusRequest \<Rightarrow> TaskAssignmentMap \<Rightarrow> (string \<times> CheckpointRestoreDescriptor) option" where
  "unavailable_restore req assignment =
     (case us_Failure req of
        None \<Rightarrow> None
      | Some failure \<Rightarrow>
          if us_Status req = TaskStatusFailed \<and> tf_ErrorClass failure = ''checkpoint_unavailable''
          then map_option (Pair (tf_ErrorMessage failure)) (map_of (RestoreCheckpoints assignment) (us_TaskID req))
          else None)"

definition report_unavailable ::
  "msgpack \<Rightarrow> 's MetadataStore \<Rightarrow> UpdateTaskStatusRequest \<Rightarrow> TaskAssignmentMap \<Rightarrow> nat \<Rightarrow> 's Coordinator \<Rightarrow>
     coord_error option \<times> 's Coordinator" where
  "report_unavailable mp ops req assignment p c =
     (case unavailable_restore req assignment of
        None \<Rightarrow> (None, c)
      | Some (reason, restore) \<Rightarrow> invalidate_checkpoint mp ops (us_JobID req) reason restore assignment p c)"

text \<open>The new status; a terminal one gives the slot back.\<close>

definition set_status :: "UpdateTaskStatusRequest \<Rightarrow> 's Coordinator \<Rightarrow> bool \<times> 's Coordinator" where
  "set_status req c =
     (let c1 = c\<lparr>taskStatuses := AList.update (us_TaskID req) (us_Status req) (taskStatuses c)\<rparr> in
      if terminal_status (us_Status req) then releaseTaskSlotLocked (us_WorkerID req) (us_TaskID req) c1
      else (False, c1))"

definition record_status ::
  "msgpack \<Rightarrow> 's MetadataStore \<Rightarrow> UpdateTaskStatusRequest \<Rightarrow> 's Coordinator \<Rightarrow>
     (coord_error + status_reply \<times> (nat \<times> bool) option) \<times> 's Coordinator" where
  "record_status mp ops req c =
     (if \<not> readyLocked c \<or> us_EpochID req \<noteq> c_epoch c \<or> us_WorkerID req = [] then (Inr (Denied, None), c)
      else
        (case map_of (c_jobs c) (us_JobID req) of
           None \<Rightarrow> (Inr (Denied, None), c)
         | Some p \<Rightarrow>
             if IsTerminal (job_Status (c_cells c p)) then (Inr (Denied, None), c)
             else
               (case Get ops (c_store c) (JobAssignmentsKey (us_JobID req)) of
                  Inl e \<Rightarrow> (Inl e, c)
                | Inr data \<Rightarrow>
                    (case dec_tam mp (nil_bytes data) of
                       None \<Rightarrow> (Inr (Denied, None), c)
                     | Some assignment \<Rightarrow>
                         if \<not> matches_assignment assignment req then (Inr (Denied, None), c)
                         else if status_retained (map_of (taskStatuses c) (us_TaskID req)) (us_Status req)
                         then (Inr (Retained, None), c)
                         else
                           (case report_unavailable mp ops req assignment p c of
                              (Some e, c1) \<Rightarrow> (Inl e, c1)
                            | (None, c1) \<Rightarrow>
                                (case set_status req c1 of
                                   (released, c2) \<Rightarrow> (Inr (Accepted, Some (p, released)), c2)))))))"

section \<open>The reaction of the job\<close>

definition job_reaction ::
  "msgpack \<Rightarrow> 's MetadataStore \<Rightarrow> time \<Rightarrow> UpdateTaskStatusRequest \<Rightarrow> nat \<Rightarrow> 's Coordinator \<Rightarrow> 's Coordinator" where
  "job_reaction mp ops now req p c =
     (let current = job_Status (c_cells c p) in
      if us_Status req \<in> {TaskStatusRunning, TaskStatusFinishing}
      then (if allTasksInStatus mp ops (us_JobID req) TaskStatusRunning c \<and> current = JobDeploying
            then snd (transitionJob mp ops now p JobRunning c) else c)
      else if us_Status req \<in> {TaskStatusFailed, TaskStatusCanceled}
      then (if current = JobDeploying \<or> current = JobRunning
            then snd (transitionJob mp ops now p JobFailing c) else c)
      else if us_Status req = TaskStatusFinished
      then (if allTasksInStatus mp ops (us_JobID req) TaskStatusFinished c \<and> current = JobRunning
            then (case transitionJob mp ops now p JobFinishing c of
                    (Some _, c1) \<Rightarrow> c1
                  | (None, c1) \<Rightarrow> snd (transitionJob mp ops now p JobFinished c1))
            else c)
      else c)"

definition HandleUpdateTaskStatus ::
  "msgpack \<Rightarrow> 's MetadataStore \<Rightarrow> time \<Rightarrow> UpdateTaskStatusRequest \<Rightarrow> 's Coordinator \<Rightarrow>
     (coord_error + status_reply) \<times> 's Coordinator" where
  "HandleUpdateTaskStatus mp ops now req c =
     (if \<not> known_status (us_Status req) then (Inl ErrOther, c)
      else
        (case record_status mp ops req c of
           (Inl e, c1) \<Rightarrow> (Inl e, c1)
         | (Inr (reply, None), c1) \<Rightarrow> (Inr reply, c1)
         | (Inr (reply, Some (p, released)), c1) \<Rightarrow>
             let c2 = job_reaction mp ops now req p c1 in
             (Inr reply,
              if released \<or> us_Status req = TaskStatusFinishing then c2\<lparr>schedulerKick := True\<rparr> else c2)))"

section \<open>Fencing and monotonicity\<close>

text \<open>A report is authentic when it comes from the worker and attempt that hold the task, in the
  epoch of the coordinator, for a job that is not over.\<close>

definition authentic :: "msgpack \<Rightarrow> 's MetadataStore \<Rightarrow> 's Coordinator \<Rightarrow> UpdateTaskStatusRequest \<Rightarrow> bool" where
  "authentic mp ops c req \<longleftrightarrow>
     readyLocked c \<and> us_EpochID req = c_epoch c \<and> us_WorkerID req \<noteq> []
     \<and> (\<exists>p data assignment. map_of (c_jobs c) (us_JobID req) = Some p \<and> \<not> IsTerminal (job_Status (c_cells c p))
          \<and> Get ops (c_store c) (JobAssignmentsKey (us_JobID req)) = Inr data
          \<and> dec_tam mp (nil_bytes data) = Some assignment \<and> matches_assignment assignment req)"

lemma record_status_denied:
  assumes "\<not> authentic mp ops c req"
  shows "snd (record_status mp ops req c) = c \<and> (\<exists>r. fst (record_status mp ops req c) = r \<and> (\<forall>reply x. r = Inr (reply, x) \<longrightarrow> reply = Denied \<and> x = None))"
  using assms unfolding record_status_def authentic_def
  by (auto split: option.splits sum.splits)

lemma persist_statuses [simp]: "taskStatuses (snd (persistJobLocked mp ops p c)) = taskStatuses c"
  by (simp add: persistJobLocked_def Let_def split: option.split prod.split)

lemma transition_statuses [simp]: "taskStatuses (snd (transitionJob mp ops now p to c)) = taskStatuses c"
  by (simp add: transitionJob_def Let_def set_cell_def split: option.split)

lemma reaction_statuses [simp]: "taskStatuses (job_reaction mp ops now req p c) = taskStatuses c"
  using transition_statuses [of mp ops now p JobFinishing c]
  by (cases "transitionJob mp ops now p JobFinishing c") (auto simp: job_reaction_def Let_def split: option.split)

lemma unavailable_statuses:
  "report_unavailable mp ops req a p c = (e, c') \<Longrightarrow> taskStatuses c' = taskStatuses c"
  by (auto simp: report_unavailable_def invalidate_checkpoint_def Let_def set_cell_def
      split: sum.splits if_splits option.splits prod.splits)

lemma set_status_statuses: "taskStatuses (snd (set_status req c)) = AList.update (us_TaskID req) (us_Status req) (taskStatuses c)"
  by (simp add: set_status_def Let_def releaseTaskSlotLocked_def split: option.split)

text \<open>A report that gets past the checks.\<close>

lemma record_status_cases:
  assumes "record_status mp ops req c = (r, c')" "c' \<noteq> c"
  obtains p assignment e c1 where "map_of (c_jobs c) (us_JobID req) = Some p"
    "\<not> status_retained (map_of (taskStatuses c) (us_TaskID req)) (us_Status req)"
    "report_unavailable mp ops req assignment p c = (e, c1)" "c' = (if e = None then snd (set_status req c1) else c1)"
  using assms unfolding record_status_def
  by (auto split: if_splits option.splits sum.splits prod.splits)

lemma record_status_statuses:
  assumes "record_status mp ops req c = (r, c')"
  shows "taskStatuses c' = taskStatuses c
    \<or> taskStatuses c' = AList.update (us_TaskID req) (us_Status req) (taskStatuses c)
      \<and> \<not> status_retained (map_of (taskStatuses c) (us_TaskID req)) (us_Status req)"
proof (cases "c' = c")
  case False
  from assms False show ?thesis
    by (rule record_status_cases) (simp add: unavailable_statuses set_status_statuses)
qed simp

lemma update_statuses:
  assumes "HandleUpdateTaskStatus mp ops now req c = (r, c')"
  shows "taskStatuses c' = taskStatuses c
    \<or> taskStatuses c' = AList.update (us_TaskID req) (us_Status req) (taskStatuses c)
      \<and> \<not> status_retained (map_of (taskStatuses c) (us_TaskID req)) (us_Status req)"
proof (cases "taskStatuses c' = taskStatuses c")
  case False
  obtain r1 c1 where r: "record_status mp ops req c = (r1, c1)" by fastforce
  then have "taskStatuses c' = taskStatuses c1"
    using assms False by (auto simp: HandleUpdateTaskStatus_def Let_def split: if_splits sum.splits option.splits prod.splits)
  then show ?thesis using record_status_statuses [OF r] by simp
qed simp

text \<open>C24. Status reports are fenced and never undo the end of a task. A report that is not from the
  worker and attempt holding the task, in the current epoch and for a job that is not over, changes
  nothing at all. Any report changes the status of at most its own task, never one that is
  finished, failed or canceled, and never from running back to deploying.\<close>

theorem task_reports_fenced:
  assumes "HandleUpdateTaskStatus mp ops now req c = (r, c')"
  shows "(\<not> authentic mp ops c req \<longrightarrow> c' = c \<and> r \<noteq> Inr Accepted)
    \<and> (\<forall>t s. map_of (taskStatuses c) t = Some s \<longrightarrow>
         (t \<noteq> us_TaskID req \<or> terminal_status s \<longrightarrow> map_of (taskStatuses c') t = Some s)
         \<and> (s = TaskStatusRunning \<longrightarrow> map_of (taskStatuses c') t \<noteq> Some TaskStatusDeploying))"
proof -
  have "c' = c \<and> r \<noteq> Inr Accepted" if "\<not> authentic mp ops c req"
    using assms record_status_denied [OF that]
    by (auto simp: HandleUpdateTaskStatus_def split: if_splits sum.splits option.splits prod.splits)
  moreover have "(t \<noteq> us_TaskID req \<or> terminal_status s \<longrightarrow> map_of (taskStatuses c') t = Some s)
      \<and> (s = TaskStatusRunning \<longrightarrow> map_of (taskStatuses c') t \<noteq> Some TaskStatusDeploying)"
    if "map_of (taskStatuses c) t = Some s" for t s
    using update_statuses [OF assms] that
    by (cases "t = us_TaskID req") (auto simp: update_conv' status_retained_def)
  ultimately show ?thesis by blast
qed

theorem task_reports_fenced_witness:
  "\<exists>r c'. HandleUpdateTaskStatus no_msgpack memory_ops 5
      \<lparr>us_AttemptID = ''a'', us_WorkerID = ''w'', us_JobID = ''j'', us_TaskID = ''t'', us_Status = TaskStatusRunning,
       us_EpochID = 9, us_Failure = None\<rparr> (example_coord\<lparr>taskStatuses := [(''t'', TaskStatusFinished)]\<rparr>) = (r, c')
     \<and> r \<noteq> Inr Accepted \<and> map_of (taskStatuses c') ''t'' = Some TaskStatusFinished"
proof -
  let ?c = "example_coord\<lparr>taskStatuses := [(''t'', TaskStatusFinished)]\<rparr>"
  let ?req = "\<lparr>us_AttemptID = ''a'', us_WorkerID = ''w'', us_JobID = ''j'', us_TaskID = ''t'', us_Status = TaskStatusRunning,
       us_EpochID = 9, us_Failure = None\<rparr>"
  obtain r c' where h: "HandleUpdateTaskStatus no_msgpack memory_ops 5 ?req ?c = (r, c')" by fastforce
  have "\<not> authentic no_msgpack memory_ops ?c ?req" by (simp add: authentic_def example_coord_def)
  moreover have "map_of (taskStatuses ?c) ''t'' = Some TaskStatusFinished" by simp
  ultimately show ?thesis using task_reports_fenced [OF h] h by blast
qed

end
