(* ===== verification/Checkpoint_Protocol.thy ===== *)
theory Checkpoint_Protocol
  imports Task_Status
begin

text \<open>The checkpoint protocol. A transition system on the stored checkpoint records says how a
  checkpoint may evolve: it is created when no other one of its job is in flight, collects the
  reports of its tasks, and is completed or aborted; a record may
  be marked as invalid later. The operations of the coordinator refine it,
  on every store that keeps the promises of the interface, and what holds of all its runs holds of
  theirs.\<close>

section \<open>Keys of checkpoints\<close>

definition hex_digits :: string where "hex_digits = ''0123456789abcdef''"

lemma hex_digit_mem: "d < 16 \<Longrightarrow> hex_digit d \<in> set hex_digits"
proof -
  have "list_all (\<lambda>d. hex_digit d \<in> set hex_digits) [0..<16]" by code_simp
  then show "d < 16 \<Longrightarrow> hex_digit d \<in> set hex_digits" unfolding list_all_iff by simp
qed

lemma hex_digit_inj:
  assumes "hex_digit d = hex_digit e" "d < 16" "e < 16"
  shows "d = e"
proof -
  have code: "of_char (hex_digit d) = (if d < 10 then 48 + d else 87 + d)" if "d < 16" for d :: nat
    using that by (simp add: hex_digit_def)
  have "(if d < 10 then 48 + d else 87 + d) = of_char (hex_digit e)"
    unfolding code [OF assms(2), symmetric] assms(1) ..
  also have "\<dots> = (if e < 10 then 48 + e else 87 + e)" by (rule code [OF assms(3)])
  finally show ?thesis using assms(2,3) by (simp split: if_splits)
qed

lemma length_hex [simp]: "length (hex n x) = n"
  by (induction n) simp_all

lemma set_hex: "set (hex n x) \<subseteq> set hex_digits"
proof (induction n)
  case (Suc n)
  have "hex_digit (x div 16 ^ n mod 16) \<in> set hex_digits" by (rule hex_digit_mem) simp
  then show ?case using Suc unfolding hex.simps list.set(2) by blast
qed simp

lemma hex_inj: "hex n x = hex n y \<Longrightarrow> x mod 16 ^ n = y mod 16 ^ n"
proof (induction n)
  case (Suc n)
  have d: "x div 16 ^ n mod 16 = y div 16 ^ n mod 16"
    by (rule hex_digit_inj) (use Suc.prems in simp_all)
  have ih: "x mod 16 ^ n = y mod 16 ^ n" by (rule Suc.IH) (use Suc.prems in simp)
  have "z mod 16 ^ Suc n = 16 ^ n * (z div 16 ^ n mod 16) + z mod 16 ^ n" for z :: nat
    using mod_mult2_eq [of z "16 ^ n" 16] by (simp only: power_Suc2)
  then show ?case by (simp only: d ih)
qed simp

lemma CheckpointKey_inj [simp]: "CheckpointKey j i = CheckpointKey j' i' \<longleftrightarrow> j = j' \<and> i = i'"
proof
  assume "CheckpointKey j i = CheckpointKey j' i'"
  then have eq: "(j @ ''/checkpoints/'') @ hex 16 (unat i) = (j' @ ''/checkpoints/'') @ hex 16 (unat i')"
    by (simp add: CheckpointKey_def)
  then have "j @ ''/checkpoints/'' = j' @ ''/checkpoints/'' \<and> hex 16 (unat i) = hex 16 (unat i')"
    by (subst (asm) append_eq_append_conv) simp_all
  moreover have "unat i mod 16 ^ 16 = unat i" "unat i' mod 16 ^ 16 = unat i'"
    using unat_bound [of i] unat_bound [of i'] by simp_all
  ultimately show "j = j' \<and> i = i'" using hex_inj [of 16 "unat i" "unat i'"] by (simp add: word_unat_eq_iff)
qed simp

lemma not_checkpoint_key:
  assumes "rev k ! n \<notin> set hex_digits" "n < 16"
  shows "k \<noteq> CheckpointKey j i"
proof
  assume "k = CheckpointKey j i"
  then have "rev k ! n = rev (hex 16 (unat i)) ! n" using assms(2) by (simp add: CheckpointKey_def nth_append)
  moreover have "rev (hex 16 (unat i)) ! n \<in> set (rev (hex 16 (unat i)))" using assms(2) by (intro nth_mem) simp
  ultimately show False using assms(1) set_hex [of 16 "unat i"] by (metis set_rev subsetD)
qed

lemma other_keys:
  "JobMetaKey j' \<noteq> CheckpointKey j i" "CheckpointManifestKey j' i' \<noteq> CheckpointKey j i"
  "LatestCheckpointKey j' \<noteq> CheckpointKey j i" "JobAssignmentsKey j' \<noteq> CheckpointKey j i"
  "WorkerMetaKey w \<noteq> CheckpointKey j i"
  by (rule not_checkpoint_key [of _ 1]; simp add: hex_digits_def JobMetaKey_def CheckpointManifestKey_def
      LatestCheckpointKey_def JobAssignmentsKey_def WorkerMetaKey_def)+

lemma ClusterEpochKey_other: "ClusterEpochKey \<noteq> CheckpointKey j i"
  by (rule not_checkpoint_key [of _ 0]) (simp_all add: hex_digits_def ClusterEpochKey_def)

lemma SavepointKey_other:
  assumes "CHR ''/'' \<notin> set sp"
  shows "SavepointKey j' sp \<noteq> CheckpointKey j i"
proof (cases "length sp < 16")
  case True
  then show ?thesis
    by (intro not_checkpoint_key [of _ "length sp"]) (simp_all add: hex_digits_def SavepointKey_def nth_append)
next
  case False
  show ?thesis
  proof
    assume eq: "SavepointKey j' sp = CheckpointKey j i"
    show False
    proof (cases "length sp = 16")
      case True
      then have "(j' @ ''/savepoints/'') @ sp = (j @ ''/checkpoints/'') @ hex 16 (unat i)"
        using eq by (simp add: SavepointKey_def CheckpointKey_def)
      then have "j' @ ''/savepoints/'' = j @ ''/checkpoints/''"
        by (subst (asm) append_eq_append_conv) (simp_all add: True)
      then have "rev (j' @ ''/savepoints/'') = rev (j @ ''/checkpoints/'')" by simp
      then show False by simp
    next
      case longer: False
      have "rev (SavepointKey j' sp) ! 16 = rev sp ! 16"
        using longer False by (simp add: SavepointKey_def nth_append)
      moreover have "rev sp ! 16 \<in> set sp" using longer False nth_mem [of 16 "rev sp"] by simp
      moreover have "rev (CheckpointKey j i) ! 16 = CHR ''/''"
        by (simp add: CheckpointKey_def nth_append)
      ultimately show False using eq assms by simp
    qed
  qed
qed

section \<open>The protocol\<close>

text \<open>The records in a store, and the codec: it reads back what it has written, rejects an empty
  value, and reads a map with distinct keys.\<close>

definition cp_view :: "msgpack \<Rightarrow> (string \<Rightarrow> bytes option) \<Rightarrow> string \<times> u64 \<Rightarrow> CheckpointMeta option" where
  "cp_view mp C ji = (case C (CheckpointKey (fst ji) (snd ji)) of None \<Rightarrow> None | Some d \<Rightarrow> dec_cp mp d)"

definition checkpoint_codec :: "msgpack \<Rightarrow> bool" where
  "checkpoint_codec mp \<longleftrightarrow>
     (\<forall>cp d. enc_cp mp cp = Some d \<longrightarrow> dec_cp mp d = Some cp) \<and> dec_cp mp [] = None
     \<and> (\<forall>d tam. dec_tam mp d = Some tam \<longrightarrow> distinct (map fst (Assignments tam)))"

abbreviation in_flight :: "CheckpointMeta \<Rightarrow> bool" where
  "in_flight cp \<equiv> cp_Status cp = CheckpointTriggered \<or> cp_Status cp = CheckpointInProgress"

text \<open>A new record names its tasks once and has no report. A report names a task of the record and
  the replica it was assigned, and does not contradict an earlier one.\<close>

definition fresh_record :: "CheckpointMeta \<Rightarrow> bool" where
  "fresh_record cp \<longleftrightarrow> cp_Status cp = CheckpointInProgress \<and> StatePaths cp = [] \<and> TaskManifests cp = []
     \<and> distinct (map fst (cp_Tasks cp)) \<and> CHR ''/'' \<notin> set (cp_SavepointID cp)"

definition report_of :: "CheckpointMeta \<Rightarrow> string \<Rightarrow> string \<Rightarrow> CheckpointMeta \<Rightarrow> bool" where
  "report_of cp t path cp' \<longleftrightarrow>
     t \<in> dom (map_of (cp_Tasks cp)) \<and> path \<noteq> [] \<and> map_of (cp_Replicas cp) t = Some path
     \<and> map_of (StatePaths cp) t \<in> {None, Some path}
     \<and> (\<exists>ms. cp' = cp\<lparr>StatePaths := AList.update t path (StatePaths cp), TaskManifests := ms\<rparr>)"

abbreviation all_tasks :: "CheckpointMeta \<Rightarrow> bool" where
  "all_tasks cp \<equiv> dom (map_of (StatePaths cp)) = dom (map_of (cp_Tasks cp))"

inductive cp_proto ::
  "(string \<times> u64 \<Rightarrow> CheckpointMeta option) \<Rightarrow> (string \<times> u64 \<Rightarrow> CheckpointMeta option) \<Rightarrow> bool" where
  create: "\<lbrakk>\<forall>i' cp'. V (j, i') = Some cp' \<longrightarrow> i' < i \<and> \<not> in_flight cp'; cp_JobID cp = j; cp_ID cp = i; fresh_record cp\<rbrakk>
     \<Longrightarrow> cp_proto V (V((j, i) \<mapsto> cp))"
| report: "\<lbrakk>V ji = Some cp; cp_Status cp = CheckpointInProgress; report_of cp t path cp'; \<not> all_tasks cp'\<rbrakk>
     \<Longrightarrow> cp_proto V (V(ji \<mapsto> cp'))"
| complete: "\<lbrakk>V ji = Some cp; cp_Status cp = CheckpointInProgress; report_of cp t path cp'; all_tasks cp'\<rbrakk>
     \<Longrightarrow> cp_proto V (V(ji \<mapsto> cp'\<lparr>cp_Status := CheckpointCompleted\<rparr>))"
| abort: "\<lbrakk>V ji = Some cp; in_flight cp \<or> cp_Status cp = CheckpointAborted\<rbrakk>
     \<Longrightarrow> cp_proto V (V(ji \<mapsto> cp\<lparr>cp_Status := CheckpointAborted\<rparr>))"
| invalidate: "V ji = Some cp \<Longrightarrow> cp_proto V (V(ji \<mapsto> cp\<lparr>InvalidReason := m\<rparr>))"

text \<open>What every reachable set of records satisfies.\<close>

definition record_ok :: "CheckpointMeta \<Rightarrow> bool" where
  "record_ok cp \<longleftrightarrow> distinct (map fst (cp_Tasks cp)) \<and> distinct (map fst (StatePaths cp))
     \<and> CHR ''/'' \<notin> set (cp_SavepointID cp)
     \<and> (\<forall>t path. map_of (StatePaths cp) t = Some path \<longrightarrow>
          t \<in> dom (map_of (cp_Tasks cp)) \<and> path \<noteq> [] \<and> map_of (cp_Replicas cp) t = Some path)
     \<and> (cp_Status cp = CheckpointCompleted \<longrightarrow> all_tasks cp)"

definition view_ok :: "(string \<times> u64 \<Rightarrow> CheckpointMeta option) \<Rightarrow> bool" where
  "view_ok V \<longleftrightarrow>
     (\<forall>j i cp. V (j, i) = Some cp \<longrightarrow> cp_JobID cp = j \<and> cp_ID cp = i \<and> record_ok cp)
     \<and> (\<forall>j i i' cp cp'. V (j, i) = Some cp \<and> V (j, i') = Some cp' \<and> in_flight cp \<and> in_flight cp' \<longrightarrow> i = i')"

lemma view_okD:
  assumes "view_ok V" "V (j, i) = Some cp"
  shows "cp_JobID cp = j" "cp_ID cp = i" "record_ok cp"
  using assms by (simp_all add: view_ok_def)

lemma view_ok_empty [simp]: "view_ok (\<lambda>_. None)"
  by (simp add: view_ok_def)

lemma report_of_ok:
  assumes "record_ok cp" "report_of cp t path cp'" "cp_Status cp \<noteq> CheckpointCompleted"
  shows "record_ok cp'"
proof -
  obtain ms where cp': "cp' = cp\<lparr>StatePaths := AList.update t path (StatePaths cp), TaskManifests := ms\<rparr>"
    using assms(2) by (auto simp: report_of_def)
  have "t' \<in> dom (map_of (cp_Tasks cp)) \<and> p \<noteq> [] \<and> map_of (cp_Replicas cp) t' = Some p"
    if "map_of (AList.update t path (StatePaths cp)) t' = Some p" for t' p
    using that assms by (cases "t' = t") (auto simp: record_ok_def report_of_def update_conv')
  then show ?thesis using assms(1,3) by (simp add: record_ok_def cp' distinct_fst_update)
qed

lemma report_of_same:
  "report_of cp t path cp' \<Longrightarrow> cp_JobID cp' = cp_JobID cp \<and> cp_ID cp' = cp_ID cp \<and> cp_Status cp' = cp_Status cp
     \<and> cp_Tasks cp' = cp_Tasks cp"
  by (auto simp: report_of_def)

lemma view_ok_update:
  assumes "view_ok V" "V ji = Some cp" "record_ok cp'" "cp_JobID cp' = cp_JobID cp" "cp_ID cp' = cp_ID cp"
    and "in_flight cp' \<Longrightarrow> in_flight cp"
  shows "view_ok (V(ji \<mapsto> cp'))"
proof -
  obtain j i where ji: "ji = (j, i)" by fastforce
  have *: "\<exists>cp0. V (j', i') = Some cp0 \<and> (in_flight c0 \<longrightarrow> in_flight cp0) \<and> cp_JobID c0 = cp_JobID cp0 \<and> cp_ID c0 = cp_ID cp0"
    if "(V(ji \<mapsto> cp')) (j', i') = Some c0" for j' i' c0
    using that assms(2,4,5,6) by (cases "(j', i') = ji") auto
  have "cp_JobID c0 = j' \<and> cp_ID c0 = i' \<and> record_ok c0" if "(V(ji \<mapsto> cp')) (j', i') = Some c0" for j' i' c0
    using * [OF that] view_okD [OF assms(1)] assms(3) that by (cases "(j', i') = ji") auto
  moreover have "i1 = i2" if "(V(ji \<mapsto> cp')) (j', i1) = Some c1" "(V(ji \<mapsto> cp')) (j', i2) = Some c2"
    "in_flight c1" "in_flight c2" for j' i1 i2 c1 c2
    using * [OF that(1)] * [OF that(2)] that(3,4) assms(1) unfolding view_ok_def by metis
  ultimately show ?thesis unfolding view_ok_def by blast
qed

lemma record_ok_status: "record_ok cp \<Longrightarrow> (s = CheckpointCompleted \<Longrightarrow> all_tasks cp) \<Longrightarrow> record_ok (cp\<lparr>cp_Status := s\<rparr>)"
  by (simp add: record_ok_def)

lemma fresh_record_ok: "fresh_record cp \<Longrightarrow> record_ok cp"
  by (simp add: fresh_record_def record_ok_def)

lemma cp_proto_ok: "cp_proto V V' \<Longrightarrow> view_ok V \<Longrightarrow> view_ok V'"
proof (induction rule: cp_proto.induct)
  case (create V j i cp)
  then show ?case using fresh_record_ok [of cp] unfolding view_ok_def by (auto simp: fresh_record_def)
next
  case (report V ji cp t path cp')
  have "record_ok cp" using view_okD [OF report.prems, of "fst ji" "snd ji"] report.hyps by simp
  then show ?case
    using report_of_ok [OF _ report.hyps(3)] report_of_same [OF report.hyps(3)] report.hyps(2)
    by (intro view_ok_update [OF report.prems report.hyps(1)]) simp_all
next
  case (complete V ji cp t path cp')
  have "record_ok cp" using view_okD [OF complete.prems, of "fst ji" "snd ji"] complete.hyps by simp
  then have "record_ok (cp'\<lparr>cp_Status := CheckpointCompleted\<rparr>)"
    using record_ok_status [OF report_of_ok [OF _ complete.hyps(3)]] complete.hyps(2,4) by simp
  then show ?case
    using report_of_same [OF complete.hyps(3)] by (intro view_ok_update [OF complete.prems complete.hyps(1)]) simp_all
next
  case (abort V ji cp)
  have "record_ok cp" using view_okD [OF abort.prems, of "fst ji" "snd ji"] abort.hyps by simp
  then show ?case
    using record_ok_status [of cp CheckpointAborted] by (intro view_ok_update [OF abort.prems abort.hyps(1)]) simp_all
next
  case (invalidate V ji cp m)
  have "record_ok cp" using view_okD [OF invalidate.prems, of "fst ji" "snd ji"] invalidate.hyps by simp
  then have "record_ok (cp\<lparr>InvalidReason := m\<rparr>)" by (simp add: record_ok_def)
  then show ?case by (intro view_ok_update [OF invalidate.prems invalidate.hyps]) simp_all
qed

lemma cp_protos_ok: "cp_proto\<^sup>*\<^sup>* V V' \<Longrightarrow> view_ok V \<Longrightarrow> view_ok V'"
  by (induction rule: rtranclp_induct) (auto intro: cp_proto_ok)

text \<open>A decision is final, and the tasks of a checkpoint never change.\<close>

definition decided_as :: "CheckpointMeta \<Rightarrow> CheckpointMeta \<Rightarrow> bool" where
  "decided_as cp cp' \<longleftrightarrow> cp_Tasks cp' = cp_Tasks cp
     \<and> (cp_Status cp \<in> {CheckpointCompleted, CheckpointAborted} \<longrightarrow> (\<exists>m. cp' = cp\<lparr>InvalidReason := m\<rparr>))"

lemma decided_as_refl [simp]: "decided_as cp cp"
proof -
  have "cp = cp\<lparr>InvalidReason := InvalidReason cp\<rparr>" by simp
  then show ?thesis unfolding decided_as_def by blast
qed

lemma decided_as_trans:
  assumes "decided_as cp cp1" "decided_as cp1 cp2"
  shows "decided_as cp cp2"
proof -
  have "\<exists>m. cp2 = cp\<lparr>InvalidReason := m\<rparr>" if st: "cp_Status cp \<in> {CheckpointCompleted, CheckpointAborted}"
  proof -
    obtain m where m: "cp1 = cp\<lparr>InvalidReason := m\<rparr>" using assms(1) st unfolding decided_as_def by blast
    then have "cp_Status cp1 \<in> {CheckpointCompleted, CheckpointAborted}" using st by simp
    then obtain m' where "cp2 = cp1\<lparr>InvalidReason := m'\<rparr>" using assms(2) unfolding decided_as_def by blast
    then have "cp2 = cp\<lparr>InvalidReason := m'\<rparr>" using m by simp
    then show ?thesis by (rule exI)
  qed
  then show ?thesis using assms by (simp add: decided_as_def)
qed

lemma cp_proto_decided:
  assumes "cp_proto V V'" "V ji = Some cp"
  shows "\<exists>cp'. V' ji = Some cp' \<and> decided_as cp cp'"
  using assms
proof (cases rule: cp_proto.cases)
  case (create j i cp0)
  then show ?thesis using assms(2) by (cases "ji = (j, i)") auto
next
  case (report ji' cp0 t path cp')
  then have "decided_as cp0 cp'" using report_of_same [OF report(4)] by (simp add: decided_as_def)
  then show ?thesis using assms(2) report(1,2) by (cases "ji = ji'") auto
next
  case (complete ji' cp0 t path cp')
  then have "decided_as cp0 (cp'\<lparr>cp_Status := CheckpointCompleted\<rparr>)"
    using report_of_same [OF complete(4)] by (simp add: decided_as_def)
  then show ?thesis using assms(2) complete(1,2) by (cases "ji = ji'") auto
next
  case (abort ji' cp0)
  have "decided_as cp0 (cp0\<lparr>cp_Status := CheckpointAborted\<rparr>)"
  proof (cases "cp_Status cp0 = CheckpointAborted")
    case True
    then have "cp0\<lparr>cp_Status := CheckpointAborted\<rparr> = cp0" by simp
    then show ?thesis by simp
  qed (use abort in \<open>auto simp: decided_as_def\<close>)
  then show ?thesis using assms(2) abort by (cases "ji = ji'") auto
next
  case (invalidate ji' cp0 m)
  have "decided_as cp0 (cp0\<lparr>InvalidReason := m\<rparr>)" unfolding decided_as_def by (intro conjI impI exI) simp_all
  then show ?thesis using assms(2) invalidate by (cases "ji = ji'") auto
qed

lemma cp_protos_decided:
  assumes "cp_proto\<^sup>*\<^sup>* V V'" "V ji = Some cp"
  shows "\<exists>cp'. V' ji = Some cp' \<and> decided_as cp cp'"
  using assms
proof (induction rule: rtranclp_induct)
  case (step V1 V2)
  then show ?case using cp_proto_decided [OF step.hyps(2)] decided_as_trans by blast
qed simp

text \<open>A checkpoint that appears gets a larger identifier than every earlier one of its job.\<close>

lemma cp_protos_new:
  assumes "cp_proto\<^sup>*\<^sup>* V V'" "V (j, i) = None" "V' (j, i) = Some cp" "V (j, i') = Some cp'"
  shows "i' < i"
  using assms
proof (induction arbitrary: cp rule: rtranclp_induct)
  case (step V1 V2)
  obtain cp1 where v1: "V1 (j, i') = Some cp1" using cp_protos_decided [OF step.hyps(1) step.prems(3)] by blast
  show ?case
  proof (cases "V1 (j, i)")
    case None
    from step.hyps(2) show ?thesis
      by (cases rule: cp_proto.cases) (use None step.prems(2) v1 in \<open>auto split: if_splits\<close>)
  qed (use step in blast)
qed simp

section \<open>The operations refine the protocol\<close>

text \<open>A batch that writes one checkpoint record changes that entry of the view only.\<close>

definition plain :: "kvEntry list \<Rightarrow> bool" where
  "plain kvs \<longleftrightarrow> (\<forall>k \<in> fst ` set kvs. \<forall>j i. k \<noteq> CheckpointKey j i)"

lemma plain_simps [simp]:
  "plain []" "plain ((k, v) # kvs) \<longleftrightarrow> (\<forall>j i. k \<noteq> CheckpointKey j i) \<and> plain kvs"
  "plain (kvs @ kvs') \<longleftrightarrow> plain kvs \<and> plain kvs'" "plain (rev kvs) \<longleftrightarrow> plain kvs"
  by (auto simp: plain_def)

lemma plain_lookup: "plain kvs \<Longrightarrow> map_of kvs (CheckpointKey j i) = None"
  by (force simp: plain_def map_of_eq_None_iff)

lemma cp_view_plain: "plain kvs \<Longrightarrow> cp_view mp (C ++ map_of (rev kvs)) = cp_view mp C"
  by (simp add: fun_eq_iff cp_view_def map_add_def plain_lookup)

lemma cp_view_record:
  assumes "plain pre" "plain post" "dec_cp mp d = Some cp"
  shows "cp_view mp (C ++ map_of (rev (pre @ (CheckpointKey j i, d) # post))) = (cp_view mp C)((j, i) \<mapsto> cp)"
  using assms by (auto simp: fun_eq_iff cp_view_def map_add_def plain_lookup split: option.splits)

lemma cp_view_set: "dec_cp mp d = Some cp \<Longrightarrow> cp_view mp (C(CheckpointKey j i \<mapsto> d)) = (cp_view mp C)((j, i) \<mapsto> cp)"
  by (auto simp: fun_eq_iff cp_view_def)

lemma cp_view_other: "(\<And>j i. k \<noteq> CheckpointKey j i) \<Longrightarrow> cp_view mp (C(k := x)) = cp_view mp C"
  by (auto simp: fun_eq_iff cp_view_def)

lemma enqueue_store [simp]: "c_store (enqueueCommandLocked w cmd c) = c_store c"
  by (simp add: enqueueCommandLocked_def split: option.split)

lemma notify_store [simp]: "c_store (notify_tasks t j d tasks c) = c_store c"
proof -
  have "c_store (fold (\<lambda>(taskID, workerID). enqueueCommandLocked workerID (f taskID)) tasks c) = c_store c" for f
    by (induction tasks arbitrary: c) (auto simp: case_prod_beta)
  then show ?thesis by (simp add: notify_tasks_def)
qed

lemma set_cell_store [simp]: "c_store (set_cell p j c) = c_store c"
  by (simp add: set_cell_def)

lemma abort_publish_store [simp]: "c_store (abort_publish cp failed command c) = c_store c"
  by (simp add: abort_publish_def Let_def split: option.split)

lemma savepoint_write_plain:
  "savepointDecisionLocked mp ops now c cp = Inr kvs \<Longrightarrow> CHR ''/'' \<notin> set (cp_SavepointID cp) \<Longrightarrow> plain kvs"
  by (auto simp: savepointDecisionLocked_def SavepointKey_other split: if_splits sum.splits option.splits)

text \<open>The batch of an abort.\<close>

lemma abort_batch_shape:
  assumes "abort_batch mp ops now c cp failed = Inr kvs" "CHR ''/'' \<notin> set (cp_SavepointID cp)"
  shows "\<exists>d rest. kvs = (CheckpointKey (cp_JobID cp) (cp_ID cp), d) # rest
    \<and> enc_cp mp (cp\<lparr>cp_Status := CheckpointAborted\<rparr>) = Some d \<and> plain rest"
  using assms savepoint_write_plain [of mp ops now c "cp\<lparr>cp_Status := CheckpointAborted\<rparr>"]
  by (auto simp: abort_batch_def other_keys split: option.splits sum.splits if_splits)

abbreviation refines :: "msgpack \<Rightarrow> (string \<Rightarrow> bytes option) \<Rightarrow> (string \<Rightarrow> bytes option) \<Rightarrow> bool" where
  "refines mp C C' \<equiv> cp_proto\<^sup>*\<^sup>* (cp_view mp C) (cp_view mp C')"

context metadata_store
begin

lemma load_checkpoint_view:
  assumes "inv (c_store c)" "checkpoint_codec mp" "load_checkpoint mp ops c j i = Inr cp"
  shows "cp_view mp (contents (c_store c)) (j, i) = Some cp"
proof -
  obtain data where g: "Get ops (c_store c) (CheckpointKey j i) = Inr data" and d: "dec_cp mp (nil_bytes data) = Some cp"
    using assms(3) by (auto simp: load_checkpoint_def split: sum.splits option.splits)
  then have "data = contents (c_store c) (CheckpointKey j i)" using get [OF assms(1)] by simp
  then show ?thesis
    using d assms(2) by (cases "contents (c_store c) (CheckpointKey j i)") (auto simp: cp_view_def nil_bytes_def checkpoint_codec_def)
qed

lemma batch_refines:
  assumes "inv s" "WriteBatch ops s kvs = (e, s')" "refines mp (contents s) (contents s ++ map_of (rev kvs))"
  shows "inv s' \<and> refines mp (contents s) (contents s')"
  using batch [OF assms(1,2)] assms(3) by auto

lemma abort_refines:
  assumes "inv (c_store c)" "checkpoint_codec mp" "view_ok (cp_view mp (contents (c_store c)))"
    and "abortCheckpoint mp ops now j i e failure c = (r, c')"
  shows "inv (c_store c') \<and> refines mp (contents (c_store c)) (contents (c_store c'))"
proof (cases "c_store c' = c_store c")
  case False
  obtain cp kvs where cp: "load_checkpoint mp ops c j i = Inr cp"
    and st: "in_flight cp \<or> cp_Status cp = CheckpointAborted"
    and b: "abort_batch mp ops now c cp (charged_job c now cp failure) = Inr kvs"
    and w: "WriteBatch ops (c_store c) kvs = (r, c_store c')"
    using assms(4) False
    by (auto simp: abortCheckpoint_def Let_def split: if_splits sum.splits option.splits prod.splits)
  have v: "cp_view mp (contents (c_store c)) (j, i) = Some cp"
    by (rule load_checkpoint_view [OF assms(1,2) cp])
  note ok = view_okD [OF assms(3) v]
  obtain d rest where kvs: "kvs = (CheckpointKey j i, d) # rest" and d: "enc_cp mp (cp\<lparr>cp_Status := CheckpointAborted\<rparr>) = Some d"
    and rest: "plain rest"
    using abort_batch_shape [OF b] ok by (auto simp: record_ok_def)
  have dec: "dec_cp mp d = Some (cp\<lparr>cp_Status := CheckpointAborted\<rparr>)"
    using d assms(2) by (simp add: checkpoint_codec_def)
  have "refines mp (contents (c_store c)) (contents (c_store c) ++ map_of (rev kvs))"
    unfolding kvs cp_view_record [OF plain_simps(1) rest dec, of _ j i, simplified append_Nil]
    by (rule r_into_rtranclp) (rule cp_proto.abort [where V = "cp_view mp (contents (c_store c))" and ji = "(j, i)", OF v st])
  then show ?thesis using batch_refines [OF assms(1) w] by blast
qed (simp add: assms(1))

end

text \<open>The identifier of a new checkpoint.\<close>

lemma trigger_scan_spec:
  assumes "trigger_scan mp j a kvs h = Inr h'"
  shows "h \<le> h' \<and> (\<forall>(k, v) \<in> set kvs. k = LatestCheckpointKey j \<or> HasSuffix k ''/metadata.json''
    \<or> (\<exists>cp. dec_cp mp v = Some cp \<and> cp_ID cp \<le> h' \<and> \<not> in_flight cp))"
  using assms
proof (induction mp j a kvs h rule: trigger_scan.induct)
  case (2 mp j a k v kvs h)
  show ?case
  proof (cases "k = LatestCheckpointKey j \<or> HasSuffix k ''/metadata.json''")
    case True
    then show ?thesis using "2.IH"(1) "2.prems" by auto
  next
    case False
    then obtain cp where cp: "dec_cp mp v = Some cp" "\<not> in_flight cp" "trigger_scan mp j a kvs (max h (cp_ID cp)) = Inr h'"
      and "\<not> (cp_Final cp \<and> cp_AttemptID cp = a \<and> cp_Status cp = CheckpointCompleted)"
      using "2.prems" by (auto split: option.splits if_splits)
    then show ?thesis using "2.IH"(2) [OF False cp(1)] by auto
  qed
qed simp

lemma CheckpointKey_scanned:
  "HasPrefix (CheckpointKey j i) (CheckpointsPrefix j)" "\<not> HasSuffix (CheckpointKey j i) ''/metadata.json''"
  "\<not> HasSuffix (CheckpointKey j i) ''/latest''"
proof -
  show "HasPrefix (CheckpointKey j i) (CheckpointsPrefix j)"
    by (simp add: HasPrefix_iff CheckpointKey_def CheckpointsPrefix_def)
  have "p @ s \<noteq> CheckpointKey j i" if "s \<noteq> []" "last s \<notin> set hex_digits" for p s
    using that by (intro not_checkpoint_key [of _ 0]) (simp_all add: rev_nth nth_append last_conv_nth)
  then show "\<not> HasSuffix (CheckpointKey j i) ''/metadata.json''" "\<not> HasSuffix (CheckpointKey j i) ''/latest''"
    by (auto simp: HasSuffix_iff hex_digits_def dest: sym)
qed

context metadata_store
begin

lemma trigger_id_fresh:
  assumes "inv (c_store c)" "view_ok (cp_view mp (contents (c_store c)))"
    and "trigger_checkpoint_id mp ops c j a = Inr i" "cp_view mp (contents (c_store c)) (j, i') = Some cp'"
  shows "i' < i \<and> \<not> in_flight cp'"
proof -
  obtain kvs h where kvs: "PrefixScan ops (c_store c) (CheckpointsPrefix j) = Inr kvs"
    and h: "trigger_scan mp j a kvs 0 = Inr h" "h \<noteq> - 1" "i = h + 1"
    using assms(3) by (auto simp: trigger_checkpoint_id_def split: sum.splits if_splits)
  obtain d where d: "contents (c_store c) (CheckpointKey j i') = Some d" "dec_cp mp d = Some cp'"
    using assms(4) by (auto simp: cp_view_def split: option.splits)
  have "(CheckpointKey j i', d) \<in> set kvs"
    unfolding scan_pairs [OF assms(1) kvs] using CheckpointKey_scanned(1) d(1) by blast
  then have "cp_ID cp' \<le> h \<and> \<not> in_flight cp'"
    using trigger_scan_spec [OF h(1)] CheckpointKey_scanned(2) other_keys(3) [of j j i'] d(2) by fastforce
  then show ?thesis
    using u64_succ_greater [OF h(2)] view_okD(2) [OF assms(2,4)] h(3) by auto
qed

lemma trigger_prepare_spec:
  assumes "inv (c_store c)" "checkpoint_codec mp" "view_ok (cp_view mp (contents (c_store c)))"
    and "trigger_prepare mp ops now j sp final c = Inr (p, cp)" "CHR ''/'' \<notin> set sp"
  shows "cp_JobID cp = j \<and> cp_SavepointID cp = sp \<and> fresh_record cp
    \<and> (\<forall>i' cp'. cp_view mp (contents (c_store c)) (j, i') = Some cp' \<longrightarrow> i' < cp_ID cp \<and> \<not> in_flight cp')"
proof -
  obtain tam i g where tam: "trigger_assignment mp ops c j final = Inr tam"
    and i: "trigger_checkpoint_id mp ops c j (tam_AttemptID tam) = Inr i"
    and cp: "cp = new_checkpoint c now j sp final tam i g"
    using assms(4) by (auto simp: trigger_prepare_def Let_def split: if_splits option.splits sum.splits)
  have "distinct (map fst (Assignments tam))"
    using tam assms(2) by (auto simp: trigger_assignment_def checkpoint_codec_def split: sum.splits option.splits if_splits)
  then show ?thesis
    using trigger_id_fresh [OF assms(1,3) i] assms(5) by (auto simp: cp new_checkpoint_def fresh_record_def)
qed

lemma trigger_persist_refines:
  assumes "inv (c_store c)" "checkpoint_codec mp" "trigger_persist mp ops p cp c = (r, c')"
    and cp: "fresh_record cp" "\<forall>i' cp'. cp_view mp (contents (c_store c)) (cp_JobID cp, i') = Some cp' \<longrightarrow> i' < cp_ID cp \<and> \<not> in_flight cp'"
  shows "inv (c_store c') \<and> refines mp (contents (c_store c)) (contents (c_store c'))"
proof (cases "c_store c' = c_store c")
  case False
  obtain kvs e where b: "trigger_batch mp (attempted_job (cp_SavepointID cp) (c_cells c p)) cp = Some kvs"
    and w: "WriteBatch ops (c_store c) kvs = (e, c_store c')"
    using assms(3) False by (auto simp: trigger_persist_def Let_def split: option.splits prod.splits)
  obtain d x rest where kvs: "kvs = [(JobMetaKey (cp_JobID cp), x)] @ (CheckpointKey (cp_JobID cp) (cp_ID cp), d) # rest"
    and d: "enc_cp mp cp = Some d" and rest: "plain rest"
    using b cp(1) by (auto simp: trigger_batch_def fresh_record_def SavepointKey_other split: option.splits if_splits)
  have dec: "dec_cp mp d = Some cp" using d assms(2) by (simp add: checkpoint_codec_def)
  have pre: "plain [(JobMetaKey (cp_JobID cp), x)]" by (simp add: other_keys)
  have "refines mp (contents (c_store c)) (contents (c_store c) ++ map_of (rev kvs))"
    unfolding kvs cp_view_record [OF pre rest dec]
    by (intro r_into_rtranclp cp_proto.create cp refl)
  then show ?thesis using batch_refines [OF assms(1) w] by blast
qed (simp add: assms(1))

lemma refines_trans:
  assumes "inv (c_store c1) \<and> refines mp (contents (c_store c)) (contents (c_store c1))"
    and "view_ok (cp_view mp (contents (c_store c)))"
    and "view_ok (cp_view mp (contents (c_store c1))) \<Longrightarrow> inv (c_store c1) \<Longrightarrow>
      inv (c_store c2) \<and> refines mp (contents (c_store c1)) (contents (c_store c2))"
  shows "inv (c_store c2) \<and> refines mp (contents (c_store c)) (contents (c_store c2))"
  using assms cp_protos_ok rtranclp_trans by (metis (no_types, lifting))

lemma trigger_dispatch_refines:
  assumes "inv (c_store c)" "checkpoint_codec mp" "view_ok (cp_view mp (contents (c_store c)))"
    and "trigger_dispatch mp ops now peer cp trigger tasks sent c = (r, c')"
  shows "inv (c_store c') \<and> refines mp (contents (c_store c)) (contents (c_store c'))"
  using assms
proof (induction tasks arbitrary: sent c)
  case (Cons tw tasks)
  obtain t w where tw: "tw = (t, w)" by fastforce
  consider c1 sent' where "trigger_dispatch mp ops now peer cp trigger tasks sent' c1 = (r, c')" "c_store c1 = c_store c"
    | "c' = c" | j i e m r' where "abortCheckpoint mp ops now j i e m c = (r', c')"
    using Cons.prems(4) unfolding tw
    by (auto split: option.splits if_splits prod.splits)
  then show ?case
  proof cases
    case (1 c1 sent')
    then show ?thesis using Cons.IH [OF _ Cons.prems(2) _ 1(1)] Cons.prems(1,3) by simp
  next
    case 3
    then show ?thesis by (rule abort_refines [OF Cons.prems(1-3)])
  qed (simp add: Cons.prems(1))
qed simp

lemma trigger_refines:
  assumes "inv (c_store c)" "checkpoint_codec mp" "view_ok (cp_view mp (contents (c_store c)))"
    and "triggerCheckpointBoundary mp ops now peer j sp final c = (r, c')" "CHR ''/'' \<notin> set sp"
  shows "inv (c_store c') \<and> refines mp (contents (c_store c)) (contents (c_store c'))"
proof (cases "trigger_prepare mp ops now j sp final c")
  case (Inr pcp)
  obtain p cp where pcp: "pcp = (p, cp)" by fastforce
  note spec = trigger_prepare_spec [OF assms(1-3) Inr [unfolded pcp] assms(5)]
  obtain r1 c1 where p: "trigger_persist mp ops p cp c = (r1, c1)" by fastforce
  have s1: "inv (c_store c1) \<and> refines mp (contents (c_store c)) (contents (c_store c1))"
    by (rule trigger_persist_refines [OF assms(1,2) p]) (use spec in simp_all)
  show ?thesis
  proof (cases r1)
    case (Inl e)
    then show ?thesis using assms(4) s1 p by (simp add: triggerCheckpointBoundary_def Inr pcp)
  next
    case trigger: (Inr data)
    obtain r2 c2 where d: "trigger_dispatch mp ops now peer cp data (cp_Tasks cp) [] c1 = (r2, c2)" by fastforce
    then have "c' = c2"
      using assms(4) p by (auto simp: triggerCheckpointBoundary_def Inr pcp trigger split: option.splits)
    then show ?thesis
      using refines_trans [OF s1 assms(3)] trigger_dispatch_refines [OF _ assms(2) _ d] by blast
  qed
qed (use assms in \<open>simp add: triggerCheckpointBoundary_def\<close>)

end

text \<open>Acknowledgements. The number of reports equals the number of tasks exactly when every task
  has reported, because reports only come from tasks of the checkpoint.\<close>

lemma all_reported_iff:
  assumes "record_ok cp"
  shows "all_reported cp \<longleftrightarrow> all_tasks cp"
proof -
  have card: "length m = card (dom (map_of m))" if "distinct (map fst m)" for m :: "(string \<times> string) list"
    using that distinct_card [of "map fst m"] by (simp add: dom_map_of_conv_image_fst)
  have "dom (map_of (StatePaths cp)) \<subseteq> dom (map_of (cp_Tasks cp))" using assms by (force simp: record_ok_def)
  then show ?thesis
    using assms card finite_dom_map_of card_subset_eq unfolding all_reported_def record_ok_def by metis
qed

lemma ack_record_report:
  assumes "ack_record js req cp = Inr cp'"
  shows "\<exists>path. report_of cp (ack_TaskID req) path cp'" "cp_Status cp \<in> {CheckpointInProgress, CheckpointCompleted}"
proof -
  obtain st cp1 where st: "ack_State req = Some st" "reporter_ok cp req"
    "mget (cp_Replicas cp) (ack_TaskID req) [] \<noteq> []" "sh_Path st = mget (cp_Replicas cp) (ack_TaskID req) []"
    and status: "cp_Status cp \<in> {CheckpointInProgress, CheckpointCompleted}"
    and cp1: "(if ManifestVersion cp \<noteq> 0 then add_manifest js (ack_TaskID req) (sh_Manifest st) cp else Some cp) = Some cp1"
    and cp': "map_of (StatePaths cp1) (ack_TaskID req) \<in> {None, Some (sh_Path st)}"
      "cp' = cp1\<lparr>StatePaths := AList.update (ack_TaskID req) (sh_Path st) (StatePaths cp1)\<rparr>"
    using assms by (auto simp: ack_record_def split: if_splits option.splits)
  have "cp1 = cp\<lparr>TaskManifests := TaskManifests cp1\<rparr>"
    using cp1 by (auto simp: add_manifest_def split: if_splits option.splits)
  then obtain ms where ms: "cp1 = cp\<lparr>TaskManifests := ms\<rparr>" by blast
  have "cp' = cp\<lparr>StatePaths := AList.update (ack_TaskID req) (sh_Path st) (StatePaths cp), TaskManifests := ms\<rparr>"
    "map_of (StatePaths cp) (ack_TaskID req) \<in> {None, Some (sh_Path st)}"
    using cp' unfolding ms by simp_all
  note cp' = this
  have "ack_TaskID req \<in> dom (map_of (cp_Tasks cp))" using st(2) by (auto simp: reporter_ok_def split: option.splits)
  moreover have "map_of (cp_Replicas cp) (ack_TaskID req) = Some (sh_Path st)"
    using st(3,4) by (auto simp: mget_def split: option.splits)
  ultimately have "report_of cp (ack_TaskID req) (sh_Path st) cp'"
    using st(3,4) cp' unfolding report_of_def by (metis (no_types))
  then show "\<exists>path. report_of cp (ack_TaskID req) path cp'" ..
  show "cp_Status cp \<in> {CheckpointInProgress, CheckpointCompleted}" by (rule status)
qed

lemma complete_batch_shape:
  assumes "complete_batch mp js ops now c cp p d = Inr kvs" "CHR ''/'' \<notin> set (cp_SavepointID cp)"
  shows "\<exists>rest. kvs = (CheckpointKey (cp_JobID cp) (cp_ID cp), d) # rest \<and> plain rest"
proof -
  have "plain m" if "manifest_write js now c cp = Some m" for m
    using that by (auto simp: manifest_write_def other_keys split: if_splits option.splits)
  then show ?thesis
    using assms savepoint_write_plain by (fastforce simp: complete_batch_def other_keys split: option.splits sum.splits)
qed

context metadata_store
begin

lemma record_write_refines:
  assumes "inv (c_store c)" "checkpoint_codec mp" "enc_cp mp cp = Some d" "plain rest"
    and "WriteBatch ops (c_store c) ((CheckpointKey j i, d) # rest) = (e, s')"
    and "cp_proto (cp_view mp (contents (c_store c))) ((cp_view mp (contents (c_store c)))((j, i) \<mapsto> cp))"
  shows "inv s' \<and> refines mp (contents (c_store c)) (contents s')"
proof -
  have "dec_cp mp d = Some cp" using assms(2,3) by (simp add: checkpoint_codec_def)
  then show ?thesis
    using cp_view_record [OF plain_simps(1) assms(4), of mp d cp "contents (c_store c)" j i] assms(6)
    by (intro batch_refines [OF assms(1,5)]) (simp add: r_into_rtranclp)
qed

lemma ack_refines:
  assumes "inv (c_store c)" "checkpoint_codec mp" "view_ok (cp_view mp (contents (c_store c)))"
    and "AcknowledgeCheckpoint mp js ops now req c = (r, c')"
  shows "inv (c_store c') \<and> refines mp (contents (c_store c)) (contents (c_store c'))"
proof (cases "c_store c' = c_store c")
  case False
  let ?V = "cp_view mp (contents (c_store c))" and ?ji = "(ack_JobID req, ack_CheckpointID req)"
  obtain cp0 cp dec where l: "load_checkpoint mp ops c (ack_JobID req) (ack_CheckpointID req) = Inr cp0"
    and a: "ack_record js req cp0 = Inr cp" "cp_Status cp \<noteq> CheckpointCompleted"
    and step: "(if all_reported cp then ack_complete mp js ops now (cp\<lparr>cp_Status := CheckpointCompleted\<rparr>) dec c
                else ack_partial mp ops cp c) = (r, c')"
    using assms(4) False by (auto simp: AcknowledgeCheckpoint_def split: if_splits option.splits sum.splits)
  have v: "?V ?ji = Some cp0" by (rule load_checkpoint_view [OF assms(1,2) l])
  obtain path where rep: "report_of cp0 (ack_TaskID req) path cp" using ack_record_report(1) [OF a(1)] by blast
  note same = report_of_same [OF rep] and ok0 = view_okD [OF assms(3) v]
  have prog: "cp_Status cp0 = CheckpointInProgress"
    using ack_record_report(2) [OF a(1)] a(2) same by auto
  have ok: "record_ok cp" using report_of_ok [OF ok0(3) rep] prog by simp
  show ?thesis
  proof (cases "all_reported cp")
    case True
    let ?cp = "cp\<lparr>cp_Status := CheckpointCompleted\<rparr>"
    obtain d p kvs e where b: "enc_cp mp ?cp = Some d" "complete_batch mp js ops now c ?cp p d = Inr kvs"
      and w: "WriteBatch ops (c_store c) kvs = (e, c_store c')"
      using step True False by (auto simp: ack_complete_def split: option.splits sum.splits prod.splits)
    obtain rest where kvs: "kvs = (CheckpointKey (ack_JobID req) (ack_CheckpointID req), d) # rest" "plain rest"
      using complete_batch_shape [OF b(2)] ok same ok0 by (auto simp: record_ok_def)
    have "cp_proto ?V (?V(?ji \<mapsto> ?cp))"
      using cp_proto.complete [where V = ?V and ji = ?ji, OF v prog rep] all_reported_iff [OF ok] True by simp
    then show ?thesis by (rule record_write_refines [OF assms(1,2) b(1) kvs(2) w [unfolded kvs(1)]])
  next
    case part: False
    obtain d e where d: "enc_cp mp cp = Some d"
      and w: "WriteBatch ops (c_store c) [(CheckpointKey (cp_JobID cp) (cp_ID cp), d)] = (e, c_store c')"
      using step part False by (auto simp: ack_partial_def split: option.splits prod.splits)
    have "cp_proto ?V (?V(?ji \<mapsto> cp))"
      using cp_proto.report [where V = ?V and ji = ?ji, OF v prog rep] all_reported_iff [OF ok] part by simp
    then show ?thesis
      using record_write_refines [OF assms(1,2) d plain_simps(1)] w same ok0 by simp
  qed
qed (simp add: assms(1))

lemma report_failure_refines:
  assumes "inv (c_store c)" "checkpoint_codec mp" "view_ok (cp_view mp (contents (c_store c)))"
    and "ReportCheckpointFailure mp ops now req c = (r, c')"
  shows "inv (c_store c') \<and> refines mp (contents (c_store c)) (contents (c_store c'))"
proof (cases "c' = c")
  case False
  then show ?thesis
    using assms(4) abort_refines [OF assms(1-3)]
    by (fastforce simp: ReportCheckpointFailure_def split: if_splits sum.splits)
qed (simp add: assms(1))

lemma handle_ack_refines:
  assumes "inv (c_store c)" "checkpoint_codec mp" "view_ok (cp_view mp (contents (c_store c)))"
    and "HandleAcknowledgeCheckpoint mp js ops now req c = (r, c')"
  shows "inv (c_store c') \<and> refines mp (contents (c_store c)) (contents (c_store c'))"
  using assms(4) ack_refines [OF assms(1-3)] report_failure_refines [OF assms(1-3)]
  by (auto simp: HandleAcknowledgeCheckpoint_def split: prod.splits if_splits)

lemma fold_abort_refines:
  assumes "inv (c_store c)" "checkpoint_codec mp" "view_ok (cp_view mp (contents (c_store c)))"
  shows "let c' = fold (\<lambda>cp c. snd (abortCheckpoint mp ops now (cp_JobID cp) (cp_ID cp) (cp_EpochID cp) m c)) cps c
    in inv (c_store c') \<and> refines mp (contents (c_store c)) (contents (c_store c'))"
  using assms
proof (induction cps arbitrary: c)
  case (Cons cp cps)
  let ?c1 = "snd (abortCheckpoint mp ops now (cp_JobID cp) (cp_ID cp) (cp_EpochID cp) m c)"
  have s1: "inv (c_store ?c1) \<and> refines mp (contents (c_store c)) (contents (c_store ?c1))"
    by (rule abort_refines [OF Cons.prems, where r = "fst (abortCheckpoint mp ops now (cp_JobID cp) (cp_ID cp) (cp_EpochID cp) m c)"]) simp
  show ?case
    using refines_trans [OF s1 Cons.prems(3)] Cons.IH [OF _ Cons.prems(2), of ?c1] unfolding Let_def fold_simps by blast
qed simp

lemma expire_refines:
  assumes "inv (c_store c)" "checkpoint_codec mp" "view_ok (cp_view mp (contents (c_store c)))"
  shows "inv (c_store (expireCheckpoints mp ops now c))
    \<and> refines mp (contents (c_store c)) (contents (c_store (expireCheckpoints mp ops now c)))"
  using fold_abort_refines [of "c\<lparr>activeCheckpoints := x\<rparr>" for x, simplified] assms
  unfolding expireCheckpoints_def Let_def by blast

lemma transition_keeps_view:
  assumes "inv (c_store c)" "transitionJob mp ops now p to c = (r, c')"
  shows "inv (c_store c') \<and> cp_view mp (contents (c_store c')) = cp_view mp (contents (c_store c))"
proof (cases "ValidateTransition (job_Status (c_cells c p)) to")
  case None
  then show ?thesis
    using transitionJob_store [OF assms(2,1) None] cp_view_other [OF other_keys(1)] by (cases r) auto
next
  case (Some e)
  then show ?thesis using assms transitionJob_invalid [OF Some, of mp ops now] by simp
qed

end

section \<open>Restarts\<close>

text \<open>Recovery aborts what it finds in flight. It identifies a checkpoint by what its record says, so
  it relies on the keys under a checkpoint prefix being those the coordinator writes.\<close>

definition clean_store :: "msgpack \<Rightarrow> (string \<Rightarrow> bytes option) \<Rightarrow> bool" where
  "clean_store mp C \<longleftrightarrow>
     (\<forall>j k. C k \<noteq> None \<and> HasPrefix k (CheckpointsPrefix j) \<longrightarrow>
        (\<exists>i. k = CheckpointKey j i) \<or> HasSuffix k ''/latest'' \<or> HasSuffix k ''/metadata.json'')
     \<and> (\<forall>k v sp. C k = Some v \<and> dec_sp mp v = Some sp \<longrightarrow> CHR ''/'' \<notin> set (sp_ID sp))"

text \<open>A record that recovery writes is an abort of the stored one.\<close>

definition abortable :: "(string \<times> u64 \<Rightarrow> CheckpointMeta option) \<Rightarrow> CheckpointMeta \<Rightarrow> bool" where
  "abortable V cp \<longleftrightarrow> (\<exists>cp0. V (cp_JobID cp, cp_ID cp) = Some cp0 \<and> (in_flight cp0 \<or> cp_Status cp0 = CheckpointAborted)
     \<and> cp\<lparr>cp_Status := CheckpointAborted\<rparr> = cp0\<lparr>cp_Status := CheckpointAborted\<rparr>)"

lemma abortable_update:
  assumes "abortable V cp" "abortable V cp'"
  shows "abortable (V((cp_JobID cp, cp_ID cp) \<mapsto> cp\<lparr>cp_Status := CheckpointAborted\<rparr>)) cp'"
  using assms unfolding abortable_def by (cases "(cp_JobID cp', cp_ID cp') = (cp_JobID cp, cp_ID cp)") auto

lemma recover_checkpoints_loop_aborts:
  assumes "recover_checkpoints_loop mp kvs latest aborts = Inr (latest', aborts')" "cp \<in> set aborts'"
  shows "cp \<in> set aborts \<or> (\<exists>(k, v) \<in> set kvs. \<not> HasSuffix k ''/latest'' \<and> \<not> HasSuffix k ''/metadata.json''
    \<and> (\<exists>cp0. dec_cp mp v = Some cp0 \<and> in_flight cp0 \<and> cp = cp0\<lparr>cp_Status := CheckpointAborted\<rparr>))"
  using assms
proof (induction kvs arbitrary: latest aborts)
  case (Cons kv kvs)
  obtain k v where kv: "kv = (k, v)" by fastforce
  consider l where "recover_checkpoints_loop mp kvs l aborts = Inr (latest', aborts')"
    | cp0 where "\<not> HasSuffix k ''/latest''" "\<not> HasSuffix k ''/metadata.json''" "dec_cp mp v = Some cp0" "in_flight cp0"
        "recover_checkpoints_loop mp kvs latest (aborts @ [cp0\<lparr>cp_Status := CheckpointAborted\<rparr>]) = Inr (latest', aborts')"
    using Cons.prems(1) unfolding kv
    by (auto split: if_splits option.splits CheckpointStatus.splits)
  then show ?case
  proof cases
    case (1 l)
    then show ?thesis using Cons.IH [OF 1 Cons.prems(2)] by auto
  next
    case (2 cp0)
    then show ?thesis using Cons.IH [OF 2(5) Cons.prems(2)] kv by auto
  qed
qed simp

lemma each_job_induct:
  assumes "each_job f js st = Inr st'" "P st" "\<And>j st st'. f j st = Inr st' \<Longrightarrow> P st \<Longrightarrow> P st'"
  shows "P st'"
  using assms(1,2)
proof (induction js arbitrary: st)
  case (Cons j js)
  then show ?case using assms(3) by (auto split: sum.splits)
qed simp

lemma recover_savepoints_loop_fails:
  assumes "recover_savepoints_loop mp kvs fails = Inr fails'" "sp \<in> set fails'"
  shows "sp \<in> set fails \<or> (\<exists>(k, v) \<in> set kvs. \<exists>sp0. dec_sp mp v = Some sp0 \<and> sp_ID sp = sp_ID sp0)"
  using assms
proof (induction kvs arbitrary: fails)
  case (Cons kv kvs)
  obtain k v where kv: "kv = (k, v)" by fastforce
  obtain sp0 where sp0: "dec_sp mp v = Some sp0" "recover_savepoints_loop mp kvs
      (if sp_Status sp0 = SavepointInProgress then fails @ [sp0\<lparr>sp_Status := SavepointFailed\<rparr>] else fails) = Inr fails'"
    using Cons.prems(1) by (auto simp: kv split: option.splits)
  then show ?case using Cons.IH [OF sp0(2) Cons.prems(2)] by (auto simp: kv split: if_splits)
qed simp

context metadata_store
begin

lemma recovered_aborts:
  assumes "inv s" "clean_store mp (contents s)" "view_ok (cp_view mp (contents s))"
    and "recoverJobCheckpoints mp ops s j st = Inr st'"
    and "\<forall>cp \<in> set (checkpointsToAbort st). abortable (cp_view mp (contents s)) cp"
  shows "\<forall>cp \<in> set (checkpointsToAbort st'). abortable (cp_view mp (contents s)) cp"
proof
  fix cp
  assume cp: "cp \<in> set (checkpointsToAbort st')"
  obtain kvs l where kvs: "PrefixScan ops s (CheckpointsPrefix j) = Inr kvs"
    and loop: "recover_checkpoints_loop mp kvs None (checkpointsToAbort st) = Inr (l, checkpointsToAbort st')"
    using assms(4) by (auto simp: recoverJobCheckpoints_def split: sum.splits)
  show "abortable (cp_view mp (contents s)) cp"
  proof (cases "cp \<in> set (checkpointsToAbort st)")
    case False
    then obtain k v cp0 where k: "(k, v) \<in> set kvs" "\<not> HasSuffix k ''/latest''" "\<not> HasSuffix k ''/metadata.json''"
      and cp0: "dec_cp mp v = Some cp0" "in_flight cp0" "cp = cp0\<lparr>cp_Status := CheckpointAborted\<rparr>"
      using recover_checkpoints_loop_aborts [OF loop cp] by blast
    have c: "HasPrefix k (CheckpointsPrefix j)" "contents s k = Some v"
      using k(1) scan_pairs [OF assms(1) kvs] by simp_all
    then obtain i where "k = CheckpointKey j i" using assms(2) k(2,3) unfolding clean_store_def by blast
    then have v: "cp_view mp (contents s) (j, i) = Some cp0" using c cp0(1) by (simp add: cp_view_def)
    then show ?thesis using view_okD [OF assms(3) v] cp0 by (auto simp: abortable_def)
  qed (use assms(5) in blast)
qed

lemma recovered_fails:
  assumes "inv s" "clean_store mp (contents s)" "recoverJobSavepoints mp ops s j st = Inr st'"
    and "\<forall>sp \<in> set (savepointsToFail st). CHR ''/'' \<notin> set (sp_ID sp)"
  shows "\<forall>sp \<in> set (savepointsToFail st'). CHR ''/'' \<notin> set (sp_ID sp)"
proof
  fix sp
  assume sp: "sp \<in> set (savepointsToFail st')"
  obtain kvs where kvs: "PrefixScan ops s (SavepointsPrefix j) = Inr kvs"
    and loop: "recover_savepoints_loop mp kvs (savepointsToFail st) = Inr (savepointsToFail st')"
    using assms(3) by (auto simp: recoverJobSavepoints_def split: sum.splits)
  show "CHR ''/'' \<notin> set (sp_ID sp)"
  proof (cases "sp \<in> set (savepointsToFail st)")
    case False
    then obtain k v sp0 where k: "(k, v) \<in> set kvs" and sp0: "dec_sp mp v = Some sp0" "sp_ID sp = sp_ID sp0"
      using recover_savepoints_loop_fails [OF loop sp] by blast
    then show ?thesis using assms(2) scan_pairs [OF assms(1) kvs] unfolding clean_store_def by metis
  qed (use assms(4) in blast)
qed

lemma recovered_decisions:
  assumes "inv s" "clean_store mp (contents s)" "view_ok (cp_view mp (contents s))"
    and "recoverFromStore mp ops es s = (Inr st, s')"
  shows "(\<forall>cp \<in> set (checkpointsToAbort st). abortable (cp_view mp (contents s)) cp)
    \<and> (\<forall>sp \<in> set (savepointsToFail st). CHR ''/'' \<notin> set (sp_ID sp))"
proof -
  obtain jobs st1 st2 where st1: "each_job (recoverJobCheckpoints mp ops s) (map fst jobs) (empty_recovered jobs) = Inr st1"
    and st2: "each_job (recoverJobSavepoints mp ops s) (map fst jobs) st1 = Inr st2"
    and st: "checkpointsToAbort st = checkpointsToAbort st2" "savepointsToFail st = savepointsToFail st2"
    using assms(4) unfolding recoverFromStore_def by (auto simp: Let_def split: sum.splits prod.splits if_splits option.splits)
  have "\<forall>cp \<in> set (checkpointsToAbort st1). abortable (cp_view mp (contents s)) cp"
    by (rule each_job_induct [OF st1]) (use recovered_aborts [OF assms(1-3)] in \<open>auto simp: empty_recovered_def\<close>)
  moreover have "savepointsToFail st1 = savepointsToFail (empty_recovered jobs)"
    by (rule each_job_inv [OF st1]) (auto simp: recoverJobCheckpoints_def split: sum.splits)
  moreover have "checkpointsToAbort st2 = checkpointsToAbort st1"
    by (rule each_job_inv [OF st2]) (auto simp: recoverJobSavepoints_def split: sum.splits)
  moreover have "\<forall>sp \<in> set (savepointsToFail st2). CHR ''/'' \<notin> set (sp_ID sp)"
    by (rule each_job_induct [OF st2])
      (use recovered_fails [OF assms(1,2)] calculation in \<open>auto simp: empty_recovered_def\<close>)
  ultimately show ?thesis using st by simp
qed

lemma persist_aborted_refines:
  assumes "inv s" "checkpoint_codec mp" "persist_aborted mp ops cps s = (e, s')"
    and "\<forall>cp \<in> set cps. abortable (cp_view mp (contents s)) cp"
  shows "inv s' \<and> refines mp (contents s) (contents s')"
  using assms
proof (induction cps arbitrary: s)
  case (Cons cp cps)
  let ?cp = "cp\<lparr>cp_Status := CheckpointAborted\<rparr>" and ?V = "cp_view mp (contents s)"
  show ?case
  proof (cases "enc_cp mp ?cp")
    case (Some d)
    obtain e1 s1 where s1: "Set ops s (CheckpointKey (cp_JobID cp) (cp_ID cp)) d = (e1, s1)" by fastforce
    have dec: "dec_cp mp d = Some ?cp" using Some Cons.prems(2) by (simp add: checkpoint_codec_def)
    note law = set [OF Cons.prems(1) s1]
    show ?thesis
    proof (cases e1)
      case None
      then have v1: "cp_view mp (contents s1) = ?V((cp_JobID cp, cp_ID cp) \<mapsto> ?cp)"
        using law cp_view_set [OF dec] by simp
      obtain cp0 where cp0: "?V (cp_JobID cp, cp_ID cp) = Some cp0" "in_flight cp0 \<or> cp_Status cp0 = CheckpointAborted"
        "?cp = cp0\<lparr>cp_Status := CheckpointAborted\<rparr>" using Cons.prems(4) by (auto simp: abortable_def)
      have "cp_proto ?V (cp_view mp (contents s1))"
        unfolding v1 cp0(3) by (rule cp_proto.abort [where V = ?V and ji = "(cp_JobID cp, cp_ID cp)", OF cp0(1,2)])
      moreover have "\<forall>cp' \<in> set cps. abortable (cp_view mp (contents s1)) cp'"
        unfolding v1 using Cons.prems(4) abortable_update by simp
      moreover have "persist_aborted mp ops cps s1 = (e, s')" using Cons.prems(3) Some s1 None by simp
      ultimately show ?thesis
        using Cons.IH [of s1] law Cons.prems(2) by (meson converse_rtranclp_into_rtranclp)
    next
      case (Some e2)
      then show ?thesis using Cons.prems(3) \<open>enc_cp mp ?cp = Some d\<close> s1 law by auto
    qed
  qed (use Cons.prems in simp)
qed simp

lemma persist_failed_keeps_view:
  assumes "inv s" "persist_failed mp ops sps s = (e, s')" "\<forall>sp \<in> set sps. CHR ''/'' \<notin> set (sp_ID sp)"
  shows "inv s' \<and> cp_view mp (contents s') = cp_view mp (contents s)"
  using assms
proof (induction sps arbitrary: s)
  case (Cons sp sps)
  show ?case
  proof (cases "enc_sp mp (sp\<lparr>sp_Status := SavepointFailed\<rparr>)")
    case (Some d)
    obtain e1 s1 where s1: "Set ops s (SavepointKey (sp_JobID sp) (sp_ID sp)) d = (e1, s1)" by fastforce
    note law = set [OF Cons.prems(1) s1]
    have v1: "cp_view mp (contents s1) = cp_view mp (contents s)"
      using law Cons.prems(3) cp_view_other [OF SavepointKey_other] by (cases e1) simp_all
    show ?thesis
    proof (cases e1)
      case None
      then have "persist_failed mp ops sps s1 = (e, s')" using Cons.prems(2) Some s1 by simp
      then show ?thesis using Cons.IH [of s1] law Cons.prems(3) unfolding v1 by simp
    next
      case (Some e2)
      then show ?thesis using Cons.prems(2) \<open>enc_sp mp _ = Some d\<close> s1 law by auto
    qed
  qed (use Cons.prems in simp)
qed simp

lemma recoverFromStore_view:
  assumes "inv s" "recoverFromStore mp ops es s = (r, s')"
  shows "inv s' \<and> cp_view mp (contents s') = cp_view mp (contents s)"
proof -
  have "s' = s \<or> (\<exists>x e. Set ops s ClusterEpochKey x = (e, s'))"
    using assms(2) unfolding recoverFromStore_def
    by (auto simp: Let_def split: sum.splits prod.splits if_splits option.splits)
  then show ?thesis
    using set [OF assms(1)] assms(1) cp_view_other [OF ClusterEpochKey_other] by fastforce
qed

lemma load_jobs_store [simp]: "c_store (load_jobs jobs c) = c_store c"
  by (induction jobs arbitrary: c) (simp_all add: set_cell_def)

lemma recover_refines:
  assumes "inv (c_store c)" "checkpoint_codec mp" "view_ok (cp_view mp (contents (c_store c)))"
    and "clean_store mp (contents (c_store c))" "recover mp ops now c = (r, c')"
  shows "inv (c_store c') \<and> refines mp (contents (c_store c)) (contents (c_store c'))"
proof -
  obtain r1 s1 where s1: "recoverFromStore mp ops [c_epoch c] (c_store c) = (r1, s1)" by fastforce
  note v1 = recoverFromStore_view [OF assms(1) s1]
  show ?thesis
  proof (cases r1)
    case (Inl e)
    then show ?thesis using assms(5) s1 v1 by (auto simp: recover_def)
  next
    case (Inr st)
    note dec = recovered_decisions [OF assms(1,4,3) s1 [unfolded Inr]]
    obtain e2 s2 where s2: "persist_aborted mp ops (checkpointsToAbort st) s1 = (e2, s2)" by fastforce
    have ref: "inv s2 \<and> refines mp (contents (c_store c)) (contents s2)"
      using persist_aborted_refines [OF _ assms(2) s2] v1 dec by simp
    obtain e3 s3 where s3: "persist_failed mp ops (savepointsToFail st) s2 = (e3, s3)" by fastforce
    have v3: "inv s3 \<and> cp_view mp (contents s3) = cp_view mp (contents s2)"
      using persist_failed_keeps_view [OF _ s3] ref dec by simp
    have "c_store c' = s2 \<or> c_store c' = s3"
      using assms(5) s1 s2 s3 Inr by (auto simp: recover_def split: option.splits)
    then show ?thesis using ref v3 by auto
  qed
qed

lemma final_checkpoints_refines:
  assumes "inv (c_store c)" "checkpoint_codec mp" "view_ok (cp_view mp (contents (c_store c)))"
    and "final_checkpoints_loop mp ops now peer stop jobs c = c'"
  shows "inv (c_store c') \<and> refines mp (contents (c_store c)) (contents (c_store c'))"
  using assms
proof (induction jobs arbitrary: c)
  case (Cons j jobs)
  consider "c' = c" | "final_checkpoints_loop mp ops now peer stop jobs c = c'"
    | r c1 c2 where "triggerCheckpointBoundary mp ops now peer j [] True c = (r, c1)"
        "c2 = c1 \<or> (\<exists>p. c2 = snd (transitionJob mp ops now p JobFailing c1))"
        "final_checkpoints_loop mp ops now peer stop jobs c2 = c'"
    using Cons.prems(4)
    by (auto split: if_splits sum.splits option.splits prod.splits coord_error.splits)
  then show ?case
  proof cases
    case 2
    then show ?thesis using Cons.IH [OF Cons.prems(1-3)] by simp
  next
    case (3 r c1 c2)
    have s1: "inv (c_store c1) \<and> refines mp (contents (c_store c)) (contents (c_store c1))"
      by (rule trigger_refines [OF Cons.prems(1-3) 3(1)]) simp
    have v2: "inv (c_store c2) \<and> cp_view mp (contents (c_store c2)) = cp_view mp (contents (c_store c1))"
      using 3(2) s1 transition_keeps_view [of c1 mp now _ JobFailing] by (auto simp: prod_eq_iff)
    show ?thesis
      by (rule refines_trans [OF _ Cons.prems(3), of c2])
        (use s1 v2 Cons.IH [OF _ Cons.prems(2) _ 3(3)] in auto)
  qed (use Cons.prems in simp)
qed simp

lemma reaction_keeps_view:
  assumes "inv (c_store c)"
  shows "inv (c_store (job_reaction mp ops now req p c))
    \<and> cp_view mp (contents (c_store (job_reaction mp ops now req p c))) = cp_view mp (contents (c_store c))"
proof -
  have t: "inv (c_store (snd (transitionJob mp ops now p to c)))
      \<and> cp_view mp (contents (c_store (snd (transitionJob mp ops now p to c)))) = cp_view mp (contents (c_store c))"
    if "inv (c_store c)" for c to
    using transition_keeps_view [OF that, where r = "fst (transitionJob mp ops now p to c)"] by simp
  have f: "inv (c_store (snd (transitionJob mp ops now p to c1)))
      \<and> cp_view mp (contents (c_store (snd (transitionJob mp ops now p to c1)))) = cp_view mp (contents (c_store c))"
    if "transitionJob mp ops now p JobFinishing c = (e, c1)" for e c1 to
    using t [OF assms, of JobFinishing] t [of c1 to] that by simp
  show ?thesis
    using t [OF assms] f
    by (cases "transitionJob mp ops now p JobFinishing c")
      (simp add: job_reaction_def Let_def assms split: option.split; use t [OF assms, of JobFinishing] in simp)
qed

lemma invalidate_refines:
  assumes "inv (c_store c)" "checkpoint_codec mp" "view_ok (cp_view mp (contents (c_store c)))"
    and "invalidate_checkpoint mp ops j m d a p c = (e, c')"
  shows "inv (c_store c') \<and> refines mp (contents (c_store c)) (contents (c_store c'))"
proof (cases "c_store c' = c_store c")
  case False
  obtain cp kvs where l: "load_checkpoint mp ops c j (crd_CheckpointID d) = Inr cp"
    and b: "invalidate_batch mp j (refunded_job a (c_cells c p)) (cp\<lparr>InvalidReason := m\<rparr>) (a\<lparr>RecoveryAttemptCharged := False\<rparr>) = Some kvs"
    and w: "WriteBatch ops (c_store c) kvs = (e, c_store c')"
    using assms(4) False
    by (auto simp: invalidate_checkpoint_def Let_def split: sum.splits if_splits option.splits prod.splits)
  let ?V = "cp_view mp (contents (c_store c))" and ?i = "crd_CheckpointID d"
  have v: "?V (j, ?i) = Some cp" by (rule load_checkpoint_view [OF assms(1,2) l])
  obtain raw rest where kvs: "kvs = (CheckpointKey j ?i, raw) # rest" "enc_cp mp (cp\<lparr>InvalidReason := m\<rparr>) = Some raw" "plain rest"
    using b view_okD(2) [OF assms(3) v] by (auto simp: invalidate_batch_def other_keys split: option.splits)
  have "cp_proto ?V (?V((j, ?i) \<mapsto> cp\<lparr>InvalidReason := m\<rparr>))"
    by (rule cp_proto.invalidate [where V = ?V and ji = "(j, ?i)", OF v])
  then show ?thesis by (rule record_write_refines [OF assms(1,2) kvs(2,3) w [unfolded kvs(1)]])
qed (simp add: assms(1))

lemma set_status_store [simp]: "c_store (snd (set_status req c)) = c_store c"
  by (simp add: set_status_def Let_def releaseTaskSlotLocked_def split: option.split)

lemma status_refines:
  assumes "inv (c_store c)" "checkpoint_codec mp" "view_ok (cp_view mp (contents (c_store c)))"
    and "HandleUpdateTaskStatus mp ops now req c = (r, c')"
  shows "inv (c_store c') \<and> refines mp (contents (c_store c)) (contents (c_store c'))"
proof -
  obtain r1 c1 where r: "record_status mp ops req c = (r1, c1)" by fastforce
  have s1: "inv (c_store c1) \<and> refines mp (contents (c_store c)) (contents (c_store c1))"
  proof (cases "c1 = c")
    case False
    then obtain p a e c0 where u: "report_unavailable mp ops req a p c = (e, c0)" "c_store c1 = c_store c0"
      using r by (elim record_status_cases) auto
    have "inv (c_store c0) \<and> refines mp (contents (c_store c)) (contents (c_store c0))"
      using u(1) invalidate_refines [OF assms(1-3)] assms(1) by (auto simp: report_unavailable_def split: option.splits)
    then show ?thesis using u(2) by simp
  qed (simp add: assms(1))
  have s2: "inv (c_store (job_reaction mp ops now req p c1))
      \<and> refines mp (contents (c_store c)) (contents (c_store (job_reaction mp ops now req p c1)))" for p
    using s1 reaction_keeps_view [of c1 mp now req p] by simp
  show ?thesis
  proof (cases "known_status (us_Status req)")
    case True
    then show ?thesis using assms(4) s1 s2
      by (auto simp: HandleUpdateTaskStatus_def r Let_def split: if_splits sum.splits option.splits)
  qed (use assms(1,4) in \<open>simp add: HandleUpdateTaskStatus_def\<close>)
qed

lemma delete_savepoint_keeps_view:
  assumes "inv (c_store c)" "DeleteSavepoint mp ops j sp c = (r, c')" "CHR ''/'' \<notin> set sp"
  shows "inv (c_store c') \<and> cp_view mp (contents (c_store c')) = cp_view mp (contents (c_store c))"
proof (cases "c' = c")
  case False
  then obtain e where "Delete ops (c_store c) (SavepointKey j sp) = (e, c_store c')"
    using assms(2) by (auto simp: DeleteSavepoint_def split: if_splits sum.splits prod.splits option.splits)
  then show ?thesis
    using delete [OF assms(1)] cp_view_other [OF SavepointKey_other [OF assms(3)]] by fastforce
qed (simp add: assms(1))

end

section \<open>Runs of the coordinator\<close>

text \<open>The steps of a coordinator that concern checkpoints, restarts included. Any other step may do
  what it likes as long as it leaves the checkpoint records alone.\<close>

inductive cp_step ::
  "msgpack \<Rightarrow> manifest_json \<Rightarrow> 's MetadataStore \<Rightarrow> ('s \<Rightarrow> string \<Rightarrow> bytes option) \<Rightarrow> ('s \<Rightarrow> bool) \<Rightarrow>
     's Coordinator \<Rightarrow> 's Coordinator \<Rightarrow> bool"
  for mp js ops contents inv where
  trigger: "triggerCheckpointBoundary mp ops now peer j sp final c = (r, c') \<Longrightarrow> CHR ''/'' \<notin> set sp
     \<Longrightarrow> cp_step mp js ops contents inv c c'"
| acknowledge: "HandleAcknowledgeCheckpoint mp js ops now req c = (ok, c') \<Longrightarrow> cp_step mp js ops contents inv c c'"
| abort: "AbortCheckpoint mp ops now j i e c = (err, c') \<Longrightarrow> cp_step mp js ops contents inv c c'"
| expire: "cp_step mp js ops contents inv c (expireCheckpoints mp ops now c)"
| final: "cp_step mp js ops contents inv c (scheduleFinalCheckpoints mp ops now peer stop c)"
| task_status: "HandleUpdateTaskStatus mp ops now ureq c = (reply, c') \<Longrightarrow> cp_step mp js ops contents inv c c'"
| delete_savepoint: "DeleteSavepoint mp ops j sp c = (err, c') \<Longrightarrow> CHR ''/'' \<notin> set sp
     \<Longrightarrow> cp_step mp js ops contents inv c c'"
| restart: "c_store c0 = c_store c \<Longrightarrow> clean_store mp (contents (c_store c)) \<Longrightarrow> recover mp ops now c0 = (err, c')
     \<Longrightarrow> cp_step mp js ops contents inv c c'"
| other: "inv (c_store c') \<Longrightarrow> \<forall>j i. contents (c_store c') (CheckpointKey j i) = contents (c_store c) (CheckpointKey j i)
     \<Longrightarrow> cp_step mp js ops contents inv c c'"

context metadata_store
begin

lemma cp_step_refines:
  assumes "cp_step mp js ops contents inv c c'"
    and "inv (c_store c)" "checkpoint_codec mp" "view_ok (cp_view mp (contents (c_store c)))"
  shows "inv (c_store c') \<and> refines mp (contents (c_store c)) (contents (c_store c'))"
  using assms
proof (induction rule: cp_step.induct)
  case (trigger now peer j sp final c r c')
  then show ?case by (intro trigger_refines [OF trigger.prems trigger.hyps])
next
  case (acknowledge now req c ok c')
  then show ?case by (intro handle_ack_refines [OF acknowledge.prems acknowledge.hyps])
next
  case (abort now j i e c err c')
  then show ?case by (intro abort_refines [OF abort.prems abort.hyps [unfolded AbortCheckpoint_def]])
next
  case (expire c now)
  then show ?case by (rule expire_refines)
next
  case (final c now peer stop)
  then show ?case by (rule final_checkpoints_refines) (simp add: scheduleFinalCheckpoints_def)
next
  case (task_status now ureq c reply c')
  then show ?case by (intro status_refines [OF task_status.prems task_status.hyps])
next
  case (delete_savepoint j sp c err c')
  then show ?case using delete_savepoint_keeps_view by fastforce
next
  case (restart c0 c now err c')
  show ?case
    using recover_refines [OF _ restart.prems(2) _ _ restart.hyps(3)] restart.hyps(1,2) restart.prems by simp
next
  case (other c' c)
  then have "cp_view mp (contents (c_store c')) = cp_view mp (contents (c_store c))"
    by (simp add: fun_eq_iff cp_view_def)
  then show ?case using other.hyps(1) by simp
qed

lemma cp_run_refines:
  assumes "(cp_step mp js ops contents inv)\<^sup>*\<^sup>* c c'"
    and "inv (c_store c)" "checkpoint_codec mp" "view_ok (cp_view mp (contents (c_store c)))"
  shows "inv (c_store c') \<and> refines mp (contents (c_store c)) (contents (c_store c'))"
  using assms(1)
proof (induction rule: rtranclp_induct)
  case (step c1 c2)
  show ?case
    by (rule refines_trans [OF step.IH assms(4)]) (use cp_step_refines [OF step.hyps(2)] assms(3) in blast)
qed (simp add: assms(2))

end

text \<open>C2. Whatever a coordinator does with its checkpoints, through triggers, acknowledgements,
  failure reports, aborts, time-outs, final checkpoints, task reports and restarts, is a run of the checkpoint
  protocol on the stored records. The store may be any that keeps the promises of its interface.\<close>

theorem checkpoint_operations_refine_protocol:
  assumes "metadata_store ops contents store_ok" "store_ok (c_store c)" "checkpoint_codec mp"
    and "view_ok (cp_view mp (contents (c_store c)))" "(cp_step mp js ops contents store_ok)\<^sup>*\<^sup>* c c'"
  shows "cp_proto\<^sup>*\<^sup>* (cp_view mp (contents (c_store c))) (cp_view mp (contents (c_store c')))"
  using metadata_store.cp_run_refines [OF assms(1,5,2,3,4)] by blast

text \<open>C4. A checkpoint is complete only when every task has reported. In every state that a
  coordinator reaches, a checkpoint stored as completed has, for each of its tasks, the state
  location at the replica that was assigned to the task; a job has at most one checkpoint in
  flight; and a record is stored under its own identity.\<close>

theorem completed_checkpoints_fully_reported:
  assumes "metadata_store ops contents store_ok" "store_ok (c_store c)" "checkpoint_codec mp"
    and "view_ok (cp_view mp (contents (c_store c)))" "(cp_step mp js ops contents store_ok)\<^sup>*\<^sup>* c c'"
    and "cp_view mp (contents (c_store c')) (j, i) = Some cp"
  shows "cp_JobID cp = j \<and> cp_ID cp = i
    \<and> (cp_Status cp = CheckpointCompleted \<longrightarrow>
         (\<forall>t \<in> fst ` set (cp_Tasks cp). \<exists>path. path \<noteq> [] \<and> map_of (StatePaths cp) t = Some path \<and> map_of (cp_Replicas cp) t = Some path))
    \<and> (\<forall>i' cp'. cp_view mp (contents (c_store c')) (j, i') = Some cp' \<and> in_flight cp \<and> in_flight cp' \<longrightarrow> i' = i)"
proof -
  have ok: "view_ok (cp_view mp (contents (c_store c')))"
    using cp_protos_ok metadata_store.cp_run_refines [OF assms(1,5,2,3,4)] assms(4) by blast
  have "\<exists>path. path \<noteq> [] \<and> map_of (StatePaths cp) t = Some path \<and> map_of (cp_Replicas cp) t = Some path"
    if "cp_Status cp = CheckpointCompleted" "t \<in> fst ` set (cp_Tasks cp)" for t
  proof -
    have "t \<in> dom (map_of (StatePaths cp))"
      using view_okD(3) [OF ok assms(6)] that by (simp add: record_ok_def dom_map_of_conv_image_fst)
    then show ?thesis using view_okD(3) [OF ok assms(6)] by (auto simp: record_ok_def)
  qed
  then show ?thesis using view_okD(1,2) [OF ok assms(6)] ok assms(6) unfolding view_ok_def by blast
qed

text \<open>C3. The decision on a checkpoint is final and identifiers are never used again: a record that
  is completed or aborted stays as it is through everything the coordinator does afterwards,
  restarts included, except that it may be marked as invalid; the tasks of a checkpoint never
  change, and a checkpoint that is created later has a larger identifier than all earlier ones of
  its job.\<close>

theorem checkpoint_decisions_final:
  assumes "metadata_store ops contents store_ok" "store_ok (c_store c)" "checkpoint_codec mp"
    and "view_ok (cp_view mp (contents (c_store c)))" "(cp_step mp js ops contents store_ok)\<^sup>*\<^sup>* c c'"
    and "cp_view mp (contents (c_store c)) (j, i) = Some cp"
  shows "(\<exists>cp'. cp_view mp (contents (c_store c')) (j, i) = Some cp' \<and> cp_Tasks cp' = cp_Tasks cp
      \<and> (cp_Status cp \<in> {CheckpointCompleted, CheckpointAborted} \<longrightarrow> (\<exists>m. cp' = cp\<lparr>InvalidReason := m\<rparr>)))
    \<and> (\<forall>i'. cp_view mp (contents (c_store c)) (j, i') = None \<and> cp_view mp (contents (c_store c')) (j, i') \<noteq> None \<longrightarrow> i < i')"
proof -
  have run: "refines mp (contents (c_store c)) (contents (c_store c'))"
    using metadata_store.cp_run_refines [OF assms(1,5,2,3,4)] by blast
  show ?thesis using cp_protos_decided [OF run assms(6)] unfolding decided_as_def using cp_protos_new [OF run _ _ assms(6)] by blast
qed

text \<open>An example: one task, whose report completes the checkpoint.\<close>

definition example_cp :: CheckpointMeta where
  "example_cp = \<lparr>cp_Final = False, cp_AttemptID = ''a1'', InvalidReason = [], ManifestVersion = 0,
     TaskManifests = [], cp_TaskDescriptors = [], cp_NumKeyGroups = 128, cp_SavepointID = [],
     cp_Replicas = [(''t'', ''r'')], cp_EpochID = 1, cp_Tasks = [(''t'', ''w1'')], cp_ID = 1, cp_JobID = ''j'',
     cp_Status = CheckpointInProgress, Offsets = [], StatePaths = [], cp_Timestamp = 5\<rparr>"

definition example_done :: CheckpointMeta where
  "example_done = example_cp\<lparr>StatePaths := [(''t'', ''r'')], cp_Status := CheckpointCompleted\<rparr>"

definition example_cp_codec :: msgpack where
  "example_cp_codec = no_msgpack\<lparr>
     enc_cp := (\<lambda>cp. if cp = example_cp then Some [1] else if cp = example_done then Some [2] else None),
     dec_cp := (\<lambda>d. if d = [1] then Some example_cp else if d = [2] then Some example_done else None),
     enc_trigger := (\<lambda>_. Some []), enc_job := (\<lambda>_. Some [7])\<rparr>"

definition example_cp_coord :: "bytes \<Rightarrow> MemoryStore Coordinator" where
  "example_cp_coord d = example_coord\<lparr>c_store := \<lparr>entries = [(CheckpointKey ''j'' 1, d)], mem_closed = False\<rparr>, c_jobs := [(''j'', 0)]\<rparr>"

definition example_ack :: AcknowledgeCheckpointRequest where
  "example_ack = \<lparr>ack_AttemptID = ''a1'', ack_Failure = [], ack_WorkerID = ''w1'', ack_JobID = ''j'', ack_TaskID = ''t'',
     ack_CheckpointID = 1, ack_EpochID = 1,
     ack_State = Some \<lparr>sh_Manifest = [], sh_TaskID = ''t'', sh_Path = ''r'', sh_SizeBytes = 0\<rparr>\<rparr>"

abbreviation no_json :: manifest_json where
  "no_json \<equiv> \<lparr>dec_task_meta = (\<lambda>_. None), enc_manifest = (\<lambda>_. None)\<rparr>"

lemma example_cp_neq [simp]: "example_cp \<noteq> example_done" "example_done \<noteq> example_cp"
  by (simp_all add: example_done_def example_cp_def)

lemma example_codec: "checkpoint_codec example_cp_codec"
  by (simp add: checkpoint_codec_def example_cp_codec_def no_msgpack_def)

lemma example_view:
  "cp_view example_cp_codec (map_of (entries (c_store (example_cp_coord [1])))) = (\<lambda>_. None)((''j'', 1) \<mapsto> example_cp)"
  "cp_view example_cp_codec (map_of (entries (c_store (example_cp_coord [2])))) = (\<lambda>_. None)((''j'', 1) \<mapsto> example_done)"
  by (auto simp: cp_view_def fun_eq_iff example_cp_coord_def example_cp_codec_def)

lemma example_view_ok:
  "view_ok (cp_view example_cp_codec (map_of (entries (c_store (example_cp_coord [1])))))"
  "view_ok (cp_view example_cp_codec (map_of (entries (c_store (example_cp_coord [2])))))"
  unfolding example_view by (simp_all add: view_ok_def record_ok_def example_cp_def example_done_def)

lemma example_acknowledged:
  "\<exists>c'. HandleAcknowledgeCheckpoint example_cp_codec no_json memory_ops 9 example_ack (example_cp_coord [1]) = (True, c')
     \<and> map_of (entries (c_store c')) (CheckpointKey ''j'' 1) = Some [2]"
proof -
  let ?c = "example_cp_coord [1]" and ?mp = example_cp_codec
  have l: "load_checkpoint ?mp memory_ops ?c ''j'' 1 = Inr example_cp"
    by (simp add: load_checkpoint_def memory_read example_cp_coord_def nil_bytes_def example_cp_codec_def)
  have a: "ack_record no_json example_ack example_cp = Inr (example_cp\<lparr>StatePaths := [(''t'', ''r'')]\<rparr>)"
    by (simp add: ack_record_def same_checkpoint_def reporter_ok_def example_ack_def example_cp_def mget_def)
  have d: "example_cp\<lparr>StatePaths := [(''t'', ''r'')], cp_Status := CheckpointCompleted\<rparr> = example_done"
    "cp_Status (example_cp\<lparr>StatePaths := [(''t'', ''r'')]\<rparr>) = CheckpointInProgress"
    "all_reported (example_cp\<lparr>StatePaths := [(''t'', ''r'')]\<rparr>)"
    by (simp_all add: example_done_def all_reported_def) (simp_all add: example_cp_def)
  let ?kvs = "[(CheckpointKey ''j'' 1, [2]), (JobMetaKey ''j'', [7])]"
  have b: "enc_cp ?mp example_done = Some [2]" "complete_batch ?mp no_json memory_ops 9 ?c example_done 0 [2] = Inr ?kvs"
    "manifest_write no_json 9 ?c example_done = Some []" "map_of (c_jobs ?c) (cp_JobID example_done) = Some 0"
    by (simp_all add: complete_batch_def manifest_write_def savepointDecisionLocked_def example_cp_codec_def no_msgpack_def
        example_cp_coord_def) (simp_all add: example_done_def example_cp_def)
  obtain s where s: "WriteBatch memory_ops (c_store ?c) ?kvs = (None, s)"
    by (simp add: memory_ops_def memory_WriteBatch_def example_cp_coord_def)
  then have "map_of (entries s) = map_of (entries (c_store ?c)) ++ map_of (rev ?kvs)"
    using memory.batch [OF _ s] by (simp add: example_cp_coord_def)
  then have "map_of (entries s) (CheckpointKey ''j'' 1) = Some [2]" using other_keys(1) [THEN not_sym] by (simp add: map_add_def)
  moreover have "\<exists>c'. ack_complete ?mp no_json memory_ops 9 example_done [] ?c = (None, c') \<and> c_store c' = s"
    unfolding ack_complete_def b option.case prod.case sum.case s by simp
  moreover have "readyLocked ?c" "c_epoch ?c = 1"
    by (simp_all add: readyLocked_def example_cp_coord_def example_coord_def New_def)
  ultimately show ?thesis
    using l a d by (auto simp: HandleAcknowledgeCheckpoint_def AcknowledgeCheckpoint_def example_ack_def example_cp_codec_def)
qed

abbreviation example_steps :: "MemoryStore Coordinator \<Rightarrow> MemoryStore Coordinator \<Rightarrow> bool" where
  "example_steps \<equiv> (cp_step example_cp_codec no_json memory_ops (\<lambda>m. map_of (entries m)) (\<lambda>m. keys_ok (entries m)))\<^sup>*\<^sup>*"

lemma example_store_ok: "keys_ok (entries (c_store (example_cp_coord d)))"
  by (simp add: example_cp_coord_def)

theorem checkpoint_operations_refine_protocol_witness:
  "\<exists>c'. example_steps (example_cp_coord [1]) c'
     \<and> map_of (entries (c_store c')) (CheckpointKey ''j'' 1) = Some [2]
     \<and> cp_proto\<^sup>*\<^sup>* (cp_view example_cp_codec (map_of (entries (c_store (example_cp_coord [1])))))
         (cp_view example_cp_codec (map_of (entries (c_store c'))))"
proof -
  obtain c' where c': "HandleAcknowledgeCheckpoint example_cp_codec no_json memory_ops 9 example_ack (example_cp_coord [1]) = (True, c')"
    "map_of (entries (c_store c')) (CheckpointKey ''j'' 1) = Some [2]"
    using example_acknowledged by blast
  then have "example_steps (example_cp_coord [1]) c'" using cp_step.acknowledge by blast
  from checkpoint_operations_refine_protocol [OF memory.metadata_store_axioms example_store_ok example_codec example_view_ok(1) this]
  show ?thesis using c' \<open>example_steps _ c'\<close> by blast
qed

theorem completed_checkpoints_fully_reported_witness:
  "\<exists>c'. example_steps (example_cp_coord [1]) c'
     \<and> cp_view example_cp_codec (map_of (entries (c_store c'))) (''j'', 1) = Some example_done
     \<and> (\<forall>t \<in> fst ` set (cp_Tasks example_done). \<exists>path. path \<noteq> [] \<and> map_of (StatePaths example_done) t = Some path)"
proof -
  obtain c' where c': "HandleAcknowledgeCheckpoint example_cp_codec no_json memory_ops 9 example_ack (example_cp_coord [1]) = (True, c')"
    "map_of (entries (c_store c')) (CheckpointKey ''j'' 1) = Some [2]"
    using example_acknowledged by blast
  then have run: "example_steps (example_cp_coord [1]) c'" using cp_step.acknowledge by blast
  have v: "cp_view example_cp_codec (map_of (entries (c_store c'))) (''j'', 1) = Some example_done"
    using c'(2) by (simp add: cp_view_def) (simp add: example_cp_codec_def)
  have st: "cp_Status example_done = CheckpointCompleted" by (simp add: example_done_def)
  note reported = completed_checkpoints_fully_reported [OF memory.metadata_store_axioms example_store_ok example_codec
      example_view_ok(1) run v, THEN conjunct2, THEN conjunct2, THEN conjunct1, THEN mp, OF st]
  show ?thesis
  proof (intro exI [of _ c'] conjI ballI)
    fix t
    assume "t \<in> fst ` set (cp_Tasks example_done)"
    then show "\<exists>path. path \<noteq> [] \<and> map_of (StatePaths example_done) t = Some path" using bspec [OF reported] by blast
  qed (rule run v)+
qed

theorem checkpoint_decisions_final_witness:
  "\<exists>c'. AbortCheckpoint example_cp_codec memory_ops 9 ''j'' 1 1 (example_cp_coord [2]) = (Some ErrOther, c')
     \<and> (\<exists>m. cp_view example_cp_codec (map_of (entries (c_store c'))) (''j'', 1) = Some (example_done\<lparr>InvalidReason := m\<rparr>))"
proof -
  let ?c = "example_cp_coord [2]"
  have "load_checkpoint example_cp_codec memory_ops ?c ''j'' 1 = Inr example_done"
    by (simp add: load_checkpoint_def memory_read example_cp_coord_def nil_bytes_def example_cp_codec_def)
  then obtain c' where c': "AbortCheckpoint example_cp_codec memory_ops 9 ''j'' 1 1 ?c = (Some ErrOther, c')"
    by (simp add: AbortCheckpoint_def abortCheckpoint_def readyLocked_def example_cp_coord_def example_coord_def New_def)
      (simp add: example_done_def example_cp_def same_checkpoint_def)
  then have run: "example_steps ?c c'" using cp_step.abort by blast
  have v: "cp_view example_cp_codec (map_of (entries (c_store ?c))) (''j'', 1) = Some example_done"
    unfolding example_view by simp
  have "cp_Status example_done = CheckpointCompleted" by (simp add: example_done_def)
  with checkpoint_decisions_final [OF memory.metadata_store_axioms example_store_ok example_codec example_view_ok(2) run v]
  show ?thesis using c' by auto
qed

end
