(* ===== verification/Job_Graph.thy ===== *)
theory Job_Graph
  imports Coordinator
begin

text \<open>From the graph of a job to its operator chains: the topological order of the operators
  (\<^verbatim>\<open>internal/coordinator/scheduler.go\<close>, \<^verbatim>\<open>topoSortOperators\<close>) and the fusion of forward
  paths into chains (\<^verbatim>\<open>chain_plan.go\<close>). Counters that are bounded by the length of a slice are
  plain numbers.\<close>

section \<open>Maps of slices\<close>

text \<open>The loop that files the elements of a slice under a key, in order.\<close>

definition group_by :: "('a \<Rightarrow> 'k) \<Rightarrow> 'a list \<Rightarrow> ('k, 'a list) gomap" where
  "group_by key xs = fold (\<lambda>x m. AList.update (key x) (mget m (key x) [] @ [x]) m) xs []"

lemma mget_group_fold:
  "mget (fold (\<lambda>x m. AList.update (key x) (mget m (key x) [] @ [x]) m) xs m) k []
   = mget m k [] @ filter (\<lambda>x. key x = k) xs"
  by (induction xs arbitrary: m) auto

lemma mget_group_by [simp]: "mget (group_by key xs) k [] = filter (\<lambda>x. key x = k) xs"
  by (simp add: group_by_def mget_group_fold)

section \<open>Topological order\<close>

definition zero_operator :: OperatorDescriptor where
  "zero_operator = \<lparr>op_Watermark = None, op_DLQSink = None, op_ErrorPolicy = None, op_OperatorID = [],
     op_Name = [], op_Type = OperatorTypeUnknown, op_Parallelism = 0, op_ClassName = [], op_Config = []\<rparr>"

definition operators_by_id :: "OperatorDescriptor list \<Rightarrow> (string, OperatorDescriptor) gomap" where
  "operators_by_id ops = fold (\<lambda>op. AList.update (op_OperatorID op) op) ops []"

definition zero_degrees :: "OperatorDescriptor list \<Rightarrow> (string, int) gomap" where
  "zero_degrees ops = fold (\<lambda>op. AList.update (op_OperatorID op) 0) ops []"

fun count_edges ::
  "(string, OperatorDescriptor) gomap \<Rightarrow> EdgeDescriptor list \<Rightarrow> (string, string list) gomap \<Rightarrow> (string, int) gomap \<Rightarrow>
     coord_error + (string, string list) gomap \<times> (string, int) gomap" where
  "count_edges byID [] adj inDegree = Inr (adj, inDegree)"
| "count_edges byID (edge # edges) adj inDegree =
     (let src = SourceOperatorID edge; tgt = TargetOperatorID edge in
      if map_of byID src = None then Inl ErrOther
      else if map_of byID tgt = None then Inl ErrOther
      else count_edges byID edges (AList.update src (mget adj src [] @ [tgt]) adj)
             (AList.update tgt (mget inDegree tgt 0 + 1) inDegree))"

text \<open>The operators without inputs, each once.\<close>

fun ready_loop :: "(string, int) gomap \<Rightarrow> OperatorDescriptor list \<Rightarrow> string list \<Rightarrow> string list" where
  "ready_loop inDegree [] queue = queue"
| "ready_loop inDegree (op # ops) queue =
     (let i = op_OperatorID op in
      ready_loop inDegree ops (if mget inDegree i 0 = 0 \<and> i \<notin> set queue then queue @ [i] else queue))"

fun relax :: "string list \<Rightarrow> (string, int) gomap \<Rightarrow> string list \<Rightarrow> (string, int) gomap \<times> string list" where
  "relax [] inDegree queue = (inDegree, queue)"
| "relax (n # ns) inDegree queue =
     (let d = mget inDegree n 0 - 1 in
      relax ns (AList.update n d inDegree) (if d = 0 then queue @ [n] else queue))"

text \<open>What is left of the in-degrees bounds the number of rounds.\<close>

definition degree_weight :: "(string, int) gomap \<Rightarrow> nat" where
  "degree_weight m = (\<Sum>(_, d) \<leftarrow> m. nat d)"

lemma degree_weight_update:
  "degree_weight (AList.update k v m) + nat (mget m k 0) = degree_weight m + nat v"
  by (induction m) (auto simp: degree_weight_def mget_def)

lemma relax_weight:
  "relax ns inDegree queue = (inDegree', queue')
   \<Longrightarrow> length queue' + degree_weight inDegree' \<le> length queue + degree_weight inDegree"
proof (induction ns arbitrary: inDegree queue)
  case (Cons n ns)
  let ?d = "mget inDegree n 0 - 1"
  have "length queue' + degree_weight inDegree'
      \<le> length (if ?d = 0 then queue @ [n] else queue) + degree_weight (AList.update n ?d inDegree)"
    using Cons.prems by (intro Cons.IH) (simp add: Let_def)
  then show ?case using degree_weight_update [of n ?d inDegree] by (auto split: if_splits)
qed simp

function kahn ::
  "(string, OperatorDescriptor) gomap \<Rightarrow> (string, string list) gomap \<Rightarrow> (string, int) gomap \<Rightarrow> string list \<Rightarrow>
     OperatorDescriptor list \<Rightarrow> OperatorDescriptor list" where
  "kahn byID adj inDegree [] result = result"
| "kahn byID adj inDegree (i # queue) result =
     (case relax (mget adj i []) inDegree queue of
        (inDegree', queue') \<Rightarrow> kahn byID adj inDegree' queue' (result @ [mget byID i zero_operator]))"
  by pat_completeness auto
termination
  by (relation "measure (\<lambda>(_, _, inDegree, queue, _). length queue + degree_weight inDegree)")
    (use relax_weight in \<open>fastforce simp: less_Suc_eq_le dest: sym\<close>)+

definition topoSortOperators :: "JobGraph \<Rightarrow> coord_error + OperatorDescriptor list" where
  "topoSortOperators graph =
     (let byID = operators_by_id (Operators graph) in
      case count_edges byID (Edges graph) [] (zero_degrees (Operators graph)) of
        Inl e \<Rightarrow> Inl e
      | Inr (adj, inDegree) \<Rightarrow>
          let result = kahn byID adj inDegree (ready_loop inDegree (Operators graph) []) [] in
          if length result \<noteq> length (Operators graph) then Inl ErrOther else Inr result)"

subsection \<open>The order is topological\<close>

abbreviation op_ids :: "OperatorDescriptor list \<Rightarrow> string list" where
  "op_ids ops \<equiv> map op_OperatorID ops"

definition edge_rel :: "EdgeDescriptor list \<Rightarrow> (string \<times> string) set" where
  "edge_rel edges = (\<lambda>e. (SourceOperatorID e, TargetOperatorID e)) ` set edges"

lemma map_of_operators:
  "map_of (fold (\<lambda>op. AList.update (op_OperatorID op) op) ops m) i
   = (case filter (\<lambda>op. op_OperatorID op = i) ops of [] \<Rightarrow> map_of m i | xs \<Rightarrow> Some (last xs))"
  by (induction ops arbitrary: m) (auto simp: update_conv' split: list.splits)

lemma operators_by_id_None [simp]: "map_of (operators_by_id ops) i = None \<longleftrightarrow> i \<notin> set (op_ids ops)"
proof (cases "filter (\<lambda>op. op_OperatorID op = i) ops")
  case (Cons op rest)
  have "op \<in> set ops \<and> op_OperatorID op = i" using filter_eq_ConsD [OF Cons] by auto
  then show ?thesis using Cons by (auto simp: operators_by_id_def map_of_operators)
qed (auto simp: operators_by_id_def map_of_operators filter_empty_conv)

lemma operators_by_id_Some:
  assumes "map_of (operators_by_id ops) i = Some op"
  shows "op \<in> set ops \<and> op_OperatorID op = i"
proof -
  obtain y ys where f: "filter (\<lambda>op. op_OperatorID op = i) ops = y # ys" "op = last (y # ys)"
    using assms by (auto simp: operators_by_id_def map_of_operators split: list.splits)
  have "op \<in> set (filter (\<lambda>op. op_OperatorID op = i) ops)" unfolding f by (rule last_in_set) simp
  then show ?thesis by simp
qed

lemma mget_operators:
  assumes "i \<in> set (op_ids ops)"
  shows "mget (operators_by_id ops) i z \<in> set ops \<and> op_OperatorID (mget (operators_by_id ops) i z) = i"
  using assms operators_by_id_None [of ops i] operators_by_id_Some [of ops i]
  by (cases "map_of (operators_by_id ops) i") (auto simp: mget_def)

lemma zero_degrees_mget [simp]: "mget (zero_degrees ops) i 0 = 0"
proof -
  have "mget m i 0 = 0 \<Longrightarrow> mget (fold (\<lambda>op. AList.update (op_OperatorID op) 0) ops m) i (0::int) = 0" for m
    by (induction ops arbitrary: m) simp_all
  then show ?thesis by (simp add: zero_degrees_def)
qed

text \<open>The edges are counted exactly when all of them lead between operators of the graph.\<close>

definition endpoints_known :: "string set \<Rightarrow> EdgeDescriptor list \<Rightarrow> bool" where
  "endpoints_known I edges \<longleftrightarrow> (\<forall>e \<in> set edges. SourceOperatorID e \<in> I \<and> TargetOperatorID e \<in> I)"

lemma count_edges_result:
  "count_edges byID edges adj deg = Inr (adj', deg')
   \<Longrightarrow> mget adj' i [] = mget adj i [] @ map TargetOperatorID (filter (\<lambda>e. SourceOperatorID e = i) edges)
     \<and> mget deg' i 0 = mget deg i 0 + int (length (filter (\<lambda>e. TargetOperatorID e = i) edges))
     \<and> endpoints_known (dom (map_of byID)) edges"
proof (induction byID edges adj deg rule: count_edges.induct)
  case (2 byID edge edges adj deg)
  then show ?case by (auto simp: Let_def endpoints_known_def split: if_splits)
qed (simp add: endpoints_known_def)

lemma count_edges_error:
  "count_edges byID edges adj deg = Inl err \<Longrightarrow> \<not> endpoints_known (dom (map_of byID)) edges"
  by (induction byID edges adj deg rule: count_edges.induct)
    (auto simp: Let_def endpoints_known_def split: if_splits)

lemma ready_loop_result:
  "distinct queue \<Longrightarrow> distinct (ready_loop deg ops queue)
     \<and> set (ready_loop deg ops queue) = set queue \<union> {i \<in> set (op_ids ops). mget deg i 0 = 0}"
proof (induction deg ops queue rule: ready_loop.induct)
  case (2 deg op ops queue)
  then show ?case by (cases "mget deg (op_OperatorID op) 0 = 0 \<and> op_OperatorID op \<notin> set queue") (auto simp: Let_def)
qed simp

lemma relax_result:
  assumes "relax ns deg queue = (deg', queue')" "distinct queue" "\<And>t. t \<in> set ns \<Longrightarrow> t \<notin> set queue"
    "\<And>t. t \<in> set ns \<Longrightarrow> int (count_list ns t) \<le> mget deg t 0"
  shows "(\<forall>t. mget deg' t 0 = mget deg t 0 - int (count_list ns t)) \<and> distinct queue'
    \<and> set queue' = set queue \<union> {t \<in> set ns. mget deg t 0 = int (count_list ns t)}"
  using assms
proof (induction ns arbitrary: deg queue)
  case (Cons n ns)
  let ?d = "mget deg n 0 - 1"
  let ?q = "if ?d = 0 then queue @ [n] else queue"
  have r: "relax ns (AList.update n ?d deg) ?q = (deg', queue')" using Cons.prems(1) by (simp add: Let_def)
  have n: "1 + int (count_list ns n) \<le> mget deg n 0" using Cons.prems(4) [of n] by simp
  have zero: "count_list ns n = 0" if "?d = 0" using n that by simp
  have d: "distinct ?q" using Cons.prems(2,3) by simp
  have f: "t \<notin> set ?q" if "t \<in> set ns" for t
    using that zero Cons.prems(3) [of t] by (auto simp: count_list_0_iff split: if_splits)
  have b: "int (count_list ns t) \<le> mget (AList.update n ?d deg) t 0" if "t \<in> set ns" for t
    using that n Cons.prems(4) [of t] by (auto split: if_splits)
  note IH = Cons.IH [OF r d f b]
  have "set queue' = set queue \<union> {t \<in> set (n # ns). mget deg t 0 = int (count_list (n # ns) t)}"
    using IH n zero by (auto simp: count_list_0_iff split: if_splits)
  then show ?case using IH by simp
qed simp_all

text \<open>The invariant of the loop: what has been taken out is closed under its inputs, the
  in-degrees count the inputs that have not been taken out, and the queue holds the operators
  without such inputs.\<close>

definition open_inputs :: "EdgeDescriptor list \<Rightarrow> string set \<Rightarrow> string \<Rightarrow> nat" where
  "open_inputs edges S t = length (filter (\<lambda>e. TargetOperatorID e = t \<and> SourceOperatorID e \<notin> S) edges)"

definition ordered :: "EdgeDescriptor list \<Rightarrow> string list \<Rightarrow> bool" where
  "ordered edges out \<longleftrightarrow>
     (\<forall>i < length out. \<forall>e \<in> set edges. TargetOperatorID e = out ! i \<longrightarrow> SourceOperatorID e \<in> set (take i out))"

definition kahn_inv :: "EdgeDescriptor list \<Rightarrow> string set \<Rightarrow> (string, int) gomap \<Rightarrow> string list \<Rightarrow> string list \<Rightarrow> bool" where
  "kahn_inv edges I deg queue out \<longleftrightarrow>
     distinct (out @ queue) \<and> set (out @ queue) \<subseteq> I \<and> ordered edges out
     \<and> (\<forall>t \<in> I. mget deg t 0 = int (open_inputs edges (set out) t)
          \<and> (open_inputs edges (set out) t = 0 \<longleftrightarrow> t \<in> set out \<union> set queue))"

lemma count_list_targets:
  "count_list (map TargetOperatorID (filter (\<lambda>e. SourceOperatorID e = i) edges)) t
   = length (filter (\<lambda>e. TargetOperatorID e = t \<and> SourceOperatorID e = i) edges)"
  by (induction edges) auto

lemma open_inputs_insert:
  assumes "i \<notin> S"
  shows "open_inputs edges S t = open_inputs edges (insert i S) t
    + count_list (map TargetOperatorID (filter (\<lambda>e. SourceOperatorID e = i) edges)) t"
  unfolding count_list_targets open_inputs_def using assms by (induction edges) auto

lemma ordered_snoc:
  assumes "ordered edges out" "open_inputs edges (set out) i = 0"
  shows "ordered edges (out @ [i])"
  using assms unfolding ordered_def open_inputs_def
  by (auto simp: nth_append less_Suc_eq filter_empty_conv)

lemma kahn_inv_step:
  assumes "kahn_inv edges I deg (i # queue) out" "endpoints_known I edges"
    and "relax (map TargetOperatorID (filter (\<lambda>e. SourceOperatorID e = i) edges)) deg queue = (deg', queue')"
  shows "kahn_inv edges I deg' queue' (out @ [i])"
proof -
  define ns where "ns = map TargetOperatorID (filter (\<lambda>e. SourceOperatorID e = i) edges)"
  define old where "old = open_inputs edges (set out)"
  define new where "new = open_inputs edges (insert i (set out))"
  have i: "i \<notin> set out" "i \<in> I" and ord: "ordered edges out" and d: "distinct (out @ i # queue)"
    and sub: "set out \<union> set queue \<subseteq> I" and zero: "old i = 0"
    and deg: "\<And>t. t \<in> I \<Longrightarrow> mget deg t 0 = int (old t)"
    and ready: "\<And>t. t \<in> I \<Longrightarrow> old t = 0 \<longleftrightarrow> t \<in> insert i (set out \<union> set queue)"
    using assms(1) unfolding kahn_inv_def old_def by auto
  have split: "old t = new t + count_list ns t" for t
    unfolding old_def new_def ns_def by (rule open_inputs_insert [OF i(1)])
  have ns: "t \<in> I" if "t \<in> set ns" for t using that assms(2) by (auto simp: endpoints_known_def ns_def)
  have pos: "count_list ns t > 0" if "t \<in> set ns" for t using that count_list_0_iff [of ns t] by simp
  have fresh: "t \<notin> insert i (set out \<union> set queue)" if "t \<in> set ns" for t
    using ready [OF ns [OF that]] split [of t] pos [OF that] by simp
  have r: "(\<forall>t. mget deg' t 0 = mget deg t 0 - int (count_list ns t)) \<and> distinct queue'
      \<and> set queue' = set queue \<union> {t \<in> set ns. mget deg t 0 = int (count_list ns t)}"
    by (rule relax_result [OF assms(3) [folded ns_def]]) (use d fresh deg ns split in auto)
  have q: "t \<in> set queue' \<longleftrightarrow> t \<in> set queue \<or> t \<in> set ns \<and> new t = 0" for t
    using r deg [OF ns, of t] split [of t] by auto
  have "new t = 0 \<longleftrightarrow> t \<in> insert i (set out) \<union> set queue'" if "t \<in> I" for t
    using ready [OF that] split [of t] fresh [of t] q [of t] count_list_0_iff [of ns t] by auto
  moreover have "mget deg' t 0 = int (new t)" if "t \<in> I" for t
    using r deg [OF that] split [of t] by auto
  moreover have "distinct (out @ [i] @ queue')" using d r q fresh by auto
  moreover have "set queue' \<subseteq> I" using q ns sub by auto
  ultimately show ?thesis unfolding kahn_inv_def using ordered_snoc [OF ord zero [unfolded old_def]] i sub
    by (auto simp: new_def)
qed

lemma kahn_result:
  assumes "kahn_inv edges (set (op_ids ops)) deg queue (op_ids result)" "endpoints_known (set (op_ids ops)) edges"
    and "\<And>i. mget adj i [] = map TargetOperatorID (filter (\<lambda>e. SourceOperatorID e = i) edges)"
    and "set result \<subseteq> set ops"
  shows "\<exists>deg'. kahn_inv edges (set (op_ids ops)) deg' [] (op_ids (kahn (operators_by_id ops) adj deg queue result))
    \<and> set (kahn (operators_by_id ops) adj deg queue result) \<subseteq> set ops"
  using assms(1,3,4)
proof (induction "operators_by_id ops" adj deg queue result rule: kahn.induct)
  case (2 adj deg i queue result)
  obtain deg' queue' where r: "relax (mget adj i []) deg queue = (deg', queue')" by fastforce
  have "i \<in> set (op_ids ops)" using 2(2) by (simp add: kahn_inv_def)
  then have m: "mget (operators_by_id ops) i zero_operator \<in> set ops"
    "op_OperatorID (mget (operators_by_id ops) i zero_operator) = i" using mget_operators by blast+
  have "kahn_inv edges (set (op_ids ops)) deg' queue' (op_ids result @ [i])"
    by (rule kahn_inv_step [OF 2(2) assms(2)]) (use r 2(3) in simp)
  then show ?case using 2(1) [OF r [symmetric]] 2(3,4) m r by simp
qed auto

text \<open>A set of operators that is closed in this sense leaves out only operators on or behind a
  cycle.\<close>

lemma closed_all:
  assumes "endpoints_known I edges" "acyclic (edge_rel edges)" "S \<subseteq> I"
    and "\<And>t. t \<in> I \<Longrightarrow> open_inputs edges S t = 0 \<longleftrightarrow> t \<in> S"
  shows "S = I"
proof (rule ccontr)
  assume "S \<noteq> I"
  then obtain x where x: "x \<in> I - S" using assms(3) by blast
  have "wf (edge_rel edges)" using assms(2) by (intro finite_acyclic_wf) (simp_all add: edge_rel_def)
  then obtain t where t: "t \<in> I - S" "\<And>s. (s, t) \<in> edge_rel edges \<Longrightarrow> s \<notin> I - S"
    using x by (rule wfE_min) blast
  have "open_inputs edges S t \<noteq> 0" using assms(4) t(1) by blast
  then obtain e where "e \<in> set edges" "TargetOperatorID e = t" "SourceOperatorID e \<notin> S"
    by (auto simp: open_inputs_def filter_empty_conv)
  then show False using t(2) assms(1) by (auto simp: edge_rel_def endpoints_known_def)
qed

lemma ordered_index:
  assumes "ordered edges out" "e \<in> set edges" "TargetOperatorID e \<in> set out"
  shows "\<exists>i j. i < j \<and> j < length out \<and> out ! i = SourceOperatorID e \<and> out ! j = TargetOperatorID e"
proof -
  obtain j where j: "j < length out" "out ! j = TargetOperatorID e" using assms(3) by (auto simp: in_set_conv_nth)
  then have "SourceOperatorID e \<in> set (take j out)" using assms(1,2) by (simp add: ordered_def)
  then obtain i where "i < j" "out ! i = SourceOperatorID e" using j(1) by (auto simp: in_set_conv_nth)
  then show ?thesis using j by blast
qed

lemma ordered_acyclic:
  assumes "ordered edges out" "endpoints_known (set out) edges" "distinct out"
  shows "acyclic (edge_rel edges)"
proof -
  define pos where "pos x = (THE i. i < length out \<and> out ! i = x)" for x
  have pos: "pos (out ! i) = i" if "i < length out" for i
    unfolding pos_def using that assms(3) by (intro the_equality) (auto simp: nth_eq_iff_index_eq)
  have "(s, t) \<in> measure pos" if st: "(s, t) \<in> edge_rel edges" for s t
  proof -
    obtain e where e: "e \<in> set edges" "s = SourceOperatorID e" "t = TargetOperatorID e"
      using st by (auto simp: edge_rel_def)
    then obtain i j where "i < j" "j < length out" "out ! i = s" "out ! j = t"
      using ordered_index [OF assms(1) e(1)] assms(2) by (auto simp: endpoints_known_def)
    then show ?thesis using pos [of i] pos [of j] by auto
  qed
  then have "edge_rel edges \<subseteq> measure pos" by (auto simp del: in_measure)
  then show ?thesis by (rule acyclic_subset [OF wf_acyclic [OF wf_measure]])
qed

text \<open>The outcome of the whole routine.\<close>

lemma topoSort_cases:
  obtains (unknown) e where "topoSortOperators graph = Inl e" "\<not> endpoints_known (set (op_ids (Operators graph))) (Edges graph)"
  | (counted) deg result where "endpoints_known (set (op_ids (Operators graph))) (Edges graph)"
    "topoSortOperators graph = (if length result \<noteq> length (Operators graph) then Inl ErrOther else Inr result)"
    "kahn_inv (Edges graph) (set (op_ids (Operators graph))) deg [] (op_ids result)" "set result \<subseteq> set (Operators graph)"
proof -
  let ?ops = "Operators graph" and ?es = "Edges graph"
  have dom: "dom (map_of (operators_by_id ?ops)) = set (op_ids ?ops)"
    using operators_by_id_None [of ?ops] by (simp add: set_eq_iff domIff del: not_None_eq)
  show thesis
  proof (cases "count_edges (operators_by_id ?ops) ?es [] (zero_degrees ?ops)")
    case (Inl e)
    then show thesis using unknown count_edges_error [OF Inl] by (simp add: topoSortOperators_def Let_def dom)
  next
    case (Inr r)
    obtain adj deg where r: "r = (adj, deg)" by fastforce
    let ?q = "ready_loop deg ?ops []"
    note c = count_edges_result [OF Inr [unfolded r]]
    have known: "endpoints_known (set (op_ids ?ops)) ?es" using c dom by simp
    have "kahn_inv ?es (set (op_ids ?ops)) deg ?q (op_ids [])"
      using c ready_loop_result [of "[]" deg ?ops] by (auto simp: kahn_inv_def ordered_def open_inputs_def)
    then obtain deg' where "kahn_inv ?es (set (op_ids ?ops)) deg' [] (op_ids (kahn (operators_by_id ?ops) adj deg ?q []))"
      "set (kahn (operators_by_id ?ops) adj deg ?q []) \<subseteq> set ?ops"
      using kahn_result [of ?es ?ops deg ?q "[]" adj] known c by auto
    then show thesis using counted known Inr r by (simp add: topoSortOperators_def Let_def)
  qed
qed

lemma topoSort_sound:
  assumes "topoSortOperators graph = Inr out"
  shows "mset out = mset (Operators graph)" "distinct (op_ids out)" "ordered (Edges graph) (op_ids out)"
    "endpoints_known (set (op_ids out)) (Edges graph)"
proof -
  obtain deg where k: "endpoints_known (set (op_ids (Operators graph))) (Edges graph)" "length out = length (Operators graph)"
    "kahn_inv (Edges graph) (set (op_ids (Operators graph))) deg [] (op_ids out)" "set out \<subseteq> set (Operators graph)"
    using assms by (cases rule: topoSort_cases [of graph]) (auto split: if_splits)
  then show d: "distinct (op_ids out)" and "ordered (Edges graph) (op_ids out)" by (auto simp: kahn_inv_def)
  have ds: "distinct out" using d by (simp add: distinct_map)
  have "card (set (Operators graph)) \<le> card (set out)"
    using distinct_card [OF ds] k(2) card_length [of "Operators graph"] by simp
  then have s: "set out = set (Operators graph)" using k(4) by (intro card_seteq) simp_all
  then have "card (set (Operators graph)) = length (Operators graph)" using distinct_card [OF ds] k(2) by simp
  then have "distinct (Operators graph)" by (rule card_distinct)
  then show "mset out = mset (Operators graph)" using ds s by (simp add: set_eq_iff_mset_eq_distinct)
  show "endpoints_known (set (op_ids out)) (Edges graph)" using k(1) s by simp
qed

lemma topoSort_complete:
  assumes "topoSortOperators graph = Inl e"
  shows "\<not> (distinct (op_ids (Operators graph)) \<and> endpoints_known (set (op_ids (Operators graph))) (Edges graph)
    \<and> acyclic (edge_rel (Edges graph)))"
proof (cases rule: topoSort_cases [of graph])
  case (counted deg result)
  let ?I = "set (op_ids (Operators graph))"
  have len: "length result \<noteq> length (Operators graph)" using assms counted(2) by (auto split: if_splits)
  have "length result = length (Operators graph)" if a: "acyclic (edge_rel (Edges graph))" "distinct (op_ids (Operators graph))"
  proof -
    have "set (op_ids result) = ?I"
      using counted(3) by (intro closed_all [OF counted(1) a(1)]) (auto simp: kahn_inv_def)
    moreover have "distinct (op_ids result)" using counted(3) by (simp add: kahn_inv_def)
    ultimately have "length (op_ids result) = length (op_ids (Operators graph))"
      using a(2) by (metis distinct_card)
    then show ?thesis by simp
  qed
  then show ?thesis using len by blast
qed simp

text \<open>C36. The topological sort is correct and complete. When it returns an order, that order holds
  every operator of the graph exactly once and every edge leads from an earlier to a later
  operator. It reports an error only for graphs in which operator IDs repeat, an edge leads to an
  operator that is not there, or the edges form a cycle.\<close>

theorem topo_sort_correct:
  "case topoSortOperators graph of
     Inr out \<Rightarrow>
       mset out = mset (Operators graph) \<and> distinct (op_ids out)
       \<and> (\<forall>e \<in> set (Edges graph). \<exists>i j. i < j \<and> j < length out
            \<and> op_OperatorID (out ! i) = SourceOperatorID e \<and> op_OperatorID (out ! j) = TargetOperatorID e)
   | Inl _ \<Rightarrow>
       \<not> (distinct (op_ids (Operators graph)) \<and> endpoints_known (set (op_ids (Operators graph))) (Edges graph)
          \<and> acyclic (edge_rel (Edges graph)))"
proof (cases "topoSortOperators graph")
  case (Inr out)
  have "\<exists>i j. i < j \<and> j < length out \<and> op_OperatorID (out ! i) = SourceOperatorID e \<and> op_OperatorID (out ! j) = TargetOperatorID e"
    if e: "e \<in> set (Edges graph)" for e
  proof -
    have "TargetOperatorID e \<in> set (op_ids out)" using topoSort_sound(4) [OF Inr] e by (simp add: endpoints_known_def)
    then obtain i j where "i < j" "j < length out" "op_ids out ! i = SourceOperatorID e" "op_ids out ! j = TargetOperatorID e"
      using ordered_index [OF topoSort_sound(3) [OF Inr] e] by auto
    then show ?thesis by (intro exI [of _ i] exI [of _ j]) simp
  qed
  then show ?thesis using topoSort_sound(1,2) [OF Inr] Inr by simp
qed (use topoSort_complete in simp)

definition example_graph :: JobGraph where
  "example_graph = \<lparr>g_NumKeyGroups = 4,
     Operators = [zero_operator\<lparr>op_OperatorID := ''k''\<rparr>, zero_operator\<lparr>op_OperatorID := ''s'', op_Type := OperatorTypeSource\<rparr>],
     Edges = [\<lparr>SourceOperatorID = ''s'', TargetOperatorID = ''k'', Shuffle = ShuffleStrategyHash, KeySelector = []\<rparr>]\<rparr>"

lemma example_sorted:
  "topoSortOperators example_graph
   = Inr [zero_operator\<lparr>op_OperatorID := ''s'', op_Type := OperatorTypeSource\<rparr>, zero_operator\<lparr>op_OperatorID := ''k''\<rparr>]"
  by (simp add: topoSortOperators_def example_graph_def operators_by_id_def zero_degrees_def mget_def Let_def)

theorem topo_sort_correct_witness:
  "\<exists>out. topoSortOperators example_graph = Inr out \<and> mset out = mset (Operators example_graph)"
  using topo_sort_correct [of example_graph] by (simp add: example_sorted)

section \<open>Chains\<close>

record physicalChain =
  pc_Operators :: "OperatorDescriptor list"
  pc_Parallelism :: int

text \<open>Persisted graphs may omit the strategy of an edge, which means forward.\<close>

definition normal_edge :: "EdgeDescriptor \<Rightarrow> EdgeDescriptor" where
  "normal_edge edge = (if Shuffle edge = ShuffleStrategyUnknown then edge\<lparr>Shuffle := ShuffleStrategyForward\<rparr> else edge)"

definition op_parallelism :: "int \<Rightarrow> OperatorDescriptor \<Rightarrow> int" where
  "op_parallelism defaultParallelism op = (if op_Parallelism op = 0 then defaultParallelism else op_Parallelism op)"

definition parent_chain ::
  "(string, EdgeDescriptor list) gomap \<Rightarrow> (string, EdgeDescriptor list) gomap \<Rightarrow> physicalChain list \<Rightarrow>
     (string, nat) gomap \<Rightarrow> int \<Rightarrow> string \<Rightarrow> nat option" where
  "parent_chain incoming outgoing fused membership p i =
     (case mget incoming i [] of
        [edge] \<Rightarrow>
          (case map_of membership (SourceOperatorID edge) of
             None \<Rightarrow> None
           | Some parent \<Rightarrow>
               if Shuffle edge = ShuffleStrategyForward \<and> length (mget outgoing (SourceOperatorID edge) []) = 1
                  \<and> pc_Parallelism (fused ! parent) = p
               then Some parent else None)
      | _ \<Rightarrow> None)"

definition join_chain :: "OperatorDescriptor \<Rightarrow> int \<Rightarrow> nat option \<Rightarrow> physicalChain list \<Rightarrow> nat \<times> physicalChain list" where
  "join_chain op p parent fused =
     (case parent of
        Some i \<Rightarrow> (i, fused[i := (fused ! i)\<lparr>pc_Operators := pc_Operators (fused ! i) @ [op]\<rparr>])
      | None \<Rightarrow> (length fused, fused @ [\<lparr>pc_Operators = [op], pc_Parallelism = p\<rparr>]))"

fun chain_loop ::
  "(string, EdgeDescriptor list) gomap \<Rightarrow> (string, EdgeDescriptor list) gomap \<Rightarrow> int \<Rightarrow> OperatorDescriptor list \<Rightarrow>
     physicalChain list \<Rightarrow> (string, nat) gomap \<Rightarrow> coord_error + physicalChain list \<times> (string, nat) gomap" where
  "chain_loop incoming outgoing defaultParallelism [] fused membership = Inr (fused, membership)"
| "chain_loop incoming outgoing defaultParallelism (op # ops) fused membership =
     (let i = op_OperatorID op; p = op_parallelism defaultParallelism op in
      if map_of membership i \<noteq> None then Inl ErrOther
      else if p < 1 then Inl ErrOther
      else
        (case join_chain op p (parent_chain incoming outgoing fused membership p i) fused of
           (chainIndex, fused') \<Rightarrow>
             chain_loop incoming outgoing defaultParallelism ops fused' (AList.update i chainIndex membership)))"

definition planPhysicalChains :: "JobGraph \<Rightarrow> int \<Rightarrow> coord_error + physicalChain list \<times> (string, nat) gomap" where
  "planPhysicalChains graph defaultParallelism =
     (case topoSortOperators graph of
        Inl e \<Rightarrow> Inl e
      | Inr out \<Rightarrow>
          let edges = map normal_edge (Edges graph) in
          chain_loop (group_by TargetOperatorID edges) (group_by SourceOperatorID edges) defaultParallelism out [] [])"

subsection \<open>Chains are the maximal one-to-one forward paths\<close>

lemma normal_edge_ends [simp]:
  "SourceOperatorID (normal_edge e) = SourceOperatorID e" "TargetOperatorID (normal_edge e) = TargetOperatorID e"
  by (simp_all add: normal_edge_def)

abbreviation inputs_of :: "EdgeDescriptor list \<Rightarrow> string \<Rightarrow> EdgeDescriptor list" where
  "inputs_of edges i \<equiv> filter (\<lambda>e. TargetOperatorID e = i) edges"

abbreviation outputs_of :: "EdgeDescriptor list \<Rightarrow> string \<Rightarrow> EdgeDescriptor list" where
  "outputs_of edges i \<equiv> filter (\<lambda>e. SourceOperatorID e = i) edges"

definition forward_only :: "EdgeDescriptor list \<Rightarrow> EdgeDescriptor \<Rightarrow> bool" where
  "forward_only edges e \<longleftrightarrow> Shuffle e = ShuffleStrategyForward
     \<and> inputs_of edges (TargetOperatorID e) = [e] \<and> outputs_of edges (SourceOperatorID e) = [e]"

definition joined :: "EdgeDescriptor list \<Rightarrow> OperatorDescriptor \<Rightarrow> OperatorDescriptor \<Rightarrow> bool" where
  "joined edges a b \<longleftrightarrow> (\<exists>e \<in> set edges. forward_only edges e \<and> SourceOperatorID e = op_OperatorID a \<and> TargetOperatorID e = op_OperatorID b)"

definition chain_ok :: "EdgeDescriptor list \<Rightarrow> int \<Rightarrow> physicalChain \<Rightarrow> bool" where
  "chain_ok edges p0 c \<longleftrightarrow> pc_Operators c \<noteq> [] \<and> 1 \<le> pc_Parallelism c
     \<and> (\<forall>op \<in> set (pc_Operators c). op_parallelism p0 op = pc_Parallelism c)
     \<and> (\<forall>k. Suc k < length (pc_Operators c) \<longrightarrow> joined edges (pc_Operators c ! k) (pc_Operators c ! Suc k))"

definition chain_inv ::
  "EdgeDescriptor list \<Rightarrow> int \<Rightarrow> OperatorDescriptor list \<Rightarrow> physicalChain list \<Rightarrow> (string, nat) gomap \<Rightarrow> bool" where
  "chain_inv edges p0 pre cs m \<longleftrightarrow>
     dom (map_of m) = set (op_ids pre) \<and> (\<forall>c \<in> set cs. chain_ok edges p0 c)
     \<and> mset (concat (map pc_Operators cs)) = mset pre
     \<and> (\<forall>op \<in> set pre. \<exists>i < length cs. map_of m (op_OperatorID op) = Some i \<and> op \<in> set (pc_Operators (cs ! i)))
     \<and> (\<forall>e \<in> set edges. \<forall>a \<in> set pre. \<forall>b \<in> set pre. SourceOperatorID e = op_OperatorID a \<longrightarrow> TargetOperatorID e = op_OperatorID b \<longrightarrow>
          (map_of m (op_OperatorID a) = map_of m (op_OperatorID b)
           \<longleftrightarrow> forward_only edges e \<and> op_parallelism p0 a = op_parallelism p0 b))"

lemma chain_inv_update:
  assumes "chain_inv edges p0 pre cs m" "op_OperatorID op \<notin> set (op_ids pre)"
    and inputs: "\<And>e. e \<in> set edges \<Longrightarrow> TargetOperatorID e = op_OperatorID op \<Longrightarrow> SourceOperatorID e \<in> set (op_ids pre)"
    and outputs: "\<And>e b. e \<in> set edges \<Longrightarrow> SourceOperatorID e = op_OperatorID op \<Longrightarrow> b \<in> set pre \<Longrightarrow> TargetOperatorID e \<noteq> op_OperatorID b"
    and cs: "\<forall>c \<in> set cs'. chain_ok edges p0 c" "mset (concat (map pc_Operators cs')) = add_mset op (mset (concat (map pc_Operators cs)))"
    and old: "\<And>i. i < length cs \<Longrightarrow> i < length cs' \<and> set (pc_Operators (cs ! i)) \<subseteq> set (pc_Operators (cs' ! i))"
    and n: "n < length cs'" "op \<in> set (pc_Operators (cs' ! n))"
    and edge: "\<And>e a. e \<in> set edges \<Longrightarrow> a \<in> set pre \<Longrightarrow> SourceOperatorID e = op_OperatorID a \<Longrightarrow> TargetOperatorID e = op_OperatorID op
      \<Longrightarrow> map_of m (op_OperatorID a) = Some n \<longleftrightarrow> forward_only edges e \<and> op_parallelism p0 a = op_parallelism p0 op"
  shows "chain_inv edges p0 (pre @ [op]) cs' (AList.update (op_OperatorID op) n m)"
proof -
  let ?m = "AList.update (op_OperatorID op) n m"
  have m: "map_of ?m (op_OperatorID a) = map_of m (op_OperatorID a)" if "a \<in> set pre" for a
  proof -
    have "op_OperatorID a \<noteq> op_OperatorID op" using assms(2) imageI [OF that, of op_OperatorID] by (metis set_map)
    then show ?thesis by (simp add: update_conv')
  qed
  have mop: "map_of ?m (op_OperatorID op) = Some n" by (simp add: update_conv')
  have dom: "dom (map_of ?m) = set (op_ids (pre @ [op]))"
    using assms(1) by (auto simp: chain_inv_def update_conv')
  have mem: "\<exists>i < length cs'. map_of ?m (op_OperatorID a) = Some i \<and> a \<in> set (pc_Operators (cs' ! i))"
    if "a \<in> set (pre @ [op])" for a
  proof (cases "a \<in> set pre")
    case True
    then obtain i where "i < length cs" "map_of m (op_OperatorID a) = Some i" "a \<in> set (pc_Operators (cs ! i))"
      using assms(1) unfolding chain_inv_def by blast
    then show ?thesis using old [of i] m [OF True] by auto
  next
    case False
    then show ?thesis using that n mop by auto
  qed
  have "map_of ?m (op_OperatorID a) = map_of ?m (op_OperatorID b) \<longleftrightarrow> forward_only edges e \<and> op_parallelism p0 a = op_parallelism p0 b"
    if e: "e \<in> set edges" "a \<in> set (pre @ [op])" "b \<in> set (pre @ [op])" "SourceOperatorID e = op_OperatorID a" "TargetOperatorID e = op_OperatorID b" for e a b
  proof (cases "b \<in> set pre")
    case True
    then have a: "a \<in> set pre" using e outputs [of e b] by auto
    then show ?thesis using assms(1) e True m by (auto simp: chain_inv_def)
  next
    case False
    then have b: "b = op" using e by simp
    have "op_OperatorID a \<in> set (op_ids pre)" using inputs [of e] e b by simp
    then have a: "a \<in> set pre" using e(2) assms(2) by auto
    show ?thesis using edge [OF e(1) a] e(4,5) unfolding b m [OF a] mop by simp
  qed
  then show ?thesis using assms(1) cs dom mem unfolding chain_inv_def by simp
qed

text \<open>An operator that starts a chain of its own.\<close>

lemma forward_onlyD:
  "forward_only edges e \<Longrightarrow> inputs_of edges (TargetOperatorID e) = [e] \<and> outputs_of edges (SourceOperatorID e) = [e]
     \<and> Shuffle e = ShuffleStrategyForward"
  by (simp add: forward_only_def)

lemma parent_chain_None:
  assumes "chain_inv edges p0 pre cs m" "parent_chain (group_by TargetOperatorID edges) (group_by SourceOperatorID edges) cs m p i = None"
    and "e \<in> set edges" "TargetOperatorID e = i" "a \<in> set pre" "SourceOperatorID e = op_OperatorID a" "op_parallelism p0 a = p"
  shows "\<not> forward_only edges e"
proof
  assume f: "forward_only edges e"
  obtain n where n: "n < length cs" "map_of m (op_OperatorID a) = Some n" "a \<in> set (pc_Operators (cs ! n))"
    using assms(1,5) unfolding chain_inv_def by blast
  have "pc_Parallelism (cs ! n) = p" using n assms(1,7) unfolding chain_inv_def chain_ok_def by force
  then show False using assms(2,4,6) n(2) forward_onlyD [OF f] by (simp add: parent_chain_def split: if_splits)
qed

lemma parent_chain_Some:
  assumes "parent_chain (group_by TargetOperatorID edges) (group_by SourceOperatorID edges) cs m p i = Some n"
  obtains e where "inputs_of edges i = [e]" "map_of m (SourceOperatorID e) = Some n" "forward_only edges e"
    "e \<in> set edges" "TargetOperatorID e = i" "pc_Parallelism (cs ! n) = p"
proof -
  obtain e where e: "inputs_of edges i = [e]" "map_of m (SourceOperatorID e) = Some n" "Shuffle e = ShuffleStrategyForward"
    "length (outputs_of edges (SourceOperatorID e)) = 1" "pc_Parallelism (cs ! n) = p"
    using assms by (auto simp: parent_chain_def split: list.splits option.splits if_splits)
  have "e \<in> set (inputs_of edges i)" unfolding e(1) by simp
  then have ei: "e \<in> set edges" "TargetOperatorID e = i" by auto
  have "e \<in> set (outputs_of edges (SourceOperatorID e))" using ei(1) by simp
  moreover obtain y where y: "outputs_of edges (SourceOperatorID e) = [y]" using e(4) by (auto simp: length_Suc_conv)
  ultimately have "y = e" by (metis empty_iff empty_set insert_iff list.simps(15))
  with y have "outputs_of edges (SourceOperatorID e) = [e]" by (rule subst [rotated])
  then show thesis using that e ei by (simp add: forward_only_def)
qed

lemma chain_ok_snoc:
  assumes "chain_ok edges p0 c" "op_parallelism p0 op = pc_Parallelism c" "joined edges (last (pc_Operators c)) op"
  shows "chain_ok edges p0 (c\<lparr>pc_Operators := pc_Operators c @ [op]\<rparr>)"
proof -
  have "joined edges ((pc_Operators c @ [op]) ! k) ((pc_Operators c @ [op]) ! Suc k)" if "k < length (pc_Operators c)" for k
  proof (cases "Suc k < length (pc_Operators c)")
    case True
    then show ?thesis using assms(1) by (simp add: chain_ok_def nth_append)
  next
    case False
    then have "k = length (pc_Operators c) - 1" "Suc k = length (pc_Operators c)" using that by simp_all
    then show ?thesis using assms(1,3) by (simp add: chain_ok_def nth_append last_conv_nth)
  qed
  then show ?thesis using assms by (auto simp: chain_ok_def)
qed

text \<open>The parent of an operator that joins a chain is the last operator of that chain.\<close>

lemma parent_is_last:
  assumes "chain_inv edges p0 pre cs m" "n < length cs" "a \<in> set (pc_Operators (cs ! n))"
    and "forward_only edges e" "SourceOperatorID e = op_OperatorID a" "TargetOperatorID e \<notin> set (op_ids pre)"
  shows "last (pc_Operators (cs ! n)) = a"
proof -
  let ?ops = "pc_Operators (cs ! n)"
  obtain k where k: "k < length ?ops" "?ops ! k = a" using assms(3) by (auto simp: in_set_conv_nth)
  have "\<not> Suc k < length ?ops"
  proof
    assume l: "Suc k < length ?ops"
    then have "joined edges a (?ops ! Suc k)" using assms(1,2) k unfolding chain_inv_def chain_ok_def by auto
    then obtain e' where e': "e' \<in> set edges" "SourceOperatorID e' = op_OperatorID a" "TargetOperatorID e' = op_OperatorID (?ops ! Suc k)"
      unfolding joined_def by blast
    have "e' \<in> set (outputs_of edges (SourceOperatorID e))" using e' assms(5) by simp
    then have "e' = e" using forward_onlyD [OF assms(4)] by auto
    moreover have "?ops ! Suc k \<in> set pre"
    proof -
      have "?ops ! Suc k \<in> set (concat (map pc_Operators cs))" using nth_mem [OF assms(2)] nth_mem [OF l] by auto
      then show ?thesis using assms(1) unfolding chain_inv_def by (metis set_mset_mset)
    qed
    ultimately show False using e'(3) assms(6) by auto
  qed
  then have "length ?ops - 1 = k" using k(1) by simp
  then show ?thesis using k by (subst last_conv_nth) auto
qed

lemma concat_update_snoc:
  assumes "i < length xss"
  shows "mset (concat (xss[i := xss ! i @ [x]])) = add_mset x (mset (concat xss))"
  using assms
proof (induction xss arbitrary: i)
  case (Cons xs xss)
  then show ?case by (cases i) simp_all
qed simp

lemma chain_inv_step:
  assumes inv: "chain_inv edges p0 pre cs m" and new: "op_OperatorID op \<notin> set (op_ids pre)"
    and inputs: "\<And>e. e \<in> set edges \<Longrightarrow> TargetOperatorID e = op_OperatorID op \<Longrightarrow> SourceOperatorID e \<in> set (op_ids pre)"
    and outputs: "\<And>e b. e \<in> set edges \<Longrightarrow> SourceOperatorID e = op_OperatorID op \<Longrightarrow> b \<in> set pre \<Longrightarrow> TargetOperatorID e \<noteq> op_OperatorID b"
    and p: "op_parallelism p0 op = p" "1 \<le> p"
    and j: "join_chain op p (parent_chain (group_by TargetOperatorID edges) (group_by SourceOperatorID edges) cs m p (op_OperatorID op)) cs = (n, cs')"
  shows "chain_inv edges p0 (pre @ [op]) cs' (AList.update (op_OperatorID op) n m)"
proof (cases "parent_chain (group_by TargetOperatorID edges) (group_by SourceOperatorID edges) cs m p (op_OperatorID op)")
  case None
  have n: "n = length cs" "cs' = cs @ [\<lparr>pc_Operators = [op], pc_Parallelism = p\<rparr>]" using j None by (simp_all add: join_chain_def)
  have "map_of m (op_OperatorID a) \<noteq> Some n" if "a \<in> set pre" for a
    using inv that n(1) unfolding chain_inv_def by force
  moreover have "\<not> (forward_only edges e \<and> op_parallelism p0 a = op_parallelism p0 op)"
    if "e \<in> set edges" "a \<in> set pre" "SourceOperatorID e = op_OperatorID a" "TargetOperatorID e = op_OperatorID op" for e a
    using parent_chain_None [OF inv None that(1,4,2,3)] p(1) by blast
  ultimately show ?thesis using inv p n
    by (intro chain_inv_update [OF inv new inputs outputs]) (auto simp: chain_inv_def chain_ok_def nth_append)
next
  case (Some i)
  obtain e where e: "inputs_of edges (op_OperatorID op) = [e]" "map_of m (SourceOperatorID e) = Some i" "forward_only edges e"
    "e \<in> set edges" "TargetOperatorID e = op_OperatorID op" "pc_Parallelism (cs ! i) = p" by (rule parent_chain_Some [OF Some])
  have n: "n = i" "cs' = cs[i := (cs ! i)\<lparr>pc_Operators := pc_Operators (cs ! i) @ [op]\<rparr>]" using j Some by (auto simp: join_chain_def)
  obtain a where a: "a \<in> set pre" "SourceOperatorID e = op_OperatorID a" using inputs [OF e(4,5)] by auto
  then have i: "i < length cs" "a \<in> set (pc_Operators (cs ! i))" using inv e(2) unfolding chain_inv_def by fastforce+
  have ok: "chain_ok edges p0 (cs ! i)" using inv i(1) unfolding chain_inv_def by simp
  have "last (pc_Operators (cs ! i)) = a" using parent_is_last [OF inv i e(3) a(2)] e(5) new by simp
  then have "joined edges (last (pc_Operators (cs ! i))) op" using e a unfolding joined_def by metis
  then have ok': "chain_ok edges p0 ((cs ! i)\<lparr>pc_Operators := pc_Operators (cs ! i) @ [op]\<rparr>)"
    by (intro chain_ok_snoc [OF ok]) (simp_all add: p e(6))
  have only: "e' = e" if "e' \<in> set edges" "TargetOperatorID e' = op_OperatorID op" for e'
  proof -
    have "e' \<in> set (inputs_of edges (op_OperatorID op))" using that by simp
    then show ?thesis unfolding e(1) by simp
  qed
  have par: "op_parallelism p0 b = p" if "b \<in> set pre" "map_of m (op_OperatorID b) = Some i" for b
    using inv that e(6) i unfolding chain_inv_def chain_ok_def by fastforce
  show ?thesis
  proof (rule chain_inv_update [OF inv new inputs outputs])
    show "\<forall>c \<in> set cs'. chain_ok edges p0 c"
      using inv ok' unfolding n(2) chain_inv_def by (auto dest: set_update_subset_insert [THEN subsetD])
    show "mset (concat (map pc_Operators cs')) = add_mset op (mset (concat (map pc_Operators cs)))"
      using i(1) concat_update_snoc [of i "map pc_Operators cs" op] unfolding n(2) by (simp add: map_update)
    show "i' < length cs' \<and> set (pc_Operators (cs ! i')) \<subseteq> set (pc_Operators (cs' ! i'))" if "i' < length cs" for i'
      using that unfolding n(2) by (cases "i' = i") auto
    show "n < length cs'" "op \<in> set (pc_Operators (cs' ! n))" using i(1) n by simp_all
    show "map_of m (op_OperatorID b) = Some n \<longleftrightarrow> forward_only edges e' \<and> op_parallelism p0 b = op_parallelism p0 op"
      if "e' \<in> set edges" "b \<in> set pre" "SourceOperatorID e' = op_OperatorID b" "TargetOperatorID e' = op_OperatorID op" for e' b
      using only [OF that(1,4)] that(3) e(2,3) par [OF that(2)] p(1) n(1) by auto
  qed
qed

lemma ordered_nth:
  assumes "ordered edges (op_ids (pre @ op # ops))" "distinct (op_ids (pre @ op # ops))" "e \<in> set edges"
  shows "TargetOperatorID e = op_OperatorID op \<Longrightarrow> SourceOperatorID e \<in> set (op_ids pre)"
    and "SourceOperatorID e = op_OperatorID op \<Longrightarrow> b \<in> set pre \<Longrightarrow> TargetOperatorID e \<noteq> op_OperatorID b"
proof -
  have o: "TargetOperatorID e = op_ids (pre @ op # ops) ! i \<Longrightarrow> SourceOperatorID e \<in> set (take i (op_ids (pre @ op # ops)))"
    if "i < length (pre @ op # ops)" for i using assms(1,3) that unfolding ordered_def by (metis length_map)
  show "TargetOperatorID e = op_OperatorID op \<Longrightarrow> SourceOperatorID e \<in> set (op_ids pre)"
    using o [of "length pre"] by (simp add: nth_append)
  show "TargetOperatorID e \<noteq> op_OperatorID b" if s: "SourceOperatorID e = op_OperatorID op" "b \<in> set pre"
  proof
    assume t: "TargetOperatorID e = op_OperatorID b"
    obtain i where i: "i < length pre" "pre ! i = b" using s(2) by (auto simp: in_set_conv_nth)
    then have "op_OperatorID op \<in> set (take i (op_ids pre))" using o [of i] s(1) t by (simp add: nth_append)
    then have "op_OperatorID op \<in> set (op_ids pre)" by (rule in_set_takeD)
    then show False using assms(2) by auto
  qed
qed

lemma chain_loop_inv:
  assumes "chain_loop (group_by TargetOperatorID edges) (group_by SourceOperatorID edges) p0 ops cs m = Inr (cs', m')"
    and "chain_inv edges p0 pre cs m" "ordered edges (op_ids (pre @ ops))" "distinct (op_ids (pre @ ops))"
  shows "chain_inv edges p0 (pre @ ops) cs' m'"
  using assms
proof (induction ops arbitrary: pre cs m)
  case (Cons op ops)
  let ?i = "op_OperatorID op" and ?p = "op_parallelism p0 op"
  obtain n cs1 where j: "join_chain op ?p (parent_chain (group_by TargetOperatorID edges) (group_by SourceOperatorID edges) cs m ?p ?i) cs = (n, cs1)"
    by fastforce
  have p: "1 \<le> ?p" and r: "chain_loop (group_by TargetOperatorID edges) (group_by SourceOperatorID edges) p0 ops cs1 (AList.update ?i n m) = Inr (cs', m')"
    using Cons.prems(1) j by (auto simp: Let_def split: if_splits)
  have "chain_inv edges p0 (pre @ [op]) cs1 (AList.update ?i n m)"
    by (rule chain_inv_step [OF Cons.prems(2) _ ordered_nth [OF Cons.prems(3,4)] refl p j]) (use Cons.prems(4) in auto)
  then show ?case using Cons.IH [OF r, of "pre @ [op]"] Cons.prems(3,4) by simp
qed simp

lemma planPhysicalChains_inv:
  assumes "planPhysicalChains graph p0 = Inr (cs, m)"
  obtains out where "topoSortOperators graph = Inr out" "chain_inv (map normal_edge (Edges graph)) p0 out cs m"
proof -
  let ?es = "map normal_edge (Edges graph)"
  obtain out where s: "topoSortOperators graph = Inr out"
    and l: "chain_loop (group_by TargetOperatorID ?es) (group_by SourceOperatorID ?es) p0 out [] [] = Inr (cs, m)"
    using assms by (auto simp: planPhysicalChains_def Let_def split: sum.splits)
  have "ordered ?es (op_ids out)" using topoSort_sound(3) [OF s] by (auto simp: ordered_def)
  then have "chain_inv ?es p0 ([] @ out) cs m"
    by (intro chain_loop_inv [OF l]) (simp_all add: chain_inv_def topoSort_sound(2) [OF s])
  then show thesis using that s by simp
qed

text \<open>C37. Planning fuses exactly the one-to-one forward paths. Every operator is in exactly one
  chain. A chain has one parallelism, which is at least one, and each of its operators feeds only
  the next one, over a forward edge that is the only input there. Conversely an edge stays inside a
  chain exactly when it is the only output of its source and the only input of its target, is
  forward, and both ends run at the same parallelism.\<close>

theorem chains_are_forward_paths:
  assumes "planPhysicalChains graph p0 = Inr (cs, m)"
  defines "edges \<equiv> map normal_edge (Edges graph)"
  shows "mset (concat (map pc_Operators cs)) = mset (Operators graph) \<and> (\<forall>c \<in> set cs. chain_ok edges p0 c)
    \<and> (\<forall>e \<in> set edges. \<forall>a \<in> set (Operators graph). \<forall>b \<in> set (Operators graph).
         SourceOperatorID e = op_OperatorID a \<longrightarrow> TargetOperatorID e = op_OperatorID b \<longrightarrow>
         (map_of m (op_OperatorID a) = map_of m (op_OperatorID b)
          \<longleftrightarrow> forward_only edges e \<and> op_parallelism p0 a = op_parallelism p0 b))"
proof -
  obtain out where s: "topoSortOperators graph = Inr out" "chain_inv edges p0 out cs m"
    using planPhysicalChains_inv [OF assms(1)] unfolding edges_def by metis
  have "mset out = mset (Operators graph)" by (rule topoSort_sound(1) [OF s(1)])
  then show ?thesis using s(2) mset_eq_setD [of out "Operators graph"] unfolding chain_inv_def by simp
qed

lemma example_chains:
  "planPhysicalChains example_graph 2 = Inr
     ([\<lparr>pc_Operators = [zero_operator\<lparr>op_OperatorID := ''s'', op_Type := OperatorTypeSource\<rparr>], pc_Parallelism = 2\<rparr>,
       \<lparr>pc_Operators = [zero_operator\<lparr>op_OperatorID := ''k''\<rparr>], pc_Parallelism = 2\<rparr>], [(''s'', 0), (''k'', 1)])"
  unfolding planPhysicalChains_def example_sorted
  by (simp add: example_graph_def group_by_def mget_def normal_edge_def Let_def op_parallelism_def zero_operator_def
      parent_chain_def join_chain_def)

theorem chains_are_forward_paths_witness:
  "\<exists>cs m. planPhysicalChains example_graph 2 = Inr (cs, m) \<and> mset (concat (map pc_Operators cs)) = mset (Operators example_graph)
     \<and> map_of m ''s'' \<noteq> map_of m ''k''"
  using chains_are_forward_paths [OF example_chains] example_chains by fastforce

end
