(* ===== verification/Job_Tasks.thy ===== *)
theory Job_Tasks
  imports Job_Graph
begin

text \<open>From operator chains to the tasks that are deployed: the materialisation of the subtasks and
  of the channels between them (\<^verbatim>\<open>internal/coordinator/physical_tasks.go\<close>), the entry point of
  the scheduler (\<^verbatim>\<open>scheduler.go\<close>, \<^verbatim>\<open>generateTaskDescriptors\<close>) and the resolution of worker
  addresses (\<^verbatim>\<open>task_addresses.go\<close>).\<close>

section \<open>Subtasks\<close>

definition zero_task :: TaskDescriptor where
  "zero_task = \<lparr>td_DeploymentGeneration = 0, td_RestoreRescale = None, td_OutputKeyGroups = 0, td_NumKeyGroups = 0,
     td_AttemptID = [], td_RestoreCheckpoint = None, td_CheckpointReplicaAddress = [], td_EpochID = 0, td_TaskID = [],
     td_OperatorID = [], td_SubtaskIndex = 0, td_Parallelism = 0, td_KeyGroup = \<lparr>kg_Start = 0, kg_End = 0\<rparr>,
     td_OperatorChain = [], td_Upstream = [], td_Downstream = []\<rparr>"

text \<open>A chain is named after its first operator that is not a source.\<close>

definition chain_primary :: "physicalChain \<Rightarrow> string" where
  "chain_primary chain =
     (case find (\<lambda>op. op_Type op \<noteq> OperatorTypeSource) (pc_Operators chain) of
        Some op \<Rightarrow> op_OperatorID op
      | None \<Rightarrow> op_OperatorID (pc_Operators chain ! 0))"

definition chain_task :: "string \<Rightarrow> int \<Rightarrow> physicalChain \<Rightarrow> nat \<Rightarrow> KeyGroupRange \<Rightarrow> TaskDescriptor" where
  "chain_task jobID ngroups chain i groups =
     zero_task\<lparr>td_TaskID := jobID @ ''/'' @ chain_primary chain @ ''/'' @ decimal i, td_OperatorID := chain_primary chain,
       td_SubtaskIndex := to_int32 (int i), td_Parallelism := to_int32 (pc_Parallelism chain), td_NumKeyGroups := ngroups,
       td_KeyGroup := \<lparr>kg_Start = uint (Start groups), kg_End = uint (End groups) - 1\<rparr>,
       td_OperatorChain := pc_Operators chain\<rparr>"

fun task_loop ::
  "string \<Rightarrow> int \<Rightarrow> physicalChain list \<Rightarrow> TaskDescriptor list \<Rightarrow> nat list list \<Rightarrow>
     coord_error + TaskDescriptor list \<times> nat list list" where
  "task_loop jobID ngroups [] tasks indexes = Inr (tasks, indexes)"
| "task_loop jobID ngroups (chain # rest) tasks indexes =
     (case AllTaskRanges ngroups (pc_Parallelism chain) of
        Inl _ \<Rightarrow> Inl ErrOther
      | Inr ranges \<Rightarrow>
          task_loop jobID ngroups rest
            (tasks @ map (\<lambda>(i, groups). chain_task jobID ngroups chain i groups) (enumerate 0 ranges))
            (indexes @ [[length tasks ..< length tasks + length ranges]]))"

section \<open>Channels\<close>

text \<open>A loop that stops at the first error.\<close>

fun try_fold :: "('a \<Rightarrow> 's \<Rightarrow> 'e + 's) \<Rightarrow> 'a list \<Rightarrow> 's \<Rightarrow> 'e + 's" where
  "try_fold f [] s = Inr s"
| "try_fold f (x # xs) s = (case f x s of Inl e \<Rightarrow> Inl e | Inr s' \<Rightarrow> try_fold f xs s')"

definition sourceIdleTimeout :: "TaskDescriptor \<Rightarrow> int" where
  "sourceIdleTimeout task =
     (case find (\<lambda>op. op_Type op = OperatorTypeSource \<and> op_Watermark op \<noteq> None) (td_OperatorChain task) of
        Some op \<Rightarrow> (case op_Watermark op of Some wm \<Rightarrow> wmc_IdleTimeout wm | None \<Rightarrow> 0)
      | None \<Rightarrow> 0)"

definition add_output :: "nat \<Rightarrow> nat \<Rightarrow> nat \<Rightarrow> u16 \<Rightarrow> TaskDescriptor list \<Rightarrow> TaskDescriptor list" where
  "add_output src dst ti part tasks =
     tasks[src := (tasks ! src)\<lparr>td_Downstream := td_Downstream (tasks ! src) @
       [\<lparr>dn_TaskID = td_TaskID (tasks ! dst), dn_PartitionIndex = part, dn_OperatorID = td_OperatorID (tasks ! dst),
         dn_SubtaskIndex = to_int32 (int ti), dn_Address = []\<rparr>]\<rparr>]"

definition add_input :: "nat \<Rightarrow> nat \<Rightarrow> nat \<Rightarrow> u16 \<Rightarrow> TaskDescriptor list \<Rightarrow> TaskDescriptor list" where
  "add_input src dst si part tasks =
     tasks[dst := (tasks ! dst)\<lparr>td_Upstream := td_Upstream (tasks ! dst) @
       [\<lparr>up_IdleTimeout = sourceIdleTimeout (tasks ! src), up_TaskID = td_TaskID (tasks ! src), up_PartitionIndex = part,
         up_OperatorID = td_OperatorID (tasks ! src), up_SubtaskIndex = to_int32 (int si), up_Address = []\<rparr>]\<rparr>]"

fun connect :: "(nat \<times> nat) \<times> (nat \<times> nat) \<Rightarrow> TaskDescriptor list \<Rightarrow> coord_error + TaskDescriptor list" where
  "connect ((si, src), (ti, dst)) tasks =
     (let inputs = length (td_Upstream (tasks ! dst)) in
      if inputs \<ge> 65536 then Inl ErrOther
      else Inr (add_input src dst si (of_nat inputs) (add_output src dst ti (of_nat inputs) tasks)))"

text \<open>The pairs of source and target subtasks of an edge, in the order of the two loops.\<close>

definition channel_pairs :: "bool \<Rightarrow> nat list \<Rightarrow> nat list \<Rightarrow> ((nat \<times> nat) \<times> (nat \<times> nat)) list" where
  "channel_pairs forward sources targets =
     filter (\<lambda>((si, _), (ti, _)). \<not> (forward \<and> si \<noteq> ti)) (List.product (enumerate 0 sources) (enumerate 0 targets))"

definition mark_outputs :: "int \<Rightarrow> nat list \<Rightarrow> TaskDescriptor list \<Rightarrow> TaskDescriptor list" where
  "mark_outputs ngroups sources tasks =
     fold (\<lambda>src tasks. tasks[src := (tasks ! src)\<lparr>td_OutputKeyGroups := ngroups\<rparr>]) sources tasks"

definition wire_edge ::
  "int \<Rightarrow> nat list list \<Rightarrow> (string, nat) gomap \<Rightarrow> EdgeDescriptor \<Rightarrow>
     TaskDescriptor list \<times> (nat, int) gomap \<Rightarrow> coord_error + TaskDescriptor list \<times> (nat, int) gomap" where
  "wire_edge ngroups indexes membership edge0 = (\<lambda>(tasks, boundaryCount).
     let edge = normal_edge edge0;
         source = mget membership (SourceOperatorID edge) 0; target = mget membership (TargetOperatorID edge) 0 in
     if source = target then Inr (tasks, boundaryCount)
     else
       let boundaries = mget boundaryCount source 0 + 1;
           boundaryCount' = AList.update source boundaries boundaryCount;
           forward = (Shuffle edge = ShuffleStrategyForward) in
       if boundaries > 1 then Inl ErrOther
       else if Shuffle edge \<noteq> ShuffleStrategyForward \<and> Shuffle edge \<noteq> ShuffleStrategyHash
               \<and> Shuffle edge \<noteq> ShuffleStrategyRebalance then Inl ErrOther
       else if KeySelector edge \<noteq> [] then Inl ErrOther
       else if forward \<and> length (indexes ! source) \<noteq> length (indexes ! target) then Inl ErrOther
       else
         let tasks1 = (if Shuffle edge = ShuffleStrategyHash then mark_outputs ngroups (indexes ! source) tasks else tasks) in
         (case try_fold connect (channel_pairs forward (indexes ! source) (indexes ! target)) tasks1 of
            Inl e \<Rightarrow> Inl e
          | Inr tasks2 \<Rightarrow> Inr (tasks2, boundaryCount')))"

definition buildPhysicalTasks :: "string \<Rightarrow> JobGraph \<Rightarrow> int \<Rightarrow> coord_error + TaskDescriptor list" where
  "buildPhysicalTasks jobID graph parallelism =
     (case validateGraphKeyGroups graph parallelism of
        Inl e \<Rightarrow> Inl e
      | Inr ngroups \<Rightarrow>
          (case planPhysicalChains graph parallelism of
             Inl e \<Rightarrow> Inl e
           | Inr (fused, membership) \<Rightarrow>
               (case task_loop jobID ngroups fused [] [] of
                  Inl e \<Rightarrow> Inl e
                | Inr (tasks, indexes) \<Rightarrow>
                    (case try_fold (wire_edge ngroups indexes membership) (Edges graph) (tasks, []) of
                       Inl e \<Rightarrow> Inl e
                     | Inr (tasks', _) \<Rightarrow> Inr tasks'))))"

definition generateTaskDescriptors :: "msgpack \<Rightarrow> JobMeta \<Rightarrow> coord_error + TaskDescriptor list" where
  "generateTaskDescriptors mp job =
     (if job_Config job = [] then Inl ErrOther
      else
        (case dec_graph mp (job_Config job) of
           None \<Rightarrow> Inl ErrOther
         | Some graph \<Rightarrow>
             (case topoSortOperators graph of
                Inl e \<Rightarrow> Inl e
              | Inr out \<Rightarrow>
                  if out = [] then Inl ErrOther
                  else buildPhysicalTasks (job_ID job) graph (if job_Parallelism job < 1 then 1 else job_Parallelism job))))"

section \<open>Addresses\<close>

type_synonym placement = "(string, TaskDescriptor list) gomap"

text \<open>The address of every placed task, then the check of all endpoints, then the update.\<close>

fun place_tasks :: "string \<Rightarrow> TaskDescriptor list \<Rightarrow> (string, string) gomap \<Rightarrow> coord_error + (string, string) gomap" where
  "place_tasks address [] addresses = Inr addresses"
| "place_tasks address (task # tasks) addresses =
     (if map_of addresses (td_TaskID task) \<noteq> None then Inl ErrOther
      else place_tasks address tasks (AList.update (td_TaskID task) address addresses))"

fun task_addresses ::
  "(string, WorkerMeta) gomap \<Rightarrow> placement \<Rightarrow> (string, string) gomap \<Rightarrow> coord_error + (string, string) gomap" where
  "task_addresses workers [] addresses = Inr addresses"
| "task_addresses workers ((workerID, tasks) # rest) addresses =
     (case map_of workers workerID of
        None \<Rightarrow> Inl ErrOther
      | Some worker \<Rightarrow>
          (case place_tasks (w_Address worker) tasks addresses of
             Inl e \<Rightarrow> Inl e
           | Inr addresses' \<Rightarrow> task_addresses workers rest addresses'))"

definition endpoints_resolved :: "(string, string) gomap \<Rightarrow> TaskDescriptor \<Rightarrow> bool" where
  "endpoints_resolved addresses task \<longleftrightarrow>
     (\<forall>input \<in> set (td_Upstream task). mget addresses (up_TaskID input) [] \<noteq> [])
     \<and> (\<forall>out \<in> set (td_Downstream task). mget addresses (dn_TaskID out) [] \<noteq> [])"

definition resolve_endpoints :: "(string, string) gomap \<Rightarrow> TaskDescriptor \<Rightarrow> TaskDescriptor" where
  "resolve_endpoints addresses task =
     task\<lparr>td_Upstream := map (\<lambda>input. input\<lparr>up_Address := mget addresses (up_TaskID input) []\<rparr>) (td_Upstream task),
          td_Downstream := map (\<lambda>out. out\<lparr>dn_Address := mget addresses (dn_TaskID out) []\<rparr>) (td_Downstream task)\<rparr>"

definition attachTaskAddressesLocked :: "'s Coordinator \<Rightarrow> placement \<Rightarrow> coord_error + placement" where
  "attachTaskAddressesLocked c assignments =
     (case task_addresses (c_workers c) assignments [] of
        Inl e \<Rightarrow> Inl e
      | Inr addresses \<Rightarrow>
          if \<forall>(_, tasks) \<in> set assignments. \<forall>task \<in> set tasks. endpoints_resolved addresses task
          then Inr (map (\<lambda>(workerID, tasks). (workerID, map (resolve_endpoints addresses) tasks)) assignments)
          else Inl ErrOther)"

section \<open>Generic facts\<close>

lemma try_fold_inv:
  assumes "try_fold f xs s = Inr s'" "P s" "\<And>x s s'. x \<in> set xs \<Longrightarrow> P s \<Longrightarrow> f x s = Inr s' \<Longrightarrow> P s'"
  shows "P s'"
  using assms
proof (induction xs arbitrary: s)
  case (Cons x xs)
  then obtain s1 where "f x s = Inr s1" "try_fold f xs s1 = Inr s'" by (auto split: sum.splits)
  moreover from this have "P s1" using Cons.prems(2) Cons.prems(3) [of x s s1] by simp
  ultimately show ?case using Cons.IH [of s1] Cons.prems(3) by (metis list.set_intros(2))
qed simp

lemma map_update_same: "f x = f (xs ! i) \<Longrightarrow> map f (xs[i := x]) = map f xs"
  by (cases "i < length xs") (simp_all add: map_update list_update_same_conv list_update_beyond)

text \<open>Decimal numerals are different for different numbers and hold no slash.\<close>

definition dec_val :: "string \<Rightarrow> nat" where
  "dec_val s = foldl (\<lambda>a c. 10 * a + (of_char c - 48)) 0 s"

lemma dec_val_decimal [simp]: "dec_val (decimal n) = n"
proof (induction n rule: decimal.induct)
  case (1 n)
  then show ?case by (subst decimal.simps) (auto simp: dec_val_def)
qed

lemma decimal_inject [simp]: "decimal m = decimal n \<longleftrightarrow> m = n"
  using dec_val_decimal by metis

lemma decimal_no_slash: "CHR ''/'' \<notin> set (decimal n)"
proof (induction n rule: decimal.induct)
  case (1 n)
  have "CHR ''/'' \<noteq> char_of (48 + d)" if "d < 10" for d :: nat
  proof
    assume "CHR ''/'' = char_of (48 + d)"
    then have "of_char (CHR ''/'') = (of_char (char_of (48 + d) :: char) :: nat)" by simp
    then show False using that by simp
  qed
  then show ?case using 1 by (subst decimal.simps) auto
qed

lemma split_at_first:
  assumes "c \<notin> set a" "c \<notin> set a'" "a @ c # b = a' @ c # b'"
  shows "a = a' \<and> b = b'"
  using assms
proof (induction a arbitrary: a')
  case Nil
  then show ?case by (cases a') auto
next
  case (Cons x a)
  then show ?case by (cases a') auto
qed

lemma slash_split:
  assumes "CHR ''/'' \<notin> set ys" "CHR ''/'' \<notin> set ys'" "xs @ CHR ''/'' # ys = xs' @ CHR ''/'' # ys'"
  shows "xs = xs' \<and> ys = ys'"
proof -
  have "rev ys @ CHR ''/'' # rev xs = rev ys' @ CHR ''/'' # rev xs'"
    using arg_cong [OF assms(3), of rev] by simp
  then show ?thesis using split_at_first [of "CHR ''/''" "rev ys" "rev ys'" "rev xs" "rev xs'"] assms(1,2) by simp
qed

lemma to_int32_small [simp]: "0 \<le> x \<Longrightarrow> x < 2 ^ 31 \<Longrightarrow> to_int32 x = x"
  by (simp add: to_int32_def)

section \<open>The tasks of a job partition the key groups\<close>

definition chain_tasks :: "string \<Rightarrow> int \<Rightarrow> physicalChain \<Rightarrow> TaskDescriptor list" where
  "chain_tasks jobID ngroups c =
     map (\<lambda>i. chain_task jobID ngroups c i (kg_range ngroups (pc_Parallelism c) (int i))) [0..<nat (pc_Parallelism c)]"

lemma AllTaskRanges_valid: "AllTaskRanges n p = Inr r \<Longrightarrow> valid_kg n p"
  by (auto simp: AllTaskRanges_def valid_kg_def split: option.splits)

lemma task_loop_result:
  assumes "task_loop jobID n cs ts ix = Inr (ts', ix')"
  shows "(\<forall>c \<in> set cs. valid_kg n (pc_Parallelism c)) \<and> ts' = ts @ concat (map (chain_tasks jobID n) cs)
    \<and> length ix' = length ix + length cs \<and> ((\<forall>is \<in> set ix. \<forall>i \<in> set is. i < length ts) \<longrightarrow> (\<forall>is \<in> set ix'. \<forall>i \<in> set is. i < length ts'))"
  using assms
proof (induction cs arbitrary: ts ix)
  case (Cons c cs)
  then obtain r where r: "AllTaskRanges n (pc_Parallelism c) = Inr r" by (auto split: sum.splits)
  note v = AllTaskRanges_valid [OF r]
  have eq: "r = map (\<lambda>i. kg_range n (pc_Parallelism c) (int i)) [0..<nat (pc_Parallelism c)]"
    using r AllTaskRanges_eq [OF v] by simp
  have "map (\<lambda>(i, groups). chain_task jobID n c i groups) (enumerate 0 r) = chain_tasks jobID n c"
    unfolding eq chain_tasks_def by (simp add: enumerate_eq_zip zip_map2 map_zip_map2 zip_same_conv_map o_def)
  then have l: "task_loop jobID n cs (ts @ chain_tasks jobID n c) (ix @ [[length ts ..< length ts + length r]]) = Inr (ts', ix')"
    using Cons.prems r by simp
  have "length (chain_tasks jobID n c) = length r" by (simp add: eq chain_tasks_def)
  then show ?case using Cons.IH [OF l] v by (auto intro: trans_less_add1)
qed simp

lemma chain_primary_in: "pc_Operators c \<noteq> [] \<Longrightarrow> chain_primary c \<in> set (op_ids (pc_Operators c))"
  by (auto simp: chain_primary_def find_Some_iff split: option.split)

lemma primaries_distinct:
  assumes "distinct (op_ids (concat (map pc_Operators cs)))" "\<forall>c \<in> set cs. pc_Operators c \<noteq> []"
  shows "distinct (map chain_primary cs)"
  using assms
proof (induction cs)
  case (Cons c cs)
  have "chain_primary c \<noteq> chain_primary c'" if "c' \<in> set cs" for c'
  proof -
    have "chain_primary c \<in> set (op_ids (pc_Operators c))" "chain_primary c' \<in> set (op_ids (concat (map pc_Operators cs)))"
      using chain_primary_in [of c] chain_primary_in [of c'] Cons.prems(2) that by auto
    moreover have "set (op_ids (pc_Operators c)) \<inter> set (op_ids (concat (map pc_Operators cs))) = {}"
      using Cons.prems(1) by simp
    ultimately show ?thesis by (metis disjoint_iff)
  qed
  then show ?case using Cons by auto
qed simp

lemma chain_task_id_inject:
  assumes "td_TaskID (chain_task jobID n c i r) = td_TaskID (chain_task jobID n c' i' r')"
  shows "chain_primary c = chain_primary c' \<and> i = i'"
  using slash_split [OF decimal_no_slash [of i] decimal_no_slash [of i'], of "jobID @ ''/'' @ chain_primary c" "jobID @ ''/'' @ chain_primary c'"] assms
  by (simp add: chain_task_def)

lemma task_ids_distinct:
  assumes "distinct (map chain_primary cs)"
  shows "distinct (map td_TaskID (concat (map (chain_tasks jobID n) cs)))"
  using assms
proof (induction cs)
  case (Cons c cs)
  have "distinct (map td_TaskID (chain_tasks jobID n c))"
    unfolding chain_tasks_def map_map distinct_map by (auto intro!: inj_onI dest: chain_task_id_inject)
  moreover have "td_TaskID t \<noteq> td_TaskID t'"
    if t: "t \<in> set (chain_tasks jobID n c)" "c' \<in> set cs" "t' \<in> set (chain_tasks jobID n c')" for t t' c'
  proof
    assume eq: "td_TaskID t = td_TaskID t'"
    obtain i r i' r' where "t = chain_task jobID n c i r" "t' = chain_task jobID n c' i' r'"
      using t(1,3) by (auto simp: chain_tasks_def)
    then have "chain_primary c = chain_primary c'" using eq chain_task_id_inject by blast
    then show False using t(2) Cons.prems by auto
  qed
  ultimately show ?case using Cons by auto
qed simp

text \<open>What wiring leaves alone.\<close>

definition static :: "TaskDescriptor \<Rightarrow> string \<times> string \<times> int \<times> int \<times> int \<times> rpc_KeyGroupRange \<times> OperatorDescriptor list" where
  "static t = (td_TaskID t, td_OperatorID t, td_SubtaskIndex t, td_Parallelism t, td_NumKeyGroups t, td_KeyGroup t, td_OperatorChain t)"

definition owns :: "TaskDescriptor \<Rightarrow> int \<Rightarrow> bool" where
  "owns t g \<longleftrightarrow> kg_Start (td_KeyGroup t) \<le> g \<and> g \<le> kg_End (td_KeyGroup t)"

definition task_ok :: "TaskDescriptor \<Rightarrow> bool" where
  "task_ok t \<longleftrightarrow> 0 \<le> td_SubtaskIndex t \<and> td_SubtaskIndex t < td_Parallelism t \<and> td_OperatorChain t \<noteq> []
     \<and> td_OperatorID t \<in> set (op_ids (td_OperatorChain t))
     \<and> 0 \<le> kg_Start (td_KeyGroup t) \<and> kg_End (td_KeyGroup t) < td_NumKeyGroups t"

lemma kg_range_bounds:
  assumes "valid_kg n p" "0 \<le> i" "i < p"
  shows "uint (Start (kg_range n p i)) = kg_lo n p i" "uint (End (kg_range n p i)) = kg_lo n p (i + 1)"
  using kg_lo_bounds [OF assms(1), of i] kg_lo_bounds [OF assms(1), of "i + 1"] valid_kg_bounds [OF assms(1)] assms(2,3)
  by (simp_all add: kg_range_def uint_word16)

lemma chain_tasks_ok:
  assumes "valid_kg n (pc_Parallelism c)" "t \<in> set (chain_tasks jobID n c)" "pc_Operators c \<noteq> []"
  shows "task_ok t \<and> td_NumKeyGroups t = n"
proof -
  obtain i where i: "i < nat (pc_Parallelism c)" "t = chain_task jobID n c i (kg_range n (pc_Parallelism c) (int i))"
    using assms(2) by (auto simp: chain_tasks_def)
  then have b: "0 \<le> int i" "int i < pc_Parallelism c" by simp_all
  note v = valid_kg_bounds [OF assms(1)] kg_lo_bounds [OF assms(1), of "int i"] kg_lo_bounds [OF assms(1), of "int i + 1"]
  show ?thesis using v b chain_primary_in [OF assms(3)] assms(3)
    by (simp add: i(2) task_ok_def chain_task_def kg_range_bounds [OF assms(1) b])
qed

lemma chain_tasks_partition:
  assumes "valid_kg n (pc_Parallelism c)" "0 \<le> g" "g < n"
  shows "\<exists>!t. t \<in> set (chain_tasks jobID n c) \<and> owns t g"
proof -
  let ?p = "pc_Parallelism c" and ?t = "\<lambda>i. chain_task jobID n c i (kg_range n (pc_Parallelism c) (int i))"
  have g: "uint (word_of_int g :: u16) = g" using assms valid_kg_bounds [OF assms(1)] by (simp add: uint_word16)
  obtain t where t: "0 \<le> t" "t < ?p" "kg_lo n ?p t \<le> g" "g < kg_lo n ?p (t + 1)"
    using AssignedTask_owner [OF assms(1), of "word_of_int g"] assms(3) g by metis
  have own: "owns (?t i) g \<longleftrightarrow> int i = t" if "i < nat ?p" for i
  proof -
    have "owns (?t i) g \<longleftrightarrow> kg_lo n ?p (int i) \<le> g \<and> g < kg_lo n ?p (int i + 1)"
      using that by (auto simp: owns_def chain_task_def kg_range_bounds [OF assms(1)])
    then show ?thesis using kg_owner_unique [OF assms(1) _ _ t(3,4), of "int i"] t(3,4) by metis
  qed
  show ?thesis
  proof (rule ex1I [of _ "?t (nat t)"])
    show "?t (nat t) \<in> set (chain_tasks jobID n c) \<and> owns (?t (nat t)) g"
      using t own [of "nat t"] by (auto simp: chain_tasks_def intro!: image_eqI [of _ _ "nat t"])
    show "t' = ?t (nat t)" if t': "t' \<in> set (chain_tasks jobID n c) \<and> owns t' g" for t'
    proof -
      obtain i where "i < nat ?p" "t' = ?t i" using t' by (auto simp: chain_tasks_def)
      then show ?thesis using own [of i] t' by auto
    qed
  qed
qed

section \<open>The two ends of every channel agree\<close>

lemma add_static:
  "map static (add_output src dst ti part ts) = map static ts" "map static (add_input src dst si part ts) = map static ts"
  by (auto simp: add_output_def add_input_def static_def intro!: map_update_same)

lemma static_nth:
  assumes "map static ts = map static ts0" "k < length ts"
  shows "static (ts ! k) = static (ts0 ! k)" "length ts = length ts0"
proof -
  show l: "length ts = length ts0" using arg_cong [OF assms(1), of length] by simp
  have "map static ts ! k = map static ts0 ! k" by (simp add: assms(1))
  then show "static (ts ! k) = static (ts0 ! k)" using assms(2) l by simp
qed

abbreviation sent :: "TaskDescriptor \<Rightarrow> string \<Rightarrow> u16 list" where
  "sent t i \<equiv> map dn_PartitionIndex (filter (\<lambda>x. dn_TaskID x = i) (td_Downstream t))"

abbreviation received :: "TaskDescriptor \<Rightarrow> string \<Rightarrow> u16 list" where
  "received t i \<equiv> map up_PartitionIndex (filter (\<lambda>u. up_TaskID u = i) (td_Upstream t))"

definition wired :: "TaskDescriptor list \<Rightarrow> bool" where
  "wired ts \<longleftrightarrow>
     (\<forall>t \<in> set ts. length (td_Upstream t) \<le> 65536
        \<and> map (\<lambda>u. unat (up_PartitionIndex u)) (td_Upstream t) = [0..<length (td_Upstream t)]
        \<and> up_TaskID ` set (td_Upstream t) \<subseteq> td_TaskID ` set ts \<and> dn_TaskID ` set (td_Downstream t) \<subseteq> td_TaskID ` set ts)
     \<and> (\<forall>s \<in> set ts. \<forall>d \<in> set ts. sent s (td_TaskID d) = received d (td_TaskID s))"

text \<open>One channel more.\<close>

lemma connect_effect:
  assumes "connect ((si, src), (ti, dst)) ts = Inr ts'" "src < length ts" "dst < length ts"
  shows "map static ts' = map static ts" "length (td_Upstream (ts ! dst)) < 65536"
    and "k < length ts \<Longrightarrow> td_Downstream (ts' ! k) = td_Downstream (ts ! k) @ (if k = src
      then [\<lparr>dn_TaskID = td_TaskID (ts ! dst), dn_PartitionIndex = of_nat (length (td_Upstream (ts ! dst))),
        dn_OperatorID = td_OperatorID (ts ! dst), dn_SubtaskIndex = to_int32 (int ti), dn_Address = []\<rparr>] else [])"
    and "k < length ts \<Longrightarrow> \<exists>u. up_TaskID u = td_TaskID (ts ! src) \<and> up_PartitionIndex u = of_nat (length (td_Upstream (ts ! dst)))
      \<and> td_Upstream (ts' ! k) = td_Upstream (ts ! k) @ (if k = dst then [u] else [])"
proof -
  have b: "length (td_Upstream (ts ! dst)) < 65536" and ts': "ts' = add_input src dst si (of_nat (length (td_Upstream (ts ! dst))))
      (add_output src dst ti (of_nat (length (td_Upstream (ts ! dst)))) ts)"
    using assms(1) by (auto simp: Let_def split: if_splits)
  then show "map static ts' = map static ts" "length (td_Upstream (ts ! dst)) < 65536" by (simp_all add: add_static)
  show "td_Downstream (ts' ! k) = td_Downstream (ts ! k) @ (if k = src
      then [\<lparr>dn_TaskID = td_TaskID (ts ! dst), dn_PartitionIndex = of_nat (length (td_Upstream (ts ! dst))),
        dn_OperatorID = td_OperatorID (ts ! dst), dn_SubtaskIndex = to_int32 (int ti), dn_Address = []\<rparr>] else [])" if "k < length ts"
    using assms(2,3) that by (auto simp: ts' add_input_def add_output_def nth_list_update)
  show "\<exists>u. up_TaskID u = td_TaskID (ts ! src) \<and> up_PartitionIndex u = of_nat (length (td_Upstream (ts ! dst)))
      \<and> td_Upstream (ts' ! k) = td_Upstream (ts ! k) @ (if k = dst then [u] else [])" if "k < length ts"
    using assms(2,3) that
    by (intro exI [of _ "\<lparr>up_IdleTimeout = sourceIdleTimeout (add_output src dst ti (of_nat (length (td_Upstream (ts ! dst)))) ts ! src),
          up_TaskID = td_TaskID (ts ! src), up_PartitionIndex = of_nat (length (td_Upstream (ts ! dst))),
          up_OperatorID = td_OperatorID (ts ! src), up_SubtaskIndex = to_int32 (int si), up_Address = []\<rparr>"])
      (auto simp: ts' add_input_def add_output_def nth_list_update)
qed

lemma static_ids:
  assumes "map static ts' = map static ts"
  shows "map td_TaskID ts' = map td_TaskID ts"
proof -
  have "map td_TaskID xs = map fst (map static xs)" for xs by (simp add: static_def)
  then show ?thesis using assms by metis
qed

lemma wired_nth:
  "wired ts \<longleftrightarrow>
     (\<forall>k < length ts. length (td_Upstream (ts ! k)) \<le> 65536
        \<and> map (\<lambda>u. unat (up_PartitionIndex u)) (td_Upstream (ts ! k)) = [0..<length (td_Upstream (ts ! k))]
        \<and> up_TaskID ` set (td_Upstream (ts ! k)) \<subseteq> td_TaskID ` set ts
        \<and> dn_TaskID ` set (td_Downstream (ts ! k)) \<subseteq> td_TaskID ` set ts
        \<and> (\<forall>d < length ts. sent (ts ! k) (td_TaskID (ts ! d)) = received (ts ! d) (td_TaskID (ts ! k))))"
  unfolding wired_def by (simp only: all_set_conv_all_nth) blast

lemma connect_wired:
  assumes "connect ((si, src), (ti, dst)) ts = Inr ts'" "src < length ts" "dst < length ts" "wired ts" "distinct (map td_TaskID ts)"
  shows "wired ts'"
proof -
  note e = connect_effect [OF assms(1-3)]
  have ids: "map td_TaskID ts' = map td_TaskID ts" by (rule static_ids [OF e(1)])
  have len: "length ts' = length ts" using arg_cong [OF ids, of length] by simp
  have id: "td_TaskID (ts' ! k) = td_TaskID (ts ! k)" if "k < length ts" for k
    using arg_cong [OF ids, of "\<lambda>xs. xs ! k"] that len by simp
  have set: "td_TaskID ` set ts' = td_TaskID ` set ts" using arg_cong [OF ids, of set] by simp
  have inj: "td_TaskID (ts ! i) = td_TaskID (ts ! j) \<longleftrightarrow> i = j" if "i < length ts" "j < length ts" for i j
    using nth_eq_iff_index_eq [OF assms(5), of i j] that by simp
  have w: "length (td_Upstream (ts ! k)) \<le> 65536" "map (\<lambda>u. unat (up_PartitionIndex u)) (td_Upstream (ts ! k)) = [0..<length (td_Upstream (ts ! k))]"
      "up_TaskID ` set (td_Upstream (ts ! k)) \<subseteq> td_TaskID ` set ts" "dn_TaskID ` set (td_Downstream (ts ! k)) \<subseteq> td_TaskID ` set ts"
    if "k < length ts" for k using assms(4) that unfolding wired_nth by blast+
  have m: "sent (ts ! k) (td_TaskID (ts ! d)) = received (ts ! d) (td_TaskID (ts ! k))" if "k < length ts" "d < length ts" for k d
    using assms(4) that unfolding wired_nth by blast
  have part: "unat (of_nat (length (td_Upstream (ts ! dst))) :: u16) = length (td_Upstream (ts ! dst))"
    using e(2) by (simp add: unat_of_nat)
  show ?thesis unfolding wired_nth len set
  proof (intro allI impI conjI)
    fix k assume k: "k < length ts"
    obtain u where u: "up_TaskID u = td_TaskID (ts ! src)" "up_PartitionIndex u = of_nat (length (td_Upstream (ts ! dst)))"
      "td_Upstream (ts' ! k) = td_Upstream (ts ! k) @ (if k = dst then [u] else [])" using e(4) [OF k] by blast
    show "length (td_Upstream (ts' ! k)) \<le> 65536" using w(1) [OF k] e(2) u(3) by simp
    show "map (\<lambda>u. unat (up_PartitionIndex u)) (td_Upstream (ts' ! k)) = [0..<length (td_Upstream (ts' ! k))]"
      using w(2) [OF k] u part by simp
    show "up_TaskID ` set (td_Upstream (ts' ! k)) \<subseteq> td_TaskID ` set ts" using w(3) [OF k] u assms(2) by (cases "k = dst") simp_all
    show "dn_TaskID ` set (td_Downstream (ts' ! k)) \<subseteq> td_TaskID ` set ts" using w(4) [OF k] e(3) [OF k] assms(3) by (cases "k = src") simp_all
    fix d assume d: "d < length ts"
    obtain u where u: "up_TaskID u = td_TaskID (ts ! src)" "up_PartitionIndex u = of_nat (length (td_Upstream (ts ! dst)))"
      "td_Upstream (ts' ! d) = td_Upstream (ts ! d) @ (if d = dst then [u] else [])" using e(4) [OF d] by blast
    show "sent (ts' ! k) (td_TaskID (ts' ! d)) = received (ts' ! d) (td_TaskID (ts' ! k))"
      using m [OF k d] inj [OF k assms(2)] inj [OF d assms(3)] inj [OF assms(2) k] inj [OF assms(3) d] u e(3) [OF k] id [OF k] id [OF d] by simp
  qed
qed

text \<open>The loops over the pairs of subtasks and over the edges.\<close>

lemma mark_outputs_same:
  "map static (mark_outputs n is ts) = map static ts
   \<and> map td_Upstream (mark_outputs n is ts) = map td_Upstream ts \<and> map td_Downstream (mark_outputs n is ts) = map td_Downstream ts"
proof (induction "is" arbitrary: ts)
  case (Cons i "is")
  let ?ts = "ts[i := (ts ! i)\<lparr>td_OutputKeyGroups := n\<rparr>]"
  have "map static ?ts = map static ts" "map td_Upstream ?ts = map td_Upstream ts" "map td_Downstream ?ts = map td_Downstream ts"
    by (auto intro!: map_update_same simp: static_def)
  then show ?case using Cons.IH [of ?ts] by (simp add: mark_outputs_def)
qed (simp add: mark_outputs_def)

lemma map_nth_eq: "map f xs = map f ys \<Longrightarrow> k < length xs \<Longrightarrow> f (xs ! k) = f (ys ! k)"
  by (metis map_eq_imp_length_eq nth_map)

lemma wired_cong:
  assumes "map static ts' = map static ts" "map td_Upstream ts' = map td_Upstream ts" "map td_Downstream ts' = map td_Downstream ts" "wired ts"
  shows "wired ts'"
proof -
  have ids: "map td_TaskID ts' = map td_TaskID ts" by (rule static_ids [OF assms(1)])
  have len: "length ts' = length ts" using arg_cong [OF ids, of length] by simp
  have set: "td_TaskID ` set ts' = td_TaskID ` set ts" using arg_cong [OF ids, of set] by simp
  have nth: "td_TaskID (ts' ! k) = td_TaskID (ts ! k)" "td_Upstream (ts' ! k) = td_Upstream (ts ! k)" "td_Downstream (ts' ! k) = td_Downstream (ts ! k)"
    if "k < length ts" for k using that map_nth_eq [OF ids] map_nth_eq [OF assms(2)] map_nth_eq [OF assms(3)] len by simp_all
  show ?thesis using assms(4) unfolding wired_nth len set by (simp add: nth cong: conj_cong)
qed

lemma channel_pairs_in:
  "((si, src), (ti, dst)) \<in> set (channel_pairs forward sources targets) \<Longrightarrow> src \<in> set sources \<and> dst \<in> set targets"
  by (auto simp: channel_pairs_def in_set_enumerate_eq)

definition wiring :: "TaskDescriptor list \<Rightarrow> TaskDescriptor list \<Rightarrow> bool" where
  "wiring ts0 ts \<longleftrightarrow> map static ts = map static ts0 \<and> wired ts"

lemma wiring_connect:
  assumes "distinct (map td_TaskID ts0)" "wiring ts0 ts" "src < length ts0" "dst < length ts0" "connect ((si, src), (ti, dst)) ts = Inr ts'"
  shows "wiring ts0 ts'"
proof -
  have st: "map static ts = map static ts0" and w: "wired ts" using assms(2) by (simp_all add: wiring_def)
  have l: "length ts = length ts0" using arg_cong [OF st, of length] by simp
  have d: "distinct (map td_TaskID ts)" using assms(1) static_ids [OF st] by simp
  have b: "src < length ts" "dst < length ts" using assms(3,4) l by simp_all
  show ?thesis using connect_wired [OF assms(5) b w d] connect_effect(1) [OF assms(5) b] st by (simp add: wiring_def)
qed

lemma wiring_edge:
  assumes "distinct (map td_TaskID ts0)" "wiring ts0 ts" "wire_edge n ix m e (ts, b) = Inr (ts', b')"
    and "\<And>s. s = mget m (SourceOperatorID e) 0 \<or> s = mget m (TargetOperatorID e) 0 \<Longrightarrow> \<forall>i \<in> set (ix ! s). i < length ts0"
  shows "wiring ts0 ts'"
proof (cases "ts' = ts")
  case False
  let ?ss = "ix ! mget m (SourceOperatorID e) 0" and ?ds = "ix ! mget m (TargetOperatorID e) 0"
  obtain f ts1 where t: "try_fold connect (channel_pairs f ?ss ?ds) ts1 = Inr ts'" "ts1 = mark_outputs n ?ss ts \<or> ts1 = ts"
    using assms(3) False by (auto simp: wire_edge_def Let_def split: if_splits sum.splits)
  have w1: "wiring ts0 ts1"
  proof (cases "ts1 = ts")
    case False
    then show ?thesis using t(2) mark_outputs_same [of n ?ss ts] assms(2) wired_cong [of ts1 ts] by (auto simp: wiring_def)
  qed (simp add: assms(2))
  show ?thesis
  proof (rule try_fold_inv [where P = "wiring ts0", OF t(1) w1])
    fix x s s' assume x: "x \<in> set (channel_pairs f ?ss ?ds)" "wiring ts0 s" "connect x s = Inr s'"
    obtain si src ti dst where eq: "x = ((si, src), (ti, dst))" by (metis surj_pair)
    have "src \<in> set ?ss \<and> dst \<in> set ?ds" using channel_pairs_in x(1) unfolding eq by blast
    then have b: "src < length ts0" "dst < length ts0" using assms(4) by blast+
    show "wiring ts0 s'" by (rule wiring_connect [OF assms(1) x(2) b x(3) [unfolded eq]])
  qed
qed (use assms(2) in simp)

lemma buildPhysicalTasks_wiring:
  assumes "buildPhysicalTasks jobID graph p = Inr tasks"
  obtains n cs m where "planPhysicalChains graph p = Inr (cs, m)" "\<forall>c \<in> set cs. valid_kg n (pc_Parallelism c)"
    "wiring (concat (map (chain_tasks jobID n) cs)) tasks" "distinct (map chain_primary cs)" "\<forall>c \<in> set cs. pc_Operators c \<noteq> []"
proof -
  obtain n cs m ts ix b where c: "planPhysicalChains graph p = Inr (cs, m)" and l: "task_loop jobID n cs [] [] = Inr (ts, ix)"
    and w: "try_fold (wire_edge n ix m) (Edges graph) (ts, []) = Inr (tasks, b)"
    using assms by (auto simp: buildPhysicalTasks_def split: sum.splits prod.splits)
  note tl = task_loop_result [OF l]
  obtain out where s: "topoSortOperators graph = Inr out" "chain_inv (map normal_edge (Edges graph)) p out cs m"
    by (rule planPhysicalChains_inv [OF c])
  have ne: "\<forall>c \<in> set cs. pc_Operators c \<noteq> []" using s(2) by (auto simp: chain_inv_def chain_ok_def)
  have "mset (op_ids (concat (map pc_Operators cs))) = mset (op_ids out)" using s(2) unfolding chain_inv_def by (metis mset_map)
  then have "distinct (op_ids (concat (map pc_Operators cs)))" using topoSort_sound(2) [OF s(1)] by (metis mset_eq_imp_distinct_iff)
  then have dp: "distinct (map chain_primary cs)" using primaries_distinct ne by blast
  have d: "distinct (map td_TaskID ts)" using task_ids_distinct [OF dp] tl by simp
  have in_range: "\<forall>i \<in> set (ix ! mget m x 0). i < length ts" if x: "x \<in> set (op_ids out)" for x
  proof -
    obtain op where op: "op \<in> set out" "x = op_OperatorID op" using x by auto
    then obtain k where "k < length cs" "map_of m x = Some k" using s(2) unfolding chain_inv_def by blast
    moreover from this have "ix ! k \<in> set ix" using tl by simp
    ultimately show ?thesis using tl by (auto simp: mget_def)
  qed
  have "wiring ts (fst (tasks, b))"
  proof (rule try_fold_inv [OF w, where P = "\<lambda>s. wiring ts (fst s)"])
    show "wiring ts (fst (ts, []))" using tl by (auto simp: wiring_def wired_def chain_tasks_def chain_task_def zero_task_def)
    fix e s s' assume e: "e \<in> set (Edges graph)" "wiring ts (fst s)" "wire_edge n ix m e s = Inr s'"
    have "SourceOperatorID e \<in> set (op_ids out)" "TargetOperatorID e \<in> set (op_ids out)"
      using topoSort_sound(4) [OF s(1)] e(1) by (simp_all add: endpoints_known_def)
    then show "wiring ts (fst s')" using wiring_edge [OF d e(2), of n ix m e "snd s" "fst s'" "snd s'"] e(3) in_range by auto
  qed
  then show thesis using that [OF c, of n] tl dp ne by auto
qed

section \<open>Well-formed deployments\<close>

text \<open>The tasks after wiring, related to the tasks of the chains.\<close>

lemma static_origin:
  assumes "map static tasks = map static (concat (map (chain_tasks jobID n) cs))" "t \<in> set tasks"
  obtains c t0 where "c \<in> set cs" "t0 \<in> set (chain_tasks jobID n c)" "static t = static t0"
proof -
  have "static t \<in> set (map static (concat (map (chain_tasks jobID n) cs)))" using assms by (metis image_eqI list.set_map)
  then show thesis using that by auto
qed

lemma static_image:
  assumes "map static tasks = map static (concat (map (chain_tasks jobID n) cs))" "c \<in> set cs" "t0 \<in> set (chain_tasks jobID n c)"
  obtains t where "t \<in> set tasks" "static t = static t0"
proof -
  have "static t0 \<in> set (map static (concat (map (chain_tasks jobID n) cs)))" using assms(2,3) by auto
  then have "static t0 \<in> static ` set tasks" using assms(1) by (metis list.set_map)
  then show thesis using that by (metis imageE)
qed

lemma static_fields:
  assumes "static t = static t'"
  shows "td_TaskID t = td_TaskID t'" "td_OperatorID t = td_OperatorID t'" "td_NumKeyGroups t = td_NumKeyGroups t'"
    "owns t g \<longleftrightarrow> owns t' g" "task_ok t \<longleftrightarrow> task_ok t'"
  using assms by (simp_all add: static_def owns_def task_ok_def)

lemma chain_task_operator: "t \<in> set (chain_tasks jobID n c) \<Longrightarrow> td_OperatorID t = chain_primary c"
  by (auto simp: chain_tasks_def chain_task_def)

lemma static_task_ok:
  assumes "map static tasks = map static (concat (map (chain_tasks jobID n) cs))" "\<forall>c \<in> set cs. valid_kg n (pc_Parallelism c)"
    "\<forall>c \<in> set cs. pc_Operators c \<noteq> []" "t \<in> set tasks"
  shows "task_ok t"
proof -
  obtain c t0 where "c \<in> set cs" "t0 \<in> set (chain_tasks jobID n c)" "static t = static t0" by (rule static_origin [OF assms(1,4)])
  then show ?thesis using chain_tasks_ok assms(2,3) static_fields(5) by metis
qed

lemma key_owner:
  assumes st: "map static tasks = map static (concat (map (chain_tasks jobID n) cs))"
    and "\<forall>c \<in> set cs. valid_kg n (pc_Parallelism c)" "distinct (map chain_primary cs)" "\<forall>c \<in> set cs. pc_Operators c \<noteq> []"
    and "distinct (map td_TaskID tasks)" "t \<in> set tasks" "0 \<le> g" "g < td_NumKeyGroups t"
  shows "\<exists>!t'. t' \<in> set tasks \<and> td_OperatorID t' = td_OperatorID t \<and> owns t' g"
proof -
  obtain c t0 where c: "c \<in> set cs" "t0 \<in> set (chain_tasks jobID n c)" "static t = static t0" by (rule static_origin [OF st assms(6)])
  have v: "valid_kg n (pc_Parallelism c)" using assms(2) c(1) by blast
  have n: "td_NumKeyGroups t = n" using chain_tasks_ok [OF v c(2)] assms(4) c(1) static_fields(3) [OF c(3)] by simp
  have op: "td_OperatorID t = chain_primary c" using static_fields(2) [OF c(3)] chain_task_operator [OF c(2)] by simp
  obtain w where w: "w \<in> set (chain_tasks jobID n c)" "owns w g" "\<And>w'. w' \<in> set (chain_tasks jobID n c) \<and> owns w' g \<Longrightarrow> w' = w"
  proof -
    have "\<exists>!t. t \<in> set (chain_tasks jobID n c) \<and> owns t g" by (rule chain_tasks_partition [OF v assms(7)]) (use assms(8) n in simp)
    then show thesis by (elim ex1E conjE) (rule that, blast+)
  qed
  obtain t' where t': "t' \<in> set tasks" "static t' = static w" by (rule static_image [OF st c(1) w(1)])
  show ?thesis
  proof (rule ex1I [of _ t'])
    show "t' \<in> set tasks \<and> td_OperatorID t' = td_OperatorID t \<and> owns t' g"
      using t' w(2) op static_fields [OF t'(2)] chain_task_operator [OF w(1)] by simp
    fix t2 assume t2: "t2 \<in> set tasks \<and> td_OperatorID t2 = td_OperatorID t \<and> owns t2 g"
    then obtain c2 s2 where c2: "c2 \<in> set cs" "s2 \<in> set (chain_tasks jobID n c2)" "static t2 = static s2" using static_origin [OF st] by metis
    have "chain_primary c2 = chain_primary c" using t2 op static_fields(2) [OF c2(3)] chain_task_operator [OF c2(2)] by simp
    then have "c2 = c" using assms(3) c(1) c2(1) by (auto simp: distinct_map dest: inj_onD)
    then have "s2 = w" using w(3) [of s2] c2(2) t2 static_fields(4) [OF c2(3)] by simp
    then have "td_TaskID t2 = td_TaskID t'" using static_fields(1) [OF c2(3)] static_fields(1) [OF t'(2)] by simp
    then show "t2 = t'" using assms(5) t2 t'(1) by (auto simp: distinct_map dest: inj_onD)
  qed
qed

text \<open>C38. The tasks of a job are well-formed. Task IDs are unique. Every task has a subtask index below its
  parallelism, a non-empty operator chain with its own operator in it and a range of key groups
  within bounds; and among the tasks of an operator every key group is owned by exactly one.\<close>

theorem physical_tasks_well_formed:
  assumes "buildPhysicalTasks jobID graph p = Inr tasks"
  shows "distinct (map td_TaskID tasks)
    \<and> (\<forall>t \<in> set tasks. task_ok t \<and> (\<forall>g. 0 \<le> g \<and> g < td_NumKeyGroups t \<longrightarrow>
         (\<exists>!t'. t' \<in> set tasks \<and> td_OperatorID t' = td_OperatorID t \<and> owns t' g)))"
proof -
  obtain n cs m where c: "\<forall>c \<in> set cs. valid_kg n (pc_Parallelism c)" "wiring (concat (map (chain_tasks jobID n) cs)) tasks"
    "distinct (map chain_primary cs)" "\<forall>c \<in> set cs. pc_Operators c \<noteq> []"
    by (rule buildPhysicalTasks_wiring [OF assms])
  have st: "map static tasks = map static (concat (map (chain_tasks jobID n) cs))" using c(2) by (simp add: wiring_def)
  have d: "distinct (map td_TaskID tasks)" using static_ids [OF st] task_ids_distinct [OF c(3)] by simp
  have "\<exists>!t'. t' \<in> set tasks \<and> td_OperatorID t' = td_OperatorID t \<and> owns t' g"
    if t: "t \<in> set tasks" "0 \<le> g" "g < td_NumKeyGroups t" for t g
    using key_owner [OF st c(1,3,4) d t] .
  then show ?thesis using d static_task_ok [OF st c(1,4)] by blast
qed

definition example_tasks :: "TaskDescriptor list" where
  "example_tasks = (case buildPhysicalTasks ''j'' example_graph 2 of Inr tasks \<Rightarrow> tasks | Inl _ \<Rightarrow> [])"

lemma chain_task_channels [simp]: "td_Upstream (chain_task jobID n c i r) = []" "td_Downstream (chain_task jobID n c i r) = []"
  by (simp_all add: chain_task_def zero_task_def)

lemma example_built: "buildPhysicalTasks ''j'' example_graph 2 = Inr example_tasks \<and> length example_tasks = 4"
proof -
  have v: "valid_kg 4 2" by (simp add: valid_kg_def kg_Validate_def MinKeyGroups_def MaxKeyGroups_def)
  have g: "validateGraphKeyGroups example_graph 2 = Inr 4"
    by (simp add: validateGraphKeyGroups_def example_graph_def zero_operator_def v [unfolded valid_kg_def])
  have "case buildPhysicalTasks ''j'' example_graph 2 of Inr tasks \<Rightarrow> length tasks = 4 | Inl _ \<Rightarrow> False"
    by (simp add: buildPhysicalTasks_def g example_chains AllTaskRanges_eq [OF v])
      (simp add: example_graph_def wire_edge_def normal_edge_def mget_def numeral_2_eq_2 mark_outputs_def channel_pairs_def
        add_input_def add_output_def)
  then show ?thesis by (simp add: example_tasks_def split: sum.splits)
qed

theorem physical_tasks_well_formed_witness:
  "distinct (map td_TaskID example_tasks) \<and> example_tasks \<noteq> []"
  using physical_tasks_well_formed [OF conjunct1 [OF example_built]] example_built by auto

text \<open>C39. The two ends of the channels agree: the inputs of every task are numbered from zero without
  gaps and fit the partition field, both ends of a channel name tasks of the job, and the
  partitions that a task sends to another are, in order, those that the other receives from it.\<close>

theorem channels_agree:
  assumes "buildPhysicalTasks jobID graph p = Inr tasks"
  shows "wired tasks"
  by (rule buildPhysicalTasks_wiring [OF assms]) (simp add: wiring_def)

theorem channels_agree_witness: "wired example_tasks \<and> length example_tasks = 4"
  using channels_agree [OF conjunct1 [OF example_built]] example_built by simp

end
