(* ===== verification/Rescale_Plan.thy ===== *)
theory Rescale_Plan
  imports Job_Tasks
begin

text \<open>The redistribution of state when the parallelism of a job changes
  (\<^verbatim>\<open>internal/coordinator/rescale_plan.go\<close>) and the choice of the operators that keep their
  parallelism (\<^verbatim>\<open>rescale_manager.go\<close>, \<^verbatim>\<open>forwardBoundaryParallelism\<close>). Ranges of key groups are
  inclusive, as in the RPC messages.\<close>

section \<open>The plan\<close>

text \<open>Operators may differ in their parallelism only. \<^verbatim>\<open>reflect.DeepEqual\<close> also tells a nil slice from
  an empty one, which the lists here do not, so the code refuses some pairs that are accepted here.\<close>

definition sameRescaleChain :: "OperatorDescriptor list \<Rightarrow> OperatorDescriptor list \<Rightarrow> bool" where
  "sameRescaleChain left right =
     list_all2 (\<lambda>a b. a\<lparr>op_Parallelism := 0\<rparr> = b\<lparr>op_Parallelism := 0\<rparr>) left right"

definition in_groups :: "int \<Rightarrow> TaskDescriptor \<Rightarrow> bool" where
  "in_groups n task \<longleftrightarrow> 0 \<le> kg_Start (td_KeyGroup task) \<and> kg_Start (td_KeyGroup task) \<le> kg_End (td_KeyGroup task)
     \<and> kg_End (td_KeyGroup task) < n"

definition source_ok :: "CheckpointMeta \<Rightarrow> TaskDescriptor \<Rightarrow> bool" where
  "source_ok cp task \<longleftrightarrow> td_NumKeyGroups task = cp_NumKeyGroups cp \<and> in_groups (cp_NumKeyGroups cp) task
     \<and> mget (cp_Tasks cp) (td_TaskID task) [] \<noteq> [] \<and> mget (cp_Replicas cp) (td_TaskID task) [] \<noteq> []
     \<and> mget (StatePaths cp) (td_TaskID task) [] = mget (cp_Replicas cp) (td_TaskID task) []"

fun source_loop ::
  "CheckpointMeta \<Rightarrow> TaskDescriptor list \<Rightarrow> string list \<Rightarrow> (string, TaskDescriptor list) gomap \<Rightarrow>
     coord_error + (string, TaskDescriptor list) gomap" where
  "source_loop cp [] seen byOperator = Inr byOperator"
| "source_loop cp (task # tasks) seen byOperator =
     (if td_TaskID task = [] \<or> td_TaskID task \<in> set seen then Inl ErrOther
      else if \<not> source_ok cp task then Inl ErrOther
      else source_loop cp tasks (td_TaskID task # seen)
             (AList.update (td_OperatorID task) (mget byOperator (td_OperatorID task) [] @ [task]) byOperator))"

definition by_start :: "TaskDescriptor list \<Rightarrow> TaskDescriptor list" where
  "by_start tasks = sort_key (\<lambda>task. kg_Start (td_KeyGroup task)) tasks"

text \<open>The ranges of an operator must follow each other from zero to the number of key groups, and
  its tasks must run the expected chain.\<close>

fun cover_loop :: "OperatorDescriptor list \<Rightarrow> TaskDescriptor list \<Rightarrow> int \<Rightarrow> int option" where
  "cover_loop chain [] next = Some next"
| "cover_loop chain (task # tasks) next =
     (if kg_Start (td_KeyGroup task) \<noteq> next \<or> \<not> sameRescaleChain chain (td_OperatorChain task) then None
      else cover_loop chain tasks (to_int32 (kg_End (td_KeyGroup task) + 1)))"

definition sources_cover :: "CheckpointMeta \<Rightarrow> TaskDescriptor list \<Rightarrow> bool" where
  "sources_cover cp tasks = (cover_loop (td_OperatorChain (tasks ! 0)) tasks 0 = Some (cp_NumKeyGroups cp))"

definition targets_cover :: "CheckpointMeta \<Rightarrow> TaskDescriptor list \<Rightarrow> TaskDescriptor list \<Rightarrow> bool" where
  "targets_cover cp sources targets =
     (sources \<noteq> [] \<and> cover_loop (td_OperatorChain (sources ! 0)) targets 0 = Some (cp_NumKeyGroups cp))"

text \<open>The parts of one target, in the order of the sources.\<close>

definition state_part :: "CheckpointMeta \<Rightarrow> TaskDescriptor \<Rightarrow> TaskDescriptor \<Rightarrow> RescaleStatePart" where
  "state_part cp target source =
     \<lparr>rsp_ArchiveSHA256 = [], rsp_ArchiveSize = 0, rsp_SourceTaskID = td_TaskID source,
      rsp_ReplicaAddress = mget (cp_Replicas cp) (td_TaskID source) [],
      rsp_Groups = \<lparr>kg_Start = max (kg_Start (td_KeyGroup source)) (kg_Start (td_KeyGroup target)),
                    kg_End = min (kg_End (td_KeyGroup source)) (kg_End (td_KeyGroup target))\<rparr>\<rparr>"

fun part_loop ::
  "CheckpointMeta \<Rightarrow> TaskDescriptor \<Rightarrow> TaskDescriptor list \<Rightarrow> int \<Rightarrow> RescaleStatePart list \<Rightarrow>
     coord_error + int \<times> RescaleStatePart list" where
  "part_loop cp target [] next parts = Inr (next, parts)"
| "part_loop cp target (source # sources) next parts =
     (let part = state_part cp target source in
      if kg_Start (rsp_Groups part) > kg_End (rsp_Groups part) then part_loop cp target sources next parts
      else if kg_Start (rsp_Groups part) \<noteq> next then Inl ErrOther
      else part_loop cp target sources (to_int32 (kg_End (rsp_Groups part) + 1)) (parts @ [part]))"

fun target_loop ::
  "CheckpointMeta \<Rightarrow> (string, TaskDescriptor list) gomap \<Rightarrow> TaskDescriptor list \<Rightarrow> (string, RescaleStatePart list) gomap \<Rightarrow>
     coord_error + (string, RescaleStatePart list) gomap" where
  "target_loop cp oldByOperator [] result = Inr result"
| "target_loop cp oldByOperator (target # targets) result =
     (if td_NumKeyGroups target \<noteq> cp_NumKeyGroups cp then Inl ErrOther
      else if map_of result (td_TaskID target) \<noteq> None then Inl ErrOther
      else if \<not> in_groups (cp_NumKeyGroups cp) target then Inl ErrOther
      else
        (case part_loop cp target (mget oldByOperator (td_OperatorID target) []) (kg_Start (td_KeyGroup target)) [] of
           Inl e \<Rightarrow> Inl e
         | Inr (next, parts) \<Rightarrow>
             if next \<noteq> to_int32 (kg_End (td_KeyGroup target) + 1) then Inl ErrOther
             else target_loop cp oldByOperator targets
                    (if parts = [] then result else AList.update (td_TaskID target) parts result)))"

definition planRescaleState ::
  "CheckpointMeta \<Rightarrow> TaskDescriptor list \<Rightarrow> TaskDescriptor list \<Rightarrow> coord_error + (string, RescaleStatePart list) gomap" where
  "planRescaleState cp oldTasks newTasks =
     (if cp_Status cp \<noteq> CheckpointCompleted \<or> cp_NumKeyGroups cp < 1 then Inl ErrOther
      else if kg_Validate \<lparr>NumKeyGroups = cp_NumKeyGroups cp, Parallelism = 1\<rparr> \<noteq> None then Inl ErrOther
      else if oldTasks = [] \<or> length oldTasks \<noteq> length (cp_Tasks cp) then Inl ErrOther
      else
        (case source_loop cp oldTasks [] [] of
           Inl e \<Rightarrow> Inl e
         | Inr grouped \<Rightarrow>
             let oldByOperator = map (\<lambda>(operator, tasks). (operator, by_start tasks)) grouped;
                 targetByOperator = group_by td_OperatorID newTasks in
             if \<exists>(_, tasks) \<in> set oldByOperator. \<not> sources_cover cp tasks then Inl ErrOther
             else if length targetByOperator \<noteq> length oldByOperator then Inl ErrOther
             else if \<exists>(operator, targets) \<in> set targetByOperator. \<not> targets_cover cp (mget oldByOperator operator []) (by_start targets)
             then Inl ErrOther
             else target_loop cp oldByOperator newTasks []))"

section \<open>Operators that keep their parallelism\<close>

definition add_neighbor :: "string \<Rightarrow> string \<Rightarrow> (string, string list) gomap \<Rightarrow> (string, string list) gomap" where
  "add_neighbor a b m = AList.update a (mget m a [] @ [b]) m"

definition forward_neighbors :: "EdgeDescriptor list \<Rightarrow> (string, string list) gomap" where
  "forward_neighbors edges =
     fold (\<lambda>edge m.
        if Shuffle edge = ShuffleStrategyForward
        then add_neighbor (TargetOperatorID edge) (SourceOperatorID edge)
               (add_neighbor (SourceOperatorID edge) (TargetOperatorID edge) m)
        else m) edges []"

fun boundary_loop ::
  "int \<Rightarrow> OperatorDescriptor list \<Rightarrow> (string, int) gomap \<Rightarrow> string list \<Rightarrow> (string, int) gomap \<times> string list" where
  "boundary_loop defaultParallelism [] pinned pending = (pinned, pending)"
| "boundary_loop defaultParallelism (op # ops) pinned pending =
     (if op_Type op = OperatorTypeSource \<or> op_Type op = OperatorTypeSink
      then boundary_loop defaultParallelism ops
             (AList.update (op_OperatorID op)
                (if op_Parallelism op = 0 then to_int32 defaultParallelism else op_Parallelism op) pinned)
             (pending @ [op_OperatorID op])
      else boundary_loop defaultParallelism ops pinned pending)"

fun pin_neighbors :: "int \<Rightarrow> string list \<Rightarrow> (string, int) gomap \<Rightarrow> string list \<Rightarrow> (string, int) gomap \<times> string list" where
  "pin_neighbors p [] pinned pending = (pinned, pending)"
| "pin_neighbors p (n # ns) pinned pending =
     (if map_of pinned n \<noteq> None then pin_neighbors p ns pinned pending
      else pin_neighbors p ns (AList.update n p pinned) (pending @ [n]))"

text \<open>Every operator is pinned at most once, so the search ends.\<close>

definition unpinned :: "(string, string list) gomap \<Rightarrow> (string, int) gomap \<Rightarrow> nat" where
  "unpinned neighbors pinned = card ((\<Union>x \<in> set neighbors. set (snd x)) - dom (map_of pinned))"

lemma pin_neighbors_result:
  assumes "pin_neighbors p ns pinned pending = (pinned', pending')"
  shows "dom (map_of pinned') = dom (map_of pinned) \<union> set ns
    \<and> (set ns \<subseteq> dom (map_of pinned) \<longrightarrow> pending' = pending \<and> pinned' = pinned)"
  using assms
proof (induction ns arbitrary: pinned pending)
  case (Cons n ns)
  show ?case
  proof (cases "map_of pinned n")
    case None
    then show ?thesis using Cons.IH [of "AList.update n p pinned" "pending @ [n]"] Cons.prems
      by (auto simp: update_conv')
  next
    case (Some v)
    then show ?thesis using Cons.IH [of pinned pending] Cons.prems by auto
  qed
qed simp

lemma mget_subset: "set (mget neighbors i []) \<subseteq> (\<Union>x \<in> set neighbors. set (snd x))"
  by (cases "map_of neighbors i") (force simp: mget_def dest: map_of_SomeD)+

function pin_loop :: "(string, string list) gomap \<Rightarrow> (string, int) gomap \<Rightarrow> string list \<Rightarrow> (string, int) gomap" where
  "pin_loop neighbors pinned [] = pinned"
| "pin_loop neighbors pinned (i # pending) =
     (case pin_neighbors (mget pinned i 0) (mget neighbors i []) pinned pending of
        (pinned', pending') \<Rightarrow> pin_loop neighbors pinned' pending')"
  by pat_completeness auto
termination
proof (relation "measures [\<lambda>(neighbors, pinned, _). unpinned neighbors pinned, \<lambda>(_, _, pending). length pending]", simp)
  fix neighbors :: "(string, string list) gomap" and pinned i pending pinned' pending'
  assume x: "(pinned', pending') = pin_neighbors (mget pinned i 0) (mget neighbors i []) pinned pending"
  let ?N = "\<Union>x \<in> set neighbors. set (snd x)" and ?ns = "set (mget neighbors i [])"
  have r: "dom (map_of pinned') = dom (map_of pinned) \<union> ?ns
      \<and> (?ns \<subseteq> dom (map_of pinned) \<longrightarrow> pending' = pending \<and> pinned' = pinned)"
    using pin_neighbors_result [of "mget pinned i 0" "mget neighbors i []" pinned pending pinned' pending'] x by simp
  show "((neighbors, pinned', pending'), neighbors, pinned, i # pending)
      \<in> measures [\<lambda>(neighbors, pinned, _). unpinned neighbors pinned, \<lambda>(_, _, pending). length pending]"
  proof (cases "?ns \<subseteq> dom (map_of pinned)")
    case False
    then have "?N - dom (map_of pinned') \<subset> ?N - dom (map_of pinned)" using r mget_subset [of neighbors i] by auto
    then have "unpinned neighbors pinned' < unpinned neighbors pinned" unfolding unpinned_def by (intro psubset_card_mono) auto
    then show ?thesis by simp
  qed (use r in simp)
qed

definition forwardBoundaryParallelism :: "JobGraph \<Rightarrow> int \<Rightarrow> (string, int) gomap" where
  "forwardBoundaryParallelism graph defaultParallelism =
     (case boundary_loop defaultParallelism (Operators graph) [] [] of
        (pinned, pending) \<Rightarrow> pin_loop (forward_neighbors (Edges graph)) pinned pending)"

section \<open>The plan moves every key group exactly once\<close>

subsection \<open>Grouping\<close>

lemma group_fold_keys:
  "distinct (map fst m) \<Longrightarrow> distinct (map fst (fold (\<lambda>x m. AList.update (key x) (mget m (key x) [] @ [x]) m) xs m))
   \<and> fst ` set (fold (\<lambda>x m. AList.update (key x) (mget m (key x) [] @ [x]) m) xs m) = fst ` set m \<union> key ` set xs"
proof (induction xs arbitrary: m)
  case (Cons x xs)
  have "dom (map_of (AList.update (key x) (mget m (key x) [] @ [x]) m)) = insert (key x) (dom (map_of m))"
    by (auto simp: update_conv')
  then have "fst ` set (AList.update (key x) (mget m (key x) [] @ [x]) m) = insert (key x) (fst ` set m)"
    by (simp add: dom_map_of_conv_image_fst)
  then show ?case using Cons.IH [of "AList.update (key x) (mget m (key x) [] @ [x]) m"] Cons.prems by simp
qed simp

lemma group_by_keys: "distinct (map fst (group_by key xs))" "fst ` set (group_by key xs) = key ` set xs"
  using group_fold_keys [of "[]" key xs] by (simp_all add: group_by_def)

lemma group_by_entry:
  assumes "(k, ys) \<in> set (group_by key xs)"
  shows "ys = filter (\<lambda>x. key x = k) xs"
  using mget_group_by [of key xs k] map_of_is_SomeI [OF group_by_keys(1) assms] by (simp add: mget_def)

lemma group_by_mem: "x \<in> set xs \<Longrightarrow> (key x, filter (\<lambda>y. key y = key x) xs) \<in> set (group_by key xs)"
proof -
  assume "x \<in> set xs"
  then have "key x \<in> fst ` set (group_by key xs)" by (simp add: group_by_keys(2))
  then obtain ys where "(key x, ys) \<in> set (group_by key xs)" by auto
  then show ?thesis using group_by_entry by fastforce
qed

lemma mget_map_snd: "f [] = [] \<Longrightarrow> mget (map (\<lambda>(k, v). (k, f v)) m) k [] = f (mget m k [])"
  by (induction m) (auto simp: mget_def)

lemma by_start_set [simp]: "set (by_start ts) = set ts" "mset (by_start ts) = mset ts" "by_start [] = []"
  by (simp_all add: by_start_def)

subsection \<open>Ranges that follow each other\<close>

fun tiles :: "TaskDescriptor list \<Rightarrow> int \<Rightarrow> int \<Rightarrow> bool" where
  "tiles [] a b \<longleftrightarrow> a = b"
| "tiles (t # ts) a b \<longleftrightarrow> kg_Start (td_KeyGroup t) = a \<and> tiles ts (kg_End (td_KeyGroup t) + 1) b"

lemma cover_loop_tiles:
  assumes "cover_loop chain ts a = Some b" "\<forall>t \<in> set ts. in_groups n t" "n \<le> 32768"
  shows "tiles ts a b"
  using assms
proof (induction ts arbitrary: a)
  case (Cons t ts)
  have "to_int32 (kg_End (td_KeyGroup t) + 1) = kg_End (td_KeyGroup t) + 1"
    using Cons.prems(2,3) by (intro to_int32_small) (auto simp: in_groups_def)
  then show ?case using Cons by (auto split: if_splits)
qed simp

lemma tiles_owner:
  assumes "tiles ts a b" "\<forall>t \<in> set ts. in_groups n t"
  shows "(g < a \<longrightarrow> filter (\<lambda>t. owns t g) ts = []) \<and> (a \<le> g \<and> g < b \<longrightarrow> (\<exists>t. filter (\<lambda>t. owns t g) ts = [t]))"
  using assms
proof (induction ts arbitrary: a)
  case (Cons t ts)
  let ?e = "kg_End (td_KeyGroup t)"
  have t: "a \<le> ?e" "owns t g \<longleftrightarrow> a \<le> g \<and> g \<le> ?e" using Cons.prems by (auto simp: in_groups_def owns_def)
  have "(g < ?e + 1 \<longrightarrow> filter (\<lambda>t. owns t g) ts = []) \<and> (?e + 1 \<le> g \<and> g < b \<longrightarrow> (\<exists>t. filter (\<lambda>t. owns t g) ts = [t]))"
    using Cons.prems by (intro Cons.IH) auto
  then show ?case using t by (cases "g \<le> ?e") auto
qed simp

lemma filter_singleton_mset:
  assumes "filter P xs = [x]" "mset xs = mset ys"
  shows "filter P ys = [x]"
proof -
  have "mset (filter P ys) = {#x#}" using assms by (metis mset_filter mset_single_iff_right)
  then show ?thesis by (rule mset_single_iff [THEN iffD1])
qed

text \<open>The owner of a key group among the tasks of an operator.\<close>

lemma cover_owner:
  assumes "cover_loop chain (by_start (filter (\<lambda>t. td_OperatorID t = o') ts)) 0 = Some n" "\<forall>t \<in> set ts. in_groups n t" "n \<le> 32768" "0 \<le> g" "g < n"
  shows "\<exists>t. filter (\<lambda>t. td_OperatorID t = o' \<and> owns t g) ts = [t]"
proof -
  let ?ts = "filter (\<lambda>t. td_OperatorID t = o') ts"
  have "tiles (by_start ?ts) 0 n" by (rule cover_loop_tiles [OF assms(1) _ assms(3)]) (use assms(2) in auto)
  then obtain t where "filter (\<lambda>t. owns t g) (by_start ?ts) = [t]"
    using tiles_owner [of "by_start ?ts" 0 n n g] assms(2,4,5) by auto
  then have "filter (\<lambda>t. owns t g) ?ts = [t]" by (rule filter_singleton_mset) simp
  then show ?thesis by (auto simp: conj_commute)
qed

subsection \<open>The loops of the plan\<close>

lemma source_loop_result:
  assumes "source_loop cp ts seen m = Inr m'"
  shows "m' = fold (\<lambda>x m. AList.update (td_OperatorID x) (mget m (td_OperatorID x) [] @ [x]) m) ts m
    \<and> (\<forall>t \<in> set ts. source_ok cp t) \<and> distinct (map td_TaskID ts) \<and> set (map td_TaskID ts) \<inter> set seen = {}"
  using assms
proof (induction cp ts seen m rule: source_loop.induct)
  case (2 cp task tasks seen m)
  then show ?case by (auto split: if_splits)
qed simp

definition covers :: "RescaleStatePart \<Rightarrow> int \<Rightarrow> bool" where
  "covers part g \<longleftrightarrow> kg_Start (rsp_Groups part) \<le> g \<and> g \<le> kg_End (rsp_Groups part)"

lemma covers_state_part: "covers (state_part cp t s) g \<longleftrightarrow> owns t g \<and> owns s g"
  by (auto simp: covers_def state_part_def owns_def)

abbreviation overlapping :: "CheckpointMeta \<Rightarrow> TaskDescriptor \<Rightarrow> TaskDescriptor \<Rightarrow> bool" where
  "overlapping cp t s \<equiv> kg_Start (rsp_Groups (state_part cp t s)) \<le> kg_End (rsp_Groups (state_part cp t s))"

lemma part_loop_result:
  "part_loop cp t sources next parts = Inr (next', parts')
   \<Longrightarrow> parts' = parts @ map (state_part cp t) (filter (overlapping cp t) sources) \<and> (parts' = parts \<longrightarrow> next' = next)"
proof (induction cp t sources "next" parts rule: part_loop.induct)
  case (2 cp t s sources "next" parts)
  then show ?case by (auto simp: Let_def split: if_splits)
qed simp

lemma target_loop_result:
  assumes "target_loop cp old targets plan = Inr plan'" "cp_NumKeyGroups cp \<le> 32768"
  shows "(\<forall>i v. map_of plan i = Some v \<longrightarrow> map_of plan' i = Some v)
    \<and> (\<forall>t \<in> set targets. in_groups (cp_NumKeyGroups cp) t
         \<and> map_of plan' (td_TaskID t) = Some (map (state_part cp t) (filter (overlapping cp t) (mget old (td_OperatorID t) []))))"
  using assms
proof (induction cp old targets plan rule: target_loop.induct)
  case (2 cp old t targets plan)
  let ?parts = "map (state_part cp t) (filter (overlapping cp t) (mget old (td_OperatorID t) []))"
  obtain nx parts where p: "part_loop cp t (mget old (td_OperatorID t) []) (kg_Start (td_KeyGroup t)) [] = Inr (nx, parts)"
    and g: "in_groups (cp_NumKeyGroups cp) t" "map_of plan (td_TaskID t) = None" "nx = to_int32 (kg_End (td_KeyGroup t) + 1)"
    and rest: "target_loop cp old targets (if parts = [] then plan else AList.update (td_TaskID t) parts plan) = Inr plan'"
    and n: "td_NumKeyGroups t = cp_NumKeyGroups cp"
    using "2.prems"(1) by (auto split: if_splits sum.splits)
  have parts: "parts = ?parts" "parts = [] \<longrightarrow> nx = kg_Start (td_KeyGroup t)" using part_loop_result [OF p] by simp_all
  have "nx = kg_End (td_KeyGroup t) + 1" unfolding g(3) using g(1) "2.prems"(2) by (intro to_int32_small) (auto simp: in_groups_def)
  then have ne: "parts \<noteq> []" using parts(2) g(1) by (auto simp: in_groups_def)
  have IH: "(\<forall>i v. map_of (AList.update (td_TaskID t) parts plan) i = Some v \<longrightarrow> map_of plan' i = Some v)
      \<and> (\<forall>t \<in> set targets. in_groups (cp_NumKeyGroups cp) t
         \<and> map_of plan' (td_TaskID t) = Some (map (state_part cp t) (filter (overlapping cp t) (mget old (td_OperatorID t) []))))"
    using "2.IH" [of "(nx, parts)" nx parts] p g n rest ne "2.prems"(2) by simp
  have "map_of plan' i = Some v" if "map_of plan i = Some v" for i v
    using IH that g(2) by (cases "i = td_TaskID t") (auto simp: update_conv')
  moreover have "map_of plan' (td_TaskID t) = Some ?parts" using IH parts(1) by (simp add: update_conv')
  ultimately show ?case using IH g(1) by simp
qed simp

lemma plan_result:
  assumes "planRescaleState cp old new = Inr plan"
  shows "cp_NumKeyGroups cp \<le> 32768" "\<forall>s \<in> set old. source_ok cp s" "distinct (map td_TaskID old)"
    and "\<forall>t \<in> set new. in_groups (cp_NumKeyGroups cp) t \<and> map_of plan (td_TaskID t)
      = Some (map (state_part cp t) (filter (overlapping cp t) (by_start (filter (\<lambda>s. td_OperatorID s = td_OperatorID t) old))))"
    and "\<forall>s \<in> set old. \<exists>chain. cover_loop chain (by_start (filter (\<lambda>t. td_OperatorID t = td_OperatorID s) old)) 0 = Some (cp_NumKeyGroups cp)"
    and "\<forall>s \<in> set old. \<exists>chain. cover_loop chain (by_start (filter (\<lambda>t. td_OperatorID t = td_OperatorID s) new)) 0 = Some (cp_NumKeyGroups cp)"
proof -
  let ?old = "map (\<lambda>(operator, tasks). (operator, by_start tasks)) (group_by td_OperatorID old)"
  let ?new = "group_by td_OperatorID new"
  obtain grouped where k: "kg_Validate \<lparr>NumKeyGroups = cp_NumKeyGroups cp, Parallelism = 1\<rparr> = None"
    and s: "source_loop cp old [] [] = Inr grouped"
    using assms by (auto simp: planRescaleState_def split: if_splits sum.splits)
  note sl = source_loop_result [OF s]
  have grouped: "grouped = group_by td_OperatorID old" using sl by (simp add: group_by_def)
  have rest: "\<forall>(_, tasks) \<in> set ?old. sources_cover cp tasks" "length ?new = length ?old"
    "\<forall>(operator, targets) \<in> set ?new. targets_cover cp (mget ?old operator []) (by_start targets)" "target_loop cp ?old new [] = Inr plan"
    using assms s unfolding planRescaleState_def grouped by (auto simp: Let_def split: if_splits)
  show n: "cp_NumKeyGroups cp \<le> 32768" using valid_kg_bounds(2) [of "cp_NumKeyGroups cp" 1] k by (simp add: valid_kg_def)
  show "\<forall>s \<in> set old. source_ok cp s" "distinct (map td_TaskID old)" using sl by blast+
  have m: "mget ?old i [] = by_start (filter (\<lambda>s. td_OperatorID s = i) old)" for i by (simp add: mget_map_snd)
  show "\<forall>t \<in> set new. in_groups (cp_NumKeyGroups cp) t \<and> map_of plan (td_TaskID t)
      = Some (map (state_part cp t) (filter (overlapping cp t) (by_start (filter (\<lambda>s. td_OperatorID s = td_OperatorID t) old))))"
    using target_loop_result [OF rest(4) n] unfolding m by blast
  show "\<forall>s \<in> set old. \<exists>chain. cover_loop chain (by_start (filter (\<lambda>t. td_OperatorID t = td_OperatorID s) old)) 0 = Some (cp_NumKeyGroups cp)"
    using rest(1) group_by_mem [of _ old td_OperatorID] unfolding sources_cover_def by fastforce
  have "td_OperatorID ` set new \<subseteq> td_OperatorID ` set old"
  proof
    fix i assume "i \<in> td_OperatorID ` set new"
    then obtain ts where "(i, ts) \<in> set ?new" by (metis group_by_mem imageE)
    then have "filter (\<lambda>s. td_OperatorID s = i) old \<noteq> []" using rest(3) unfolding targets_cover_def m by (auto simp: by_start_def)
    then show "i \<in> td_OperatorID ` set old" by (auto simp: filter_empty_conv)
  qed
  moreover have "card (td_OperatorID ` set new) = card (td_OperatorID ` set old)"
    using rest(2) distinct_card [OF group_by_keys(1), of td_OperatorID new] distinct_card [OF group_by_keys(1), of td_OperatorID old]
    by (simp add: group_by_keys(2))
  ultimately have eq: "td_OperatorID ` set new = td_OperatorID ` set old" by (intro card_seteq) simp_all
  show "\<forall>s \<in> set old. \<exists>chain. cover_loop chain (by_start (filter (\<lambda>t. td_OperatorID t = td_OperatorID s) new)) 0 = Some (cp_NumKeyGroups cp)"
  proof
    fix s assume "s \<in> set old"
    then obtain t where "t \<in> set new" "td_OperatorID t = td_OperatorID s" using eq by (metis imageE imageI)
    then have "(td_OperatorID s, filter (\<lambda>t. td_OperatorID t = td_OperatorID s) new) \<in> set ?new" using group_by_mem by metis
    then show "\<exists>chain. cover_loop chain (by_start (filter (\<lambda>t. td_OperatorID t = td_OperatorID s) new)) 0 = Some (cp_NumKeyGroups cp)"
      using rest(3) unfolding targets_cover_def by blast
  qed
qed

subsection \<open>Exactness\<close>

text \<open>C6. A rescale plan moves every key group exactly once. A key group that an old task of an
  operator owns is owned by exactly one new task of that operator; exactly one part of that task's
  plan holds the key group, and this part is fetched from the old owner's completed replica.
  Conversely a part holds only key groups that both its source and its target own.\<close>

theorem rescale_plan_exact:
  assumes "planRescaleState cp old new = Inr plan"
  shows "(\<forall>s \<in> set old. \<forall>g. owns s g \<longrightarrow>
      (\<exists>t part. filter (\<lambda>t. td_OperatorID t = td_OperatorID s \<and> owns t g) new = [t]
         \<and> filter (\<lambda>p. covers p g) (mget plan (td_TaskID t) []) = [part]
         \<and> rsp_SourceTaskID part = td_TaskID s \<and> rsp_ReplicaAddress part = mget (StatePaths cp) (td_TaskID s) []))
    \<and> (\<forall>t \<in> set new. \<forall>part \<in> set (mget plan (td_TaskID t) []). \<exists>s \<in> set old.
         rsp_SourceTaskID part = td_TaskID s \<and> td_OperatorID s = td_OperatorID t \<and> (\<forall>g. covers part g \<longleftrightarrow> owns s g \<and> owns t g))"
proof (intro conjI ballI allI impI)
  note r = plan_result [OF assms]
  fix s g assume s: "s \<in> set old" and g: "owns s g"
  let ?n = "cp_NumKeyGroups cp"
  have ok: "source_ok cp s" and ig: "\<forall>s \<in> set old. in_groups ?n s" using r(2) s by (auto simp: source_ok_def)
  have ign: "\<forall>t \<in> set new. in_groups ?n t" using r(4) by blast
  have b: "0 \<le> g" "g < ?n" using g ok by (auto simp: owns_def source_ok_def in_groups_def)
  obtain t where t: "filter (\<lambda>t. td_OperatorID t = td_OperatorID s \<and> owns t g) new = [t]"
    using cover_owner [OF _ ign r(1) b] bspec [OF r(6) s] by blast
  obtain s' where s': "filter (\<lambda>t. td_OperatorID t = td_OperatorID s \<and> owns t g) old = [s']"
    using cover_owner [OF _ ig r(1) b] bspec [OF r(5) s] by blast
  have "s \<in> set [s']" unfolding s' [symmetric] using s g by simp
  then have eq: "s' = s" by simp
  have tm: "t \<in> set new" "td_OperatorID t = td_OperatorID s" "owns t g"
    using filter_eq_ConsD [OF t] by auto
  let ?src = "by_start (filter (\<lambda>x. td_OperatorID x = td_OperatorID s) old)"
  have "filter (\<lambda>x. owns x g) (filter (\<lambda>x. td_OperatorID x = td_OperatorID s) old) = [s]" using s' eq by (simp add: conj_commute)
  then have o: "filter (\<lambda>x. owns x g) ?src = [s]" by (rule filter_singleton_mset) simp
  have ov: "overlapping cp t x" if "owns x g" for x
    using that tm(3) covers_state_part [of cp t x g] by (auto simp: covers_def)
  have "filter (\<lambda>p. covers p g) (mget plan (td_TaskID t) []) = map (state_part cp t) (filter (\<lambda>x. overlapping cp t x \<and> owns x g) ?src)"
    using r(4) tm by (simp add: mget_def filter_map o_def covers_state_part)
  also have "filter (\<lambda>x. overlapping cp t x \<and> owns x g) ?src = filter (\<lambda>x. owns x g) ?src" using ov by (intro filter_cong) auto
  finally have "filter (\<lambda>p. covers p g) (mget plan (td_TaskID t) []) = [state_part cp t s]" using o by simp
  then show "\<exists>t part. filter (\<lambda>t. td_OperatorID t = td_OperatorID s \<and> owns t g) new = [t]
      \<and> filter (\<lambda>p. covers p g) (mget plan (td_TaskID t) []) = [part]
      \<and> rsp_SourceTaskID part = td_TaskID s \<and> rsp_ReplicaAddress part = mget (StatePaths cp) (td_TaskID s) []"
    using t ok by (intro exI [of _ t] exI [of _ "state_part cp t s"]) (simp add: state_part_def source_ok_def)
next
  fix t part assume t: "t \<in> set new" and p: "part \<in> set (mget plan (td_TaskID t) [])"
  obtain s where s: "s \<in> set old" "td_OperatorID s = td_OperatorID t" "part = state_part cp t s"
    using plan_result(4) [OF assms] t p by (auto simp: mget_def)
  then show "\<exists>s \<in> set old. rsp_SourceTaskID part = td_TaskID s \<and> td_OperatorID s = td_OperatorID t \<and> (\<forall>g. covers part g \<longleftrightarrow> owns s g \<and> owns t g)"
    using covers_state_part [of cp t s] by (intro bexI [of _ s]) (auto simp: state_part_def)
qed

text \<open>Two tasks with two key groups each are merged into one.\<close>

definition example_task :: "string \<Rightarrow> int \<Rightarrow> int \<Rightarrow> TaskDescriptor" where
  "example_task i a b = zero_task\<lparr>td_TaskID := i, td_OperatorID := ''k'', td_NumKeyGroups := 4, td_KeyGroup := \<lparr>kg_Start = a, kg_End = b\<rparr>\<rparr>"

definition example_checkpoint :: CheckpointMeta where
  "example_checkpoint = \<lparr>cp_Final = False, cp_AttemptID = [], InvalidReason = [], ManifestVersion = 0, TaskManifests = [],
     cp_TaskDescriptors = [], cp_NumKeyGroups = 4, cp_SavepointID = [], cp_Replicas = [(''a'', ''r''), (''b'', ''r'')], cp_EpochID = 1,
     cp_Tasks = [(''a'', ''w''), (''b'', ''w'')], cp_ID = 1, cp_JobID = ''j'', cp_Status = CheckpointCompleted, Offsets = [],
     StatePaths = [(''a'', ''r''), (''b'', ''r'')], cp_Timestamp = 0\<rparr>"

lemma example_plan:
  "planRescaleState example_checkpoint [example_task ''b'' 2 3, example_task ''a'' 0 1] [example_task ''c'' 0 3]
   = Inr [(''c'', [state_part example_checkpoint (example_task ''c'' 0 3) (example_task ''a'' 0 1),
       state_part example_checkpoint (example_task ''c'' 0 3) (example_task ''b'' 2 3)])]"
proof -
  have v: "kg_Validate \<lparr>NumKeyGroups = 4, Parallelism = 1\<rparr> = None"
    by (simp add: kg_Validate_def MinKeyGroups_def MaxKeyGroups_def)
  show ?thesis
    by (simp add: planRescaleState_def v example_checkpoint_def example_task_def zero_task_def source_ok_def in_groups_def mget_def Let_def
        group_by_def by_start_def sources_cover_def targets_cover_def sameRescaleChain_def state_part_def)
qed

theorem rescale_plan_exact_witness:
  "\<exists>plan part. planRescaleState example_checkpoint [example_task ''b'' 2 3, example_task ''a'' 0 1] [example_task ''c'' 0 3] = Inr plan
     \<and> filter (\<lambda>p. covers p 1) (mget plan ''c'' []) = [part] \<and> rsp_SourceTaskID part = ''a''"
proof -
  have o: "owns (example_task ''a'' 0 1) 1" by (simp add: owns_def example_task_def)
  have m: "example_task ''a'' 0 1 \<in> set [example_task ''b'' 2 3, example_task ''a'' 0 1]" by simp
  have t: "td_TaskID t = ''c''" if "filter P [example_task ''c'' 0 3] = [t]" for P t
    using that by (auto simp: example_task_def split: if_splits)
  note e = rescale_plan_exact [OF example_plan, THEN conjunct1, THEN bspec, OF m, THEN spec, THEN mp, OF o]
  have a: "td_TaskID (example_task ''a'' 0 1) = ''a''" by (simp add: example_task_def)
  from e show ?thesis
  proof (elim exE conjE)
    fix t' part
    assume f: "filter (\<lambda>t. td_OperatorID t = td_OperatorID (example_task ''a'' 0 1) \<and> owns t 1) [example_task ''c'' 0 3] = [t']"
      and p: "filter (\<lambda>p. covers p 1) (mget [(''c'', [state_part example_checkpoint (example_task ''c'' 0 3) (example_task ''a'' 0 1),
        state_part example_checkpoint (example_task ''c'' 0 3) (example_task ''b'' 2 3)])] (td_TaskID t') []) = [part]"
        "rsp_SourceTaskID part = td_TaskID (example_task ''a'' 0 1)"
    show ?thesis by (intro exI conjI, rule example_plan, rule p(1) [unfolded t [OF f]], rule p(2) [unfolded a])
  qed
qed

section \<open>Edges without a strategy\<close>

text \<open>Planning reads an edge without a strategy as forward and fuses its operators; the search for
  the operators that must keep their parallelism does not follow such an edge. A global rescale of
  a persisted graph of this kind changes one end of a forward edge only.\<close>

definition legacy_graph :: JobGraph where
  "legacy_graph = \<lparr>g_NumKeyGroups = 4,
     Operators = [zero_operator\<lparr>op_OperatorID := ''s'', op_Type := OperatorTypeSource\<rparr>, zero_operator\<lparr>op_OperatorID := ''m''\<rparr>],
     Edges = [\<lparr>SourceOperatorID = ''s'', TargetOperatorID = ''m'', Shuffle = ShuffleStrategyUnknown, KeySelector = []\<rparr>]\<rparr>"

lemma legacy_forward_not_pinned:
  "map_of (forwardBoundaryParallelism legacy_graph 1) ''m'' = None
   \<and> (\<exists>cs m. planPhysicalChains legacy_graph 1 = Inr (cs, m) \<and> map_of m ''s'' = Some 0 \<and> map_of m ''m'' = Some 0)"
proof
  show "map_of (forwardBoundaryParallelism legacy_graph 1) ''m'' = None"
    by (simp add: forwardBoundaryParallelism_def legacy_graph_def forward_neighbors_def zero_operator_def)
  have "topoSortOperators legacy_graph
      = Inr [zero_operator\<lparr>op_OperatorID := ''s'', op_Type := OperatorTypeSource\<rparr>, zero_operator\<lparr>op_OperatorID := ''m''\<rparr>]"
    by (simp add: topoSortOperators_def legacy_graph_def operators_by_id_def zero_degrees_def mget_def Let_def)
  then show "\<exists>cs m. planPhysicalChains legacy_graph 1 = Inr (cs, m) \<and> map_of m ''s'' = Some 0 \<and> map_of m ''m'' = Some 0"
    by (simp add: planPhysicalChains_def legacy_graph_def group_by_def mget_def normal_edge_def Let_def op_parallelism_def zero_operator_def
        parent_chain_def join_chain_def)
qed

end
