(* ===== verification/Restore.thy ===== *)
theory Restore
  imports Checkpoint_Protocol Rescale_Plan
begin

text \<open>The choice of the checkpoint a deployment restores from and its distribution over the tasks
  (\<^verbatim>\<open>internal/coordinator/checkpoint_selection.go\<close>, \<^verbatim>\<open>checkpoint_deployment.go\<close>). The JSON codec
  of manifests is the argument \<open>js\<close>, as in the checkpoint manager, with its readers of a stored
  manifest.\<close>

record recovery_json = manifest_json +
  dec_version :: "bytes \<Rightarrow> int option"
  dec_meta :: "bytes \<Rightarrow> CheckpointMetadata option"

text \<open>The errors the scheduler tells apart.\<close>

datatype restore_error = errNoValidCheckpoint | errUnsupportedSchema | errStoreRead coord_error | errRestore coord_error

section \<open>The inventory of a checkpoint\<close>

abbreviation archive_name :: string where "archive_name \<equiv> ''checkpoint.archive''"

fun inventory_loop ::
  "CheckpointMeta \<Rightarrow> TaskMeta list \<Rightarrow> (string, TaskMeta) gomap \<Rightarrow> (string, TaskMeta) gomap option" where
  "inventory_loop cp [] inventory = Some inventory"
| "inventory_loop cp (task # tasks) inventory =
     (if mget (cp_Tasks cp) (tm_TaskID task) [] = [] \<or> mget (StateSHA256 task) archive_name [] = [] \<or> StateSizeBytes task \<le> 0
      then None
      else inventory_loop cp tasks (AList.update (tm_TaskID task) task inventory))"

fun recorded_loop ::
  "(bytes \<Rightarrow> TaskMeta option) \<Rightarrow> (string, bytes) gomap \<Rightarrow> (string, TaskMeta) gomap \<Rightarrow> (string, TaskMeta) gomap option" where
  "recorded_loop dec [] recorded = Some recorded"
| "recorded_loop dec ((i, raw) # rest) recorded =
     (case dec raw of None \<Rightarrow> None | Some task \<Rightarrow> recorded_loop dec rest (AList.update i task recorded))"

definition sorted_manifest :: "CheckpointMetadata \<Rightarrow> CheckpointMetadata" where
  "sorted_manifest m =
     m\<lparr>cm_Tasks := sort_key tm_TaskID (cm_Tasks m),
       cm_JobGraph := (cm_JobGraph m)\<lparr>gm_Operators := sort_key om_OperatorID (gm_Operators (cm_JobGraph m))\<rparr>,
       SinkTxns := sort_key st_TaskID (SinkTxns m)\<rparr>"

definition manifest_identity :: "CheckpointMetadata \<Rightarrow> CheckpointMeta \<Rightarrow> bool" where
  "manifest_identity m cp =
     (cm_JobID m = cp_JobID cp \<and> cm_CheckpointID m > 0 \<and> word_of_int (cm_CheckpointID m) = cp_ID cp
      \<and> gm_NumKeyGroups (cm_JobGraph m) = cp_NumKeyGroups cp)"

text \<open>The manifest must be the one that the completion record describes.\<close>

definition matches_record :: "'x recovery_json_scheme \<Rightarrow> CheckpointMeta \<Rightarrow> CheckpointMetadata \<Rightarrow> bool" where
  "matches_record js cp m =
     (case recorded_loop (dec_task_meta js) (TaskManifests cp) [] of
        None \<Rightarrow> False
      | Some recorded \<Rightarrow>
          (case checkpointManifest (Some (zero_job\<lparr>job_ID := cp_JobID cp, job_Name := cm_JobName m\<rparr>)) cp recorded (cm_CompletionTime m) of
             None \<Rightarrow> False
           | Some expected \<Rightarrow>
               (case (enc_manifest js expected, enc_manifest js (sorted_manifest m)) of
                  (Some expectedJSON, Some actualJSON) \<Rightarrow> expectedJSON = actualJSON
                | _ \<Rightarrow> False)))"

definition manifest_inventory ::
  "'x recovery_json_scheme \<Rightarrow> CheckpointMeta \<Rightarrow> CheckpointMetadata \<Rightarrow> restore_error + (string, TaskMeta) gomap" where
  "manifest_inventory js cp m =
     (if \<not> ValidateComplete m then Inl (errRestore ErrOther)
      else if \<not> manifest_identity m cp then Inl (errRestore ErrOther)
      else
        (case inventory_loop cp (cm_Tasks m) [] of
           None \<Rightarrow> Inl (errRestore ErrOther)
         | Some inventory \<Rightarrow>
             if length inventory \<noteq> length (cp_Tasks cp) then Inl (errRestore ErrOther)
             else if \<not> matches_record js cp m then Inl (errRestore ErrOther)
             else Inr inventory))"

definition checkpointInventory ::
  "'x recovery_json_scheme \<Rightarrow> 's MetadataStore \<Rightarrow> 's \<Rightarrow> CheckpointMeta \<Rightarrow> restore_error + (string, TaskMeta) gomap" where
  "checkpointInventory js ops s cp =
     (if InvalidReason cp \<noteq> [] then Inl (errRestore ErrOther)
      else if ManifestVersion cp = 0 then Inr []
      else if ManifestVersion cp \<noteq> CurrentSchemaVersion then Inl errUnsupportedSchema
      else
        (case Get ops s (CheckpointManifestKey (cp_JobID cp) (cp_ID cp)) of
           Inl e \<Rightarrow> Inl (errStoreRead e)
         | Inr raw \<Rightarrow>
             (case UnmarshalCheckpointMetadata (dec_version js) (dec_meta js) (nil_bytes raw) of
                Inl ErrUnsupportedSchemaVersion \<Rightarrow> Inl errUnsupportedSchema
              | Inl _ \<Rightarrow> Inl (errRestore ErrOther)
              | Inr m \<Rightarrow> manifest_inventory js cp m)))"

section \<open>Selection\<close>

definition candidate :: "JobMeta \<Rightarrow> CheckpointMeta \<Rightarrow> bool" where
  "candidate job cp = (cp_JobID cp = job_ID job \<and> cp_ID cp \<le> LatestCheckpoint job \<and> cp_Status cp = CheckpointCompleted)"

fun candidate_scan :: "msgpack \<Rightarrow> JobMeta \<Rightarrow> kvEntry list \<Rightarrow> CheckpointMeta list" where
  "candidate_scan mp job [] = []"
| "candidate_scan mp job ((k, v) # kvs) =
     (if HasSuffix k ''/latest'' \<or> HasSuffix k ''/metadata.json'' then candidate_scan mp job kvs
      else
        (case dec_cp mp v of
           Some cp \<Rightarrow> if candidate job cp then cp # candidate_scan mp job kvs else candidate_scan mp job kvs
         | None \<Rightarrow> candidate_scan mp job kvs))"

text \<open>A checkpoint whose sinks have prepared a transaction may already be committed outside.\<close>

definition maybe_committed :: "'x recovery_json_scheme \<Rightarrow> CheckpointMeta \<Rightarrow> bool" where
  "maybe_committed js cp =
     (\<exists>(_, raw) \<in> set (TaskManifests cp). case dec_task_meta js raw of None \<Rightarrow> True | Some task \<Rightarrow> SinkPrepared task)"

fun select_loop ::
  "'x recovery_json_scheme \<Rightarrow> 's MetadataStore \<Rightarrow> 's \<Rightarrow> JobMeta \<Rightarrow> bool \<Rightarrow> CheckpointMeta list \<Rightarrow>
     restore_error + CheckpointMeta \<times> (string, TaskMeta) gomap" where
  "select_loop js ops s job pinned [] = Inl errNoValidCheckpoint"
| "select_loop js ops s job pinned (cp # cps) =
     (if pinned \<and> cp_ID cp \<noteq> RescaleCheckpoint job then select_loop js ops s job pinned cps
      else
        (case checkpointInventory js ops s cp of
           Inr inventory \<Rightarrow> Inr (cp, inventory)
         | Inl errUnsupportedSchema \<Rightarrow> Inl errUnsupportedSchema
         | Inl (errStoreRead e) \<Rightarrow> Inl (errStoreRead e)
         | Inl e \<Rightarrow>
             if maybe_committed js cp then Inl errNoValidCheckpoint
             else if pinned then Inl e
             else select_loop js ops s job pinned cps))"

text \<open>A selection other than the latest checkpoint is persisted with a copy of the job, which thereby
  becomes the cached job; the caller goes on with its own pointer.\<close>

definition adopt_checkpoint ::
  "msgpack \<Rightarrow> 's MetadataStore \<Rightarrow> nat \<Rightarrow> u64 \<Rightarrow> 's Coordinator \<Rightarrow> coord_error option \<times> 's Coordinator" where
  "adopt_checkpoint mp ops p i c =
     (let job = c_cells c p in
      if i = LatestCheckpoint job then (None, c)
      else
        (case persist_copy mp ops (job\<lparr>LatestCheckpoint := i\<rparr>) c of
           (Some e, c1) \<Rightarrow> (Some e, c1)
         | (None, c1) \<Rightarrow> (None, set_cell p ((c_cells c1 p)\<lparr>LatestCheckpoint := i\<rparr>) c1)))"

definition selectRecoveryCheckpointLocked ::
  "msgpack \<Rightarrow> 'x recovery_json_scheme \<Rightarrow> 's MetadataStore \<Rightarrow> nat \<Rightarrow> 's Coordinator \<Rightarrow>
     (restore_error + CheckpointMeta \<times> (string, TaskMeta) gomap) \<times> 's Coordinator" where
  "selectRecoveryCheckpointLocked mp js ops p c =
     (let job = c_cells c p;
          pinned = (RescaleCheckpoint job \<noteq> 0 \<and> RescaleCheckpoint job = LatestCheckpoint job) in
      case PrefixScan ops (c_store c) (CheckpointsPrefix (job_ID job)) of
        Inl e \<Rightarrow> (Inl (errRestore e), c)
      | Inr kvs \<Rightarrow>
          (case select_loop js ops (c_store c) job pinned (sort_key (\<lambda>cp. - uint (cp_ID cp)) (candidate_scan mp job kvs)) of
             Inl e \<Rightarrow> (Inl e, c)
           | Inr (cp, inventory) \<Rightarrow>
               (case adopt_checkpoint mp ops p (cp_ID cp) c of
                  (Some e, c1) \<Rightarrow> (Inl (errRestore e), c1)
                | (None, c1) \<Rightarrow> (Inr (cp, inventory), c1))))"

section \<open>Distribution over the tasks\<close>

definition placed_tasks :: "placement \<Rightarrow> TaskDescriptor list" where
  "placed_tasks assignments = concat (map snd assignments)"

definition map_placed :: "(TaskDescriptor \<Rightarrow> TaskDescriptor) \<Rightarrow> placement \<Rightarrow> placement" where
  "map_placed f assignments = map (\<lambda>(workerID, tasks). (workerID, map f tasks)) assignments"

definition rescale_savepoint_ok :: "JobMeta \<Rightarrow> CheckpointMeta \<Rightarrow> SavepointMeta \<Rightarrow> bool" where
  "rescale_savepoint_ok job cp sp =
     (sp_JobID sp = job_ID job \<and> sp_ID sp = cp_SavepointID cp \<and> sp_Status sp = SavepointCompleted
      \<and> sp_CheckpointID sp = cp_ID cp \<and> sp_EpochID sp = cp_EpochID cp \<and> sp_NumKeyGroups sp = cp_NumKeyGroups cp)"

definition zero_meta :: TaskMeta where
  "zero_meta = \<lparr>SinkPrepared = False, SinkCommittedCheckpoint = 0, StateSHA256 = [], tm_TaskID = [], tm_OperatorID = [],
     tm_SubtaskIndex = 0, tm_KeyGroupRange = \<lparr>krm_Start = 0, krm_End = 0\<rparr>, StatePath = [], StateSizeBytes = 0, StateFiles = [],
     SourceOffsets = [], StateBackendType = []\<rparr>"

definition sized_part :: "(string, TaskMeta) gomap \<Rightarrow> RescaleStatePart \<Rightarrow> RescaleStatePart" where
  "sized_part inventory part =
     (let state = mget inventory (rsp_SourceTaskID part) zero_meta in
      part\<lparr>rsp_ArchiveSize := StateSizeBytes state, rsp_ArchiveSHA256 := mget (StateSHA256 state) archive_name []\<rparr>)"

definition rescale_restore ::
  "CheckpointMeta \<Rightarrow> (string, RescaleStatePart list) gomap \<Rightarrow> TaskDescriptor \<Rightarrow> TaskDescriptor" where
  "rescale_restore cp parts task =
     task\<lparr>td_RestoreCheckpoint := None,
          td_RestoreRescale := Some \<lparr>rrd_CheckpointID = cp_ID cp, rrd_EpochID = cp_EpochID cp, rrd_NumKeyGroups = cp_NumKeyGroups cp,
            rrd_Parts = mget parts (td_TaskID task) []\<rparr>\<rparr>"

definition attach_rescale ::
  "msgpack \<Rightarrow> 's MetadataStore \<Rightarrow> 's Coordinator \<Rightarrow> JobMeta \<Rightarrow> CheckpointMeta \<Rightarrow> (string, TaskMeta) gomap \<Rightarrow> placement \<Rightarrow>
     restore_error + placement" where
  "attach_rescale mp ops c job cp inventory assignments =
     (if cp_SavepointID cp = [] then Inl (errRestore ErrOther)
      else
        (case GetSavepoint mp ops c (job_ID job) (cp_SavepointID cp) of
           Inl e \<Rightarrow> Inl (errRestore e)
         | Inr sp \<Rightarrow>
             if \<not> rescale_savepoint_ok job cp sp then Inl (errRestore ErrOther)
             else
               (case planRescaleState cp (cp_TaskDescriptors cp) (placed_tasks assignments) of
                  Inl e \<Rightarrow> Inl (errRestore e)
                | Inr parts \<Rightarrow>
                    Inr (map_placed (rescale_restore cp (map (\<lambda>(i, ps). (i, map (sized_part inventory) ps)) parts)) assignments))))"

definition groups_or_default :: "int \<Rightarrow> int" where
  "groups_or_default n = (if n = 0 then DefaultNumKeyGroups else n)"

definition restorable :: "CheckpointMeta \<Rightarrow> TaskDescriptor \<Rightarrow> bool" where
  "restorable cp task =
     (groups_or_default (td_NumKeyGroups task) = groups_or_default (cp_NumKeyGroups cp)
      \<and> mget (cp_Tasks cp) (td_TaskID task) [] \<noteq> [] \<and> mget (StatePaths cp) (td_TaskID task) [] \<noteq> []
      \<and> mget (StatePaths cp) (td_TaskID task) [] = mget (cp_Replicas cp) (td_TaskID task) [])"

definition checkpoint_restore :: "CheckpointMeta \<Rightarrow> (string, TaskMeta) gomap \<Rightarrow> TaskDescriptor \<Rightarrow> TaskDescriptor" where
  "checkpoint_restore cp inventory task =
     (let state = mget inventory (td_TaskID task) zero_meta in
      task\<lparr>td_RestoreCheckpoint := Some \<lparr>crd_ArchiveSHA256 = mget (StateSHA256 state) archive_name [],
             crd_ArchiveSize = StateSizeBytes state, crd_SourceTaskID = [], crd_CheckpointID = cp_ID cp, crd_EpochID = cp_EpochID cp,
             crd_ReplicaAddress = mget (StatePaths cp) (td_TaskID task) []\<rparr>\<rparr>)"

definition attach_checkpoint :: "CheckpointMeta \<Rightarrow> (string, TaskMeta) gomap \<Rightarrow> placement \<Rightarrow> restore_error + placement" where
  "attach_checkpoint cp inventory assignments =
     (if \<exists>task \<in> set (placed_tasks assignments). \<not> restorable cp task then Inl (errRestore ErrOther)
      else if length (placed_tasks assignments) \<noteq> length (cp_Tasks cp) then Inl (errRestore ErrOther)
      else Inr (map_placed (checkpoint_restore cp inventory) assignments))"

definition attachCheckpointRestoreLocked ::
  "msgpack \<Rightarrow> 'x recovery_json_scheme \<Rightarrow> 's MetadataStore \<Rightarrow> nat \<Rightarrow> placement \<Rightarrow> 's Coordinator \<Rightarrow>
     (restore_error + placement) \<times> 's Coordinator" where
  "attachCheckpointRestoreLocked mp js ops p assignments c =
     (let job = c_cells c p in
      if RescaleCheckpoint job > LatestCheckpoint job then (Inl (errRestore ErrOther), c)
      else if LatestCheckpoint job = 0 then (Inr assignments, c)
      else
        (case selectRecoveryCheckpointLocked mp js ops p c of
           (Inl e, c1) \<Rightarrow> (Inl e, c1)
         | (Inr (cp, inventory), c1) \<Rightarrow>
             if RescaleCheckpoint job \<noteq> 0 \<and> RescaleCheckpoint job = cp_ID cp
             then (attach_rescale mp ops c1 job cp inventory assignments, c1)
             else (attach_checkpoint cp inventory assignments, c1)))"

section \<open>The newest usable checkpoint is chosen\<close>

definition usable :: "'x recovery_json_scheme \<Rightarrow> 's MetadataStore \<Rightarrow> 's \<Rightarrow> CheckpointMeta \<Rightarrow> bool" where
  "usable js ops s cp \<longleftrightarrow> (\<exists>inventory. checkpointInventory js ops s cp = Inr inventory)"

definition stored_checkpoint :: "msgpack \<Rightarrow> (string \<Rightarrow> bytes option) \<Rightarrow> JobMeta \<Rightarrow> CheckpointMeta \<Rightarrow> bool" where
  "stored_checkpoint mp C job cp \<longleftrightarrow>
     (\<exists>k v. HasPrefix k (CheckpointsPrefix (job_ID job)) \<and> \<not> HasSuffix k ''/latest'' \<and> \<not> HasSuffix k ''/metadata.json''
        \<and> C k = Some v \<and> dec_cp mp v = Some cp \<and> candidate job cp)"

lemma candidate_scan_set:
  "set (candidate_scan mp job kvs) = {cp. candidate job cp \<and> (\<exists>k v. (k, v) \<in> set kvs \<and> \<not> HasSuffix k ''/latest''
     \<and> \<not> HasSuffix k ''/metadata.json'' \<and> dec_cp mp v = Some cp)}"
proof (induction mp job kvs rule: candidate_scan.induct)
  case (2 mp job k v kvs)
  then show ?case by (cases "dec_cp mp v") auto
qed simp

lemma select_loop_split:
  assumes "select_loop js ops s job pinned cps = Inr (cp, inventory)"
  shows "\<exists>xs ys. cps = xs @ cp # ys \<and> checkpointInventory js ops s cp = Inr inventory \<and> (pinned \<longrightarrow> cp_ID cp = RescaleCheckpoint job)
    \<and> (\<forall>x \<in> set xs. pinned \<or> \<not> usable js ops s x \<and> \<not> maybe_committed js x)"
  using assms
proof (induction cps)
  case (Cons x cps)
  show ?case
  proof (cases "select_loop js ops s job pinned cps = Inr (cp, inventory) \<and> (pinned \<or> \<not> usable js ops s x \<and> \<not> maybe_committed js x)")
    case True
    then obtain xs ys where "cps = xs @ cp # ys" "checkpointInventory js ops s cp = Inr inventory" "pinned \<longrightarrow> cp_ID cp = RescaleCheckpoint job"
      "\<forall>x \<in> set xs. pinned \<or> \<not> usable js ops s x \<and> \<not> maybe_committed js x" using Cons.IH by blast
    then show ?thesis using True by - (rule exI [of _ "x # xs"], rule exI [of _ ys], auto)
  next
    case False
    then have "x = cp \<and> checkpointInventory js ops s cp = Inr inventory \<and> (pinned \<longrightarrow> cp_ID cp = RescaleCheckpoint job)"
      using Cons.prems by (auto simp: usable_def split: if_splits sum.splits restore_error.splits)
    then show ?thesis by - (rule exI [of _ "[]"], rule exI [of _ cps], simp)
  qed
qed simp

lemma select_loop_member:
  "select_loop js ops s job pinned cps = Inr (cp, inventory)
   \<Longrightarrow> cp \<in> set cps \<and> checkpointInventory js ops s cp = Inr inventory \<and> (pinned \<longrightarrow> cp_ID cp = RescaleCheckpoint job)"
  using select_loop_split [of js ops s job pinned cps cp inventory] by auto

lemma select_sorted:
  assumes "select_loop js ops s job pinned (sort_key (\<lambda>cp. - uint (cp_ID cp)) cps) = Inr (cp, inventory)"
    and "cp' \<in> set cps" "cp_ID cp < cp_ID cp'"
  shows "pinned \<or> \<not> usable js ops s cp' \<and> \<not> maybe_committed js cp'"
proof -
  let ?l = "sort_key (\<lambda>cp. - uint (cp_ID cp)) cps"
  obtain xs ys where l: "?l = xs @ cp # ys" "\<forall>x \<in> set xs. pinned \<or> \<not> usable js ops s x \<and> \<not> maybe_committed js x"
    using select_loop_split [OF assms(1)] by blast
  have "sorted (map (\<lambda>cp. - uint (cp_ID cp)) (xs @ cp # ys))" using sorted_sort_key [of "\<lambda>cp. - uint (cp_ID cp)" cps] unfolding l(1) .
  then have "\<forall>y \<in> set ys. uint (cp_ID y) \<le> uint (cp_ID cp)" by (auto simp: sorted_append)
  moreover have "cp' \<in> set (xs @ cp # ys)" using assms(2) unfolding l(1) [symmetric] by simp
  ultimately have "cp' \<in> set xs" using assms(3) by (auto simp: word_less_def)
  then show ?thesis using l(2) by blast
qed

lemma checkpointInventory_valid: "checkpointInventory js ops s cp = Inr inventory \<Longrightarrow> InvalidReason cp = []"
  by (auto simp: checkpointInventory_def split: if_splits)

lemma adopt_latest: "adopt_checkpoint mp ops p i c = (None, c') \<Longrightarrow> LatestCheckpoint (c_cells c' p) = i"
  by (auto simp: adopt_checkpoint_def Let_def set_cell_def split: if_splits prod.splits option.splits)

lemma select_result:
  assumes "selectRecoveryCheckpointLocked mp js ops p c = (Inr (cp, inventory), c')"
  obtains kvs where "PrefixScan ops (c_store c) (CheckpointsPrefix (job_ID (c_cells c p))) = Inr kvs"
    "select_loop js ops (c_store c) (c_cells c p)
       (RescaleCheckpoint (c_cells c p) \<noteq> 0 \<and> RescaleCheckpoint (c_cells c p) = LatestCheckpoint (c_cells c p))
       (sort_key (\<lambda>cp. - uint (cp_ID cp)) (candidate_scan mp (c_cells c p) kvs)) = Inr (cp, inventory)"
    "adopt_checkpoint mp ops p (cp_ID cp) c = (None, c')"
  using assms by (auto simp: selectRecoveryCheckpointLocked_def Let_def split: sum.splits prod.splits option.splits)

text \<open>C14. Recovery restores from the newest checkpoint it can use. The selected checkpoint is a stored,
  completed checkpoint of the job that is not marked as invalid and whose manifest passes every
  check; every newer completed checkpoint fails these checks and has certainly not committed
  output of a sink. The selection becomes the job's latest checkpoint.\<close>

theorem newest_usable_checkpoint_selected:
  assumes "metadata_store ops contents store_ok" "store_ok (c_store c)"
    and "selectRecoveryCheckpointLocked mp js ops p c = (Inr (cp, inventory), c')"
  shows "stored_checkpoint mp (contents (c_store c)) (c_cells c p) cp \<and> usable js ops (c_store c) cp \<and> InvalidReason cp = []
    \<and> LatestCheckpoint (c_cells c' p) = cp_ID cp
    \<and> (\<forall>cp'. stored_checkpoint mp (contents (c_store c)) (c_cells c p) cp' \<and> cp_ID cp < cp_ID cp' \<longrightarrow>
         \<not> usable js ops (c_store c) cp' \<and> \<not> maybe_committed js cp')"
proof -
  let ?job = "c_cells c p"
  let ?pinned = "RescaleCheckpoint ?job \<noteq> 0 \<and> RescaleCheckpoint ?job = LatestCheckpoint ?job"
  obtain kvs where k: "PrefixScan ops (c_store c) (CheckpointsPrefix (job_ID ?job)) = Inr kvs"
    and l: "select_loop js ops (c_store c) ?job ?pinned (sort_key (\<lambda>cp. - uint (cp_ID cp)) (candidate_scan mp ?job kvs)) = Inr (cp, inventory)"
    and a: "adopt_checkpoint mp ops p (cp_ID cp) c = (None, c')" by (rule select_result [OF assms(3)])
  have stored: "stored_checkpoint mp (contents (c_store c)) ?job x \<longleftrightarrow> x \<in> set (candidate_scan mp ?job kvs)" for x
    unfolding candidate_scan_set stored_checkpoint_def using metadata_store.scan_pairs [OF assms(1,2) k] by auto
  have sp: "checkpointInventory js ops (c_store c) cp = Inr inventory" "?pinned \<longrightarrow> cp_ID cp = RescaleCheckpoint ?job"
    "cp \<in> set (sort_key (\<lambda>cp. - uint (cp_ID cp)) (candidate_scan mp ?job kvs))"
    using select_loop_member [OF l] by blast+
  have "\<not> usable js ops (c_store c) cp' \<and> \<not> maybe_committed js cp'"
    if c': "stored_checkpoint mp (contents (c_store c)) ?job cp'" "cp_ID cp < cp_ID cp'" for cp'
  proof -
    have "cp_ID cp' \<le> LatestCheckpoint ?job" using c'(1) by (auto simp: stored_checkpoint_def candidate_def)
    then have "\<not> ?pinned" using sp(2) c'(2) by auto
    then show ?thesis using select_sorted [OF l _ c'(2)] c'(1) stored by blast
  qed
  then show ?thesis
    using sp stored checkpointInventory_valid [OF sp(1)] adopt_latest [OF a] by (auto simp: usable_def)
qed

text \<open>A job with one completed checkpoint.\<close>

definition example_restore_coord :: "MemoryStore Coordinator" where
  "example_restore_coord = set_cell 0 (zero_job\<lparr>job_ID := ''j'', LatestCheckpoint := 1\<rparr>) (example_cp_coord [2])"

abbreviation example_json :: recovery_json where
  "example_json \<equiv> \<lparr>dec_task_meta = (\<lambda>_. None), enc_manifest = (\<lambda>_. None), dec_version = (\<lambda>_. None), dec_meta = (\<lambda>_. None)\<rparr>"

lemma example_store_scan:
  "PrefixScan memory_ops (c_store example_restore_coord) (CheckpointsPrefix ''j'') = Inr [(CheckpointKey ''j'' 1, [2])]"
proof -
  let ?s = "\<lparr>entries = [(CheckpointKey ''j'' 1, [2])], mem_closed = False\<rparr>"
  have "memory_PrefixScan ?s (CheckpointsPrefix ''j'') (\<lambda>k v acc. (acc @ [(k, v)], True)) [] = Inr [(CheckpointKey ''j'' 1, [2])]"
    by (subst memory_PrefixScan_spec) (simp_all add: scan_collect CheckpointKey_scanned keys_ok_def)
  then show ?thesis by (simp add: example_restore_coord_def set_cell_def memory_ops_def example_cp_coord_def)
qed

lemma example_candidates:
  "candidate_scan example_cp_codec (c_cells example_restore_coord 0) [(CheckpointKey ''j'' 1, [2])] = [example_done]"
  by (simp add: CheckpointKey_scanned example_cp_codec_def candidate_def example_restore_coord_def set_cell_def)
    (simp add: example_done_def example_cp_def)

lemma example_selected:
  "selectRecoveryCheckpointLocked example_cp_codec example_json memory_ops 0 example_restore_coord
   = (Inr (example_done, []), example_restore_coord)"
proof -
  have i: "checkpointInventory example_json memory_ops s example_done = Inr []" for s
    by (simp add: checkpointInventory_def example_done_def example_cp_def)
  have l: "cp_ID example_done = 1" "LatestCheckpoint (c_cells example_restore_coord 0) = 1" "job_ID (c_cells example_restore_coord 0) = ''j''"
    "RescaleCheckpoint (c_cells example_restore_coord 0) = 0"
    by (simp_all add: example_done_def example_cp_def example_restore_coord_def set_cell_def zero_job_def)
  show ?thesis unfolding selectRecoveryCheckpointLocked_def Let_def l(3) example_store_scan sum.case example_candidates
    by (simp add: i l adopt_checkpoint_def)
qed

theorem newest_usable_checkpoint_selected_witness:
  "stored_checkpoint example_cp_codec (map_of (entries (c_store example_restore_coord))) (c_cells example_restore_coord 0) example_done
   \<and> usable example_json memory_ops (c_store example_restore_coord) example_done"
proof -
  have "keys_ok (entries (c_store example_restore_coord))"
    using example_store_ok [of "[2]"] by (simp add: example_restore_coord_def set_cell_def)
  from newest_usable_checkpoint_selected [OF memory.metadata_store_axioms this example_selected] show ?thesis by blast
qed

end
