(* ===== verification/Scheduler.thy ===== *)
theory Scheduler
  imports Restore Workers
begin

text \<open>Placement, deployment, restart and rescaling of jobs (\<^verbatim>\<open>internal/coordinator/scheduler.go\<close>,
  \<^verbatim>\<open>reservations.go\<close>, \<^verbatim>\<open>task_restart.go\<close>, \<^verbatim>\<open>rescale_manager.go\<close>).

  The order in which a Go map is traversed is the order of its association list, which the theorems
  leave open; therefore a stable sort stands for \<^verbatim>\<open>sort.Slice\<close>. The answers of the workers are
  arguments: \<open>reserve\<close> is the reply to a reservation (granted slots and reservation ID) and
  \<open>submit\<close> tells whether a worker accepted its tasks. The random attempt ID is the argument
  \<open>attempt\<close>. The sections that hold the lock are definitions of their own, over an arbitrary state;
  a pass runs them in a row. A pass whose context has ended stops before the critical section, where
  one that is not ready stops; the passes here run with a live context.\<close>

section \<open>Placement\<close>

record workerSlot =
  slot_id :: string
  slot_avail :: int

definition heartbeat_recent :: "'s Coordinator \<Rightarrow> time \<Rightarrow> WorkerMeta \<Rightarrow> bool" where
  "heartbeat_recent c now w = (\<not> IsZero (LastHeartbeat w) \<and> Sub now (LastHeartbeat w) < WorkerTimeout (c_config c))"

definition eligible_slots :: "'s Coordinator \<Rightarrow> time \<Rightarrow> workerSlot list" where
  "eligible_slots c now =
     map (\<lambda>(_, w). \<lparr>slot_id = w_ID w, slot_avail = TaskSlotsAvailable w\<rparr>)
       (filter (\<lambda>(_, w). TaskSlotsAvailable w > 0 \<and> heartbeat_recent c now w) (c_workers c))"

fun place_loop :: "workerSlot list \<Rightarrow> nat \<Rightarrow> TaskDescriptor list \<Rightarrow> placement \<Rightarrow> placement" where
  "place_loop eligible i [] result = result"
| "place_loop eligible i (task # tasks) result =
     (let w = eligible ! (i mod length eligible) in
      place_loop eligible (Suc i) tasks (AList.update (slot_id w) (mget result (slot_id w) [] @ [task]) result))"

definition assignTasks :: "'s Coordinator \<Rightarrow> time \<Rightarrow> TaskDescriptor list \<Rightarrow> coord_error + placement" where
  "assignTasks c now tasks =
     (let eligible = eligible_slots c now in
      if (\<Sum>w \<leftarrow> eligible. slot_avail w) < int (length tasks) then Inl ErrOther
      else Inr (place_loop (sort_key (\<lambda>w. - slot_avail w) eligible) 0 tasks []))"

definition assignmentsLiveLocked :: "'s Coordinator \<Rightarrow> time \<Rightarrow> placement \<Rightarrow> (string, nat) gomap \<Rightarrow> bool" where
  "assignmentsLiveLocked c now assignments reserved =
     (\<forall>(i, tasks) \<in> set assignments.
        case map_of (c_workers c) i of
          None \<Rightarrow> False
        | Some w \<Rightarrow> heartbeat_recent c now w
            \<and> \<not> (TaskSlotsAvailable w < int (length tasks) \<and> map_of reserved i = None))"

definition checkpointPeerLocked :: "'s Coordinator \<Rightarrow> time \<Rightarrow> string \<Rightarrow> string" where
  "checkpointPeerLocked c now sourceID =
     (case map_of (c_workers c) sourceID of
        None \<Rightarrow> []
      | Some source \<Rightarrow>
          if CheckpointAddress source = [] then []
          else
            (case sort (map fst (filter (\<lambda>(i, w). i \<noteq> sourceID \<and> CheckpointAddress w \<noteq> []
                      \<and> CheckpointAddress w \<noteq> CheckpointAddress source \<and> heartbeat_recent c now w) (c_workers c))) of
               [] \<Rightarrow> []
             | i # _ \<Rightarrow> (case map_of (c_workers c) i of Some w \<Rightarrow> CheckpointAddress w | None \<Rightarrow> [])))"

section \<open>Reservations\<close>

fun reserve_peers :: "'s Coordinator \<Rightarrow> string list \<Rightarrow> (string, nat) gomap \<Rightarrow> coord_error + (string, nat) gomap" where
  "reserve_peers c [] peers = Inr peers"
| "reserve_peers c (i # ids) peers =
     (case map_of (c_workers c) i of
        None \<Rightarrow> Inl ErrOther
      | Some w \<Rightarrow>
          if \<not> SupportsReservations w then reserve_peers c ids peers
          else
            (case RPCClient w of
               None \<Rightarrow> Inl ErrOther
             | Some client \<Rightarrow> reserve_peers c ids (AList.update i client peers)))"

definition granted :: "(nat \<Rightarrow> nat \<Rightarrow> (int \<times> string) option) \<Rightarrow> string \<Rightarrow> placement \<Rightarrow> string \<times> nat \<Rightarrow> bool" where
  "granted reserve attempt assignments = (\<lambda>(i, client).
     let slots = length (mget assignments i []) in
     case reserve client slots of
       None \<Rightarrow> False
     | Some (n, reservation) \<Rightarrow> n = to_int32 (int slots) \<and> reservation = attempt)"

text \<open>A refusal releases what was reserved, which only concerns the workers.\<close>

definition reserveDeployment ::
  "(nat \<Rightarrow> nat \<Rightarrow> (int \<times> string) option) \<Rightarrow> string \<Rightarrow> placement \<Rightarrow> 's Coordinator \<Rightarrow> coord_error + (string, nat) gomap" where
  "reserveDeployment reserve attempt assignments c =
     (case reserve_peers c (map fst assignments) [] of
        Inl e \<Rightarrow> Inl e
      | Inr peers \<Rightarrow> if \<forall>peer \<in> set peers. granted reserve attempt assignments peer then Inr peers else Inl ErrOther)"

section \<open>Committing a deployment\<close>

definition peers_current :: "'s Coordinator \<Rightarrow> (string, nat) gomap \<Rightarrow> bool" where
  "peers_current c peers =
     (\<forall>(i, peer) \<in> set peers. case map_of (c_workers c) i of
        None \<Rightarrow> False | Some w \<Rightarrow> RPCClient w = Some peer \<and> RPCPeerEpoch w = c_epoch c)"

definition new_assignment :: "string \<Rightarrow> string \<Rightarrow> placement \<Rightarrow> TaskAssignmentMap" where
  "new_assignment attempt jobID assignments =
     \<lparr>RecoveryAttemptCharged = False, RestoreCheckpoints = [], RescaleParts = [], tam_TaskDescriptors = [], tam_EpochID = 0,
      tam_AttemptID = attempt, tam_Replicas = [], tam_JobID = jobID,
      Assignments = fold (\<lambda>(workerID, tasks). fold (\<lambda>t. AList.update (td_TaskID t) workerID) tasks) assignments []\<rparr>"

definition restore_grants :: "placement \<Rightarrow> (string, CheckpointRestoreDescriptor) gomap" where
  "restore_grants assignments =
     fold (\<lambda>t m. case td_RestoreCheckpoint t of Some r \<Rightarrow> AList.update (td_TaskID t) r m | None \<Rightarrow> m) (placed_tasks assignments) []"

definition rescale_grants :: "placement \<Rightarrow> (string, RescaleStatePart list) gomap" where
  "rescale_grants assignments =
     fold (\<lambda>t m. case td_RestoreRescale t of Some r \<Rightarrow> AList.update (td_TaskID t) (rrd_Parts r) m | None \<Rightarrow> m) (placed_tasks assignments) []"

definition topology_task :: "u64 \<Rightarrow> TaskDescriptor \<Rightarrow> TaskDescriptor" where
  "topology_task generation task =
     task\<lparr>td_DeploymentGeneration := generation, td_Upstream := [], td_Downstream := [], td_RestoreCheckpoint := None,
          td_RestoreRescale := None\<rparr>"

definition replica_grants :: "'s Coordinator \<Rightarrow> time \<Rightarrow> placement \<Rightarrow> (string, string) gomap" where
  "replica_grants c now assignments =
     fold (\<lambda>(workerID, tasks) m.
        let peer = checkpointPeerLocked c now workerID in
        if peer = [] then m else fold (\<lambda>t. AList.update (td_TaskID t) peer) tasks m) assignments []"

definition deployed_tasks :: "'s Coordinator \<Rightarrow> time \<Rightarrow> string \<Rightarrow> u64 \<Rightarrow> placement \<Rightarrow> placement" where
  "deployed_tasks c now attempt generation assignments =
     map (\<lambda>(workerID, tasks). (workerID, map (\<lambda>t. t\<lparr>td_DeploymentGeneration := generation,
        td_CheckpointReplicaAddress := checkpointPeerLocked c now workerID, td_EpochID := c_epoch c, td_AttemptID := attempt\<rparr>) tasks)) assignments"

definition deployed_assignment ::
  "'s Coordinator \<Rightarrow> time \<Rightarrow> JobMeta \<Rightarrow> string \<Rightarrow> u64 \<Rightarrow> TaskDescriptor list \<Rightarrow> placement \<Rightarrow> placement \<Rightarrow> TaskAssignmentMap" where
  "deployed_assignment c now job attempt generation tasks planned assignments =
     (new_assignment attempt (job_ID job) planned)\<lparr>
        RestoreCheckpoints := restore_grants assignments, RescaleParts := rescale_grants assignments,
        tam_TaskDescriptors := map (topology_task generation) tasks, tam_EpochID := c_epoch c,
        tam_Replicas := replica_grants c now assignments,
        RecoveryAttemptCharged := (job_Status job = JobFailing \<and> \<not> RescaleRequested job)\<rparr>"

definition deployed_job :: "time \<Rightarrow> u64 \<Rightarrow> JobMeta \<Rightarrow> JobMeta" where
  "deployed_job now generation job =
     (let next = job\<lparr>DeploymentGeneration := generation,
                     job_RescaleRollback := map_option (\<lambda>r. r\<lparr>rb_Attempted := True\<rparr>) (job_RescaleRollback job)\<rparr>;
          next = (if job_Status job = JobFailing
                  then (if \<not> RescaleRequested job
                        then next\<lparr>RestartCount := wrap64 (RestartCount next + 1), RecoveryAttempts := wrap64 (RecoveryAttempts next + 1)\<rparr>
                        else next)\<lparr>RescaleRequested := False\<rparr>
                  else next)
      in next\<lparr>job_Status := JobDeploying, UpdatedAt := now\<rparr>)"

definition occupy_slots :: "placement \<Rightarrow> (string, WorkerMeta) gomap \<Rightarrow> (string, WorkerMeta) gomap" where
  "occupy_slots assignments workers =
     fold (\<lambda>(workerID, tasks) ws.
        case map_of ws workerID of
          None \<Rightarrow> ws
        | Some w \<Rightarrow> AList.update workerID
            (fold (\<lambda>t w. w\<lparr>RunningTasks := RunningTasks w @ [td_TaskID t], TaskSlotsAvailable := max 0 (TaskSlotsAvailable w - 1)\<rparr>) tasks w) ws)
       assignments workers"

datatype commit_result = Abandoned | Unrecoverable restore_error | Deployed TaskAssignmentMap placement

definition publish_deployment ::
  "msgpack \<Rightarrow> 's MetadataStore \<Rightarrow> time \<Rightarrow> nat \<Rightarrow> string \<Rightarrow> TaskDescriptor list \<Rightarrow> placement \<Rightarrow> placement \<Rightarrow>
     's Coordinator \<Rightarrow> commit_result \<times> 's Coordinator" where
  "publish_deployment mp ops now p attempt tasks planned assignments c =
     (let job = c_cells c p; generation = DeploymentGeneration job + 1 in
      if DeploymentGeneration job = - 1 then (Abandoned, c)
      else
        let tam = deployed_assignment c now job attempt generation tasks planned assignments;
            next = deployed_job now generation job in
        (case (enc_job mp next, enc_tam mp tam) of
           (Some jobData, Some tamData) \<Rightarrow>
             (case WriteBatch ops (c_store c) [(JobMetaKey (job_ID job), jobData), (JobAssignmentsKey (job_ID job), tamData)] of
                (Some e, s) \<Rightarrow> (Abandoned, c\<lparr>c_store := s\<rparr>)
              | (None, s) \<Rightarrow>
                  (Deployed tam (deployed_tasks c now attempt generation assignments),
                   (set_cell p next c)\<lparr>c_store := s,
                     taskStatuses := fold (\<lambda>t. AList.delete (td_TaskID t)) (placed_tasks assignments) (taskStatuses c),
                     c_workers := occupy_slots assignments (c_workers c)\<rparr>))
         | _ \<Rightarrow> (Abandoned, c)))"

definition commit_deployment ::
  "msgpack \<Rightarrow> 'x recovery_json_scheme \<Rightarrow> 's MetadataStore \<Rightarrow> time \<Rightarrow> nat \<Rightarrow> string \<Rightarrow> TaskDescriptor list \<Rightarrow> placement \<Rightarrow>
     (string, nat) gomap \<Rightarrow> 's Coordinator \<Rightarrow> commit_result \<times> 's Coordinator" where
  "commit_deployment mp js ops now p attempt tasks planned peers c =
     (if \<not> readyLocked c \<or> job_Status (c_cells c p) \<notin> {JobCreated, JobFailing} \<or> \<not> assignmentsLiveLocked c now planned peers
      then (Abandoned, c)
      else if \<not> peers_current c peers then (Abandoned, c)
      else if ValidateTransition (job_Status (c_cells c p)) JobDeploying \<noteq> None then (Abandoned, c)
      else
        (case attachTaskAddressesLocked c planned of
           Inl e \<Rightarrow> (Abandoned, c)
         | Inr addressed \<Rightarrow>
             (case attachCheckpointRestoreLocked mp js ops p addressed c of
                (Inl e, c1) \<Rightarrow> (Unrecoverable e, c1)
              | (Inr assignments, c1) \<Rightarrow> publish_deployment mp ops now p attempt tasks planned assignments c1)))"

section \<open>Dispatch\<close>

definition deploy_command :: "string \<Rightarrow> TaskDescriptor \<Rightarrow> bytes \<Rightarrow> WorkerCommand" where
  "deploy_command jobID t data =
     \<lparr>wc_AttemptID = [], wc_EpochID = 0, wc_Type = CommandTypeDeployTask, wc_JobID = jobID, wc_TaskID = td_TaskID t, wc_Data = data\<rparr>"

text \<open>\<open>push_tasks\<close> serves workers without reservations; \<open>dispatch_worker\<close> hands its tasks to a worker
  that reserved slots and fails the attempt when it refuses them.\<close>

definition push_tasks :: "msgpack \<Rightarrow> string \<Rightarrow> string \<Rightarrow> TaskDescriptor list \<Rightarrow> 's Coordinator \<Rightarrow> 's Coordinator" where
  "push_tasks mp jobID workerID tasks c =
     fold (\<lambda>t c. case enc_task mp t of None \<Rightarrow> c | Some data \<Rightarrow> enqueueCommandLocked workerID (deploy_command jobID t data) c) tasks c"

definition dispatch_worker ::
  "msgpack \<Rightarrow> 's MetadataStore \<Rightarrow> time \<Rightarrow> (nat \<Rightarrow> TaskDescriptor list \<Rightarrow> bool) \<Rightarrow> nat \<Rightarrow> string \<Rightarrow> TaskAssignmentMap \<Rightarrow>
     (string, nat) gomap \<Rightarrow> string \<times> TaskDescriptor list \<Rightarrow> 's Coordinator \<Rightarrow> 's Coordinator" where
  "dispatch_worker mp ops now submit p jobID tam peers = (\<lambda>(workerID, tasks) c.
     case map_of peers workerID of
       None \<Rightarrow> push_tasks mp jobID workerID tasks c
     | Some peer \<Rightarrow>
         if submit peer tasks then c
         else fold (\<lambda>t. enqueueCommandLocked workerID (cancel_command jobID tam (td_TaskID t))) tasks
                (snd (transitionJob mp ops now p JobFailing c)))"

section \<open>Scheduling a job\<close>

text \<open>A larger layout that cannot be placed for two heartbeat intervals is given up.\<close>

definition recordRescalePlacementFailure ::
  "msgpack \<Rightarrow> 's MetadataStore \<Rightarrow> time \<Rightarrow> nat \<Rightarrow> 's Coordinator \<Rightarrow> 's Coordinator" where
  "recordRescalePlacementFailure mp ops now p c =
     (let job = c_cells c p in
      case job_RescaleRollback job of
        None \<Rightarrow> c
      | Some rollback0 \<Rightarrow>
          if \<not> readyLocked c \<or> job_Status job \<noteq> JobFailing \<or> rb_Attempted rollback0 then c
          else
            let since = (if IsZero (rb_PlacementFailedSince rollback0) then now else rb_PlacementFailedSince rollback0);
                rollback = rollback0\<lparr>rb_PlacementFailedSince := since,
                             rb_Attempted := (Sub now since \<ge> wrap64 (2 * HeartbeatInterval (c_config c)))\<rparr>
            in snd (publish_copy mp ops p (job\<lparr>job_RescaleRollback := Some rollback\<rparr>) c))"

definition fail_unrecoverable ::
  "msgpack \<Rightarrow> 's MetadataStore \<Rightarrow> time \<Rightarrow> nat \<Rightarrow> restore_error \<Rightarrow> 's Coordinator \<Rightarrow> 's Coordinator" where
  "fail_unrecoverable mp ops now p e c =
     (if e = errNoValidCheckpoint \<or> e = errUnsupportedSchema
      then
        if job_Status (c_cells c p) = JobFailing then snd (transitionJob mp ops now p JobFailed c)
        else (case transitionJob mp ops now p JobFailing c of
                (Some _, c1) \<Rightarrow> c1
              | (None, c1) \<Rightarrow> snd (transitionJob mp ops now p JobFailed c1))
      else c)"

definition scheduleJobContext ::
  "msgpack \<Rightarrow> 'x recovery_json_scheme \<Rightarrow> 's MetadataStore \<Rightarrow> time \<Rightarrow> (nat \<Rightarrow> nat \<Rightarrow> (int \<times> string) option) \<Rightarrow>
     (nat \<Rightarrow> TaskDescriptor list \<Rightarrow> bool) \<Rightarrow> string \<Rightarrow> nat \<Rightarrow> 's Coordinator \<Rightarrow> 's Coordinator" where
  "scheduleJobContext mp js ops now reserve submit attempt p c =
     (case generateTaskDescriptors mp (c_cells c p) of
        Inl e \<Rightarrow>
          (case transitionJob mp ops now p JobFailing c of
             (Some _, c1) \<Rightarrow> c1
           | (None, c1) \<Rightarrow> snd (transitionJob mp ops now p JobFailed c1))
      | Inr tasks \<Rightarrow>
          (case assignTasks c now tasks of
             Inl e \<Rightarrow> recordRescalePlacementFailure mp ops now p c
           | Inr planned \<Rightarrow>
               (case reserveDeployment reserve attempt planned c of
                  Inl e \<Rightarrow> c
                | Inr peers \<Rightarrow>
                    (case commit_deployment mp js ops now p attempt tasks planned peers c of
                       (Abandoned, c1) \<Rightarrow> c1
                     | (Unrecoverable e, c1) \<Rightarrow> fail_unrecoverable mp ops now p e c1
                     | (Deployed tam deployed, c1) \<Rightarrow>
                         fold (dispatch_worker mp ops now submit p (tam_JobID tam) tam peers) deployed c1))))"

section \<open>Restarts\<close>

definition rolled_back :: "RescaleRollback \<Rightarrow> JobMeta \<Rightarrow> JobMeta" where
  "rolled_back old job =
     job\<lparr>job_Config := rb_Config old, job_Parallelism := rb_Parallelism old, LatestCheckpoint := rb_Checkpoint old,
         RescaleCheckpoint := 0, RescaleRequested := False,
         RescaleFailure := ''rescale deployment failed; restoring previous configuration'', job_RescaleRollback := None\<rparr>"

definition rollbackFailedRescale ::
  "msgpack \<Rightarrow> 's MetadataStore \<Rightarrow> nat \<Rightarrow> 's Coordinator \<Rightarrow> coord_error option \<times> 's Coordinator" where
  "rollbackFailedRescale mp ops p c =
     (let job = c_cells c p in
      case job_RescaleRollback job of
        None \<Rightarrow> (None, c)
      | Some old \<Rightarrow>
          if \<not> readyLocked c \<or> job_Status job \<noteq> JobFailing \<or> \<not> rb_Attempted old then (None, c)
          else publish_copy mp ops p (rolled_back old job) c)"

text \<open>A worker that was last heard of by an earlier leader may still run its tasks until the recovery
  fence has passed.\<close>

definition fenced :: "'s Coordinator \<Rightarrow> time \<Rightarrow> TaskAssignmentMap \<Rightarrow> WorkerMeta option \<Rightarrow> bool" where
  "fenced c now assignment worker =
     (tam_EpochID assignment < c_epoch c \<and> now < recoveryFenceUntil c
      \<and> (case worker of None \<Rightarrow> True | Some w \<Rightarrow> IsZero (LastHeartbeat w)))"

definition stopped :: "TaskStatus \<Rightarrow> bool" where
  "stopped s = (s = TaskStatusFailed \<or> s = TaskStatusFinished \<or> s = TaskStatusCanceled)"

fun restart_scan ::
  "'s Coordinator \<Rightarrow> time \<Rightarrow> string \<Rightarrow> TaskAssignmentMap \<Rightarrow> (string, string) gomap \<Rightarrow> (string \<times> WorkerCommand) list \<Rightarrow>
     (string \<times> WorkerCommand) list option" where
  "restart_scan c now jobID assignment [] cancels = Some cancels"
| "restart_scan c now jobID assignment ((taskID, workerID) # rest) cancels =
     (let worker = map_of (c_workers c) workerID in
      if fenced c now assignment worker then None
      else if (case worker of None \<Rightarrow> True | Some w \<Rightarrow> \<not> heartbeat_recent c now w)
      then restart_scan c now jobID assignment rest cancels
      else if stopped (mget (taskStatuses c) taskID TaskStatusUnknown)
      then restart_scan c now jobID assignment rest cancels
      else restart_scan c now jobID assignment rest (cancels @ [(workerID, cancel_command jobID assignment taskID)]))"

definition restart_backoff :: "'s Coordinator \<Rightarrow> int \<Rightarrow> int" where
  "restart_backoff c restarts = wrap64 (RestartBackoff (c_config c) * 2 ^ nat (min (restarts - 1) 6))"

definition abort_active :: "msgpack \<Rightarrow> 's MetadataStore \<Rightarrow> time \<Rightarrow> string \<Rightarrow> 's Coordinator \<Rightarrow> coord_error option \<times> 's Coordinator" where
  "abort_active mp ops now jobID c =
     (case map_of (activeCheckpoints c) jobID of
        None \<Rightarrow> (None, c)
      | Some cp \<Rightarrow> if cp_ID cp = 0 then (None, c) else AbortCheckpoint mp ops now jobID (cp_ID cp) (cp_EpochID cp) c)"

text \<open>The decision after the old tasks have stopped: the budget, then the backoff.\<close>

definition restart_allowed :: "msgpack \<Rightarrow> 's MetadataStore \<Rightarrow> time \<Rightarrow> nat \<Rightarrow> JobMeta \<Rightarrow> 's Coordinator \<Rightarrow> bool \<times> 's Coordinator" where
  "restart_allowed mp ops now p job c =
     (if \<not> RescaleRequested job \<and> RecoveryAttempts job \<ge> RestartMaxAttempts (c_config c)
      then (False, snd (transitionJob mp ops now p JobFailed c))
      else if \<not> RescaleRequested job \<and> RecoveryAttempts job > 0
              \<and> Sub now (UpdatedAt job) < restart_backoff c (RecoveryAttempts job)
      then (False, c)
      else (True, c))"

definition prepareTaskRestart :: "msgpack \<Rightarrow> 's MetadataStore \<Rightarrow> time \<Rightarrow> nat \<Rightarrow> 's Coordinator \<Rightarrow> bool \<times> 's Coordinator" where
  "prepareTaskRestart mp ops now p c0 =
     (case rollbackFailedRescale mp ops p c0 of
        (Some e, c) \<Rightarrow> (False, c)
      | (None, c) \<Rightarrow>
          let job = c_cells c p in
          if job_Status job \<noteq> JobFailing \<or> \<not> readyLocked c then (False, c)
          else
            (case Get ops (c_store c) (JobAssignmentsKey (job_ID job)) of
               Inl e \<Rightarrow> (False, c)
             | Inr data \<Rightarrow>
                 (case dec_tam mp (nil_bytes data) of
                    None \<Rightarrow> (False, c)
                  | Some assignment \<Rightarrow>
                      if tam_JobID assignment \<noteq> job_ID job then (False, c)
                      else
                        (case restart_scan c now (job_ID job) assignment (Assignments assignment) [] of
                           None \<Rightarrow> (False, c)
                         | Some cancels \<Rightarrow>
                             (case abort_active mp ops now (job_ID job) c of
                                (Some e, c1) \<Rightarrow> (False, c1)
                              | (None, c1) \<Rightarrow>
                                  let c2 = fold (\<lambda>(workerID, cmd). enqueueCommandLocked workerID cmd) cancels c1 in
                                  if cancels \<noteq> [] then (False, c2) else restart_allowed mp ops now p job c2)))))"

definition schedulePendingJob ::
  "msgpack \<Rightarrow> 'x recovery_json_scheme \<Rightarrow> 's MetadataStore \<Rightarrow> time \<Rightarrow> (nat \<Rightarrow> nat \<Rightarrow> (int \<times> string) option) \<Rightarrow>
     (nat \<Rightarrow> TaskDescriptor list \<Rightarrow> bool) \<Rightarrow> string \<Rightarrow> nat \<Rightarrow> 's Coordinator \<Rightarrow> 's Coordinator" where
  "schedulePendingJob mp js ops now reserve submit attempt p c =
     (if job_Status (c_cells c p) = JobFailing
      then (case prepareTaskRestart mp ops now p c of
              (False, c1) \<Rightarrow> c1
            | (True, c1) \<Rightarrow> scheduleJobContext mp js ops now reserve submit attempt p c1)
      else scheduleJobContext mp js ops now reserve submit attempt p c)"

text \<open>One round of the scheduler; \<open>attempts\<close> are the fresh attempt IDs of the round.\<close>

definition schedulePending ::
  "msgpack \<Rightarrow> 'x recovery_json_scheme \<Rightarrow> 's MetadataStore \<Rightarrow> time \<Rightarrow> (nat \<Rightarrow> TriggerCheckpointRequest \<Rightarrow> string option) \<Rightarrow> (string \<Rightarrow> bool) \<Rightarrow>
     (nat \<Rightarrow> nat \<Rightarrow> (int \<times> string) option) \<Rightarrow> (nat \<Rightarrow> TaskDescriptor list \<Rightarrow> bool) \<Rightarrow> (nat \<Rightarrow> string) \<Rightarrow> 's Coordinator \<Rightarrow> 's Coordinator" where
  "schedulePending mp js ops now peer stop reserve submit attempts c =
     (let c1 = snd (detectLostTaskWorkers mp ops now c);
          c2 = scheduleFinalCheckpoints mp ops now peer stop c1;
          pending = filter (\<lambda>p. job_Status (c_cells c2 p) \<in> {JobCreated, JobFailing}) (map snd (c_jobs c2))
      in fold (\<lambda>p. schedulePendingJob mp js ops now reserve submit (attempts p) p) pending c2)"

section \<open>Rescaling\<close>

text \<open>The new parallelism of the operators: the one asked for by name, or the global one for the
  operators that are not pinned.\<close>

fun rescale_named ::
  "(string, int) gomap \<Rightarrow> OperatorDescriptor list \<Rightarrow> OperatorDescriptor list \<Rightarrow> string list \<Rightarrow> coord_error + OperatorDescriptor list \<times> string list" where
  "rescale_named operators [] done' found = Inr (done', found)"
| "rescale_named operators (op # ops) done' found =
     (case map_of operators (op_OperatorID op) of
        None \<Rightarrow> rescale_named operators ops (done' @ [op]) found
      | Some p \<Rightarrow>
          if p < 1 \<or> p > MaxKeyGroups then Inl ErrInvalidConfig
          else rescale_named operators ops (done' @ [op\<lparr>op_Parallelism := to_int32 p\<rparr>]) (List.insert (op_OperatorID op) found))"

definition rescale_global :: "(string, int) gomap \<Rightarrow> int \<Rightarrow> OperatorDescriptor \<Rightarrow> OperatorDescriptor" where
  "rescale_global pinned parallelism op =
     op\<lparr>op_Parallelism := (case map_of pinned (op_OperatorID op) of Some p \<Rightarrow> p | None \<Rightarrow> to_int32 parallelism)\<rparr>"

definition rescaled_operators ::
  "JobGraph \<Rightarrow> JobMeta \<Rightarrow> int \<Rightarrow> (string, int) gomap option \<Rightarrow> coord_error + OperatorDescriptor list \<times> bool" where
  "rescaled_operators graph job parallelism operators =
     (case operators of
        Some named \<Rightarrow>
          (case rescale_named named (Operators graph) [] [] of
             Inl e \<Rightarrow> Inl e
           | Inr (ops, found) \<Rightarrow> if length found \<noteq> length named then Inl ErrInvalidConfig else Inr (ops, False))
      | None \<Rightarrow>
          let ops = map (rescale_global (forwardBoundaryParallelism graph (job_Parallelism job)) parallelism) (Operators graph);
              previous = map (\<lambda>op. if op_Parallelism op = 0 then to_int32 (job_Parallelism job) else op_Parallelism op) (Operators graph)
          in Inr (ops, map op_Parallelism ops \<noteq> previous))"

definition rescale_candidate :: "'s Coordinator \<Rightarrow> time \<Rightarrow> JobMeta \<Rightarrow> bytes \<Rightarrow> int \<Rightarrow> u64 \<Rightarrow> JobMeta" where
  "rescale_candidate c now job config parallelism checkpoint =
     (resetStableRecoveryBudget c now
        (job\<lparr>RescaleFailure := [],
             job_RescaleRollback := Some \<lparr>rb_PlacementFailedSince = 0, rb_Config = job_Config job, rb_Parallelism = job_Parallelism job,
               rb_Checkpoint = LatestCheckpoint job, rb_Attempted = False\<rparr>,
             job_Config := config, job_Parallelism := parallelism, RescaleCheckpoint := checkpoint, RescaleRequested := True\<rparr>))\<lparr>UpdatedAt := now\<rparr>"

text \<open>The checks that need no state: the graph after the change and its encoding.\<close>

definition rescale_config ::
  "msgpack \<Rightarrow> JobMeta \<Rightarrow> int \<Rightarrow> (string, int) gomap option \<Rightarrow> coord_error + bytes \<times> int" where
  "rescale_config mp job parallelism0 operators =
     (case dec_graph mp (job_Config job) of
        None \<Rightarrow> Inl ErrOther
      | Some graph \<Rightarrow>
          let parallelism = (if operators \<noteq> None then job_Parallelism job else parallelism0) in
          if parallelism < 1 then Inl ErrInvalidConfig
          else
            (case rescaled_operators graph job parallelism operators of
               Inl e \<Rightarrow> Inl e
             | Inr (ops, changed) \<Rightarrow>
                 (case validateGraphKeyGroups (graph\<lparr>Operators := ops\<rparr>) parallelism of
                    Inl e \<Rightarrow> Inl e
                  | Inr _ \<Rightarrow>
                      if operators = None \<and> \<not> changed then Inl ErrInvalidConfig
                      else (case enc_graph mp (graph\<lparr>Operators := ops\<rparr>) of None \<Rightarrow> Inl ErrOther | Some config \<Rightarrow> Inr (config, parallelism)))))"

text \<open>The candidate is a copy with a cell of its own. It is checked against the savepoint, persisted,
  and then copied back into the cached job.\<close>

definition rescale_publish ::
  "msgpack \<Rightarrow> 'x recovery_json_scheme \<Rightarrow> 's MetadataStore \<Rightarrow> string \<Rightarrow> nat \<Rightarrow> JobMeta \<Rightarrow> 's Coordinator \<Rightarrow>
     (coord_error + JobMeta) \<times> 's Coordinator" where
  "rescale_publish mp js ops jobID p cand c =
     (case generateTaskDescriptors mp cand of
        Inl e \<Rightarrow> (Inl e, c)
      | Inr tasks \<Rightarrow>
          let q = c_fresh c; c1 = (set_cell q cand c)\<lparr>c_fresh := Suc q\<rparr> in
          (case attachCheckpointRestoreLocked mp js ops q [(''validation'', tasks)] c1 of
             (Inl e, c2) \<Rightarrow> (Inl (case e of errRestore e \<Rightarrow> e | errStoreRead e \<Rightarrow> e | _ \<Rightarrow> ErrOther), c2)
           | (Inr _, c2) \<Rightarrow>
               let c3 = set_cell q ((c_cells c2 q)\<lparr>job_Status := JobFailing\<rparr>) c2 in
               (case persistJobLocked mp ops q c3 of
                  (Some e, c4) \<Rightarrow> (Inl e, c4)
                | (None, c4) \<Rightarrow>
                    let next = c_cells c4 q;
                        job = (c_cells c4 p)\<lparr>RescaleFailure := RescaleFailure next, job_RescaleRollback := job_RescaleRollback next,
                          job_Config := job_Config next, job_Parallelism := job_Parallelism next, RescaleCheckpoint := RescaleCheckpoint next,
                          RescaleRequested := RescaleRequested next, RecoveryAttempts := RecoveryAttempts next, UpdatedAt := UpdatedAt next,
                          job_Status := job_Status next\<rparr>
                    in (Inr next, (set_cell p job c4)\<lparr>c_jobs := AList.update jobID p (c_jobs c4)\<rparr>))))"

definition rescaleJob ::
  "msgpack \<Rightarrow> 'x recovery_json_scheme \<Rightarrow> 's MetadataStore \<Rightarrow> time \<Rightarrow> string \<Rightarrow> string \<Rightarrow> int \<Rightarrow> (string, int) gomap option \<Rightarrow>
     's Coordinator \<Rightarrow> (coord_error + JobMeta) \<times> 's Coordinator" where
  "rescaleJob mp js ops now jobID savepointID parallelism operators c =
     (if \<not> readyLocked c then (Inl ErrNotLeader, c)
      else
        (case map_of (c_jobs c) jobID of
           None \<Rightarrow> (Inl ErrJobNotFound, c)
         | Some p \<Rightarrow>
             let job = c_cells c p in
             if job_Status job \<noteq> JobRunning then (Inl ErrInvalidTransition, c)
             else if (case map_of (activeCheckpoints c) jobID of None \<Rightarrow> False | Some cp \<Rightarrow> cp_ID cp \<noteq> 0) then (Inl ErrCheckpointInProgress, c)
             else
               (case GetSavepoint mp ops c jobID savepointID of
                  Inl e \<Rightarrow> (Inl e, c)
                | Inr sp \<Rightarrow>
                    if sp_Status sp \<noteq> SavepointCompleted \<or> sp_CheckpointID sp = 0 \<or> sp_CheckpointID sp \<noteq> LatestCheckpoint job
                    then (Inl ErrInvalidTransition, c)
                    else
                      (case rescale_config mp job parallelism operators of
                         Inl e \<Rightarrow> (Inl e, c)
                       | Inr (config, parallelism') \<Rightarrow>
                           rescale_publish mp js ops jobID p (rescale_candidate c now job config parallelism' (sp_CheckpointID sp)) c))))"

definition RescaleOperators ::
  "msgpack \<Rightarrow> 'x recovery_json_scheme \<Rightarrow> 's MetadataStore \<Rightarrow> time \<Rightarrow> string \<Rightarrow> string \<Rightarrow> (string, int) gomap \<Rightarrow>
     's Coordinator \<Rightarrow> (coord_error + JobMeta) \<times> 's Coordinator" where
  "RescaleOperators mp js ops now jobID savepointID operators c =
     (if operators = [] then (Inl ErrInvalidConfig, c) else rescaleJob mp js ops now jobID savepointID 0 (Some operators) c)"

section \<open>What a committed deployment guarantees\<close>

lemma persist_copy_frame:
  assumes "persist_copy mp ops next c = (e, c')"
  shows "taskStatuses c' = taskStatuses c" "c_workers c' = c_workers c" "c_config c' = c_config c" "c_epoch c' = c_epoch c"
    "recoveryFenceUntil c' = recoveryFenceUntil c" "readyLocked c' = readyLocked c" "c_cells c' = (c_cells c)(c_fresh c := next)"
    "activeCheckpoints c' = activeCheckpoints c"
    "e = None \<Longrightarrow> c_jobs c' = AList.update (job_ID next) (c_fresh c) (c_jobs c)"
  using assms by (auto simp: persist_copy_def persistJobLocked_def set_cell_def readyLocked_def Let_def split: option.splits prod.splits)

lemma adopt_frame:
  assumes "adopt_checkpoint mp ops p i c = (None, c')"
  shows "\<exists>l. c_cells c' p = (c_cells c p)\<lparr>LatestCheckpoint := l\<rparr>" "c_workers c' = c_workers c" "c_epoch c' = c_epoch c"
    "taskStatuses c' = taskStatuses c" "c_config c' = c_config c"
proof -
  have "\<exists>l. c_cells c' p = (c_cells c p)\<lparr>LatestCheckpoint := l\<rparr> \<and> c_workers c' = c_workers c \<and> c_epoch c' = c_epoch c
      \<and> taskStatuses c' = taskStatuses c \<and> c_config c' = c_config c"
  proof (cases "i = LatestCheckpoint (c_cells c p)")
    case True
    then show ?thesis using assms by (intro exI [of _ i]) (simp add: adopt_checkpoint_def Let_def)
  next
    case False
    obtain c1 where c1: "persist_copy mp ops ((c_cells c p)\<lparr>LatestCheckpoint := i\<rparr>) c = (None, c1)"
      and c': "c' = set_cell p ((c_cells c1 p)\<lparr>LatestCheckpoint := i\<rparr>) c1"
      using assms False by (auto simp: adopt_checkpoint_def Let_def split: prod.splits option.splits)
    show ?thesis using persist_copy_frame [OF c1] unfolding c' by (intro exI [of _ i]) (auto simp: set_cell_def)
  qed
  then show "\<exists>l. c_cells c' p = (c_cells c p)\<lparr>LatestCheckpoint := l\<rparr>" "c_workers c' = c_workers c" "c_epoch c' = c_epoch c"
    "taskStatuses c' = taskStatuses c" "c_config c' = c_config c" by blast+
qed

lemma map_placed_tasks: "placed_tasks (map_placed f assignments) = map f (placed_tasks assignments)"
  by (induction assignments) (auto simp: placed_tasks_def map_placed_def)

lemma attach_addresses_ids:
  "attachTaskAddressesLocked c planned = Inr assignments \<Longrightarrow> map td_TaskID (placed_tasks assignments) = map td_TaskID (placed_tasks planned)"
proof -
  assume "attachTaskAddressesLocked c planned = Inr assignments"
  then obtain addresses where "assignments = map_placed (resolve_endpoints addresses) planned"
    by (auto simp: attachTaskAddressesLocked_def map_placed_def split: sum.splits if_splits)
  then show ?thesis by (simp add: map_placed_tasks resolve_endpoints_def)
qed

lemma attach_restore_result:
  assumes "attachCheckpointRestoreLocked mp js ops p planned c = (Inr assignments, c')"
  shows "map td_TaskID (placed_tasks assignments) = map td_TaskID (placed_tasks planned)"
    "c' = c \<or> (\<exists>i. adopt_checkpoint mp ops p i c = (None, c'))"
proof -
  consider "assignments = planned" "c' = c"
    | cp inventory where "selectRecoveryCheckpointLocked mp js ops p c = (Inr (cp, inventory), c')"
      "attach_rescale mp ops c' (c_cells c p) cp inventory planned = Inr assignments \<or> attach_checkpoint cp inventory planned = Inr assignments"
    using assms by (auto simp: attachCheckpointRestoreLocked_def Let_def split: if_splits prod.splits sum.splits)
  then have "map td_TaskID (placed_tasks assignments) = map td_TaskID (placed_tasks planned) \<and> (c' = c \<or> (\<exists>i. adopt_checkpoint mp ops p i c = (None, c')))"
  proof cases
    case 2
    have "adopt_checkpoint mp ops p (cp_ID cp) c = (None, c')" by (rule select_result [OF 2(1)])
    then show ?thesis using 2(2)
      by (auto simp: attach_rescale_def attach_checkpoint_def map_placed_tasks rescale_restore_def checkpoint_restore_def Let_def
          split: if_splits sum.splits)
  qed simp
  then show "map td_TaskID (placed_tasks assignments) = map td_TaskID (placed_tasks planned)"
    "c' = c \<or> (\<exists>i. adopt_checkpoint mp ops p i c = (None, c'))" by blast+
qed

lemma commit_cases:
  assumes "commit_deployment mp js ops now p attempt tasks planned peers c = (Deployed tam deployed, c')"
  obtains assignments c1 where "readyLocked c" "job_Status (c_cells c p) \<in> {JobCreated, JobFailing}" "assignmentsLiveLocked c now planned peers"
    "map td_TaskID (placed_tasks assignments) = map td_TaskID (placed_tasks planned)"
    "\<exists>l. c_cells c1 p = (c_cells c p)\<lparr>LatestCheckpoint := l\<rparr>" "c_epoch c1 = c_epoch c" "taskStatuses c1 = taskStatuses c"
    "c1 = c \<or> (\<exists>i. adopt_checkpoint mp ops p i c = (None, c1))"
    "publish_deployment mp ops now p attempt tasks planned assignments c1 = (Deployed tam deployed, c')"
proof -
  obtain addressed assignments c1 where guards: "readyLocked c" "job_Status (c_cells c p) \<in> {JobCreated, JobFailing}" "assignmentsLiveLocked c now planned peers"
    and a: "attachTaskAddressesLocked c planned = Inr addressed" "attachCheckpointRestoreLocked mp js ops p addressed c = (Inr assignments, c1)"
    and pub: "publish_deployment mp ops now p attempt tasks planned assignments c1 = (Deployed tam deployed, c')"
    using assms by (auto simp: commit_deployment_def split: if_splits sum.splits prod.splits)
  have ids: "map td_TaskID (placed_tasks assignments) = map td_TaskID (placed_tasks planned)"
    using attach_restore_result(1) [OF a(2)] attach_addresses_ids [OF a(1)] by simp
  have ad: "c1 = c \<or> (\<exists>i. adopt_checkpoint mp ops p i c = (None, c1))" by (rule attach_restore_result(2) [OF a(2)])
  have "(\<exists>l. c_cells c1 p = (c_cells c p)\<lparr>LatestCheckpoint := l\<rparr>) \<and> c_epoch c1 = c_epoch c \<and> taskStatuses c1 = taskStatuses c"
    using ad
  proof
    assume "c1 = c"
    then show ?thesis by (auto intro: exI [of _ "LatestCheckpoint (c_cells c p)"])
  next
    assume "\<exists>i. adopt_checkpoint mp ops p i c = (None, c1)"
    then obtain i where "adopt_checkpoint mp ops p i c = (None, c1)" by blast
    from adopt_frame [OF this] show ?thesis by blast
  qed
  then show thesis using that [OF guards ids] ad pub by blast
qed

lemma statuses_cleared: "t \<in> set ts \<Longrightarrow> map_of (fold (\<lambda>t. AList.delete (td_TaskID t)) ts m) (td_TaskID t) = None"
proof (induction ts arbitrary: m)
  case (Cons x ts)
  have keep: "map_of m i = None \<Longrightarrow> map_of (fold (\<lambda>t. AList.delete (td_TaskID t)) ts m) i = None" for m i
    by (induction ts arbitrary: m) (simp_all add: delete_conv')
  show ?case using Cons keep [of "AList.delete (td_TaskID x) m" "td_TaskID x"] by (auto simp: delete_conv')
qed simp

lemma deployed_tasks_placed:
  assumes "t \<in> set (placed_tasks (deployed_tasks c now attempt g assignments))"
  obtains t0 peer where "t0 \<in> set (placed_tasks assignments)"
    "t = t0\<lparr>td_DeploymentGeneration := g, td_CheckpointReplicaAddress := peer, td_EpochID := c_epoch c, td_AttemptID := attempt\<rparr>"
proof -
  obtain i ts t0 where "(i, ts) \<in> set assignments" "t0 \<in> set ts"
    "t = t0\<lparr>td_DeploymentGeneration := g, td_CheckpointReplicaAddress := checkpointPeerLocked c now i, td_EpochID := c_epoch c, td_AttemptID := attempt\<rparr>"
    using assms by (auto simp: placed_tasks_def deployed_tasks_def)
  moreover from this have "t0 \<in> set (placed_tasks assignments)" by (force simp: placed_tasks_def)
  ultimately show thesis using that by blast
qed

lemma word_less_Suc: "x \<noteq> - 1 \<Longrightarrow> x < x + (1 :: u64)"
proof -
  assume "x \<noteq> - 1"
  then have "1 + x \<noteq> 0" by (metis add.commute add_eq_0_iff)
  then show ?thesis using unatSuc [of x] by (simp add: word_less_nat_alt add.commute)
qed

lemma publish_cases:
  assumes "publish_deployment mp ops now p attempt tasks planned assignments c = (Deployed tam deployed, c')"
  obtains jobData tamData where "DeploymentGeneration (c_cells c p) \<noteq> - 1"
    "enc_job mp (c_cells c' p) = Some jobData" "enc_tam mp tam = Some tamData"
    "WriteBatch ops (c_store c) [(JobMetaKey (job_ID (c_cells c p)), jobData), (JobAssignmentsKey (job_ID (c_cells c p)), tamData)] = (None, c_store c')"
    "c_cells c' p = deployed_job now (DeploymentGeneration (c_cells c p) + 1) (c_cells c p)"
    "tam = deployed_assignment c now (c_cells c p) attempt (DeploymentGeneration (c_cells c p) + 1) tasks planned assignments"
    "deployed = deployed_tasks c now attempt (DeploymentGeneration (c_cells c p) + 1) assignments"
    "taskStatuses c' = fold (\<lambda>t. AList.delete (td_TaskID t)) (placed_tasks assignments) (taskStatuses c)" "c_jobs c' = c_jobs c"
    "c_cells c' = (c_cells c)(p := deployed_job now (DeploymentGeneration (c_cells c p) + 1) (c_cells c p))"
  using assms by (auto simp: publish_deployment_def Let_def set_cell_def split: if_splits option.splits prod.splits)

lemma deployed_job_fields [simp]:
  "job_Status (deployed_job now g job) = JobDeploying" "DeploymentGeneration (deployed_job now g job) = g" "job_ID (deployed_job now g job) = job_ID job"
  by (simp_all add: deployed_job_def Let_def)

lemma adopt_store_ok:
  assumes "metadata_store ops contents store_ok" "store_ok (c_store c)" "adopt_checkpoint mp ops p i c = (e, c')"
  shows "store_ok (c_store c')"
  using assms(2,3) metadata_store.set [OF assms(1)]
  by (fastforce simp: adopt_checkpoint_def Let_def set_cell_def persist_copy_def persistJobLocked_def split: if_splits prod.splits option.splits)

text \<open>The commands that wait for a worker or are buffered in its stream.\<close>

definition command_queues ::
  "'s Coordinator \<Rightarrow> (string, WorkerCommand list) gomap \<times> (string, nat) gomap \<times> cmd_chan list" where
  "command_queues c = (pendingCmds c, cmdStreams c, c_chans c)"

lemma command_queues_update [simp]:
  "command_queues (set_cell p j c) = command_queues c" "command_queues (c\<lparr>c_store := s\<rparr>) = command_queues c"
  "command_queues (c\<lparr>c_jobs := js\<rparr>) = command_queues c" "command_queues (c\<lparr>c_fresh := n\<rparr>) = command_queues c"
  "command_queues (c\<lparr>activeJobNames := ns\<rparr>) = command_queues c" "command_queues (c\<lparr>taskStatuses := ts\<rparr>) = command_queues c"
  "command_queues (c\<lparr>c_workers := ws\<rparr>) = command_queues c"
  by (simp_all add: command_queues_def set_cell_def)

lemma job_update_queues:
  "command_queues (snd (persistJobLocked mp ops p c)) = command_queues c"
  "command_queues (snd (persist_copy mp ops next c)) = command_queues c"
  "command_queues (snd (transitionJob mp ops now p to c)) = command_queues c"
  "command_queues (snd (publish_copy mp ops p next c)) = command_queues c"
  "command_queues (snd (adopt_checkpoint mp ops p i c)) = command_queues c"
proof -
  show persist: "command_queues (snd (persistJobLocked mp ops p c)) = command_queues c" for p c
    by (simp add: persistJobLocked_def Let_def split: option.split prod.split)
  show copied: "command_queues (snd (persist_copy mp ops next c)) = command_queues c" for "next"
    by (simp add: persist_copy_def persist)
  show "command_queues (snd (transitionJob mp ops now p to c)) = command_queues c"
    by (simp add: transitionJob_def Let_def persist split: option.split)
  have copied': "command_queues c1 = command_queues c" if "persist_copy mp ops next c = (e, c1)" for "next" e c1
    using copied [of "next"] that by simp
  show "command_queues (snd (publish_copy mp ops p next c)) = command_queues c"
    by (simp add: publish_copy_def Let_def copied' split: prod.split option.split)
  show "command_queues (snd (adopt_checkpoint mp ops p i c)) = command_queues c"
    by (simp add: adopt_checkpoint_def Let_def copied' split: prod.split option.split)
qed

lemma restore_queues:
  "command_queues (snd (attachCheckpointRestoreLocked mp js ops p planned c)) = command_queues c"
proof -
  have adopted: "command_queues c1 = command_queues c" if "adopt_checkpoint mp ops p i c = (e, c1)" for i e c1
    using job_update_queues(5) [of mp ops p i c] that by simp
  have "command_queues (snd (selectRecoveryCheckpointLocked mp js ops p c)) = command_queues c"
    by (simp add: selectRecoveryCheckpointLocked_def Let_def adopted split: sum.split prod.split option.split)
  then have "command_queues c1 = command_queues c"
    if "selectRecoveryCheckpointLocked mp js ops p c = (r, c1)" for r c1
    using that by simp
  then show ?thesis
    by (simp add: attachCheckpointRestoreLocked_def Let_def split: sum.split prod.split)
qed

text \<open>The critical section queues no command, whatever its outcome.\<close>

lemma commit_queues: "command_queues (snd (commit_deployment mp js ops now p attempt tasks planned peers c)) = command_queues c"
proof -
  have published: "command_queues (snd (publish_deployment mp ops now p attempt tasks planned assignments c1)) = command_queues c1"
    for assignments c1
    by (simp add: publish_deployment_def Let_def split: option.split prod.split)
  have restored: "command_queues c1 = command_queues c"
    if "attachCheckpointRestoreLocked mp js ops p addressed c = (r, c1)" for addressed r c1
    using restore_queues [of mp js ops p addressed c] that by simp
  show ?thesis
    by (simp add: commit_deployment_def published restored split: sum.split prod.split)
qed

text \<open>A pass of the scheduler that hands out a task has committed a deployment before: without one it
  queues no command, and its result does not depend on what a worker answers to submitted tasks.\<close>

lemma dispatch_after_commit:
  assumes "command_queues (scheduleJobContext mp js ops now reserve submit attempt p c) \<noteq> command_queues c
      \<or> scheduleJobContext mp js ops now reserve submit' attempt p c \<noteq> scheduleJobContext mp js ops now reserve submit attempt p c"
  obtains tasks planned peers tam deployed c1 where "generateTaskDescriptors mp (c_cells c p) = Inr tasks"
    "assignTasks c now tasks = Inr planned" "reserveDeployment reserve attempt planned c = Inr peers"
    "commit_deployment mp js ops now p attempt tasks planned peers c = (Deployed tam deployed, c1)"
    "scheduleJobContext mp js ops now reserve submit attempt p c
       = fold (dispatch_worker mp ops now submit p (tam_JobID tam) tam peers) deployed c1"
proof -
  have failing: "command_queues (case transitionJob mp ops now p JobFailing x of (Some _, c1) \<Rightarrow> c1
      | (None, c1) \<Rightarrow> snd (transitionJob mp ops now p JobFailed c1)) = command_queues x" for x
  proof -
    obtain e c1 where run: "transitionJob mp ops now p JobFailing x = (e, c1)" by fastforce
    have "command_queues c1 = command_queues x"
      using job_update_queues(3) [of mp ops now p JobFailing x] by (simp add: run)
    then show ?thesis by (cases e) (simp_all add: run job_update_queues)
  qed
  have placement: "command_queues (recordRescalePlacementFailure mp ops now p c) = command_queues c"
    by (simp add: recordRescalePlacementFailure_def Let_def job_update_queues split: option.split)
  have unrecoverable: "command_queues (fail_unrecoverable mp ops now p e x) = command_queues x" for e x
    unfolding fail_unrecoverable_def by (simp add: job_update_queues failing)
  have none: "command_queues (scheduleJobContext mp js ops now reserve submit attempt p c) = command_queues c
      \<and> scheduleJobContext mp js ops now reserve submit' attempt p c = scheduleJobContext mp js ops now reserve submit attempt p c"
    if "\<And>tasks planned peers tam deployed c1. generateTaskDescriptors mp (c_cells c p) = Inr tasks \<Longrightarrow>
      assignTasks c now tasks = Inr planned \<Longrightarrow> reserveDeployment reserve attempt planned c = Inr peers \<Longrightarrow>
      commit_deployment mp js ops now p attempt tasks planned peers c \<noteq> (Deployed tam deployed, c1)"
  proof (cases "generateTaskDescriptors mp (c_cells c p)")
    case (Inr tasks)
    show ?thesis
    proof (cases "assignTasks c now tasks")
      case planned: (Inr planned)
      show ?thesis
      proof (cases "reserveDeployment reserve attempt planned c")
        case peers: (Inr peers)
        obtain result c1 where run: "commit_deployment mp js ops now p attempt tasks planned peers c = (result, c1)" by fastforce
        have "command_queues c1 = command_queues c"
          using commit_queues [of mp js ops now p attempt tasks planned peers c] by (simp add: run)
        moreover have "\<forall>tam deployed. result \<noteq> Deployed tam deployed"
          using that [OF Inr planned peers] run by blast
        ultimately show ?thesis
          using run Inr planned peers
          by (cases result) (simp_all add: scheduleJobContext_def unrecoverable)
      qed (use Inr planned in \<open>simp add: scheduleJobContext_def\<close>)
    qed (use Inr in \<open>simp add: scheduleJobContext_def placement\<close>)
  qed (simp add: scheduleJobContext_def failing)
  then obtain tasks planned peers tam deployed c1 where "generateTaskDescriptors mp (c_cells c p) = Inr tasks"
    "assignTasks c now tasks = Inr planned" "reserveDeployment reserve attempt planned c = Inr peers"
    "commit_deployment mp js ops now p attempt tasks planned peers c = (Deployed tam deployed, c1)"
    using assms by blast
  then show thesis using that by (simp add: scheduleJobContext_def)
qed

text \<open>What holds in the state in which a deployment has been committed.\<close>

lemma commit_guarantee:
  assumes "metadata_store ops contents store_ok" "store_ok (c_store c)"
    and "commit_deployment mp js ops now p attempt tasks planned peers c = (Deployed tam deployed, c')"
  shows "readyLocked c \<and> job_Status (c_cells c p) \<in> {JobCreated, JobFailing}
    \<and> (\<forall>(i, ts) \<in> set planned. \<exists>w. map_of (c_workers c) i = Some w \<and> heartbeat_recent c now w
         \<and> (int (length ts) \<le> TaskSlotsAvailable w \<or> map_of peers i \<noteq> None))
    \<and> contents (c_store c') (JobMetaKey (job_ID (c_cells c p))) = enc_job mp (c_cells c' p)
    \<and> contents (c_store c') (JobAssignmentsKey (job_ID (c_cells c p))) = enc_tam mp tam
    \<and> job_Status (c_cells c' p) = JobDeploying \<and> DeploymentGeneration (c_cells c p) < DeploymentGeneration (c_cells c' p)
    \<and> tam_EpochID tam = c_epoch c \<and> tam_AttemptID tam = attempt
    \<and> (\<forall>t \<in> set (placed_tasks deployed). td_EpochID t = c_epoch c \<and> td_AttemptID t = attempt
         \<and> td_DeploymentGeneration t = DeploymentGeneration (c_cells c' p) \<and> map_of (taskStatuses c') (td_TaskID t) = None)"
proof -
  obtain assignments c1 where k: "readyLocked c" "job_Status (c_cells c p) \<in> {JobCreated, JobFailing}" "assignmentsLiveLocked c now planned peers"
    "\<exists>l. c_cells c1 p = (c_cells c p)\<lparr>LatestCheckpoint := l\<rparr>" "c_epoch c1 = c_epoch c"
    and ad: "c1 = c \<or> (\<exists>i. adopt_checkpoint mp ops p i c = (None, c1))"
    and pub: "publish_deployment mp ops now p attempt tasks planned assignments c1 = (Deployed tam deployed, c')"
    by (rule commit_cases [OF assms(3)])
  obtain jobData tamData where u: "DeploymentGeneration (c_cells c1 p) \<noteq> - 1" "enc_job mp (c_cells c' p) = Some jobData" "enc_tam mp tam = Some tamData"
    and w: "WriteBatch ops (c_store c1) [(JobMetaKey (job_ID (c_cells c1 p)), jobData), (JobAssignmentsKey (job_ID (c_cells c1 p)), tamData)] = (None, c_store c')"
    and cell: "c_cells c' p = deployed_job now (DeploymentGeneration (c_cells c1 p) + 1) (c_cells c1 p)"
    and tam: "tam = deployed_assignment c1 now (c_cells c1 p) attempt (DeploymentGeneration (c_cells c1 p) + 1) tasks planned assignments"
    and dep: "deployed = deployed_tasks c1 now attempt (DeploymentGeneration (c_cells c1 p) + 1) assignments"
    and st: "taskStatuses c' = fold (\<lambda>t. AList.delete (td_TaskID t)) (placed_tasks assignments) (taskStatuses c1)"
    by (rule publish_cases [OF pub])
  have j: "job_ID (c_cells c1 p) = job_ID (c_cells c p)" "DeploymentGeneration (c_cells c1 p) = DeploymentGeneration (c_cells c p)"
    using k(4) by auto
  have "store_ok (c_store c1)" using ad assms(2) adopt_store_ok [OF assms(1,2)] by blast
  then have store: "contents (c_store c') = contents (c_store c1) ++ map_of (rev [(JobMetaKey (job_ID (c_cells c p)), jobData), (JobAssignmentsKey (job_ID (c_cells c p)), tamData)])"
    using metadata_store.batch [OF assms(1) _ w] j(1) by simp
  have "contents (c_store c') (JobMetaKey (job_ID (c_cells c p))) = Some jobData" "contents (c_store c') (JobAssignmentsKey (job_ID (c_cells c p))) = Some tamData"
    unfolding store by (simp_all add: JobMetaKey_def JobAssignmentsKey_def)
  moreover have "\<exists>wm. map_of (c_workers c) i = Some wm \<and> heartbeat_recent c now wm \<and> (int (length ts) \<le> TaskSlotsAvailable wm \<or> map_of peers i \<noteq> None)"
    if "(i, ts) \<in> set planned" for i ts
    using k(3) that unfolding assignmentsLiveLocked_def by (fastforce split: option.splits)
  moreover have "DeploymentGeneration (c_cells c p) < DeploymentGeneration (c_cells c p) + 1"
    using u(1) j(2) by (intro word_less_Suc) simp
  moreover have "td_EpochID t = c_epoch c \<and> td_AttemptID t = attempt \<and> td_DeploymentGeneration t = DeploymentGeneration (c_cells c p) + 1
      \<and> map_of (taskStatuses c') (td_TaskID t) = None" if t: "t \<in> set (placed_tasks deployed)" for t
  proof -
    obtain t0 peer where "t0 \<in> set (placed_tasks assignments)" "t = t0\<lparr>td_DeploymentGeneration := DeploymentGeneration (c_cells c p) + 1,
        td_CheckpointReplicaAddress := peer, td_EpochID := c_epoch c, td_AttemptID := attempt\<rparr>"
      by (rule deployed_tasks_placed [OF t [unfolded dep], unfolded k(5) j(2)])
    then show ?thesis using statuses_cleared [of t0 "placed_tasks assignments"] by (simp add: st)
  qed
  ultimately show ?thesis using k u(2,3) cell j tam by (auto simp: deployed_assignment_def new_assignment_def)
qed

text \<open>Unless recovery fell back to an older checkpoint, the cached job is the deployed one.\<close>

lemma commit_cached:
  assumes run: "commit_deployment mp js ops now p attempt tasks planned peers c = (Deployed tam deployed, c')"
    and same: "LatestCheckpoint (c_cells c' p) = LatestCheckpoint (c_cells c p)"
  shows "c_jobs c' = c_jobs c"
proof -
  obtain assignments c1 where ad: "c1 = c \<or> (\<exists>i. adopt_checkpoint mp ops p i c = (None, c1))"
    and pub: "publish_deployment mp ops now p attempt tasks planned assignments c1 = (Deployed tam deployed, c')"
    by (rule commit_cases [OF run])
  have cells: "c_cells c' = (c_cells c1)(p := deployed_job now (DeploymentGeneration (c_cells c1 p) + 1) (c_cells c1 p))"
    and jobs: "c_jobs c' = c_jobs c1" by (rule publish_cases [OF pub], assumption)+
  have latest: "LatestCheckpoint (c_cells c1 p) = LatestCheckpoint (c_cells c p)"
    using same cells by (simp add: deployed_job_def Let_def split: if_splits)
  have "c1 = c" if "adopt_checkpoint mp ops p i c = (None, c1)" for i
  proof -
    have i: "i = LatestCheckpoint (c_cells c p)" using adopt_latest [OF that] latest by (rule trans [OF sym])
    show ?thesis using that unfolding i adopt_checkpoint_def Let_def by simp
  qed
  then show ?thesis using ad jobs by blast
qed

text \<open>C7. Nothing of a deployment is handed to a worker before the deployment is committed to live
  capacity and durable (only slots are reserved before). When a pass of the scheduler queues a command, or when its result depends on
  a worker's answer to submitted tasks, then the critical section has committed a deployment, and the
  dispatch starts in the state that it left, with the command queues still those of the beginning. In
  that state the new job record and the assignment are in the store, written as one batch; the
  coordinator was the recovered leader, the job was waiting for a deployment, and every chosen worker
  has a recent heartbeat and enough free slots or a reservation; the record that the scheduler holds
  is \<open>JobDeploying\<close> with a deployment generation larger than before; and every task carries the
  epoch, the attempt and that generation, with its old status forgotten. If recovery did not fall
  back to an older checkpoint, the record is also the cached job; if it did, the cache holds another
  copy that keeps the old status and generation (\<open>fallback_detaches_cached_job\<close>).\<close>

theorem deployment_commit_safe:
  assumes "metadata_store ops contents store_ok" "store_ok (c_store c)"
    and "command_queues (scheduleJobContext mp js ops now reserve submit attempt p c) \<noteq> command_queues c
      \<or> scheduleJobContext mp js ops now reserve submit' attempt p c \<noteq> scheduleJobContext mp js ops now reserve submit attempt p c"
  shows "\<exists>tasks planned peers tam deployed c'. generateTaskDescriptors mp (c_cells c p) = Inr tasks
    \<and> assignTasks c now tasks = Inr planned \<and> reserveDeployment reserve attempt planned c = Inr peers
    \<and> commit_deployment mp js ops now p attempt tasks planned peers c = (Deployed tam deployed, c')
    \<and> scheduleJobContext mp js ops now reserve submit attempt p c
        = fold (dispatch_worker mp ops now submit p (tam_JobID tam) tam peers) deployed c'
    \<and> command_queues c' = command_queues c
    \<and> readyLocked c \<and> job_Status (c_cells c p) \<in> {JobCreated, JobFailing}
    \<and> (\<forall>(i, ts) \<in> set planned. \<exists>w. map_of (c_workers c) i = Some w \<and> heartbeat_recent c now w
         \<and> (int (length ts) \<le> TaskSlotsAvailable w \<or> map_of peers i \<noteq> None))
    \<and> contents (c_store c') (JobMetaKey (job_ID (c_cells c p))) = enc_job mp (c_cells c' p)
    \<and> contents (c_store c') (JobAssignmentsKey (job_ID (c_cells c p))) = enc_tam mp tam
    \<and> job_Status (c_cells c' p) = JobDeploying \<and> DeploymentGeneration (c_cells c p) < DeploymentGeneration (c_cells c' p)
    \<and> (map_of (c_jobs c) (job_ID (c_cells c p)) = Some p \<and> LatestCheckpoint (c_cells c' p) = LatestCheckpoint (c_cells c p)
         \<longrightarrow> job_of c' (job_ID (c_cells c p)) = Some (c_cells c' p))
    \<and> tam_EpochID tam = c_epoch c \<and> tam_AttemptID tam = attempt
    \<and> (\<forall>t \<in> set (placed_tasks deployed). td_EpochID t = c_epoch c \<and> td_AttemptID t = attempt
         \<and> td_DeploymentGeneration t = DeploymentGeneration (c_cells c' p) \<and> map_of (taskStatuses c') (td_TaskID t) = None)"
proof -
  obtain tasks planned peers tam deployed c' where pass: "generateTaskDescriptors mp (c_cells c p) = Inr tasks"
    "assignTasks c now tasks = Inr planned" "reserveDeployment reserve attempt planned c = Inr peers"
    and run: "commit_deployment mp js ops now p attempt tasks planned peers c = (Deployed tam deployed, c')"
    and sent: "scheduleJobContext mp js ops now reserve submit attempt p c
      = fold (dispatch_worker mp ops now submit p (tam_JobID tam) tam peers) deployed c'"
    by (rule dispatch_after_commit [OF assms(3)])
  have queues: "command_queues c' = command_queues c"
    using commit_queues [of mp js ops now p attempt tasks planned peers c] by (simp add: run)
  have cached: "map_of (c_jobs c) (job_ID (c_cells c p)) = Some p \<and> LatestCheckpoint (c_cells c' p) = LatestCheckpoint (c_cells c p)
      \<longrightarrow> job_of c' (job_ID (c_cells c p)) = Some (c_cells c' p)"
    using commit_cached [OF run] by (simp add: job_of_def)
  show ?thesis
    by (intro exI) (use pass run sent queues cached commit_guarantee [OF assms(1,2) run] in blast)
qed

definition example_worker :: "string \<Rightarrow> int \<Rightarrow> WorkerMeta" where
  "example_worker i slots = \<lparr>Lost = False, RPCPeerEpoch = 0, RPCClient = None, SupportsReservations = False, CheckpointAddress = [],
     w_ID = i, w_Address = i, TaskSlotsTotal = slots, TaskSlotsAvailable = slots, LastHeartbeat = 1, RunningTasks = []\<rparr>"

definition example_sched_coord :: "MemoryStore Coordinator" where
  "example_sched_coord = (set_cell 0 (zero_job\<lparr>job_ID := ''j'', job_Config := [1]\<rparr>) example_coord)\<lparr>c_jobs := [(''j'', 0)], c_fresh := 1,
     c_workers := [(''w1'', example_worker ''w1'' 3), (''w2'', example_worker ''w2'' 1)]\<rparr>"

text \<open>A job of one operator.\<close>

definition example_single :: JobGraph where
  "example_single = \<lparr>g_NumKeyGroups = 4, Operators = [zero_operator\<lparr>op_OperatorID := ''k''\<rparr>], Edges = []\<rparr>"

definition example_sched_codec :: msgpack where
  "example_sched_codec = no_msgpack\<lparr>enc_job := (\<lambda>_. Some [1]), enc_tam := (\<lambda>_. Some [2]),
     dec_graph := (\<lambda>_. Some example_single), enc_task := (\<lambda>_. Some [3])\<rparr>"

lemma example_live: "heartbeat_recent example_sched_coord 2 (example_worker i n)"
  by (simp add: heartbeat_recent_def example_worker_def example_sched_coord_def set_cell_def example_coord_def New_def
      example_coord_config_def resolve_def Sub_def MinInt64_def MaxInt64_def)

lemma example_commit:
  assumes "td_Upstream t = []" "td_Downstream t = []"
  shows "\<exists>tam ts c'. commit_deployment example_sched_codec example_json memory_ops 2 0 ''a'' [t]
     [(''w1'', [t])] [] example_sched_coord = (Deployed tam [(''w1'', ts)], c') \<and> length ts = 1"
proof -
  let ?c = example_sched_coord
  have w: "map_of (c_workers ?c) ''w1'' = Some (example_worker ''w1'' 3)" by (simp add: example_sched_coord_def)
  have job: "c_cells ?c 0 = zero_job\<lparr>job_ID := ''j'', job_Config := [1]\<rparr>" by (simp add: example_sched_coord_def set_cell_def)
  have ready: "readyLocked ?c" by (simp add: readyLocked_def example_sched_coord_def set_cell_def example_coord_def New_def)
  have store: "c_store ?c = NewMemoryStore" by (simp add: example_sched_coord_def set_cell_def example_coord_def New_def)
  have live: "assignmentsLiveLocked ?c 2 [(''w1'', [t])] []"
    using example_live by (simp add: assignmentsLiveLocked_def w) (simp add: example_worker_def)
  obtain t' where a: "attachTaskAddressesLocked ?c [(''w1'', [t])] = Inr [(''w1'', [t'])]"
    using assms by (simp add: attachTaskAddressesLocked_def w endpoints_resolved_def)
  have r: "attachCheckpointRestoreLocked example_sched_codec example_json memory_ops 0 [(''w1'', [t'])] ?c = (Inr [(''w1'', [t'])], ?c)"
    by (simp add: attachCheckpointRestoreLocked_def job zero_job_def)
  have wb: "WriteBatch memory_ops NewMemoryStore kvs = (None, batch_loop kvs NewMemoryStore)" for kvs
    by (simp add: memory_ops_def memory_WriteBatch_def NewMemoryStore_def)
  have "\<exists>tam ts c'. publish_deployment example_sched_codec memory_ops 2 0 ''a'' [t] [(''w1'', [t])] [(''w1'', [t'])] ?c
      = (Deployed tam [(''w1'', ts)], c') \<and> length ts = 1"
    by (simp add: publish_deployment_def job store wb example_sched_codec_def no_msgpack_def deployed_tasks_def Let_def)
      (simp add: zero_job_def)
  then show ?thesis
    by (simp add: commit_deployment_def ready live peers_current_def a r job)
      (simp add: zero_job_def ValidateTransition_def validTransitions_def)
qed

lemma example_generated:
  "\<exists>t. generateTaskDescriptors example_sched_codec (c_cells example_sched_coord 0) = Inr [t]
     \<and> td_Upstream t = [] \<and> td_Downstream t = []"
proof -
  have v: "valid_kg 4 1" by (simp add: valid_kg_def kg_Validate_def MinKeyGroups_def MaxKeyGroups_def)
  have g: "validateGraphKeyGroups example_single 1 = Inr 4"
    by (simp add: validateGraphKeyGroups_def example_single_def zero_operator_def v [unfolded valid_kg_def])
  have sorted: "topoSortOperators example_single = Inr [zero_operator\<lparr>op_OperatorID := ''k''\<rparr>]"
    by (simp add: topoSortOperators_def example_single_def operators_by_id_def zero_degrees_def mget_def Let_def)
  have chains: "planPhysicalChains example_single 1 = Inr ([\<lparr>pc_Operators = [zero_operator\<lparr>op_OperatorID := ''k''\<rparr>], pc_Parallelism = 1\<rparr>], [(''k'', 0)])"
    unfolding planPhysicalChains_def sorted
    by (simp add: example_single_def group_by_def mget_def Let_def op_parallelism_def zero_operator_def
        parent_chain_def join_chain_def)
  have "\<exists>t. buildPhysicalTasks ''j'' example_single 1 = Inr [t] \<and> td_Upstream t = [] \<and> td_Downstream t = []"
    by (simp add: buildPhysicalTasks_def g chains AllTaskRanges_eq [OF v]) (simp add: example_single_def)
  then show ?thesis
    by (simp add: generateTaskDescriptors_def example_sched_codec_def example_sched_coord_def set_cell_def sorted zero_job_def)
qed

text \<open>The pass commits the deployment and queues one command for the worker.\<close>

theorem deployment_commit_safe_witness:
  "\<exists>tasks planned peers tam deployed c'.
     commit_deployment example_sched_codec example_json memory_ops 2 0 ''a'' tasks planned peers example_sched_coord = (Deployed tam deployed, c')
     \<and> pendingCmds c' = [] \<and> job_Status (c_cells c' 0) = JobDeploying \<and> tam_AttemptID tam = ''a''
     \<and> map_of (entries (c_store c')) (JobMetaKey ''j'') = Some [1]"
proof -
  let ?c = example_sched_coord
  let ?run = "scheduleJobContext example_sched_codec example_json memory_ops 2 (\<lambda>_ _. None) (\<lambda>_ _. False) ''a'' 0 ?c"
  have ok: "keys_ok (entries (c_store ?c))"
    by (simp add: example_sched_coord_def set_cell_def example_coord_def New_def NewMemoryStore_def keys_ok_def)
  have empty: "pendingCmds ?c = []" "cmdStreams ?c = []" and id: "job_ID (c_cells ?c 0) = ''j''"
    by (simp_all add: example_sched_coord_def set_cell_def example_coord_def New_def)
  obtain t where gen: "generateTaskDescriptors example_sched_codec (c_cells ?c 0) = Inr [t]"
    and t: "td_Upstream t = []" "td_Downstream t = []" using example_generated by blast
  have e: "eligible_slots ?c 2 = [\<lparr>slot_id = ''w1'', slot_avail = 3\<rparr>, \<lparr>slot_id = ''w2'', slot_avail = 1\<rparr>]"
    using example_live by (simp add: eligible_slots_def) (simp add: example_sched_coord_def example_worker_def)
  have plan: "assignTasks ?c 2 [t] = Inr [(''w1'', [t])]"
    by (simp add: assignTasks_def e Let_def mget_def)
  have peers: "reserveDeployment (\<lambda>_ _. None) ''a'' [(''w1'', [t])] ?c = Inr []"
    by (simp add: reserveDeployment_def) (simp add: example_sched_coord_def example_worker_def)
  obtain tam ts c' where run: "commit_deployment example_sched_codec example_json memory_ops 2 0 ''a'' [t] [(''w1'', [t])] [] ?c
      = (Deployed tam [(''w1'', ts)], c')" "length ts = 1" using example_commit [OF t] by blast
  then obtain t' where ts: "ts = [t']" by (cases ts) auto
  have q: "pendingCmds c' = []" "cmdStreams c' = []"
    using commit_queues [of example_sched_codec example_json memory_ops 2 0 "''a''" "[t]" "[(''w1'', [t])]" "[]" ?c]
    by (simp_all add: run(1) command_queues_def empty)
  have "?run = push_tasks example_sched_codec (tam_JobID tam) ''w1'' [t'] c'"
    by (simp add: scheduleJobContext_def gen plan peers run(1) ts dispatch_worker_def)
  then have "command_queues ?run \<noteq> command_queues ?c"
    by (simp add: command_queues_def push_tasks_def example_sched_codec_def no_msgpack_def enqueueCommandLocked_def q empty mget_def)
  then have "command_queues ?run \<noteq> command_queues ?c
      \<or> scheduleJobContext example_sched_codec example_json memory_ops 2 (\<lambda>_ _. None) (\<lambda>_ _. True) ''a'' 0 ?c \<noteq> ?run" ..
  from deployment_commit_safe [OF memory.metadata_store_axioms ok this]
  obtain tasks planned peers tam deployed d where d: "commit_deployment example_sched_codec example_json memory_ops 2 0 ''a''
      tasks planned peers ?c = (Deployed tam deployed, d)"
    and "command_queues d = command_queues ?c" "job_Status (c_cells d 0) = JobDeploying" "tam_AttemptID tam = ''a''"
      "map_of (entries (c_store d)) (JobMetaKey ''j'') = enc_job example_sched_codec (c_cells d 0)"
    unfolding id by (elim exE conjE) (rule that)
  then have "pendingCmds d = [] \<and> job_Status (c_cells d 0) = JobDeploying \<and> tam_AttemptID tam = ''a''
      \<and> map_of (entries (c_store d)) (JobMetaKey ''j'') = Some [1]"
    by (simp add: command_queues_def empty example_sched_codec_def no_msgpack_def)
  with d show ?thesis by blast
qed

section \<open>Restarts wait for the old attempt\<close>

lemma publish_copy_frame:
  assumes "publish_copy mp ops p next c = (None, c')"
  shows "taskStatuses c' = taskStatuses c" "c_workers c' = c_workers c" "c_config c' = c_config c" "c_epoch c' = c_epoch c"
    "recoveryFenceUntil c' = recoveryFenceUntil c" "c_cells c' p = next"
proof -
  obtain c1 where c1: "persist_copy mp ops next c = (None, c1)"
    and c': "c' = (set_cell p next c1)\<lparr>c_jobs := AList.update (job_ID next) p (c_jobs (set_cell p next c1))\<rparr>"
    using assms by (auto simp: publish_copy_def Let_def split: prod.splits option.splits)
  show "taskStatuses c' = taskStatuses c" "c_workers c' = c_workers c" "c_config c' = c_config c" "c_epoch c' = c_epoch c"
    "recoveryFenceUntil c' = recoveryFenceUntil c" "c_cells c' p = next"
    using persist_copy_frame [OF c1] by (simp_all add: c' set_cell_def)
qed

lemma publish_copy_store:
  assumes "metadata_store ops contents store_ok" "store_ok (c_store c)" "publish_copy mp ops p next c = (None, c')" "k \<noteq> JobMetaKey (job_ID next)"
  shows "store_ok (c_store c') \<and> contents (c_store c') k = contents (c_store c) k"
  using assms(2-) metadata_store.set [OF assms(1)]
  by (fastforce simp: publish_copy_def Let_def set_cell_def persist_copy_def persistJobLocked_def split: if_splits prod.splits option.splits)

lemma restart_scan_empty:
  "restart_scan c now jobID assignment l cancels = Some [] \<Longrightarrow> cancels = [] \<and> (\<forall>(taskID, workerID) \<in> set l.
     \<not> fenced c now assignment (map_of (c_workers c) workerID)
     \<and> (\<forall>w. map_of (c_workers c) workerID = Some w \<and> heartbeat_recent c now w \<longrightarrow> stopped (mget (taskStatuses c) taskID TaskStatusUnknown)))"
proof (induction c now jobID assignment l cancels rule: restart_scan.induct)
  case (2 c now jobID assignment taskID workerID rest cancels)
  then show ?case by (auto simp: Let_def split: if_splits option.splits)
qed simp

text \<open>The state in which the old tasks are examined.\<close>

lemma rollback_frame:
  assumes "metadata_store ops contents store_ok" "store_ok (c_store c)" "rollbackFailedRescale mp ops p c = (None, c1)"
  shows "taskStatuses c1 = taskStatuses c \<and> c_workers c1 = c_workers c \<and> c_config c1 = c_config c \<and> c_epoch c1 = c_epoch c
    \<and> recoveryFenceUntil c1 = recoveryFenceUntil c \<and> store_ok (c_store c1)
    \<and> contents (c_store c1) (JobAssignmentsKey (job_ID (c_cells c p))) = contents (c_store c) (JobAssignmentsKey (job_ID (c_cells c p)))
    \<and> job_ID (c_cells c1 p) = job_ID (c_cells c p) \<and> job_Status (c_cells c1 p) = job_Status (c_cells c p)
    \<and> RecoveryAttempts (c_cells c1 p) = RecoveryAttempts (c_cells c p) \<and> (RescaleRequested (c_cells c1 p) \<longrightarrow> RescaleRequested (c_cells c p))"
proof (cases "c1 = c")
  case False
  then obtain old where pc: "publish_copy mp ops p (rolled_back old (c_cells c p)) c = (None, c1)"
    using assms(3) by (auto simp: rollbackFailedRescale_def Let_def split: if_splits option.splits)
  have "JobAssignmentsKey (job_ID (c_cells c p)) \<noteq> JobMetaKey (job_ID (rolled_back old (c_cells c p)))"
    by (simp add: JobAssignmentsKey_def JobMetaKey_def rolled_back_def)
  from publish_copy_store [OF assms(1,2) pc this] publish_copy_frame [OF pc] show ?thesis by (simp add: rolled_back_def)
qed (simp add: assms(2))

lemma restart_allowed_True:
  "restart_allowed mp ops now p job c = (True, c') \<Longrightarrow>
     RescaleRequested job \<or> RecoveryAttempts job < RestartMaxAttempts (c_config c)
       \<and> (RecoveryAttempts job > 0 \<longrightarrow> restart_backoff c (RecoveryAttempts job) \<le> Sub now (UpdatedAt job))"
  by (auto simp: restart_allowed_def split: if_splits)

lemma notify_config [simp]: "c_config (enqueueCommandLocked i cmd c) = c_config c"
  by (simp add: enqueueCommandLocked_def split: option.split)

lemma restart_cases:
  assumes "prepareTaskRestart mp ops now p c = (True, c')"
  obtains c1 data assignment c2 where "rollbackFailedRescale mp ops p c = (None, c1)" "job_Status (c_cells c1 p) = JobFailing"
    "Get ops (c_store c1) (JobAssignmentsKey (job_ID (c_cells c1 p))) = Inr data" "dec_tam mp (nil_bytes data) = Some assignment"
    "restart_scan c1 now (job_ID (c_cells c1 p)) assignment (Assignments assignment) [] = Some []"
    "abort_active mp ops now (job_ID (c_cells c1 p)) c1 = (None, c2)" "restart_allowed mp ops now p (c_cells c1 p) c2 = (True, c')"
  using assms by (auto simp: prepareTaskRestart_def Let_def split: prod.splits option.splits sum.splits if_splits)

lemma notify_tasks_config [simp]: "c_config (notify_tasks t jobID data tasks c) = c_config c"
  unfolding notify_tasks_def by (induction tasks arbitrary: c) auto

lemma abort_publish_config [simp]: "c_config (abort_publish cp failed command c) = c_config c"
  by (simp add: abort_publish_def Let_def set_cell_def split: option.split)

lemma abort_config: "abortCheckpoint mp ops now jobID cpID epoch failure c = (e, c') \<Longrightarrow> c_config c' = c_config c"
  by (auto simp: abortCheckpoint_def Let_def split: if_splits sum.splits option.splits prod.splits)

lemma abort_active_config: "abort_active mp ops now jobID c = (e, c') \<Longrightarrow> c_config c' = c_config c"
  using abort_config by (fastforce simp: abort_active_def AbortCheckpoint_def split: option.splits if_splits)

text \<open>C23. A job is not deployed again while its old attempt may still run. When the restart of a
  failing job is allowed, every task of the stored assignment has reported a terminal status if its
  worker is alive, no worker of an earlier epoch is inside the recovery fence, and, unless a rescale
  asked for the restart, the recovery attempts are within the budget.\<close>

theorem restart_waits_for_old_attempt:
  assumes "metadata_store ops contents store_ok" "store_ok (c_store c)"
    and "prepareTaskRestart mp ops now p c = (True, c')"
  shows "job_Status (c_cells c p) = JobFailing
    \<and> (\<exists>assignment. dec_tam mp (nil_bytes (contents (c_store c) (JobAssignmentsKey (job_ID (c_cells c p))))) = Some assignment
        \<and> (\<forall>(taskID, workerID) \<in> set (Assignments assignment).
             \<not> (tam_EpochID assignment < c_epoch c \<and> now < recoveryFenceUntil c
                \<and> (case map_of (c_workers c) workerID of None \<Rightarrow> True | Some w \<Rightarrow> IsZero (LastHeartbeat w)))
             \<and> (\<forall>w. map_of (c_workers c) workerID = Some w \<and> heartbeat_recent c now w \<longrightarrow>
                  stopped (mget (taskStatuses c) taskID TaskStatusUnknown))))
    \<and> (RescaleRequested (c_cells c p) \<or> RecoveryAttempts (c_cells c p) < RestartMaxAttempts (c_config c))"
proof -
  obtain c1 data assignment c2 where r: "rollbackFailedRescale mp ops p c = (None, c1)" "job_Status (c_cells c1 p) = JobFailing"
    "Get ops (c_store c1) (JobAssignmentsKey (job_ID (c_cells c1 p))) = Inr data" "dec_tam mp (nil_bytes data) = Some assignment"
    "restart_scan c1 now (job_ID (c_cells c1 p)) assignment (Assignments assignment) [] = Some []"
    "abort_active mp ops now (job_ID (c_cells c1 p)) c1 = (None, c2)" "restart_allowed mp ops now p (c_cells c1 p) c2 = (True, c')"
    by (rule restart_cases [OF assms(3)])
  note f = rollback_frame [OF assms(1,2) r(1)]
  have "data = contents (c_store c) (JobAssignmentsKey (job_ID (c_cells c p)))"
    using metadata_store.get [OF assms(1) _ r(3)] f by simp
  moreover have "heartbeat_recent c1 now w = heartbeat_recent c now w" for w using f by (simp add: heartbeat_recent_def)
  moreover have "fenced c1 now assignment w = fenced c now assignment w" for w using f by (simp add: fenced_def)
  ultimately have "dec_tam mp (nil_bytes (contents (c_store c) (JobAssignmentsKey (job_ID (c_cells c p))))) = Some assignment"
    "\<forall>(taskID, workerID) \<in> set (Assignments assignment). \<not> fenced c now assignment (map_of (c_workers c) workerID)
       \<and> (\<forall>w. map_of (c_workers c) workerID = Some w \<and> heartbeat_recent c now w \<longrightarrow> stopped (mget (taskStatuses c) taskID TaskStatusUnknown))"
    using r(4) restart_scan_empty [OF r(5)] f by simp_all
  then show ?thesis using r(2) f restart_allowed_True [OF r(7)] abort_active_config [OF r(6)] unfolding fenced_def by auto
qed

definition example_failing_coord :: "MemoryStore Coordinator" where
  "example_failing_coord = (set_cell 0 (zero_job\<lparr>job_ID := ''j'', job_Status := JobFailing\<rparr>) example_sched_coord)\<lparr>
     c_store := \<lparr>entries = [(JobAssignmentsKey ''j'', [5])], mem_closed = False\<rparr>, taskStatuses := [(''t'', TaskStatusFailed)]\<rparr>"

definition example_restart_codec :: msgpack where
  "example_restart_codec = no_msgpack\<lparr>dec_tam := (\<lambda>_. Some (new_assignment ''a0'' ''j'' [(''w1'', [zero_task\<lparr>td_TaskID := ''t''\<rparr>])]))\<rparr>"

lemma example_restart: "prepareTaskRestart example_restart_codec memory_ops 2 0 example_failing_coord = (True, example_failing_coord)"
proof -
  let ?c = example_failing_coord
  have job: "c_cells ?c 0 = zero_job\<lparr>job_ID := ''j'', job_Status := JobFailing\<rparr>" by (simp add: example_failing_coord_def set_cell_def)
  have ready: "readyLocked ?c"
    by (simp add: readyLocked_def example_failing_coord_def example_sched_coord_def set_cell_def example_coord_def New_def)
  have g: "Get memory_ops (c_store ?c) (JobAssignmentsKey ''j'') = Inr (Some [5])"
    by (simp add: memory_read example_failing_coord_def)
  let ?a = "new_assignment ''a0'' ''j'' [(''w1'', [zero_task\<lparr>td_TaskID := ''t''\<rparr>])]"
  have s: "restart_scan ?c 2 ''j'' ?a (Assignments ?a) [] = Some []"
    by (simp add: new_assignment_def fenced_def stopped_def mget_def zero_task_def)
      (simp add: example_failing_coord_def example_sched_coord_def set_cell_def example_coord_def New_def)
  have "abort_active example_restart_codec memory_ops 2 ''j'' ?c = (None, ?c)"
    by (simp add: abort_active_def example_failing_coord_def example_sched_coord_def set_cell_def example_coord_def New_def)
  moreover have "restart_allowed example_restart_codec memory_ops 2 0 (zero_job\<lparr>job_ID := ''j'', job_Status := JobFailing\<rparr>) ?c = (True, ?c)"
    by (simp add: restart_allowed_def zero_job_def)
      (simp add: example_failing_coord_def example_sched_coord_def set_cell_def example_coord_def New_def resolve_def example_coord_config_def)
  moreover have "tam_JobID ?a = ''j''" by (simp add: new_assignment_def)
  moreover have "rollbackFailedRescale example_restart_codec memory_ops 0 ?c = (None, ?c)"
    by (simp add: rollbackFailedRescale_def job zero_job_def)
  moreover have "dec_tam example_restart_codec d = Some ?a" for d by (simp add: example_restart_codec_def)
  ultimately show ?thesis using s g ready by (simp add: prepareTaskRestart_def job)
qed

theorem restart_waits_for_old_attempt_witness:
  "prepareTaskRestart example_restart_codec memory_ops 2 0 example_failing_coord = (True, example_failing_coord)
   \<and> job_Status (c_cells example_failing_coord 0) = JobFailing"
proof -
  have "keys_ok (entries (c_store example_failing_coord))" by (simp add: example_failing_coord_def keys_ok_def)
  from restart_waits_for_old_attempt [OF memory.metadata_store_axioms this example_restart] show ?thesis using example_restart by blast
qed

section \<open>Two consequences of the code\<close>

text \<open>Placement counts the free slots of all workers together and then deals the tasks out in turn. Four
  tasks on workers with three and one free slots fit, but the second worker gets two of them, and
  the check under the lock refuses the placement, in this and in every later round.\<close>

lemma placement_ignores_free_slots:
  fixes t :: TaskDescriptor
  shows "\<exists>planned. assignTasks example_sched_coord 2 [t, t, t, t] = Inr planned \<and> \<not> assignmentsLiveLocked example_sched_coord 2 planned []"
proof -
  have e: "eligible_slots example_sched_coord 2 = [\<lparr>slot_id = ''w1'', slot_avail = 3\<rparr>, \<lparr>slot_id = ''w2'', slot_avail = 1\<rparr>]"
    using example_live by (simp add: eligible_slots_def) (simp add: example_sched_coord_def example_worker_def)
  have "assignTasks example_sched_coord 2 [t, t, t, t] = Inr [(''w1'', [t, t]), (''w2'', [t, t])]"
    by (simp add: assignTasks_def e Let_def mget_def mod_Suc)
  moreover have "\<not> assignmentsLiveLocked example_sched_coord 2 [(''w1'', [t, t]), (''w2'', [t, t])] []"
    by (simp add: assignmentsLiveLocked_def) (simp add: example_sched_coord_def example_worker_def)
  ultimately show ?thesis by blast
qed

text \<open>When recovery falls back to an older checkpoint, the cached job becomes the persisted copy, and the
  deployment is recorded in the pointer the scheduler holds: the cached job does not become
  \<open>JobDeploying\<close> and keeps the old deployment generation.\<close>

lemma fallback_detaches_cached_job:
  assumes "commit_deployment mp js ops now p attempt tasks planned peers c = (Deployed tam deployed, c')"
    and "p < c_fresh c" "LatestCheckpoint (c_cells c' p) \<noteq> LatestCheckpoint (c_cells c p)"
  shows "\<exists>job. job_of c' (job_ID (c_cells c p)) = Some job \<and> job_Status job \<in> {JobCreated, JobFailing}
    \<and> DeploymentGeneration job = DeploymentGeneration (c_cells c p)"
proof -
  obtain assignments c1 where k: "job_Status (c_cells c p) \<in> {JobCreated, JobFailing}"
    and ad: "c1 = c \<or> (\<exists>i. adopt_checkpoint mp ops p i c = (None, c1))"
    and pub: "publish_deployment mp ops now p attempt tasks planned assignments c1 = (Deployed tam deployed, c')"
    by (rule commit_cases [OF assms(1)])
  have cells: "c_cells c' = (c_cells c1)(p := deployed_job now (DeploymentGeneration (c_cells c1 p) + 1) (c_cells c1 p))"
    and jobs: "c_jobs c' = c_jobs c1" by (rule publish_cases [OF pub], assumption)+
  have "LatestCheckpoint (c_cells c1 p) \<noteq> LatestCheckpoint (c_cells c p)"
    using assms(3) cells by (simp add: deployed_job_def Let_def split: if_splits)
  then obtain i where i: "adopt_checkpoint mp ops p i c = (None, c1)" "i \<noteq> LatestCheckpoint (c_cells c p)"
    using ad adopt_latest by metis
  obtain c0 where c0: "persist_copy mp ops ((c_cells c p)\<lparr>LatestCheckpoint := i\<rparr>) c = (None, c0)"
    and c1: "c1 = set_cell p ((c_cells c0 p)\<lparr>LatestCheckpoint := i\<rparr>) c0"
    using i by (auto simp: adopt_checkpoint_def Let_def split: prod.splits option.splits)
  have "map_of (c_jobs c') (job_ID (c_cells c p)) = Some (c_fresh c)"
    using persist_copy_frame(9) [OF c0] by (simp add: jobs c1 set_cell_def update_conv')
  moreover have "c_cells c' (c_fresh c) = (c_cells c p)\<lparr>LatestCheckpoint := i\<rparr>"
    using persist_copy_frame(7) [OF c0] assms(2) by (simp add: cells c1 set_cell_def)
  ultimately show ?thesis using k by (simp add: job_of_def)
qed

end
