(* ===== verification/Error_Handler.thy ===== *)
theory Error_Handler
  imports Coord_Types Events
begin

text \<open>
  Error handling of one operator call (\<^verbatim>\<open>internal/engine/error_handler.go\<close>) and the policies
  that configure it (\<^verbatim>\<open>internal/errorpolicy/policy.go\<close>).

  User code (operators, sinks, dead-letter writers), the context, the clock and the channels to
  other goroutines are the environment: functions on an abstract environment state \<open>'w\<close>, so
  that an answer may depend on everything that happened before. What the task does to the
  outside is recorded in a trace of effects. A call of user code ends in an \<open>outcome\<close>: a value,
  an error, or a panic. The retry loop is a partial function, because its counter is a machine
  integer and nothing else bounds it.
\<close>

section \<open>Errors\<close>

datatype error_leaf =
    ErrFatal
  | ErrTransient
  | ErrOperatorPanic
  | ErrRetriesExhausted
  | ErrBeginTransactionFailed
  | ErrPreCommitFailed
  | ErrCommitFailed
  | ErrTransactionAborted
  | ErrAbortFailed
  | ErrUncommittedTransactionAtEOF
  | ErrChainDone
  | ContextCanceled
  | DeadlineExceeded
  | Errno nat
  | NetError bool
  | OtherError string

text \<open>An error is a tree: \<^verbatim>\<open>fmt.Errorf\<close> with \<^verbatim>\<open>%w\<close> and \<^verbatim>\<open>errors.Join\<close> add an inner node. A node
  has its text, and a node such as \<^verbatim>\<open>*net.OpError\<close> answers \<^verbatim>\<open>Timeout()\<close> itself.\<close>

datatype go_error = Leaf error_leaf | Wrap string "bool option" "go_error list"

text \<open>\<^verbatim>\<open>errors.Is\<close> and \<^verbatim>\<open>errors.As\<close> walk the tree in preorder; the latter finds the first
  error with a \<^verbatim>\<open>Timeout\<close> method. On Linux \<^verbatim>\<open>EAGAIN\<close> is 11 and \<^verbatim>\<open>ETIMEDOUT\<close> is 110.\<close>

fun errors_Is :: "go_error \<Rightarrow> error_leaf \<Rightarrow> bool" where
  "errors_Is (Leaf l) target = (l = target)"
| "errors_Is (Wrap _ _ es) target = list_ex (\<lambda>e. errors_Is e target) es"

fun leaf_timeout :: "error_leaf \<Rightarrow> bool option" where
  "leaf_timeout (NetError t) = Some t"
| "leaf_timeout (Errno n) = Some (n = 11 \<or> n = 110)"
| "leaf_timeout DeadlineExceeded = Some True"
| "leaf_timeout _ = None"

fun first_some :: "'a option list \<Rightarrow> 'a option" where
  "first_some [] = None"
| "first_some (Some x # xs) = Some x"
| "first_some (None # xs) = first_some xs"

fun network_timeout :: "go_error \<Rightarrow> bool option" where
  "network_timeout (Leaf l) = leaf_timeout l"
| "network_timeout (Wrap _ (Some t) es) = Some t"
| "network_timeout (Wrap _ None es) = first_some (map network_timeout es)"

fun leaf_text :: "error_leaf \<Rightarrow> string" where
  "leaf_text ErrFatal = ''engine: fatal error''"
| "leaf_text ErrTransient = ''engine: transient error''"
| "leaf_text ErrOperatorPanic = ''engine: operator panic''"
| "leaf_text ErrRetriesExhausted = ''engine: retries exhausted''"
| "leaf_text ErrBeginTransactionFailed = ''engine: transactional sink begin transaction failed''"
| "leaf_text ErrPreCommitFailed = ''engine: transactional sink pre-commit failed''"
| "leaf_text ErrCommitFailed = ''engine: transactional sink commit failed''"
| "leaf_text ErrTransactionAborted =
     ''engine: transaction aborted; checkpoint recovery required''"
| "leaf_text ErrAbortFailed = ''engine: transactional sink abort failed''"
| "leaf_text ErrUncommittedTransactionAtEOF =
     ''engine: source ended without a final committed transaction''"
| "leaf_text ErrChainDone = ''operator chain done''"
| "leaf_text ContextCanceled = ''context canceled''"
| "leaf_text DeadlineExceeded = ''context deadline exceeded''"
| "leaf_text (Errno n) = ''errno''"
| "leaf_text (NetError t) = ''network error''"
| "leaf_text (OtherError m) = m"

fun error_text :: "go_error \<Rightarrow> string" where
  "error_text (Leaf l) = leaf_text l"
| "error_text (Wrap m _ _) = m"

text \<open>\<^verbatim>\<open>fmt.Errorf("%w: %w", a, b)\<close> and its variant that keeps only the text of \<open>b\<close>.\<close>

definition wrap_both :: "error_leaf \<Rightarrow> go_error \<Rightarrow> go_error" where
  "wrap_both a b = Wrap (leaf_text a @ '': '' @ error_text b) None [Leaf a, b]"

definition wrap_first :: "error_leaf \<Rightarrow> string \<Rightarrow> go_error" where
  "wrap_first a m = Wrap (leaf_text a @ '': '' @ m) None [Leaf a]"

section \<open>The environment\<close>

datatype 'a outcome = Return 'a | Fault go_error | Panic string

record DLQEvent =
  OriginalEvent :: Event
  dlq_Error :: string
  dlq_OperatorName :: string
  dlq_Timestamp :: int
  RetryCount :: int

type_synonym ErrorClass = u8

datatype counter = RetryTotal | DLQTotal | DLQOverflowTotal | DropTotal | ErrorTotal ErrorClass

text \<open>The effects of a task: calls of the transactional sink and of plain sinks with their
  success, messages to other goroutines, and metrics.\<close>

datatype effect =
    Received ControlMsg
  | BeginTransaction bool
  | Write Event bool
  | PreCommit u64 u64 bool
  | Commit u64 bool
  | Abort bool
  | Acked u64
  | Submitted u64 u64 bool
  | Sent OutputMsg
  | DeadLetter DLQEvent
  | Counted counter string

record 'w world =
  w_env :: 'w
  trace :: "effect list"

type_synonym ('w, 'a) user_call = "'w \<Rightarrow> 'a outcome \<times> 'w"

text \<open>The context, the clock and the channels. A wait answers \<open>None\<close> when what it waits for
  happened, and the context error when the context ended first. A send on the output channel may
  block for ever; then it has no answer. \<open>arrivals\<close> are the records that reader goroutines have
  added to the input channel since it was last looked at. The answers are functions of a world that
  every call may change, so that a theorem about every environment covers every choice of a
  \<^verbatim>\<open>select\<close> with several ready cases.\<close>

record 'w chain_env =
  ctx_Err :: "'w \<Rightarrow> go_error option \<times> 'w"
  time_After :: "int \<Rightarrow> 'w \<Rightarrow> go_error option \<times> 'w"
  time_Now :: "'w \<Rightarrow> int \<times> 'w"
  dlqCh :: "(DLQEvent \<Rightarrow> 'w \<Rightarrow> bool \<times> 'w) option"
  outputCh :: "OutputMsg \<Rightarrow> 'w \<Rightarrow> (go_error option \<times> 'w) option"
  arrivals :: "'w \<Rightarrow> Event list \<times> 'w"
  uploader_Submit :: "u64 \<Rightarrow> u64 \<Rightarrow> bytes list \<Rightarrow> nat list \<Rightarrow> bool \<Rightarrow> u64 \<Rightarrow> 'w
    \<Rightarrow> go_error option \<times> 'w"
  uploader_Cancel :: "u64 \<Rightarrow> u64 \<Rightarrow> 'w \<Rightarrow> 'w"
  cp_notify :: "u64 \<Rightarrow> u64 \<Rightarrow> go_error option \<Rightarrow> 'w \<Rightarrow> go_error option \<times> 'w"
  marshal_handle :: "SnapshotHandle \<Rightarrow> bytes"

definition ask :: "('w \<Rightarrow> 'a \<times> 'w) \<Rightarrow> ('w, 'z) world_scheme \<Rightarrow> 'a \<times> ('w, 'z) world_scheme" where
  "ask f s = (let (a, w) = f (w_env s) in (a, s\<lparr>w_env := w\<rparr>))"

definition logged :: "effect \<Rightarrow> ('w, 'z) world_scheme \<Rightarrow> ('w, 'z) world_scheme" where
  "logged e s = s\<lparr>trace := trace s @ [e]\<rparr>"

text \<open>A call whose success is recorded.\<close>

definition call_logged ::
  "(bool \<Rightarrow> effect) \<Rightarrow> ('w, 'a) user_call \<Rightarrow> ('w, 'z) world_scheme
     \<Rightarrow> 'a outcome \<times> ('w, 'z) world_scheme" where
  "call_logged eff f s =
     (case ask f s of
        (Return a, s') \<Rightarrow> (Return a, logged (eff True) s')
      | (r, s') \<Rightarrow> (r, logged (eff False) s'))"

section \<open>Classification\<close>

definition ErrorClassTransient :: ErrorClass where "ErrorClassTransient = 0"
definition ErrorClassPoison :: ErrorClass where "ErrorClassPoison = 1"
definition ErrorClassFatal :: ErrorClass where "ErrorClassFatal = 2"

definition defaultClassifier :: "go_error \<Rightarrow> ErrorClass" where
  "defaultClassifier err =
     (if errors_Is err ErrFatal \<or> errors_Is err (Errno 28) \<or> errors_Is err (Errno 12)
      then ErrorClassFatal
      else if errors_Is err ErrTransient \<or> errors_Is err (Errno 104)
        \<or> errors_Is err (Errno 111) \<or> errors_Is err (Errno 32)
      then ErrorClassTransient
      else if network_timeout err = Some True then ErrorClassTransient
      else ErrorClassPoison)"

datatype ExhaustedAction = FailJob | RouteToDLQ | DropEvent

text \<open>The custom classifier and the backoff of a policy are taken to be pure functions that return. The
  code calls them outside \<open>safeInvoke\<close>, so that a panic in one of them would leave the guarded call;
  policies compiled from a descriptor set no classifier, and their backoffs are those below.\<close>

record 'w ErrorHandlerConfig =
  DLQWriter :: "(DLQEvent \<Rightarrow> ('w, unit) user_call) option"
  OperatorName :: string
  MaxRetries :: int
  Backoff :: "(int \<Rightarrow> int) option"
  OnExhausted :: ExhaustedAction
  Classifier :: "(go_error \<Rightarrow> ErrorClass) option"

definition zero_config :: "'w ErrorHandlerConfig" where
  "zero_config = \<lparr>DLQWriter = None, OperatorName = '''', MaxRetries = 0, Backoff = None,
     OnExhausted = FailJob, Classifier = None\<rparr>"

definition classify :: "'w ErrorHandlerConfig \<Rightarrow> go_error \<Rightarrow> ErrorClass" where
  "classify cfg err =
     (let classified = defaultClassifier err
      in if classified = ErrorClassFatal then classified
         else case Classifier cfg of
           Some f \<Rightarrow> (let custom = f err
                     in if custom > ErrorClassFatal then ErrorClassFatal else custom)
         | None \<Rightarrow> classified)"

section \<open>One guarded call\<close>

definition counted ::
  "counter \<Rightarrow> 'w ErrorHandlerConfig \<Rightarrow> ('w, 'z) world_scheme \<Rightarrow> ('w, 'z) world_scheme" where
  "counted c cfg s = logged (Counted c (OperatorName cfg)) s"

definition recordOperatorError ::
  "'w ErrorHandlerConfig \<Rightarrow> ErrorClass \<Rightarrow> ('w, 'z) world_scheme \<Rightarrow> ('w, 'z) world_scheme" where
  "recordOperatorError cfg cls s = counted (ErrorTotal cls) cfg s"

definition safeInvoke ::
  "('s \<Rightarrow> 'a outcome \<times> 's) \<Rightarrow> 's \<Rightarrow> (go_error + 'a) \<times> 's" where
  "safeInvoke fn s =
     (case fn s of
        (Return a, s') \<Rightarrow> (Inr a, s')
      | (Fault e, s') \<Rightarrow> (Inl e, s')
      | (Panic v, s') \<Rightarrow> (Inl (wrap_first ErrOperatorPanic v), s'))"

text \<open>The result is \<open>Return None\<close> when the event was handled without a result: sent to the
  dead-letter queue or dropped.\<close>

definition handleExhausted ::
  "'w chain_env \<Rightarrow> 'w ErrorHandlerConfig \<Rightarrow> Event \<Rightarrow> go_error \<Rightarrow> int \<Rightarrow> ('w, 'z) world_scheme
     \<Rightarrow> 'a option outcome \<times> ('w, 'z) world_scheme" where
  "handleExhausted env cfg event err retryCount s =
     (case ask (ctx_Err env) s of
        (Some e, s1) \<Rightarrow> (Fault e, s1)
      | (None, s1) \<Rightarrow>
          (case OnExhausted cfg of
             RouteToDLQ \<Rightarrow>
               (let (now, s2) = ask (time_Now env) s1;
                    dlqEvent = \<lparr>OriginalEvent = event, dlq_Error = error_text err,
                      dlq_OperatorName = OperatorName cfg, dlq_Timestamp = now div 1000000,
                      RetryCount = retryCount\<rparr>
                in case DLQWriter cfg of
                     Some writer \<Rightarrow>
                       (case safeInvoke (ask (writer dlqEvent)) s2 of
                          (Inl writeErr, s3) \<Rightarrow>
                            (case ask (ctx_Err env) s3 of
                               (Some e, s4) \<Rightarrow> (Fault e, s4)
                             | (None, s4) \<Rightarrow> (Return None, counted DropTotal cfg s4))
                        | (Inr _, s3) \<Rightarrow>
                            (Return None, counted DLQTotal cfg (logged (DeadLetter dlqEvent) s3)))
                   | None \<Rightarrow>
                       (case dlqCh env of
                          Some offer \<Rightarrow>
                            (case ask (offer dlqEvent) s2 of
                               (True, s3) \<Rightarrow>
                                 (Return None,
                                  counted DLQTotal cfg (logged (DeadLetter dlqEvent) s3))
                             | (False, s3) \<Rightarrow>
                                 (Return None,
                                  counted DropTotal cfg (counted DLQOverflowTotal cfg s3)))
                        | None \<Rightarrow> (Return None, counted DropTotal cfg s2)))
           | DropEvent \<Rightarrow> (Return None, counted DropTotal cfg s1)
           | FailJob \<Rightarrow> (Fault err, s1)))"

definition backoff_wait ::
  "'w chain_env \<Rightarrow> 'w ErrorHandlerConfig \<Rightarrow> int \<Rightarrow> ('w, 'z) world_scheme
     \<Rightarrow> go_error option \<times> ('w, 'z) world_scheme" where
  "backoff_wait env cfg attempt s =
     (case Backoff cfg of
        None \<Rightarrow> (None, s)
      | Some f \<Rightarrow>
          (let delay = f (wrap64 (attempt - 1))
           in if delay > 0 then ask (time_After env delay) s else (None, s)))"

partial_function (option) retry_loop ::
  "'w chain_env \<Rightarrow> 'w ErrorHandlerConfig \<Rightarrow> Event
     \<Rightarrow> (('w, 'z) world_scheme \<Rightarrow> 'a outcome \<times> ('w, 'z) world_scheme) \<Rightarrow> int \<Rightarrow> go_error
     \<Rightarrow> ('w, 'z) world_scheme \<Rightarrow> ('a option outcome \<times> ('w, 'z) world_scheme) option" where
  "retry_loop env cfg event fn attempt err s =
     (if attempt > MaxRetries cfg
      then Some (handleExhausted env cfg event (wrap_both ErrRetriesExhausted err)
                   (MaxRetries cfg) s)
      else case ask (ctx_Err env) s of
        (Some e, s1) \<Rightarrow> Some (Fault e, s1)
      | (None, s1) \<Rightarrow>
          (case backoff_wait env cfg attempt s1 of
             (Some e, s2) \<Rightarrow> Some (Fault e, s2)
           | (None, s2) \<Rightarrow>
               (case ask (ctx_Err env) s2 of
                  (Some e, s3) \<Rightarrow> Some (Fault e, s3)
                | (None, s3) \<Rightarrow>
                    (case safeInvoke fn (counted RetryTotal cfg s3) of
                       (Inr a, s4) \<Rightarrow> Some (Return (Some a), s4)
                     | (Inl err', s4) \<Rightarrow>
                         (case ask (ctx_Err env) s4 of
                            (Some e, s5) \<Rightarrow> Some (Fault e, s5)
                          | (None, s5) \<Rightarrow>
                              (let cls = classify cfg err'; s6 = recordOperatorError cfg cls s5
                               in if cls = ErrorClassFatal then Some (Fault err', s6)
                                  else if cls = ErrorClassPoison
                                  then Some (handleExhausted env cfg event err' attempt s6)
                                  else retry_loop env cfg event fn (wrap64 (attempt + 1))
                                         err' s6))))))"

definition invokeWithRetry ::
  "'w chain_env \<Rightarrow> 'w ErrorHandlerConfig \<Rightarrow> Event
     \<Rightarrow> (('w, 'z) world_scheme \<Rightarrow> 'a outcome \<times> ('w, 'z) world_scheme)
     \<Rightarrow> ('w, 'z) world_scheme \<Rightarrow> ('a option outcome \<times> ('w, 'z) world_scheme) option" where
  "invokeWithRetry env cfg event fn s =
     (case ask (ctx_Err env) s of
        (Some e, s1) \<Rightarrow> Some (Fault e, s1)
      | (None, s1) \<Rightarrow>
          (case safeInvoke fn s1 of
             (Inr a, s2) \<Rightarrow> Some (Return (Some a), s2)
           | (Inl err, s2) \<Rightarrow>
               (case ask (ctx_Err env) s2 of
                  (Some e, s3) \<Rightarrow> Some (Fault e, s3)
                | (None, s3) \<Rightarrow>
                    (let cls = classify cfg err; s4 = recordOperatorError cfg cls s3
                     in if cls = ErrorClassFatal then Some (Fault err, s4)
                        else if cls = ErrorClassPoison
                        then Some (handleExhausted env cfg event err 0 s4)
                        else retry_loop env cfg event fn 1 err s4))))"

section \<open>Policies\<close>

definition below_one :: "float64 \<Rightarrow> bool" where
  "below_one x = (case x of NaN \<Rightarrow> False | Infinity positive \<Rightarrow> \<not> positive | Finite q \<Rightarrow> q < 1)"

definition FixedBackoff :: "int \<Rightarrow> int \<Rightarrow> int" where
  "FixedBackoff delay attempt = delay"

text \<open>The product of the initial delay and the power of the multiplier is rounded by the floating
  point unit and \<^verbatim>\<open>math.Pow\<close>; it is the argument \<open>scaled\<close>. A conversion to a duration
  truncates towards zero.\<close>

definition ExponentialBackoff ::
  "(int \<Rightarrow> float64 \<Rightarrow> int \<Rightarrow> float64) \<Rightarrow> int \<Rightarrow> int \<Rightarrow> float64 \<Rightarrow> int \<Rightarrow> int" where
  "ExponentialBackoff scaled initialDelay maxDelay multiplier attempt =
     (if initialDelay \<le> 0 \<or> maxDelay \<le> 0 then 0
      else
        let n = (if attempt < 0 then 0 else attempt);
            m = (if multiplier = NaN \<or> below_one multiplier then Finite 1 else multiplier)
        in case scaled initialDelay m n of
             Infinity positive \<Rightarrow> (if positive then maxDelay else MinInt64)
           | NaN \<Rightarrow> MinInt64
           | Finite d \<Rightarrow>
               (if d \<ge> of_int maxDelay then maxDelay
                else if d \<ge> 0 then \<lfloor>d\<rfloor> else - \<lfloor>- d\<rfloor>))"

definition backoff_strategy ::
  "(int \<Rightarrow> float64 \<Rightarrow> int \<Rightarrow> float64) \<Rightarrow> ErrorPolicy \<Rightarrow> (string + (int \<Rightarrow> int) option)" where
  "backoff_strategy scaled p =
     (if ep_Backoff p = '''' \<or> ep_Backoff p = ''none'' then Inr None
      else if ep_Backoff p = ''fixed''
      then Inr (Some (FixedBackoff (wrap64 (ep_InitialDelayMS p * 1000000))))
      else if ep_Backoff p = ''exponential''
      then (if ep_InitialDelayMS p \<le> 0 \<or> ep_MaxDelayMS p < ep_InitialDelayMS p \<or> ep_Multiplier p = NaN
              \<or> (\<exists>b \<in> {True, False}. ep_Multiplier p = Infinity b) \<or> below_one (ep_Multiplier p)
            then Inl ''invalid exponential backoff''
            else Inr (Some (ExponentialBackoff scaled (wrap64 (ep_InitialDelayMS p * 1000000))
                              (wrap64 (ep_MaxDelayMS p * 1000000)) (ep_Multiplier p))))
      else Inl ''unknown backoff'')"

definition Compile ::
  "(int \<Rightarrow> float64 \<Rightarrow> int \<Rightarrow> float64) \<Rightarrow> ErrorPolicy option \<Rightarrow> string
     \<Rightarrow> (string + 'w ErrorHandlerConfig)" where
  "Compile scaled policy name =
     (let c = zero_config\<lparr>OperatorName := name\<rparr>
      in case policy of
           None \<Rightarrow> Inr c
         | Some p \<Rightarrow>
             (if ep_MaxRetries p < 0 \<or> ep_MaxRetries p > 10000 \<or> ep_InitialDelayMS p < 0
                \<or> ep_MaxDelayMS p < 0 \<or> ep_InitialDelayMS p > go_div MaxInt64 1000000
                \<or> ep_MaxDelayMS p > go_div MaxInt64 1000000
              then Inl ''invalid retry count or delay''
              else
                let action = (if ep_OnExhausted p = '''' \<or> ep_OnExhausted p = ''fail''
                              then Some FailJob
                              else if ep_OnExhausted p = ''drop'' then Some DropEvent
                              else if ep_OnExhausted p = ''dlq'' then Some RouteToDLQ
                              else None)
                in case action of
                     None \<Rightarrow> Inl ''unknown exhausted action''
                   | Some a \<Rightarrow>
                       (case backoff_strategy scaled p of
                          Inl e \<Rightarrow> Inl e
                        | Inr b \<Rightarrow>
                            Inr (c\<lparr>MaxRetries := ep_MaxRetries p, OnExhausted := a,
                                   Backoff := b\<rparr>))))"

section \<open>The retry loop returns\<close>

lemmas world_defs = ask_def logged_def counted_def recordOperatorError_def

lemma retry_loop_returns:
  assumes "in_i64 (MaxRetries cfg)" "MaxRetries cfg < MaxInt64" "MinInt64 \<le> attempt"
  shows "\<exists>r s'. retry_loop env cfg event fn attempt err s = Some (r, s')"
  using assms(3)
proof (induction "nat (MaxRetries cfg + 1 - attempt)" arbitrary: attempt err s rule: less_induct)
  case less
  show ?case
  proof (cases "attempt > MaxRetries cfg")
    case True
    then show ?thesis
      using prod.exhaust_sel by (subst retry_loop.simps) simp
  next
    case False
    have next_attempt: "wrap64 (attempt + 1) = attempt + 1"
      using False less.prems assms(1,2) by (intro wrap64_id) (simp add: in_i64_def)
    have ih: "\<exists>r s'. retry_loop env cfg event fn (attempt + 1) err' t = Some (r, s')" for err' t
      using False less.prems by (intro less.hyps) simp_all
    show ?thesis
      by (subst retry_loop.simps)
        (use False ih next_attempt in
          \<open>auto simp: Let_def split: prod.splits option.splits sum.splits\<close>)
  qed
qed

lemma invokeWithRetry_returns:
  assumes "in_i64 (MaxRetries cfg)" "MaxRetries cfg < MaxInt64"
  shows "\<exists>r s'. invokeWithRetry env cfg event fn s = Some (r, s')"
proof -
  have "\<exists>r s'. retry_loop env cfg event fn 1 err t = Some (r, s')" for err t
    using assms by (intro retry_loop_returns) (simp_all add: MinInt64_def)
  then show ?thesis
    unfolding invokeWithRetry_def
    by (auto simp: Let_def split: prod.splits option.splits sum.splits)
qed

text \<open>A policy that compiles bounds the retries.\<close>

lemma Compile_bounds:
  "Compile scaled policy name = Inr cfg \<Longrightarrow> 0 \<le> MaxRetries cfg \<and> MaxRetries cfg \<le> 10000"
  unfolding Compile_def
  by (auto simp: Let_def zero_config_def split: option.splits if_splits sum.splits)

section \<open>Outcomes of a guarded call\<close>

definition ctx_ended :: "'w chain_env \<Rightarrow> go_error \<Rightarrow> bool" where
  "ctx_ended env e \<longleftrightarrow>
     (\<exists>w w'. ctx_Err env w = (Some e, w') \<or> (\<exists>d. time_After env d w = (Some e, w')))"

text \<open>What each result of a guarded call stands for: the value of a call that returned, an event
  that the policy disposed of and that was counted, or an error that must fail the task.\<close>

definition outcome_ok ::
  "'w chain_env \<Rightarrow> 'w ErrorHandlerConfig \<Rightarrow> Event
     \<Rightarrow> (('w, 'z) world_scheme \<Rightarrow> 'a outcome \<times> ('w, 'z) world_scheme)
     \<Rightarrow> 'a option outcome \<Rightarrow> ('w, 'z) world_scheme \<Rightarrow> bool" where
  "outcome_ok env cfg event fn r s' \<longleftrightarrow>
     (case r of
        Return (Some a) \<Rightarrow> \<exists>t. fn t = (Return a, s')
      | Return None \<Rightarrow>
          OnExhausted cfg \<noteq> FailJob
          \<and> (\<exists>t. s' = counted DropTotal cfg t
               \<or> (\<exists>d. OnExhausted cfg = RouteToDLQ \<and> OriginalEvent d = event
                     \<and> s' = counted DLQTotal cfg (logged (DeadLetter d) t)))
      | Fault e \<Rightarrow> ctx_ended env e \<or> classify cfg e = ErrorClassFatal \<or> OnExhausted cfg = FailJob
      | Panic v \<Rightarrow> False)"

lemma ask_ctx: "ask (ctx_Err env) s = (Some e, s') \<Longrightarrow> ctx_ended env e"
  by (auto simp: ask_def ctx_ended_def split: prod.splits)

lemma backoff_ctx: "backoff_wait env cfg n s = (Some e, s') \<Longrightarrow> ctx_ended env e"
  by (auto simp: backoff_wait_def ask_def ctx_ended_def Let_def
      split: prod.splits option.splits if_splits)

lemma safeInvoke_Inr: "safeInvoke fn s = (Inr a, s') \<Longrightarrow> fn s = (Return a, s')"
  by (auto simp: safeInvoke_def split: prod.splits outcome.splits)

lemma outcome_drop:
  "OnExhausted cfg \<noteq> FailJob \<Longrightarrow> outcome_ok env cfg event fn (Return None) (counted DropTotal cfg t)"
  by (auto simp: outcome_ok_def)

lemma outcome_dlq:
  "OnExhausted cfg = RouteToDLQ \<Longrightarrow> OriginalEvent d = event \<Longrightarrow>
   outcome_ok env cfg event fn (Return None) (counted DLQTotal cfg (logged (DeadLetter d) t))"
  by (auto simp: outcome_ok_def)

lemma outcome_fault:
  "ctx_ended env e \<or> classify cfg e = ErrorClassFatal \<or> OnExhausted cfg = FailJob \<Longrightarrow>
   outcome_ok env cfg event fn (Fault e) s'"
  by (simp add: outcome_ok_def)

lemma outcome_value:
  assumes "safeInvoke fn t = (Inr a, s')"
  shows "outcome_ok env cfg event fn (Return (Some a)) s'"
  using safeInvoke_Inr [OF assms] by (auto simp: outcome_ok_def)

lemma handleExhausted_ok:
  "handleExhausted env cfg event err n s = (r, s') \<Longrightarrow> outcome_ok env cfg event fn r s'"
  unfolding handleExhausted_def Let_def
  by (auto split: prod.splits option.splits ExhaustedAction.splits sum.splits bool.splits
      intro: outcome_drop outcome_dlq outcome_fault dest: ask_ctx)

lemmas outcome_intros =
  outcome_fault [OF disjI1, OF ask_ctx] outcome_fault [OF disjI1, OF backoff_ctx]
  outcome_value outcome_fault [OF disjI2, OF disjI1]

lemma exhausted_pair:
  "q = handleExhausted env cfg event err n s \<Longrightarrow> outcome_ok env cfg event fn (fst q) (snd q)"
  by (rule handleExhausted_ok [of env cfg event err n s]) simp

lemma retry_loop_ok:
  "retry_loop env cfg event fn attempt err s = Some q \<Longrightarrow>
   outcome_ok env cfg event fn (fst q) (snd q)"
proof (induction rule: retry_loop.raw_induct [rotated, consumes 1, case_names step])
  case (step loop env cfg event fn attempt err s q)
  show ?case
    using step(2) by (auto simp: Let_def split: if_splits prod.splits option.splits sum.splits
        intro: outcome_intros exhausted_pair dest: step(1))
qed

lemma invokeWithRetry_ok:
  "invokeWithRetry env cfg event fn s = Some q \<Longrightarrow> outcome_ok env cfg event fn (fst q) (snd q)"
  unfolding invokeWithRetry_def
  by (auto simp: Let_def split: if_splits prod.splits option.splits sum.splits
      intro: outcome_intros exhausted_pair dest: retry_loop_ok)

text \<open>C40. No error of a guarded operator call is lost. For every retry budget but the largest
  integer the call returns, as long as each invocation of the operator does (with a result, an error
  or a panic) and so do the classifier and the backoff of the policy, without a panic. If it returns a result, that is the
  result of an invocation that succeeded; if it returns none, the policy is not to fail the job, and
  the last effect is the count of a delivered dead letter that carries the event, or of a drop; if
  it fails, the context ended, the error is fatal, or the policy is to fail the job; and it never
  panics.\<close>

theorem guarded_call_outcomes:
  assumes "in_i64 (MaxRetries cfg)" "MaxRetries cfg < MaxInt64"
  shows "\<exists>r s'. invokeWithRetry env cfg event fn s = Some (r, s') \<and>
    (case r of
      Return (Some a) \<Rightarrow> \<exists>t. fn t = (Return a, s')
    | Return None \<Rightarrow>
        OnExhausted cfg \<noteq> FailJob
        \<and> (\<exists>es. trace s' = es @ [Counted DropTotal (OperatorName cfg)]
             \<or> (\<exists>d. OnExhausted cfg = RouteToDLQ \<and> OriginalEvent d = event
                \<and> trace s' = es @ [DeadLetter d, Counted DLQTotal (OperatorName cfg)]))
    | Fault e \<Rightarrow>
        (\<exists>w w'. ctx_Err env w = (Some e, w') \<or> (\<exists>delay. time_After env delay w = (Some e, w')))
        \<or> classify cfg e = ErrorClassFatal \<or> OnExhausted cfg = FailJob
    | Panic v \<Rightarrow> False)"
proof -
  obtain r s' where run: "invokeWithRetry env cfg event fn s = Some (r, s')"
    using invokeWithRetry_returns [OF assms] by blast
  then have "outcome_ok env cfg event fn r s'"
    using invokeWithRetry_ok [OF run] by simp
  then have "case r of
      Return (Some a) \<Rightarrow> \<exists>t. fn t = (Return a, s')
    | Return None \<Rightarrow>
        OnExhausted cfg \<noteq> FailJob
        \<and> (\<exists>es. trace s' = es @ [Counted DropTotal (OperatorName cfg)]
             \<or> (\<exists>d. OnExhausted cfg = RouteToDLQ \<and> OriginalEvent d = event
                \<and> trace s' = es @ [DeadLetter d, Counted DLQTotal (OperatorName cfg)]))
    | Fault e \<Rightarrow>
        (\<exists>w w'. ctx_Err env w = (Some e, w') \<or> (\<exists>delay. time_After env delay w = (Some e, w')))
        \<or> classify cfg e = ErrorClassFatal \<or> OnExhausted cfg = FailJob
    | Panic v \<Rightarrow> False"
    unfolding outcome_ok_def ctx_ended_def counted_def logged_def
    by (auto split: outcome.splits option.splits)
  with run show ?thesis by blast
qed

text \<open>An operator that always fails with a transient error, with two retries and a policy that
  drops the event.\<close>

definition example_policy :: "unit ErrorHandlerConfig" where
  "example_policy = zero_config\<lparr>OperatorName := ''map'', MaxRetries := 2, OnExhausted := DropEvent\<rparr>"

definition calm_env :: "unit chain_env" where
  "calm_env =
     \<lparr>ctx_Err = (\<lambda>w. (None, w)), time_After = (\<lambda>_ w. (None, w)), time_Now = (\<lambda>w. (0, w)),
      dlqCh = None, outputCh = (\<lambda>_ w. Some (None, w)), arrivals = (\<lambda>w. ([], w)),
      uploader_Submit = (\<lambda>_ _ _ _ _ _ w. (None, w)), uploader_Cancel = (\<lambda>_ _ w. w),
      cp_notify = (\<lambda>_ _ _ w. (None, w)), marshal_handle = (\<lambda>_. [])\<rparr>"

definition failing_call :: "unit world \<Rightarrow> unit outcome \<times> unit world" where
  "failing_call s = (Fault (Leaf ErrTransient), s)"

lemma example_dropped:
  "\<exists>s'. invokeWithRetry calm_env example_policy (WatermarkEvent 0) failing_call
     \<lparr>w_env = (), trace = []\<rparr> = Some (Return None, s')"
proof -
  have "classify example_policy (Leaf ErrTransient) = ErrorClassTransient"
    by (simp add: classify_def defaultClassifier_def example_policy_def zero_config_def
        ErrorClassTransient_def ErrorClassFatal_def)
  moreover have "ErrorClassTransient \<noteq> ErrorClassFatal" "ErrorClassTransient \<noteq> ErrorClassPoison"
    by (simp_all add: ErrorClassTransient_def ErrorClassFatal_def ErrorClassPoison_def)
  moreover have "MaxRetries example_policy = 2" "Backoff example_policy = None"
    "OnExhausted example_policy = DropEvent"
    by (simp_all add: example_policy_def zero_config_def)
  ultimately show ?thesis
    by (simp add: invokeWithRetry_def retry_loop.simps [of _ _ _ _ 1] retry_loop.simps [of _ _ _ _ 2]
        retry_loop.simps [of _ _ _ _ 3] ask_def calm_env_def safeInvoke_def failing_call_def
        backoff_wait_def handleExhausted_def wrap64_def Let_def)
qed

theorem guarded_call_outcomes_witness:
  "\<exists>s' es. invokeWithRetry calm_env example_policy (WatermarkEvent 0) failing_call
     \<lparr>w_env = (), trace = []\<rparr> = Some (Return None, s')
     \<and> trace s' = es @ [Counted DropTotal ''map'']"
proof -
  obtain s' where run: "invokeWithRetry calm_env example_policy (WatermarkEvent 0) failing_call
     \<lparr>w_env = (), trace = []\<rparr> = Some (Return None, s')"
    using example_dropped by blast
  have "OperatorName example_policy = ''map''" "OnExhausted example_policy = DropEvent"
    by (simp_all add: example_policy_def)
  moreover have "in_i64 (MaxRetries example_policy)" "MaxRetries example_policy < MaxInt64"
    by (simp_all add: example_policy_def in_i64_def MinInt64_def MaxInt64_def)
  note guarded_call_outcomes [OF this, of calm_env "WatermarkEvent 0" failing_call
      "\<lparr>w_env = (), trace = []\<rparr>"]
  ultimately show ?thesis using run by auto
qed

end
