(* ===== verification/Operator_Chain.thy ===== *)
theory Operator_Chain
  imports Error_Handler Barrier Watermark
begin

text \<open>
  The operator chain of a task (\<^verbatim>\<open>internal/engine/operator_chain.go\<close>, with
  \<^verbatim>\<open>ordered_watermark.go\<close>, \<^verbatim>\<open>chain_checkpoint.go\<close>, \<^verbatim>\<open>checkpoint_capture.go\<close>,
  \<^verbatim>\<open>transaction_commit.go\<close> and \<^verbatim>\<open>task_backpressure.go\<close>): records run through the fused
  operators, control messages align checkpoints, drive the two-phase commit of a transactional
  sink and end the task.

  The goroutine of the chain is a state machine. Its state is the record \<open>chainContext\<close>; an
  operation maps a state to an outcome and a state, and is undefined where the code does not
  return. Reader goroutines add records to the input queue at any time, also while the chain drains
  it, and barriers to the aligner between the steps of the chain. Calls of operators and sinks are
  functions of a changing world; one that never returns is a run that stops before it. Statistics
  of records and bytes are left out.
\<close>

section \<open>Operations that may not return\<close>

type_synonym ('s, 'a) act = "'s \<Rightarrow> ('a outcome \<times> 's) option"

definition ret :: "'a \<Rightarrow> ('s, 'a) act" where
  "ret a s = Some (Return a, s)"

definition fault :: "go_error \<Rightarrow> ('s, 'a) act" where
  "fault e s = Some (Fault e, s)"

definition always :: "('s \<Rightarrow> 'a outcome \<times> 's) \<Rightarrow> ('s, 'a) act" where
  "always f s = Some (f s)"

definition modify :: "('s \<Rightarrow> 's) \<Rightarrow> ('s, unit) act" where
  "modify f s = Some (Return (), f s)"

definition andThen :: "('s, 'a) act \<Rightarrow> ('a \<Rightarrow> ('s, 'b) act) \<Rightarrow> ('s, 'b) act" where
  "andThen m f s =
     (case m s of
        None \<Rightarrow> None
      | Some (Return a, s') \<Rightarrow> f a s'
      | Some (Fault e, s') \<Rightarrow> Some (Fault e, s')
      | Some (Panic v, s') \<Rightarrow> Some (Panic v, s'))"

primrec each :: "('x \<Rightarrow> ('s, unit) act) \<Rightarrow> 'x list \<Rightarrow> ('s, unit) act" where
  "each f [] = ret ()"
| "each f (x # xs) = andThen (f x) (\<lambda>_. each f xs)"

primrec gather :: "('x \<Rightarrow> ('s, 'y list) act) \<Rightarrow> 'x list \<Rightarrow> ('s, 'y list) act" where
  "gather f [] = ret []"
| "gather f (x # xs) = andThen (f x) (\<lambda>ys. andThen (gather f xs) (\<lambda>zs. ret (ys @ zs)))"

section \<open>Operators and the chain\<close>

text \<open>Slices are lists here, so a map operator also says whether the key, the value and the headers
  of its result are nil rather than empty: the code takes the zero event as the mark of a filtered
  record.\<close>

type_synonym mapped = "Event \<times> bool"

definition isZeroEvent :: "mapped \<Rightarrow> bool" where
  "isZeroEvent m \<longleftrightarrow> snd m \<and> Key (fst m) = [] \<and> Value (fst m) = [] \<and> EventTime (fst m) = 0
     \<and> Headers (fst m) = []"

datatype 'w op_kind =
    MapOperator "Event \<Rightarrow> ('w, mapped) user_call"
  | FlatMapOperator "Event \<Rightarrow> ('w, Event list) user_call"
  | SinkOperator "Event \<Rightarrow> ('w, unit) user_call"
  | OtherOperator

record 'w Operator =
  op_kind :: "'w op_kind"
  OnWatermark :: "(int \<Rightarrow> ('w, Event list) user_call) option"
  op_Checkpoint :: "u64 \<Rightarrow> ('w, bytes) user_call"
  CheckpointState :: "(u64 \<Rightarrow> ('w, SnapshotHandle) user_call) option"

record 'w TransactionalSink =
  tx_BeginTransaction :: "('w, unit) user_call"
  tx_PreCommit :: "u64 \<Rightarrow> ('w, unit) user_call"
  tx_Commit :: "u64 \<Rightarrow> ('w, unit) user_call"
  tx_Abort :: "('w, unit) user_call"

record 'w ChainLink =
  link_Operator :: "'w Operator"
  link_Config :: "'w ErrorHandlerConfig"

text \<open>What the code passes to the chain when it starts, and the state that it changes.\<close>

record 'w chain =
  links :: "'w ChainLink list"
  txnSink :: "'w TransactionalSink option"
  ackFn :: bool
  chain_inputs :: int

record chainCheckpointState =
  cp_pending :: "(u64 \<times> u64, bool) gomap"
  endPending :: bool

record 'w chainContext = "'w world" +
  checkpoint :: "chainCheckpointState option"
  cc_draining :: bool
  preparedCheckpoint :: u64
  preparedEpoch :: u64
  transactionPrepared :: bool
  transactionDirty :: bool
  transactionAborted :: bool
  transactionDecisionPending :: bool
  lastCommitted :: u64
  lastAborted :: "u64 \<times> u64"
  deferredEOF :: "ControlMsg list"
  deferredEvents :: "Event list"
  inputCh :: "Event list"
  aligner :: BarrierAligner
  tracker :: InputWatermarkTracker
  eofCount :: int

definition buildChainLinks ::
  "'w Operator list \<Rightarrow> 'w ErrorHandlerConfig list \<Rightarrow> 'w ChainLink list" where
  "buildChainLinks operators errorConfigs =
     map (\<lambda>(i, op). \<lparr>link_Operator = op,
            link_Config = (if i < length errorConfigs then errorConfigs ! i else zero_config)\<rparr>)
       (enumerate 0 operators)"

text \<open>The operators that are transactional sinks are given by a predicate.\<close>

definition ValidateTransactionalErrorPolicies ::
  "('w Operator \<Rightarrow> bool) \<Rightarrow> 'w Operator list \<Rightarrow> 'w ErrorHandlerConfig list \<Rightarrow> bool" where
  "ValidateTransactionalErrorPolicies transactional operators configs \<longleftrightarrow>
     (\<forall>i < length operators. transactional (operators ! i) \<and> i < length configs \<longrightarrow>
        MaxRetries (configs ! i) = 0 \<and> OnExhausted (configs ! i) = FailJob)"

section \<open>Processing records\<close>

definition sendOutput :: "'w chain_env \<Rightarrow> OutputMsg \<Rightarrow> ('w chainContext, unit) act" where
  "sendOutput env message cc =
     (case outputCh env message (w_env cc) of
        None \<Rightarrow> None
      | Some (Some e, w) \<Rightarrow> Some (Fault e, cc\<lparr>w_env := w\<rparr>)
      | Some (None, w) \<Rightarrow> Some (Return (), logged (Sent message) (cc\<lparr>w_env := w\<rparr>)))"

definition legacy_metrics ::
  "'w chain_env \<Rightarrow> 'w ErrorHandlerConfig \<Rightarrow> ErrorClass \<Rightarrow> 'w chainContext \<Rightarrow> 'w chainContext" where
  "legacy_metrics env cfg cls cc =
     (case ask (ctx_Err env) cc of
        (Some _, cc') \<Rightarrow> cc'
      | (None, cc') \<Rightarrow> recordOperatorError cfg cls cc')"

definition invokeLegacyWithMetrics ::
  "'w chain_env \<Rightarrow> 'w ErrorHandlerConfig
     \<Rightarrow> ('w chainContext \<Rightarrow> 'a outcome \<times> 'w chainContext) \<Rightarrow> ('w chainContext, 'a) act" where
  "invokeLegacyWithMetrics env cfg fn cc =
     (case fn cc of
        (Return a, cc') \<Rightarrow> Some (Return a, cc')
      | (Fault e, cc') \<Rightarrow> Some (Fault e, legacy_metrics env cfg (defaultClassifier e) cc')
      | (Panic v, cc') \<Rightarrow> Some (Panic v, legacy_metrics env cfg ErrorClassPoison cc'))"

text \<open>\<^verbatim>\<open>fmt.Errorf("...: %w", err)\<close> around a failed call.\<close>

definition wrapping :: "string \<Rightarrow> ('s, 'a) act \<Rightarrow> ('s, 'a) act" where
  "wrapping prefix m s =
     (case m s of
        Some (Fault e, s') \<Rightarrow> Some (Fault (Wrap (prefix @ '': '' @ error_text e) None [e]), s')
      | r \<Rightarrow> r)"

definition hasErrorHandling :: "'w ErrorHandlerConfig \<Rightarrow> bool" where
  "hasErrorHandling cfg \<longleftrightarrow>
     MaxRetries cfg > 0 \<or> OnExhausted cfg \<noteq> FailJob \<or> Classifier cfg \<noteq> None"

definition invokeMapWithRetry ::
  "'w chain_env \<Rightarrow> 'w ErrorHandlerConfig \<Rightarrow> Event \<Rightarrow> (Event \<Rightarrow> ('w, mapped) user_call)
     \<Rightarrow> ('w chainContext, Event list) act" where
  "invokeMapWithRetry env cfg e op =
     (if \<not> hasErrorHandling cfg
      then andThen (wrapping ''map operator'' (invokeLegacyWithMetrics env cfg (ask (op e))))
             (\<lambda>result. ret (if isZeroEvent result then [] else [fst result]))
      else andThen (invokeWithRetry env cfg e (ask (op e)))
             (\<lambda>result. ret (case result of
                Some out \<Rightarrow> (if isZeroEvent out then [] else [fst out]) | None \<Rightarrow> [])))"

definition invokeFlatMapWithRetry ::
  "'w chain_env \<Rightarrow> 'w ErrorHandlerConfig \<Rightarrow> Event \<Rightarrow> (Event \<Rightarrow> ('w, Event list) user_call)
     \<Rightarrow> ('w chainContext, Event list) act" where
  "invokeFlatMapWithRetry env cfg e op =
     (if \<not> hasErrorHandling cfg
      then wrapping ''flatmap operator'' (invokeLegacyWithMetrics env cfg (ask (op e)))
      else andThen (invokeWithRetry env cfg e (ask (op e)))
             (\<lambda>result. ret (case result of Some emitted \<Rightarrow> emitted | None \<Rightarrow> [])))"

definition invokeSinkWithRetry ::
  "'w chain_env \<Rightarrow> 'w chain \<Rightarrow> 'w ErrorHandlerConfig \<Rightarrow> Event \<Rightarrow> (Event \<Rightarrow> ('w, unit) user_call)
     \<Rightarrow> ('w chainContext, unit) act" where
  "invokeSinkWithRetry env ch cfg e op =
     andThen (modify (\<lambda>cc. if txnSink ch \<noteq> None then cc\<lparr>transactionDirty := True\<rparr> else cc))
       (\<lambda>_. if \<not> hasErrorHandling cfg
            then wrapping ''sink operator''
                   (invokeLegacyWithMetrics env cfg (call_logged (Write e) (op e)))
            else andThen (invokeWithRetry env cfg e (call_logged (Write e) (op e)))
                   (\<lambda>_. ret ()))"

definition run_link ::
  "'w chain_env \<Rightarrow> 'w chain \<Rightarrow> 'w ChainLink \<Rightarrow> Event \<Rightarrow> ('w chainContext, Event list) act" where
  "run_link env ch link e =
     (case op_kind (link_Operator link) of
        MapOperator op \<Rightarrow> invokeMapWithRetry env (link_Config link) e op
      | FlatMapOperator op \<Rightarrow> invokeFlatMapWithRetry env (link_Config link) e op
      | SinkOperator op \<Rightarrow>
          andThen (invokeSinkWithRetry env ch (link_Config link) e op) (\<lambda>_. ret [])
      | OtherOperator \<Rightarrow> ret [])"

primrec run_links ::
  "'w chain_env \<Rightarrow> 'w chain \<Rightarrow> 'w ChainLink list \<Rightarrow> Event list
     \<Rightarrow> ('w chainContext, Event list) act" where
  "run_links env ch [] events = ret events"
| "run_links env ch (link # ls) events =
     andThen (gather (run_link env ch link) events) (run_links env ch ls)"

definition processEventFrom ::
  "'w chain_env \<Rightarrow> 'w chain \<Rightarrow> Event \<Rightarrow> 'w ChainLink list \<Rightarrow> ('w chainContext, unit) act" where
  "processEventFrom env ch event ls =
     andThen (run_links env ch ls [event]) (each (\<lambda>e. sendOutput env (OutputData e)))"

text \<open>A panic of a watermark operator becomes an error.\<close>

definition invokeOperator ::
  "('w chainContext \<Rightarrow> 'a outcome \<times> 'w chainContext) \<Rightarrow> ('w chainContext, 'a) act" where
  "invokeOperator fn cc =
     (case safeInvoke fn cc of
        (Inr a, cc') \<Rightarrow> Some (Return a, cc')
      | (Inl e, cc') \<Rightarrow> Some (Fault e, cc'))"

primrec watermark_links ::
  "'w chain_env \<Rightarrow> 'w chain \<Rightarrow> int \<Rightarrow> 'w ChainLink list \<Rightarrow> ('w chainContext, unit) act" where
  "watermark_links env ch timestamp [] = ret ()"
| "watermark_links env ch timestamp (link # ls) =
     andThen
       (case OnWatermark (link_Operator link) of
          None \<Rightarrow> ret ()
        | Some f \<Rightarrow>
            andThen (invokeOperator (ask (f timestamp)))
              (each (\<lambda>event. processEventFrom env ch event ls)))
       (\<lambda>_. watermark_links env ch timestamp ls)"

definition processWatermark ::
  "'w chain_env \<Rightarrow> 'w chain \<Rightarrow> int \<Rightarrow> ('w chainContext, unit) act" where
  "processWatermark env ch timestamp =
     andThen (watermark_links env ch timestamp (links ch))
       (\<lambda>_. sendOutput env (OutputWatermark timestamp))"

definition tracked ::
  "(InputWatermarkTracker \<Rightarrow> InputWatermarkTracker option) \<Rightarrow> ('w chainContext, unit) act" where
  "tracked f cc =
     (case f (tracker cc) of
        None \<Rightarrow> Some (Panic ''index out of range'', cc)
      | Some t \<Rightarrow> Some (Return (), cc\<lparr>tracker := t\<rparr>))"

text \<open>The deferred call that marks a queued record as processed runs on every way out.\<close>

definition processEvent ::
  "'w chain_env \<Rightarrow> 'w chain \<Rightarrow> Event \<Rightarrow> ('w chainContext, unit) act" where
  "processEvent env ch event =
     (let body =
        (case inputWatermark event of
           Some (input, timestamp) \<Rightarrow> tracked (AdvanceWatermark input timestamp)
         | None \<Rightarrow>
             (case ev_watermark event of
                Some timestamp \<Rightarrow> processWatermark env ch timestamp
              | None \<Rightarrow>
                  processEventFrom env ch (event\<lparr>inputActivity := None\<rparr>) (links ch)))
      in case inputActivity event of
           None \<Rightarrow> body
         | Some input \<Rightarrow> (\<lambda>cc.
             case body cc of
               None \<Rightarrow> None
             | Some (r, cc') \<Rightarrow>
                 (let (now, cc'') = ask (time_Now env) cc'
                  in case tracked (recordProcessed now input) cc'' of
                       Some (Panic v, c) \<Rightarrow> Some (Panic v, c)
                     | Some (_, c) \<Rightarrow> Some (r, c)
                     | None \<Rightarrow> None)))"

text \<open>A receive from the input channel: what has arrived is appended to what was queued.\<close>

definition receive_input :: "'w chain_env \<Rightarrow> 'w chainContext \<Rightarrow> Event option \<times> 'w chainContext" where
  "receive_input env cc =
     (case ask (arrivals env) cc of (queued, cc1) \<Rightarrow>
        (case inputCh cc1 @ queued of
           [] \<Rightarrow> (None, cc1\<lparr>inputCh := []\<rparr>)
         | e # q \<Rightarrow> (Some e, cc1\<lparr>inputCh := q\<rparr>)))"

text \<open>The drain ends when the channel is found empty; readers may keep it busy for ever.\<close>

partial_function (option) drainInputCh ::
  "'w chain_env \<Rightarrow> 'w chain \<Rightarrow> 'w chainContext \<Rightarrow> (unit outcome \<times> 'w chainContext) option" where
  "drainInputCh env ch cc =
     (case receive_input env cc of
        (None, cc1) \<Rightarrow> Some (Return (), cc1)
      | (Some event, cc1) \<Rightarrow>
          (case processEvent env ch event cc1 of
             None \<Rightarrow> None
           | Some (Return _, cc2) \<Rightarrow> drainInputCh env ch cc2
           | Some (Fault e, cc2) \<Rightarrow> Some (Fault e, cc2)
           | Some (Panic v, cc2) \<Rightarrow> Some (Panic v, cc2)))"

declare drainInputCh.simps [code]

section \<open>Checkpoints and transactions\<close>

definition captureOperatorCheckpoint ::
  "'w chain_env \<Rightarrow> 'w Operator \<Rightarrow> u64 \<Rightarrow> ('w chainContext, bytes \<times> bool) act" where
  "captureOperatorCheckpoint env operator cid =
     (case CheckpointState operator of
        None \<Rightarrow> andThen (always (ask (op_Checkpoint operator cid))) (\<lambda>data. ret (data, False))
      | Some typed \<Rightarrow>
          andThen (always (ask (typed cid)))
            (\<lambda>handle.
               if hd_CheckpointID handle \<noteq> cid
                 \<or> (hd_BackendType handle \<noteq> ''pebble'' \<and> hd_BackendType handle \<noteq> ''hashmap'')
               then fault (Leaf (OtherError ''invalid typed checkpoint handle''))
               else ret (marshal_handle env handle, True)))"

text \<open>The snapshots of the links from index \<open>i\<close> on, and the indexes of the typed ones.\<close>

primrec capture_links ::
  "'w chain_env \<Rightarrow> u64 \<Rightarrow> nat \<Rightarrow> 'w ChainLink list
     \<Rightarrow> ('w chainContext, bytes list \<times> nat list) act" where
  "capture_links env cid i [] = ret ([], [])"
| "capture_links env cid i (link # ls) =
     andThen (wrapping ''operator checkpoint''
                (captureOperatorCheckpoint env (link_Operator link) cid))
       (\<lambda>(data, typed). andThen (capture_links env cid (Suc i) ls)
          (\<lambda>(snapshots, indexes). ret (data # snapshots, if typed then i # indexes else indexes)))"

definition notified :: "go_error option \<times> 'w chainContext \<Rightarrow> (unit outcome \<times> 'w chainContext)" where
  "notified r = (case r of (None, cc) \<Rightarrow> (Return (), cc) | (Some e, cc) \<Rightarrow> (Fault e, cc))"

definition checkpoint_submit ::
  "'w chain_env \<Rightarrow> u64 \<Rightarrow> u64 \<Rightarrow> bytes list \<Rightarrow> nat list \<Rightarrow> ('w chainContext, unit) act" where
  "checkpoint_submit env cid epoch data indexes cc =
     (case checkpoint cc of
        None \<Rightarrow> Some (Return (), cc)
      | Some c \<Rightarrow>
          (if mget (cp_pending c) (cid, epoch) False then Some (Return (), cc)
           else
             let cc1 = cc\<lparr>checkpoint :=
                   Some (c\<lparr>cp_pending := AList.update (cid, epoch) True (cp_pending c)\<rparr>)\<rparr>;
                 cc2 = logged (Submitted cid epoch (transactionPrepared cc)) cc1
             in case ask (uploader_Submit env cid epoch data indexes (transactionPrepared cc)
                            (lastCommitted cc)) cc2 of
                  (None, cc3) \<Rightarrow> Some (Return (), cc3)
                | (Some e, cc3) \<Rightarrow> Some (notified (ask (cp_notify env cid epoch (Some e)) cc3))))"

definition checkpoint_complete ::
  "'w chain_env \<Rightarrow> u64 \<Rightarrow> u64 \<Rightarrow> go_error option \<Rightarrow> ('w chainContext, unit) act" where
  "checkpoint_complete env cid epoch err cc =
     (case checkpoint cc of
        None \<Rightarrow> Some (Return (), cc)
      | Some c \<Rightarrow>
          (if \<not> mget (cp_pending c) (cid, epoch) False then Some (Return (), cc)
           else
             let cc1 = (if err = None
                        then cc\<lparr>checkpoint :=
                          Some (c\<lparr>cp_pending := AList.delete (cid, epoch) (cp_pending c)\<rparr>)\<rparr>
                        else cc)
             in Some (notified (ask (cp_notify env cid epoch err) cc1))))"

definition checkpoint_abort ::
  "'w chain_env \<Rightarrow> u64 \<Rightarrow> u64 \<Rightarrow> 'w chainContext \<Rightarrow> 'w chainContext" where
  "checkpoint_abort env cid epoch cc =
     (case checkpoint cc of
        None \<Rightarrow> cc
      | Some c \<Rightarrow>
          snd (ask (\<lambda>w. ((), uploader_Cancel env cid epoch w))
            (cc\<lparr>checkpoint :=
               Some (c\<lparr>cp_pending := AList.delete (cid, epoch) (cp_pending c)\<rparr>)\<rparr>)))"

definition transactionCommitAttempts :: nat where "transactionCommitAttempts = 5"
definition transactionCommitBackoff :: int where "transactionCommitBackoff = 100000000"

text \<open>\<open>left\<close> counts the attempts that remain.\<close>

primrec retryTransactionCommit ::
  "'w chain_env \<Rightarrow> 'w TransactionalSink \<Rightarrow> u64 \<Rightarrow> nat \<Rightarrow> go_error option \<Rightarrow> int
     \<Rightarrow> ('w chainContext, unit) act" where
  "retryTransactionCommit env sink cid 0 last_err backoff = (\<lambda>cc.
     Some (Fault (case last_err of
                    None \<Rightarrow> Leaf ErrCommitFailed | Some e \<Rightarrow> wrap_both ErrCommitFailed e), cc))"
| "retryTransactionCommit env sink cid (Suc left) last_err backoff = (\<lambda>cc.
     case ask (ctx_Err env) cc of
       (Some e, cc1) \<Rightarrow> Some (Fault (wrap_both ErrCommitFailed e), cc1)
     | (None, cc1) \<Rightarrow>
         (case safeInvoke (call_logged (Commit cid) (tx_Commit sink cid)) cc1 of
            (Inr _, cc2) \<Rightarrow> Some (Return (), cc2)
          | (Inl e, cc2) \<Rightarrow>
              (if left = 0 then Some (Fault (wrap_both ErrCommitFailed e), cc2)
               else case ask (time_After env backoff) cc2 of
                 (Some ce, cc3) \<Rightarrow> Some (Fault (wrap_both ErrCommitFailed ce), cc3)
               | (None, cc3) \<Rightarrow>
                   retryTransactionCommit env sink cid left (Some e) (wrap64 (backoff * 2)) cc3)))"

definition commitTransaction ::
  "'w chain_env \<Rightarrow> 'w TransactionalSink \<Rightarrow> u64 \<Rightarrow> ('w chainContext, unit) act" where
  "commitTransaction env sink cid =
     retryTransactionCommit env sink cid transactionCommitAttempts None transactionCommitBackoff"

definition emitChainEnd :: "'w chain_env \<Rightarrow> 'w chain \<Rightarrow> ('w chainContext, unit) act" where
  "emitChainEnd env ch cc =
     (if txnSink ch \<noteq> None \<and> transactionDirty cc
      then Some (Fault (Leaf ErrUncommittedTransactionAtEOF), cc)
      else sendOutput env OutputEnd cc)"

text \<open>A sink call whose error is wrapped by the sentinel of the phase. Panics pass through.\<close>

definition sink_call ::
  "(bool \<Rightarrow> effect) \<Rightarrow> ('w, unit) user_call \<Rightarrow> (go_error \<Rightarrow> go_error)
     \<Rightarrow> ('w chainContext, unit) act" where
  "sink_call eff f wrap cc =
     (case call_logged eff f cc of
        (Fault e, cc') \<Rightarrow> Some (Fault (wrap e), cc')
      | r \<Rightarrow> Some r)"

section \<open>Control messages\<close>

text \<open>An aligned barrier. The first component prepares the transaction, the last releases the
  records that were held back.\<close>

definition prepare_transaction ::
  "'w chain \<Rightarrow> ControlMsg \<Rightarrow> ('w chainContext, unit) act" where
  "prepare_transaction ch ctrl cc =
     (case txnSink ch of
        None \<Rightarrow> Some (Return (), cc)
      | Some sink \<Rightarrow>
          (if transactionPrepared cc
           then Some (Fault (Leaf (OtherError ''transaction already prepared'')), cc)
           else andThen
             (sink_call (PreCommit (ctl_CheckpointID ctrl) (ctl_EpochID ctrl))
                (tx_PreCommit sink (ctl_CheckpointID ctrl)) (wrap_both ErrPreCommitFailed))
             (\<lambda>_. modify (\<lambda>cc. cc\<lparr>preparedCheckpoint := ctl_CheckpointID ctrl,
                                    preparedEpoch := ctl_EpochID ctrl,
                                    transactionPrepared := True\<rparr>)) cc))"

definition announce_barrier ::
  "'w chain_env \<Rightarrow> 'w chain \<Rightarrow> ControlMsg \<Rightarrow> ('w chainContext, unit) act" where
  "announce_barrier env ch ctrl cc =
     (if txnSink ch \<noteq> None
      then (if ackFn ch \<and> checkpoint cc = None
            then Some (Return (), logged (Acked (ctl_CheckpointID ctrl))
                                    (cc\<lparr>transactionDecisionPending := True\<rparr>))
            else Some (Return (), cc))
      else sendOutput env (OutputBarrier (ctl_CheckpointID ctrl) (ctl_EpochID ctrl)) cc)"

definition submit_snapshot ::
  "'w chain_env \<Rightarrow> ControlMsg \<Rightarrow> bytes list \<Rightarrow> nat list \<Rightarrow> ('w chainContext, unit) act" where
  "submit_snapshot env ctrl snapshots indexes cc =
     (if checkpoint cc = None then Some (Return (), cc)
      else checkpoint_submit env (ctl_CheckpointID ctrl) (ctl_EpochID ctrl) snapshots indexes
             (cc\<lparr>transactionDecisionPending := transactionPrepared cc\<rparr>))"

definition finish_barrier ::
  "'w chain_env \<Rightarrow> 'w chain \<Rightarrow> ControlMsg \<Rightarrow> ('w chainContext, unit) act" where
  "finish_barrier env ch ctrl cc =
     (let (drained, ba) = FinishAlignment (ctl_CheckpointID ctrl) (aligner cc);
          cc1 = cc\<lparr>aligner := ba\<rparr>
      in if txnSink ch \<noteq> None then Some (Return (), cc1\<lparr>deferredEvents := drained\<rparr>)
         else each (processEvent env ch) drained cc1)"

definition handle_barrier ::
  "'w chain_env \<Rightarrow> 'w chain \<Rightarrow> ControlMsg \<Rightarrow> ('w chainContext, unit) act" where
  "handle_barrier env ch ctrl =
     andThen (drainInputCh env ch) (\<lambda>_.
     andThen (prepare_transaction ch ctrl) (\<lambda>_.
     andThen (capture_links env (ctl_CheckpointID ctrl) 0 (links ch)) (\<lambda>(snapshots, indexes).
     andThen (announce_barrier env ch ctrl) (\<lambda>_.
     andThen (submit_snapshot env ctrl snapshots indexes) (\<lambda>_.
     finish_barrier env ch ctrl)))))"

definition handle_commit ::
  "'w chain_env \<Rightarrow> 'w chain \<Rightarrow> ControlMsg \<Rightarrow> ('w chainContext, unit) act" where
  "handle_commit env ch ctrl cc =
     (case txnSink ch of
        None \<Rightarrow> Some (Return (), cc)
      | Some sink \<Rightarrow>
          (if ctl_CheckpointID ctrl \<le> lastCommitted cc then Some (Return (), cc)
           else if \<not> transactionPrepared cc \<or> ctl_CheckpointID ctrl \<noteq> preparedCheckpoint cc
           then Some (Fault (Leaf (OtherError
                  ''commit checkpoint does not match prepared transaction'')), cc)
           else
             andThen (modify (\<lambda>cc. cc\<lparr>transactionDecisionPending := True\<rparr>)) (\<lambda>_.
             andThen (commitTransaction env sink (ctl_CheckpointID ctrl)) (\<lambda>_.
             andThen (modify (\<lambda>cc. cc\<lparr>lastCommitted := ctl_CheckpointID ctrl,
                        transactionDirty := False, transactionPrepared := False,
                        transactionDecisionPending := False\<rparr>)) (\<lambda>_.
             sink_call BeginTransaction (tx_BeginTransaction sink)
               (\<lambda>e. wrap_first ErrBeginTransactionFailed (error_text e))))) cc))"

definition abort_control :: "ControlType \<Rightarrow> ControlMsg \<Rightarrow> ControlMsg" where
  "abort_control t ctrl = \<lparr>ctl_Type = t, ctl_InputIndex = 0,
     ctl_CheckpointID = ctl_CheckpointID ctrl, ctl_EpochID = ctl_EpochID ctrl\<rparr>"

text \<open>The result of a case of the dispatch: \<open>True\<close> when the case returns from the handler,
  \<open>False\<close> when it falls through to the deferred work.\<close>

definition handle_abort_transaction ::
  "(ControlMsg \<Rightarrow> ('w chainContext, unit) act) \<Rightarrow> 'w chain \<Rightarrow> ControlMsg
     \<Rightarrow> ('w chainContext, bool) act" where
  "handle_abort_transaction handle ch ctrl cc =
     (let cid = ctl_CheckpointID ctrl; epoch = ctl_EpochID ctrl
      in if cid \<noteq> 0 \<and> \<not> transactionPrepared cc
         then andThen (handle (abort_control CtrlAbortCheckpoint ctrl)) (\<lambda>_. ret True) cc
         else if cid \<noteq> 0 \<and> (epoch < snd (lastAborted cc)
              \<or> (epoch = snd (lastAborted cc) \<and> cid \<le> fst (lastAborted cc)))
         then Some (Return False, cc)
         else case txnSink ch of
           None \<Rightarrow> Some (Return False, cc)
         | Some sink \<Rightarrow>
             (if cid \<noteq> 0 \<and> cid \<le> lastCommitted cc then Some (Return False, cc)
              else if transactionPrepared cc \<and> cid \<noteq> 0 \<and> cid \<noteq> preparedCheckpoint cc
              then Some (Fault (Leaf (OtherError
                     ''abort checkpoint does not match prepared transaction'')), cc)
              else
                andThen (sink_call Abort (tx_Abort sink)
                           (\<lambda>e. wrap_first ErrAbortFailed (error_text e))) (\<lambda>_.
                andThen (modify (\<lambda>cc. cc\<lparr>transactionPrepared := False,
                           transactionDecisionPending := False, lastAborted := (cid, epoch),
                           transactionAborted := True\<rparr>)) (\<lambda>_.
                fault (Leaf ErrTransactionAborted))) cc))"

text \<open>The bounded drain of an abort takes as many records as were queued when it began. Its
  \<^verbatim>\<open>select\<close> may see the end of the context although a record is there.\<close>

primrec abort_drain ::
  "'w chain_env \<Rightarrow> 'w chain \<Rightarrow> nat \<Rightarrow> ('w chainContext, unit) act" where
  "abort_drain env ch 0 = ret ()"
| "abort_drain env ch (Suc remaining) = (\<lambda>cc.
     case ask (ctx_Err env) cc of
       (Some err, cc1) \<Rightarrow> Some (Fault err, cc1)
     | (None, cc1) \<Rightarrow>
         (case receive_input env cc1 of
            (None, cc2) \<Rightarrow> Some (Return (), cc2)
          | (Some event, cc2) \<Rightarrow>
              andThen (processEvent env ch event) (\<lambda>_. abort_drain env ch remaining) cc2))"

definition handle_abort_checkpoint ::
  "'w chain_env \<Rightarrow> 'w chain \<Rightarrow> ControlMsg \<Rightarrow> ('w chainContext, unit) act" where
  "handle_abort_checkpoint env ch ctrl =
     andThen (modify (checkpoint_abort env (ctl_CheckpointID ctrl) (ctl_EpochID ctrl))) (\<lambda>_.
     andThen (\<lambda>cc. abort_drain env ch (length (inputCh cc)) cc) (\<lambda>_ cc.
       let (drained, ba) = AbortAlignment (ctl_CheckpointID ctrl) (ctl_EpochID ctrl) (aligner cc)
       in each (processEvent env ch) drained (cc\<lparr>aligner := ba\<rparr>)))"

definition handle_end_of_partition ::
  "'w chain_env \<Rightarrow> 'w chain \<Rightarrow> ('w chainContext, bool) act" where
  "handle_end_of_partition env ch =
     andThen (modify (\<lambda>cc. cc\<lparr>eofCount := wrap64 (eofCount cc + 1)\<rparr>)) (\<lambda>_ cc.
       if eofCount cc \<ge> chain_inputs ch
       then andThen (drainInputCh env ch) (\<lambda>_ cc.
              case checkpoint cc of
                Some c \<Rightarrow>
                  (if cp_pending c \<noteq> []
                   then Some (Return True, cc\<lparr>checkpoint := Some (c\<lparr>endPending := True\<rparr>)\<rparr>)
                   else andThen (emitChainEnd env ch) (\<lambda>_. fault (Leaf ErrChainDone)) cc)
              | None \<Rightarrow> andThen (emitChainEnd env ch) (\<lambda>_. fault (Leaf ErrChainDone)) cc) cc
       else Some (Return False, cc))"

definition handle_drain_inputs ::
  "'w chain_env \<Rightarrow> 'w chain \<Rightarrow> ('w chainContext, unit) act" where
  "handle_drain_inputs env ch =
     andThen (modify (\<lambda>cc. cc\<lparr>cc_draining := True\<rparr>)) (\<lambda>_ cc.
       if transactionPrepared cc then Some (Fault (Leaf ErrChainDone), cc)
       else andThen (drainInputCh env ch) (\<lambda>_ cc.
              let (drained, ba) = BeginDrain (aligner cc)
              in each (processEvent env ch) drained (cc\<lparr>aligner := ba\<rparr>)) cc)"

definition handle_shutdown ::
  "'w chain_env \<Rightarrow> 'w chain \<Rightarrow> ('w chainContext, unit) act" where
  "handle_shutdown env ch cc =
     andThen (if cc_draining cc \<and> \<not> transactionPrepared cc then drainInputCh env ch else ret ())
       (\<lambda>_. fault (Leaf ErrChainDone)) cc"

text \<open>Messages that a prepared transaction defers, ignores or turns into an abort.\<close>

definition prepared_gate ::
  "(ControlMsg \<Rightarrow> ('w chainContext, unit) act) \<Rightarrow> 'w chain \<Rightarrow> ControlMsg
     \<Rightarrow> ('w chainContext, bool) act" where
  "prepared_gate handle ch ctrl cc =
     (if \<not> transactionPrepared cc then Some (Return False, cc)
      else case ctl_Type ctrl of
        CtrlEndOfPartition \<Rightarrow>
          (if int (length (deferredEOF cc)) \<ge> chain_inputs ch
           then Some (Fault (Leaf (OtherError ''too many EOF notifications'')), cc)
           else Some (Return True, cc\<lparr>deferredEOF := deferredEOF cc @ [ctrl]\<rparr>))
      | CtrlBarrierReceived \<Rightarrow>
          (if ctl_CheckpointID ctrl = preparedCheckpoint cc then Some (Return True, cc)
           else Some (Fault (Leaf (OtherError
                  ''checkpoint arrived while a transaction is prepared'')), cc))
      | CtrlAbortCheckpoint \<Rightarrow>
          (if ctl_CheckpointID ctrl \<noteq> preparedCheckpoint cc then Some (Return True, cc)
           else andThen (handle (abort_control CtrlAbortTransaction ctrl)) (\<lambda>_. ret False) cc)
      | _ \<Rightarrow> Some (Return False, cc))"

definition control_switch ::
  "(ControlMsg \<Rightarrow> ('w chainContext, unit) act) \<Rightarrow> 'w chain_env \<Rightarrow> 'w chain \<Rightarrow> ControlMsg
     \<Rightarrow> ('w chainContext, bool) act" where
  "control_switch handle env ch ctrl =
     (case ctl_Type ctrl of
        CtrlBarrierReceived \<Rightarrow> (\<lambda>cc.
          if \<not> AllAligned (aligner cc) (ctl_CheckpointID ctrl)
            \<or> activeEpoch (aligner cc) \<noteq> ctl_EpochID ctrl
          then Some (Return True, cc)
          else andThen (handle_barrier env ch ctrl) (\<lambda>_. ret False) cc)
      | CtrlCommitCheckpoint \<Rightarrow> andThen (handle_commit env ch ctrl) (\<lambda>_. ret False)
      | CtrlAbortTransaction \<Rightarrow> handle_abort_transaction handle ch ctrl
      | CtrlAbortCheckpoint \<Rightarrow> andThen (handle_abort_checkpoint env ch ctrl) (\<lambda>_. ret False)
      | CtrlEndOfPartition \<Rightarrow> handle_end_of_partition env ch
      | CtrlDrainInputs \<Rightarrow> andThen (handle_drain_inputs env ch) (\<lambda>_. ret False)
      | CtrlShutdown \<Rightarrow> andThen (handle_shutdown env ch) (\<lambda>_. ret False))"

text \<open>Work that waited for a decision on the prepared transaction.\<close>

definition deferred_events ::
  "'w chain_env \<Rightarrow> 'w chain \<Rightarrow> ('w chainContext, unit) act" where
  "deferred_events env ch cc =
     (if transactionPrepared cc then Some (Return (), cc)
      else each (processEvent env ch) (deferredEvents cc) (cc\<lparr>deferredEvents := []\<rparr>))"

definition deferred_ends ::
  "(ControlMsg \<Rightarrow> ('w chainContext, unit) act) \<Rightarrow> ('w chainContext, unit) act" where
  "deferred_ends handle cc =
     (if transactionPrepared cc then Some (Return (), cc)
      else each handle (deferredEOF cc) (cc\<lparr>deferredEOF := []\<rparr>))"

definition run_deferred ::
  "(ControlMsg \<Rightarrow> ('w chainContext, unit) act) \<Rightarrow> 'w chain_env \<Rightarrow> 'w chain
     \<Rightarrow> ('w chainContext, unit) act" where
  "run_deferred handle env ch = andThen (deferred_events env ch) (\<lambda>_. deferred_ends handle)"

definition other_term :: "ControlMsg \<Rightarrow> 'w chainContext \<Rightarrow> bool" where
  "other_term ctrl cc \<longleftrightarrow> transactionPrepared cc \<and> ctl_EpochID ctrl \<noteq> preparedEpoch cc
     \<and> ctl_Type ctrl \<in> {CtrlBarrierReceived, CtrlCommitCheckpoint, CtrlAbortCheckpoint,
          CtrlAbortTransaction}"

text \<open>One activation of the handler; \<open>handle\<close> is the recursive call.\<close>

definition control_body ::
  "(ControlMsg \<Rightarrow> ('w chainContext, unit) act) \<Rightarrow> 'w chain_env \<Rightarrow> 'w chain \<Rightarrow> ControlMsg
     \<Rightarrow> ('w chainContext, unit) act" where
  "control_body handle env ch ctrl cc =
     (if transactionAborted cc then Some (Fault (Leaf ErrTransactionAborted), cc)
      else if other_term ctrl cc then Some (Return (), cc)
      else
        let cc1 = (if ctl_Type ctrl = CtrlAbortCheckpoint
                   then checkpoint_abort env (ctl_CheckpointID ctrl) (ctl_EpochID ctrl) cc else cc)
        in if cc_draining cc1 \<and> ctl_Type ctrl = CtrlBarrierReceived then Some (Return (), cc1)
           else andThen (prepared_gate handle ch ctrl)
             (\<lambda>handled. if handled then ret ()
                else andThen (control_switch handle env ch ctrl)
                  (\<lambda>returned. if returned then ret () else run_deferred handle env ch)) cc1)"

text \<open>The handler calls itself for an abort and for deferred end messages. The recursion is
  unrolled to three activations; \<open>handleControl_recursive\<close> below shows that the unrolling satisfies
  the recursive equation of the code, and \<open>control_depth_stable\<close> that no deeper one differs.\<close>

primrec control_depth ::
  "nat \<Rightarrow> 'w chain_env \<Rightarrow> 'w chain \<Rightarrow> ControlMsg \<Rightarrow> ('w chainContext, unit) act" where
  "control_depth 0 env ch ctrl = (\<lambda>_. None)"
| "control_depth (Suc n) env ch ctrl = control_body (control_depth n env ch) env ch ctrl"

definition handleControl ::
  "'w chain_env \<Rightarrow> 'w chain \<Rightarrow> ControlMsg \<Rightarrow> ('w chainContext, unit) act" where
  "handleControl env ch ctrl = control_depth 3 env ch ctrl"

section \<open>What processing a record changes\<close>

text \<open>Processing a record writes to sinks, outputs and metrics, and changes the input queue, the
  watermark tracker and the dirty flag; the state of the transaction stays.\<close>

definition quiet_effect :: "effect \<Rightarrow> bool" where
  "quiet_effect e =
     (case e of Write _ _ \<Rightarrow> True | Sent _ \<Rightarrow> True | DeadLetter _ \<Rightarrow> True | Counted _ _ \<Rightarrow> True
      | _ \<Rightarrow> False)"

definition txn_state :: "'w chainContext \<Rightarrow> _" where
  "txn_state cc = (checkpoint cc, cc_draining cc, preparedCheckpoint cc, preparedEpoch cc,
     transactionPrepared cc, transactionAborted cc, transactionDecisionPending cc,
     lastCommitted cc, lastAborted cc, deferredEOF cc, deferredEvents cc, aligner cc, eofCount cc)"

definition quiet :: "'w chainContext \<Rightarrow> 'w chainContext \<Rightarrow> bool" where
  "quiet cc cc' \<longleftrightarrow> txn_state cc' = txn_state cc
     \<and> (\<exists>es. trace cc' = trace cc @ es \<and> list_all quiet_effect es)"

definition steady :: "('w chainContext, 'a) act \<Rightarrow> bool" where
  "steady m \<longleftrightarrow> (\<forall>cc r cc'. m cc = Some (r, cc') \<longrightarrow> quiet cc cc')"

named_theorems steady_intros \<open>operations that only process records\<close>

lemma quiet_refl [simp, intro]: "quiet cc cc"
  by (simp add: quiet_def)

lemma quiet_trans: "quiet a b \<Longrightarrow> quiet b c \<Longrightarrow> quiet a c"
  unfolding quiet_def by (elim conjE exE, intro conjI) auto

lemma quiet_updates [simp]:
  "quiet a (cc\<lparr>w_env := w\<rparr>) = quiet a cc" "quiet a (cc\<lparr>transactionDirty := d\<rparr>) = quiet a cc"
  "quiet a (cc\<lparr>tracker := t\<rparr>) = quiet a cc" "quiet a (cc\<lparr>inputCh := q\<rparr>) = quiet a cc"
  by (simp_all add: quiet_def txn_state_def)

lemma quiet_logged: "quiet_effect e \<Longrightarrow> quiet a cc \<Longrightarrow> quiet a (logged e cc)"
  unfolding quiet_def logged_def txn_state_def by (elim conjE exE, intro conjI) auto

lemma quiet_counted: "quiet a cc \<Longrightarrow> quiet a (counted c cfg cc)"
  by (simp add: counted_def quiet_logged quiet_effect_def)

lemma quiet_recorded: "quiet a cc \<Longrightarrow> quiet a (recordOperatorError cfg cls cc)"
  by (simp add: recordOperatorError_def quiet_counted)

lemma quiet_ask: "ask f cc = (x, cc') \<Longrightarrow> \<forall>a. quiet a cc' = quiet a cc"
  by (auto simp: ask_def split: prod.splits)

lemma quiet_dead: "quiet a cc \<Longrightarrow> quiet a (logged (DeadLetter d) cc)"
  by (simp add: quiet_logged quiet_effect_def)

lemmas quiet_intros = quiet_counted quiet_recorded quiet_dead

lemma quiet_fields:
  assumes "quiet cc cc'"
  shows "checkpoint cc' = checkpoint cc" "cc_draining cc' = cc_draining cc"
    "preparedCheckpoint cc' = preparedCheckpoint cc" "preparedEpoch cc' = preparedEpoch cc"
    "transactionPrepared cc' = transactionPrepared cc"
    "transactionAborted cc' = transactionAborted cc"
    "transactionDecisionPending cc' = transactionDecisionPending cc"
    "lastCommitted cc' = lastCommitted cc" "lastAborted cc' = lastAborted cc"
    "deferredEOF cc' = deferredEOF cc" "deferredEvents cc' = deferredEvents cc"
    "aligner cc' = aligner cc" "eofCount cc' = eofCount cc"
  using assms unfolding quiet_def txn_state_def by simp_all

lemma steadyD: "steady m \<Longrightarrow> m cc = Some (r, cc') \<Longrightarrow> quiet cc cc'"
  by (simp add: steady_def)

lemma steady_basic [steady_intros]:
  "steady (ret a)" "steady (fault e)"
  by (simp_all add: steady_def ret_def fault_def)

lemma steady_andThen [steady_intros]:
  assumes "steady m" "\<And>a. steady (f a)"
  shows "steady (andThen m f)"
  unfolding steady_def andThen_def
  by (auto split: option.splits outcome.splits
      intro: quiet_trans [OF steadyD [OF assms(1)] steadyD [OF assms(2)]] steadyD [OF assms(1)])

lemma steady_each [steady_intros]: "(\<And>x. steady (f x)) \<Longrightarrow> steady (each f xs)"
  by (induction xs) (auto intro!: steady_intros)

lemma steady_gather [steady_intros]: "(\<And>x. steady (f x)) \<Longrightarrow> steady (gather f xs)"
  by (induction xs) (auto intro!: steady_intros)

lemma steady_wrapping [steady_intros]: "steady m \<Longrightarrow> steady (wrapping p m)"
  unfolding steady_def wrapping_def by (auto split: option.splits outcome.splits prod.splits)

definition quiet_call ::
  "('w chainContext \<Rightarrow> 'a outcome \<times> 'w chainContext) \<Rightarrow> bool" where
  "quiet_call fn \<longleftrightarrow> (\<forall>s r s'. fn s = (r, s') \<longrightarrow> quiet s s')"

lemma quiet_safeInvoke:
  assumes "safeInvoke fn cc = (x, cc')" "quiet_call fn"
  shows "\<forall>a. quiet a cc \<longrightarrow> quiet a cc'"
  using assms unfolding safeInvoke_def quiet_call_def
  by (auto split: prod.splits outcome.splits) (blast intro: quiet_trans)+

lemma quiet_handleExhausted:
  "handleExhausted env cfg event err n cc = (r, cc') \<Longrightarrow> quiet a cc \<Longrightarrow> quiet a cc'"
  unfolding handleExhausted_def Let_def safeInvoke_def
  by (auto split: prod.splits option.splits ExhaustedAction.splits sum.splits bool.splits
      outcome.splits dest!: quiet_ask intro!: quiet_counted quiet_dead)

lemma quiet_exhausted_pair:
  "q = handleExhausted env cfg event err n cc \<Longrightarrow> quiet a cc \<Longrightarrow> quiet a (snd q)"
  by (rule quiet_handleExhausted [of env cfg event err n cc "fst q"]) simp_all

lemma quiet_backoff: "backoff_wait env cfg n cc = (x, cc') \<Longrightarrow> \<forall>a. quiet a cc' = quiet a cc"
  unfolding backoff_wait_def Let_def by (auto split: option.splits if_splits dest: quiet_ask)

lemma quiet_retried:
  assumes "safeInvoke fn (counted RetryTotal cfg cc) = (x, cc')" "quiet_call fn"
  shows "\<forall>a. quiet a cc \<longrightarrow> quiet a cc'"
  using quiet_safeInvoke [OF assms] by (simp add: quiet_counted)

lemma quiet_retry_loop:
  "retry_loop env cfg event fn attempt err cc = Some q \<Longrightarrow> quiet_call fn \<Longrightarrow> quiet a cc \<Longrightarrow>
   quiet a (snd q)"
proof (induction arbitrary: a rule: retry_loop.raw_induct [rotated, consumes 1, case_names step])
  case (step loop env cfg event fn attempt err cc q)
  show ?case
    using step(2-4)
    by (auto simp: Let_def split: if_splits prod.splits option.splits sum.splits
        dest!: quiet_ask quiet_backoff quiet_retried
        intro!: quiet_recorded intro: quiet_exhausted_pair step(1))
qed

lemma steady_invokeWithRetry [steady_intros]:
  assumes fn: "quiet_call fn"
  shows "steady (invokeWithRetry env cfg e fn)"
proof -
  have exhausted: "quiet cc cc'"
    if "handleExhausted env cfg e err n (recordOperatorError cfg cls t) = (r, cc')" "quiet cc t"
    for err n cls t and r :: "'b option outcome" and cc cc'
    using quiet_handleExhausted [OF that(1)] that(2) by (simp add: quiet_recorded)
  have retried: "quiet cc cc'"
    if "retry_loop env cfg e fn 1 err (recordOperatorError cfg cls t) = Some (r, cc')" "quiet cc t"
    for err cls t r cc cc'
    using quiet_retry_loop [OF that(1) fn] that(2) by (simp add: quiet_recorded)
  show ?thesis
    unfolding steady_def invokeWithRetry_def using fn
    by (auto simp: Let_def split: if_splits prod.splits option.splits sum.splits
        dest!: quiet_ask quiet_safeInvoke intro!: quiet_recorded intro: exhausted retried)
qed

lemma quiet_call_ask [intro]: "quiet_call (ask f)"
  unfolding quiet_call_def by (auto dest: quiet_ask)

lemma quiet_call_write [intro]: "quiet_call (call_logged (Write e) f)"
  unfolding quiet_call_def call_logged_def
  by (auto split: prod.splits outcome.splits dest!: quiet_ask intro!: quiet_logged
      simp: quiet_effect_def)

lemma steady_legacy [steady_intros]:
  assumes "quiet_call fn"
  shows "steady (invokeLegacyWithMetrics env cfg fn)"
proof -
  have "quiet a cc \<Longrightarrow> quiet a (legacy_metrics env cfg cls cc)" for a cls cc
    unfolding legacy_metrics_def
    by (auto split: prod.splits option.splits dest!: quiet_ask intro!: quiet_recorded)
  then show ?thesis
    using assms unfolding steady_def invokeLegacyWithMetrics_def quiet_call_def
    by (auto split: prod.splits outcome.splits)
qed

lemma steady_calls [steady_intros]:
  "steady (sendOutput env msg)" "steady (tracked h)"
  "steady (modify (\<lambda>cc. if b then cc\<lparr>transactionDirty := d\<rparr> else cc))"
  unfolding steady_def sendOutput_def tracked_def modify_def
  by (auto split: prod.splits option.splits intro!: quiet_logged simp: quiet_effect_def)

lemma steady_invokeOperator [steady_intros]:
  assumes "quiet_call g"
  shows "steady (invokeOperator g)"
  using assms unfolding steady_def invokeOperator_def
  by (auto split: prod.splits sum.splits dest!: quiet_safeInvoke)

lemma steady_run_link [steady_intros]: "steady (run_link env ch l e)"
  unfolding run_link_def invokeMapWithRetry_def invokeFlatMapWithRetry_def invokeSinkWithRetry_def
  by (cases "op_kind (link_Operator l)") (auto intro!: steady_intros)

lemma steady_run_links [steady_intros]: "steady (run_links env ch ls es)"
  by (induction ls arbitrary: es) (auto intro!: steady_intros)

lemma steady_processEventFrom [steady_intros]: "steady (processEventFrom env ch e ls)"
  unfolding processEventFrom_def by (intro steady_intros)

lemma steady_watermark_links [steady_intros]: "steady (watermark_links env ch t ls)"
  by (induction ls) (auto intro!: steady_intros split: option.splits)

lemma steady_processWatermark [steady_intros]: "steady (processWatermark env ch t)"
  unfolding processWatermark_def by (intro steady_intros)

lemma steady_processEvent [steady_intros]: "steady (processEvent env ch e)"
proof -
  define body where "body =
    (case inputWatermark e of
       Some (input, timestamp) \<Rightarrow> tracked (AdvanceWatermark input timestamp)
     | None \<Rightarrow> (case ev_watermark e of
           Some timestamp \<Rightarrow> processWatermark env ch timestamp
         | None \<Rightarrow> processEventFrom env ch (e\<lparr>inputActivity := None\<rparr>) (links ch)))"
  have body: "steady body"
    unfolding body_def by (auto split: option.splits intro!: steady_intros)
  show ?thesis
    unfolding steady_def processEvent_def body_def [symmetric] Let_def
    by (auto simp: tracked_def split: option.splits prod.splits
        dest!: steadyD [OF body] quiet_ask)
qed

lemma quiet_receive:
  assumes "receive_input env cc = (x, cc')"
  shows "\<forall>a. quiet a cc' = quiet a cc"
proof -
  obtain new cc1 where new: "ask (arrivals env) cc = (new, cc1)" by fastforce
  obtain q where "cc' = cc1\<lparr>inputCh := q\<rparr>"
    using assms unfolding receive_input_def new prod.case by (cases "inputCh cc1 @ new") auto
  then show ?thesis using quiet_ask [OF new] by simp
qed

lemma quiet_drain: "drainInputCh env ch cc = Some q \<Longrightarrow> quiet a cc \<Longrightarrow> quiet a (snd q)"
proof (induction arbitrary: a rule: drainInputCh.raw_induct [rotated, consumes 1, case_names step])
  case (step drain env ch cc q)
  obtain x cc1 where x: "receive_input env cc = (x, cc1)" by fastforce
  have cc1: "quiet a cc1" using quiet_receive [OF x] step(3) by simp
  have "quiet a cc2" if "processEvent env ch e cc1 = Some (r, cc2)" for e r cc2
    using quiet_trans [OF cc1 steadyD [OF steady_processEvent that]] .
  then show ?case
    using step(2) x cc1
    by (auto split: option.splits outcome.splits prod.splits intro: step(1))
qed

lemma steady_drains [steady_intros]:
  "steady (drainInputCh env ch)" "steady (abort_drain env ch n)"
proof -
  show "steady (drainInputCh env ch)"
    unfolding steady_def by (auto dest: quiet_drain)
  show "steady (abort_drain env ch n)"
  proof (induction n)
    case (Suc n)
    then have rest: "steady (andThen (processEvent env ch e) (\<lambda>_. abort_drain env ch n))" for e
      by (intro steady_intros)
    show ?case
      unfolding steady_def
    proof (intro allI impI)
      fix cc r cc'
      assume run: "abort_drain env ch (Suc n) cc = Some (r, cc')"
      obtain e cc1 where e: "ask (ctx_Err env) cc = (e, cc1)" by fastforce
      obtain x cc2 where x: "receive_input env cc1 = (x, cc2)" by fastforce
      have "quiet cc cc1" "quiet cc cc2"
        using quiet_ask [OF e] quiet_receive [OF x] by simp_all
      then show "quiet cc cc'"
        using run e x by (auto split: option.splits intro: quiet_trans [OF _ steadyD [OF rest]])
    qed
  qed (simp add: steady_intros)
qed

section \<open>The recursion of the control handler\<close>

text \<open>A handler that leaves the deferred end messages alone.\<close>

definition keeps_eof :: "('w chainContext, 'a) act \<Rightarrow> bool" where
  "keeps_eof m \<longleftrightarrow> (\<forall>s r s'. m s = Some (r, s') \<longrightarrow> deferredEOF s' = deferredEOF s)"

named_theorems eof_intros \<open>operations that keep the deferred end messages\<close>

lemma keeps_steady: "steady m \<Longrightarrow> keeps_eof m"
  unfolding keeps_eof_def by (auto dest!: steadyD quiet_fields(10))

lemma keeps_basic [eof_intros]: "keeps_eof (ret a)" "keeps_eof (fault e)"
  by (intro keeps_steady steady_intros)+

lemma keepsD: "keeps_eof m \<Longrightarrow> m s = Some (r, s') \<Longrightarrow> deferredEOF s' = deferredEOF s"
  by (simp add: keeps_eof_def)

lemma keeps_andThen [eof_intros]:
  assumes "keeps_eof m" "\<And>a. keeps_eof (f a)"
  shows "keeps_eof (andThen m f)"
  unfolding keeps_eof_def andThen_def
  by (auto split: option.splits outcome.splits
      dest!: keepsD [OF assms(1)] keepsD [OF assms(2)])

lemma keeps_modify [eof_intros]:
  "(\<And>s. deferredEOF (g s) = deferredEOF s) \<Longrightarrow> keeps_eof (modify g)"
  by (simp add: keeps_eof_def modify_def)

lemma keeps_guard:
  "(\<And>s. deferredEOF (g s) = deferredEOF s) \<Longrightarrow> keeps_eof m \<Longrightarrow> m (g s) = Some (r, s') \<Longrightarrow>
   deferredEOF s' = deferredEOF s"
  by (simp add: keeps_eof_def)

lemma ask_eof: "ask f s = (x, s') \<Longrightarrow> deferredEOF s' = deferredEOF (s :: 'w chainContext)"
  by (auto simp: ask_def split: prod.splits)

lemma logged_eof [simp]: "deferredEOF (logged e s) = deferredEOF (s :: 'w chainContext)"
  by (simp add: logged_def)

lemma call_logged_eof:
  "call_logged eff f s = (x, s') \<Longrightarrow> deferredEOF s' = deferredEOF (s :: 'w chainContext)"
  by (auto simp: call_logged_def split: prod.splits outcome.splits dest: ask_eof)

lemma keeps_calls [eof_intros]:
  "keeps_eof (sink_call eff f w)" "keeps_eof (always (ask g))"
  unfolding keeps_eof_def sink_call_def always_def
  by (auto split: prod.splits outcome.splits dest: call_logged_eof ask_eof)

lemma keeps_wrapping [eof_intros]: "keeps_eof m \<Longrightarrow> keeps_eof (wrapping p m)"
  unfolding keeps_eof_def wrapping_def by (auto split: option.splits outcome.splits prod.splits)

lemma steady_capture [steady_intros]: "steady (capture_links env cid i ls)"
proof -
  have asked: "steady (always (ask f))" for f
    unfolding steady_def always_def by (auto dest: quiet_ask)
  show ?thesis
    by (induction ls arbitrary: i)
      (auto intro!: steady_intros asked split: option.splits simp: captureOperatorCheckpoint_def)
qed

lemma safe_eof:
  "safeInvoke (call_logged eff f) s = (x, s') \<Longrightarrow> deferredEOF s' = deferredEOF (s :: 'w chainContext)"
  by (auto simp: safeInvoke_def split: prod.splits outcome.splits dest: call_logged_eof)

lemma keeps_commit [eof_intros]: "keeps_eof (retryTransactionCommit env sink cid n le b)"
proof (induction n arbitrary: le b)
  case (Suc n)
  show ?case
    unfolding keeps_eof_def
    by (auto split: prod.splits option.splits sum.splits if_splits
        dest!: ask_eof safe_eof keepsD [OF Suc.IH])
qed (simp add: keeps_eof_def)

lemma keeps_checkpoint [eof_intros]:
  "keeps_eof (checkpoint_submit env cid ep data ix)" "keeps_eof (submit_snapshot env ctrl data ix)"
  "keeps_eof (announce_barrier env ch ctrl)" "keeps_eof (prepare_transaction ch ctrl)"
  "keeps_eof (emitChainEnd env ch)"
proof -
  have send: "sendOutput env m s = Some (r, s') \<Longrightarrow> deferredEOF s' = deferredEOF s" for m s r s'
    by (rule quiet_fields(10)) (rule steadyD, rule steady_calls(1))
  have prep: "keeps_eof (andThen (sink_call e f w) (\<lambda>_. modify g))"
    if "\<And>s. deferredEOF (g s) = deferredEOF s" for e f w g
    using that by (intro eof_intros)
  show submit: "keeps_eof (checkpoint_submit env cid ep data ix)" for cid ep
    unfolding keeps_eof_def checkpoint_submit_def Let_def
    by (auto simp: notified_def split: option.splits prod.splits if_splits dest!: ask_eof)
  show "keeps_eof (submit_snapshot env ctrl data ix)"
    using submit unfolding keeps_eof_def submit_snapshot_def by (auto split: if_splits)
  show "keeps_eof (announce_barrier env ch ctrl)" "keeps_eof (emitChainEnd env ch)"
    unfolding keeps_eof_def announce_barrier_def emitChainEnd_def
    by (auto dest: send split: if_splits)
  show "keeps_eof (prepare_transaction ch ctrl)"
    unfolding keeps_eof_def prepare_transaction_def
    by (auto split: option.splits if_splits dest!: keepsD [OF prep, rotated])
qed

lemma abort_checkpoint_eof [simp]: "deferredEOF (checkpoint_abort env cid ep s) = deferredEOF s"
  by (simp add: checkpoint_abort_def ask_def split: option.splits)

lemma keeps_if [eof_intros]:
  "keeps_eof m \<Longrightarrow> keeps_eof m' \<Longrightarrow> keeps_eof (\<lambda>s. if b s then m s else m' s)"
  by (simp add: keeps_eof_def)

lemma keeps_const [eof_intros]: "keeps_eof (\<lambda>s. Some (r, s))"
  by (simp add: keeps_eof_def)

lemma keeps_drains [eof_intros]:
  "keeps_eof (each (processEvent env ch) es)" "keeps_eof (drainInputCh env ch)"
  "keeps_eof (abort_drain env ch n)" "keeps_eof (capture_links env cid i ls)"
  by (intro keeps_steady steady_intros)+

lemma keeps_release:
  "keeps_eof (\<lambda>cc. each (processEvent env ch) (fst (release (aligner cc)))
     (cc\<lparr>aligner := snd (release (aligner cc))\<rparr>))"
  using keeps_drains(1) unfolding keeps_eof_def by fastforce

lemma keeps_ending:
  "keeps_eof (\<lambda>cc. case checkpoint cc of
      Some c \<Rightarrow> (if cp_pending c \<noteq> []
                then Some (Return True, cc\<lparr>checkpoint := Some (c\<lparr>endPending := True\<rparr>)\<rparr>)
                else andThen (emitChainEnd env ch) (\<lambda>_. fault (Leaf ErrChainDone)) cc)
    | None \<Rightarrow> andThen (emitChainEnd env ch) (\<lambda>_. fault (Leaf ErrChainDone)) cc)"
proof -
  have "keeps_eof (andThen (emitChainEnd env ch) (\<lambda>_. fault (Leaf ErrChainDone) :: (_, bool) act))"
    by (intro eof_intros)
  then show ?thesis
    unfolding keeps_eof_def by (auto split: option.splits)
qed

lemma keeps_handlers [eof_intros]:
  "keeps_eof (handle_barrier env ch ctrl)" "keeps_eof (handle_commit env ch ctrl)"
  "keeps_eof (handle_abort_checkpoint env ch ctrl)" "keeps_eof (handle_end_of_partition env ch)"
  "keeps_eof (handle_drain_inputs env ch)" "keeps_eof (handle_shutdown env ch)"
proof -
  have finish: "keeps_eof (finish_barrier env ch ctrl)"
    using keeps_release [of env ch "FinishAlignment (ctl_CheckpointID ctrl)"]
    by (cases "txnSink ch") (simp_all add: finish_barrier_def [abs_def] case_prod_beta Let_def
        keeps_eof_def)
  show "keeps_eof (handle_barrier env ch ctrl)"
    unfolding handle_barrier_def by (auto intro!: eof_intros finish)
  show "keeps_eof (handle_commit env ch ctrl)"
    unfolding handle_commit_def [abs_def] commitTransaction_def
    by (cases "txnSink ch") (auto intro!: eof_intros)
  have "keeps_eof (\<lambda>cc. abort_drain env ch (length (inputCh cc)) cc)"
    using keeps_drains(3) unfolding keeps_eof_def by blast
  then show "keeps_eof (handle_abort_checkpoint env ch ctrl)"
    unfolding handle_abort_checkpoint_def case_prod_beta Let_def
    by (intro eof_intros abort_checkpoint_eof
        keeps_release [of _ _ "AbortAlignment (ctl_CheckpointID ctrl) (ctl_EpochID ctrl)"])
  show "keeps_eof (handle_drain_inputs env ch)"
    unfolding handle_drain_inputs_def case_prod_beta Let_def
    by (intro eof_intros keeps_release [of _ _ BeginDrain]) simp
  have shutdown: "handle_shutdown env ch = (\<lambda>cc.
      if cc_draining cc \<and> \<not> transactionPrepared cc
      then andThen (drainInputCh env ch) (\<lambda>_. fault (Leaf ErrChainDone)) cc
      else andThen (ret ()) (\<lambda>_. fault (Leaf ErrChainDone)) cc)"
    by (rule ext) (simp add: handle_shutdown_def)
  show "keeps_eof (handle_shutdown env ch)"
    unfolding shutdown by (intro eof_intros)
  show "keeps_eof (handle_end_of_partition env ch)"
    unfolding handle_end_of_partition_def
    by (intro eof_intros keeps_ending) simp
qed

text \<open>Two operations agree on the states of \<open>P\<close>: they have the same result there, also when that is
  not to return, and a normal return satisfies \<open>Q\<close>.\<close>

definition agree ::
  "('s \<Rightarrow> bool) \<Rightarrow> ('s, 'a) act \<Rightarrow> ('s, 'a) act \<Rightarrow> ('a \<Rightarrow> 's \<Rightarrow> bool) \<Rightarrow> bool" where
  "agree P m m' Q \<longleftrightarrow> (\<forall>s. P s \<longrightarrow> m' s = m s \<and> (\<forall>a s'. m s = Some (Return a, s') \<longrightarrow> Q a s'))"

lemma agreeD:
  "agree P m m' Q \<Longrightarrow> P s \<Longrightarrow> m' s = m s \<and> (\<forall>a s'. m s = Some (Return a, s') \<longrightarrow> Q a s')"
  by (simp add: agree_def)

lemma agree_andThen:
  assumes "agree P m m' Q" "\<And>a. agree (Q a) (f a) (f' a) R"
  shows "agree P (andThen m f) (andThen m' f') R"
  unfolding agree_def
proof (intro allI impI)
  fix s
  assume "P s"
  note m = agreeD [OF assms(1) this]
  show "andThen m' f' s = andThen m f s
      \<and> (\<forall>a s'. andThen m f s = Some (Return a, s') \<longrightarrow> R a s')"
    using m agreeD [OF assms(2)]
    by (auto simp: andThen_def split: option.splits outcome.splits)
qed

lemma agree_each:
  "(\<And>x. x \<in> set xs \<Longrightarrow> agree P (f x) (f' x) (\<lambda>_. P)) \<Longrightarrow> agree P (each f xs) (each f' xs) (\<lambda>_. P)"
proof (induction xs)
  case Nil
  then show ?case by (simp add: agree_def ret_def)
next
  case (Cons x xs)
  then show ?case
    unfolding each.simps by (intro agree_andThen [where Q = "\<lambda>_. P"]) simp_all
qed

lemma agree_weaken:
  "agree P m m' Q \<Longrightarrow> (\<And>s. P' s \<Longrightarrow> P s) \<Longrightarrow> (\<And>a s. Q a s \<Longrightarrow> Q' a s) \<Longrightarrow> agree P' m m' Q'"
  unfolding agree_def by metis

lemma agree_ret: "(\<And>s. P s \<Longrightarrow> Q a s) \<Longrightarrow> agree P (ret a) (ret a) Q"
  by (simp add: agree_def ret_def)

lemma agree_if:
  "agree P m k Q \<Longrightarrow> agree P m' k' Q \<Longrightarrow>
   agree P (\<lambda>s. if b s then m s else m' s) (\<lambda>s. if b s then k s else k' s) Q"
  by (simp add: agree_def)

lemma agree_state:
  "(\<And>s. P s \<Longrightarrow> P (g s)) \<Longrightarrow> (\<And>x. agree P (m x) (m' x) Q) \<Longrightarrow>
   agree P (\<lambda>s. m (f s) (g s)) (\<lambda>s. m' (f s) (g s)) Q"
  unfolding agree_def by blast

lemma agree_const: "(\<And>s. P s \<Longrightarrow> Q a s) \<Longrightarrow> agree P (\<lambda>s. Some (Return a, s)) (\<lambda>s. Some (Return a, s)) Q"
  by (simp add: agree_def)

definition eofs_only :: "'w chainContext \<Rightarrow> bool" where
  "eofs_only cc \<longleftrightarrow> list_all (\<lambda>c. ctl_Type c = CtrlEndOfPartition) (deferredEOF cc)"

definition settled :: "'w chainContext \<Rightarrow> bool" where
  "settled cc \<longleftrightarrow> \<not> transactionPrepared cc \<and> deferredEOF cc = []"

lemma agree_keeps: "keeps_eof m \<Longrightarrow> agree eofs_only m m (\<lambda>_. eofs_only)"
  unfolding agree_def keeps_eof_def eofs_only_def by metis

lemma agree_steady: "steady m \<Longrightarrow> agree settled m m (\<lambda>_. settled)"
  unfolding agree_def settled_def
  by (auto dest: quiet_fields(10) [OF steadyD] quiet_fields(5) [OF steadyD])

text \<open>An activation of depth one serves the deferred end messages, one of depth two every message
  that is not turned into another.\<close>

definition ends_agree ::
  "(ControlMsg \<Rightarrow> ('w chainContext, unit) act) \<Rightarrow> (ControlMsg \<Rightarrow> ('w chainContext, unit) act)
     \<Rightarrow> bool" where
  "ends_agree h h' \<longleftrightarrow>
     (\<forall>c. ctl_Type c = CtrlEndOfPartition \<longrightarrow> agree settled (h c) (h' c) (\<lambda>_. settled))"

definition direct :: "ControlMsg \<Rightarrow> 'w chainContext \<Rightarrow> bool" where
  "direct c cc \<longleftrightarrow>
     (ctl_Type c = CtrlAbortTransaction \<longrightarrow> ctl_CheckpointID c = 0 \<or> transactionPrepared cc)
     \<and> (ctl_Type c = CtrlAbortCheckpoint \<longrightarrow> \<not> transactionPrepared cc)"

definition direct_agree ::
  "(ControlMsg \<Rightarrow> ('w chainContext, unit) act) \<Rightarrow> (ControlMsg \<Rightarrow> ('w chainContext, unit) act)
     \<Rightarrow> bool" where
  "direct_agree h h' \<longleftrightarrow> ends_agree h h'
     \<and> (\<forall>c. agree (\<lambda>cc. eofs_only cc \<and> direct c cc) (h c) (h' c) (\<lambda>_. eofs_only))"

lemma steady_emitChainEnd [steady_intros]: "steady (emitChainEnd env ch)"
  unfolding steady_def emitChainEnd_def
  by (auto split: if_splits intro: steadyD [OF steady_calls(1)])

lemma agree_end_of_partition:
  "agree settled (handle_end_of_partition env ch) (handle_end_of_partition env ch) (\<lambda>_. settled)"
proof -
  have "steady (andThen (emitChainEnd env ch) (\<lambda>_. fault (Leaf ErrChainDone) :: (_, bool) act))"
    by (intro steady_intros)
  then have emit: "settled s'"
    if "andThen (emitChainEnd env ch) (\<lambda>_. fault (Leaf ErrChainDone)) s = Some (Return (b :: bool), s')"
      "settled s" for b s s'
    using agreeD [OF agree_steady] that by blast
  have ending: "agree settled (\<lambda>cc. case checkpoint cc of
      Some c \<Rightarrow> (if cp_pending c \<noteq> []
                then Some (Return True, cc\<lparr>checkpoint := Some (c\<lparr>endPending := True\<rparr>)\<rparr>)
                else andThen (emitChainEnd env ch) (\<lambda>_. fault (Leaf ErrChainDone)) cc)
    | None \<Rightarrow> andThen (emitChainEnd env ch) (\<lambda>_. fault (Leaf ErrChainDone)) cc) 
     (\<lambda>cc. case checkpoint cc of
      Some c \<Rightarrow> (if cp_pending c \<noteq> []
                then Some (Return True, cc\<lparr>checkpoint := Some (c\<lparr>endPending := True\<rparr>)\<rparr>)
                else andThen (emitChainEnd env ch) (\<lambda>_. fault (Leaf ErrChainDone)) cc)
    | None \<Rightarrow> andThen (emitChainEnd env ch) (\<lambda>_. fault (Leaf ErrChainDone)) cc) (\<lambda>_. settled)"
    unfolding agree_def by (auto split: option.splits if_splits simp: settled_def [of "_ \<lparr>checkpoint := _\<rparr>"]
        dest: emit settled_def [THEN iffD1])
  have counted: "agree settled (modify (\<lambda>cc. cc\<lparr>eofCount := wrap64 (eofCount cc + 1)\<rparr>))
      (modify (\<lambda>cc. cc\<lparr>eofCount := wrap64 (eofCount cc + 1)\<rparr>)) (\<lambda>_. settled)"
    by (simp add: agree_def modify_def settled_def)
  show ?thesis
    unfolding handle_end_of_partition_def
    by (intro agree_andThen [OF counted] agree_if agree_const
        agree_andThen [OF agree_steady [OF steady_drains(1)] ending])
qed

lemma keeps_deferred_events: "keeps_eof (deferred_events env ch)"
  unfolding deferred_events_def [abs_def] keeps_eof_def
  by (auto split: if_splits dest: keepsD [OF keeps_drains(1)])

lemma agree_deferred:
  shows "ends_agree h h' \<Longrightarrow> agree eofs_only (run_deferred h env ch) (run_deferred h' env ch) (\<lambda>_. eofs_only)"
    and "agree settled (run_deferred h env ch) (run_deferred h' env ch) (\<lambda>_. settled)"
proof -
  have "agree eofs_only (deferred_ends h) (deferred_ends h') (\<lambda>_. eofs_only)" if "ends_agree h h'"
    unfolding agree_def
  proof (intro allI impI)
    fix s :: "'a chainContext"
    assume eofs: "eofs_only s"
    then have "agree settled (each h (deferredEOF s)) (each h' (deferredEOF s)) (\<lambda>_. settled)"
      using that by (intro agree_each) (simp add: eofs_only_def ends_agree_def list_all_iff)
    from agreeD [OF this, of "s\<lparr>deferredEOF := []\<rparr>"] eofs
    show "deferred_ends h' s = deferred_ends h s
        \<and> (\<forall>a s'. deferred_ends h s = Some (Return a, s') \<longrightarrow> eofs_only s')"
      by (cases "transactionPrepared s")
        (auto simp: deferred_ends_def settled_def eofs_only_def)
  qed
  then show "agree eofs_only (run_deferred h env ch) (run_deferred h' env ch) (\<lambda>_. eofs_only)"
    if "ends_agree h h'"
    using that unfolding run_deferred_def
    by (intro agree_andThen [OF agree_keeps [OF keeps_deferred_events]])
  have events: "agree settled (deferred_events env ch) (deferred_events env ch) (\<lambda>_. settled)"
    unfolding deferred_events_def [abs_def]
    by (intro agree_if agree_const agree_state [where m = "each (processEvent env ch)"
          and m' = "each (processEvent env ch)" and f = deferredEvents
          and g = "\<lambda>cc. cc\<lparr>deferredEvents := []\<rparr>"] agree_steady steady_intros)
      (simp_all add: settled_def)
  show "agree settled (run_deferred h env ch) (run_deferred h' env ch) (\<lambda>_. settled)"
    unfolding run_deferred_def
    by (rule agree_andThen [OF events])
      (simp add: agree_def settled_def ret_def deferred_ends_def)
qed

lemma depth_one: "ends_agree (control_body h env ch) (control_body h' env ch)"
  unfolding ends_agree_def
proof (intro allI impI)
  fix c :: ControlMsg
  assume eof: "ctl_Type c = CtrlEndOfPartition"
  define rest where "rest k = andThen (control_switch k env ch c)
    (\<lambda>returned. if returned then ret () else run_deferred k env ch)" for k
  have rest: "agree settled (rest h) (rest h') (\<lambda>_. settled)"
    unfolding rest_def
  proof (rule agree_andThen [where Q = "\<lambda>_. settled"])
    show "agree settled (control_switch h env ch c) (control_switch h' env ch c) (\<lambda>_. settled)"
      by (simp add: control_switch_def eof agree_end_of_partition)
    show "agree settled (if b then ret () else run_deferred h env ch)
        (if b then ret () else run_deferred h' env ch) (\<lambda>_. settled)" for b
      by (simp add: agree_ret agree_deferred(2))
  qed
  have "control_body k env ch c cc =
      (if transactionAborted cc then Some (Fault (Leaf ErrTransactionAborted), cc) else rest k cc)"
    if "settled cc" for cc k
    using that eof
    by (simp add: control_body_def other_term_def prepared_gate_def settled_def andThen_def
        rest_def)
  then show "agree settled (control_body h env ch c) (control_body h' env ch c) (\<lambda>_. settled)"
    using rest by (simp add: agree_def)
qed

lemma body_agree:
  assumes ends: "ends_agree h h'"
    and gate: "agree P (prepared_gate h ch c) (prepared_gate h' ch c)
      (\<lambda>b s. eofs_only s \<and> (\<not> b \<longrightarrow> P s))"
    and switch: "agree P (control_switch h env ch c) (control_switch h' env ch c) (\<lambda>_. eofs_only)"
    and P: "\<And>s. P s \<Longrightarrow> eofs_only s" "\<And>cid ep s. P (checkpoint_abort env cid ep s) = P s"
  shows "agree P (control_body h env ch c) (control_body h' env ch c) (\<lambda>_. eofs_only)"
proof -
  define rest where "rest k = andThen (prepared_gate k ch c)
    (\<lambda>handled. if handled then ret ()
       else andThen (control_switch k env ch c)
         (\<lambda>returned. if returned then ret () else run_deferred k env ch))" for k
  have after: "agree eofs_only (if b then ret () else run_deferred h env ch)
      (if b then ret () else run_deferred h' env ch) (\<lambda>_. eofs_only)" for b
    by (simp add: agree_ret agree_deferred(1) ends)
  note switched = agree_andThen [OF switch after]
  have "agree P (rest h) (rest h') (\<lambda>_. eofs_only)"
    unfolding rest_def
  proof (rule agree_andThen [OF gate])
    show "agree (\<lambda>s. eofs_only s \<and> (\<not> b \<longrightarrow> P s)) (if b then ret ()
       else andThen (control_switch h env ch c)
         (\<lambda>returned. if returned then ret () else run_deferred h env ch))
      (if b then ret () else andThen (control_switch h' env ch c)
         (\<lambda>returned. if returned then ret () else run_deferred h' env ch)) (\<lambda>_. eofs_only)" for b
      by (cases b) (auto intro!: agree_ret intro: agree_weaken [OF switched])
  qed
  note rest = agreeD [OF this]
  show ?thesis
    unfolding agree_def
  proof (intro allI impI)
    fix s
    assume s: "P s"
    define cc1 where "cc1 = (if ctl_Type c = CtrlAbortCheckpoint
      then checkpoint_abort env (ctl_CheckpointID c) (ctl_EpochID c) s else s)"
    have "P cc1" by (simp add: cc1_def P(2) s)
    from rest [OF this] P(1) [OF this] P(1) [OF s]
    show "control_body h' env ch c s = control_body h env ch c s
        \<and> (\<forall>a s'. control_body h env ch c s = Some (Return a, s') \<longrightarrow> eofs_only s')"
      unfolding control_body_def rest_def [symmetric] cc1_def [symmetric] Let_def by auto
  qed
qed

lemma gate_agree:
  assumes call: "\<And>cc. transactionPrepared cc \<Longrightarrow> ctl_Type c = CtrlAbortCheckpoint \<Longrightarrow> P cc \<Longrightarrow>
      h' (abort_control CtrlAbortTransaction c) cc = h (abort_control CtrlAbortTransaction c) cc
        \<and> (\<forall>a s'. h (abort_control CtrlAbortTransaction c) cc = Some (Return a, s') \<longrightarrow> P s')"
    and P: "\<And>s. P s \<Longrightarrow> eofs_only s"
  shows "agree P (prepared_gate h ch c) (prepared_gate h' ch c) (\<lambda>b s. eofs_only s \<and> (\<not> b \<longrightarrow> P s))"
  unfolding agree_def
proof (intro allI impI)
  fix s
  assume "P s"
  with P [OF this] P call [of s] show "prepared_gate h' ch c s = prepared_gate h ch c s
      \<and> (\<forall>a s'. prepared_gate h ch c s = Some (Return a, s') \<longrightarrow> eofs_only s' \<and> (\<not> a \<longrightarrow> P s'))"
    by (cases "ctl_Type c")
      (auto simp: prepared_gate_def andThen_def ret_def eofs_only_def
        split: outcome.splits option.splits)
qed

lemma abort_transaction_agree:
  assumes call: "\<And>cc. P cc \<Longrightarrow> ctl_CheckpointID c \<noteq> 0 \<Longrightarrow> \<not> transactionPrepared cc \<Longrightarrow>
      h' (abort_control CtrlAbortCheckpoint c) cc = h (abort_control CtrlAbortCheckpoint c) cc
        \<and> (\<forall>a s'. h (abort_control CtrlAbortCheckpoint c) cc = Some (Return a, s') \<longrightarrow> eofs_only s')"
    and P: "\<And>s. P s \<Longrightarrow> eofs_only s"
  shows "agree P (handle_abort_transaction h ch c) (handle_abort_transaction h' ch c) (\<lambda>_. eofs_only)"
proof -
  define local where "local cc = handle_abort_transaction (\<lambda>_ _. None) ch c cc"
    for cc :: "'a chainContext"
  have local: "handle_abort_transaction k ch c cc = local cc"
    if "\<not> (ctl_CheckpointID c \<noteq> 0 \<and> \<not> transactionPrepared cc)" for k cc
    unfolding local_def handle_abort_transaction_def Let_def if_not_P [OF that] ..
  have ends: "a = False \<and> s' = s"
    if "local s = Some (Return a, s')" for a and s s' :: "'a chainContext"
    using that
    by (auto simp: local_def handle_abort_transaction_def Let_def andThen_def fault_def modify_def
        split: if_splits option.splits outcome.splits)
  show ?thesis
    unfolding agree_def
  proof (intro allI impI)
    fix s
    assume s: "P s"
    show "handle_abort_transaction h' ch c s = handle_abort_transaction h ch c s
        \<and> (\<forall>a s'. handle_abort_transaction h ch c s = Some (Return a, s') \<longrightarrow> eofs_only s')"
    proof (cases "ctl_CheckpointID c \<noteq> 0 \<and> \<not> transactionPrepared s")
      case True
      then show ?thesis
        using call [OF s] unfolding handle_abort_transaction_def Let_def
        by (auto simp: andThen_def ret_def split: outcome.splits option.splits)
    next
      case False
      then show ?thesis using local [OF False] ends [of s] P [OF s] by auto
    qed
  qed
qed

lemma switch_agree:
  assumes P: "\<And>s. P s \<Longrightarrow> eofs_only s"
    and abort: "ctl_Type c = CtrlAbortTransaction \<Longrightarrow>
      agree P (handle_abort_transaction h ch c) (handle_abort_transaction h' ch c) (\<lambda>_. eofs_only)"
  shows "agree P (control_switch h env ch c) (control_switch h' env ch c) (\<lambda>_. eofs_only)"
proof (cases "ctl_Type c = CtrlAbortTransaction")
  case True
  then show ?thesis using abort by (simp add: control_switch_def)
next
  case False
  then have "control_switch h' env ch c = control_switch h env ch c"
    "keeps_eof (control_switch h env ch c)"
    unfolding control_switch_def by (cases "ctl_Type c"; simp add: eof_intros)+
  then show ?thesis using agree_weaken [OF agree_keeps P] by simp
qed

lemma abort_checkpoint_fields [simp]:
  "eofs_only (checkpoint_abort env cid ep s) = eofs_only s"
  "direct c (checkpoint_abort env cid ep s) = direct c s"
  "transactionPrepared (checkpoint_abort env cid ep s) = transactionPrepared s"
  by (simp_all add: eofs_only_def direct_def checkpoint_abort_def ask_def split: option.splits)

lemma depth_two:
  assumes "ends_agree h h'"
  shows "direct_agree (control_body h env ch) (control_body h' env ch)"
  unfolding direct_agree_def
proof (intro conjI allI)
  show "ends_agree (control_body h env ch) (control_body h' env ch)" by (rule depth_one)
  show "agree (\<lambda>cc. eofs_only cc \<and> direct c cc) (control_body h env ch c) (control_body h' env ch c)
      (\<lambda>_. eofs_only)" for c
    by (intro body_agree assms gate_agree switch_agree abort_transaction_agree)
      (auto simp: direct_def)
qed

lemma depth_three:
  assumes "direct_agree h h'"
  shows "agree eofs_only (control_body h env ch c) (control_body h' env ch c) (\<lambda>_. eofs_only)"
proof -
  have direct: "h' c' s = h c' s \<and> (\<forall>a s'. h c' s = Some (Return a, s') \<longrightarrow> eofs_only s')"
    if "eofs_only s" "direct c' s" for c' s
    using agreeD [of "\<lambda>cc. eofs_only cc \<and> direct c' cc" "h c'" "h' c'" "\<lambda>_. eofs_only" s] assms that
    by (simp add: direct_agree_def)
  have "ends_agree h h'" using assms by (simp add: direct_agree_def)
  then show ?thesis
    by (intro body_agree gate_agree switch_agree abort_transaction_agree direct)
      (auto simp: direct_def abort_control_def)
qed

text \<open>Three activations are enough: whatever stands for the fourth, the result is the same, also
  when it is not to return.\<close>

lemma control_depth_agree:
  "agree eofs_only (control_body (control_body (control_body h env ch) env ch) env ch c)
     (control_body (control_body (control_body h' env ch) env ch) env ch c) (\<lambda>_. eofs_only)"
  by (intro depth_three depth_two depth_one)

lemma control_depth_stable:
  assumes "eofs_only cc" "3 \<le> n"
  shows "control_depth n env ch ctrl cc = handleControl env ch ctrl cc"
proof -
  obtain m where "n = m + 3" using assms(2) by (metis add.commute le_Suc_ex)
  then have n: "n = Suc (Suc (Suc m))" by simp
  have unroll: "control_depth (Suc k) env ch = control_body (control_depth k env ch) env ch" for k
    by (rule ext) simp
  show ?thesis
    using agreeD [OF control_depth_agree [of "control_depth 0 env ch" env ch ctrl
          "control_depth m env ch"] assms(1)]
    unfolding n handleControl_def numeral_3_eq_3 unroll by blast
qed

lemma handleControl_recursive:
  assumes "eofs_only cc"
  shows "handleControl env ch ctrl cc = control_body (handleControl env ch) env ch ctrl cc"
proof -
  have "handleControl env ch = control_depth 3 env ch"
    by (rule ext) (simp add: handleControl_def)
  then have "control_body (handleControl env ch) env ch ctrl cc = control_depth (Suc 3) env ch ctrl cc"
    by (simp only: control_depth.simps)
  then show ?thesis using control_depth_stable [OF assms, of "Suc 3"] by simp
qed

end
