(* ===== verification/Transaction_Protocol.thy ===== *)
theory Transaction_Protocol
  imports Operator_Chain
begin

text \<open>
  The goroutine of a task (\<^verbatim>\<open>runOpenedOperatorChain\<close> in
  \<^verbatim>\<open>internal/engine/operator_chain.go\<close>) as a step relation, and the contract of
  \<^verbatim>\<open>TransactionalSink\<close> (\<^verbatim>\<open>internal/engine/operator.go\<close>) as a monitor over the trace of
  its calls: writes go into an open transaction, a transaction is prepared once, commit and abort
  follow the decision that was received, and a transaction whose preparation may have been reported
  is never aborted without a decision.

  A trace records a call when it returns, and the environment is arbitrary. A step that is stuck in
  a call or a send is not a step of the relation; its effects up to there are those of a prefix of
  a trace, and the monitor accepts every prefix of a trace that it accepts
  (\<open>run_monitor_append\<close>).
\<close>

section \<open>The goroutine\<close>

definition initial_context ::
  "'w \<Rightarrow> u64 \<Rightarrow> chainCheckpointState option \<Rightarrow> BarrierAligner \<Rightarrow> InputWatermarkTracker
     \<Rightarrow> 'w chainContext" where
  "initial_context w restoredCommitted cp ba t =
     \<lparr>w_env = w, trace = [], checkpoint = cp, cc_draining = False, preparedCheckpoint = 0,
      preparedEpoch = 0, transactionPrepared = False, transactionDirty = False,
      transactionAborted = False, transactionDecisionPending = False,
      lastCommitted = restoredCommitted, lastAborted = (0, 0), deferredEOF = [],
      deferredEvents = [], inputCh = [], aligner = ba, tracker = t, eofCount = 0\<rparr>"

definition start_chain :: "'w chain \<Rightarrow> ('w chainContext, unit) act" where
  "start_chain ch =
     (case txnSink ch of
        None \<Rightarrow> ret ()
      | Some sink \<Rightarrow>
          sink_call BeginTransaction (tx_BeginTransaction sink)
            (\<lambda>e. wrap_first ErrBeginTransactionFailed (error_text e)))"

text \<open>The deferred function of the goroutine: only a transaction that was not reported is aborted
  locally.\<close>

definition abort_on_exit :: "'w chain \<Rightarrow> 'w chainContext \<Rightarrow> 'w chainContext" where
  "abort_on_exit ch cc =
     (case txnSink ch of
        None \<Rightarrow> cc
      | Some sink \<Rightarrow>
          (if transactionDecisionPending cc \<or> transactionAborted cc then cc
           else snd (safeInvoke (call_logged Abort (tx_Abort sink)) cc)))"

datatype run_phase = Running | Stopping | Stopped

definition continue :: "unit outcome \<Rightarrow> run_phase" where
  "continue r = (case r of Return _ \<Rightarrow> Running | _ \<Rightarrow> Stopping)"

text \<open>One step of the goroutine or of its environment. Readers queue records and barriers; the
  chain takes a control message, a record (only while no transaction is prepared) or the result of
  an upload; it stops on an error, at the end of its inputs, and when its context or a channel
  ends. The loop looks at control messages first, so that every schedule of the loop is among the
  steps. The control messages are unrestricted: any message may arrive at any time, with any
  checkpoint and epoch.\<close>

inductive chain_step ::
  "'w chain_env \<Rightarrow> 'w chain \<Rightarrow> 'w chainContext \<times> run_phase \<Rightarrow> 'w chainContext \<times> run_phase \<Rightarrow> bool"
  for env :: "'w chain_env" and ch :: "'w chain" where
  world: "chain_step env ch (cc, Running) (cc\<lparr>w_env := w\<rparr>, Running)"
| queued: "chain_step env ch (cc, Running) (cc\<lparr>inputCh := inputCh cc @ [e]\<rparr>, Running)"
| barrier: "OnBarrier now i cid ep (aligner cc) = Some (r, ba) \<Longrightarrow>
    chain_step env ch (cc, Running) (cc\<lparr>aligner := ba\<rparr>, Running)"
| buffered: "BufferAlignedEvent ended i e (aligner cc) = (out, ba) \<Longrightarrow>
    chain_step env ch (cc, Running) (cc\<lparr>aligner := ba\<rparr>, Running)"
| control: "handleControl env ch ctrl (logged (Received ctrl) cc) = Some (r, cc') \<Longrightarrow>
    chain_step env ch (cc, Running) (cc', continue r)"
| event: "\<not> transactionPrepared cc \<Longrightarrow> inputCh cc = e # q \<Longrightarrow>
    processEvent env ch e (cc\<lparr>inputCh := q\<rparr>) = Some (r, cc') \<Longrightarrow>
    chain_step env ch (cc, Running) (cc', continue r)"
| uploaded: "checkpoint_complete env cid ep err cc = Some (r, cc') \<Longrightarrow>
    chain_step env ch (cc, Running) (cc', continue r)"
| ended: "checkpoint cc = Some c \<Longrightarrow> endPending c \<Longrightarrow> cp_pending c = [] \<Longrightarrow>
    emitChainEnd env ch cc = Some (r, cc') \<Longrightarrow> chain_step env ch (cc, Running) (cc', Stopping)"
| stopped: "chain_step env ch (cc, Running) (cc, Stopping)"
| cleanup: "chain_step env ch (cc, Stopping) (abort_on_exit ch cc, Stopped)"

inductive chain_run ::
  "'w chain_env \<Rightarrow> 'w chain \<Rightarrow> 'w chainContext \<Rightarrow> 'w chainContext \<times> run_phase \<Rightarrow> bool"
  for env :: "'w chain_env" and ch :: "'w chain" and cc0 :: "'w chainContext" where
  started: "start_chain ch cc0 = Some (Return (), cc) \<Longrightarrow> chain_run env ch cc0 (cc, Running)"
| refused: "start_chain ch cc0 = Some (r, cc) \<Longrightarrow> r \<noteq> Return () \<Longrightarrow>
    chain_run env ch cc0 (cc, Stopped)"
| step: "chain_run env ch cc0 x \<Longrightarrow> chain_step env ch x y \<Longrightarrow> chain_run env ch cc0 y"

section \<open>The contract of the sink\<close>

datatype txn_phase = Closed | Open | Broken | Prepared u64 u64 | InDoubt u64 u64 | Over

text \<open>The last message that was received decides about checkpoint \<open>cid\<close> of epoch \<open>ep\<close>.\<close>

definition commit_decided :: "ControlMsg option \<Rightarrow> u64 \<Rightarrow> u64 \<Rightarrow> bool" where
  "commit_decided d cid ep \<longleftrightarrow>
     (case d of None \<Rightarrow> False
      | Some c \<Rightarrow> ctl_Type c = CtrlCommitCheckpoint \<and> ctl_CheckpointID c = cid \<and> ctl_EpochID c = ep)"

definition abort_decided :: "ControlMsg option \<Rightarrow> u64 \<Rightarrow> u64 \<Rightarrow> bool" where
  "abort_decided d cid ep \<longleftrightarrow>
     (case d of None \<Rightarrow> False
      | Some c \<Rightarrow> ctl_Type c \<in> {CtrlAbortCheckpoint, CtrlAbortTransaction}
          \<and> ctl_CheckpointID c \<in> {0, cid} \<and> ctl_EpochID c = ep)"

text \<open>A preparation is stale when its checkpoint is not newer than the last commit.\<close>

fun stale_phase :: "txn_phase \<Rightarrow> u64 \<Rightarrow> bool" where
  "stale_phase (Prepared i ep) l = (i \<le> l)"
| "stale_phase (InDoubt i ep) l = (i \<le> l)"
| "stale_phase _ l = False"

text \<open>The monitor: the phase of the sink, the last message, and the last checkpoint committed.
  \<open>None\<close> is a violation. The only writes outside an open transaction that it accepts follow a
  stale preparation.\<close>

type_synonym monitor = "txn_phase \<times> ControlMsg option \<times> u64"

fun txn_monitor :: "effect \<Rightarrow> monitor \<Rightarrow> monitor option" where
  "txn_monitor (Received c) (p, d, l) = Some (p, Some c, l)"
| "txn_monitor (BeginTransaction ok) (p, d, l) =
     (if p = Closed then Some (if ok then Open else Closed, d, l) else None)"
| "txn_monitor (Write e ok) (p, d, l) = (if p = Open \<or> stale_phase p l then Some (p, d, l) else None)"
| "txn_monitor (PreCommit cid ep ok) (p, d, l) =
     (if p = Open then Some (if ok then Prepared cid ep else Broken, d, l) else None)"
| "txn_monitor (Commit cid ok) (p, d, l) =
     (case p of
        Prepared i ep \<Rightarrow>
          (if i = cid \<and> l < cid \<and> commit_decided d cid ep
           then Some (if ok then (Closed, d, cid) else (InDoubt i ep, d, l)) else None)
      | InDoubt i ep \<Rightarrow>
          (if i = cid \<and> l < cid \<and> commit_decided d cid ep
           then Some (if ok then (Closed, d, cid) else (InDoubt i ep, d, l)) else None)
      | _ \<Rightarrow> None)"
| "txn_monitor (Abort ok) (p, d, l) =
     (case p of
        Over \<Rightarrow> None
      | InDoubt i ep \<Rightarrow>
          (if abort_decided d i ep then Some (if ok then Over else p, d, l) else None)
      | _ \<Rightarrow> Some (if ok then Over else p, d, l))"
| "txn_monitor (Acked cid) (p, d, l) =
     (case p of Prepared i ep \<Rightarrow> (if i = cid then Some (InDoubt i ep, d, l) else None) | _ \<Rightarrow> None)"
| "txn_monitor (Submitted cid ep prepared) (p, d, l) =
     (if \<not> prepared then Some (p, d, l)
      else case p of
        Prepared i e \<Rightarrow> (if i = cid \<and> e = ep then Some (InDoubt i e, d, l) else None)
      | _ \<Rightarrow> None)"
| "txn_monitor (Sent m) x = Some x"
| "txn_monitor (DeadLetter e) x = Some x"
| "txn_monitor (Counted c n) x = Some x"

primrec run_monitor :: "effect list \<Rightarrow> monitor \<Rightarrow> monitor option" where
  "run_monitor [] x = Some x"
| "run_monitor (e # es) x =
     (case txn_monitor e x of None \<Rightarrow> None | Some y \<Rightarrow> run_monitor es y)"

definition monitored :: "u64 \<Rightarrow> 'w chainContext \<Rightarrow> monitor option" where
  "monitored restored cc = run_monitor (trace cc) (Closed, None, restored)"

lemma run_monitor_append:
  "run_monitor (es @ fs) x = (case run_monitor es x of None \<Rightarrow> None | Some y \<Rightarrow> run_monitor fs y)"
  by (induction es arbitrary: x) (auto split: option.splits)

lemma monitored_logged:
  "monitored r0 (logged e cc) =
     (case monitored r0 cc of None \<Rightarrow> None | Some x \<Rightarrow> txn_monitor e x)"
  by (auto simp: monitored_def logged_def run_monitor_append split: option.splits)

lemma monitored_cong: "trace cc' = trace cc \<Longrightarrow> monitored r0 cc' = monitored r0 cc"
  by (simp add: monitored_def)

lemma run_monitor_quiet:
  "list_all quiet_effect es \<Longrightarrow> p = Open \<or> stale_phase p l \<Longrightarrow> run_monitor es (p, d, l) = Some (p, d, l)"
  by (induction es) (auto simp: quiet_effect_def split: effect.splits)

section \<open>Invariants\<close>

definition idle :: "'w chainContext \<Rightarrow> bool" where
  "idle cc \<longleftrightarrow> \<not> transactionAborted cc \<and> lastAborted cc = (0, 0) \<and> eofs_only cc"

text \<open>The chain writes into an open transaction, or has prepared one.\<close>

definition writing :: "u64 \<Rightarrow> ControlMsg option \<Rightarrow> 'w chainContext \<Rightarrow> bool" where
  "writing r0 d cc \<longleftrightarrow> monitored r0 cc = Some (Open, d, lastCommitted cc) \<and> idle cc
     \<and> \<not> transactionPrepared cc \<and> \<not> transactionDecisionPending cc"

definition waiting :: "u64 \<Rightarrow> ControlMsg option \<Rightarrow> 'w chainContext \<Rightarrow> bool" where
  "waiting r0 d cc \<longleftrightarrow> idle cc \<and> transactionPrepared cc
     \<and> (monitored r0 cc = Some (Prepared (preparedCheckpoint cc) (preparedEpoch cc), d, lastCommitted cc)
        \<or> monitored r0 cc = Some (InDoubt (preparedCheckpoint cc) (preparedEpoch cc), d, lastCommitted cc)
          \<and> transactionDecisionPending cc)"

definition chain_inv :: "u64 \<Rightarrow> ControlMsg option \<Rightarrow> 'w chainContext \<Rightarrow> bool" where
  "chain_inv r0 d cc \<longleftrightarrow> writing r0 d cc \<or> waiting r0 d cc"

text \<open>A barrier that is not newer than the last commit leaves a preparation that no message of its
  checkpoint ends; records may be written all the same.\<close>

definition stale :: "u64 \<Rightarrow> ControlMsg option \<Rightarrow> 'w chainContext \<Rightarrow> bool" where
  "stale r0 d cc \<longleftrightarrow> waiting r0 d cc \<and> preparedCheckpoint cc \<le> lastCommitted cc"

definition recording :: "u64 \<Rightarrow> ControlMsg option \<Rightarrow> 'w chainContext \<Rightarrow> bool" where
  "recording r0 d cc \<longleftrightarrow> writing r0 d cc \<or> stale r0 d cc"

text \<open>When the chain stops, the deferred abort is allowed.\<close>

definition stop_inv :: "u64 \<Rightarrow> 'w chainContext \<Rightarrow> bool" where
  "stop_inv r0 cc \<longleftrightarrow>
     (\<exists>p d l. monitored r0 cc = Some (p, d, l)
        \<and> (\<not> transactionDecisionPending cc \<and> \<not> transactionAborted cc
             \<longrightarrow> p \<noteq> Over \<and> (\<forall>i ep. p \<noteq> InDoubt i ep)))"

lemma stop_writing: "writing r0 d cc \<Longrightarrow> stop_inv r0 cc"
  by (auto simp: writing_def stop_inv_def)

lemma stop_waiting: "waiting r0 d cc \<Longrightarrow> stop_inv r0 cc"
  by (auto simp: waiting_def stop_inv_def)

lemma stop_inv_chain: "chain_inv r0 d cc \<Longrightarrow> stop_inv r0 cc"
  by (auto simp: chain_inv_def stop_writing stop_waiting)

lemma stop_recording: "recording r0 d cc \<Longrightarrow> stop_inv r0 cc"
  by (auto simp: recording_def stale_def stop_writing stop_waiting)

lemma monitored_quiet:
  assumes "quiet cc cc'" "monitored r0 cc = Some (p, d, l)" "p = Open \<or> stale_phase p l"
  shows "monitored r0 cc' = Some (p, d, l)"
proof -
  from assms(1) obtain es where "trace cc' = trace cc @ es" "list_all quiet_effect es"
    by (auto simp: quiet_def)
  then show ?thesis
    using assms(2,3) by (simp add: monitored_def run_monitor_append run_monitor_quiet)
qed

lemma writing_quiet: "quiet cc cc' \<Longrightarrow> writing r0 d cc \<Longrightarrow> writing r0 d cc'"
proof -
  assume q: "quiet cc cc'" and w: "writing r0 d cc"
  then have "monitored r0 cc' = Some (Open, d, lastCommitted cc)"
    by (intro monitored_quiet [OF q]) (simp_all add: writing_def)
  then show ?thesis
    using w quiet_fields [OF q] by (simp add: writing_def idle_def eofs_only_def)
qed

lemma recording_quiet:
  assumes q: "quiet cc cc'" and r: "recording r0 d cc"
  shows "recording r0 d cc'"
proof (cases "writing r0 d cc")
  case True
  then show ?thesis using writing_quiet [OF q] by (simp add: recording_def)
next
  case False
  then have s: "stale r0 d cc" using r by (simp add: recording_def)
  then have "monitored r0 cc' = monitored r0 cc"
    using monitored_quiet [OF q] by (auto simp: stale_def waiting_def)
  then show ?thesis
    using s quiet_fields [OF q]
    by (simp add: recording_def stale_def waiting_def idle_def eofs_only_def)
qed

section \<open>Partial correctness of the operations\<close>

definition triple ::
  "('s \<Rightarrow> bool) \<Rightarrow> ('s, 'a) act \<Rightarrow> ('a \<Rightarrow> 's \<Rightarrow> bool) \<Rightarrow> ('s \<Rightarrow> bool) \<Rightarrow> bool" where
  "triple P m Q E \<longleftrightarrow>
     (\<forall>s r s'. P s \<longrightarrow> m s = Some (r, s') \<longrightarrow> (case r of Return a \<Rightarrow> Q a s' | _ \<Rightarrow> E s'))"

lemma tripleI:
  assumes "\<And>s r s'. P s \<Longrightarrow> m s = Some (r, s') \<Longrightarrow> (case r of Return a \<Rightarrow> Q a s' | _ \<Rightarrow> E s')"
  shows "triple P m Q E"
  using assms by (simp add: triple_def)

lemma tripleD:
  "triple P m Q E \<Longrightarrow> P s \<Longrightarrow> m s = Some (r, s') \<Longrightarrow> (case r of Return a \<Rightarrow> Q a s' | _ \<Rightarrow> E s')"
  by (simp add: triple_def)

lemma triple_andThen:
  assumes "triple P m Q E" "\<And>a. triple (Q a) (f a) R E"
  shows "triple P (andThen m f) R E"
proof (rule tripleI)
  fix s r s'
  assume P: "P s" and run: "andThen m f s = Some (r, s')"
  show "case r of Return a \<Rightarrow> R a s' | _ \<Rightarrow> E s'"
    using run tripleD [OF assms(1) P] tripleD [OF assms(2)] unfolding andThen_def
    by (fastforce split: option.splits outcome.splits)
qed

lemma triple_ret: "(\<And>s. P s \<Longrightarrow> Q a s) \<Longrightarrow> triple P (ret a) Q E"
  by (simp add: triple_def ret_def)

lemma triple_const: "(\<And>s. P s \<Longrightarrow> Q a s) \<Longrightarrow> triple P (\<lambda>s. Some (Return a, s)) Q E"
  by (simp add: triple_def)

lemma triple_fault: "(\<And>s. P s \<Longrightarrow> E s) \<Longrightarrow> triple P (\<lambda>s. Some (Fault e, s)) Q E"
  by (simp add: triple_def)

lemma triple_modify: "(\<And>s. P s \<Longrightarrow> Q () (g s)) \<Longrightarrow> triple P (modify g) Q E"
  by (simp add: triple_def modify_def)

lemma triple_weaken:
  "triple P m Q E \<Longrightarrow> (\<And>s. P' s \<Longrightarrow> P s) \<Longrightarrow> (\<And>a s. Q a s \<Longrightarrow> Q' a s) \<Longrightarrow> triple P' m Q' E"
  unfolding triple_def by (fastforce split: outcome.splits)

lemma triple_if:
  "triple (\<lambda>s. P s \<and> b s) m Q E \<Longrightarrow> triple (\<lambda>s. P s \<and> \<not> b s) m' Q E \<Longrightarrow>
   triple P (\<lambda>s. if b s then m s else m' s) Q E"
  unfolding triple_def by simp

lemma triple_each: "(\<And>x. x \<in> set xs \<Longrightarrow> triple P (f x) (\<lambda>_. P) E) \<Longrightarrow> triple P (each f xs) (\<lambda>_. P) E"
proof (induction xs)
  case Nil
  then show ?case by (simp add: triple_ret)
next
  case (Cons x xs)
  then show ?case
    unfolding each.simps by (intro triple_andThen [where Q = "\<lambda>_. P"]) simp_all
qed

lemma triple_steady:
  assumes "steady m"
  shows "triple (writing r0 d) m (\<lambda>_. writing r0 d) (stop_inv r0)"
proof (rule tripleI)
  fix s r s'
  assume "writing r0 d s" "m s = Some (r, s')"
  then have "writing r0 d s'" using writing_quiet steadyD [OF assms] by blast
  then show "case r of Return a \<Rightarrow> writing r0 d s' | _ \<Rightarrow> stop_inv r0 s'"
    by (simp add: stop_writing split: outcome.splits)
qed

lemma triple_recording:
  assumes "steady m"
  shows "triple (recording r0 d) m (\<lambda>_. recording r0 d) (stop_inv r0)"
proof (rule tripleI)
  fix s r s'
  assume "recording r0 d s" "m s = Some (r, s')"
  then have "recording r0 d s'" using recording_quiet steadyD [OF assms] by blast
  then show "case r of Return a \<Rightarrow> recording r0 d s' | _ \<Rightarrow> stop_inv r0 s'"
    by (simp add: stop_recording split: outcome.splits)
qed

lemma monitored_update [simp]:
  "monitored r0 (cc\<lparr>w_env := a1\<rparr>) = monitored r0 cc"
  "monitored r0 (cc\<lparr>checkpoint := a2\<rparr>) = monitored r0 cc"
  "monitored r0 (cc\<lparr>cc_draining := a3\<rparr>) = monitored r0 cc"
  "monitored r0 (cc\<lparr>preparedCheckpoint := a4\<rparr>) = monitored r0 cc"
  "monitored r0 (cc\<lparr>preparedEpoch := a5\<rparr>) = monitored r0 cc"
  "monitored r0 (cc\<lparr>transactionPrepared := a6\<rparr>) = monitored r0 cc"
  "monitored r0 (cc\<lparr>transactionDirty := a7\<rparr>) = monitored r0 cc"
  "monitored r0 (cc\<lparr>transactionAborted := a8\<rparr>) = monitored r0 cc"
  "monitored r0 (cc\<lparr>transactionDecisionPending := a9\<rparr>) = monitored r0 cc"
  "monitored r0 (cc\<lparr>lastCommitted := b1\<rparr>) = monitored r0 cc"
  "monitored r0 (cc\<lparr>lastAborted := b2\<rparr>) = monitored r0 cc"
  "monitored r0 (cc\<lparr>deferredEOF := b3\<rparr>) = monitored r0 cc"
  "monitored r0 (cc\<lparr>deferredEvents := b4\<rparr>) = monitored r0 cc"
  "monitored r0 (cc\<lparr>inputCh := b5\<rparr>) = monitored r0 cc"
  "monitored r0 (cc\<lparr>aligner := b6\<rparr>) = monitored r0 cc"
  "monitored r0 (cc\<lparr>eofCount := b7\<rparr>) = monitored r0 cc"
  by (simp_all add: monitored_def)

lemma logged_fields [simp]:
  "txn_state (logged e cc) = txn_state cc"
  "checkpoint (logged e cc) = checkpoint cc"
  "preparedCheckpoint (logged e cc) = preparedCheckpoint cc"
  "preparedEpoch (logged e cc) = preparedEpoch cc"
  "transactionPrepared (logged e cc) = transactionPrepared cc"
  "transactionAborted (logged e cc) = transactionAborted cc"
  "transactionDecisionPending (logged e cc) = transactionDecisionPending cc"
  "lastCommitted (logged e cc) = lastCommitted cc" "lastAborted (logged e cc) = lastAborted cc"
  "eofs_only (logged e cc) = eofs_only cc"
  for cc :: "'w chainContext"
  by (simp_all add: logged_def txn_state_def eofs_only_def)

lemma sink_call_result:
  assumes "sink_call eff f wrap s = Some (r, s')"
  shows "\<exists>w. s' = logged (eff (r = Return ())) (s\<lparr>w_env := w\<rparr>)"
proof -
  obtain x w where "f (w_env s) = (x, w)" by fastforce
  then show ?thesis
    using assms by (cases x) (auto simp: sink_call_def call_logged_def ask_def)
qed

lemma safe_call_result:
  assumes "safeInvoke (call_logged eff f) s = (x, s')"
  shows "\<exists>w. s' = logged (eff (x = Inr ())) (s\<lparr>w_env := w\<rparr>)"
proof -
  obtain y w where "f (w_env s) = (y, w)" by fastforce
  then show ?thesis
    using assms by (cases y) (auto simp: safeInvoke_def call_logged_def ask_def)
qed

lemma ask_result: "ask f s = (x, s') \<Longrightarrow> \<exists>w. s' = s\<lparr>w_env := w\<rparr>"
  by (auto simp: ask_def Let_def split: prod.splits)

text \<open>The invariants read the trace and the state of the transaction only.\<close>

lemma waiting_cong:
  assumes "txn_state cc' = txn_state cc" "trace cc' = trace cc"
  shows "waiting r0 d cc' = waiting r0 d cc"
  using assms monitored_cong [OF assms(2)]
  by (simp add: waiting_def idle_def eofs_only_def txn_state_def)

definition unlogged :: "('w chainContext, 'a) act \<Rightarrow> bool" where
  "unlogged m \<longleftrightarrow> (\<forall>cc r cc'. m cc = Some (r, cc') \<longrightarrow>
     txn_state cc' = txn_state cc \<and> trace cc' = trace cc)"

lemma unloggedD:
  "unlogged m \<Longrightarrow> m cc = Some (r, cc') \<Longrightarrow> txn_state cc' = txn_state cc \<and> trace cc' = trace cc"
  by (simp add: unlogged_def)

lemma unlogged_andThen:
  assumes "unlogged m" "\<And>a. unlogged (f a)"
  shows "unlogged (andThen m f)"
  unfolding unlogged_def andThen_def
  by (auto split: option.splits outcome.splits
      dest!: unloggedD [OF assms(1)] unloggedD [OF assms(2)])

lemma unlogged_capture: "unlogged (capture_links env cid i ls)"
proof -
  have basic: "unlogged (ret a)" "unlogged (fault e)" for a e
    by (simp_all add: unlogged_def ret_def fault_def)
  have ask: "unlogged (always (ask f))" for f
    by (auto simp: unlogged_def always_def ask_def txn_state_def split: prod.splits)
  have wrap: "unlogged (wrapping p m)" if "unlogged m" for p m
    unfolding unlogged_def wrapping_def
    by (auto split: option.splits outcome.splits prod.splits dest!: unloggedD [OF that])
  have "unlogged (captureOperatorCheckpoint env op cid)" for op
    unfolding captureOperatorCheckpoint_def
    by (auto split: option.splits intro!: unlogged_andThen ask basic)
  then show ?thesis
    by (induction ls arbitrary: i) (auto intro!: unlogged_andThen wrap basic)
qed

lemma triple_unlogged:
  assumes "unlogged m"
    and "\<And>cc cc'. txn_state cc' = txn_state cc \<Longrightarrow> trace cc' = trace cc \<Longrightarrow> P cc \<Longrightarrow> P cc'"
    and "\<And>cc. P cc \<Longrightarrow> E cc"
  shows "triple P m (\<lambda>_. P) E"
proof (rule tripleI)
  fix s r s'
  assume "P s" "m s = Some (r, s')"
  then have "P s'" using assms(2) unloggedD [OF assms(1)] by blast
  then show "case r of Return a \<Rightarrow> P s' | _ \<Rightarrow> E s'"
    by (simp add: assms(3) split: outcome.splits)
qed

subsection \<open>Preparing a transaction\<close>

lemma triple_sink_call:
  assumes "\<And>s w. P s \<Longrightarrow> Q () (logged (eff True) (s\<lparr>w_env := w\<rparr>))"
    and "\<And>s w. P s \<Longrightarrow> E (logged (eff False) (s\<lparr>w_env := w\<rparr>))"
  shows "triple P (sink_call eff f wrap) Q E"
proof (rule tripleI)
  fix s r s'
  assume "P s" and run: "sink_call eff f wrap s = Some (r, s')"
  then show "case r of Return a \<Rightarrow> Q a s' | _ \<Rightarrow> E s'"
    using sink_call_result [OF run] assms by (elim exE, cases r) simp_all
qed

lemmas inv_defs = writing_def waiting_def stop_inv_def idle_def eofs_only_def

text \<open>The transaction is prepared for the checkpoint of \<open>ctrl\<close> and not reported.\<close>

definition prepared_for :: "u64 \<Rightarrow> ControlMsg option \<Rightarrow> ControlMsg \<Rightarrow> 'w chainContext \<Rightarrow> bool" where
  "prepared_for r0 d ctrl cc \<longleftrightarrow> idle cc \<and> transactionPrepared cc
     \<and> preparedCheckpoint cc = ctl_CheckpointID ctrl \<and> preparedEpoch cc = ctl_EpochID ctrl
     \<and> monitored r0 cc
         = Some (Prepared (ctl_CheckpointID ctrl) (ctl_EpochID ctrl), d, lastCommitted cc)"

lemma prepared_waiting: "prepared_for r0 d ctrl cc \<Longrightarrow> waiting r0 d cc"
  by (simp add: prepared_for_def waiting_def)

lemma triple_prepare:
  assumes "txnSink ch = Some sink"
  shows "triple (writing r0 d)
    (prepare_transaction ch ctrl) (\<lambda>_. prepared_for r0 d ctrl) (stop_inv r0)"
  unfolding prepare_transaction_def [abs_def] assms option.case
proof (intro triple_if triple_fault
    triple_andThen [OF triple_sink_call triple_modify [where P = "\<lambda>cc. idle cc
      \<and> monitored r0 cc = Some (Prepared (ctl_CheckpointID ctrl) (ctl_EpochID ctrl), d,
          lastCommitted cc)"]])
qed (auto simp: inv_defs prepared_for_def monitored_logged)

definition announced :: "u64 \<Rightarrow> ControlMsg option \<Rightarrow> ControlMsg \<Rightarrow> 'w chainContext \<Rightarrow> bool" where
  "announced r0 d ctrl cc \<longleftrightarrow>
     prepared_for r0 d ctrl cc \<or> checkpoint cc = None \<and> waiting r0 d cc"

lemma triple_announce:
  assumes "txnSink ch = Some sink"
  shows "triple (prepared_for r0 d ctrl) (announce_barrier env ch ctrl) (\<lambda>_. announced r0 d ctrl)
    (stop_inv r0)"
  unfolding announce_barrier_def [abs_def] triple_def assms
  by (auto simp: announced_def prepared_for_def waiting_def idle_def eofs_only_def
      monitored_logged)

lemma triple_submit:
  "triple (announced r0 d ctrl) (submit_snapshot env ctrl data ix) (\<lambda>_. waiting r0 d) (stop_inv r0)"
proof (rule tripleI)
  fix s r s'
  assume s: "announced r0 d ctrl s" and run: "submit_snapshot env ctrl data ix s = Some (r, s')"
  show "case r of Return a \<Rightarrow> waiting r0 d s' | _ \<Rightarrow> stop_inv r0 s'"
  proof (cases "checkpoint s")
    case None
    then show ?thesis
      using s run by (auto simp: submit_snapshot_def announced_def prepared_waiting)
  next
    case (Some c)
    then have p: "prepared_for r0 d ctrl s" using s by (simp add: announced_def)
    then have "waiting r0 d s' \<and> transactionDecisionPending s'"
      using run Some
      by (auto simp: submit_snapshot_def checkpoint_submit_def notified_def Let_def
          prepared_for_def waiting_def idle_def eofs_only_def monitored_logged
          split: if_splits option.splits prod.splits dest!: ask_result)
    then show ?thesis by (auto intro: stop_waiting split: outcome.splits)
  qed
qed

lemma triple_finish:
  assumes "txnSink ch = Some sink"
  shows "triple (waiting r0 d) (finish_barrier env ch ctrl) (\<lambda>_. waiting r0 d) (stop_inv r0)"
  unfolding finish_barrier_def [abs_def] triple_def assms
  by (auto simp: waiting_def idle_def eofs_only_def split: prod.splits)

lemma triple_barrier:
  assumes sink: "txnSink ch = Some sink"
  shows "triple (writing r0 d)
    (handle_barrier env ch ctrl) (\<lambda>_. waiting r0 d) (stop_inv r0)"
proof -
  have capture: "triple (prepared_for r0 d ctrl) (capture_links env cid 0 (links ch))
      (\<lambda>_. prepared_for r0 d ctrl) (stop_inv r0)" for cid
  proof (rule triple_unlogged [OF unlogged_capture])
    show "prepared_for r0 d ctrl cc'"
      if "txn_state cc' = txn_state cc" "trace cc' = trace cc" "prepared_for r0 d ctrl cc"
      for cc cc' :: "'a chainContext"
      using that by (simp add: prepared_for_def idle_def eofs_only_def txn_state_def monitored_def)
  qed (rule stop_waiting [OF prepared_waiting])
  show ?thesis
    unfolding handle_barrier_def
    by (intro triple_andThen [OF triple_steady [OF steady_drains(1)]] triple_andThen [OF triple_prepare [OF sink]]
        triple_andThen [OF capture])
      (auto intro!: triple_andThen [OF triple_announce [OF sink]]
        triple_andThen [OF triple_submit] triple_finish [OF sink])
qed

subsection \<open>Decisions\<close>

text \<open>A commit was decided and is repeated until it succeeds or the attempts end.\<close>

definition committing :: "u64 \<Rightarrow> ControlMsg option \<Rightarrow> u64 \<Rightarrow> 'w chainContext \<Rightarrow> bool" where
  "committing r0 d cid cc \<longleftrightarrow> waiting r0 d cc \<and> transactionDecisionPending cc
     \<and> lastCommitted cc < cid \<and> preparedCheckpoint cc = cid
     \<and> commit_decided d cid (preparedEpoch cc)"

definition committed :: "u64 \<Rightarrow> ControlMsg option \<Rightarrow> u64 \<Rightarrow> 'w chainContext \<Rightarrow> bool" where
  "committed r0 d cid cc \<longleftrightarrow> monitored r0 cc = Some (Closed, d, cid) \<and> idle cc"

lemma committing_ask: "ask f cc = (x, cc') \<Longrightarrow> committing r0 d cid cc' = committing r0 d cid cc"
  by (auto simp: committing_def waiting_def idle_def eofs_only_def dest!: ask_result)

lemma committing_call:
  assumes "safeInvoke (call_logged (Commit cid) f) cc = (x, cc')" "committing r0 d cid cc"
  shows "if x = Inr () then committed r0 d cid cc' else committing r0 d cid cc'"
  using safe_call_result [OF assms(1)] assms(2)
  by (auto simp: committing_def committed_def waiting_def idle_def eofs_only_def monitored_logged)

lemma committing_stop: "committing r0 d cid cc \<Longrightarrow> stop_inv r0 cc"
  by (auto simp: committing_def intro: stop_waiting)

lemma triple_commitTransaction:
  "triple (committing r0 d cid) (retryTransactionCommit env sink cid n le b)
     (\<lambda>_. committed r0 d cid) (stop_inv r0)"
proof (induction n arbitrary: le b)
  case 0
  then show ?case by (auto simp: triple_def dest: committing_stop)
next
  case (Suc n)
  show ?case
  proof (rule tripleI)
    fix s r s'
    assume s: "committing r0 d cid s"
      and run: "retryTransactionCommit env sink cid (Suc n) le b s = Some (r, s')"
    obtain e s1 where e: "ask (ctx_Err env) s = (e, s1)" by fastforce
    obtain x s2 where x: "safeInvoke (call_logged (Commit cid) (tx_Commit sink cid)) s1 = (x, s2)"
      by fastforce
    obtain c s3 where c: "ask (time_After env b) s2 = (c, s3)" by fastforce
    have s1: "committing r0 d cid s1" using s committing_ask [OF e] by simp
    have s2: "if x = Inr () then committed r0 d cid s2 else committing r0 d cid s2"
      using committing_call [OF x s1] .
    have s3: "committing r0 d cid s3 = committing r0 d cid s2" using committing_ask [OF c] by simp
    have "e = None \<Longrightarrow> x = Inl err \<Longrightarrow> n \<noteq> 0 \<Longrightarrow> c = None \<Longrightarrow>
        (case r of Return _ \<Rightarrow> committed r0 d cid s' | _ \<Rightarrow> stop_inv r0 s')" for err
      using run e x c s2 s3 by (intro tripleD [OF Suc.IH, of s3]) auto
    then show "case r of Return _ \<Rightarrow> committed r0 d cid s' | _ \<Rightarrow> stop_inv r0 s'"
      using run e x c s1 s2 s3 committing_stop [of r0 d cid]
      by (cases e; cases x; cases "n = 0"; cases c) auto
  qed
qed

lemma triple_commit:
  assumes sink: "txnSink ch = Some sink" and d: "d = Some ctrl"
    and type: "ctl_Type ctrl = CtrlCommitCheckpoint"
  shows "triple (\<lambda>cc. chain_inv r0 d cc \<and> \<not> other_term ctrl cc) (handle_commit env ch ctrl)
    (\<lambda>_. chain_inv r0 d) (stop_inv r0)"
proof -
  let ?cid = "ctl_CheckpointID ctrl"
  have decide: "triple (\<lambda>cc. (chain_inv r0 d cc \<and> \<not> other_term ctrl cc)
        \<and> lastCommitted cc < ?cid \<and> transactionPrepared cc \<and> ?cid = preparedCheckpoint cc)
      (modify (\<lambda>cc. cc\<lparr>transactionDecisionPending := True\<rparr>)) (\<lambda>_. committing r0 d ?cid) (stop_inv r0)"
    using type unfolding d
    by (intro triple_modify) (auto simp: chain_inv_def inv_defs committing_def
        other_term_def commit_decided_def)
  have close: "triple (committed r0 d ?cid) (modify (\<lambda>cc. cc\<lparr>lastCommitted := ?cid,
      transactionDirty := False, transactionPrepared := False,
      transactionDecisionPending := False\<rparr>)) (\<lambda>_ cc. committed r0 d ?cid cc
        \<and> lastCommitted cc = ?cid \<and> \<not> transactionPrepared cc \<and> \<not> transactionDecisionPending cc)
      (stop_inv r0)"
    by (intro triple_modify) (auto simp: committed_def idle_def eofs_only_def)
  have reopen: "triple (\<lambda>cc. committed r0 d ?cid cc \<and> lastCommitted cc = ?cid
        \<and> \<not> transactionPrepared cc \<and> \<not> transactionDecisionPending cc)
      (sink_call BeginTransaction f w) (\<lambda>_. chain_inv r0 d) (stop_inv r0)" for f w
    by (rule triple_sink_call)
      (auto simp: committed_def chain_inv_def inv_defs monitored_logged)
  note path = triple_andThen [OF decide triple_andThen [OF triple_commitTransaction
      triple_andThen [OF close reopen]]]
  show ?thesis
    unfolding handle_commit_def [abs_def] sink option.case commitTransaction_def
    by (intro triple_if triple_const triple_fault triple_weaken [OF path])
      (auto intro: stop_inv_chain)
qed

subsection \<open>Aborts and deferred work\<close>

lemma triple_roll_back:
  assumes "\<And>cc. P cc \<Longrightarrow> idle cc"
    and "\<And>cc. P cc \<Longrightarrow> \<exists>p l. monitored r0 cc = Some (p, d, l) \<and> p \<noteq> Over
      \<and> (\<forall>i ep. p = InDoubt i ep \<longrightarrow> abort_decided d i ep \<and> transactionDecisionPending cc)"
  shows "triple P (andThen (sink_call Abort f w) (\<lambda>_. andThen (modify (\<lambda>cc.
      cc\<lparr>transactionPrepared := False, transactionDecisionPending := False, lastAborted := x,
         transactionAborted := True\<rparr>)) (\<lambda>_. fault e))) (\<lambda>_ _. False) (stop_inv r0)"
proof (rule triple_andThen [OF triple_sink_call [where Q = "\<lambda>_ cc. \<exists>p l. monitored r0 cc = Some (p, d, l)"]])
  show "\<exists>p l. monitored r0 (logged (Abort True) (cc\<lparr>w_env := w'\<rparr>)) = Some (p, d, l)"
    if "P cc" for cc w'
    using assms(2) [OF that] by (auto simp: monitored_logged split: txn_phase.splits)
  show "stop_inv r0 (logged (Abort False) (cc\<lparr>w_env := w'\<rparr>))" if "P cc" for cc w'
    using assms(2) [OF that] by (auto simp: stop_inv_def monitored_logged split: txn_phase.splits)
  show "triple (\<lambda>cc. \<exists>p l. monitored r0 cc = Some (p, d, l)) (andThen (modify (\<lambda>cc.
      cc\<lparr>transactionPrepared := False, transactionDecisionPending := False, lastAborted := x,
         transactionAborted := True\<rparr>)) (\<lambda>_. fault e)) (\<lambda>_ _. False) (stop_inv r0)" for a :: unit
    by (rule triple_andThen [OF triple_modify [where Q = "\<lambda>_. stop_inv r0"]])
      (auto simp: stop_inv_def triple_def fault_def)
qed

text \<open>An abort message may follow from the one that was received.\<close>

definition authorised :: "ControlMsg option \<Rightarrow> ControlMsg \<Rightarrow> bool" where
  "authorised d c \<longleftrightarrow>
     (ctl_Type c = CtrlCommitCheckpoint \<longrightarrow> d = Some c)
     \<and> (ctl_Type c \<in> {CtrlAbortCheckpoint, CtrlAbortTransaction} \<longrightarrow>
          (\<exists>origin. d = Some origin \<and> ctl_Type origin \<in> {CtrlAbortCheckpoint, CtrlAbortTransaction}
             \<and> ctl_CheckpointID origin = ctl_CheckpointID c \<and> ctl_EpochID origin = ctl_EpochID c))"

lemma authorised_abort:
  "authorised d c \<Longrightarrow> ctl_Type c \<in> {CtrlAbortCheckpoint, CtrlAbortTransaction} \<Longrightarrow>
   t \<in> {CtrlAbortCheckpoint, CtrlAbortTransaction} \<Longrightarrow> authorised d (abort_control t c)"
  by (auto simp: authorised_def abort_control_def)

text \<open>An abort of the prepared transaction leaves a stale preparation as it is.\<close>

definition unanswered ::
  "u64 \<Rightarrow> ControlMsg option \<Rightarrow> ControlMsg \<Rightarrow> 'w chainContext \<Rightarrow> bool" where
  "unanswered r0 d c cc \<longleftrightarrow> stale r0 d cc \<and> preparedEpoch cc = ctl_EpochID c"

text \<open>What a recursive call of the handler guarantees.\<close>

definition handles ::
  "u64 \<Rightarrow> ControlMsg option \<Rightarrow> (ControlMsg \<Rightarrow> ('w chainContext, unit) act) \<Rightarrow> bool" where
  "handles r0 d h \<longleftrightarrow>
     (\<forall>c. authorised d c \<longrightarrow>
        triple (chain_inv r0 d) (h c) (\<lambda>_. chain_inv r0 d) (stop_inv r0)
        \<and> (ctl_Type c = CtrlAbortTransaction \<longrightarrow>
             triple (\<lambda>cc. waiting r0 d cc \<and> ctl_CheckpointID c = preparedCheckpoint cc
                 \<and> ctl_EpochID c = preparedEpoch cc) (h c) (\<lambda>_. unanswered r0 d c) (stop_inv r0)))"

lemma handlesD:
  assumes "handles r0 d h" "authorised d c"
  shows "triple (chain_inv r0 d) (h c) (\<lambda>_. chain_inv r0 d) (stop_inv r0)"
    and "ctl_Type c = CtrlAbortTransaction \<Longrightarrow>
      triple (\<lambda>cc. waiting r0 d cc \<and> ctl_CheckpointID c = preparedCheckpoint cc
        \<and> ctl_EpochID c = preparedEpoch cc) (h c) (\<lambda>_. unanswered r0 d c) (stop_inv r0)"
  using assms unfolding handles_def by blast+

lemma triple_state:
  assumes "\<And>s. P s \<Longrightarrow> P' (g s)" "\<And>s. P s \<Longrightarrow> triple P' (m s) Q E"
  shows "triple P (\<lambda>s. m s (g s)) Q E"
  using assms unfolding triple_def by blast

lemma triple_vacuous: "(\<And>s. \<not> P s) \<Longrightarrow> triple P m Q E"
  by (simp add: triple_def)

lemma abort_permitted:
  assumes "authorised d c" "ctl_Type c = CtrlAbortTransaction"
    and "writing r0 d cc \<or> waiting r0 d cc \<and> ctl_CheckpointID c \<in> {0, preparedCheckpoint cc}
        \<and> ctl_EpochID c = preparedEpoch cc"
  shows "\<exists>p l. monitored r0 cc = Some (p, d, l) \<and> p \<noteq> Over
      \<and> (\<forall>i ep. p = InDoubt i ep \<longrightarrow> abort_decided d i ep \<and> transactionDecisionPending cc)"
  using assms by (auto simp: writing_def waiting_def authorised_def abort_decided_def)

lemma triple_abort_transaction:
  assumes sink: "txnSink ch = Some sink" and auth: "authorised d c"
    and type: "ctl_Type c = CtrlAbortTransaction" and h: "handles r0 d h"
  shows "triple (\<lambda>cc. chain_inv r0 d cc \<and> \<not> other_term c cc) (handle_abort_transaction h ch c)
      (\<lambda>_. chain_inv r0 d) (stop_inv r0)"
    and "triple (\<lambda>cc. waiting r0 d cc \<and> ctl_CheckpointID c = preparedCheckpoint cc
        \<and> ctl_EpochID c = preparedEpoch cc) (handle_abort_transaction h ch c)
      (\<lambda>r cc. \<not> r \<and> unanswered r0 d c cc) (stop_inv r0)"
proof -
  define allowed where "allowed cc \<longleftrightarrow> writing r0 d cc \<or> waiting r0 d cc
    \<and> ctl_CheckpointID c \<in> {0, preparedCheckpoint cc} \<and> ctl_EpochID c = preparedEpoch cc"
    for cc :: "'a chainContext"
  have roll: "triple allowed (andThen (sink_call Abort f w) (\<lambda>_. andThen (modify (\<lambda>cc.
      cc\<lparr>transactionPrepared := False, transactionDecisionPending := False, lastAborted := x,
         transactionAborted := True\<rparr>)) (\<lambda>_. fault e))) (\<lambda>_ _. False) (stop_inv r0)" for f w x e
    by (rule triple_roll_back [OF _ abort_permitted [OF auth type]])
      (auto simp: allowed_def writing_def waiting_def)
  have "authorised d (abort_control CtrlAbortCheckpoint c)"
    by (rule authorised_abort [OF auth]) (simp_all add: type)
  then have "triple (\<lambda>cc. chain_inv r0 d cc) (h (abort_control CtrlAbortCheckpoint c))
      (\<lambda>_. chain_inv r0 d) (stop_inv r0)"
    by (rule handlesD(1) [OF h])
  then have recurse: "triple (\<lambda>cc. chain_inv r0 d cc) (andThen (h (abort_control CtrlAbortCheckpoint c))
      (\<lambda>_. ret True)) (\<lambda>_. chain_inv r0 d) (stop_inv r0)"
    by (rule triple_andThen) (rule triple_ret)
  show "triple (\<lambda>cc. chain_inv r0 d cc \<and> \<not> other_term c cc) (handle_abort_transaction h ch c)
      (\<lambda>_. chain_inv r0 d) (stop_inv r0)"
    unfolding handle_abort_transaction_def [abs_def] Let_def sink option.case
    by (intro triple_if triple_const triple_fault triple_weaken [OF recurse] triple_weaken [OF roll])
      (auto intro: stop_inv_chain simp: allowed_def chain_inv_def other_term_def type waiting_def
        writing_def)
  show "triple (\<lambda>cc. waiting r0 d cc \<and> ctl_CheckpointID c = preparedCheckpoint cc
        \<and> ctl_EpochID c = preparedEpoch cc) (handle_abort_transaction h ch c)
      (\<lambda>r cc. \<not> r \<and> unanswered r0 d c cc) (stop_inv r0)"
    unfolding handle_abort_transaction_def [abs_def] Let_def sink option.case
    by (rule triple_if, rule triple_vacuous, simp add: waiting_def,
        intro triple_if triple_const triple_fault triple_weaken [OF roll])
      (auto intro: stop_waiting simp: allowed_def unanswered_def stale_def waiting_def idle_def)
qed

lemma writing_update [simp]:
  "writing r0 d (cc\<lparr>w_env := a0\<rparr>) = writing r0 d cc"
  "writing r0 d (cc\<lparr>aligner := a1\<rparr>) = writing r0 d cc"
  "writing r0 d (cc\<lparr>checkpoint := a2\<rparr>) = writing r0 d cc"
  "writing r0 d (cc\<lparr>deferredEvents := a3\<rparr>) = writing r0 d cc"
  "writing r0 d (cc\<lparr>eofCount := a4\<rparr>) = writing r0 d cc"
  "writing r0 d (cc\<lparr>cc_draining := a5\<rparr>) = writing r0 d cc"
  "writing r0 d (cc\<lparr>inputCh := a6\<rparr>) = writing r0 d cc"
  "writing r0 d cc \<Longrightarrow> writing r0 d (cc\<lparr>deferredEOF := []\<rparr>)"
  by (simp_all add: writing_def idle_def eofs_only_def)

lemma waiting_update [simp]:
  "waiting r0 d (cc\<lparr>w_env := a0\<rparr>) = waiting r0 d cc"
  "waiting r0 d (cc\<lparr>aligner := a1\<rparr>) = waiting r0 d cc"
  "waiting r0 d (cc\<lparr>checkpoint := a2\<rparr>) = waiting r0 d cc"
  "waiting r0 d (cc\<lparr>cc_draining := a5\<rparr>) = waiting r0 d cc"
  "waiting r0 d (cc\<lparr>inputCh := a6\<rparr>) = waiting r0 d cc"
  by (simp_all add: waiting_def idle_def eofs_only_def)

lemma recording_update [simp]:
  "recording r0 d (cc\<lparr>w_env := a0\<rparr>) = recording r0 d cc"
  "recording r0 d (cc\<lparr>aligner := a1\<rparr>) = recording r0 d cc"
  "recording r0 d (cc\<lparr>checkpoint := a2\<rparr>) = recording r0 d cc"
  by (simp_all add: recording_def stale_def)

lemma checkpoint_abort_inv [simp]:
  "writing r0 d (checkpoint_abort env cid ep cc) = writing r0 d cc"
  "waiting r0 d (checkpoint_abort env cid ep cc) = waiting r0 d cc"
  "other_term c (checkpoint_abort env cid ep cc) = other_term c cc"
  "recording r0 d (checkpoint_abort env cid ep cc) = recording r0 d cc"
  by (simp_all add: checkpoint_abort_def ask_def other_term_def split: option.splits)

lemma triple_events:
  "triple (writing r0 d) (each (processEvent env ch) es) (\<lambda>_. writing r0 d) (stop_inv r0)"
  by (intro triple_steady steady_intros)

lemma triple_released:
  "triple (writing r0 d) (\<lambda>cc. each (processEvent env ch) (fst (release (aligner cc)))
      (cc\<lparr>aligner := snd (release (aligner cc))\<rparr>)) (\<lambda>_. writing r0 d) (stop_inv r0)"
  by (rule triple_state [where P' = "writing r0 d"
        and m = "\<lambda>cc. each (processEvent env ch) (fst (release (aligner cc)))"])
    (simp_all add: triple_events)

lemma triple_abort_checkpoint:
  "triple (recording r0 d) (handle_abort_checkpoint env ch c) (\<lambda>_. recording r0 d) (stop_inv r0)"
proof -
  have drain: "triple (recording r0 d) (\<lambda>cc. abort_drain env ch (length (inputCh cc)) cc)
      (\<lambda>_. recording r0 d) (stop_inv r0)"
    using triple_recording [OF steady_drains(2), of r0 d env ch] unfolding triple_def by blast
  have released: "triple (recording r0 d) (\<lambda>cc.
      each (processEvent env ch) (fst (AbortAlignment (ctl_CheckpointID c) (ctl_EpochID c) (aligner cc)))
        (cc\<lparr>aligner := snd (AbortAlignment (ctl_CheckpointID c) (ctl_EpochID c) (aligner cc))\<rparr>))
      (\<lambda>_. recording r0 d) (stop_inv r0)"
    by (rule triple_state [where P' = "recording r0 d"
          and m = "\<lambda>cc. each (processEvent env ch)
            (fst (AbortAlignment (ctl_CheckpointID c) (ctl_EpochID c) (aligner cc)))"])
      (simp_all add: triple_recording [OF steady_each [OF steady_processEvent]])
  show ?thesis
    unfolding handle_abort_checkpoint_def case_prod_beta Let_def
    by (intro triple_andThen [where Q = "\<lambda>_. recording r0 d"] triple_modify drain released) simp
qed

lemma triple_drain:
  "triple (writing r0 d) (drainInputCh env ch) (\<lambda>_. writing r0 d) (stop_inv r0)"
  by (intro triple_steady steady_intros)

lemma triple_end:
  "triple (writing r0 d) (handle_end_of_partition env ch) (\<lambda>_. writing r0 d) (stop_inv r0)"
proof -
  have "triple (writing r0 d) (andThen (emitChainEnd env ch) (\<lambda>_. fault (Leaf ErrChainDone)))
      (\<lambda>_ :: bool. writing r0 d) (stop_inv r0)"
    by (intro triple_steady steady_intros)
  then have ending: "triple (writing r0 d) (\<lambda>cc. case checkpoint cc of
      Some c \<Rightarrow> (if cp_pending c \<noteq> []
                then Some (Return True, cc\<lparr>checkpoint := Some (c\<lparr>endPending := True\<rparr>)\<rparr>)
                else andThen (emitChainEnd env ch) (\<lambda>_. fault (Leaf ErrChainDone)) cc)
    | None \<Rightarrow> andThen (emitChainEnd env ch) (\<lambda>_. fault (Leaf ErrChainDone)) cc)
      (\<lambda>_. writing r0 d) (stop_inv r0)"
    unfolding triple_def by (auto split: option.splits)
  have drain: "triple (\<lambda>cc. writing r0 d cc \<and> chain_inputs ch \<le> eofCount cc) (drainInputCh env ch)
      (\<lambda>_. writing r0 d) (stop_inv r0)"
    by (rule triple_weaken [OF triple_drain]) simp_all
  show ?thesis
    unfolding handle_end_of_partition_def
    by (intro triple_andThen [where Q = "\<lambda>_. writing r0 d"] triple_modify triple_if triple_const
        triple_andThen [OF drain] ending) simp_all
qed

lemma triple_drain_inputs:
  "triple (chain_inv r0 d) (handle_drain_inputs env ch) (\<lambda>_. chain_inv r0 d) (stop_inv r0)"
proof -
  have released: "triple (\<lambda>cc. chain_inv r0 d cc \<and> \<not> transactionPrepared cc)
      (andThen (drainInputCh env ch) (\<lambda>_ cc. each (processEvent env ch) (fst (BeginDrain (aligner cc)))
        (cc\<lparr>aligner := snd (BeginDrain (aligner cc))\<rparr>))) (\<lambda>_. chain_inv r0 d) (stop_inv r0)"
    by (rule triple_weaken [OF triple_andThen [OF triple_drain triple_released]])
      (auto simp: chain_inv_def waiting_def)
  show ?thesis
    unfolding handle_drain_inputs_def case_prod_beta Let_def
    by (intro triple_andThen [where Q = "\<lambda>_. chain_inv r0 d"] triple_modify triple_if triple_fault
        released) (auto simp: chain_inv_def stop_writing stop_waiting)
qed

lemma triple_shutdown:
  "triple (chain_inv r0 d) (handle_shutdown env ch) (\<lambda>_. chain_inv r0 d) (stop_inv r0)"
proof (rule tripleI)
  fix s r s'
  assume s: "chain_inv r0 d s" and run: "handle_shutdown env ch s = Some (r, s')"
  show "case r of Return _ \<Rightarrow> chain_inv r0 d s' | _ \<Rightarrow> stop_inv r0 s'"
  proof (cases "cc_draining s \<and> \<not> transactionPrepared s")
    case True
    then have "writing r0 d s" using s by (auto simp: chain_inv_def waiting_def)
    moreover have "triple (writing r0 d) (andThen (drainInputCh env ch)
        (\<lambda>_. fault (Leaf ErrChainDone))) (\<lambda>_ :: unit. writing r0 d) (stop_inv r0)"
      by (intro triple_steady steady_intros)
    ultimately show ?thesis
      using tripleD [of "writing r0 d" _ _ _ s r s'] run True
      by (fastforce simp: handle_shutdown_def chain_inv_def split: outcome.splits)
  next
    case False
    then show ?thesis
      using run stop_inv_chain [OF s] by (auto simp: handle_shutdown_def andThen_def ret_def fault_def)
  qed
qed

lemma triple_deferred:
  assumes h: "handles r0 d h"
  shows "triple (chain_inv r0 d) (run_deferred h env ch) (\<lambda>_. chain_inv r0 d) (stop_inv r0)"
proof -
  have open_: "chain_inv r0 d cc \<and> \<not> transactionPrepared cc \<Longrightarrow> writing r0 d cc"
    for cc :: "'a chainContext"
    by (auto simp: chain_inv_def waiting_def)
  have "triple (\<lambda>cc. chain_inv r0 d cc \<and> \<not> transactionPrepared cc)
      (\<lambda>cc. each (processEvent env ch) (deferredEvents cc) (cc\<lparr>deferredEvents := []\<rparr>))
      (\<lambda>_. writing r0 d) (stop_inv r0)"
    by (rule triple_state [where P' = "writing r0 d"
          and m = "\<lambda>cc. each (processEvent env ch) (deferredEvents cc)"])
      (simp_all add: open_ triple_events)
  then have events:
    "triple (chain_inv r0 d) (deferred_events env ch) (\<lambda>_. chain_inv r0 d) (stop_inv r0)"
    unfolding deferred_events_def [abs_def]
    by (intro triple_if triple_const) (auto simp: chain_inv_def elim: triple_weaken)
  have "triple (\<lambda>cc. chain_inv r0 d cc \<and> \<not> transactionPrepared cc)
      (\<lambda>cc. each h (deferredEOF cc) (cc\<lparr>deferredEOF := []\<rparr>)) (\<lambda>_. chain_inv r0 d) (stop_inv r0)"
  proof (rule triple_state [where P' = "chain_inv r0 d" and m = "\<lambda>cc. each h (deferredEOF cc)"])
    fix s :: "'a chainContext"
    assume s: "chain_inv r0 d s \<and> \<not> transactionPrepared s"
    from open_ [OF s] show "chain_inv r0 d (s\<lparr>deferredEOF := []\<rparr>)" by (simp add: chain_inv_def)
    show "triple (chain_inv r0 d) (each h (deferredEOF s)) (\<lambda>_. chain_inv r0 d) (stop_inv r0)"
    proof (rule triple_each)
      fix c
      assume "c \<in> set (deferredEOF s)"
      then have "ctl_Type c = CtrlEndOfPartition"
        using open_ [OF s] by (simp add: writing_def idle_def eofs_only_def list_all_iff)
      then show "triple (chain_inv r0 d) (h c) (\<lambda>_. chain_inv r0 d) (stop_inv r0)"
        by (intro triple_weaken [OF handlesD(1) [OF h]]) (simp_all add: authorised_def)
    qed
  qed
  then have "triple (chain_inv r0 d) (deferred_ends h) (\<lambda>_. chain_inv r0 d) (stop_inv r0)"
    unfolding deferred_ends_def [abs_def] by (intro triple_if triple_const) auto
  then show ?thesis
    unfolding run_deferred_def by (rule triple_andThen [OF events])
qed

subsection \<open>The handler\<close>

text \<open>Past the gate, barriers and ends find an open transaction. The abort of a checkpoint finds one
  as well, or a stale preparation that the abort did not end.\<close>

definition passed :: "u64 \<Rightarrow> ControlMsg option \<Rightarrow> ControlMsg \<Rightarrow> 'w chainContext \<Rightarrow> bool" where
  "passed r0 d c cc \<longleftrightarrow> chain_inv r0 d cc \<and> \<not> other_term c cc
     \<and> (ctl_Type c \<in> {CtrlBarrierReceived, CtrlEndOfPartition} \<longrightarrow> writing r0 d cc)
     \<and> (ctl_Type c = CtrlAbortCheckpoint \<longrightarrow> recording r0 d cc)"

lemma triple_gate:
  assumes auth: "authorised d c" and h: "handles r0 d h"
  shows "triple (\<lambda>cc. chain_inv r0 d cc \<and> \<not> other_term c cc)
    (prepared_gate h ch c) (\<lambda>b cc. if b then chain_inv r0 d cc else passed r0 d c cc) (stop_inv r0)"
proof (rule tripleI)
  fix s r s'
  assume s: "chain_inv r0 d s \<and> \<not> other_term c s"
    and run: "prepared_gate h ch c s = Some (r, s')"
  note stop = stop_inv_chain [OF conjunct1 [OF s]]
  show "case r of Return b \<Rightarrow> if b then chain_inv r0 d s' else passed r0 d c s' | _ \<Rightarrow> stop_inv r0 s'"
  proof (cases "transactionPrepared s \<and> ctl_Type c = CtrlAbortCheckpoint
      \<and> ctl_CheckpointID c = preparedCheckpoint s")
    case True
    let ?a = "abort_control CtrlAbortTransaction c"
    have "authorised d ?a" using True by (intro authorised_abort [OF auth]) simp_all
    then have call: "triple (\<lambda>cc. waiting r0 d cc \<and> ctl_CheckpointID ?a = preparedCheckpoint cc
        \<and> ctl_EpochID ?a = preparedEpoch cc) (h ?a) (\<lambda>_. unanswered r0 d ?a) (stop_inv r0)"
      by (rule handlesD(2) [OF h]) (simp add: abort_control_def)
    have w: "waiting r0 d s \<and> ctl_CheckpointID ?a = preparedCheckpoint s
        \<and> ctl_EpochID ?a = preparedEpoch s"
      using s True by (auto simp: chain_inv_def writing_def abort_control_def other_term_def)
    have "andThen (h ?a) (\<lambda>_. ret False) s = Some (r, s')"
      using run True by (simp add: prepared_gate_def)
    moreover have "passed r0 d c cc" if "unanswered r0 d ?a cc" for cc
      using that True by (auto simp: unanswered_def passed_def recording_def stale_def chain_inv_def
          other_term_def abort_control_def)
    ultimately show ?thesis
      by (auto simp: andThen_def ret_def split: option.splits outcome.splits
          dest!: tripleD [OF call w])
  next
    case False
    show ?thesis
    proof (cases "transactionPrepared s")
      case prepared: True
      then have "waiting r0 d s" using s by (auto simp: chain_inv_def writing_def)
      moreover have "waiting r0 d (s\<lparr>deferredEOF := deferredEOF s @ [c]\<rparr>)"
        if "ctl_Type c = CtrlEndOfPartition"
        using that \<open>waiting r0 d s\<close> by (simp add: waiting_def idle_def eofs_only_def)
      ultimately show ?thesis
        using run s stop False prepared
        by (cases "ctl_Type c") (auto simp: prepared_gate_def passed_def chain_inv_def split: if_splits)
    next
      case False
      then have "r = Return False" "s' = s" using run by (simp_all add: prepared_gate_def)
      then show ?thesis
        using s False by (auto simp: passed_def chain_inv_def waiting_def recording_def)
    qed
  qed
qed

lemma triple_switch:
  assumes sink: "txnSink ch = Some sink" and auth: "authorised d c" and h: "handles r0 d h"
  shows "triple (passed r0 d c) (control_switch h env ch c) (\<lambda>_. chain_inv r0 d) (stop_inv r0)"
proof -
  have ret_: "triple (\<lambda>cc. chain_inv r0 d cc) (ret b) (\<lambda>_. chain_inv r0 d) (stop_inv r0)" for b :: bool
    by (rule triple_ret)
  have into: "writing r0 d cc \<Longrightarrow> chain_inv r0 d cc" "waiting r0 d cc \<Longrightarrow> chain_inv r0 d cc"
    "passed r0 d c cc \<Longrightarrow> chain_inv r0 d cc" "recording r0 d cc \<Longrightarrow> chain_inv r0 d cc" for cc :: "'a chainContext"
    by (auto simp: chain_inv_def passed_def recording_def stale_def)
  show ?thesis
  proof (cases "ctl_Type c")
    case CtrlBarrierReceived
    have "triple (\<lambda>cc. passed r0 d c cc \<and> b cc) (handle_barrier env ch c) (\<lambda>_. chain_inv r0 d)
        (stop_inv r0)" for b
      by (rule triple_weaken [OF triple_barrier [OF sink, of r0 d env c]])
        (simp_all add: passed_def chain_inv_def CtrlBarrierReceived)
    then show ?thesis
      unfolding control_switch_def CtrlBarrierReceived
      by (simp, intro triple_if triple_const triple_andThen [OF _ ret_]) (auto simp: into)
  next
    case CtrlAbortCheckpoint
    then show ?thesis
      unfolding control_switch_def CtrlAbortCheckpoint
      by (simp, intro triple_andThen [OF _ ret_] triple_weaken [OF triple_abort_checkpoint [of r0 d]])
        (auto simp: passed_def CtrlAbortCheckpoint into)
  next
    case CtrlShutdown
    then show ?thesis
      unfolding control_switch_def CtrlShutdown
      by (simp, intro triple_andThen [OF _ ret_] triple_weaken [OF triple_shutdown [of r0 d]])
        (auto simp: into)
  next
    case CtrlEndOfPartition
    then show ?thesis
      unfolding control_switch_def CtrlEndOfPartition
      by (simp, intro triple_weaken [OF triple_end [of r0 d]])
        (auto simp: passed_def CtrlEndOfPartition into)
  next
    case CtrlCommitCheckpoint
    then have "d = Some c" using auth by (simp add: authorised_def)
    note commit = triple_commit [OF sink this CtrlCommitCheckpoint, of r0 env]
    show ?thesis
      unfolding control_switch_def CtrlCommitCheckpoint
      by (simp, intro triple_andThen [OF _ ret_] triple_weaken [OF commit]) (auto simp: passed_def)
  next
    case CtrlAbortTransaction
    note abort = triple_abort_transaction(1) [OF sink auth this h]
    show ?thesis
      unfolding control_switch_def CtrlAbortTransaction
      by (simp, intro triple_weaken [OF abort]) (auto simp: passed_def)
  next
    case CtrlDrainInputs
    then show ?thesis
      unfolding control_switch_def CtrlDrainInputs
      by (simp, intro triple_andThen [OF _ ret_] triple_weaken [OF triple_drain_inputs [of r0 d]])
        (auto simp: into)
  qed
qed

lemma body_rest:
  "\<not> transactionAborted cc \<Longrightarrow> \<not> other_term c cc \<Longrightarrow>
   control_body h env ch c cc =
     (let cc1 = (if ctl_Type c = CtrlAbortCheckpoint
                 then checkpoint_abort env (ctl_CheckpointID c) (ctl_EpochID c) cc else cc)
      in if cc_draining cc1 \<and> ctl_Type c = CtrlBarrierReceived then Some (Return (), cc1)
         else andThen (prepared_gate h ch c)
           (\<lambda>handled. if handled then ret ()
              else andThen (control_switch h env ch c)
                (\<lambda>returned. if returned then ret () else run_deferred h env ch)) cc1)"
  by (simp add: control_body_def)

lemma triple_body:
  assumes sink: "txnSink ch = Some sink" and auth: "authorised d c" and h: "handles r0 d h"
  shows "triple (chain_inv r0 d) (control_body h env ch c)
    (\<lambda>_. chain_inv r0 d) (stop_inv r0)"
proof (rule tripleI)
  fix s r s'
  assume s: "chain_inv r0 d s" and run: "control_body h env ch c s = Some (r, s')"
  have live: "\<not> transactionAborted s"
    using s by (auto simp: chain_inv_def writing_def waiting_def idle_def)
  have after: "triple (chain_inv r0 d) (if b then ret () else run_deferred h env ch)
      (\<lambda>_. chain_inv r0 d) (stop_inv r0)" for b
    by (simp add: triple_ret triple_deferred [OF h])
  have rest: "triple (\<lambda>cc. if b then chain_inv r0 d cc else passed r0 d c cc) (if b then ret ()
      else andThen (control_switch h env ch c)
        (\<lambda>returned. if returned then ret () else run_deferred h env ch))
      (\<lambda>_. chain_inv r0 d) (stop_inv r0)" for b
    using triple_andThen [OF triple_switch [OF sink auth h] after, of env]
    by (cases b) (simp_all add: triple_ret)
  define cc1 where "cc1 = (if ctl_Type c = CtrlAbortCheckpoint
    then checkpoint_abort env (ctl_CheckpointID c) (ctl_EpochID c) s else s)"
  have cc1: "chain_inv r0 d cc1" "other_term c cc1 = other_term c s"
    using s by (simp_all add: cc1_def chain_inv_def)
  show "case r of Return _ \<Rightarrow> chain_inv r0 d s' | _ \<Rightarrow> stop_inv r0 s'"
  proof (cases "other_term c s")
    case True
    then show ?thesis using run live s by (auto simp: control_body_def)
  next
    case False
    then show ?thesis
      using run cc1 tripleD [OF triple_andThen [OF triple_gate [OF auth h] rest], of cc1]
      unfolding body_rest [OF live False] Let_def cc1_def [symmetric]
      by (auto split: if_splits)
  qed
qed

lemma triple_body_abort:
  assumes sink: "txnSink ch = Some sink" and auth: "authorised d c" and h: "handles r0 d h"
    and type: "ctl_Type c = CtrlAbortTransaction"
  shows "triple (\<lambda>cc. waiting r0 d cc \<and> ctl_CheckpointID c = preparedCheckpoint cc
      \<and> ctl_EpochID c = preparedEpoch cc) (control_body h env ch c) (\<lambda>_. unanswered r0 d c)
    (stop_inv r0)"
proof (rule tripleI)
  fix s r s'
  assume s: "waiting r0 d s \<and> ctl_CheckpointID c = preparedCheckpoint s
      \<and> ctl_EpochID c = preparedEpoch s" and run: "control_body h env ch c s = Some (r, s')"
  have "\<not> transactionAborted s" "\<not> other_term c s"
    using s by (simp_all add: waiting_def idle_def other_term_def)
  from body_rest [OF this] have aborted: "andThen (handle_abort_transaction h ch c)
      (\<lambda>returned. if returned then ret () else run_deferred h env ch) s = Some (r, s')"
    using run s by (simp add: type prepared_gate_def waiting_def andThen_def [of "prepared_gate h ch c"]
        control_switch_def)
  have "triple (\<lambda>cc. \<not> b \<and> unanswered r0 d c cc) (if b then ret () else run_deferred h env ch)
      (\<lambda>_. unanswered r0 d c) (stop_inv r0)" for b
    by (auto simp: triple_def run_deferred_def deferred_events_def deferred_ends_def andThen_def
        unanswered_def stale_def waiting_def)
  note path = triple_andThen [OF triple_abort_transaction(2) [OF sink auth type h] this]
  from tripleD [OF path s aborted] show "case r of Return _ \<Rightarrow> unanswered r0 d c s' | _ \<Rightarrow> stop_inv r0 s'" .
qed

lemma handles_depth:
  assumes "txnSink ch = Some sink"
  shows "handles r0 d (control_depth n env ch)"
proof (induction n)
  case 0
  then show ?case by (simp add: handles_def triple_def)
next
  case (Suc n)
  then show ?case
    unfolding handles_def control_depth.simps
    using triple_body [OF assms _ Suc] triple_body_abort [OF assms _ Suc] by blast
qed

section \<open>Runs\<close>

definition run_inv :: "u64 \<Rightarrow> 'w chainContext \<times> run_phase \<Rightarrow> bool" where
  "run_inv r0 x \<longleftrightarrow>
     (case snd x of
        Running \<Rightarrow> \<exists>d. chain_inv r0 d (fst x)
      | Stopping \<Rightarrow> stop_inv r0 (fst x)
      | Stopped \<Rightarrow> monitored r0 (fst x) \<noteq> None)"

lemma chain_inv_received: "chain_inv r0 d cc \<Longrightarrow> chain_inv r0 (Some c) (logged (Received c) cc)"
  by (auto simp: chain_inv_def writing_def waiting_def idle_def monitored_logged)

lemma run_inv_continue:
  "(case r of Return _ \<Rightarrow> chain_inv r0 d cc | _ \<Rightarrow> stop_inv r0 cc) \<Longrightarrow> run_inv r0 (cc, continue r)"
  by (auto simp: run_inv_def continue_def split: outcome.splits)

lemma stop_inv_exit:
  assumes "txnSink ch = Some sink" "stop_inv r0 cc"
  shows "monitored r0 (abort_on_exit ch cc) \<noteq> None"
proof (cases "transactionDecisionPending cc \<or> transactionAborted cc")
  case True
  then show ?thesis using assms by (auto simp: abort_on_exit_def stop_inv_def)
next
  case False
  obtain x cc' where x: "safeInvoke (call_logged Abort (tx_Abort sink)) cc = (x, cc')" by fastforce
  obtain p d l where "monitored r0 cc = Some (p, d, l)" "p \<noteq> Over" "\<And>i ep. p \<noteq> InDoubt i ep"
    using assms(2) False by (auto simp: stop_inv_def)
  moreover have "abort_on_exit ch cc = cc'" using assms(1) x False by (simp add: abort_on_exit_def)
  ultimately show ?thesis
    using safe_call_result [OF x] by (auto simp: monitored_logged split: txn_phase.splits)
qed

lemma emitChainEnd_stop:
  assumes "chain_inv r0 d cc" "emitChainEnd env ch cc = Some (r, cc')"
  shows "stop_inv r0 cc'"
proof (cases "writing r0 d cc")
  case True
  then show ?thesis
    using writing_quiet [OF steadyD [OF steady_emitChainEnd assms(2)]] stop_writing by blast
next
  case False
  then have "waiting r0 d cc" using assms(1) by (simp add: chain_inv_def)
  moreover have "waiting r0 d (logged (Sent m) cc) = waiting r0 d cc" for m and cc :: "'a chainContext"
    by (auto simp: waiting_def idle_def monitored_logged split: option.splits)
  ultimately have "waiting r0 d cc'"
    using assms(2) by (auto simp: emitChainEnd_def sendOutput_def split: if_splits prod.splits
        option.splits)
  then show ?thesis by (rule stop_waiting)
qed

lemma complete_inv:
  assumes "chain_inv r0 d cc" "checkpoint_complete env cid ep err cc = Some (r, cc')"
  shows "chain_inv r0 d cc'"
  using assms unfolding chain_inv_def
  by (auto simp: checkpoint_complete_def notified_def Let_def
      split: option.splits if_splits prod.splits dest!: ask_result)

lemma chain_step_inv:
  assumes sink: "txnSink ch = Some sink"
  shows "chain_step env ch x y \<Longrightarrow> run_inv r0 x \<Longrightarrow> run_inv r0 y"
proof (induction rule: chain_step.induct)
  case (control ctrl cc r cc')
  then obtain d where inv: "chain_inv r0 d cc" by (auto simp: run_inv_def)
  have "authorised (Some ctrl) ctrl" by (auto simp: authorised_def)
  from handlesD(1) [OF handles_depth [OF sink] this]
  have "triple (chain_inv r0 (Some ctrl)) (handleControl env ch ctrl)
      (\<lambda>_. chain_inv r0 (Some ctrl)) (stop_inv r0)"
    unfolding handleControl_def .
  from tripleD [OF this chain_inv_received [OF inv] control(1)] show ?case
    by (rule run_inv_continue)
next
  case (event cc e q r cc')
  then obtain d where "writing r0 d cc" by (auto simp: run_inv_def chain_inv_def waiting_def)
  then have "writing r0 d cc'"
    using writing_quiet [OF steadyD [OF steady_processEvent event(3)]] by simp
  then show ?case
    by (intro run_inv_continue [where d = d]) (auto simp: chain_inv_def stop_writing split: outcome.splits)
next
  case (uploaded cid ep err cc r cc')
  then obtain d where "chain_inv r0 d cc'" by (auto simp: run_inv_def dest: complete_inv)
  then show ?case
    by (intro run_inv_continue [where d = d]) (auto simp: stop_inv_chain split: outcome.splits)
next
  case (ended cc c r cc')
  then show ?case using emitChainEnd_stop by (auto simp: run_inv_def)
qed (auto simp: run_inv_def chain_inv_def stop_writing stop_waiting dest: stop_inv_exit [OF sink])

lemma start_inv:
  assumes sink: "txnSink ch = Some sink"
    and run: "start_chain ch (initial_context w r0 cp ba t) = Some (r, cc)"
  shows "if r = Return () then \<exists>d. chain_inv r0 d cc else monitored r0 cc \<noteq> None"
proof -
  have "monitored r0 (initial_context w r0 cp ba t) = Some (Closed, None, r0)"
    by (simp add: monitored_def initial_context_def)
  moreover obtain w' where "cc = logged (BeginTransaction (r = Return ()))
      (initial_context w r0 cp ba t\<lparr>w_env := w'\<rparr>)"
    using run sink sink_call_result by (fastforce simp: start_chain_def)
  ultimately have "if r = Return () then writing r0 None cc else monitored r0 cc \<noteq> None"
    by (auto simp: writing_def idle_def monitored_logged)
      (simp_all add: eofs_only_def initial_context_def)
  then show ?thesis by (auto simp: chain_inv_def split: if_splits)
qed

text \<open>The checkpoints whose commit succeeded, in order.\<close>

definition committed_id :: "effect \<Rightarrow> u64 option" where
  "committed_id e = (case e of Commit cid ok \<Rightarrow> if ok then Some cid else None | _ \<Rightarrow> None)"

definition commits :: "effect list \<Rightarrow> u64 list" where
  "commits es = List.map_filter committed_id es"

lemma monitor_step:
  assumes "txn_monitor e (p, d, l) = Some (p', d', l')"
  shows "case committed_id e of None \<Rightarrow> l' = l | Some c \<Rightarrow> l < c \<and> l' = c"
  using assms
  by (cases e; cases p) (auto simp: committed_id_def split: if_splits)

lemma monitor_commits:
  "run_monitor es (p, d, l) \<noteq> None \<Longrightarrow> sorted_wrt (<) (l # commits es)"
proof (induction es arbitrary: p d l)
  case Nil
  then show ?case by (simp add: commits_def map_filter_simps)
next
  case (Cons e es)
  obtain p' d' l' where step: "txn_monitor e (p, d, l) = Some (p', d', l')"
    using Cons.prems(1) by (auto split: option.splits)
  then have rest: "sorted_wrt (<) (l' # commits es)"
    using Cons.prems by (intro Cons.IH) auto
  then show ?case
    using monitor_step [OF step]
    by (auto simp: commits_def map_filter_simps split: option.splits)
qed

text \<open>C1. The chain honours the contract of a transactional sink in every run, whatever the
  operators and the sink answer, whatever the readers queue, and whatever control messages arrive.
  A transaction is prepared only while it is open; a commit is attempted only for the prepared
  checkpoint, only after the commit message of its checkpoint and epoch, and only when that
  checkpoint is newer than the last commit, so the checkpoints that are committed ascend; a prepared
  transaction that may have been reported is aborted only after an abort message of its epoch, never
  by the cleanup of a stopping task; nothing is done to a sink after its abort succeeded; and every
  write goes into an open transaction that is not prepared, with one exception. A barrier whose
  checkpoint is not newer than the last commit is prepared like any other, its abort is ignored, and
  the abort of its checkpoint then writes the queued records into the prepared transaction; the
  monitor accepts a write after such a stale preparation, and no other. (The coordinator numbers
  checkpoints upwards, so that it sends no such barrier.)\<close>

theorem transactional_sink_protocol:
  assumes "txnSink ch = Some sink"
    and "chain_run env ch (initial_context w restored cp ba t) (cc, phase)"
  shows "run_monitor (trace cc) (Closed, None, restored) \<noteq> None
    \<and> sorted_wrt (<) (restored # commits (trace cc))"
proof -
  have "run_inv restored x" if "chain_run env ch (initial_context w restored cp ba t) x" for x
    using that
  proof (induction rule: chain_run.induct)
    case (started cc)
    then show ?case using start_inv [OF assms(1)] by (fastforce simp: run_inv_def)
  next
    case (refused r cc)
    then show ?case using start_inv [OF assms(1)] by (fastforce simp: run_inv_def)
  next
    case (step x y)
    then show ?case by (blast intro: chain_step_inv [OF assms(1)])
  qed
  from this [OF assms(2)] obtain y where
    y: "run_monitor (trace cc) (Closed, None, restored) = Some y"
    by (cases phase) (auto simp: run_inv_def stop_inv_def chain_inv_def writing_def waiting_def
        monitored_def)
  with monitor_commits [of "trace cc" Closed None restored] show ?thesis by simp
qed

section \<open>Example\<close>

text \<open>A task with one input and a transactional sink: a record, the barrier of checkpoint 1 and
  its commit.\<close>

definition example_sink :: "unit TransactionalSink" where
  "example_sink =
     \<lparr>tx_BeginTransaction = (\<lambda>w. (Return (), w)), tx_PreCommit = (\<lambda>_ w. (Return (), w)),
      tx_Commit = (\<lambda>_ w. (Return (), w)), tx_Abort = (\<lambda>w. (Return (), w))\<rparr>"

definition example_chain :: "unit chain" where
  "example_chain =
     \<lparr>links = [\<lparr>link_Operator = \<lparr>op_kind = SinkOperator (\<lambda>_ w. (Return (), w)), OnWatermark = None,
          op_Checkpoint = (\<lambda>_ w. (Return [], w)), CheckpointState = None\<rparr>,
        link_Config = zero_config\<rparr>],
      txnSink = Some example_sink, ackFn = True, chain_inputs = 1\<rparr>"

definition example_event :: Event where
  "example_event = \<lparr>inputActivity = None, inputWatermark = None, ev_watermark = None, Key = [],
     Value = [7], EventTime = 5, Headers = []\<rparr>"

definition example_tracker :: InputWatermarkTracker where
  "example_tracker = the (newInputWatermarkTracker 1 0)"

definition example_control :: "ControlType \<Rightarrow> ControlMsg" where
  "example_control t =
     \<lparr>ctl_Type = t, ctl_InputIndex = 0, ctl_CheckpointID = 1, ctl_EpochID = 1\<rparr>"

definition example_start :: "unit chainContext" where
  "example_start = initial_context () 0 None (NewBarrierAligner 1 8) example_tracker"

lemma word64_1 [simp]: "(0 :: u64) < 1" "\<not> (1 :: u64) \<le> 0"
  by (simp_all add: word_less_nat_alt word_le_nat_alt)

definition example_aligned :: BarrierAligner where
  "example_aligned = snd (the (OnBarrier 0 0 1 1 (NewBarrierAligner 1 8)))"

lemma example_written:
  "processEvent calm_env example_chain example_event
     (example_start\<lparr>trace := [BeginTransaction True]\<rparr>) =
   Some (Return (), example_start\<lparr>trace := [BeginTransaction True, Write example_event True],
     transactionDirty := True\<rparr>)"
  by (simp add: processEvent_def example_event_def processEventFrom_def example_chain_def run_link_def
      invokeSinkWithRetry_def hasErrorHandling_def zero_config_def andThen_def modify_def wrapping_def
      invokeLegacyWithMetrics_def call_logged_def ask_def logged_def ret_def example_start_def
      initial_context_def Let_def)

definition example_prepared :: "unit chainContext" where
  "example_prepared = example_start\<lparr>
     trace := [BeginTransaction True, Write example_event True,
       Received (example_control CtrlBarrierReceived), PreCommit 1 1 True, Acked 1],
     preparedCheckpoint := 1, preparedEpoch := 1, transactionPrepared := True,
     transactionDirty := True, transactionDecisionPending := True,
     aligner := snd (FinishAlignment 1 example_aligned)\<rparr>"

lemma calm_drain: "inputCh cc = [] \<Longrightarrow> drainInputCh calm_env ch cc = Some (Return (), cc)"
  by (simp add: drainInputCh.simps receive_input_def ask_def calm_env_def)

lemma example_barrier:
  "handleControl calm_env example_chain (example_control CtrlBarrierReceived)
     (logged (Received (example_control CtrlBarrierReceived))
       (example_start\<lparr>trace := [BeginTransaction True, Write example_event True],
          transactionDirty := True, aligner := example_aligned\<rparr>)) =
   Some (Return (), example_prepared)"
proof -
  have aligned: "AllAligned example_aligned 1" "activeEpoch example_aligned = 1"
    "fst (FinishAlignment 1 example_aligned) = []"
    by (simp_all add: example_aligned_def OnBarrier_def NewBarrierAligner_def AllAligned_def
        FinishAlignment_def isRetiredLocked_def retireLocked_def start_alignment_def Let_def
        inputs_of_def mget_def)
  then obtain ba where fin: "FinishAlignment 1 example_aligned = ([], ba)"
    by (cases "FinishAlignment 1 example_aligned") simp
  show ?thesis
    unfolding example_prepared_def fin
    using aligned
    by (simp add: handleControl_def numeral_3_eq_3 control_body_def other_term_def prepared_gate_def
        control_switch_def andThen_def ret_def handle_barrier_def calm_drain
        prepare_transaction_def sink_call_def call_logged_def ask_def logged_def modify_def
        captureOperatorCheckpoint_def wrapping_def always_def announce_barrier_def
        submit_snapshot_def finish_barrier_def fin run_deferred_def deferred_events_def
        deferred_ends_def example_control_def example_chain_def example_sink_def example_start_def
        initial_context_def Let_def)
qed

lemma example_decided:
  "handleControl calm_env example_chain (example_control CtrlCommitCheckpoint)
     (logged (Received (example_control CtrlCommitCheckpoint)) example_prepared) =
   Some (Return (), example_prepared\<lparr>
     trace := [BeginTransaction True, Write example_event True,
       Received (example_control CtrlBarrierReceived), PreCommit 1 1 True, Acked 1,
       Received (example_control CtrlCommitCheckpoint), Commit 1 True, BeginTransaction True],
     transactionPrepared := False, transactionDirty := False,
     transactionDecisionPending := False, lastCommitted := 1\<rparr>)"
  by (simp add: handleControl_def numeral_3_eq_3 control_body_def other_term_def prepared_gate_def
      control_switch_def andThen_def ret_def handle_commit_def commitTransaction_def
      transactionCommitAttempts_def eval_nat_numeral safeInvoke_def sink_call_def call_logged_def
      ask_def logged_def modify_def run_deferred_def deferred_events_def deferred_ends_def
      example_control_def example_chain_def example_sink_def example_start_def example_prepared_def
      calm_env_def initial_context_def Let_def)

lemma example_committed:
  "\<exists>cc. chain_run calm_env example_chain example_start (cc, Running)
     \<and> commits (trace cc) = [1]"
proof -
  let ?s1 = "example_start\<lparr>trace := [BeginTransaction True]\<rparr>"
  let ?s3 = "example_start\<lparr>trace := [BeginTransaction True, Write example_event True],
     transactionDirty := True\<rparr>"
  have "chain_run calm_env example_chain example_start (?s1, Running)"
    by (rule chain_run.started) (simp add: start_chain_def example_chain_def example_sink_def
        sink_call_def call_logged_def ask_def logged_def example_start_def initial_context_def)
  then have "chain_run calm_env example_chain example_start
      (?s1\<lparr>inputCh := inputCh ?s1 @ [example_event]\<rparr>, Running)"
    by (rule chain_run.step) (rule chain_step.queued)
  moreover have "?s1\<lparr>inputCh := inputCh ?s1 @ [example_event], inputCh := []\<rparr> = ?s1"
    by (simp add: example_start_def initial_context_def)
  ultimately have "chain_run calm_env example_chain example_start (?s3, continue (Return ()))"
    using example_written
    by (elim chain_run.step, intro chain_step.event [of _ example_event "[]"])
      (simp_all add: example_start_def initial_context_def)
  then have written: "chain_run calm_env example_chain example_start (?s3, Running)"
    by (simp add: continue_def)
  have "OnBarrier 0 0 1 1 (aligner ?s3) = Some (True, example_aligned)"
    by (simp add: example_aligned_def example_start_def initial_context_def OnBarrier_def
        NewBarrierAligner_def isRetiredLocked_def Let_def)
  from chain_run.step [OF written chain_step.barrier [OF this]]
  have "chain_run calm_env example_chain example_start
      (?s3\<lparr>aligner := example_aligned\<rparr>, Running)" .
  then have "chain_run calm_env example_chain example_start
      (example_prepared, continue (Return ()))"
    by (rule chain_run.step) (rule chain_step.control [OF example_barrier])
  then have "chain_run calm_env example_chain example_start (example_prepared, Running)"
    by (simp add: continue_def)
  from chain_run.step [OF this chain_step.control [OF example_decided]]
  show ?thesis
    by (auto simp: continue_def example_control_def commits_def map_filter_simps committed_id_def)
qed

text \<open>The exception in the contract occurs. A task that restored the commit of checkpoint 1 and then
  prepared a barrier of that checkpoint writes the queued record into the prepared transaction when
  the checkpoint is aborted, and stays prepared.\<close>

lemma stale_preparation_written:
  "\<exists>cc. handleControl calm_env example_chain (example_control CtrlAbortCheckpoint)
       (example_prepared\<lparr>lastCommitted := 1, inputCh := [example_event]\<rparr>) = Some (Return (), cc)
     \<and> trace cc = trace example_prepared @ [Write example_event True] \<and> transactionPrepared cc"
proof -
  obtain ba where ba: "AbortAlignment 1 1 (aligner example_prepared) = ([], ba)"
    by (simp add: example_prepared_def example_aligned_def OnBarrier_def NewBarrierAligner_def
        FinishAlignment_def AbortAlignment_def isRetiredLocked_def retireLocked_def
        start_alignment_def signalChangeLocked_def Let_def inputs_of_def mget_def)
  have calm: "ctx_Err calm_env = Pair None" "arrivals calm_env = Pair []"
    by (simp_all add: calm_env_def)
  have prepared: "checkpoint example_prepared = None" "transactionPrepared example_prepared"
    "\<not> transactionAborted example_prepared" "preparedCheckpoint example_prepared = 1"
    "preparedEpoch example_prepared = 1" "lastAborted example_prepared = (0, 0)"
    "\<not> cc_draining example_prepared" "inputCh example_prepared = []" "w_env example_prepared = ()"
    by (simp_all add: example_prepared_def example_start_def initial_context_def)
  have keep: "example_prepared\<lparr>lastCommitted := 1, w_env := (), inputCh := []\<rparr> = example_prepared\<lparr>lastCommitted := 1\<rparr>"
    by (simp add: example_prepared_def example_start_def initial_context_def)
  have chain: "txnSink example_chain = Some example_sink" by (simp add: example_chain_def)
  have "processEvent calm_env example_chain example_event (example_prepared\<lparr>lastCommitted := 1\<rparr>) =
    Some (Return (), logged (Write example_event True) (example_prepared\<lparr>lastCommitted := 1\<rparr>))"
    by (simp add: processEvent_def example_event_def processEventFrom_def example_chain_def run_link_def
        invokeSinkWithRetry_def hasErrorHandling_def zero_config_def andThen_def modify_def wrapping_def
        invokeLegacyWithMetrics_def call_logged_def ask_def logged_def ret_def example_start_def
        example_prepared_def initial_context_def Let_def)
  then show ?thesis
    using ba prepared
    by (simp add: calm keep chain handleControl_def numeral_3_eq_3 control_body_def other_term_def prepared_gate_def
        control_switch_def andThen_def ret_def handle_abort_transaction_def handle_abort_checkpoint_def
        checkpoint_abort_def abort_control_def run_deferred_def deferred_events_def deferred_ends_def
        modify_def ask_def receive_input_def logged_def example_control_def Let_def)
qed

theorem transactional_sink_protocol_witness:
  "\<exists>cc. chain_run calm_env example_chain example_start (cc, Running)
     \<and> commits (trace cc) = [1] \<and> run_monitor (trace cc) (Closed, None, 0) \<noteq> None"
proof -
  obtain cc where run: "chain_run calm_env example_chain example_start (cc, Running)"
    and commits: "commits (trace cc) = [1]"
    using example_committed by blast
  have "txnSink example_chain = Some example_sink" by (simp add: example_chain_def)
  from transactional_sink_protocol [OF this run [unfolded example_start_def]] show ?thesis
    using run commits by blast
qed

end
