(* ===== verification/Wire_Payload.thy ===== *)
theory Wire_Payload
  imports Wire_Prelude
begin

text \<open>
  The structural check of frame payloads (\<^verbatim>\<open>internal/protocol/payload_fields.go\<close> and
  \<^verbatim>\<open>payload_types.go\<close>): before the MessagePack codec sees a payload, a cursor walks it and
  checks that it is one map whose required fields are present once and whose known fields have the
  right format.

  A cursor is its unread bytes, \<^verbatim>\<open>c.data[c.pos:]\<close>. An operation returns None where the
  source returns false, and the cursor after it otherwise. The first group of lemmas shows that
  the walk accepts exactly the values of the MessagePack grammar, written down from its
  specification; the second that the check accepts exactly the well-formed messages.
\<close>

section \<open>The cursor\<close>

definition take_bytes :: "nat \<Rightarrow> bytes \<Rightarrow> (bytes \<times> bytes) option" where
  "take_bytes n c = (if n > length c then None else Some (take n c, drop n c))"

definition number :: "nat \<Rightarrow> bytes \<Rightarrow> (nat \<times> bytes) option" where
  "number width c =
     (case take_bytes width c of
        None \<Rightarrow> None
      | Some (b, r) \<Rightarrow> (if width \<in> {1, 2, 4} then Some (be_val b, r) else None))"

definition mapSize :: "bytes \<Rightarrow> (nat \<times> bytes) option" where
  "mapSize c =
     (case c of
        [] \<Rightarrow> None
      | t # r \<Rightarrow>
          (if t \<ge> 0x80 \<and> t \<le> 0x8f then Some (unat (t AND 15), r)
           else if t = 0xde then number 2 r
           else if t = 0xdf then number 4 r
           else None))"

definition key :: "bytes \<Rightarrow> (bytes \<times> bytes) option" where
  "key c =
     (case c of
        [] \<Rightarrow> None
      | t # r \<Rightarrow>
          (case (if t \<ge> 0xa0 \<and> t \<le> 0xbf then Some (unat (t AND 31), r)
                 else if t = 0xd9 then number 1 r
                 else if t = 0xda then number 2 r
                 else if t = 0xdb then number 4 r
                 else None) of
             None \<Rightarrow> None
           | Some (n, r') \<Rightarrow> take_bytes n r'))"

text \<open>The switch of \<open>skip\<close> over the tag of a value that is not a single byte: the bytes and the
  values that follow.\<close>

definition sized :: "nat \<Rightarrow> (nat \<times> bytes) option \<Rightarrow> (nat \<times> nat \<times> bytes) option" where
  "sized extra = map_option (\<lambda>(n, r). (n + extra, 0, r))"

definition grouped :: "nat \<Rightarrow> (nat \<times> bytes) option \<Rightarrow> (nat \<times> nat \<times> bytes) option" where
  "grouped factor = map_option (\<lambda>(n, r). (0, factor * n, r))"

definition layout :: "byte \<Rightarrow> bytes \<Rightarrow> (nat \<times> nat \<times> bytes) option" where
  "layout tag r =
     (if tag \<ge> 0xa0 \<and> tag \<le> 0xbf then Some (unat (tag AND 31), 0, r)
      else if tag \<ge> 0x90 \<and> tag \<le> 0x9f then Some (0, unat (tag AND 15), r)
      else if tag \<ge> 0x80 \<and> tag \<le> 0x8f then Some (0, 2 * unat (tag AND 15), r)
      else if tag = 0xc4 \<or> tag = 0xd9 then sized 0 (number 1 r)
      else if tag = 0xc5 \<or> tag = 0xda then sized 0 (number 2 r)
      else if tag = 0xc6 \<or> tag = 0xdb then sized 0 (number 4 r)
      else if tag = 0xc7 then sized 1 (number 1 r)
      else if tag = 0xc8 then sized 1 (number 2 r)
      else if tag = 0xc9 then sized 1 (number 4 r)
      else if tag = 0xca \<or> tag = 0xce \<or> tag = 0xd2 then Some (4, 0, r)
      else if tag = 0xcb \<or> tag = 0xcf \<or> tag = 0xd3 then Some (8, 0, r)
      else if tag = 0xcc \<or> tag = 0xd0 then Some (1, 0, r)
      else if tag = 0xcd \<or> tag = 0xd1 then Some (2, 0, r)
      else if tag = 0xd4 then Some (2, 0, r)
      else if tag = 0xd5 then Some (3, 0, r)
      else if tag = 0xd6 then Some (5, 0, r)
      else if tag = 0xd7 then Some (9, 0, r)
      else if tag = 0xd8 then Some (17, 0, r)
      else if tag = 0xdc then grouped 1 (number 2 r)
      else if tag = 0xdd then grouped 1 (number 4 r)
      else if tag = 0xde then grouped 2 (number 2 r)
      else if tag = 0xdf then grouped 2 (number 4 r)
      else None)"

definition single_byte :: "byte \<Rightarrow> bool" where
  "single_byte tag = (tag \<le> 0x7f \<or> tag \<ge> 0xe0 \<or> tag = 0xc0 \<or> tag = 0xc2 \<or> tag = 0xc3)"

primrec repeated :: "(bytes \<Rightarrow> bytes option) \<Rightarrow> nat \<Rightarrow> bytes \<Rightarrow> bytes option" where
  "repeated step 0 c = Some c"
| "repeated step (Suc n) c = (case step c of None \<Rightarrow> None | Some c' \<Rightarrow> repeated step n c')"

function skip :: "nat \<Rightarrow> bytes \<Rightarrow> bytes option" where
  "skip depth c =
     (if depth > 64 then None
      else case c of
        [] \<Rightarrow> None
      | tag # r \<Rightarrow>
          (if single_byte tag then Some r
           else case layout tag r of
             None \<Rightarrow> None
           | Some (n, children, r1) \<Rightarrow>
               (case take_bytes n r1 of
                  None \<Rightarrow> None
                | Some (_, r2) \<Rightarrow>
                    (if children > length r2 then None
                     else repeated (\<lambda>x. skip (depth + 1) x) children r2))))"
  by pat_completeness auto
termination
  by (relation "measure (\<lambda>(depth, _). 65 - depth)") auto

declare skip.simps [simp del]

section \<open>Message schemas\<close>

text \<open>The dynamic type of a message.\<close>

datatype message_type =
  StreamHeaderMsg | SessionHandshakeMsg | DataRecordMsg | CheckpointBarrierMsg | WatermarkMsg
| EndOfPartitionMsg | BackpressureMsg | SessionDrainMsg

datatype fieldKind =
  unknownField | integerField | stringField | binaryField | nullableBinaryField | headersField
| floatField | boolField

definition utf8 :: "string \<Rightarrow> bytes" where
  "utf8 s = map of_char s"

definition messageFieldKind :: "message_type \<Rightarrow> bytes \<Rightarrow> fieldKind" where
  "messageFieldKind message k =
     (case message of
        DataRecordMsg \<Rightarrow>
          if k = utf8 ''k'' then nullableBinaryField
          else if k = utf8 ''v'' then binaryField
          else if k = utf8 ''t'' then integerField
          else if k = utf8 ''h'' then headersField
          else unknownField
      | StreamHeaderMsg \<Rightarrow>
          if k = utf8 ''src'' \<or> k = utf8 ''dst'' then stringField
          else if k = utf8 ''p'' then integerField
          else unknownField
      | SessionHandshakeMsg \<Rightarrow>
          if k = utf8 ''v'' \<or> k = utf8 ''min_v'' \<or> k = utf8 ''f'' \<or> k = utf8 ''lp'' then integerField
          else if k = utf8 ''n'' then stringField
          else unknownField
      | CheckpointBarrierMsg \<Rightarrow>
          if k = utf8 ''c'' \<or> k = utf8 ''e'' \<or> k = utf8 ''ts'' then integerField
          else unknownField
      | WatermarkMsg \<Rightarrow>
          if k = utf8 ''t'' then integerField
          else if k = utf8 ''s'' then stringField
          else unknownField
      | EndOfPartitionMsg \<Rightarrow>
          if k = utf8 ''s'' then stringField
          else if k = utf8 ''r'' then integerField
          else unknownField
      | BackpressureMsg \<Rightarrow>
          if k = utf8 ''id'' \<or> k = utf8 ''st'' then integerField
          else if k = utf8 ''bu'' then floatField
          else unknownField
      | SessionDrainMsg \<Rightarrow> if k = utf8 ''r'' then boolField else unknownField)"

text \<open>The fields that \<^verbatim>\<open>decodeFramePayload\<close> in \<^verbatim>\<open>codec.go\<close> requires.\<close>

definition required_fields :: "message_type \<Rightarrow> string list" where
  "required_fields message =
     (case message of
        StreamHeaderMsg \<Rightarrow> [''src'', ''dst'']
      | SessionHandshakeMsg \<Rightarrow> [''v'', ''min_v'', ''f'', ''n'']
      | DataRecordMsg \<Rightarrow> [''v'', ''t'']
      | CheckpointBarrierMsg \<Rightarrow> [''c'', ''e'', ''ts'']
      | WatermarkMsg \<Rightarrow> [''t'', ''s'']
      | EndOfPartitionMsg \<Rightarrow> [''s'', ''r'']
      | BackpressureMsg \<Rightarrow> [''id'', ''st'']
      | SessionDrainMsg \<Rightarrow> [''r''])"

definition kind_tag :: "fieldKind \<Rightarrow> byte \<Rightarrow> bool" where
  "kind_tag kind tag =
     (case kind of
        integerField \<Rightarrow> tag \<le> 0x7f \<or> tag \<ge> 0xe0 \<or> (tag \<ge> 0xcc \<and> tag \<le> 0xd3)
      | stringField \<Rightarrow> (tag \<ge> 0xa0 \<and> tag \<le> 0xbf) \<or> tag = 0xd9 \<or> tag = 0xda \<or> tag = 0xdb
      | binaryField \<Rightarrow> tag \<ge> 0xc4 \<and> tag \<le> 0xc6
      | nullableBinaryField \<Rightarrow> (tag \<ge> 0xc4 \<and> tag \<le> 0xc6) \<or> tag = 0xc0
      | floatField \<Rightarrow> tag = 0xca \<or> tag = 0xcb
      | boolField \<Rightarrow> tag = 0xc2 \<or> tag = 0xc3
      | headersField \<Rightarrow> True
      | unknownField \<Rightarrow> True)"

definition plain_field :: "fieldKind \<Rightarrow> bytes \<Rightarrow> bytes option" where
  "plain_field kind c =
     (case c of [] \<Rightarrow> None | tag # _ \<Rightarrow> (if kind_tag kind tag then skip 0 c else None))"

definition header_entry :: "bytes \<Rightarrow> bytes option" where
  "header_entry c = (case key c of None \<Rightarrow> None | Some (_, r) \<Rightarrow> plain_field binaryField r)"

definition field :: "fieldKind \<Rightarrow> bytes \<Rightarrow> bytes option" where
  "field kind c =
     (if c = [] then None
      else if kind = headersField
      then (case mapSize c of
              None \<Rightarrow> None
            | Some (sz, r) \<Rightarrow>
                (if sz > length r div 2 then None else repeated header_entry sz r))
      else plain_field kind c)"

text \<open>The fields are marked in the bits of \<open>seen\<close>; the first required name that matches counts.\<close>

primrec position :: "bytes \<Rightarrow> string list \<Rightarrow> nat option" where
  "position k [] = None"
| "position k (name # names) = (if k = utf8 name then Some 0 else map_option Suc (position k names))"

definition mark :: "string list \<Rightarrow> bytes \<Rightarrow> u16 \<Rightarrow> u16 option" where
  "mark required k seen =
     (case position k required of
        None \<Rightarrow> Some seen
      | Some i \<Rightarrow> (if seen AND push_bit i 1 \<noteq> 0 then None else Some (seen OR push_bit i 1)))"

primrec fields_loop :: "message_type \<Rightarrow> string list \<Rightarrow> nat \<Rightarrow> u16 \<Rightarrow> bytes \<Rightarrow> (u16 \<times> bytes) option" where
  "fields_loop message required 0 seen c = Some (seen, c)"
| "fields_loop message required (Suc n) seen c =
     (case key c of
        None \<Rightarrow> None
      | Some (k, r) \<Rightarrow>
          (case mark required k seen of
             None \<Rightarrow> None
           | Some seen' \<Rightarrow>
               (case field (messageFieldKind message k) r of
                  None \<Rightarrow> None
                | Some r' \<Rightarrow> fields_loop message required n seen' r')))"

definition hasRequiredFields :: "bytes \<Rightarrow> string list \<Rightarrow> message_type \<Rightarrow> bool" where
  "hasRequiredFields data required message =
     (case mapSize data of
        None \<Rightarrow> False
      | Some (sz, r) \<Rightarrow>
          (if sz > length r div 2 then False
           else case fields_loop message required sz 0 r of
             None \<Rightarrow> False
           | Some (seen, c) \<Rightarrow> seen = push_bit (length required) 1 - 1 \<and> c = []))"

section \<open>The MessagePack grammar\<close>

text \<open>The formats of the MessagePack specification. A header predicate relates the length of what
  follows to the bytes of the header.\<close>

definition str_header :: "nat \<Rightarrow> bytes \<Rightarrow> bool" where
  "str_header n h \<longleftrightarrow>
     n < 32 \<and> h = [0xa0 + of_nat n] \<or> n < 2 ^ 8 \<and> h = 0xd9 # be 1 n
     \<or> n < 2 ^ 16 \<and> h = 0xda # be 2 n \<or> n < 2 ^ 32 \<and> h = 0xdb # be 4 n"

definition bin_header :: "nat \<Rightarrow> bytes \<Rightarrow> bool" where
  "bin_header n h \<longleftrightarrow>
     n < 2 ^ 8 \<and> h = 0xc4 # be 1 n \<or> n < 2 ^ 16 \<and> h = 0xc5 # be 2 n
     \<or> n < 2 ^ 32 \<and> h = 0xc6 # be 4 n"

definition ext_header :: "nat \<Rightarrow> bytes \<Rightarrow> bool" where
  "ext_header n h \<longleftrightarrow>
     (n, h) \<in> {(1, [0xd4]), (2, [0xd5]), (4, [0xd6]), (8, [0xd7]), (16, [0xd8])}
     \<or> n < 2 ^ 8 \<and> h = 0xc7 # be 1 n \<or> n < 2 ^ 16 \<and> h = 0xc8 # be 2 n
     \<or> n < 2 ^ 32 \<and> h = 0xc9 # be 4 n"

definition array_header :: "nat \<Rightarrow> bytes \<Rightarrow> bool" where
  "array_header n h \<longleftrightarrow>
     n < 16 \<and> h = [0x90 + of_nat n] \<or> n < 2 ^ 16 \<and> h = 0xdc # be 2 n
     \<or> n < 2 ^ 32 \<and> h = 0xdd # be 4 n"

definition map_header :: "nat \<Rightarrow> bytes \<Rightarrow> bool" where
  "map_header n h \<longleftrightarrow>
     n < 16 \<and> h = [0x80 + of_nat n] \<or> n < 2 ^ 16 \<and> h = 0xde # be 2 n
     \<or> n < 2 ^ 32 \<and> h = 0xdf # be 4 n"

definition number_width :: "byte \<Rightarrow> nat option" where
  "number_width t = map_of
     [(0xcc, 1), (0xcd, 2), (0xce, 4), (0xcf, 8), (0xd0, 1), (0xd1, 2), (0xd2, 4), (0xd3, 8),
      (0xca, 4), (0xcb, 8)] t"

text \<open>\<open>msgpack d v\<close>: the bytes \<open>v\<close> are one value, nested in at most \<open>d\<close> levels of non-empty
  arrays and maps. Single bytes are small integers, nil, false and true.\<close>

inductive msgpack :: "nat \<Rightarrow> bytes \<Rightarrow> bool" where
  immediate: "t \<le> 0x7f \<or> t \<ge> 0xe0 \<or> t \<in> {0xc0, 0xc2, 0xc3} \<Longrightarrow> msgpack d [t]"
| fixed: "number_width t = Some (length s) \<Longrightarrow> msgpack d (t # s)"
| str: "str_header (length s) h \<Longrightarrow> msgpack d (h @ s)"
| bin: "bin_header (length s) h \<Longrightarrow> msgpack d (h @ s)"
| ext: "ext_header (length s) h \<Longrightarrow> msgpack d (h @ ty # s)"
| array: "array_header (length vs) h \<Longrightarrow> \<forall>v \<in> set vs. 0 < d \<and> msgpack (d - 1) v
    \<Longrightarrow> msgpack d (h @ concat vs)"
| mapping: "map_header (length kvs) h
    \<Longrightarrow> \<forall>(k, v) \<in> set kvs. 0 < d \<and> msgpack (d - 1) k \<and> msgpack (d - 1) v
    \<Longrightarrow> msgpack d (h @ concat (map (\<lambda>(k, v). k @ v) kvs))"


section \<open>The cursor reads the grammar\<close>

lemma take_bytes_iff: "take_bytes n c = Some (b, r) \<longleftrightarrow> length b = n \<and> c = b @ r"
  by (auto simp: take_bytes_def)

lemma take_bytes_append: "take_bytes (length b) (b @ r) = Some (b, r)"
  by (simp add: take_bytes_iff)

lemma number_iff:
  "number w c = Some (n, r) \<longleftrightarrow> w \<in> {1, 2, 4} \<and> n < 256 ^ w \<and> c = be w n @ r"
proof
  assume number: "number w c = Some (n, r)"
  then obtain b where b: "length b = w" "c = b @ r" "w \<in> {1, 2, 4}" "n = be_val b"
    by (auto simp: number_def take_bytes_iff split: option.splits if_splits)
  then show "w \<in> {1, 2, 4} \<and> n < 256 ^ w \<and> c = be w n @ r"
    using be_val_less [of b] be_be_val [of b w] by simp
next
  assume "w \<in> {1, 2, 4} \<and> n < 256 ^ w \<and> c = be w n @ r"
  then have w: "w \<in> {1, 2, 4}" and "n < 256 ^ w"
    and taken: "take_bytes w c = Some (be w n, r)" by (auto simp: take_bytes_iff)
  then show "number w c = Some (n, r)"
    using w be_val_be [of n w] by (simp only: number_def taken option.case prod.case if_True)
qed

lemma low_bits:
  "unat (t AND 15) = unat t mod 16" "unat (t AND 31) = unat t mod 32" for t :: byte
proof -
  have "t AND 15 = take_bit 4 t" "t AND 31 = take_bit 5 t"
    by (simp_all add: take_bit_eq_mask mask_eq_exp_minus_1)
  then show "unat (t AND 15) = unat t mod 16" "unat (t AND 31) = unat t mod 32"
    by (simp_all add: take_bit_eq_mod unat_mod_distrib)
qed

lemma unat_of_small: "n < 256 \<Longrightarrow> unat (of_nat n :: byte) = n"
  by (simp add: unat_of_nat)

lemma fix_range:
  assumes "base mod m = 0"
  shows "base \<le> u \<and> u < base + m \<and> n = u mod m \<longleftrightarrow> n < m \<and> u = base + (n :: nat)"
proof -
  have "(base + k) mod m = k" if "k < m" for k
    using assms that by (metis add_0 mod_add_left_eq mod_less)
  moreover have "u = base + (u - base)" "u - base < m" if "base \<le> u" "u < base + m"
    using that by simp_all
  ultimately show ?thesis by (metis add_less_cancel_left le_add1)
qed

lemma fix_tag:
  "t \<ge> 0xa0 \<and> t \<le> 0xbf \<and> n = unat (t AND 31) \<longleftrightarrow> n < 32 \<and> t = 0xa0 + of_nat n"
  "t \<ge> 0x90 \<and> t \<le> 0x9f \<and> n = unat (t AND 15) \<longleftrightarrow> n < 16 \<and> t = 0x90 + of_nat n"
  "t \<ge> 0x80 \<and> t \<le> 0x8f \<and> n = unat (t AND 15) \<longleftrightarrow> n < 16 \<and> t = 0x80 + of_nat n"
  for t :: byte
proof -
  have eq: "t = of_nat k \<longleftrightarrow> unat t = k" if "k < 256" for k
    using unat_of_small [OF that] by auto
  have sums: "(0xa0 + of_nat n :: byte) = of_nat (160 + n)" "(0x90 + of_nat n :: byte) = of_nat (144 + n)"
    "(0x80 + of_nat n :: byte) = of_nat (128 + n)"
    by simp_all
  have bounds: "t \<ge> 0xa0 \<longleftrightarrow> 160 \<le> unat t" "t \<le> 0xbf \<longleftrightarrow> unat t < 160 + 32"
    "t \<ge> 0x90 \<longleftrightarrow> 144 \<le> unat t" "t \<le> 0x9f \<longleftrightarrow> unat t < 144 + 16"
    "t \<ge> 0x80 \<longleftrightarrow> 128 \<le> unat t" "t \<le> 0x8f \<longleftrightarrow> unat t < 128 + 16"
    by (simp_all add: word_le_nat_alt) presburger+
  show "t \<ge> 0xa0 \<and> t \<le> 0xbf \<and> n = unat (t AND 31) \<longleftrightarrow> n < 32 \<and> t = 0xa0 + of_nat n"
    using eq [of "160 + n"] fix_range [of 160 32 "unat t" n]
    unfolding sums bounds low_bits by auto
  show "t \<ge> 0x90 \<and> t \<le> 0x9f \<and> n = unat (t AND 15) \<longleftrightarrow> n < 16 \<and> t = 0x90 + of_nat n"
    using eq [of "144 + n"] fix_range [of 144 16 "unat t" n]
    unfolding sums bounds low_bits by auto
  show "t \<ge> 0x80 \<and> t \<le> 0x8f \<and> n = unat (t AND 15) \<longleftrightarrow> n < 16 \<and> t = 0x80 + of_nat n"
    using eq [of "128 + n"] fix_range [of 128 16 "unat t" n]
    unfolding sums bounds low_bits by auto
qed

lemma mapSize_iff: "mapSize c = Some (n, r) \<longleftrightarrow> (\<exists>h. map_header n h \<and> c = h @ r)"
proof (cases c)
  case (Cons t c')
  have "t \<ge> 0x80 \<and> t \<le> 0x8f \<Longrightarrow> t \<noteq> 0xde \<and> t \<noteq> 0xdf" by auto
  then have "mapSize c = Some (n, r) \<longleftrightarrow>
      (t \<ge> 0x80 \<and> t \<le> 0x8f \<and> n = unat (t AND 15)) \<and> c' = r
      \<or> t = 0xde \<and> number 2 c' = Some (n, r) \<or> t = 0xdf \<and> number 4 c' = Some (n, r)"
    unfolding Cons mapSize_def by auto
  then show ?thesis
    unfolding fix_tag number_iff map_header_def Cons
    by (simp only: conj_disj_distribR ex_disj_distrib conj_assoc simp_thms append_Cons append_Nil list.inject ex_simps) (simp, blast)
qed (simp add: mapSize_def map_header_def)

lemma key_iff: "key c = Some (k, r) \<longleftrightarrow> (\<exists>h. str_header (length k) h \<and> c = h @ k @ r)"
proof (cases c)
  case (Cons t c')
  have "t \<ge> 0xa0 \<and> t \<le> 0xbf \<Longrightarrow> t \<noteq> 0xd9 \<and> t \<noteq> 0xda \<and> t \<noteq> 0xdb" by auto
  then have "key c = Some (k, r) \<longleftrightarrow>
      (t \<ge> 0xa0 \<and> t \<le> 0xbf \<and> length k = unat (t AND 31)) \<and> c' = k @ r
      \<or> t = 0xd9 \<and> number 1 c' = Some (length k, k @ r)
      \<or> t = 0xda \<and> number 2 c' = Some (length k, k @ r)
      \<or> t = 0xdb \<and> number 4 c' = Some (length k, k @ r)"
    unfolding Cons key_def by (auto simp: take_bytes_iff split: option.splits)
  then show ?thesis
    unfolding fix_tag number_iff str_header_def Cons
    by (simp only: conj_disj_distribR ex_disj_distrib conj_assoc simp_thms append_Cons append_Nil
        list.inject ex_simps) (simp, blast)
qed (auto simp: key_def str_header_def)

text \<open>A header announces a number of bytes and a number of values.\<close>

inductive shape :: "bytes \<Rightarrow> nat \<Rightarrow> nat \<Rightarrow> bool" where
  fixed: "number_width t = Some n \<Longrightarrow> shape [t] n 0"
| str: "str_header n h \<Longrightarrow> shape h n 0"
| bin: "bin_header n h \<Longrightarrow> shape h n 0"
| ext: "ext_header n h \<Longrightarrow> shape h (n + 1) 0"
| array: "array_header m h \<Longrightarrow> shape h 0 m"
| mapping: "map_header m h \<Longrightarrow> shape h 0 (2 * m)"

lemma shape_split:
  "shape [t] n m \<Longrightarrow> \<exists>h. t # r = h @ r \<and> shape h n m"
  "shape (t # x) n m \<Longrightarrow> \<exists>h. t # x @ r = h @ r \<and> shape h n m"
  by (intro exI [of _ "[t]"]; simp) (intro exI [of _ "t # x"]; simp)

lemma shape_fix:
  "t \<ge> 0xa0 \<and> t \<le> 0xbf \<Longrightarrow> shape [t] (unat (t AND 31)) 0"
  "t \<ge> 0x90 \<and> t \<le> 0x9f \<Longrightarrow> shape [t] 0 (unat (t AND 15))"
  "t \<ge> 0x80 \<and> t \<le> 0x8f \<Longrightarrow> shape [t] 0 (2 * unat (t AND 15))"
  using fix_tag(1) [of t "unat (t AND 31)"] fix_tag(2,3) [of t "unat (t AND 15)"]
  by (auto simp: str_header_def array_header_def map_header_def
      intro!: shape.str shape.array shape.mapping)

lemma headers [intro]:
  "n < 256 ^ 1 \<Longrightarrow> str_header n (0xd9 # be 1 n)" "n < 256 ^ 2 \<Longrightarrow> str_header n (0xda # be 2 n)"
  "n < 256 ^ 4 \<Longrightarrow> str_header n (0xdb # be 4 n)"
  "n < 256 ^ 1 \<Longrightarrow> bin_header n (0xc4 # be 1 n)" "n < 256 ^ 2 \<Longrightarrow> bin_header n (0xc5 # be 2 n)"
  "n < 256 ^ 4 \<Longrightarrow> bin_header n (0xc6 # be 4 n)"
  "n < 256 ^ 1 \<Longrightarrow> ext_header n (0xc7 # be 1 n)" "n < 256 ^ 2 \<Longrightarrow> ext_header n (0xc8 # be 2 n)"
  "n < 256 ^ 4 \<Longrightarrow> ext_header n (0xc9 # be 4 n)"
  "n < 256 ^ 2 \<Longrightarrow> array_header n (0xdc # be 2 n)" "n < 256 ^ 4 \<Longrightarrow> array_header n (0xdd # be 4 n)"
  "n < 256 ^ 2 \<Longrightarrow> map_header n (0xde # be 2 n)" "n < 256 ^ 4 \<Longrightarrow> map_header n (0xdf # be 4 n)"
proof -
  have "256 ^ 1 = (2 :: nat) ^ 8" "256 ^ 2 = (2 :: nat) ^ 16" "256 ^ 4 = (2 :: nat) ^ 32" by simp_all
  note powers = this
  show "n < 256 ^ 1 \<Longrightarrow> str_header n (0xd9 # be 1 n)" "n < 256 ^ 2 \<Longrightarrow> str_header n (0xda # be 2 n)"
    "n < 256 ^ 4 \<Longrightarrow> str_header n (0xdb # be 4 n)"
    unfolding str_header_def powers by blast+
  show "n < 256 ^ 1 \<Longrightarrow> bin_header n (0xc4 # be 1 n)" "n < 256 ^ 2 \<Longrightarrow> bin_header n (0xc5 # be 2 n)"
    "n < 256 ^ 4 \<Longrightarrow> bin_header n (0xc6 # be 4 n)"
    unfolding bin_header_def powers by blast+
  show "n < 256 ^ 1 \<Longrightarrow> ext_header n (0xc7 # be 1 n)" "n < 256 ^ 2 \<Longrightarrow> ext_header n (0xc8 # be 2 n)"
    "n < 256 ^ 4 \<Longrightarrow> ext_header n (0xc9 # be 4 n)"
    unfolding ext_header_def powers by blast+
  show "n < 256 ^ 2 \<Longrightarrow> array_header n (0xdc # be 2 n)" "n < 256 ^ 4 \<Longrightarrow> array_header n (0xdd # be 4 n)"
    unfolding array_header_def powers by blast+
  show "n < 256 ^ 2 \<Longrightarrow> map_header n (0xde # be 2 n)" "n < 256 ^ 4 \<Longrightarrow> map_header n (0xdf # be 4 n)"
    unfolding map_header_def powers by blast+
qed

lemma shape_read:
  "sized k (number w c) = Some (n, m, r) \<Longrightarrow> (\<And>i. i < 256 ^ w \<Longrightarrow> shape (t # be w i) (i + k) 0)
     \<Longrightarrow> \<exists>h. t # c = h @ r \<and> shape h n m"
  "grouped k (number w c) = Some (n, m, r) \<Longrightarrow> (\<And>i. i < 256 ^ w \<Longrightarrow> shape (t # be w i) 0 (k * i))
     \<Longrightarrow> \<exists>h. t # c = h @ r \<and> shape h n m"
  unfolding sized_def grouped_def
  by (auto simp only: map_option_eq_Some prod.case prod.inject number_iff split_paired_all
      intro!: shape_split(2))

lemma if_SomeE:
  "(if C then x else y) = Some z \<Longrightarrow> (C \<Longrightarrow> x = Some z \<Longrightarrow> P) \<Longrightarrow> (y = Some z \<Longrightarrow> P) \<Longrightarrow> P"
  by (auto split: if_splits)

lemma shape_fixed_width:
  "t = 0xca \<or> t = 0xce \<or> t = 0xd2 \<Longrightarrow> shape [t] 4 0"
  "t = 0xcb \<or> t = 0xcf \<or> t = 0xd3 \<Longrightarrow> shape [t] 8 0"
  "t = 0xcc \<or> t = 0xd0 \<Longrightarrow> shape [t] 1 0"
  "t = 0xcd \<or> t = 0xd1 \<Longrightarrow> shape [t] 2 0"
  by (auto simp: number_width_def intro!: shape.fixed)

lemma shape_fixext:
  "t = 0xd4 \<Longrightarrow> shape [t] 2 0" "t = 0xd5 \<Longrightarrow> shape [t] 3 0" "t = 0xd6 \<Longrightarrow> shape [t] 5 0"
  "t = 0xd7 \<Longrightarrow> shape [t] 9 0" "t = 0xd8 \<Longrightarrow> shape [t] 17 0"
proof -
  have "ext_header 1 [0xd4]" "ext_header 2 [0xd5]" "ext_header 4 [0xd6]" "ext_header 8 [0xd7]"
    "ext_header 16 [0xd8]"
    by (simp_all add: ext_header_def)
  from this [THEN shape.ext]
  show "t = 0xd4 \<Longrightarrow> shape [t] 2 0" "t = 0xd5 \<Longrightarrow> shape [t] 3 0" "t = 0xd6 \<Longrightarrow> shape [t] 5 0"
    "t = 0xd7 \<Longrightarrow> shape [t] 9 0" "t = 0xd8 \<Longrightarrow> shape [t] 17 0"
    by (simp_all flip: numeral_2_eq_2)
qed

lemma shape_sized:
  "t = 0xc4 \<or> t = 0xd9 \<Longrightarrow> sized 0 (number 1 c) = Some (n, m, r) \<Longrightarrow> \<exists>h. t # c = h @ r \<and> shape h n m"
  "t = 0xc5 \<or> t = 0xda \<Longrightarrow> sized 0 (number 2 c) = Some (n, m, r) \<Longrightarrow> \<exists>h. t # c = h @ r \<and> shape h n m"
  "t = 0xc6 \<or> t = 0xdb \<Longrightarrow> sized 0 (number 4 c) = Some (n, m, r) \<Longrightarrow> \<exists>h. t # c = h @ r \<and> shape h n m"
  "t = 0xc7 \<Longrightarrow> sized 1 (number 1 c) = Some (n, m, r) \<Longrightarrow> \<exists>h. t # c = h @ r \<and> shape h n m"
  "t = 0xc8 \<Longrightarrow> sized 1 (number 2 c) = Some (n, m, r) \<Longrightarrow> \<exists>h. t # c = h @ r \<and> shape h n m"
  "t = 0xc9 \<Longrightarrow> sized 1 (number 4 c) = Some (n, m, r) \<Longrightarrow> \<exists>h. t # c = h @ r \<and> shape h n m"
  "t = 0xdc \<Longrightarrow> grouped 1 (number 2 c) = Some (n, m, r) \<Longrightarrow> \<exists>h. t # c = h @ r \<and> shape h n m"
  "t = 0xdd \<Longrightarrow> grouped 1 (number 4 c) = Some (n, m, r) \<Longrightarrow> \<exists>h. t # c = h @ r \<and> shape h n m"
  "t = 0xde \<Longrightarrow> grouped 2 (number 2 c) = Some (n, m, r) \<Longrightarrow> \<exists>h. t # c = h @ r \<and> shape h n m"
  "t = 0xdf \<Longrightarrow> grouped 2 (number 4 c) = Some (n, m, r) \<Longrightarrow> \<exists>h. t # c = h @ r \<and> shape h n m"
  by (erule shape_read, (elim disjE)?; simp only: add_0_right mult_1 shape.str shape.bin shape.ext
      shape.array shape.mapping headers)+

lemma layout_shape:
  assumes "layout t c = Some (n, m, r)"
  shows "\<exists>h. t # c = h @ r \<and> shape h n m"
proof -
  have plain: "Some (n', m', c) = Some (n, m, r) \<Longrightarrow> ?thesis" if "shape [t] n' m'" for n' m'
    using shape_split(1) [OF that] by auto
  note branches = plain [OF shape_fix(1)] plain [OF shape_fix(2)] plain [OF shape_fix(3)]
    plain [OF shape_fixed_width(1)] plain [OF shape_fixed_width(2)] plain [OF shape_fixed_width(3)]
    plain [OF shape_fixed_width(4)] plain [OF shape_fixext(1)] plain [OF shape_fixext(2)]
    plain [OF shape_fixext(3)] plain [OF shape_fixext(4)] plain [OF shape_fixext(5)] shape_sized
  show ?thesis
    using assms unfolding layout_def by (elim if_SomeE) (erule (1) branches | simp)+
qed

text \<open>Conversely, the switch reads every header.\<close>

lemma fix_layout:
  "n < 32 \<Longrightarrow> layout (0xa0 + of_nat n) c = Some (n, 0, c)"
  "n < 16 \<Longrightarrow> layout (0x90 + of_nat n) c = Some (0, n, c)"
  "n < 16 \<Longrightarrow> layout (0x80 + of_nat n) c = Some (0, 2 * n, c)"
proof -
  assume "n < 32"
  then show "layout (0xa0 + of_nat n) c = Some (n, 0, c)"
    using fix_tag(1) [of "0xa0 + of_nat n" n] unfolding layout_def by presburger
next
  assume "n < 16"
  then have t: "(0x90 :: byte) \<le> 0x90 + of_nat n" "0x90 + of_nat n \<le> (0x9f :: byte)"
    "n = unat ((0x90 + of_nat n :: byte) AND 15)"
    using fix_tag(2) [of "0x90 + of_nat n" n] by simp_all
  moreover have "\<not> (0xa0 :: byte) \<le> 0x90 + of_nat n" using t(2) by (auto simp: word_le_nat_alt)
  ultimately show "layout (0x90 + of_nat n) c = Some (0, n, c)"
    unfolding layout_def by presburger
next
  assume "n < 16"
  then have t: "(0x80 :: byte) \<le> 0x80 + of_nat n" "0x80 + of_nat n \<le> (0x8f :: byte)"
    "n = unat ((0x80 + of_nat n :: byte) AND 15)"
    using fix_tag(3) [of "0x80 + of_nat n" n] by simp_all
  moreover have "\<not> (0xa0 :: byte) \<le> 0x80 + of_nat n" "\<not> (0x90 :: byte) \<le> 0x80 + of_nat n"
    using t(2) by (auto simp: word_le_nat_alt)
  ultimately show "layout (0x80 + of_nat n) c = Some (0, 2 * n, c)"
    unfolding layout_def by presburger
qed

lemma fix_not_single:
  "n < 32 \<Longrightarrow> \<not> single_byte (0xa0 + of_nat n)"
  "n < 16 \<Longrightarrow> \<not> single_byte (0x90 + of_nat n)"
  "n < 16 \<Longrightarrow> \<not> single_byte (0x80 + of_nat n)"
  using fix_tag(1) [of "0xa0 + of_nat n" n] fix_tag(2) [of "0x90 + of_nat n" n]
    fix_tag(3) [of "0x80 + of_nat n" n]
  by (auto simp: single_byte_def word_le_nat_alt)

lemma number_read:
  "n < 256 ^ 1 \<Longrightarrow> number 1 (be 1 n @ r) = Some (n, r)"
  "n < 256 ^ 2 \<Longrightarrow> number 2 (be 2 n @ r) = Some (n, r)"
  "n < 256 ^ 4 \<Longrightarrow> number 4 (be 4 n @ r) = Some (n, r)"
  by (simp_all only: number_iff) simp_all

definition reads :: "bytes \<Rightarrow> nat \<Rightarrow> nat \<Rightarrow> bool" where
  "reads h n m \<longleftrightarrow>
     (\<exists>t h'. h = t # h' \<and> \<not> single_byte t \<and> (\<forall>r. layout t (h' @ r) = Some (n, m, r)))"

lemma readsI:
  "\<not> single_byte t \<Longrightarrow> (\<And>r. layout t (h' @ r) = Some (n, m, r)) \<Longrightarrow> reads (t # h') n m"
  by (simp add: reads_def)

lemma layout_tags:
  "layout 0xd9 c = sized 0 (number 1 c)" "layout 0xda c = sized 0 (number 2 c)"
  "layout 0xdb c = sized 0 (number 4 c)"
  "layout 0xc4 c = sized 0 (number 1 c)" "layout 0xc5 c = sized 0 (number 2 c)"
  "layout 0xc6 c = sized 0 (number 4 c)"
  "layout 0xc7 c = sized 1 (number 1 c)" "layout 0xc8 c = sized 1 (number 2 c)"
  "layout 0xc9 c = sized 1 (number 4 c)"
  "layout 0xdc c = grouped 1 (number 2 c)" "layout 0xdd c = grouped 1 (number 4 c)"
  "layout 0xde c = grouped 2 (number 2 c)" "layout 0xdf c = grouped 2 (number 4 c)"
  by (simp_all add: layout_def)

lemma tags_not_single:
  "\<not> single_byte 0xd9" "\<not> single_byte 0xda" "\<not> single_byte 0xdb" "\<not> single_byte 0xc4"
  "\<not> single_byte 0xc5" "\<not> single_byte 0xc6" "\<not> single_byte 0xc7" "\<not> single_byte 0xc8"
  "\<not> single_byte 0xc9" "\<not> single_byte 0xdc" "\<not> single_byte 0xdd" "\<not> single_byte 0xde"
  "\<not> single_byte 0xdf"
  by (simp_all add: single_byte_def)

lemma reads_headers:
  "str_header n h \<Longrightarrow> reads h n 0" "bin_header n h \<Longrightarrow> reads h n 0" "ext_header n h \<Longrightarrow> reads h (n + 1) 0"
  "array_header n h \<Longrightarrow> reads h 0 n" "map_header n h \<Longrightarrow> reads h 0 (2 * n)"
proof -
  have powers: "(2 :: nat) ^ 8 = 256 ^ 1" "(2 :: nat) ^ 16 = 256 ^ 2" "(2 :: nat) ^ 32 = 256 ^ 4" by simp_all
  note read = layout_tags sized_def grouped_def number_read option.map prod.case add_0_right mult_1
    not_False_eq_True
  show "str_header n h \<Longrightarrow> reads h n 0"
    unfolding str_header_def powers
    by (elim disjE conjE; hypsubst; intro readsI tags_not_single; simp only: read fix_layout fix_not_single append_Nil)
  show "bin_header n h \<Longrightarrow> reads h n 0"
    unfolding bin_header_def powers
    by (elim disjE conjE; hypsubst; intro readsI tags_not_single; simp only: read)
  show "array_header n h \<Longrightarrow> reads h 0 n"
    unfolding array_header_def powers
    by (elim disjE conjE; hypsubst; intro readsI tags_not_single; simp only: read fix_layout fix_not_single append_Nil)
  show "map_header n h \<Longrightarrow> reads h 0 (2 * n)"
    unfolding map_header_def powers
    by (elim disjE conjE; hypsubst; intro readsI tags_not_single; simp only: read fix_layout fix_not_single append_Nil)
  have "reads h (n + 1) 0" if "(n, h) \<in> {(1, [0xd4]), (2, [0xd5]), (4, [0xd6]), (8, [0xd7]), (16, [0xd8])}"
    using that by (auto intro!: readsI simp: layout_def single_byte_def)
  then show "ext_header n h \<Longrightarrow> reads h (n + 1) 0"
    unfolding ext_header_def powers
    by (elim disjE conjE; (hypsubst; intro readsI tags_not_single; simp only: read)?)
qed

lemma shape_reads: "shape h n m \<Longrightarrow> reads h n m"
proof (induction rule: shape.induct)
  case (fixed t n)
  then show ?case
    unfolding number_width_def
    by (auto intro!: readsI simp: layout_def single_byte_def split: if_splits)
qed (simp_all add: reads_headers del: One_nat_def)

lemma pair_up: "length vs = 2 * k \<Longrightarrow> \<exists>kvs. length kvs = k \<and> vs = concat (map (\<lambda>(a, b). [a, b]) kvs)"
proof (induction k arbitrary: vs)
  case (Suc k)
  then obtain a b rest where vs: "vs = a # b # rest" by (cases vs; cases "tl vs") auto
  with Suc obtain kvs where "length kvs = k" "rest = concat (map (\<lambda>(a, b). [a, b]) kvs)" by auto
  with vs show ?case by (intro exI [of _ "(a, b) # kvs"]) simp
qed simp

lemma concat_pairs:
  "concat (concat (map (\<lambda>(a, b). [a, b]) kvs)) = concat (map (\<lambda>(a, b). a @ b) kvs)"
  "length (concat (map (\<lambda>(a, b). [a, b]) kvs)) = 2 * length kvs"
  by (induction kvs) auto

lemma msgpack_iff:
  "msgpack d v \<longleftrightarrow> (\<exists>t. single_byte t \<and> v = [t])
     \<or> (\<exists>h s vs. shape h (length s) (length vs) \<and> v = h @ s @ concat vs
          \<and> (\<forall>x \<in> set vs. 0 < d \<and> msgpack (d - 1) x))" (is "_ \<longleftrightarrow> ?value v")
proof
  assume "msgpack d v"
  then show "?value v"
  proof cases
    case (immediate t)
    then show ?thesis by (auto simp: single_byte_def)
  next
    case (fixed t s)
    then show ?thesis by (intro disjI2 exI [of _ "[t]"] exI [of _ s] exI [of _ "[]"]) (simp add: shape.fixed)
  next
    case (str s h)
    then show ?thesis by (intro disjI2 exI [of _ h] exI [of _ s] exI [of _ "[]"]) (simp add: shape.str)
  next
    case (bin s h)
    then show ?thesis by (intro disjI2 exI [of _ h] exI [of _ s] exI [of _ "[]"]) (simp add: shape.bin)
  next
    case (ext s h ty)
    then show ?thesis
      using shape.ext [of "length s" h]
      by (intro disjI2 exI [of _ h] exI [of _ "ty # s"] exI [of _ "[]"]) simp
  next
    case (array vs h)
    then show ?thesis by (intro disjI2 exI [of _ h] exI [of _ "[]"] exI [of _ vs]) (simp add: shape.array)
  next
    case (mapping kvs h)
    then show ?thesis
      using shape.mapping [of "length kvs" h]
      by (intro disjI2 exI [of _ h] exI [of _ "[]"] exI [of _ "concat (map (\<lambda>(a, b). [a, b]) kvs)"])
        (auto simp: concat_pairs)
  qed
next
  assume "?value v"
  then show "msgpack d v"
  proof (elim disjE exE conjE)
    fix h s vs
    assume shape: "shape h (length s) (length vs)" and v: "v = h @ s @ concat vs"
      and nested: "\<forall>x \<in> set vs. 0 < d \<and> msgpack (d - 1) x"
    from shape show "msgpack d v"
    proof cases
      case (ext n)
      then obtain ty s' where "s = ty # s'" "length s' = n" by (cases s) auto
      with ext v show ?thesis using msgpack.ext [of s' h d ty] by simp
    next
      case (mapping k)
      then obtain kvs where kvs: "length kvs = k" "vs = concat (map (\<lambda>(a, b). [a, b]) kvs)"
        using pair_up by blast
      then have "\<forall>(a, b) \<in> set kvs. 0 < d \<and> msgpack (d - 1) a \<and> msgpack (d - 1) b"
        using nested by fastforce
      with mapping kvs v show ?thesis using msgpack.mapping [of kvs h d] by (simp add: concat_pairs)
    qed (use v nested msgpack.intros in auto)
  qed (auto simp: single_byte_def intro: msgpack.immediate)
qed

lemma shape_nonempty: "shape h n m \<Longrightarrow> h \<noteq> []"
  by (auto dest: shape_reads simp: reads_def)

lemma msgpack_nonempty: "msgpack d v \<Longrightarrow> v \<noteq> []"
  using shape_nonempty by (auto simp: msgpack_iff [of d v])

lemma repeated_iff:
  assumes "\<And>c r. step c = Some r \<longleftrightarrow> (\<exists>v. c = v @ r \<and> P v)"
  shows "repeated step n c = Some r
    \<longleftrightarrow> (\<exists>vs. length vs = n \<and> (\<forall>v \<in> set vs. P v) \<and> c = concat vs @ r)"
proof (induction n arbitrary: c)
  case (Suc n)
  have "repeated step (Suc n) c = Some r \<longleftrightarrow> (\<exists>c'. step c = Some c' \<and> repeated step n c' = Some r)"
    by (auto split: option.splits)
  also have "\<dots> \<longleftrightarrow> (\<exists>v vs. P v \<and> length vs = n \<and> (\<forall>v \<in> set vs. P v) \<and> c = v @ concat vs @ r)"
    unfolding Suc.IH assms by blast
  also have "\<dots> \<longleftrightarrow> (\<exists>vs. length vs = Suc n \<and> (\<forall>v \<in> set vs. P v) \<and> c = concat vs @ r)"
    by (simp add: length_Suc_conv) force
  finally show ?case .
qed auto

lemma concat_nonempty: "\<forall>v \<in> set vs. v \<noteq> [] \<Longrightarrow> length vs \<le> length (concat vs)"
proof (induction vs)
  case (Cons v vs)
  then show ?case by (cases v) auto
qed simp

lemma skip_cases:
  assumes "depth \<le> 64"
  shows "skip depth c = Some r \<longleftrightarrow>
    (\<exists>t. single_byte t \<and> c = t # r)
    \<or> (\<exists>t c' m s r2. c = t # c' \<and> \<not> single_byte t \<and> layout t c' = Some (length s, m, s @ r2)
         \<and> m \<le> length r2 \<and> repeated (skip (depth + 1)) m r2 = Some r)"
proof (cases c)
  case (Cons t c')
  then show ?thesis
    using assms unfolding skip.simps [of depth c]
    by (auto simp: take_bytes_iff take_bytes_append split: option.splits)
qed (use assms in \<open>simp add: skip.simps\<close>)

lemma skip_iff:
  "skip depth c = Some r \<longleftrightarrow> depth \<le> 64 \<and> (\<exists>v. c = v @ r \<and> msgpack (64 - depth) v)"
proof (induction "65 - depth" arbitrary: depth c r rule: less_induct)
  case less
  show ?case
  proof (cases "depth \<le> 64")
    case True
    have deeper: "skip (depth + 1) x = Some y
        \<longleftrightarrow> (\<exists>v. x = v @ y \<and> (0 < 64 - depth \<and> msgpack (64 - depth - 1) v))" for x y
      using less [of "depth + 1"] True by (cases "depth = 64") (auto simp: skip.simps [of 65])
    note nested = repeated_iff [OF deeper]
    show ?thesis
    proof
      assume "skip depth c = Some r"
      then consider t where "single_byte t" "c = t # r"
        | t c' m s r2 where "c = t # c'" "layout t c' = Some (length s, m, s @ r2)"
            "repeated (skip (depth + 1)) m r2 = Some r"
        unfolding skip_cases [OF True] by blast
      then show "depth \<le> 64 \<and> (\<exists>v. c = v @ r \<and> msgpack (64 - depth) v)"
      proof cases
        case (1 t)
        then show ?thesis using True unfolding msgpack_iff [of "64 - depth"] by auto
      next
        case (2 t c' m s r2)
        then obtain h vs where "c = h @ s @ concat vs @ r" "shape h (length s) (length vs)"
          "\<forall>v \<in> set vs. 0 < 64 - depth \<and> msgpack (64 - depth - 1) v"
          unfolding nested using layout_shape [OF 2(2)] by auto
        moreover from this have "msgpack (64 - depth) (h @ s @ concat vs)"
          unfolding msgpack_iff [of "64 - depth"] by blast
        ultimately show ?thesis using True by (auto intro: exI [of _ "h @ s @ concat vs"])
      qed
    next
      assume "depth \<le> 64 \<and> (\<exists>v. c = v @ r \<and> msgpack (64 - depth) v)"
      then obtain v where v: "c = v @ r" "msgpack (64 - depth) v" by blast
      from v(2) [unfolded msgpack_iff [of "64 - depth"]] show "skip depth c = Some r"
      proof (elim disjE exE conjE)
        fix h s vs
        assume shape: "shape h (length s) (length vs)" and bytes: "v = h @ s @ concat vs"
          and inner: "\<forall>x \<in> set vs. 0 < 64 - depth \<and> msgpack (64 - depth - 1) x"
        obtain t h' where "h = t # h'" "\<not> single_byte t"
          "layout t (h' @ s @ concat vs @ r) = Some (length s, length vs, s @ concat vs @ r)"
          using shape_reads [OF shape] unfolding reads_def by auto
        moreover have "length vs \<le> length (concat vs @ r)"
          using concat_nonempty [of vs] inner msgpack_nonempty by fastforce
        moreover have "repeated (skip (depth + 1)) (length vs) (concat vs @ r) = Some r"
          unfolding nested using inner by blast
        ultimately show ?thesis unfolding skip_cases [OF True] v(1) bytes by fastforce
      qed (use v(1) in \<open>auto simp: skip_cases [OF True]\<close>)
    qed
  qed (simp add: skip.simps)
qed

section \<open>The check accepts the well-formed messages\<close>

text \<open>The format of a field, in the terms of the MessagePack specification.\<close>

definition has_format :: "fieldKind \<Rightarrow> bytes \<Rightarrow> bool" where
  "has_format kind v \<longleftrightarrow>
     (case kind of
        integerField \<Rightarrow> (\<exists>t. (t \<le> 0x7f \<or> t \<ge> 0xe0) \<and> v = [t])
          \<or> (\<exists>t s. t \<notin> {0xca, 0xcb} \<and> number_width t = Some (length s) \<and> v = t # s)
      | stringField \<Rightarrow> (\<exists>h s. str_header (length s) h \<and> v = h @ s)
      | binaryField \<Rightarrow> (\<exists>h s. bin_header (length s) h \<and> v = h @ s)
      | nullableBinaryField \<Rightarrow> (\<exists>h s. bin_header (length s) h \<and> v = h @ s) \<or> v = [0xc0]
      | floatField \<Rightarrow> (\<exists>t s. t \<in> {0xca, 0xcb} \<and> number_width t = Some (length s) \<and> v = t # s)
      | boolField \<Rightarrow> v = [0xc2] \<or> v = [0xc3]
      | headersField \<Rightarrow>
          (\<exists>h es. map_header (length es) h
             \<and> (\<forall>(kh, k, bh, b) \<in> set es. str_header (length k) kh \<and> bin_header (length b) bh)
             \<and> v = h @ concat (map (\<lambda>(kh, k, bh, b). kh @ k @ bh @ b) es))
      | unknownField \<Rightarrow> msgpack 64 v)"

lemmas format_kinds =
  has_format_def [of integerField, unfolded fieldKind.case]
  has_format_def [of stringField, unfolded fieldKind.case]
  has_format_def [of binaryField, unfolded fieldKind.case]
  has_format_def [of nullableBinaryField, unfolded fieldKind.case]
  has_format_def [of floatField, unfolded fieldKind.case]
  has_format_def [of boolField, unfolded fieldKind.case]
  has_format_def [of headersField, unfolded fieldKind.case]
  has_format_def [of unknownField, unfolded fieldKind.case]

text \<open>The first byte of a value tells its format.\<close>

lemma first_bytes:
  "str_header n h \<Longrightarrow> \<exists>t h'. h = t # h' \<and> (160 \<le> unat t \<and> unat t < 192 \<or> 217 \<le> unat t \<and> unat t < 220)"
  "bin_header n h \<Longrightarrow> \<exists>t h'. h = t # h' \<and> 196 \<le> unat t \<and> unat t < 199"
  "ext_header n h \<Longrightarrow> \<exists>t h'. h = t # h' \<and> (199 \<le> unat t \<and> unat t < 202 \<or> 212 \<le> unat t \<and> unat t < 217)"
  "array_header n h \<Longrightarrow> \<exists>t h'. h = t # h' \<and> (144 \<le> unat t \<and> unat t < 160 \<or> 220 \<le> unat t \<and> unat t < 222)"
  "map_header n h \<Longrightarrow> \<exists>t h'. h = t # h' \<and> (128 \<le> unat t \<and> unat t < 144 \<or> 222 \<le> unat t \<and> unat t < 224)"
  "number_width t = Some n \<Longrightarrow> 202 \<le> unat t \<and> unat t < 212"
proof -
  have fix_unat: "n < 32 \<Longrightarrow> unat (0xa0 + of_nat n :: byte) = 160 + n"
    "n < 16 \<Longrightarrow> unat (0x90 + of_nat n :: byte) = 144 + n"
    "n < 16 \<Longrightarrow> unat (0x80 + of_nat n :: byte) = 128 + n" for n
    using unat_of_small [of "160 + n"] unat_of_small [of "144 + n"] unat_of_small [of "128 + n"]
    by simp_all
  show "str_header n h \<Longrightarrow> \<exists>t h'. h = t # h' \<and> (160 \<le> unat t \<and> unat t < 192 \<or> 217 \<le> unat t \<and> unat t < 220)"
    unfolding str_header_def by (elim disjE conjE) (simp_all add: fix_unat)
  show "bin_header n h \<Longrightarrow> \<exists>t h'. h = t # h' \<and> 196 \<le> unat t \<and> unat t < 199"
    unfolding bin_header_def by (elim disjE conjE) simp_all
  show "ext_header n h \<Longrightarrow> \<exists>t h'. h = t # h' \<and> (199 \<le> unat t \<and> unat t < 202 \<or> 212 \<le> unat t \<and> unat t < 217)"
    unfolding ext_header_def by (elim disjE conjE) auto
  show "array_header n h \<Longrightarrow> \<exists>t h'. h = t # h' \<and> (144 \<le> unat t \<and> unat t < 160 \<or> 220 \<le> unat t \<and> unat t < 222)"
    unfolding array_header_def by (elim disjE conjE) (simp_all add: fix_unat)
  show "map_header n h \<Longrightarrow> \<exists>t h'. h = t # h' \<and> (128 \<le> unat t \<and> unat t < 144 \<or> 222 \<le> unat t \<and> unat t < 224)"
    unfolding map_header_def by (elim disjE conjE) (simp_all add: fix_unat)
  show "number_width t = Some n \<Longrightarrow> 202 \<le> unat t \<and> unat t < 212"
    unfolding number_width_def by (auto split: if_splits)
qed

lemma unat_inject_num: "(t = 0xc0) = (unat t = 192)" "(t = 0xc2) = (unat t = 194)" "(t = 0xc3) = (unat t = 195)"
  "(t = 0xca) = (unat t = 202)" "(t = 0xcb) = (unat t = 203)" "(t = 0xd9) = (unat t = 217)"
  "(t = 0xda) = (unat t = 218)" "(t = 0xdb) = (unat t = 219)" for t :: byte
  by (simp_all add: word_unat_eq_iff)

lemma kind_tag_unat:
  "kind_tag kind t = (let u = unat t in
     (case kind of
        integerField \<Rightarrow> u < 128 \<or> 224 \<le> u \<or> 204 \<le> u \<and> u < 212
      | stringField \<Rightarrow> 160 \<le> u \<and> u < 192 \<or> 217 \<le> u \<and> u < 220
      | binaryField \<Rightarrow> 196 \<le> u \<and> u < 199
      | nullableBinaryField \<Rightarrow> 196 \<le> u \<and> u < 199 \<or> u = 192
      | floatField \<Rightarrow> u = 202 \<or> u = 203
      | boolField \<Rightarrow> u = 194 \<or> u = 195
      | headersField \<Rightarrow> True
      | unknownField \<Rightarrow> True))"
  unfolding kind_tag_def unat_inject_num Let_def word_le_nat_alt
  by (cases kind) (simp_all, arith+)

lemma single_byte_unat:
  "t \<le> 0x7f \<or> t \<ge> 0xe0 \<or> t \<in> {0xc0, 0xc2, 0xc3}
     \<longleftrightarrow> unat t < 128 \<or> 224 \<le> unat t \<or> unat t \<in> {192, 194, 195}" for t :: byte
  unfolding insert_iff empty_iff unat_inject_num word_le_nat_alt by (simp, arith)

lemma small_integer_unat: "t \<le> 0x7f \<or> t \<ge> 0xe0 \<longleftrightarrow> unat t < 128 \<or> 224 \<le> unat t" for t :: byte
  unfolding word_le_nat_alt by (simp, arith)

lemma format_of_value:
  assumes "msgpack d v" "kind_tag kind (hd v)" "kind \<notin> {headersField, unknownField}"
  shows "has_format kind v"
  using assms(1)
proof cases
  case (immediate t)
  then show ?thesis
    using assms(2,3) unfolding single_byte_unat kind_tag_unat has_format_def small_integer_unat
    by (cases kind) (auto simp: unat_inject_num)
next
  case (fixed t s)
  then show ?thesis
    using assms(2,3) first_bytes(6) [OF fixed(2)] unfolding kind_tag_unat has_format_def
    by (cases kind) (auto simp: unat_inject_num)
next
  case (str s h)
  then show ?thesis
    using assms(2,3) first_bytes(1) [OF str(2)] unfolding kind_tag_unat has_format_def
    by (cases kind) auto
next
  case (bin s h)
  then show ?thesis
    using assms(2,3) first_bytes(2) [OF bin(2)] unfolding kind_tag_unat has_format_def
    by (cases kind) auto
next
  case (ext s h ty)
  then show ?thesis
    using assms(2,3) first_bytes(3) [OF ext(2)] unfolding kind_tag_unat has_format_def
    by (cases kind) auto
next
  case (array vs h)
  then show ?thesis
    using assms(2,3) first_bytes(4) [OF array(2)] unfolding kind_tag_unat has_format_def
    by (cases kind) auto
next
  case (mapping kvs h)
  then show ?thesis
    using assms(2,3) first_bytes(5) [OF mapping(2)] unfolding kind_tag_unat has_format_def
    by (cases kind) auto
qed

lemma value_of_format:
  assumes "has_format kind v" "kind \<noteq> headersField"
  shows "msgpack 64 v \<and> kind_tag kind (hd v)"
proof -
  have int: "msgpack 64 [t] \<and> kind_tag integerField t" if "unat t < 128 \<or> 224 \<le> unat t" for t
    using that msgpack.immediate [of t 64] unfolding single_byte_unat kind_tag_unat by auto
  have num: "msgpack 64 (t # s) \<and> kind_tag (if t \<in> {0xca, 0xcb} then floatField else integerField) t"
    if "number_width t = Some (length s)" for t s
    using first_bytes(6) [OF that] msgpack.fixed [OF that, of 64]
    unfolding kind_tag_unat insert_iff empty_iff unat_inject_num by auto
  have str: "msgpack 64 (h @ s) \<and> kind_tag stringField (hd (h @ s))" if "str_header (length s) h" for h s
    using first_bytes(1) [OF that] msgpack.str [OF that, of 64] unfolding kind_tag_unat by auto
  have bin: "msgpack 64 (h @ s) \<and> kind_tag binaryField (hd (h @ s))" if "bin_header (length s) h" for h s
    using first_bytes(2) [OF that] msgpack.bin [OF that, of 64] unfolding kind_tag_unat by auto
  have one: "msgpack 64 [0xc0]" "msgpack 64 [0xc2]" "msgpack 64 [0xc3]"
    by (rule msgpack.immediate, simp)+
  show ?thesis
  proof (cases kind)
    case integerField
    with assms(1) consider t where "unat t < 128 \<or> 224 \<le> unat t" "v = [t]"
      | t s where "t \<notin> {0xca, 0xcb}" "number_width t = Some (length s)" "v = t # s"
      unfolding integerField format_kinds small_integer_unat by blast
    then show ?thesis
    proof cases
      case (1 t)
      then show ?thesis using int [of t] unfolding integerField by simp
    next
      case (2 t s)
      then show ?thesis using num [of t s] unfolding integerField by simp
    qed
  next
    case stringField
    obtain h s where "str_header (length s) h" "v = h @ s"
      using assms(1) unfolding stringField format_kinds by (elim exE conjE that)
    then show ?thesis using str unfolding stringField by simp
  next
    case binaryField
    obtain h s where "bin_header (length s) h" "v = h @ s"
      using assms(1) unfolding binaryField format_kinds by (elim exE conjE that)
    then show ?thesis using bin unfolding binaryField by simp
  next
    case nullableBinaryField
    have "kind_tag binaryField t \<Longrightarrow> kind_tag nullableBinaryField t" for t by (simp add: kind_tag_def)
    moreover have "kind_tag nullableBinaryField 0xc0" by (simp add: kind_tag_def)
    moreover have "(\<exists>h s. bin_header (length s) h \<and> v = h @ s) \<or> v = [0xc0]"
      using assms(1) unfolding nullableBinaryField format_kinds .
    ultimately show ?thesis
      using bin one(1) unfolding nullableBinaryField by (elim disjE exE conjE) simp_all
  next
    case floatField
    obtain t s where "t \<in> {0xca, 0xcb}" "number_width t = Some (length s)" "v = t # s"
      using assms(1) unfolding floatField format_kinds by (elim exE conjE that)
    then show ?thesis using num [of t s] unfolding floatField by simp
  next
    case boolField
    have "kind_tag boolField 0xc2" "kind_tag boolField 0xc3" by (simp_all add: kind_tag_def)
    moreover have "v = [0xc2] \<or> v = [0xc3]"
      using assms(1) unfolding boolField format_kinds .
    ultimately show ?thesis using one(2,3) unfolding boolField by (elim disjE) simp_all
  next
    case unknownField
    then show ?thesis using assms(1) unfolding unknownField format_kinds by (simp add: kind_tag_def)
  qed (use assms(2) in simp)
qed

lemma format_iff:
  assumes "kind \<noteq> headersField"
  shows "msgpack 64 v \<and> kind_tag kind (hd v) \<longleftrightarrow> has_format kind v"
proof (cases "kind = unknownField")
  case True
  then show ?thesis by (simp add: has_format_def kind_tag_def)
next
  case False
  then show ?thesis
    using format_of_value [of 64 v kind] value_of_format [of kind v] assms by blast
qed

lemma plain_field_iff:
  assumes "kind \<noteq> headersField"
  shows "plain_field kind c = Some r \<longleftrightarrow> (\<exists>v. c = v @ r \<and> has_format kind v)"
proof -
  have "hd (v @ r) = hd v" "v @ r \<noteq> []" if "msgpack 64 v" for v
    using msgpack_nonempty [OF that] by simp_all
  moreover have "plain_field kind c = Some r \<longleftrightarrow> c \<noteq> [] \<and> kind_tag kind (hd c) \<and> skip 0 c = Some r"
    by (cases c) (auto simp: plain_field_def)
  ultimately have "plain_field kind c = Some r
      \<longleftrightarrow> (\<exists>v. c = v @ r \<and> msgpack 64 v \<and> kind_tag kind (hd v))"
    unfolding skip_iff by (metis diff_zero le0)
  then show ?thesis by (simp only: format_iff [OF assms])
qed

lemma header_entry_iff:
  "header_entry c = Some r \<longleftrightarrow>
     (\<exists>v. c = v @ r \<and> (\<exists>kh k bh b. str_header (length k) kh \<and> bin_header (length b) bh
        \<and> v = kh @ k @ bh @ b))" (is "_ \<longleftrightarrow> ?entry")
proof
  have "binaryField \<noteq> headersField" by simp
  note binary = plain_field_iff [OF this, unfolded format_kinds]
  {
    assume "header_entry c = Some r"
    then obtain k r' where "key c = Some (k, r')" "plain_field binaryField r' = Some r"
      by (auto simp: header_entry_def split: option.splits)
    then obtain kh bh b where "str_header (length k) kh" "c = kh @ k @ bh @ b @ r" "bin_header (length b) bh"
      unfolding key_iff binary by auto
    moreover from this have "c = (kh @ k @ bh @ b) @ r" by simp
    ultimately show ?entry by blast
  next
    assume ?entry
    then obtain kh k bh b where entry: "str_header (length k) kh" "bin_header (length b) bh"
      "c = kh @ k @ bh @ b @ r" by auto
    have "key c = Some (k, bh @ b @ r)" unfolding key_iff using entry by blast
    moreover have "plain_field binaryField (bh @ b @ r) = Some r"
      unfolding binary using entry(2) by (intro exI [of _ "bh @ b"]) auto
    ultimately show "header_entry c = Some r" by (simp add: header_entry_def)
  }
qed

lemma map_choice:
  "(\<exists>vs. length vs = n \<and> (\<forall>v \<in> set vs. \<exists>x. Q x \<and> v = f x) \<and> P vs)
     \<longleftrightarrow> (\<exists>xs. length xs = n \<and> (\<forall>x \<in> set xs. Q x) \<and> P (map f xs))" (is "?lists = ?choices")
proof
  have choice: "\<exists>xs. (\<forall>x \<in> set xs. Q x) \<and> vs = map f xs" if "\<forall>v \<in> set vs. \<exists>x. Q x \<and> v = f x" for vs
    using that
  proof (induction vs)
    case (Cons v vs)
    then obtain x xs where "Q x" "v = f x" "\<forall>x \<in> set xs. Q x" "vs = map f xs" by auto
    then show ?case by (intro exI [of _ "x # xs"]) simp
  qed simp
  assume ?lists
  then show ?choices using choice by fastforce
next
  assume ?choices
  then obtain xs where "length xs = n" "\<forall>x \<in> set xs. Q x" "P (map f xs)" by blast
  then show ?lists by (intro exI [of _ "map f xs"]) auto
qed

lemma half:
  assumes "\<forall>e \<in> set es. 2 \<le> length (f e)"
  shows "length es \<le> length (concat (map f es) @ r) div 2"
proof -
  have "2 * length es \<le> length (concat (map f es))"
    using assms by (induction es) auto
  then show ?thesis by simp
qed

lemma headers_loop_iff:
  "repeated header_entry n c = Some r
     \<longleftrightarrow> (\<exists>es. length es = n
          \<and> (\<forall>(kh, k, bh, b) \<in> set es. str_header (length k) kh \<and> bin_header (length b) bh)
          \<and> c = concat (map (\<lambda>(kh, k, bh, b). kh @ k @ bh @ b) es) @ r)"
proof -
  have "header_entry c = Some r \<longleftrightarrow> (\<exists>v. c = v @ r
      \<and> (\<exists>x. (case x of (kh, k, bh, b) \<Rightarrow> str_header (length k) kh \<and> bin_header (length b) bh)
              \<and> v = (case x of (kh, k, bh, b) \<Rightarrow> kh @ k @ bh @ b)))" for c r
    unfolding header_entry_iff by auto
  note repeated_iff [OF this]
  then show ?thesis unfolding map_choice .
qed

lemma str_nonempty: "str_header n h \<Longrightarrow> 1 \<le> length h" and bin_nonempty: "bin_header n h \<Longrightarrow> 1 \<le> length h"
  and map_nonempty: "map_header n h \<Longrightarrow> h \<noteq> []"
  using first_bytes(1) [of n h] first_bytes(2) [of n h] first_bytes(5) [of n h] by auto

lemma field_iff: "field kind c = Some r \<longleftrightarrow> (\<exists>v. c = v @ r \<and> has_format kind v)"
proof (cases "kind = headersField")
  case True
  have "field kind c = Some r \<longleftrightarrow> (\<exists>n r'. mapSize c = Some (n, r')
      \<and> n \<le> length r' div 2 \<and> repeated header_entry n r' = Some r)"
    using True by (cases c) (auto simp: field_def mapSize_def split: option.splits)
  also have "\<dots> \<longleftrightarrow> (\<exists>v. c = v @ r \<and> has_format kind v)"
  proof
    assume "\<exists>n r'. mapSize c = Some (n, r') \<and> n \<le> length r' div 2 \<and> repeated header_entry n r' = Some r"
    then obtain h es where "map_header (length es) h"
      "\<forall>(kh, k, bh, b) \<in> set es. str_header (length k) kh \<and> bin_header (length b) bh"
      "c = h @ concat (map (\<lambda>(kh, k, bh, b). kh @ k @ bh @ b) es) @ r"
      unfolding mapSize_iff headers_loop_iff by blast
    moreover from this have "has_format kind (h @ concat (map (\<lambda>(kh, k, bh, b). kh @ k @ bh @ b) es))"
      unfolding True format_kinds by blast
    ultimately show "\<exists>v. c = v @ r \<and> has_format kind v" by (metis append_assoc)
  next
    assume "\<exists>v. c = v @ r \<and> has_format kind v"
    then obtain v where v: "c = v @ r" "has_format headersField v" unfolding True by blast
    obtain h es where h: "map_header (length es) h"
      and es: "\<forall>(kh, k, bh, b) \<in> set es. str_header (length k) kh \<and> bin_header (length b) bh"
      and bytes: "v = h @ concat (map (\<lambda>(kh, k, bh, b). kh @ k @ bh @ b) es)"
      using v(2) unfolding format_kinds by (elim exE conjE) (rule that)
    have c: "c = h @ concat (map (\<lambda>(kh, k, bh, b). kh @ k @ bh @ b) es) @ r"
      unfolding v(1) bytes by simp
    have "length es \<le> length (concat (map (\<lambda>(kh, k, bh, b). kh @ k @ bh @ b) es) @ r) div 2"
      using es str_nonempty bin_nonempty by (intro half) fastforce
    with h es c show "\<exists>n r'. mapSize c = Some (n, r') \<and> n \<le> length r' div 2
        \<and> repeated header_entry n r' = Some r"
      unfolding mapSize_iff headers_loop_iff by blast
  qed
  finally show ?thesis .
next
  case False
  have "plain_field kind [] = None" by (simp add: plain_field_def)
  then have "field kind c = plain_field kind c" using False by (simp add: field_def)
  then show ?thesis using plain_field_iff [OF False] by simp
qed

lemma format_nonempty: "has_format kind v \<Longrightarrow> v \<noteq> []"
  using value_of_format [of kind v] msgpack_nonempty map_nonempty
  by (cases "kind = headersField") (auto simp: format_kinds)

text \<open>The marks of a sequence of keys.\<close>

primrec marks :: "string list \<Rightarrow> bytes list \<Rightarrow> u16 \<Rightarrow> u16 option" where
  "marks required [] seen = Some seen"
| "marks required (k # ks) seen =
     (case mark required k seen of None \<Rightarrow> None | Some seen' \<Rightarrow> marks required ks seen')"

lemma marks_Cons:
  "marks required (k # ks) seen = Some s'
     \<longleftrightarrow> (\<exists>s. mark required k seen = Some s \<and> marks required ks s = Some s')"
  by (auto split: option.splits)

lemma ex_longer_list: "(\<exists>xs. length xs = Suc n \<and> P xs) \<longleftrightarrow> (\<exists>x xs. length xs = n \<and> P (x # xs))"
  by (metis length_Cons length_Suc_conv)

lemma fields_loop_iff:
  "fields_loop message required n seen c = Some (seen', r) \<longleftrightarrow>
     (\<exists>fs. length fs = n
        \<and> (\<forall>(kh, k, v) \<in> set fs. str_header (length k) kh \<and> has_format (messageFieldKind message k) v)
        \<and> marks required (map (\<lambda>(_, k, _). k) fs) seen = Some seen'
        \<and> c = concat (map (\<lambda>(kh, k, v). kh @ k @ v) fs) @ r)"
proof (induction n arbitrary: seen c)
  case 0
  then show ?case by auto
next
  case (Suc n)
  have "fields_loop message required (Suc n) seen c = Some (seen', r) \<longleftrightarrow>
      (\<exists>k r1 s r2. key c = Some (k, r1) \<and> mark required k seen = Some s
         \<and> field (messageFieldKind message k) r1 = Some r2
         \<and> fields_loop message required n s r2 = Some (seen', r))"
    by (auto split: option.splits)
  also have "\<dots> \<longleftrightarrow> (\<exists>kh k v s fs. str_header (length k) kh \<and> mark required k seen = Some s
      \<and> has_format (messageFieldKind message k) v \<and> length fs = n
      \<and> (\<forall>(kh, k, v) \<in> set fs. str_header (length k) kh \<and> has_format (messageFieldKind message k) v)
      \<and> marks required (map (\<lambda>(_, k, _). k) fs) s = Some seen'
      \<and> c = kh @ k @ v @ concat (map (\<lambda>(kh, k, v). kh @ k @ v) fs) @ r)"
    unfolding key_iff field_iff Suc.IH by blast
  also have "\<dots> \<longleftrightarrow> (\<exists>kh k v fs. length fs = n
      \<and> (\<forall>(kh, k, v) \<in> set ((kh, k, v) # fs). str_header (length k) kh \<and> has_format (messageFieldKind message k) v)
      \<and> marks required (map (\<lambda>(_, k, _). k) ((kh, k, v) # fs)) seen = Some seen'
      \<and> c = concat (map (\<lambda>(kh, k, v). kh @ k @ v) ((kh, k, v) # fs)) @ r)"
    unfolding list.map prod.case marks_Cons concat.simps append_assoc list.set ball_simps by blast
  finally show ?case unfolding ex_longer_list split_paired_Ex .
qed

lemma utf8_inject: "utf8 s = utf8 t \<Longrightarrow> s = t"
proof -
  have "c = d" if "(of_char c :: byte) = of_char d" for c d
  proof -
    have "unat (of_char x :: byte) = of_char x" for x
      using unat_of_small [of "of_char x"] by (simp add: of_nat_of_char)
    then have "(of_char c :: nat) = of_char d" using that by metis
    then show ?thesis by simp
  qed
  then show "utf8 s = utf8 t \<Longrightarrow> s = t"
    unfolding utf8_def by (metis injI map_injective)
qed

lemma position_iff:
  "distinct required \<Longrightarrow>
   position k required = Some i \<longleftrightarrow> i < length required \<and> k = utf8 (required ! i)"
proof (induction required arbitrary: i)
  case (Cons name names)
  have "name \<noteq> names ! j" if "j < length names" for j
    using Cons.prems nth_mem [OF that] by auto
  then have other: "k = utf8 name \<Longrightarrow> j < length names \<Longrightarrow> k \<noteq> utf8 (names ! j)" for j
    using utf8_inject by blast
  show ?case
  proof (cases i)
    case 0
    then show ?thesis by (auto split: option.splits)
  next
    case (Suc j)
    then show ?thesis using Cons other [of j] by auto
  qed
qed simp

lemma bit_mark:
  assumes "i < 16"
  shows "(seen :: u16) AND push_bit i 1 \<noteq> 0 \<longleftrightarrow> bit seen i"
    and "bit (seen OR push_bit i 1) j \<longleftrightarrow> bit seen j \<or> j = i"
proof -
  have bits: "bit (push_bit i 1 :: u16) j \<longleftrightarrow> j = i" for j
    using assms by (auto simp: bit_exp_iff)
  show "bit (seen OR push_bit i 1) j \<longleftrightarrow> bit seen j \<or> j = i"
    unfolding bit_or_iff bits ..
  have "bit (seen AND push_bit i 1) j \<longleftrightarrow> bit seen i \<and> j = i" for j
    unfolding bit_and_iff bits by auto
  then show "seen AND push_bit i 1 \<noteq> 0 \<longleftrightarrow> bit seen i"
    by (metis bit_0_eq bit_eqI bot_apply bot_bool_def)
qed

text \<open>\<open>occurrences\<close> counts the keys that are the name of a field.\<close>

definition occurrences :: "string \<Rightarrow> bytes list \<Rightarrow> nat" where
  "occurrences name ks = length (filter (\<lambda>k. k = utf8 name) ks)"

lemma occurrences_simps [simp]:
  "occurrences name [] = 0"
  "occurrences name (k # ks) = (if k = utf8 name then Suc (occurrences name ks) else occurrences name ks)"
  by (simp_all add: occurrences_def)

lemma marks_iff:
  assumes "distinct required" "length required \<le> 16"
  shows "marks required ks seen = Some s' \<longleftrightarrow>
    (\<forall>i < length required. occurrences (required ! i) ks + of_bool (bit seen i) \<le> 1)
    \<and> (\<forall>j. bit s' j \<longleftrightarrow> bit seen j \<or> j < length required \<and> 0 < occurrences (required ! j) ks)"
proof (induction ks arbitrary: seen)
  case Nil
  show ?case by (auto intro: bit_eqI)
next
  case (Cons k ks)
  show ?case
  proof (cases "position k required")
    case None
    then have "k \<noteq> utf8 (required ! i)" if "i < length required" for i
      using position_iff [OF assms(1), of k i] that by auto
    then show ?thesis using Cons.IH [of seen] None by (auto simp: marks_Cons mark_def simp del: marks.simps)
  next
    case (Some p)
    then have p: "p < length required" "k = utf8 (required ! p)"
      using position_iff [OF assms(1)] by auto
    have other: "k = utf8 (required ! i) \<longleftrightarrow> i = p" if "i < length required" for i
      using position_iff [OF assms(1), of k i] Some that by auto
    have small: "p < 16" using p(1) assms(2) by simp
    define N where "N i = occurrences (required ! i) ks" for i
    have occ: "occurrences (required ! i) (k # ks) = N i + of_bool (i = p)" if "i < length required" for i
      using other [OF that] by (simp add: N_def)
    have "marks required (k # ks) seen = Some s'
        \<longleftrightarrow> \<not> bit seen p \<and> marks required ks (seen OR push_bit p 1) = Some s'"
      unfolding marks_Cons mark_def Some option.case bit_mark(1) [OF small] by auto
    also have "\<dots> \<longleftrightarrow> \<not> bit seen p \<and> (\<forall>i < length required. N i + of_bool (bit seen i \<or> i = p) \<le> 1)
        \<and> (\<forall>j. bit s' j \<longleftrightarrow> (bit seen j \<or> j = p) \<or> j < length required \<and> 0 < N j)"
      unfolding Cons.IH bit_mark(2) [OF small] N_def ..
    also have "\<dots> \<longleftrightarrow> (\<forall>i < length required. N i + of_bool (i = p) + of_bool (bit seen i) \<le> 1)
        \<and> (\<forall>j. bit s' j \<longleftrightarrow> bit seen j \<or> j < length required \<and> 0 < N j + of_bool (j = p))"
    proof -
      have bits: "(bit seen j \<or> j = p) \<or> j < length required \<and> 0 < N j
          \<longleftrightarrow> bit seen j \<or> j < length required \<and> 0 < N j + of_bool (j = p)" for j
        using p(1) by auto
      have counts: "\<not> bit seen p \<and> (\<forall>i < length required. N i + of_bool (bit seen i \<or> i = p) \<le> 1)
          \<longleftrightarrow> (\<forall>i < length required. N i + of_bool (i = p) + of_bool (bit seen i) \<le> 1)"
        using p(1) by (auto simp: of_bool_def split: if_splits)
      show ?thesis unfolding bits counts [symmetric] by (simp only: conj_assoc)
    qed
    finally show ?thesis by (simp only: occ cong: imp_cong conj_cong)
  qed
qed

lemma required_fields_distinct:
  "distinct (required_fields message)" "length (required_fields message) \<le> 16"
  by (cases message; simp add: required_fields_def)+

lemma marks_complete:
  assumes "distinct required" "length required \<le> 16"
  shows "marks required ks 0 = Some (push_bit (length required) 1 - 1)
    \<longleftrightarrow> (\<forall>name \<in> set required. occurrences name ks = 1)"
proof -
  have "push_bit (length required) 1 - 1 = (mask (length required) :: u16)"
    by (simp add: mask_eq_exp_minus_1)
  then have full: "bit (push_bit (length required) 1 - 1 :: u16) j \<longleftrightarrow> j < length required" for j
    using assms(2) by (auto simp: bit_mask_iff)
  have one: "m + of_bool False \<le> 1 \<and> 0 < m \<longleftrightarrow> m = 1" for m :: nat by auto
  have "marks required ks 0 = Some (push_bit (length required) 1 - 1)
      \<longleftrightarrow> (\<forall>i < length required. occurrences (required ! i) ks + of_bool False \<le> 1
             \<and> 0 < occurrences (required ! i) ks)"
    unfolding marks_iff [OF assms] full bit_0_eq bot_apply bot_bool_def by blast
  then show ?thesis unfolding one all_set_conv_all_nth .
qed

text \<open>A payload is a well-formed message when it is one MessagePack map with text keys, in which
  the known fields have the format of the schema and each required field occurs once.\<close>

definition well_formed :: "message_type \<Rightarrow> bytes \<Rightarrow> bool" where
  "well_formed message data \<longleftrightarrow>
     (\<exists>h fs. map_header (length fs) h
        \<and> (\<forall>(kh, k, v) \<in> set fs. str_header (length k) kh \<and> has_format (messageFieldKind message k) v)
        \<and> (\<forall>name \<in> set (required_fields message). occurrences name (map (\<lambda>(_, k, _). k) fs) = 1)
        \<and> data = h @ concat (map (\<lambda>(kh, k, v). kh @ k @ v) fs))"

text \<open>C15. The structural check of frame payloads is exact: \<^verbatim>\<open>hasRequiredFields\<close> accepts a payload
  if and only if it is a well-formed message of the expected type in the MessagePack grammar, with
  unknown fields nested at most 64 deep. The bounds it checks on the way (lengths, counts and
  nesting against the bytes that are left) reject no well-formed message.\<close>

theorem payload_check_exact:
  "hasRequiredFields data (required_fields message) message \<longleftrightarrow> well_formed message data"
proof -
  let ?keys = "map (\<lambda>(_, k, _). k) :: (bytes \<times> bytes \<times> bytes) list \<Rightarrow> bytes list"
  let ?flat = "\<lambda>fs. concat (map (\<lambda>(kh, k, v). kh @ k @ v) fs)"
  let ?ok = "\<lambda>fs. \<forall>(kh, k, v) \<in> set fs. str_header (length k) kh \<and> has_format (messageFieldKind message k) v"
  have "hasRequiredFields data (required_fields message) message \<longleftrightarrow>
      (\<exists>n r. mapSize data = Some (n, r) \<and> n \<le> length r div 2
         \<and> fields_loop message (required_fields message) n 0 r
             = Some (push_bit (length (required_fields message)) 1 - 1, []))"
    unfolding hasRequiredFields_def by (auto split: option.splits)
  also have "\<dots> \<longleftrightarrow> (\<exists>h fs. map_header (length fs) h \<and> length fs \<le> length (?flat fs @ []) div 2 \<and> ?ok fs
      \<and> (\<forall>name \<in> set (required_fields message). occurrences name (?keys fs) = 1) \<and> data = h @ ?flat fs)"
    unfolding mapSize_iff fields_loop_iff marks_complete [OF required_fields_distinct] append_Nil2
    by blast
  also have "\<dots> \<longleftrightarrow> well_formed message data"
  proof -
    have "length fs \<le> length (?flat fs @ []) div 2" if "?ok fs" for fs
    proof (rule half, intro ballI)
      fix e
      assume "e \<in> set fs"
      moreover obtain kh k v where e: "e = (kh, k, v)" by (cases e)
      ultimately have "str_header (length k) kh" "has_format (messageFieldKind message k) v"
        using that by auto
      then have "1 \<le> length kh" "v \<noteq> []" by (simp_all only: str_nonempty format_nonempty not_False_eq_True)
      then show "2 \<le> length (case e of (kh, k, v) \<Rightarrow> kh @ k @ v)" unfolding e by (cases v) auto
    qed
    then show ?thesis unfolding well_formed_def by blast
  qed
  finally show ?thesis .
qed

end
