(* ===== verification/Wire_Frame.thy ===== *)
theory Wire_Frame
  imports Wire_Payload Checksum
begin

text \<open>
  The frames of the data protocol (\<^verbatim>\<open>internal/protocol/frame.go\<close>, \<^verbatim>\<open>codec.go\<close>,
  \<^verbatim>\<open>message.go\<close>, \<^verbatim>\<open>errors.go\<close> and the canonical form of messages in
  \<^verbatim>\<open>payload_types.go\<close>): a length, a message type, a CRC32C and a MessagePack payload.

  A reader is the bytes its peer has sent and the error that ends the stream. A writer is a
  function from the bytes handed to it to the number it took, its error and its new state. The
  buffer pool of \<^verbatim>\<open>ReadFrame\<close> only reuses memory and is left out: a buffer is filled with
  the whole frame before it is read. The MessagePack codec is a third-party library and a
  parameter: the chunks it writes for a message and whether it failed, and the message it reads
  with the number of bytes it consumed. A nil byte slice is None, a nil and an empty header map are
  both the empty list.
\<close>

section \<open>Errors, messages and streams\<close>

datatype io_error = EOF | ErrUnexpectedEOF | ErrShortWrite | IOError string

datatype wire_error =
  ErrFrameTooLarge | ErrFrameTooSmall | ErrCRCMismatch | ErrUnknownMsgType | ErrDecodePayload
| ErrEncodePayload | ErrHandshakeTimeout | ErrHandshakeExpected | ErrVersionIncompatible
| IO io_error

datatype message =
  StreamHeader string string u16
| SessionHandshake u16 u16 u32 string u16
| DataRecord "bytes option" "bytes option" int "(string \<times> bytes option) list"
| CheckpointBarrier u64 u64 int
| Watermark int string
| EndOfPartition string u8
| Backpressure u32 u8 float64
| SessionDrain bool

text \<open>What a caller may pass as a message: a message, a nil pointer to one, or another type.\<close>

datatype any_message = Msg message | NilMsg message_type | Foreign

fun type_of :: "message \<Rightarrow> message_type" where
  "type_of (StreamHeader _ _ _) = StreamHeaderMsg"
| "type_of (SessionHandshake _ _ _ _ _) = SessionHandshakeMsg"
| "type_of (DataRecord _ _ _ _) = DataRecordMsg"
| "type_of (CheckpointBarrier _ _ _) = CheckpointBarrierMsg"
| "type_of (Watermark _ _) = WatermarkMsg"
| "type_of (EndOfPartition _ _) = EndOfPartitionMsg"
| "type_of (Backpressure _ _ _) = BackpressureMsg"
| "type_of (SessionDrain _) = SessionDrainMsg"

definition msgType :: "message_type \<Rightarrow> u8" where
  "msgType message =
     (case message of
        StreamHeaderMsg \<Rightarrow> 0x00 | SessionHandshakeMsg \<Rightarrow> 0x07 | DataRecordMsg \<Rightarrow> 0x01
      | CheckpointBarrierMsg \<Rightarrow> 0x02 | WatermarkMsg \<Rightarrow> 0x03 | EndOfPartitionMsg \<Rightarrow> 0x04
      | BackpressureMsg \<Rightarrow> 0x05 | SessionDrainMsg \<Rightarrow> 0x08)"

definition EndReasonError :: u8 where "EndReasonError = 0x02"
definition BackpressurePause :: u8 where "BackpressurePause = 0x01"

record reader =
  pending :: bytes
  ending :: io_error

definition io_ReadFull :: "nat \<Rightarrow> reader \<Rightarrow> (io_error + bytes) \<times> reader" where
  "io_ReadFull n r =
     (if n \<le> length (pending r) then (Inr (take n (pending r)), r\<lparr>pending := drop n (pending r)\<rparr>)
      else (Inl (if pending r \<noteq> [] \<and> ending r = EOF then ErrUnexpectedEOF else ending r),
            r\<lparr>pending := []\<rparr>))"

type_synonym 'w writer = "bytes \<Rightarrow> 'w \<Rightarrow> (nat \<times> io_error option) \<times> 'w"

definition write_all :: "'w writer \<Rightarrow> bytes \<Rightarrow> 'w \<Rightarrow> wire_error option \<times> 'w" where
  "write_all W p w =
     (case W p w of
        ((n, Some err), w') \<Rightarrow> (Some (IO err), w')
      | ((n, None), w') \<Rightarrow> (if n \<noteq> length p then Some (IO ErrShortWrite) else None, w'))"

section \<open>Frames\<close>

definition MinFrameLength :: nat where "MinFrameLength = 5"
definition HeaderSize :: nat where "HeaderSize = 9"
definition DefaultMaxFrameSize :: u32 where "DefaultMaxFrameSize = 16 * 1024 * 1024"

definition crc32cTypeSeeds :: "byte \<Rightarrow> u32" where
  "crc32cTypeSeeds i = crc32_Update 0 Castagnoli [i]"

definition computeCRC32C :: "byte \<Rightarrow> bytes \<Rightarrow> u32" where
  "computeCRC32C t payload = crc32_Update (crc32cTypeSeeds t) Castagnoli payload"

record Frame =
  Length :: u32
  ReceivedCRC :: u32
  ComputedCRC :: u32
  CorruptPrefix :: bytes
  MsgType :: u8
  Payload :: bytes

definition zero_frame :: Frame where
  "zero_frame = \<lparr>Length = 0, ReceivedCRC = 0, ComputedCRC = 0, CorruptPrefix = [], MsgType = 0, Payload = []\<rparr>"

definition ReadFrame :: "reader \<Rightarrow> u32 \<Rightarrow> (Frame \<times> wire_error option) \<times> reader" where
  "ReadFrame r maxFrameSize =
     (case io_ReadFull 4 r of
        (Inl err, r1) \<Rightarrow> ((zero_frame, Some (IO err)), r1)
      | (Inr lenBuf, r1) \<Rightarrow>
          let frameLen = Uint32BE lenBuf
          in if frameLen < of_nat MinFrameLength
             then ((zero_frame\<lparr>Length := frameLen\<rparr>, Some ErrFrameTooSmall), r1)
             else if frameLen > maxFrameSize
             then ((zero_frame\<lparr>Length := frameLen\<rparr>, Some ErrFrameTooLarge), r1)
             else (case io_ReadFull (unat frameLen) r1 of
                 (Inl err, r2) \<Rightarrow> ((zero_frame, Some (IO err)), r2)
               | (Inr buf, r2) \<Rightarrow>
                   let t = buf ! 0;
                       crcReceived = Uint32BE (take 4 (drop 1 buf));
                       crcComputed = computeCRC32C t (drop 5 buf)
                   in if crcReceived \<noteq> crcComputed
                      then ((zero_frame\<lparr>Length := frameLen, MsgType := t, ReceivedCRC := crcReceived,
                               ComputedCRC := crcComputed, CorruptPrefix := take 64 buf\<rparr>,
                             Some ErrCRCMismatch), r2)
                      else ((zero_frame\<lparr>Length := frameLen, MsgType := t, Payload := drop 5 buf\<rparr>, None), r2)))"

definition WriteFrameRaw :: "'w writer \<Rightarrow> u8 \<Rightarrow> bytes \<Rightarrow> 'w \<Rightarrow> wire_error option \<times> 'w" where
  "WriteFrameRaw W t payload w =
     (if length payload > 2 ^ 32 - 1 - MinFrameLength then (Some ErrFrameTooLarge, w)
      else
        let frameLen = (of_nat (length payload) :: u32) + of_nat MinFrameLength;
            crc = computeCRC32C t payload;
            header = PutUint32BE frameLen @ [t] @ PutUint32BE crc
        in case write_all W header w of
             (Some err, w1) \<Rightarrow> (Some err, w1)
           | (None, w1) \<Rightarrow> (if payload = [] then (None, w1) else write_all W payload w1))"

section \<open>Messages\<close>

record codec =
  codec_Encode :: "any_message \<Rightarrow> bytes list \<times> bool"
  codec_Decode :: "message_type \<Rightarrow> bytes \<Rightarrow> (message \<times> nat) option"

definition needsCanonicalRecord :: "bytes option \<Rightarrow> (string \<times> bytes option) list \<Rightarrow> bool" where
  "needsCanonicalRecord v headers = (v = None \<or> list_ex (\<lambda>(_, x). x = None) headers)"

definition non_nil :: "bytes option \<Rightarrow> bytes option" where
  "non_nil x = (case x of None \<Rightarrow> Some [] | Some b \<Rightarrow> Some b)"

definition canonicalRecord :: "bytes option \<Rightarrow> bytes option \<Rightarrow> int \<Rightarrow> (string \<times> bytes option) list \<Rightarrow> message" where
  "canonicalRecord k v t headers =
     DataRecord k (non_nil v) t
       (if list_ex (\<lambda>(_, x). x = None) headers then map (\<lambda>(n, x). (n, non_nil x)) headers else headers)"

definition canonicalMessage :: "any_message \<Rightarrow> any_message" where
  "canonicalMessage message =
     (case message of
        Msg (DataRecord k v t headers) \<Rightarrow>
          (if needsCanonicalRecord v headers then Msg (canonicalRecord k v t headers) else message)
      | _ \<Rightarrow> message)"

record payloadBuffer =
  buffer :: bytes
  limit :: nat
  exceeded :: bool

definition payloadBuffer_Write :: "bytes \<Rightarrow> payloadBuffer \<Rightarrow> (nat \<times> wire_error option) \<times> payloadBuffer" where
  "payloadBuffer_Write p b =
     (if length (buffer b) + length p > limit b then ((0, Some ErrFrameTooLarge), b\<lparr>exceeded := True\<rparr>)
      else ((length p, None), b\<lparr>buffer := buffer b @ p\<rparr>))"

text \<open>The encoder stops at the first chunk that its writer refuses.\<close>

primrec encode_chunks :: "bytes list \<Rightarrow> payloadBuffer \<Rightarrow> bool \<times> payloadBuffer" where
  "encode_chunks [] b = (True, b)"
| "encode_chunks (p # ps) b =
     (case payloadBuffer_Write p b of
        ((_, Some _), b') \<Rightarrow> (False, b')
      | ((_, None), b') \<Rightarrow> encode_chunks ps b')"

definition encodeMsgPackPrefix :: "codec \<Rightarrow> any_message \<Rightarrow> u32 \<Rightarrow> nat \<Rightarrow> wire_error + bytes" where
  "encodeMsgPackPrefix c v bound prefix =
     (let b0 = \<lparr>buffer = replicate prefix 0, limit = unat bound + prefix, exceeded = False\<rparr>;
          (chunks, failed) = codec_Encode c (canonicalMessage v);
          (written, b) = encode_chunks chunks b0
      in if exceeded b then Inl ErrFrameTooLarge
         else if failed \<or> \<not> written then Inl ErrEncodePayload
         else Inr (buffer b))"

definition EncodeMsgPack :: "codec \<Rightarrow> any_message \<Rightarrow> wire_error + bytes" where
  "EncodeMsgPack c v =
     (let (chunks, failed) = codec_Encode c (canonicalMessage v)
      in if failed then Inl ErrEncodePayload else Inr (concat chunks))"

definition WriteFrame :: "codec \<Rightarrow> 'w writer \<Rightarrow> u8 \<Rightarrow> any_message \<Rightarrow> 'w \<Rightarrow> wire_error option \<times> 'w" where
  "WriteFrame c W t msg w =
     (case EncodeMsgPack c msg of Inl err \<Rightarrow> (Some err, w) | Inr payload \<Rightarrow> WriteFrameRaw W t payload w)"

definition invalid_usage :: "float64 \<Rightarrow> bool" where
  "invalid_usage x = (case x of NaN \<Rightarrow> True | Infinity _ \<Rightarrow> True | Finite q \<Rightarrow> q < 0 \<or> q > 1)"

definition decodeFramePayload :: "codec \<Rightarrow> message_type \<Rightarrow> bytes \<Rightarrow> wire_error + message" where
  "decodeFramePayload c t data =
     (if \<not> hasRequiredFields data (required_fields t) t then Inl ErrDecodePayload
      else if data = [] \<or> ((data ! 0 < 0x80 \<or> data ! 0 > 0x8f) \<and> data ! 0 \<noteq> 0xde \<and> data ! 0 \<noteq> 0xdf)
      then Inl ErrDecodePayload
      else case codec_Decode c t data of
        None \<Rightarrow> Inl ErrDecodePayload
      | Some (message, n) \<Rightarrow>
          (if n \<noteq> length data then Inl ErrDecodePayload
           else case message of
             EndOfPartition _ reason \<Rightarrow>
               (if reason > EndReasonError then Inl ErrDecodePayload else Inr message)
           | Backpressure _ st usage \<Rightarrow>
               (if st > BackpressurePause \<or> invalid_usage usage then Inl ErrDecodePayload else Inr message)
           | _ \<Rightarrow> Inr message))"

definition DecodePayload :: "codec \<Rightarrow> Frame \<Rightarrow> wire_error + message" where
  "DecodePayload c f =
     (if MsgType f = 0x08 then decodeFramePayload c SessionDrainMsg (Payload f)
      else if MsgType f = 0x00 then decodeFramePayload c StreamHeaderMsg (Payload f)
      else if MsgType f = 0x07 then decodeFramePayload c SessionHandshakeMsg (Payload f)
      else if MsgType f = 0x01 then decodeFramePayload c DataRecordMsg (Payload f)
      else if MsgType f = 0x02 then decodeFramePayload c CheckpointBarrierMsg (Payload f)
      else if MsgType f = 0x03 then decodeFramePayload c WatermarkMsg (Payload f)
      else if MsgType f = 0x04 then decodeFramePayload c EndOfPartitionMsg (Payload f)
      else if MsgType f = 0x05 then decodeFramePayload c BackpressureMsg (Payload f)
      else Inl ErrUnknownMsgType)"

definition EncodeAndWriteFrameLimit ::
  "codec \<Rightarrow> 'w writer \<Rightarrow> any_message \<Rightarrow> u32 \<Rightarrow> 'w \<Rightarrow> wire_error option \<times> 'w" where
  "EncodeAndWriteFrameLimit c W msg maxFrameSize w =
     (case (case msg of Msg m \<Rightarrow> Some (type_of m) | NilMsg t \<Rightarrow> Some t | Foreign \<Rightarrow> None) of
        None \<Rightarrow> (Some ErrEncodePayload, w)
      | Some t \<Rightarrow>
          (if maxFrameSize < of_nat MinFrameLength then (Some ErrFrameTooLarge, w)
           else case encodeMsgPackPrefix c msg (maxFrameSize - of_nat MinFrameLength) HeaderSize of
             Inl err \<Rightarrow> (Some err, w)
           | Inr encoded \<Rightarrow>
               let payload = drop HeaderSize encoded
               in if payload = [0xc0] then (Some ErrEncodePayload, w)
                  else write_all W
                    (PutUint32BE (of_nat (length payload) + of_nat MinFrameLength) @ [msgType t]
                       @ PutUint32BE (computeCRC32C (msgType t) payload) @ payload) w))"

definition EncodeAndWriteFrame :: "codec \<Rightarrow> 'w writer \<Rightarrow> any_message \<Rightarrow> 'w \<Rightarrow> wire_error option \<times> 'w" where
  "EncodeAndWriteFrame c W msg w = EncodeAndWriteFrameLimit c W msg DefaultMaxFrameSize w"

section \<open>Reading back frames\<close>

text \<open>The bytes of a frame, and the frame that a reader makes of them.\<close>

definition frame_bytes :: "u8 \<Rightarrow> bytes \<Rightarrow> bytes" where
  "frame_bytes t p =
     PutUint32BE (of_nat (length p + MinFrameLength)) @ t # PutUint32BE (computeCRC32C t p) @ p"

definition frame_of :: "u8 \<Rightarrow> bytes \<Rightarrow> Frame" where
  "frame_of t p = zero_frame\<lparr>Length := of_nat (length p + MinFrameLength), MsgType := t, Payload := p\<rparr>"

lemma computeCRC32C_eq: "computeCRC32C t p = crc32_Update 0 Castagnoli (t # p)"
  using Update_append [of 0 Castagnoli "[t]" p] by (simp add: computeCRC32C_def crc32cTypeSeeds_def)

lemma ReadFull_append:
  "io_ReadFull (length b) \<lparr>pending = b @ r, ending = e\<rparr> = (Inr b, \<lparr>pending = r, ending = e\<rparr>)"
  by (simp add: io_ReadFull_def)

lemma unat_of_length: "n < 2 ^ 32 \<Longrightarrow> unat (of_nat n :: u32) = n"
  by (simp add: unat_of_nat)

lemma frame_length_bounds:
  assumes "length p + MinFrameLength \<le> unat (maxFrameSize :: u32)"
  shows "unat (of_nat (length p + MinFrameLength) :: u32) = length p + MinFrameLength"
    and "\<not> (of_nat (length p + MinFrameLength) :: u32) < of_nat MinFrameLength"
    and "\<not> (of_nat (length p + MinFrameLength) :: u32) > maxFrameSize"
proof -
  have "length p + MinFrameLength < 2 ^ 32" using assms unat_bound [of maxFrameSize] by simp
  then show len: "unat (of_nat (length p + MinFrameLength) :: u32) = length p + MinFrameLength"
    by (rule unat_of_length)
  have "unat (of_nat MinFrameLength :: u32) = MinFrameLength"
    by (rule unat_of_length) (simp add: MinFrameLength_def)
  then show "\<not> (of_nat (length p + MinFrameLength) :: u32) < of_nat MinFrameLength"
    "\<not> (of_nat (length p + MinFrameLength) :: u32) > maxFrameSize"
    unfolding word_less_nat_alt len using assms by simp_all
qed

text \<open>What the reader does with a complete body.\<close>

lemma ReadFrame_body:
  assumes size: "length p + MinFrameLength \<le> unat maxFrameSize"
  shows "ReadFrame \<lparr>pending = PutUint32BE (of_nat (length p + MinFrameLength)) @ t # PutUint32BE crc @ p @ r,
      ending = e\<rparr> maxFrameSize
    = (if crc = computeCRC32C t p then (frame_of t p, None)
       else (zero_frame\<lparr>Length := of_nat (length p + MinFrameLength), MsgType := t, ReceivedCRC := crc,
               ComputedCRC := computeCRC32C t p, CorruptPrefix := take 64 (t # PutUint32BE crc @ p)\<rparr>,
             Some ErrCRCMismatch), \<lparr>pending = r, ending = e\<rparr>)"
proof -
  let ?len = "of_nat (length p + MinFrameLength) :: u32" and ?body = "t # PutUint32BE crc @ p"
  have first: "io_ReadFull 4 \<lparr>pending = PutUint32BE ?len @ ?body @ r, ending = e\<rparr>
      = (Inr (PutUint32BE ?len), \<lparr>pending = ?body @ r, ending = e\<rparr>)"
    using ReadFull_append [of "PutUint32BE ?len"] by (simp add: codec_simps)
  have len: "length p + MinFrameLength = length ?body" by (simp add: codec_simps MinFrameLength_def)
  have second: "io_ReadFull (unat ?len) \<lparr>pending = ?body @ r, ending = e\<rparr>
      = (Inr ?body, \<lparr>pending = r, ending = e\<rparr>)"
    unfolding frame_length_bounds(1) [OF size] unfolding len by (rule ReadFull_append)
  have crc: "Uint32BE (take 4 (drop 1 ?body)) = crc" and rest: "drop 5 ?body = p"
    by (simp_all add: codec_simps)
  have "ReadFrame \<lparr>pending = PutUint32BE ?len @ ?body @ r, ending = e\<rparr> maxFrameSize
    = (if crc = computeCRC32C t p then (frame_of t p, None)
       else (zero_frame\<lparr>Length := ?len, MsgType := t, ReceivedCRC := crc,
               ComputedCRC := computeCRC32C t p, CorruptPrefix := take 64 ?body\<rparr>,
             Some ErrCRCMismatch), \<lparr>pending = r, ending = e\<rparr>)"
    unfolding ReadFrame_def first prod.case sum.case Let_def codec_facts(7)
    using frame_length_bounds(2,3) [OF size]
    by (simp only: if_False second prod.case sum.case crc rest nth_Cons_0 frame_of_def split: if_splits) simp
  then show ?thesis by simp
qed

lemma ReadFrame_frame:
  assumes "length p + MinFrameLength \<le> unat maxFrameSize"
  shows "ReadFrame \<lparr>pending = frame_bytes t p @ r, ending = e\<rparr> maxFrameSize
    = ((frame_of t p, None), \<lparr>pending = r, ending = e\<rparr>)"
  using ReadFrame_body [OF assms, of t "computeCRC32C t p" r e] by (simp add: frame_bytes_def)

text \<open>A stream that ends inside a frame is an error, and one that ends right after the length is
  reported like one that ends between two frames.\<close>

lemma ReadFull_short:
  "length b < n \<Longrightarrow> io_ReadFull n \<lparr>pending = b, ending = EOF\<rparr>
     = (Inl (if b = [] then EOF else ErrUnexpectedEOF), \<lparr>pending = [], ending = EOF\<rparr>)"
  by (simp add: io_ReadFull_def)

lemma ReadFrame_cut:
  assumes size: "length p + MinFrameLength \<le> unat maxFrameSize" and cut: "k < length (frame_bytes t p)"
  shows "ReadFrame \<lparr>pending = take k (frame_bytes t p), ending = EOF\<rparr> maxFrameSize
    = ((zero_frame, Some (IO (if k = 0 \<or> k = 4 then EOF else ErrUnexpectedEOF))), \<lparr>pending = [], ending = EOF\<rparr>)"
proof (cases "k < 4")
  case True
  then have "length (take k (frame_bytes t p)) < 4" by simp
  moreover have "take k (frame_bytes t p) = [] \<longleftrightarrow> k = 0" using cut by auto
  ultimately show ?thesis using True by (simp add: ReadFrame_def ReadFull_short)
next
  case False
  let ?len = "of_nat (length p + MinFrameLength) :: u32"
  define b where "b = take (k - 4) (t # PutUint32BE (computeCRC32C t p) @ p)"
  have len: "length (frame_bytes t p) = 4 + (length p + MinFrameLength)"
    by (simp add: frame_bytes_def codec_simps MinFrameLength_def)
  have pend: "take k (frame_bytes t p) = PutUint32BE ?len @ b"
    using False by (simp add: frame_bytes_def b_def codec_simps)
  have first: "io_ReadFull 4 \<lparr>pending = PutUint32BE ?len @ b, ending = EOF\<rparr>
      = (Inr (PutUint32BE ?len), \<lparr>pending = b, ending = EOF\<rparr>)"
    using ReadFull_append [of "PutUint32BE ?len" b EOF] by (simp add: codec_simps)
  have "length b = k - 4" using cut len by (simp add: b_def codec_simps MinFrameLength_def)
  then have "length b < unat ?len" "b = [] \<longleftrightarrow> k = 4"
    using cut len False unfolding frame_length_bounds(1) [OF size] by auto
  then show ?thesis
    unfolding ReadFrame_def pend first prod.case sum.case Let_def codec_facts(7)
    using frame_length_bounds(2,3) [OF size] False by (simp only: if_False ReadFull_short) simp
qed

text \<open>The writer that keeps every byte.\<close>

definition append_Write :: "bytes writer" where
  "append_Write p w = ((length p, None), w @ p)"

lemma write_all_append [simp]: "write_all append_Write p w = (None, w @ p)"
  by (simp add: write_all_def append_Write_def)

lemma WriteFrameRaw_append:
  "length p + MinFrameLength < 2 ^ 32 \<Longrightarrow> WriteFrameRaw append_Write t p w = (None, w @ frame_bytes t p)"
  by (simp add: WriteFrameRaw_def frame_bytes_def MinFrameLength_def Let_def)

primrec write_frames :: "'w writer \<Rightarrow> (u8 \<times> bytes) list \<Rightarrow> 'w \<Rightarrow> wire_error option \<times> 'w" where
  "write_frames W [] w = (None, w)"
| "write_frames W (f # fs) w =
     (case WriteFrameRaw W (fst f) (snd f) w of
        (Some err, w') \<Rightarrow> (Some err, w')
      | (None, w') \<Rightarrow> write_frames W fs w')"

primrec read_frames :: "nat \<Rightarrow> reader \<Rightarrow> u32 \<Rightarrow> (Frame list \<times> wire_error option) \<times> reader" where
  "read_frames 0 r maxFrameSize = (([], None), r)"
| "read_frames (Suc n) r maxFrameSize =
     (case ReadFrame r maxFrameSize of
        ((_, Some err), r') \<Rightarrow> (([], Some err), r')
      | ((f, None), r') \<Rightarrow>
          (case read_frames n r' maxFrameSize of ((fs, err), r'') \<Rightarrow> ((f # fs, err), r'')))"

lemma write_frames_append:
  "\<forall>(t, p) \<in> set fs. length p + MinFrameLength < 2 ^ 32
     \<Longrightarrow> write_frames append_Write fs w = (None, w @ concat (map (\<lambda>(t, p). frame_bytes t p) fs))"
  by (induction fs arbitrary: w) (auto simp: WriteFrameRaw_append)

lemma read_frames_append:
  "\<forall>(t, p) \<in> set fs. length p + MinFrameLength \<le> unat maxFrameSize
     \<Longrightarrow> read_frames (length fs) \<lparr>pending = concat (map (\<lambda>(t, p). frame_bytes t p) fs) @ r, ending = e\<rparr> maxFrameSize
       = ((map (\<lambda>(t, p). frame_of t p) fs, None), \<lparr>pending = r, ending = e\<rparr>)"
  by (induction fs) (auto simp: ReadFrame_frame)

text \<open>A stream of frames is read back as it was written: for messages within the receiver's
  frame size, writing them one after the other to a writer that keeps every byte and reading the
  same number of frames gives their types and payloads in order and leaves the rest of the stream
  untouched. Where the stream ends early, the frame that is cut is an error and never a frame.\<close>

theorem frames_roundtrip:
  assumes "\<forall>(t, p) \<in> set fs. length p + MinFrameLength \<le> unat (maxFrameSize :: u32)"
  shows "\<exists>stream. write_frames append_Write fs w = (None, w @ stream)
    \<and> (\<forall>r e. read_frames (length fs) \<lparr>pending = stream @ r, ending = e\<rparr> maxFrameSize
         = ((map (\<lambda>(t, p). frame_of t p) fs, None), \<lparr>pending = r, ending = e\<rparr>))
    \<and> (\<forall>t p k. length p + MinFrameLength \<le> unat maxFrameSize \<longrightarrow> k < length (frame_bytes t p) \<longrightarrow>
         read_frames (Suc (length fs)) \<lparr>pending = stream @ take k (frame_bytes t p), ending = EOF\<rparr> maxFrameSize
           = ((map (\<lambda>(t, p). frame_of t p) fs, Some (IO (if k = 0 \<or> k = 4 then EOF else ErrUnexpectedEOF))),
              \<lparr>pending = [], ending = EOF\<rparr>))"
proof -
  let ?stream = "concat (map (\<lambda>(t, p). frame_bytes t p) fs)"
  have cut: "read_frames (Suc (length gs)) \<lparr>pending = concat (map (\<lambda>(t, p). frame_bytes t p) gs)
        @ take k (frame_bytes t p), ending = EOF\<rparr> maxFrameSize
      = ((map (\<lambda>(t, p). frame_of t p) gs, Some (IO (if k = 0 \<or> k = 4 then EOF else ErrUnexpectedEOF))),
         \<lparr>pending = [], ending = EOF\<rparr>)"
    if "set gs \<subseteq> set fs" "length p + MinFrameLength \<le> unat maxFrameSize" "k < length (frame_bytes t p)" for gs t p k
    using that(1)
  proof (induction gs)
    case Nil
    then show ?case using ReadFrame_cut [OF that(2,3)] by simp
  next
    case (Cons g gs)
    then show ?case using assms by (cases g) (auto simp: ReadFrame_frame)
  qed
  have "length p + MinFrameLength < 2 ^ 32" if "(t, p) \<in> set fs" for t p
    using assms that unat_bound [of maxFrameSize] by fastforce
  then have "write_frames append_Write fs w = (None, w @ ?stream)"
    by (intro write_frames_append) auto
  then show ?thesis
    by (intro exI [of _ ?stream] conjI allI impI)
      (assumption, rule read_frames_append [OF assms], rule cut [OF subset_refl])
qed

theorem frames_roundtrip_witness:
  "\<exists>stream. write_frames append_Write [(0x08, [0x81, 0xa1, 0x72, 0xc3]), (0x01, [])] [] = (None, stream)
     \<and> read_frames 2 \<lparr>pending = stream, ending = EOF\<rparr> DefaultMaxFrameSize
       = (([frame_of 0x08 [0x81, 0xa1, 0x72, 0xc3], frame_of 0x01 []], None), \<lparr>pending = [], ending = EOF\<rparr>)"
proof -
  have "\<forall>(t, p) \<in> set [(0x08, [0x81, 0xa1, 0x72, 0xc3]), (0x01, [])].
      length p + MinFrameLength \<le> unat DefaultMaxFrameSize" for t :: u8
    by (simp add: MinFrameLength_def DefaultMaxFrameSize_def)
  from frames_roundtrip [OF this, of "[]"] obtain stream where
    "write_frames append_Write [(0x08, [0x81, 0xa1, 0x72, 0xc3]), (0x01, [])] [] = (None, [] @ stream)"
    "read_frames (length [(0x08 :: u8, [0x81, 0xa1, 0x72, 0xc3 :: byte]), (0x01, [])]) \<lparr>pending = stream @ [], ending = EOF\<rparr> DefaultMaxFrameSize
      = ((map (\<lambda>(t, p). frame_of t p) [(0x08, [0x81, 0xa1, 0x72, 0xc3]), (0x01, [])], None),
         \<lparr>pending = [], ending = EOF\<rparr>)" by blast
  then show ?thesis by (intro exI [of _ stream]) (simp add: numeral_2_eq_2)
qed

text \<open>C20. Damage to a frame is detected: when the checksum field of a frame is changed, or when at
  most four consecutive bytes of the checksummed bytes (message type and payload) are changed, the
  reader reports a checksum mismatch, hands out no payload, and continues at the next frame.\<close>

theorem corrupted_frames_rejected:
  assumes "length p + MinFrameLength \<le> unat maxFrameSize"
    and "t # p = xs @ w @ ys" "t' # p' = xs @ w' @ ys" "length w' = length w" "length w \<le> 4"
    and "w' \<noteq> w \<and> crc = computeCRC32C t p \<or> w' = w \<and> crc \<noteq> computeCRC32C t p"
  shows "\<exists>f. ReadFrame \<lparr>pending = PutUint32BE (of_nat (length p + MinFrameLength)) @ t' # PutUint32BE crc @ p' @ r,
        ending = e\<rparr> maxFrameSize = ((f, Some ErrCRCMismatch), \<lparr>pending = r, ending = e\<rparr>)
    \<and> Payload f = [] \<and> ReceivedCRC f = crc \<and> ComputedCRC f = computeCRC32C t' p'"
proof -
  have "length (t # p) = length (t' # p')" unfolding assms(2,3) using assms(4) by simp
  then have len: "length p = length p'" by simp
  have "crc \<noteq> computeCRC32C t' p'"
    using assms(6)
  proof (elim disjE conjE)
    assume "w' \<noteq> w" "crc = computeCRC32C t p"
    then show ?thesis
      using castagnoli.burst_changes_checksum [of w w' xs ys] assms(4,5)
      unfolding computeCRC32C_eq assms(2,3) by simp
  next
    assume "w' = w" "crc \<noteq> computeCRC32C t p"
    then show ?thesis unfolding computeCRC32C_eq assms(2,3) by simp
  qed
  then show ?thesis
    using ReadFrame_body [of p' maxFrameSize t' crc r e] assms(1) unfolding len
    by (simp add: zero_frame_def)
qed

theorem corrupted_frames_rejected_witness:
  "\<exists>f. ReadFrame \<lparr>pending = PutUint32BE 6 @ 0x01 # PutUint32BE (computeCRC32C 0x01 [0x80]) @ [0x81],
        ending = EOF\<rparr> DefaultMaxFrameSize = ((f, Some ErrCRCMismatch), \<lparr>pending = [], ending = EOF\<rparr>)"
  using corrupted_frames_rejected [of "[0x80]" DefaultMaxFrameSize "0x01" "[0x01]" "[0x80]" "[]" "0x01" "[0x81]"
      "[0x81]" "computeCRC32C 0x01 [0x80]" "[]" EOF]
  by (auto simp: MinFrameLength_def DefaultMaxFrameSize_def)

section \<open>Message round trip\<close>

text \<open>The fields that the codec writes for a message, from the field tags of its struct: a field
  with \<^verbatim>\<open>omitempty\<close> is left out when it is zero or empty, integers, texts, floats and
  booleans have their format, a byte slice is binary and nil is nil.\<close>

definition optional :: "bool \<Rightarrow> 'a \<Rightarrow> 'a list" where
  "optional present x = (if present then [x] else [])"

definition is_empty :: "bytes option \<Rightarrow> bool" where
  "is_empty x = (case x of None \<Rightarrow> True | Some b \<Rightarrow> b = [])"

fun struct_fields :: "message \<Rightarrow> (string \<times> fieldKind) list" where
  "struct_fields (StreamHeader _ _ p) =
     [(''src'', stringField), (''dst'', stringField)] @ optional (p \<noteq> 0) (''p'', integerField)"
| "struct_fields (SessionHandshake _ _ _ _ lp) =
     [(''v'', integerField), (''min_v'', integerField), (''f'', integerField), (''n'', stringField)]
       @ optional (lp \<noteq> 0) (''lp'', integerField)"
| "struct_fields (DataRecord k v _ h) =
     optional (\<not> is_empty k) (''k'', nullableBinaryField)
       @ [(''v'', case v of None \<Rightarrow> nullableBinaryField | Some _ \<Rightarrow> binaryField), (''t'', integerField)]
       @ optional (h \<noteq> [])
           (''h'', if list_ex (\<lambda>(_, x). x = None) h then unknownField else headersField)"
| "struct_fields (CheckpointBarrier _ _ _) =
     [(''c'', integerField), (''e'', integerField), (''ts'', integerField)]"
| "struct_fields (Watermark _ _) = [(''t'', integerField), (''s'', stringField)]"
| "struct_fields (EndOfPartition _ _) = [(''s'', stringField), (''r'', integerField)]"
| "struct_fields (Backpressure _ _ usage) =
     [(''id'', integerField), (''st'', integerField)] @ optional (usage \<noteq> Finite 0) (''bu'', floatField)"
| "struct_fields (SessionDrain _) = [(''r'', boolField)]"

definition struct_encoding :: "message \<Rightarrow> bytes \<Rightarrow> bool" where
  "struct_encoding m bs \<longleftrightarrow>
     (\<exists>h fs. map_header (length fs) h
        \<and> (\<forall>(kh, k, v) \<in> set fs. str_header (length k) kh
             \<and> (\<exists>name kind. (name, kind) \<in> set (struct_fields m) \<and> k = utf8 name \<and> has_format kind v))
        \<and> mset (map (\<lambda>(_, k, _). k) fs) = mset (map (\<lambda>(name, _). utf8 name) (struct_fields m))
        \<and> bs = h @ concat (map (\<lambda>(kh, k, v). kh @ k @ v) fs))"

text \<open>The message that arrives: nil values have become empty ones, and a key that was empty is
  nil.\<close>

fun received :: "message \<Rightarrow> message" where
  "received (DataRecord k v t h) =
     DataRecord (if is_empty k then None else k) (non_nil v) t (map (\<lambda>(n, x). (n, non_nil x)) h)"
| "received m = m"

fun sendable :: "message \<Rightarrow> bool" where
  "sendable (EndOfPartition _ reason) = (reason \<le> EndReasonError)"
| "sendable (Backpressure _ st usage) = (st \<le> BackpressurePause \<and> \<not> invalid_usage usage)"
| "sendable _ = True"

fun canonical :: "message \<Rightarrow> message" where
  "canonical (DataRecord k v t h) = DataRecord k (non_nil v) t (map (\<lambda>(n, x). (n, non_nil x)) h)"
| "canonical m = m"

lemma canonicalMessage_eq: "canonicalMessage (Msg m) = Msg (canonical m)"
proof (cases m)
  case (DataRecord k v t h)
  have same: "map (\<lambda>(n, x). (n, non_nil x)) h = h" if "\<not> list_ex (\<lambda>(_, x). x = None) h"
    using that by (induction h) (auto simp: non_nil_def)
  then show ?thesis
    using DataRecord
    by (auto simp: canonicalMessage_def needsCanonicalRecord_def canonicalRecord_def non_nil_def)
qed (simp_all add: canonicalMessage_def)

lemma type_of_canonical [simp]: "type_of (canonical m) = type_of m"
  by (cases m) simp_all

lemma utf8_eq: "utf8 s = utf8 t \<longleftrightarrow> s = t"
  using utf8_inject by blast

text \<open>The fields of a canonical message have the kinds that the receiver checks, and include the
  required ones.\<close>

lemma canonical_kinds:
  "(name, kind) \<in> set (struct_fields (canonical m)) \<Longrightarrow> messageFieldKind (type_of m) (utf8 name) = kind"
proof (cases m)
  case (DataRecord k v t h)
  moreover have "\<not> list_ex (\<lambda>(_, x). x = None) (map (\<lambda>(n, x). (n, non_nil x)) h)"
    by (auto simp: list_ex_iff non_nil_def split: option.splits)
  moreover assume "(name, kind) \<in> set (struct_fields (canonical m))"
  ultimately show ?thesis
    by (auto simp: optional_def messageFieldKind_def utf8_eq non_nil_def split: if_splits option.splits)
qed (auto simp: optional_def messageFieldKind_def utf8_eq split: if_splits)

lemma canonical_required:
  "name \<in> set (required_fields (type_of m)) \<Longrightarrow>
   occurrences name (map (\<lambda>(name, _). utf8 name) (struct_fields m)) = 1"
  by (cases m) (auto simp: required_fields_def optional_def utf8_eq)

lemma occurrences_mset: "mset ks = mset ks' \<Longrightarrow> occurrences name ks = occurrences name ks'"
  unfolding occurrences_def by (metis mset_filter size_mset)

lemma struct_encoding_well_formed:
  assumes "struct_encoding (canonical m) bs"
  shows "well_formed (type_of m) bs"
proof -
  obtain h fs where fs: "map_header (length fs) h"
    "\<forall>(kh, k, v) \<in> set fs. str_header (length k) kh
       \<and> (\<exists>name kind. (name, kind) \<in> set (struct_fields (canonical m)) \<and> k = utf8 name \<and> has_format kind v)"
    "mset (map (\<lambda>(_, k, _). k) fs) = mset (map (\<lambda>(name, _). utf8 name) (struct_fields (canonical m)))"
    "bs = h @ concat (map (\<lambda>(kh, k, v). kh @ k @ v) fs)"
    using assms unfolding struct_encoding_def by (elim exE conjE) (rule that)
  have "\<forall>(kh, k, v) \<in> set fs. str_header (length k) kh \<and> has_format (messageFieldKind (type_of m) k) v"
    using fs(2) canonical_kinds [of _ _ m] by fastforce
  moreover have "\<forall>name \<in> set (required_fields (type_of m)). occurrences name (map (\<lambda>(_, k, _). k) fs) = 1"
    using occurrences_mset [OF fs(3)] canonical_required [of _ "canonical m"] by simp
  ultimately show ?thesis unfolding well_formed_def using fs(1,4) by blast
qed

lemma encode_chunks_fit:
  "length (buffer b) + length (concat ps) \<le> limit b
     \<Longrightarrow> encode_chunks ps b = (True, b\<lparr>buffer := buffer b @ concat ps\<rparr>)"
  by (induction ps arbitrary: b) (simp_all add: payloadBuffer_Write_def)

lemma encode_chunks_exceed:
  "length (buffer b) \<le> limit b \<Longrightarrow> length (buffer b) + length (concat ps) > limit b
     \<Longrightarrow> \<exists>b'. encode_chunks ps b = (False, b') \<and> exceeded b'"
  by (induction ps arbitrary: b) (auto simp: payloadBuffer_Write_def)

lemma encode_prefix:
  assumes "codec_Encode c (canonicalMessage v) = (chunks, False)"
  shows "encodeMsgPackPrefix c v bound n =
    (if length (concat chunks) \<le> unat bound then Inr (replicate n 0 @ concat chunks)
     else Inl ErrFrameTooLarge)"
proof (cases "length (concat chunks) \<le> unat bound")
  case True
  then show ?thesis
    using assms encode_chunks_fit [of "\<lparr>buffer = replicate n 0, limit = unat bound + n, exceeded = False\<rparr>" chunks]
    by (simp add: encodeMsgPackPrefix_def)
next
  case False
  then show ?thesis
    using assms encode_chunks_exceed [of "\<lparr>buffer = replicate n 0, limit = unat bound + n, exceeded = False\<rparr>" chunks]
    by (auto simp: encodeMsgPackPrefix_def)
qed

lemma well_formed_map:
  assumes "well_formed t data"
  shows "data \<noteq> []" "\<not> ((data ! 0 < 0x80 \<or> data ! 0 > 0x8f) \<and> data ! 0 \<noteq> 0xde \<and> data ! 0 \<noteq> 0xdf)"
    "data \<noteq> [0xc0]"
proof -
  obtain h n r where "map_header n h" "data = h @ r"
    using assms unfolding well_formed_def by blast
  then obtain b rest where data: "data = b # rest"
    and b: "128 \<le> unat b \<and> unat b < 144 \<or> 222 \<le> unat b \<and> unat b < 224"
    using first_bytes(5) by fastforce
  have "b = 0xde \<longleftrightarrow> unat b = 222" "b = 0xdf \<longleftrightarrow> unat b = 223" "b = 0xc0 \<longleftrightarrow> unat b = 192"
    by (simp_all add: word_unat_eq_iff)
  with data b show "data \<noteq> []" "\<not> ((data ! 0 < 0x80 \<or> data ! 0 > 0x8f) \<and> data ! 0 \<noteq> 0xde \<and> data ! 0 \<noteq> 0xdf)"
    "data \<noteq> [0xc0]"
    by (auto simp: word_less_nat_alt)
qed

lemma decode_accepts:
  assumes "well_formed t data" "codec_Decode c t data = Some (m, length data)" "sendable m"
  shows "decodeFramePayload c t data = Inr m"
  using well_formed_map [OF assms(1)] assms
  by (cases m) (simp_all add: decodeFramePayload_def payload_check_exact not_less)

lemma DecodePayload_type: "DecodePayload c (frame_of (msgType t) p) = decodeFramePayload c t p"
  by (cases t) (simp_all add: DecodePayload_def frame_of_def zero_frame_def msgType_def)

lemma sendable_received [simp]: "sendable (received m) = sendable m" "type_of (received m) = type_of m"
  by (cases m; simp)+

text \<open>What a codec must do for a message: encode its canonical form as a map of its struct fields,
  and decode these bytes to the message.\<close>

definition encoding :: "codec \<Rightarrow> message \<Rightarrow> bytes" where
  "encoding c m = concat (fst (codec_Encode c (Msg (canonical m))))"

definition codec_carries :: "codec \<Rightarrow> message \<Rightarrow> bool" where
  "codec_carries c m \<longleftrightarrow>
     \<not> snd (codec_Encode c (Msg (canonical m))) \<and> struct_encoding (canonical m) (encoding c m)
     \<and> codec_Decode c (type_of m) (encoding c m) = Some (received m, length (encoding c m))"

lemma send_room:
  assumes "MinFrameLength \<le> unat maxFrameSize"
  shows "(of_nat MinFrameLength :: u32) \<le> maxFrameSize"
    and "unat (maxFrameSize - of_nat MinFrameLength) = unat maxFrameSize - MinFrameLength"
proof -
  show five: "(of_nat MinFrameLength :: u32) \<le> maxFrameSize"
    using assms unat_of_length [of MinFrameLength] by (simp add: word_le_nat_alt MinFrameLength_def)
  show "unat (maxFrameSize - of_nat MinFrameLength) = unat maxFrameSize - MinFrameLength"
    using unat_sub [OF five] unat_of_length [of MinFrameLength] by (simp add: MinFrameLength_def)
qed

lemma carried_prefix:
  "codec_carries c m \<Longrightarrow> encodeMsgPackPrefix c (Msg m) bound n =
    (if length (encoding c m) \<le> unat bound then Inr (replicate n 0 @ encoding c m)
     else Inl ErrFrameTooLarge)"
  unfolding encoding_def
  by (rule encode_prefix) (auto simp: codec_carries_def canonicalMessage_eq prod_eq_iff)

lemma message_sent:
  assumes "codec_carries c m" "length (encoding c m) + MinFrameLength \<le> unat maxFrameSize"
  shows "EncodeAndWriteFrameLimit c append_Write (Msg m) maxFrameSize w
    = (None, w @ frame_bytes (msgType (type_of m)) (encoding c m))"
proof -
  have "MinFrameLength \<le> unat maxFrameSize" using assms(2) by linarith
  note room = send_room [OF this]
  have "encoding c m \<noteq> [0xc0]"
    using assms(1) struct_encoding_well_formed well_formed_map(3) by (auto simp: codec_carries_def)
  then show ?thesis
    using assms(2) room
    by (simp add: EncodeAndWriteFrameLimit_def carried_prefix [OF assms(1)] not_less frame_bytes_def Let_def)
qed

lemma message_decoded:
  assumes "codec_carries c m" "sendable m"
  shows "DecodePayload c (frame_of (msgType (type_of m)) (encoding c m)) = Inr (received m)"
proof -
  have "well_formed (type_of m) (encoding c m)"
    using assms(1) struct_encoding_well_formed by (simp add: codec_carries_def)
  then show ?thesis
    unfolding DecodePayload_type
    by (rule decode_accepts) (use assms in \<open>simp_all add: codec_carries_def\<close>)
qed

text \<open>C18. A message arrives as it was sent. Assume a codec that encodes the canonical form of the
  message as a MessagePack map of its struct fields and decodes these bytes to the message (with an
  absent key for an empty one). If the encoding fits the frame size, the sender writes one frame,
  and the receiver reads exactly that frame and decodes the message; in particular the structural
  check accepts every message that may be sent, and nil values do not break it. If the encoding
  does not fit, the sender reports so and writes nothing.\<close>

theorem message_roundtrip:
  assumes "codec_carries c m" "sendable m" "MinFrameLength \<le> unat maxFrameSize"
  shows "if length (encoding c m) + MinFrameLength \<le> unat maxFrameSize
    then \<exists>frame. EncodeAndWriteFrameLimit c append_Write (Msg m) maxFrameSize w = (None, w @ frame)
      \<and> (\<forall>r e. \<exists>f. ReadFrame \<lparr>pending = frame @ r, ending = e\<rparr> maxFrameSize
            = ((f, None), \<lparr>pending = r, ending = e\<rparr>) \<and> DecodePayload c f = Inr (received m))
    else \<forall>W w. EncodeAndWriteFrameLimit c W (Msg m) maxFrameSize w = (Some ErrFrameTooLarge, w)"
proof (cases "length (encoding c m) + MinFrameLength \<le> unat maxFrameSize")
  case True
  then show ?thesis
    using message_sent [OF assms(1) True] message_decoded [OF assms(1,2)] ReadFrame_frame [OF True] by auto
next
  case False
  then have "\<not> length (encoding c m) \<le> unat maxFrameSize - MinFrameLength" using assms(3) by linarith
  with False show ?thesis
    using send_room [OF assms(3)]
    by (simp add: EncodeAndWriteFrameLimit_def carried_prefix [OF assms(1)] not_less)
qed

text \<open>A codec for one message, the request to drain a session.\<close>

definition drain_codec :: codec where
  "drain_codec =
     \<lparr>codec_Encode = (\<lambda>_. ([[0x81], [0xa1, 0x72], [0xc3]], False)),
      codec_Decode = (\<lambda>_ data. Some (SessionDrain True, length data))\<rparr>"

lemma drain_encoding: "struct_encoding (SessionDrain True) [0x81, 0xa1, 0x72, 0xc3]"
proof -
  have "(of_char CHR ''r'' :: byte) = 0x72" by simp
  then have name: "utf8 ''r'' = [0x72]" by (simp add: utf8_def)
  have "str_header 1 [0xa1]" "map_header 1 [0x81]" "has_format boolField [0xc3]"
    by (simp_all add: str_header_def map_header_def format_kinds)
  then show ?thesis
    unfolding struct_encoding_def
    by (intro exI [of _ "[0x81]"] exI [of _ "[([0xa1], [0x72], [0xc3])]"]) (simp add: name)
qed

theorem message_roundtrip_witness:
  "\<exists>frame. EncodeAndWriteFrameLimit drain_codec append_Write (Msg (SessionDrain True)) DefaultMaxFrameSize [] = (None, frame)
     \<and> (\<exists>f. ReadFrame \<lparr>pending = frame, ending = EOF\<rparr> DefaultMaxFrameSize = ((f, None), \<lparr>pending = [], ending = EOF\<rparr>)
          \<and> DecodePayload drain_codec f = Inr (SessionDrain True))"
proof -
  have "codec_carries drain_codec (SessionDrain True)" "sendable (SessionDrain True)"
    "MinFrameLength \<le> unat DefaultMaxFrameSize"
    using drain_encoding
    by (simp_all add: codec_carries_def encoding_def drain_codec_def MinFrameLength_def DefaultMaxFrameSize_def)
  note roundtrip = message_roundtrip [OF this, of "[]"]
  have fits: "length (encoding drain_codec (SessionDrain True)) + MinFrameLength \<le> unat DefaultMaxFrameSize"
    by (simp add: encoding_def drain_codec_def MinFrameLength_def DefaultMaxFrameSize_def)
  from roundtrip [unfolded if_P [OF fits]] obtain frame where
    "EncodeAndWriteFrameLimit drain_codec append_Write (Msg (SessionDrain True)) DefaultMaxFrameSize [] = (None, [] @ frame)"
    "\<forall>r e. \<exists>f. ReadFrame \<lparr>pending = frame @ r, ending = e\<rparr> DefaultMaxFrameSize
       = ((f, None), \<lparr>pending = r, ending = e\<rparr>) \<and> DecodePayload drain_codec f = Inr (received (SessionDrain True))"
    by blast
  moreover from this(2) [THEN spec [of _ "[]"], THEN spec [of _ EOF]]
  have "\<exists>f. ReadFrame \<lparr>pending = frame, ending = EOF\<rparr> DefaultMaxFrameSize = ((f, None), \<lparr>pending = [], ending = EOF\<rparr>)
      \<and> DecodePayload drain_codec f = Inr (SessionDrain True)" by simp
  ultimately show ?thesis by (intro exI [of _ frame]) simp
qed

end
