(* ===== verification/Frame_Stream.thy ===== *)
theory Frame_Stream
  imports Wire_Frame
begin

text \<open>
  Message streams over frames (\<^verbatim>\<open>internal/transport/stream.go\<close>, \<^verbatim>\<open>rejection.go\<close>,
  \<^verbatim>\<open>checkpoint_progress.go\<close>, and the negotiation and routing checks of
  \<^verbatim>\<open>session_handshake.go\<close> and \<^verbatim>\<open>data_stream.go\<close>): what a receiver makes of the bytes on a
  stream, what a sender may put on it, and what two peers agree on.

  The state of a \<^verbatim>\<open>FrameStream\<close> is a record; its locks and the deadlines and log lines are
  left out. A read works on the bytes the peer has sent; a read that would block is one whose
  stream has not ended yet, so it is not a step here. The completed checkpoint that a job's reader
  reports while a stream is read is the argument \<open>observe\<close>, a function of the bytes that are still
  unread: these differ at every frame, so it may answer differently each time. While a sender is
  paused it waits; the outcomes of its waits are the list of \<open>wake\<close> values.
\<close>

section \<open>State\<close>

datatype stream_error =
  Wire wire_error | CRCErrors | DecodeErrors | InvalidMessage | StreamClosed | TargetTaskRejected string
| ReceiveOnly | NotPermitted | Canceled | PausedSenderLost | SessionClosed

record FrameStream =
  fs_done :: bool
  fs_ended :: bool
  fs_sender :: bool
  managedSender :: bool
  fs_header :: "(string \<times> string \<times> u16) option"
  fs_failure :: "stream_error option"
  consecutiveCRCErrors :: int
  consecutiveDecErrors :: int
  lastWatermarks :: "(string, int) gomap"
  lastCompletedCheckpoint :: u64
  senderRead :: "(stream_error + message) option"
  senderReadDelivered :: bool

definition NewFrameStream :: FrameStream where
  "NewFrameStream =
     \<lparr>fs_done = False, fs_ended = False, fs_sender = False, managedSender = False, fs_header = None,
      fs_failure = None, consecutiveCRCErrors = 0, consecutiveDecErrors = 0, lastWatermarks = [],
      lastCompletedCheckpoint = 0, senderRead = None, senderReadDelivered = False\<rparr>"

definition fs_Close :: "FrameStream \<Rightarrow> FrameStream" where
  "fs_Close fs = fs\<lparr>fs_done := True\<rparr>"

definition closedError :: "FrameStream \<Rightarrow> stream_error" where
  "closedError fs = (case fs_failure fs of Some err \<Rightarrow> err | None \<Rightarrow> StreamClosed)"

definition MaxConsecutiveCRCErrors :: int where "MaxConsecutiveCRCErrors = 10"
definition MaxConsecutiveDecodeErrors :: int where "MaxConsecutiveDecodeErrors = 10"

definition MarkCheckpointCompleted :: "u64 \<Rightarrow> FrameStream \<Rightarrow> FrameStream" where
  "MarkCheckpointCompleted checkpointID fs =
     fs\<lparr>lastCompletedCheckpoint := max (lastCompletedCheckpoint fs) checkpointID\<rparr>"

definition IsCheckpointCompleted :: "u64 option \<Rightarrow> FrameStream \<Rightarrow> u64 \<Rightarrow> bool" where
  "IsCheckpointCompleted reader fs checkpointID =
     (let completed = (case reader of
            None \<Rightarrow> lastCompletedCheckpoint fs
          | Some c \<Rightarrow> max (lastCompletedCheckpoint fs) c)
      in checkpointID \<noteq> 0 \<and> checkpointID \<le> completed)"

section \<open>Receiving\<close>

text \<open>One round of the read loop: what it does with a frame or an error of \<^verbatim>\<open>readFrame\<close>. None
  is \<^verbatim>\<open>continue\<close>.\<close>

definition read_error ::
  "bool \<Rightarrow> wire_error \<Rightarrow> FrameStream \<Rightarrow> (stream_error + message) option \<times> FrameStream" where
  "read_error closeOnEOF err fs =
     (if err = ErrCRCMismatch
      then (let fs1 = fs\<lparr>consecutiveCRCErrors := consecutiveCRCErrors fs + 1, consecutiveDecErrors := 0\<rparr>
            in if consecutiveCRCErrors fs1 \<ge> MaxConsecutiveCRCErrors
               then (Some (Inl CRCErrors), fs_Close fs1)
               else (None, fs1))
      else (Some (Inl (Wire err)), if closeOnEOF \<or> err \<noteq> IO EOF then fs_Close fs else fs))"

definition valid_on_stream :: "Frame \<Rightarrow> message \<Rightarrow> FrameStream \<Rightarrow> bool" where
  "valid_on_stream frame decoded fs =
     (if fs_header fs = None then True
      else if fs_sender fs
      then (case decoded of EndOfPartition _ reason \<Rightarrow> reason = EndReasonError | _ \<Rightarrow> False)
      else MsgType frame \<ge> 0x01 \<and> MsgType frame \<le> 0x04)"

text \<open>A watermark below the last one of its source is dropped.\<close>

definition note_watermark :: "message \<Rightarrow> FrameStream \<Rightarrow> FrameStream option" where
  "note_watermark decoded fs =
     (case decoded of
        Watermark timestamp source \<Rightarrow>
          (case map_of (lastWatermarks fs) source of
             Some newest \<Rightarrow>
               (if timestamp < newest then None
                else Some (fs\<lparr>lastWatermarks := AList.update source timestamp (lastWatermarks fs)\<rparr>))
           | None \<Rightarrow> Some (fs\<lparr>lastWatermarks := AList.update source timestamp (lastWatermarks fs)\<rparr>))
      | _ \<Rightarrow> Some fs)"

definition note_end :: "message \<Rightarrow> FrameStream \<Rightarrow> FrameStream" where
  "note_end decoded fs =
     (case decoded of
        EndOfPartition _ _ \<Rightarrow>
          fs_Close (fs\<lparr>fs_ended := True,
            fs_failure := (if managedSender fs
              then Some (TargetTaskRejected (case fs_header fs of Some (_, target, _) \<Rightarrow> target | None \<Rightarrow> ''''))
              else fs_failure fs)\<rparr>)
      | _ \<Rightarrow> fs)"

definition read_decoded ::
  "u64 option \<Rightarrow> Frame \<Rightarrow> message \<Rightarrow> FrameStream \<Rightarrow> (stream_error + message) option \<times> FrameStream" where
  "read_decoded completed frame decoded fs =
     (if \<not> valid_on_stream frame decoded fs then (Some (Inl InvalidMessage), fs_Close fs)
      else
        let fs1 = fs\<lparr>consecutiveCRCErrors := 0, consecutiveDecErrors := 0\<rparr>
        in if fs_ended fs1 then (Some (Inl (Wire (IO EOF))), fs1)
           else if (case decoded of CheckpointBarrier c _ _ \<Rightarrow> IsCheckpointCompleted completed fs1 c | _ \<Rightarrow> False)
           then (None, fs1)
           else case note_watermark decoded fs1 of
             None \<Rightarrow> (None, fs1)
           | Some fs2 \<Rightarrow> (Some (Inr decoded), note_end decoded fs2))"

definition read_frame ::
  "codec \<Rightarrow> u64 option \<Rightarrow> Frame \<Rightarrow> FrameStream \<Rightarrow> (stream_error + message) option \<times> FrameStream" where
  "read_frame c completed frame fs =
     (let fs1 = fs\<lparr>consecutiveCRCErrors := 0\<rparr>
      in case DecodePayload c frame of
           Inl err \<Rightarrow>
             (if err = ErrUnknownMsgType then (None, fs1\<lparr>consecutiveDecErrors := 0\<rparr>)
              else let fs2 = fs1\<lparr>consecutiveDecErrors := consecutiveDecErrors fs1 + 1\<rparr>
                   in if consecutiveDecErrors fs2 \<ge> MaxConsecutiveDecodeErrors
                      then (Some (Inl DecodeErrors), fs_Close fs2)
                      else (None, fs2))
         | Inr decoded \<Rightarrow> read_decoded completed frame decoded fs1)"

definition read_round ::
  "codec \<Rightarrow> bool \<Rightarrow> u64 option \<Rightarrow> Frame \<times> wire_error option \<Rightarrow> FrameStream
     \<Rightarrow> (stream_error + message) option \<times> FrameStream" where
  "read_round c closeOnEOF completed result fs =
     (case result of
        (_, Some err) \<Rightarrow> read_error closeOnEOF err fs
      | (frame, None) \<Rightarrow> read_frame c completed frame fs)"

text \<open>Every frame that the loop goes on after has been taken off the stream, so the loop ends.\<close>

lemma ReadFull_shrinks:
  "io_ReadFull n r = (Inr b, r') \<Longrightarrow> length (pending r) = n + length (pending r')"
  by (auto simp: io_ReadFull_def split: if_splits)

lemma ReadFrame_shrinks:
  assumes "ReadFrame r maxFrameSize = ((f, e), r')" "e = None \<or> e = Some ErrCRCMismatch"
  shows "length (pending r') < length (pending r)"
proof (cases "io_ReadFull 4 r")
  case (Pair a r1)
  show ?thesis
  proof (cases a)
    case (Inl err)
    then show ?thesis using assms Pair by (auto simp: ReadFrame_def)
  next
    case (Inr lenBuf)
    obtain x r2 where body: "io_ReadFull (unat (Uint32BE lenBuf)) r1 = (x, r2)" by (meson surj_pair)
    then have "length (pending r2) \<le> length (pending r1)"
      by (auto simp: io_ReadFull_def split: if_splits)
    then show ?thesis
      using assms Pair Inr body ReadFull_shrinks [of 4 r lenBuf r1]
      by (auto simp: ReadFrame_def Let_def split: if_splits sum.splits)
  qed
qed

lemma read_round_again:
  "read_round c closeOnEOF completed (f, e) fs = (None, fs') \<Longrightarrow> e = None \<or> e = Some ErrCRCMismatch"
  by (auto simp: read_round_def read_error_def split: option.splits if_splits)

function read_loop ::
  "codec \<Rightarrow> bool \<Rightarrow> (bytes \<Rightarrow> u64 option) \<Rightarrow> u32 \<Rightarrow> FrameStream \<Rightarrow> reader
     \<Rightarrow> (stream_error + message) \<times> FrameStream \<times> reader" where
  "read_loop c closeOnEOF observe maxFrameSize fs r =
     (case ReadFrame r maxFrameSize of
        (result, r') \<Rightarrow>
          (case read_round c closeOnEOF (observe (pending r')) result fs of
             (Some outcome, fs') \<Rightarrow> (outcome, fs', r')
           | (None, fs') \<Rightarrow> read_loop c closeOnEOF observe maxFrameSize fs' r'))"
  by pat_completeness auto
termination
proof (relation "measure (\<lambda>(_, _, _, _, _, r). length (pending r))", simp)
  fix c closeOnEOF observe maxFrameSize fs r result r' x fs'
  assume "(result, r') = ReadFrame r maxFrameSize"
    and "(x, fs') = read_round c closeOnEOF (observe (pending r')) result fs" and "x = None"
  then show "((c, closeOnEOF, observe, maxFrameSize, fs', r'), c, closeOnEOF, observe, maxFrameSize, fs, r)
      \<in> measure (\<lambda>(_, _, _, _, _, r). length (pending r))"
    using read_round_again [of c closeOnEOF "observe (pending r')" "fst result" "snd result" fs fs']
      ReadFrame_shrinks [of r maxFrameSize "fst result" "snd result" r'] by auto
qed

declare read_loop.simps [simp del]

definition readMessage ::
  "codec \<Rightarrow> bool \<Rightarrow> (bytes \<Rightarrow> u64 option) \<Rightarrow> u32 \<Rightarrow> FrameStream \<Rightarrow> reader
     \<Rightarrow> (stream_error + message) \<times> FrameStream \<times> reader" where
  "readMessage c closeOnEOF observe maxFrameSize fs r =
     (if fs_done fs then (Inl (Wire (IO EOF)), fs, r)
      else if fs_ended fs then (Inl (Wire (IO EOF)), fs, r)
      else read_loop c closeOnEOF observe maxFrameSize fs r)"

text \<open>A managed sender has one reader for the reverse direction, which keeps its result.\<close>

definition watchRejection ::
  "codec \<Rightarrow> (bytes \<Rightarrow> u64 option) \<Rightarrow> u32 \<Rightarrow> FrameStream \<Rightarrow> reader \<Rightarrow> FrameStream \<times> reader" where
  "watchRejection c observe maxFrameSize fs r =
     (case readMessage c False observe maxFrameSize fs r of
        (outcome, fs1, r1) \<Rightarrow>
          (let fs2 = fs1\<lparr>senderRead := Some outcome,
                 fs_failure := (if outcome = Inl (Wire (IO EOF)) \<and> fs_failure fs1 = None \<and> \<not> fs_ended fs1
                   then Some (Wire (IO ErrUnexpectedEOF)) else fs_failure fs1)\<rparr>
           in (fs_Close fs2, r1)))"

definition readSenderResult :: "(stream_error + message) \<Rightarrow> FrameStream \<Rightarrow> (stream_error + message) \<times> FrameStream" where
  "readSenderResult result fs =
     (if senderReadDelivered fs then (Inl (Wire (IO EOF)), fs)
      else (result, fs\<lparr>senderReadDelivered := True\<rparr>))"

definition ReadMessage ::
  "codec \<Rightarrow> (bytes \<Rightarrow> u64 option) \<Rightarrow> u32 \<Rightarrow> FrameStream \<Rightarrow> reader
     \<Rightarrow> ((stream_error + message) \<times> FrameStream \<times> reader) option" where
  "ReadMessage c observe maxFrameSize fs r =
     (if managedSender fs
      then (case senderRead fs of
              None \<Rightarrow> None
            | Some result \<Rightarrow> (case readSenderResult result fs of (outcome, fs') \<Rightarrow> Some (outcome, fs', r)))
      else Some (readMessage c True observe maxFrameSize fs r))"

section \<open>Sending\<close>

datatype wake = Resumed | SenderReadDone | CtxDone | DoneClosed | SessionGone

definition permitted :: "any_message \<Rightarrow> bool" where
  "permitted msg =
     (case (case msg of Msg m \<Rightarrow> Some (type_of m) | NilMsg t \<Rightarrow> Some t | Foreign \<Rightarrow> None) of
        Some t \<Rightarrow> t \<in> {DataRecordMsg, CheckpointBarrierMsg, WatermarkMsg, EndOfPartitionMsg}
      | None \<Rightarrow> False)"

definition is_end :: "any_message \<Rightarrow> bool" where
  "is_end msg =
     (case msg of Msg m \<Rightarrow> type_of m = EndOfPartitionMsg | NilMsg t \<Rightarrow> t = EndOfPartitionMsg | Foreign \<Rightarrow> False)"

text \<open>The waits of a paused sender; the loop goes round again when it is resumed.\<close>

primrec paused_waits :: "wake list \<Rightarrow> FrameStream \<Rightarrow> stream_error option \<times> FrameStream" where
  "paused_waits [] fs = (if fs_ended fs then Some (closedError fs) else None, fs)"
| "paused_waits (x # xs) fs =
     (if fs_ended fs then (Some (closedError fs), fs)
      else case x of
        Resumed \<Rightarrow> paused_waits xs fs
      | SenderReadDone \<Rightarrow> (Some PausedSenderLost, fs_Close fs)
      | CtxDone \<Rightarrow> (Some Canceled, fs)
      | DoneClosed \<Rightarrow> (Some (closedError fs), fs)
      | SessionGone \<Rightarrow> (Some SessionClosed, fs))"

text \<open>Writing a message. \<open>ctxDone\<close> and \<open>waits\<close> are what the select statements of the code choose, in
  order. When the write itself fails, the code reports the end of the context or joins the reason why
  the stream failed, if there is one; here it is the error of the write.\<close>

definition WriteMessageContext ::
  "codec \<Rightarrow> 'w writer \<Rightarrow> bool \<Rightarrow> wake list \<Rightarrow> u32 \<Rightarrow> any_message \<Rightarrow> FrameStream \<Rightarrow> 'w
     \<Rightarrow> stream_error option \<times> FrameStream \<times> 'w" where
  "WriteMessageContext c W ctxDone waits maxFrameSize msg fs w =
     (if fs_done fs then (Some (closedError fs), fs, w)
      else if ctxDone then (Some Canceled, fs, w)
      else case paused_waits waits fs of
        (Some err, fs1) \<Rightarrow> (Some err, fs1, w)
      | (None, fs1) \<Rightarrow>
          (if fs_header fs1 \<noteq> None \<and> \<not> fs_sender fs1 then (Some ReceiveOnly, fs1, w)
           else if fs_header fs1 \<noteq> None \<and> \<not> permitted msg then (Some NotPermitted, fs1, w)
           else case EncodeAndWriteFrameLimit c W msg maxFrameSize w of
             (Some err, w1) \<Rightarrow> (Some (Wire err), fs_Close fs1, w1)
           | (None, w1) \<Rightarrow>
               (None, if is_end msg then fs_Close (fs1\<lparr>fs_ended := True\<rparr>) else fs1, w1)))"

section \<open>Sessions\<close>

text \<open>The negotiation of a session and the acceptance of a data stream, as far as they depend on
  the frames of the peer: opening streams, deadlines and writes are the arguments.\<close>

record session_config =
  NodeID :: string
  LocalProtocolVersion :: u16
  LocalMinVersion :: u16
  LocalFeatures :: u32
  ListenPort :: u16
  MaxFrameSize :: u32

record NegotiatedParams =
  EffectiveVersion :: u16
  Features :: u32

datatype ctx_state = Live | DeadlineExceeded | CtxCanceled

datatype session_error =
  InvalidLocal | InvalidRemote | HandshakeTimeout | SessionCanceled | Handshake wire_error
| VersionIncompatible | TaskIDsRequired | UnknownTarget string

definition sessionHandshakeError :: "ctx_state \<Rightarrow> (wire_error \<Rightarrow> bool) \<Rightarrow> wire_error \<Rightarrow> session_error" where
  "sessionHandshakeError ctx timed_out err =
     (if ctx = DeadlineExceeded then HandshakeTimeout
      else if ctx = CtxCanceled then SessionCanceled
      else if timed_out err then HandshakeTimeout
      else Handshake err)"

definition local_handshake :: "session_config \<Rightarrow> message" where
  "local_handshake cfg =
     SessionHandshake (LocalProtocolVersion cfg) (LocalMinVersion cfg) (LocalFeatures cfg) (NodeID cfg) (ListenPort cfg)"

definition receive_handshake :: "codec \<Rightarrow> u32 \<Rightarrow> reader \<Rightarrow> wire_error + message" where
  "receive_handshake c maxFrameSize r =
     (case ReadFrame r maxFrameSize of
        ((_, Some err), _) \<Rightarrow> Inl err
      | ((frame, None), _) \<Rightarrow>
          (if MsgType frame \<noteq> 0x07 then Inl ErrHandshakeExpected else DecodePayload c frame))"

text \<open>The write of the local handshake is the argument \<open>send\<close>, the result of the write; the
  initiator writes before it reads the handshake of its peer, the other side after.\<close>

definition NegotiateSession ::
  "codec \<Rightarrow> session_config \<Rightarrow> bool \<Rightarrow> ctx_state \<Rightarrow> (wire_error \<Rightarrow> bool) \<Rightarrow> wire_error option \<Rightarrow> reader
     \<Rightarrow> session_error + NegotiatedParams" where
  "NegotiateSession c cfg initiator ctx timed_out send r =
     (if NodeID cfg = [] \<or> LocalMinVersion cfg = 0 \<or> LocalProtocolVersion cfg < LocalMinVersion cfg
      then Inl InvalidLocal
      else case (if initiator then send else None) of
        Some err \<Rightarrow> Inl (sessionHandshakeError ctx timed_out err)
      | None \<Rightarrow>
          (case receive_handshake c (MaxFrameSize cfg) r of
             Inl err \<Rightarrow> Inl (sessionHandshakeError ctx timed_out err)
           | Inr (SessionHandshake version minVersion features node _) \<Rightarrow>
               (if node = [] \<or> minVersion = 0 \<or> version < minVersion then Inl InvalidRemote
                else
                  let effective = min (LocalProtocolVersion cfg) version;
                      incompatible = effective < LocalMinVersion cfg \<or> effective < minVersion
                  in case (if initiator then None else send) of
                       Some err \<Rightarrow>
                         (if incompatible then Inl VersionIncompatible
                          else Inl (sessionHandshakeError ctx timed_out err))
                     | None \<Rightarrow>
                         (if incompatible then Inl VersionIncompatible
                          else if ctx \<noteq> Live then Inl (sessionHandshakeError ctx timed_out (IO (IOError ''deadline'')))
                          else Inr \<lparr>EffectiveVersion = effective, Features = LocalFeatures cfg AND features\<rparr>))
           | Inr _ \<Rightarrow> Inl (Handshake ErrHandshakeExpected)))"

text \<open>The peer of an accepted stream gets a rejection when its target is unknown: the message is
  the second result.\<close>

definition AcceptDataStream ::
  "codec \<Rightarrow> u32 \<Rightarrow> (wire_error \<Rightarrow> bool) \<Rightarrow> (string \<times> string \<times> u16 \<Rightarrow> bool) option \<Rightarrow> reader
     \<Rightarrow> (session_error + FrameStream) \<times> message option" where
  "AcceptDataStream c maxFrameSize timed_out targetExists r =
     (case ReadFrame r maxFrameSize of
        ((_, Some err), _) \<Rightarrow> (Inl (sessionHandshakeError Live timed_out err), None)
      | ((frame, None), _) \<Rightarrow>
          (if MsgType frame \<noteq> 0x00 then (Inl (Handshake ErrHandshakeExpected), None)
           else case DecodePayload c frame of
             Inl err \<Rightarrow> (Inl (Handshake err), None)
           | Inr (StreamHeader source target p) \<Rightarrow>
               (if source = [] \<or> target = [] then (Inl TaskIDsRequired, None)
                else if (case targetExists of None \<Rightarrow> True | Some exists \<Rightarrow> \<not> exists (source, target, p))
                then (Inl (UnknownTarget target), Some (EndOfPartition target EndReasonError))
                else (Inr (NewFrameStream\<lparr>fs_header := Some (source, target, p)\<rparr>), None))
           | Inr _ \<Rightarrow> (Inl (Handshake ErrHandshakeExpected), None)))"

section \<open>What a receiver delivers\<close>

text \<open>A reader that reads on until an error.\<close>

primrec receive ::
  "codec \<Rightarrow> (bytes \<Rightarrow> u64 option) \<Rightarrow> u32 \<Rightarrow> nat \<Rightarrow> FrameStream \<Rightarrow> reader
     \<Rightarrow> message list \<times> FrameStream \<times> reader" where
  "receive c observe maxFrameSize 0 fs r = ([], fs, r)"
| "receive c observe maxFrameSize (Suc n) fs r =
     (case readMessage c True observe maxFrameSize fs r of
        (Inl _, fs', r') \<Rightarrow> ([], fs', r')
      | (Inr m, fs', r') \<Rightarrow>
          (case receive c observe maxFrameSize n fs' r' of (ms, rest) \<Rightarrow> (m # ms, rest)))"

text \<open>The part of the state that decides what is delivered, and its change by a delivery.\<close>

definition rounds_keep :: "FrameStream \<Rightarrow> FrameStream \<Rightarrow> bool" where
  "rounds_keep fs fs' \<longleftrightarrow>
     fs_header fs' = fs_header fs \<and> fs_sender fs' = fs_sender fs \<and> managedSender fs' = managedSender fs
     \<and> lastWatermarks fs' = lastWatermarks fs \<and> fs_ended fs' = fs_ended fs \<and> fs_done fs' = fs_done fs
     \<and> lastCompletedCheckpoint fs' = lastCompletedCheckpoint fs"

definition delivers :: "FrameStream \<Rightarrow> message \<Rightarrow> FrameStream \<Rightarrow> bool" where
  "delivers fs m fs' \<longleftrightarrow>
     fs_header fs' = fs_header fs \<and> fs_sender fs' = fs_sender fs
     \<and> lastCompletedCheckpoint fs' = lastCompletedCheckpoint fs
     \<and> (case m of
          Watermark t source \<Rightarrow>
            (\<forall>l. map_of (lastWatermarks fs) source = Some l \<longrightarrow> l \<le> t)
            \<and> map_of (lastWatermarks fs') = (map_of (lastWatermarks fs))(source \<mapsto> t)
        | _ \<Rightarrow> map_of (lastWatermarks fs') = map_of (lastWatermarks fs))
     \<and> (fs_ended fs' \<longleftrightarrow> type_of m = EndOfPartitionMsg)
     \<and> (fs_done fs' \<longleftrightarrow> fs_done fs \<or> type_of m = EndOfPartitionMsg)"

lemma rounds_keep_trans: "rounds_keep a b \<Longrightarrow> rounds_keep b d \<Longrightarrow> rounds_keep a d"
  by (simp add: rounds_keep_def)

lemma delivers_after: "rounds_keep a b \<Longrightarrow> delivers b m d \<Longrightarrow> delivers a m d"
  by (auto simp: rounds_keep_def delivers_def split: message.splits)

lemma read_round_keep:
  "read_round c closeOnEOF completed result fs = (None, fs') \<Longrightarrow> rounds_keep fs fs'"
  by (auto simp: read_round_def read_error_def read_frame_def read_decoded_def rounds_keep_def Let_def
      split: prod.splits option.splits if_splits sum.splits)

lemma note_watermark_delivers:
  assumes "note_watermark m fs = Some fs1" "\<not> fs_ended fs"
  shows "delivers fs m (note_end m fs1)"
  using assms by (cases m)
    (auto simp: note_watermark_def note_end_def delivers_def fs_Close_def update_conv split: option.splits if_splits)

lemma read_round_delivers:
  assumes "read_round c closeOnEOF completed (f, e) fs = (Some (Inr m), fs')"
  shows "e = None \<and> DecodePayload c f = Inr m \<and> valid_on_stream f m fs \<and> delivers fs m fs'"
proof -
  have e: "e = None" and m: "DecodePayload c f = Inr m"
    and round: "read_decoded completed f m (fs\<lparr>consecutiveCRCErrors := 0\<rparr>) = (Some (Inr m), fs')"
    using assms
    by (auto simp: read_round_def read_error_def read_frame_def read_decoded_def Let_def
        split: option.splits if_splits sum.splits)
  define fs1 where "fs1 = fs\<lparr>consecutiveCRCErrors := 0, consecutiveDecErrors := 0\<rparr>"
  have keep: "rounds_keep fs fs1" by (simp add: rounds_keep_def fs1_def)
  have "valid_on_stream f m (fs\<lparr>consecutiveCRCErrors := 0\<rparr>)" "\<not> fs_ended fs1"
    "\<exists>fs2. note_watermark m fs1 = Some fs2 \<and> fs' = note_end m fs2"
    using round by (auto simp: read_decoded_def fs1_def Let_def split: if_splits option.splits)
  then show ?thesis
    using e m note_watermark_delivers delivers_after [OF keep]
    by (auto simp: valid_on_stream_def)
qed

lemma read_loop_delivers:
  "read_loop c closeOnEOF observe maxFrameSize fs r = (Inr m, fs', r') \<Longrightarrow>
   delivers fs m fs' \<and> (\<exists>f. DecodePayload c f = Inr m \<and> valid_on_stream f m fs)"
proof (induction c closeOnEOF observe maxFrameSize fs r arbitrary: rule: read_loop.induct)
  case (1 c closeOnEOF observe maxFrameSize fs r)
  obtain f e r1 where frame: "ReadFrame r maxFrameSize = ((f, e), r1)" by (metis surj_pair)
  obtain x fs1 where round: "read_round c closeOnEOF (observe (pending r1)) (f, e) fs = (x, fs1)"
    by (meson surj_pair)
  show ?case
  proof (cases x)
    case None
    then have "delivers fs1 m fs' \<and> (\<exists>f. DecodePayload c f = Inr m \<and> valid_on_stream f m fs1)"
      using 1 frame round by (simp add: read_loop.simps [of c closeOnEOF observe maxFrameSize fs r])
    moreover have keep: "rounds_keep fs fs1" using round None by (auto intro: read_round_keep)
    ultimately show ?thesis
      using delivers_after [OF keep] by (auto simp: valid_on_stream_def rounds_keep_def)
  next
    case (Some outcome)
    then have "read_round c closeOnEOF (observe (pending r1)) (f, e) fs = (Some (Inr m), fs')"
      using 1(2) frame round by (simp add: read_loop.simps [of c closeOnEOF observe maxFrameSize fs r])
    then show ?thesis using read_round_delivers by blast
  qed
qed

text \<open>Decoding into a struct of a type gives a message of that type.\<close>

definition typed_codec :: "codec \<Rightarrow> bool" where
  "typed_codec c \<longleftrightarrow> (\<forall>t data m n. codec_Decode c t data = Some (m, n) \<longrightarrow> type_of m = t)"

definition data_types :: "message_type set" where
  "data_types = {DataRecordMsg, CheckpointBarrierMsg, WatermarkMsg, EndOfPartitionMsg}"

lemma decodeFramePayload_decoded:
  "decodeFramePayload c t data = Inr m \<Longrightarrow> \<exists>n. codec_Decode c t data = Some (m, n)"
  by (auto simp: decodeFramePayload_def split: if_splits option.splits message.splits)

lemma decodeFramePayload_type:
  "typed_codec c \<Longrightarrow> decodeFramePayload c t data = Inr m \<Longrightarrow> type_of m = t"
  using decodeFramePayload_decoded unfolding typed_codec_def by blast

lemma decoded_data_type:
  assumes "typed_codec c" "DecodePayload c f = Inr m" "MsgType f \<ge> 0x01" "MsgType f \<le> 0x04"
  shows "type_of m \<in> data_types"
proof -
  have "MsgType f \<noteq> 0x08" "MsgType f \<noteq> 0x00" "MsgType f \<noteq> 0x07" "MsgType f \<noteq> 0x05"
    using assms(3,4) by (auto simp: word_le_nat_alt)
  then show ?thesis
    using assms(1,2) decodeFramePayload_type unfolding DecodePayload_def data_types_def
    by (auto split: if_splits)
qed

definition watermarks :: "string \<Rightarrow> message list \<Rightarrow> int list" where
  "watermarks source ms =
     concat (map (\<lambda>m. case m of Watermark t s \<Rightarrow> if s = source then [t] else [] | _ \<Rightarrow> []) ms)"

lemma watermarks_Cons:
  "watermarks source (m # ms) =
     (case m of Watermark t s \<Rightarrow> if s = source then t # watermarks source ms else watermarks source ms
      | _ \<Rightarrow> watermarks source ms)"
  by (auto simp: watermarks_def split: message.splits)

lemma readMessage_done: "fs_done fs \<Longrightarrow> readMessage c b observe maxFrameSize fs r = (Inl (Wire (IO EOF)), fs, r)"
  by (simp add: readMessage_def)

lemma receive_done: "fs_done fs \<Longrightarrow> receive c observe maxFrameSize n fs r = ([], fs, r)"
  by (cases n) (simp_all add: readMessage_done)

definition in_order :: "FrameStream \<Rightarrow> message list \<Rightarrow> bool" where
  "in_order fs ms \<longleftrightarrow>
     (\<forall>source. sorted (watermarks source ms)
        \<and> (\<forall>l. map_of (lastWatermarks fs) source = Some l \<longrightarrow> (\<forall>t \<in> set (watermarks source ms). l \<le> t)))"

lemma in_order_Cons:
  assumes "delivers fs m fs1" "in_order fs1 ms"
  shows "in_order fs (m # ms)"
proof (cases "\<exists>t source. m = Watermark t source")
  case True
  then obtain t source where m: "m = Watermark t source" by blast
  have last: "map_of (lastWatermarks fs) source = Some l \<Longrightarrow> l \<le> t"
    and new: "map_of (lastWatermarks fs1) = (map_of (lastWatermarks fs))(source \<mapsto> t)" for l
    using assms(1) by (simp_all add: delivers_def m)
  show ?thesis
    unfolding in_order_def
  proof (intro allI)
    fix other
    have "sorted (watermarks other ms)" "map_of (lastWatermarks fs1) other = Some l
        \<Longrightarrow> x \<in> set (watermarks other ms) \<Longrightarrow> l \<le> x" for l x
      using assms(2) by (auto simp: in_order_def)
    then show "sorted (watermarks other (m # ms)) \<and> (\<forall>l. map_of (lastWatermarks fs) other = Some l
        \<longrightarrow> (\<forall>x \<in> set (watermarks other (m # ms)). l \<le> x))"
      using last by (cases "other = source") (auto simp: m watermarks_Cons new intro: order_trans)
  qed
next
  case False
  then have "watermarks source (m # ms) = watermarks source ms" for source
    by (cases m) (simp_all add: watermarks_Cons)
  moreover have "map_of (lastWatermarks fs1) = map_of (lastWatermarks fs)"
    using assms(1) False by (cases m) (simp_all add: delivers_def)
  ultimately show ?thesis using assms(2) by (simp add: in_order_def)
qed

lemma receive_safe:
  assumes "typed_codec c"
  shows "receive c observe maxFrameSize n fs r = (ms, fs', r') \<Longrightarrow> fs_header fs \<noteq> None \<Longrightarrow> \<not> fs_sender fs
    \<Longrightarrow> \<not> fs_ended fs \<Longrightarrow>
    (\<forall>m \<in> set ms. type_of m \<in> data_types) \<and> in_order fs ms
    \<and> (\<forall>m \<in> set (butlast ms). type_of m \<noteq> EndOfPartitionMsg)
    \<and> (ms \<noteq> [] \<and> type_of (last ms) = EndOfPartitionMsg \<longrightarrow> fs_done fs')"
proof (induction n arbitrary: fs r ms)
  case 0
  then show ?case by (auto simp: in_order_def watermarks_def)
next
  case (Suc n)
  obtain x fs1 r1 where read: "readMessage c True observe maxFrameSize fs r = (x, fs1, r1)"
    by (metis surj_pair)
  show ?case
  proof (cases x)
    case (Inl e)
    then show ?thesis using Suc.prems(1) read by (auto simp: in_order_def watermarks_def)
  next
    case (Inr m)
    then have deliv: "delivers fs m fs1" and "\<exists>f. DecodePayload c f = Inr m \<and> valid_on_stream f m fs"
      using read_loop_delivers [of c True observe maxFrameSize fs r m fs1 r1] read
      by (auto simp: readMessage_def split: if_splits)
    then have type: "type_of m \<in> data_types"
      using decoded_data_type [OF assms] Suc.prems(2,3) by (auto simp: valid_on_stream_def)
    obtain ms1 where rest: "receive c observe maxFrameSize n fs1 r1 = (ms1, fs', r')" and ms: "ms = m # ms1"
      using Suc.prems(1) read Inr by (auto split: prod.splits)
    show ?thesis
    proof (cases "type_of m = EndOfPartitionMsg")
      case True
      then have "fs_done fs1" using deliv by (simp add: delivers_def)
      with rest have "ms1 = []" "fs' = fs1" by (simp_all add: receive_done)
      moreover have "in_order fs1 []" by (simp add: in_order_def watermarks_def)
      ultimately show ?thesis
        using in_order_Cons [OF deliv] type ms \<open>fs_done fs1\<close> by simp
    next
      case False
      then have "fs_header fs1 \<noteq> None" "\<not> fs_sender fs1" "\<not> fs_ended fs1"
        using deliv Suc.prems(2,3) by (simp_all add: delivers_def)
      from Suc.IH [OF rest this] show ?thesis
        using in_order_Cons [OF deliv] type ms False by auto
    qed
  qed
qed

text \<open>C19. What a data stream delivers is safe whatever bytes arrive. Reading any number of messages
  from a stream with arbitrary bytes returns, and delivers only data records, barriers,
  watermarks and the end of the partition; the watermarks of each source never go back; the end of
  the partition is the last message, and after it every read reports the end of the stream.\<close>

theorem stream_delivery_safe:
  assumes "typed_codec c"
  shows "\<exists>ms fs' r'. receive c observe maxFrameSize n (NewFrameStream\<lparr>fs_header := Some h\<rparr>) r = (ms, fs', r')
    \<and> (\<forall>m \<in> set ms. type_of m \<in> {DataRecordMsg, CheckpointBarrierMsg, WatermarkMsg, EndOfPartitionMsg})
    \<and> (\<forall>source. sorted (watermarks source ms))
    \<and> (\<forall>m \<in> set (butlast ms). type_of m \<noteq> EndOfPartitionMsg)
    \<and> (ms \<noteq> [] \<and> type_of (last ms) = EndOfPartitionMsg
         \<longrightarrow> (\<forall>r''. readMessage c True observe maxFrameSize fs' r'' = (Inl (Wire (IO EOF)), fs', r'')))"
proof -
  obtain ms fs' r' where run: "receive c observe maxFrameSize n (NewFrameStream\<lparr>fs_header := Some h\<rparr>) r = (ms, fs', r')"
    by (metis surj_pair)
  from receive_safe [OF assms run] show ?thesis
    using run by (auto simp: NewFrameStream_def data_types_def in_order_def readMessage_done)
qed

section \<open>From sender to receiver\<close>

primrec send_all ::
  "codec \<Rightarrow> 'w writer \<Rightarrow> u32 \<Rightarrow> message list \<Rightarrow> FrameStream \<Rightarrow> 'w \<Rightarrow> stream_error option \<times> FrameStream \<times> 'w" where
  "send_all c W maxFrameSize [] fs w = (None, fs, w)"
| "send_all c W maxFrameSize (m # ms) fs w =
     (case WriteMessageContext c W False [] maxFrameSize (Msg m) fs w of
        (Some err, fs', w') \<Rightarrow> (Some err, fs', w')
      | (None, fs', w') \<Rightarrow> send_all c W maxFrameSize ms fs' w')"

text \<open>The messages that a receiver keeps when the newest completed checkpoint is \<open>cp\<close>: not the
  barriers of completed checkpoints, and not the watermarks that go back.\<close>

fun kept :: "u64 \<Rightarrow> (string \<rightharpoonup> int) \<Rightarrow> message list \<Rightarrow> message list" where
  "kept cp seen [] = []"
| "kept cp seen (CheckpointBarrier c e t # ms) =
     (if c \<noteq> 0 \<and> c \<le> cp then kept cp seen ms else CheckpointBarrier c e t # kept cp seen ms)"
| "kept cp seen (Watermark t source # ms) =
     (case seen source of
        Some l \<Rightarrow> (if t < l then kept cp seen ms else Watermark t source # kept cp (seen(source \<mapsto> t)) ms)
      | None \<Rightarrow> Watermark t source # kept cp (seen(source \<mapsto> t)) ms)"
| "kept cp seen (m # ms) = m # kept cp seen ms"

definition carried :: "codec \<Rightarrow> u32 \<Rightarrow> message \<Rightarrow> bool" where
  "carried c maxFrameSize m \<longleftrightarrow>
     codec_carries c m \<and> sendable m \<and> length (encoding c m) + MinFrameLength \<le> unat maxFrameSize"

definition message_frame :: "codec \<Rightarrow> message \<Rightarrow> bytes" where
  "message_frame c m = frame_bytes (msgType (type_of m)) (encoding c m)"

definition open_sender :: "FrameStream \<Rightarrow> bool" where
  "open_sender fs \<longleftrightarrow> \<not> fs_done fs \<and> \<not> fs_ended fs \<and> fs_header fs \<noteq> None \<and> fs_sender fs"

lemma WriteMessage_carried:
  assumes "open_sender fs" "carried c maxFrameSize m" "type_of m \<in> data_types"
  shows "WriteMessageContext c append_Write False [] maxFrameSize (Msg m) fs w
    = (None, if type_of m = EndOfPartitionMsg then fs_Close (fs\<lparr>fs_ended := True\<rparr>) else fs,
       w @ message_frame c m)"
  using assms message_sent [of c m maxFrameSize w]
  by (auto simp: WriteMessageContext_def open_sender_def carried_def permitted_def is_end_def
      message_frame_def data_types_def)

lemma send_all_carried:
  assumes "open_sender fs"
    and "\<forall>m \<in> set ms. carried c maxFrameSize m \<and> type_of m \<in> data_types - {EndOfPartitionMsg}"
  shows "send_all c append_Write maxFrameSize ms fs w = (None, fs, w @ concat (map (message_frame c) ms))"
  using assms(2)
proof (induction ms arbitrary: w)
  case (Cons m ms)
  then show ?case using WriteMessage_carried [OF assms(1), of c maxFrameSize m w] by simp
qed simp

definition open_receiver :: "FrameStream \<Rightarrow> bool" where
  "open_receiver fs \<longleftrightarrow> \<not> fs_done fs \<and> \<not> fs_ended fs \<and> fs_header fs \<noteq> None \<and> \<not> fs_sender fs
     \<and> \<not> managedSender fs \<and> lastCompletedCheckpoint fs = 0"

lemma received_types: "type_of m \<in> data_types \<Longrightarrow> msgType (type_of m) \<ge> 0x01 \<and> msgType (type_of m) \<le> 0x04"
  by (auto simp: data_types_def msgType_def)

lemma read_carried:
  assumes "open_receiver fs" "carried c maxFrameSize m" "type_of m \<in> data_types"
  shows "readMessage c True (\<lambda>_. Some cp) maxFrameSize fs \<lparr>pending = message_frame c m @ r, ending = e\<rparr>
    = (case read_decoded (Some cp) (frame_of (msgType (type_of m)) (encoding c m)) (received m)
             (fs\<lparr>consecutiveCRCErrors := 0\<rparr>) of
         (Some outcome, fs') \<Rightarrow> (outcome, fs', \<lparr>pending = r, ending = e\<rparr>)
       | (None, fs') \<Rightarrow> read_loop c True (\<lambda>_. Some cp) maxFrameSize fs' \<lparr>pending = r, ending = e\<rparr>)"
proof -
  have "length (encoding c m) + MinFrameLength \<le> unat maxFrameSize" using assms(2) by (simp add: carried_def)
  note frame = ReadFrame_frame [OF this, of "msgType (type_of m)" r e, folded message_frame_def]
  have "DecodePayload c (frame_of (msgType (type_of m)) (encoding c m)) = Inr (received m)"
    using assms(2) message_decoded by (simp add: carried_def)
  then show ?thesis
    using assms(1) frame
    by (simp add: readMessage_def open_receiver_def read_round_def read_frame_def
        read_loop.simps [of c True "\<lambda>_. Some cp" maxFrameSize fs])
qed

text \<open>One message on its way: it is dropped and the reader goes on, or it is delivered.\<close>

lemma message_step:
  assumes "open_receiver fs" "carried c maxFrameSize m" "type_of m \<in> data_types - {EndOfPartitionMsg}"
  obtains fs' where "open_receiver fs'"
    and "readMessage c True (\<lambda>_. Some cp) maxFrameSize fs \<lparr>pending = message_frame c m @ r, ending = e\<rparr>
        = (if kept cp (map_of (lastWatermarks fs)) [m] = []
           then readMessage c True (\<lambda>_. Some cp) maxFrameSize fs' \<lparr>pending = r, ending = e\<rparr>
           else (Inr (received m), fs', \<lparr>pending = r, ending = e\<rparr>))"
    and "kept cp (map_of (lastWatermarks fs)) (m # ms)
        = kept cp (map_of (lastWatermarks fs)) [m] @ kept cp (map_of (lastWatermarks fs')) ms"
proof -
  have data: "type_of m \<in> data_types" using assms(3) by simp
  define fs1 where "fs1 = fs\<lparr>consecutiveCRCErrors := 0, consecutiveDecErrors := 0\<rparr>"
  have fs1: "open_receiver fs1" "lastWatermarks fs1 = lastWatermarks fs"
    using assms(1) by (simp_all add: open_receiver_def fs1_def)
  have continue: "read_loop c True (\<lambda>_. Some cp) maxFrameSize fs1 q = readMessage c True (\<lambda>_. Some cp) maxFrameSize fs1 q" for q
    using fs1(1) by (simp add: readMessage_def open_receiver_def)
  have valid: "valid_on_stream (frame_of (msgType (type_of m)) (encoding c m)) x (fs\<lparr>consecutiveCRCErrors := 0\<rparr>)" for x
    using assms(1) received_types [OF data]
    by (simp add: valid_on_stream_def open_receiver_def frame_of_def zero_frame_def)
  have decoded: "read_decoded (Some cp) (frame_of (msgType (type_of m)) (encoding c m)) x (fs\<lparr>consecutiveCRCErrors := 0\<rparr>)
      = (if (case x of CheckpointBarrier c _ _ \<Rightarrow> c \<noteq> 0 \<and> c \<le> cp | _ \<Rightarrow> False) then (None, fs1)
         else case note_watermark x fs1 of None \<Rightarrow> (None, fs1) | Some fs2 \<Rightarrow> (Some (Inr x), note_end x fs2))" for x
    using valid [of x] assms(1) unfolding fs1_def
    by (cases x; hypsubst; simp add: read_decoded_def open_receiver_def IsCheckpointCompleted_def Let_def)
  note step = read_carried [OF assms(1,2) data, of cp r e, unfolded decoded]
  show ?thesis
  proof (cases m)
    case (CheckpointBarrier ck ep t)
    then show ?thesis
      using that [OF fs1(1)] step continue fs1(2) by (simp add: note_watermark_def note_end_def)
  next
    case (DataRecord k v t h)
    then show ?thesis
      using that [OF fs1(1)] step fs1(2) by (simp add: note_watermark_def note_end_def)
  next
    case (Watermark t source)
    define fs2 where "fs2 = fs1\<lparr>lastWatermarks := AList.update source t (lastWatermarks fs)\<rparr>"
    have fs2: "open_receiver fs2" "map_of (lastWatermarks fs2) = (map_of (lastWatermarks fs))(source \<mapsto> t)"
      using fs1(1) by (simp_all add: open_receiver_def fs2_def update_conv')
    have noted: "note_watermark m fs1 = (case map_of (lastWatermarks fs) source of
        Some l \<Rightarrow> if t < l then None else Some fs2 | None \<Rightarrow> Some fs2)"
      using fs1(2) by (simp add: note_watermark_def Watermark fs2_def split: option.split)
    show ?thesis
    proof (cases "map_of (lastWatermarks fs) source")
      case None
      then show ?thesis
        using that [OF fs2(1)] step noted fs2(2) by (simp add: Watermark note_end_def)
    next
      case (Some l)
      then show ?thesis
        using that [OF fs2(1)] that [OF fs1(1)] step noted fs2(2) fs1(2) continue
        by (cases "t < l") (simp_all add: Watermark note_end_def)
    qed
  qed (use data assms(3) in \<open>simp_all add: data_types_def\<close>)
qed

lemma end_step:
  assumes "open_receiver fs" "carried c maxFrameSize (EndOfPartition source reason)"
  obtains fs' where "fs_done fs'"
    and "readMessage c True (\<lambda>_. Some cp) maxFrameSize fs
          \<lparr>pending = message_frame c (EndOfPartition source reason) @ r, ending = e\<rparr>
        = (Inr (EndOfPartition source reason), fs', \<lparr>pending = r, ending = e\<rparr>)"
proof -
  have data: "type_of (EndOfPartition source reason) \<in> data_types" by (simp add: data_types_def)
  have "valid_on_stream (frame_of (msgType EndOfPartitionMsg) (encoding c (EndOfPartition source reason)))
      (EndOfPartition source reason) (fs\<lparr>consecutiveCRCErrors := 0\<rparr>)"
    using assms(1) by (simp add: valid_on_stream_def open_receiver_def frame_of_def zero_frame_def msgType_def)
  then show ?thesis
    using that [of "note_end (EndOfPartition source reason) (fs\<lparr>consecutiveCRCErrors := 0, consecutiveDecErrors := 0\<rparr>)"]
      read_carried [OF assms data, of cp r e] assms(1)
    by (simp add: read_decoded_def open_receiver_def note_watermark_def note_end_def fs_Close_def Let_def)
qed

lemma receive_kept:
  assumes "\<forall>m \<in> set ms. carried c maxFrameSize m \<and> type_of m \<in> data_types - {EndOfPartitionMsg}"
    and "carried c maxFrameSize (EndOfPartition source reason)"
  shows "open_receiver fs \<Longrightarrow> length ms < n \<Longrightarrow>
    \<exists>fs'. fs_done fs' \<and> receive c (\<lambda>_. Some cp) maxFrameSize n fs
        \<lparr>pending = concat (map (message_frame c) ms) @ message_frame c (EndOfPartition source reason) @ r, ending = e\<rparr>
      = (map received (kept cp (map_of (lastWatermarks fs)) ms) @ [EndOfPartition source reason], fs',
         \<lparr>pending = r, ending = e\<rparr>)"
  using assms(1)
proof (induction ms arbitrary: fs n)
  case Nil
  then obtain k where n: "n = Suc k" by (cases n) auto
  obtain fs' where "fs_done fs'" "readMessage c True (\<lambda>_. Some cp) maxFrameSize fs
        \<lparr>pending = message_frame c (EndOfPartition source reason) @ r, ending = e\<rparr>
      = (Inr (EndOfPartition source reason), fs', \<lparr>pending = r, ending = e\<rparr>)"
    using end_step [OF Nil(1) assms(2)] .
  then show ?case by (auto simp: n receive_done)
next
  case (Cons m ms)
  then obtain k where n: "n = Suc k" "length ms < k" by (cases n) auto
  let ?rest = "concat (map (message_frame c) ms) @ message_frame c (EndOfPartition source reason) @ r"
  obtain fs1 where fs1: "open_receiver fs1"
    and read: "readMessage c True (\<lambda>_. Some cp) maxFrameSize fs \<lparr>pending = message_frame c m @ ?rest, ending = e\<rparr>
        = (if kept cp (map_of (lastWatermarks fs)) [m] = []
           then readMessage c True (\<lambda>_. Some cp) maxFrameSize fs1 \<lparr>pending = ?rest, ending = e\<rparr>
           else (Inr (received m), fs1, \<lparr>pending = ?rest, ending = e\<rparr>))"
    and split: "kept cp (map_of (lastWatermarks fs)) (m # ms)
        = kept cp (map_of (lastWatermarks fs)) [m] @ kept cp (map_of (lastWatermarks fs1)) ms"
    using message_step [OF Cons.prems(1), of c maxFrameSize m cp ?rest e ms] Cons.prems(3) by auto
  show ?case
  proof (cases "kept cp (map_of (lastWatermarks fs)) [m] = []")
    case True
    then have "receive c (\<lambda>_. Some cp) maxFrameSize n fs \<lparr>pending = message_frame c m @ ?rest, ending = e\<rparr>
        = receive c (\<lambda>_. Some cp) maxFrameSize n fs1 \<lparr>pending = ?rest, ending = e\<rparr>"
      using read by (simp add: n(1))
    moreover have "length ms < n" using n by simp
    ultimately show ?thesis using Cons.IH [OF fs1] Cons.prems(3) split True by simp
  next
    case False
    then have "kept cp (map_of (lastWatermarks fs)) [m] = [m]" by (cases m) (auto split: option.splits if_splits)
    then show ?thesis
      using Cons.IH [OF fs1 n(2)] Cons.prems(3) split False read by (auto simp: n(1))
  qed
qed

text \<open>C10. A data stream hands over what was sent, once and in order. When a sender writes data
  messages that the codec carries and that fit the frame size, and then the end of the partition,
  every write succeeds, and a receiver that reads the bytes gets all of them in order followed by the
  end of the partition, except the barriers of checkpoints that are already completed and the
  watermarks that go back.\<close>

theorem stream_end_to_end:
  assumes "\<forall>m \<in> set ms. carried c maxFrameSize m \<and> type_of m \<in> {DataRecordMsg, CheckpointBarrierMsg, WatermarkMsg}"
    and "carried c maxFrameSize (EndOfPartition source reason)"
  shows "\<exists>sender' stream fs'.
    send_all c append_Write maxFrameSize (ms @ [EndOfPartition source reason])
      (NewFrameStream\<lparr>fs_header := Some h, fs_sender := True\<rparr>) [] = (None, sender', stream)
    \<and> fs_done sender' \<and> fs_done fs'
    \<and> receive c (\<lambda>_. Some cp) maxFrameSize (Suc (length ms)) (NewFrameStream\<lparr>fs_header := Some h\<rparr>)
        \<lparr>pending = stream, ending = EOF\<rparr>
      = (map received (kept cp Map.empty ms) @ [EndOfPartition source reason], fs', \<lparr>pending = [], ending = EOF\<rparr>)"
proof -
  let ?sender = "NewFrameStream\<lparr>fs_header := Some h, fs_sender := True\<rparr>"
    and ?receiver = "NewFrameStream\<lparr>fs_header := Some h\<rparr>"
    and ?eop = "EndOfPartition source reason"
  have sender: "open_sender ?sender" and receiver: "open_receiver ?receiver"
    by (simp_all add: open_sender_def open_receiver_def NewFrameStream_def)
  have ms: "\<forall>m \<in> set ms. carried c maxFrameSize m \<and> type_of m \<in> data_types - {EndOfPartitionMsg}"
    using assms(1) by (auto simp: data_types_def)
  have app: "send_all c append_Write maxFrameSize (xs @ [?eop]) fs w
      = (case send_all c append_Write maxFrameSize xs fs w of
           (Some err, fs', w') \<Rightarrow> (Some err, fs', w')
         | (None, fs', w') \<Rightarrow> send_all c append_Write maxFrameSize [?eop] fs' w')" for xs fs w
    by (induction xs arbitrary: fs w) (auto split: prod.splits option.splits)
  have "type_of ?eop \<in> data_types" by (simp add: data_types_def)
  then have sent: "send_all c append_Write maxFrameSize (ms @ [?eop]) ?sender []
      = (None, fs_Close (?sender\<lparr>fs_ended := True\<rparr>), concat (map (message_frame c) ms) @ message_frame c ?eop)"
    using WriteMessage_carried [OF sender assms(2)] by (simp add: app send_all_carried [OF sender ms])
  have "map_of (lastWatermarks ?receiver) = Map.empty" by (simp add: NewFrameStream_def)
  then show ?thesis
    using sent receive_kept [OF ms assms(2) receiver, of "Suc (length ms)" cp "[]" EOF]
    by (auto simp: fs_Close_def)
qed

text \<open>A codec for a watermark and the end of a partition.\<close>

definition example_codec :: codec where
  "example_codec =
     \<lparr>codec_Encode = (\<lambda>m. (if m = Msg (Watermark 5 ''a'')
          then [[0x82, 0xa1, 0x74, 0x05, 0xa1, 0x73, 0xa1, 0x61]]
          else [[0x82, 0xa1, 0x73, 0xa1, 0x61, 0xa1, 0x72, 0x00]], False)),
      codec_Decode = (\<lambda>t data.
        if t = WatermarkMsg then Some (Watermark 5 ''a'', length data)
        else if t = EndOfPartitionMsg then Some (EndOfPartition ''a'' 0, length data)
        else None)\<rparr>"

lemma example_encodings:
  "struct_encoding (Watermark 5 ''a'') [0x82, 0xa1, 0x74, 0x05, 0xa1, 0x73, 0xa1, 0x61]"
  "struct_encoding (EndOfPartition ''a'' 0) [0x82, 0xa1, 0x73, 0xa1, 0x61, 0xa1, 0x72, 0x00]"
proof -
  have names: "utf8 ''t'' = [0x74]" "utf8 ''s'' = [0x73]" "utf8 ''r'' = [0x72]" by (simp_all add: utf8_def)
  have headers: "str_header (Suc 0) [0xa1]" "map_header (Suc (Suc 0)) [0x82]" by (simp_all add: str_header_def map_header_def)
  have small: "has_format integerField [0x05]" "has_format integerField [0x00]"
    unfolding format_kinds by simp_all
  have "has_format stringField ([0xa1] @ [0x61])"
    unfolding format_kinds using headers(1) by (intro exI [of _ "[0xa1]"] exI [of _ "[0x61]"] conjI) simp_all
  then have name: "has_format stringField [0xa1, 0x61]" by simp
  show "struct_encoding (Watermark 5 ''a'') [0x82, 0xa1, 0x74, 0x05, 0xa1, 0x73, 0xa1, 0x61]"
    unfolding struct_encoding_def
    by (intro exI [of _ "[0x82]"] exI [of _ "[([0xa1], [0x74], [0x05]), ([0xa1], [0x73], [0xa1, 0x61])]"])
      (simp add: names headers small name conj_disj_distribR ex_disj_distrib)
  show "struct_encoding (EndOfPartition ''a'' 0) [0x82, 0xa1, 0x73, 0xa1, 0x61, 0xa1, 0x72, 0x00]"
    unfolding struct_encoding_def
    by (intro exI [of _ "[0x82]"] exI [of _ "[([0xa1], [0x73], [0xa1, 0x61]), ([0xa1], [0x72], [0x00])]"])
      (simp add: names headers small name conj_disj_distribR ex_disj_distrib)
qed

lemma example_carried:
  "carried example_codec DefaultMaxFrameSize (Watermark 5 ''a'')"
  "carried example_codec DefaultMaxFrameSize (EndOfPartition ''a'' 0)"
  using example_encodings
  by (simp_all add: carried_def codec_carries_def encoding_def example_codec_def EndReasonError_def
      MinFrameLength_def DefaultMaxFrameSize_def)

theorem stream_delivery_safe_witness:
  "\<exists>ms fs' r'. receive example_codec (\<lambda>_. None) DefaultMaxFrameSize 3
     (NewFrameStream\<lparr>fs_header := Some (''s'', ''t'', 0)\<rparr>)
     \<lparr>pending = message_frame example_codec (Watermark 5 ''a''), ending = EOF\<rparr> = (ms, fs', r')
   \<and> (\<forall>source. sorted (watermarks source ms))"
proof -
  have "typed_codec example_codec" by (auto simp: typed_codec_def example_codec_def split: if_splits)
  from stream_delivery_safe [OF this] show ?thesis by blast
qed

theorem stream_end_to_end_witness:
  "\<exists>sender' stream fs'.
    send_all example_codec append_Write DefaultMaxFrameSize [Watermark 5 ''a'', EndOfPartition ''a'' 0]
      (NewFrameStream\<lparr>fs_header := Some (''s'', ''t'', 0), fs_sender := True\<rparr>) [] = (None, sender', stream)
    \<and> receive example_codec (\<lambda>_. Some 0) DefaultMaxFrameSize 2 (NewFrameStream\<lparr>fs_header := Some (''s'', ''t'', 0)\<rparr>)
        \<lparr>pending = stream, ending = EOF\<rparr>
      = ([Watermark 5 ''a'', EndOfPartition ''a'' 0], fs', \<lparr>pending = [], ending = EOF\<rparr>)"
proof -
  have "\<forall>m \<in> set [Watermark 5 ''a'']. carried example_codec DefaultMaxFrameSize m
      \<and> type_of m \<in> {DataRecordMsg, CheckpointBarrierMsg, WatermarkMsg}"
    using example_carried(1) by simp
  from stream_end_to_end [OF this example_carried(2), of "(''s'', ''t'', 0)" 0] show ?thesis
    by (simp only: append_Cons append_Nil list.size kept.simps option.case list.map received.simps
        add_0_right add_0 numeral_2_eq_2) (elim exE conjE, intro exI conjI, assumption+)
qed

text \<open>Two peers that negotiate over an intact stream come to the same result.\<close>

lemma negotiation_agrees:
  assumes "receive_handshake c (MaxFrameSize a) ra = Inr (local_handshake b)"
    and "receive_handshake c (MaxFrameSize b) rb = Inr (local_handshake a)"
    and "NodeID a \<noteq> []" "LocalMinVersion a \<noteq> 0" "LocalMinVersion a \<le> LocalProtocolVersion a"
    and "NodeID b \<noteq> []" "LocalMinVersion b \<noteq> 0" "LocalMinVersion b \<le> LocalProtocolVersion b"
  shows "NegotiateSession c a True Live t None ra = NegotiateSession c b False Live t None rb"
    and "NegotiateSession c a True Live t None ra = Inr p \<Longrightarrow>
      LocalMinVersion a \<le> EffectiveVersion p \<and> EffectiveVersion p \<le> LocalProtocolVersion a
      \<and> LocalMinVersion b \<le> EffectiveVersion p \<and> EffectiveVersion p \<le> LocalProtocolVersion b
      \<and> Features p = LocalFeatures a AND LocalFeatures b"
  using assms
  by (auto simp: NegotiateSession_def local_handshake_def Let_def min.commute and.commute
      min_less_iff_disj not_less split: if_splits)

lemma unknown_targets_rejected:
  assumes "AcceptDataStream c maxFrameSize timed_out targetExists r = (x, Some m)"
  shows "\<exists>target. m = EndOfPartition target EndReasonError \<and> x = Inl (UnknownTarget target)"
  using assms by (auto simp: AcceptDataStream_def split: prod.splits option.splits if_splits sum.splits message.splits)

end
