(* ===== verification/State_Backend.thy ===== *)
theory State_Backend
  imports Sorted_Slice Checksum Events
begin

text \<open>The state backends of operators: the interface of
  \<^verbatim>\<open>internal/engine/state_backend.go\<close>, the in-memory implementation on a sorted slice
  with its memory accounting and its snapshot format
  (\<^verbatim>\<open>internal/engine/state_backend_hashmap.go\<close>), and the choice of an implementation
  (\<^verbatim>\<open>state_backend_factory.go\<close>).

  A value is a Go slice, which is nil (\<open>None\<close>) or holds bytes; the two differ for a client that
  compares with nil. Keys are only ever compared by content and are byte strings.
  \<open>bytes.Compare\<close> is the lexicographic order of byte lists.\<close>

section \<open>The interface\<close>

primrec content :: "slice \<Rightarrow> bytes" where
  "content None = []"
| "content (Some bs) = bs"

definition slice_len :: "slice \<Rightarrow> int" where
  "slice_len s = int (length (content s))"

datatype state_error = ErrKeyNotFound | ErrBackendClosed | ErrMemoryLimitExceeded | ErrSnapshotCorrupt
  | ErrUnknownBackendType

definition StateBackendPebble :: string where
  "StateBackendPebble = ''pebble''"

definition StateBackendHashMap :: string where
  "StateBackendHashMap = ''hashmap''"

text \<open>An interface value is a table of operations over a state. Its iterators are read from the
  first pair to the last, so \<open>Iterate\<close> stands for the pairs that an iterator yields.\<close>

record 's StateBackend =
  Put :: "'s \<Rightarrow> bytes \<Rightarrow> slice \<Rightarrow> state_error option \<times> 's"
  Get :: "'s \<Rightarrow> bytes \<Rightarrow> state_error + slice"
  Delete :: "'s \<Rightarrow> bytes \<Rightarrow> state_error option \<times> 's"
  Iterate :: "'s \<Rightarrow> bytes \<Rightarrow> (bytes \<times> slice) list"
  Checkpoint :: "'s \<Rightarrow> u64 \<Rightarrow> state_error + SnapshotHandle"
  Restore :: "'s \<Rightarrow> SnapshotHandle \<Rightarrow> state_error option \<times> 's"
  Close :: "'s \<Rightarrow> state_error option \<times> 's"

section \<open>The in-memory backend\<close>

record HashMapStateBackend =
  hm_entries :: "(bytes \<times> slice) list"
  curMemBytes :: int
  memLimit :: int
  hm_closed :: bool

definition NewHashMapStateBackend :: "int \<Rightarrow> HashMapStateBackend" where
  "NewHashMapStateBackend limit = \<lparr>hm_entries = [], curMemBytes = 0, memLimit = limit, hm_closed = False\<rparr>"

definition hm_search :: "HashMapStateBackend \<Rightarrow> bytes \<Rightarrow> nat" where
  "hm_search h key = sort_Search (length (hm_entries h)) (\<lambda>i. fst (hm_entries h ! i) \<ge> key)"

definition cloneBytes :: "slice \<Rightarrow> slice" where
  "cloneBytes b = (case b of None \<Rightarrow> None | Some c \<Rightarrow> Some (take (length c) c))"

definition hm_Put :: "HashMapStateBackend \<Rightarrow> bytes \<Rightarrow> slice \<Rightarrow> state_error option \<times> HashMapStateBackend" where
  "hm_Put h key v =
     (if hm_closed h then (Some ErrBackendClosed, h)
      else let idx = hm_search h key; es = hm_entries h in
        if idx < length es \<and> fst (es ! idx) = key then
          let oldSize = slice_len (snd (es ! idx));
              newSize = slice_len v;
              delta = wrap64 (newSize - oldSize) in
          if memLimit h > 0 \<and> wrap64 (curMemBytes h + delta) > memLimit h
          then (Some ErrMemoryLimitExceeded, h)
          else (None, h\<lparr>hm_entries := es[idx := (fst (es ! idx), cloneBytes v)],
                        curMemBytes := wrap64 (curMemBytes h + delta)\<rparr>)
        else
          let entrySize = wrap64 (int (length key) + slice_len v) in
          if memLimit h > 0 \<and> wrap64 (curMemBytes h + entrySize) > memLimit h
          then (Some ErrMemoryLimitExceeded, h)
          else (None, h\<lparr>hm_entries := take idx es @ (key, cloneBytes v) # drop idx es,
                        curMemBytes := wrap64 (curMemBytes h + entrySize)\<rparr>))"

definition hm_Get :: "HashMapStateBackend \<Rightarrow> bytes \<Rightarrow> state_error + slice" where
  "hm_Get h key =
     (if hm_closed h then Inl ErrBackendClosed
      else let idx = hm_search h key; es = hm_entries h in
        if idx < length es \<and> fst (es ! idx) = key then Inr (cloneBytes (snd (es ! idx)))
        else Inl ErrKeyNotFound)"

definition hm_Delete :: "HashMapStateBackend \<Rightarrow> bytes \<Rightarrow> state_error option \<times> HashMapStateBackend" where
  "hm_Delete h key =
     (if hm_closed h then (Some ErrBackendClosed, h)
      else let idx = hm_search h key; es = hm_entries h in
        if idx \<ge> length es \<or> fst (es ! idx) \<noteq> key then (Some ErrKeyNotFound, h)
        else (None, h\<lparr>hm_entries := take idx es @ drop (idx + 1) es,
                curMemBytes := wrap64 (curMemBytes h - (int (length (fst (es ! idx))) + slice_len (snd (es ! idx))))\<rparr>))"

text \<open>An iterator holds a copy of the pairs under the prefix.\<close>

record hashMapIterator =
  it_entries :: "(bytes \<times> slice) list"
  it_pos :: int

primrec snapshot_loop :: "bytes \<Rightarrow> (bytes \<times> slice) list \<Rightarrow> (bytes \<times> slice) list" where
  "snapshot_loop p [] = []"
| "snapshot_loop p (e # es) =
     (if \<not> HasPrefix (fst e) p then [] else (fst e, cloneBytes (snd e)) # snapshot_loop p es)"

definition hm_NewIterator :: "HashMapStateBackend \<Rightarrow> bytes \<Rightarrow> hashMapIterator" where
  "hm_NewIterator h p =
     (if hm_closed h then \<lparr>it_entries = [], it_pos = 0\<rparr>
      else let start = sort_Search (length (hm_entries h)) (\<lambda>i. fst (hm_entries h ! i) \<ge> p) in
        \<lparr>it_entries = snapshot_loop p (drop start (hm_entries h)), it_pos = -1\<rparr>)"

definition it_Next :: "hashMapIterator \<Rightarrow> bool \<times> hashMapIterator" where
  "it_Next it = (it_pos it + 1 < int (length (it_entries it)), it\<lparr>it_pos := it_pos it + 1\<rparr>)"

definition it_Key :: "hashMapIterator \<Rightarrow> slice" where
  "it_Key it = (if it_pos it < 0 \<or> it_pos it \<ge> int (length (it_entries it)) then None
                else Some (fst (it_entries it ! nat (it_pos it))))"

definition it_Value :: "hashMapIterator \<Rightarrow> slice" where
  "it_Value it = (if it_pos it < 0 \<or> it_pos it \<ge> int (length (it_entries it)) then None
                  else snd (it_entries it ! nat (it_pos it)))"

definition it_Close :: "hashMapIterator \<Rightarrow> hashMapIterator" where
  "it_Close it = it\<lparr>it_entries := []\<rparr>"

text \<open>The loop \<^verbatim>\<open>for it.Next() { ... }\<close> of a client.\<close>

function drain :: "hashMapIterator \<Rightarrow> (bytes \<times> slice) list" where
  "drain it =
     (case it_Next it of
        (False, _) \<Rightarrow> []
      | (True, it') \<Rightarrow> (content (it_Key it'), it_Value it') # drain it')"
  by pat_completeness auto
termination
  by (relation "measure (\<lambda>it. nat (int (length (it_entries it)) - it_pos it))") (auto simp: it_Next_def)

declare drain.simps [simp del]

section \<open>Snapshots of the in-memory backend\<close>

definition hashMapSnapshotVersion :: byte where
  "hashMapSnapshotVersion = 1"

definition entry_bytes :: "bytes \<times> slice \<Rightarrow> bytes" where
  "entry_bytes e =
     PutUint32LE (of_nat (length (fst e))) @ fst e
     @ PutUint32LE (of_nat (length (content (snd e)))) @ content (snd e)"

definition serializeHashMapSnapshot :: "(bytes \<times> slice) list \<Rightarrow> bytes" where
  "serializeHashMapSnapshot es =
     (let buf = [hashMapSnapshotVersion] @ PutUint32LE (of_nat (length es)) @ concat (map entry_bytes es)
      in buf @ PutUint32LE (ChecksumIEEE buf))"

text \<open>The loop over the entries, \<open>n\<close> of them still to read, from the position \<open>pos\<close>.\<close>

primrec snapshot_entries ::
  "nat \<Rightarrow> bytes \<Rightarrow> nat \<Rightarrow> nat \<Rightarrow> state_error + ((bytes \<times> slice) list \<times> nat)" where
  "snapshot_entries 0 data payloadLen pos = Inr ([], pos)"
| "snapshot_entries (Suc n) data payloadLen pos =
     (if pos + 4 > payloadLen then Inl ErrSnapshotCorrupt
      else let keyLen = unat (Uint32LE (take 4 (drop pos data))); pos = pos + 4 in
      if pos + keyLen > payloadLen then Inl ErrSnapshotCorrupt
      else let key = take keyLen (drop pos data); pos = pos + keyLen in
      if pos + 4 > payloadLen then Inl ErrSnapshotCorrupt
      else let valLen = unat (Uint32LE (take 4 (drop pos data))); pos = pos + 4 in
      if pos + valLen > payloadLen then Inl ErrSnapshotCorrupt
      else let v = take valLen (drop pos data); pos = pos + valLen in
      case snapshot_entries n data payloadLen pos of
        Inl e \<Rightarrow> Inl e
      | Inr (es, pos) \<Rightarrow> Inr ((key, Some v) # es, pos))"

definition deserializeHashMapSnapshot :: "bytes \<Rightarrow> state_error + (bytes \<times> slice) list" where
  "deserializeHashMapSnapshot data =
     (if length data < 9 then Inl ErrSnapshotCorrupt
      else let payloadLen = length data - 4;
               expected = Uint32LE (drop payloadLen data);
               actual = ChecksumIEEE (take payloadLen data) in
      if expected \<noteq> actual then Inl ErrSnapshotCorrupt
      else if data ! 0 \<noteq> hashMapSnapshotVersion then Inl ErrSnapshotCorrupt
      else let numEntries = Uint32LE (take 4 (drop 1 data));
               maxPossibleEntries = (of_nat (payloadLen div 8) :: u32) in
      if numEntries > maxPossibleEntries then Inl ErrSnapshotCorrupt
      else case snapshot_entries (unat numEntries) data payloadLen 5 of
        Inl e \<Rightarrow> Inl e
      | Inr (es, pos) \<Rightarrow> if pos \<noteq> payloadLen then Inl ErrSnapshotCorrupt else Inr es)"

definition hm_Checkpoint :: "HashMapStateBackend \<Rightarrow> u64 \<Rightarrow> state_error + SnapshotHandle" where
  "hm_Checkpoint h checkpointID =
     (if hm_closed h then Inl ErrBackendClosed
      else Inr \<lparr>hd_CheckpointID = checkpointID, hd_BackendType = StateBackendHashMap,
                hd_Data = serializeHashMapSnapshot (hm_entries h)\<rparr>)"

primrec mem_loop :: "int \<Rightarrow> (bytes \<times> slice) list \<Rightarrow> int" where
  "mem_loop memBytes [] = memBytes"
| "mem_loop memBytes (e # es) = mem_loop (wrap64 (memBytes + (int (length (fst e)) + slice_len (snd e)))) es"

definition hm_Restore ::
  "HashMapStateBackend \<Rightarrow> SnapshotHandle \<Rightarrow> state_error option \<times> HashMapStateBackend" where
  "hm_Restore h handle =
     (if hd_BackendType handle \<noteq> StateBackendHashMap then (Some ErrSnapshotCorrupt, h)
      else case deserializeHashMapSnapshot (hd_Data handle) of
        Inl e \<Rightarrow> (Some e, h)
      | Inr es \<Rightarrow>
          if hm_closed h then (Some ErrBackendClosed, h)
          else let memBytes = mem_loop 0 es in
            if memLimit h > 0 \<and> memBytes > memLimit h then (Some ErrMemoryLimitExceeded, h)
            else (None, h\<lparr>hm_entries := es, curMemBytes := memBytes\<rparr>))"

definition hm_Close :: "HashMapStateBackend \<Rightarrow> state_error option \<times> HashMapStateBackend" where
  "hm_Close h =
     (if hm_closed h then (Some ErrBackendClosed, h)
      else (None, h\<lparr>hm_closed := True, hm_entries := [], curMemBytes := 0\<rparr>))"

definition MemUsage :: "HashMapStateBackend \<Rightarrow> int" where
  "MemUsage h = curMemBytes h"

definition Len :: "HashMapStateBackend \<Rightarrow> nat" where
  "Len h = length (hm_entries h)"

definition hashmap_ops :: "HashMapStateBackend StateBackend" where
  "hashmap_ops = \<lparr>Put = hm_Put, Get = hm_Get, Delete = hm_Delete,
     Iterate = (\<lambda>h p. drain (hm_NewIterator h p)),
     Checkpoint = hm_Checkpoint, Restore = hm_Restore, Close = hm_Close\<rparr>"

text \<open>The factory. The constructor of the on-disk backend is the argument \<open>pebble\<close>.\<close>

record StateBackendConfig =
  cfg_Type :: string
  HashMapMemLimit :: int
  PebbleDataDir :: string
  PebbleMaxCompactionConcurrency :: int

definition DefaultStateBackendConfig :: StateBackendConfig where
  "DefaultStateBackendConfig = \<lparr>cfg_Type = StateBackendPebble, HashMapMemLimit = 0, PebbleDataDir = [],
     PebbleMaxCompactionConcurrency = 2\<rparr>"

definition NewStateBackend ::
  "(StateBackendConfig \<Rightarrow> state_error + 'p) \<Rightarrow> StateBackendConfig \<Rightarrow> state_error + (HashMapStateBackend + 'p)" where
  "NewStateBackend pebble cfg =
     (let backendType = (if cfg_Type cfg = [] then StateBackendPebble else cfg_Type cfg) in
      if backendType = StateBackendHashMap then Inr (Inl (NewHashMapStateBackend (HashMapMemLimit cfg)))
      else if backendType = StateBackendPebble then
        (case pebble cfg of Inl e \<Rightarrow> Inl e | Inr b \<Rightarrow> Inr (Inr b))
      else Inl ErrUnknownBackendType)"

section \<open>The sorted slice and its size\<close>

lemma cloneBytes_id [simp]: "cloneBytes v = v"
  by (simp add: cloneBytes_def split: option.split)

lemma slice_len_nonneg [simp]: "0 \<le> slice_len v"
  by (simp add: slice_len_def)

definition entry_size :: "bytes \<times> slice \<Rightarrow> int" where
  "entry_size e = int (length (fst e)) + slice_len (snd e)"

definition mem_size :: "(bytes \<times> slice) list \<Rightarrow> int" where
  "mem_size es = sum_list (map entry_size es)"

text \<open>The logical size of a map, which the limit of a backend bounds.\<close>

definition map_size :: "(bytes \<Rightarrow> slice option) \<Rightarrow> int" where
  "map_size c = (\<Sum>k \<in> dom c. entry_size (k, the (c k)))"

lemma entry_size_nonneg [simp]: "0 \<le> entry_size e"
  by (simp add: entry_size_def)

lemma mem_size_simps [simp]:
  "mem_size [] = 0" "mem_size (e # es) = entry_size e + mem_size es" "mem_size (xs @ ys) = mem_size xs + mem_size ys"
  by (simp_all add: mem_size_def)

lemma mem_size_nonneg [simp]: "0 \<le> mem_size es"
  by (induction es) auto

lemma mem_size_map:
  assumes "distinct (map fst es)"
  shows "mem_size es = map_size (map_of es)"
proof -
  have "map_size (map_of es) = (\<Sum>k \<leftarrow> map fst es. entry_size (k, the (map_of es k)))"
    unfolding map_size_def dom_map_of_conv_image_fst set_map [symmetric]
    by (rule sum.distinct_set_conv_list) (rule assms)
  also have "\<dots> = mem_size es"
    unfolding mem_size_def map_map
    by (rule arg_cong [where f = sum_list], rule map_cong [OF refl])
      (use assms in \<open>auto simp: map_of_is_SomeI\<close>)
  finally show ?thesis ..
qed

lemma keys_ok_size: "keys_ok es \<Longrightarrow> mem_size es = map_size (map_of es)"
  by (rule mem_size_map) (simp add: keys_ok_def)

lemma keys_ok_dom: "keys_ok es \<Longrightarrow> length es = card (dom (map_of es))"
  unfolding dom_map_of_conv_image_fst keys_ok_def by (metis distinct_card length_map set_map)

text \<open>What an open backend answers to each operation, on the two sides of the search.\<close>

lemma hm_search_slice: "hm_search h k = slice_search (hm_entries h) k"
  by (simp add: hm_search_def slice_search_def)

lemma fits_wrap: "0 \<le> x \<Longrightarrow> x \<le> MaxInt64 \<Longrightarrow> wrap64 x = x"
  by (rule wrap64_id) (simp add: in_i64_def MinInt64_def MaxInt64_def)

lemma wrap64_diff: "wrap64 (x + wrap64 y) = wrap64 (x + y)"
  unfolding wrap64_def by (simp add: mod_simps algebra_simps)

lemma map_of_insert:
  assumes "\<forall>x \<in> set b. fst x < (k::'k::linorder)"
  shows "map_of (b @ (k, v) # f) = (map_of (b @ f))(k \<mapsto> v)"
    and "map_of (b @ (k, v) # f) = (map_of (b @ (k, v0) # f))(k \<mapsto> v)"
  using assms by (auto simp: map_add_def fun_eq_iff map_of_None_below split: option.split)

lemma map_of_remove:
  assumes "\<forall>x \<in> set b. fst x < (k::'k::linorder)" "\<forall>x \<in> set r. k < fst x"
  shows "map_of (b @ r) = (map_of (b @ (k, v) # r))(k := None)"
  using assms by (auto simp: map_add_def fun_eq_iff map_of_None_below map_of_None_above split: option.split)

lemma hm_Put_spec:
  assumes ok: "keys_ok (hm_entries h)" and up: "\<not> hm_closed h"
  shows "\<exists>es. keys_ok es \<and> map_of es = (map_of (hm_entries h))(k \<mapsto> v)
    \<and> mem_size es \<le> mem_size (hm_entries h) + entry_size (k, v)
    \<and> hm_Put h k v = (let mem = wrap64 (curMemBytes h + (mem_size es - mem_size (hm_entries h))) in
        if memLimit h > 0 \<and> mem > memLimit h then (Some ErrMemoryLimitExceeded, h)
        else (None, h\<lparr>hm_entries := es, curMemBytes := mem\<rparr>))"
proof (rule sorted_position [OF ok, of k])
  fix b v0 r
  assume es: "hm_entries h = b @ (k, v0) # r" and at: "slice_search (hm_entries h) k = length b"
    and b: "\<forall>x \<in> set b. fst x < k" and r: "\<forall>x \<in> set r. k < fst x" and oks: "keys_ok b" "keys_ok r"
    and cross: "\<forall>x \<in> set b. \<forall>y \<in> set r. fst x < fst y"
  have size: "slice_len v - slice_len v0 = mem_size (b @ (k, v) # r) - mem_size (hm_entries h)"
    by (simp add: es entry_size_def)
  have put: "hm_Put h k v = (let mem = wrap64 (curMemBytes h + (mem_size (b @ (k, v) # r) - mem_size (hm_entries h))) in
      if memLimit h > 0 \<and> mem > memLimit h then (Some ErrMemoryLimitExceeded, h)
      else (None, h\<lparr>hm_entries := b @ (k, v) # r, curMemBytes := mem\<rparr>))"
    unfolding size [symmetric] using up
    by (simp add: hm_Put_def Let_def hm_search_slice at wrap64_diff) (simp add: es)
  show ?thesis
    by (rule exI [of _ "b @ (k, v) # r"]) (use put b r oks cross map_of_insert(2) [OF b, of v r v0] in
      \<open>simp add: keys_ok_append keys_ok_Cons es\<close>)
next
  fix b f
  assume es: "hm_entries h = b @ f" and at: "slice_search (hm_entries h) k = length b"
    and b: "\<forall>x \<in> set b. fst x < k" and f: "\<forall>x \<in> set f. k < fst x" and oks: "keys_ok b" "keys_ok f"
    and cross: "\<forall>x \<in> set b. \<forall>y \<in> set f. fst x < fst y"
  have size: "int (length k) + slice_len v = mem_size (b @ (k, v) # f) - mem_size (hm_entries h)"
    by (simp add: es entry_size_def)
  have absent: "\<not> (length b < length (hm_entries h) \<and> fst (hm_entries h ! length b) = k)"
    using f by (cases f) (auto simp: es)
  have put: "hm_Put h k v = (let mem = wrap64 (curMemBytes h + (mem_size (b @ (k, v) # f) - mem_size (hm_entries h))) in
      if memLimit h > 0 \<and> mem > memLimit h then (Some ErrMemoryLimitExceeded, h)
      else (None, h\<lparr>hm_entries := b @ (k, v) # f, curMemBytes := mem\<rparr>))"
    unfolding size [symmetric] hm_Put_def Let_def hm_search_slice at if_not_P [OF absent] wrap64_diff using up
    by (simp add: es)
  show ?thesis
    by (rule exI [of _ "b @ (k, v) # f"]) (use put b f oks cross map_of_insert(1) [OF b, of v f] in
      \<open>simp add: keys_ok_append keys_ok_Cons es\<close>)
qed

lemma hm_Get_spec:
  assumes ok: "keys_ok (hm_entries h)" and up: "\<not> hm_closed h"
  shows "hm_Get h k = (case map_of (hm_entries h) k of None \<Rightarrow> Inl ErrKeyNotFound | Some v \<Rightarrow> Inr v)"
proof (rule sorted_position [OF ok, of k])
  fix b v r
  assume "hm_entries h = b @ (k, v) # r" "slice_search (hm_entries h) k = length b"
    "map_of (hm_entries h) k = Some v"
  then show ?thesis
    using up by (simp add: hm_Get_def Let_def hm_search_slice)
next
  fix b f
  assume es: "hm_entries h = b @ f" and at: "slice_search (hm_entries h) k = length b"
    and none: "map_of (hm_entries h) k = None" and f: "\<forall>x \<in> set f. k < fst x"
  have absent: "\<not> (length b < length (hm_entries h) \<and> fst (hm_entries h ! length b) = k)"
    using f by (cases f) (auto simp: es)
  show ?thesis
    unfolding hm_Get_def Let_def hm_search_slice at if_not_P [OF absent] none using up by simp
qed

lemma hm_Delete_spec:
  assumes ok: "keys_ok (hm_entries h)" and up: "\<not> hm_closed h"
  shows "(case map_of (hm_entries h) k of
      None \<Rightarrow> hm_Delete h k = (Some ErrKeyNotFound, h)
    | Some v \<Rightarrow> \<exists>es. keys_ok es \<and> map_of es = (map_of (hm_entries h))(k := None)
        \<and> mem_size es \<le> mem_size (hm_entries h)
        \<and> hm_Delete h k = (None, h\<lparr>hm_entries := es,
            curMemBytes := wrap64 (curMemBytes h + (mem_size es - mem_size (hm_entries h)))\<rparr>))"
proof (rule sorted_position [OF ok, of k])
  fix b v r
  assume es: "hm_entries h = b @ (k, v) # r" and at: "slice_search (hm_entries h) k = length b"
    and b: "\<forall>x \<in> set b. fst x < k" and r: "\<forall>x \<in> set r. k < fst x" and oks: "keys_ok b" "keys_ok r"
    and cross: "\<forall>x \<in> set b. \<forall>y \<in> set r. fst x < fst y" and some: "map_of (hm_entries h) k = Some v"
  have size: "curMemBytes h + (mem_size (b @ r) - mem_size (hm_entries h))
      = curMemBytes h - (int (length k) + slice_len v)"
    by (simp add: es entry_size_def)
  have del: "hm_Delete h k = (None, h\<lparr>hm_entries := b @ r,
      curMemBytes := wrap64 (curMemBytes h + (mem_size (b @ r) - mem_size (hm_entries h)))\<rparr>)"
    unfolding size using up by (simp add: hm_Delete_def Let_def hm_search_slice at) (simp add: es)
  show ?thesis
    unfolding some option.case
    by (rule exI [of _ "b @ r"]) (use del b r oks cross map_of_remove [OF b r, of v] in
      \<open>simp add: keys_ok_append es\<close>)
next
  fix b f
  assume es: "hm_entries h = b @ f" and at: "slice_search (hm_entries h) k = length b"
    and none: "map_of (hm_entries h) k = None" and f: "\<forall>x \<in> set f. k < fst x"
  have absent: "length (hm_entries h) \<le> length b \<or> fst (hm_entries h ! length b) \<noteq> k"
    using f by (cases f) (auto simp: es)
  show ?thesis
    unfolding hm_Delete_def Let_def hm_search_slice at if_P [OF absent] none using up by simp
qed

lemma snapshot_loop_takeWhile: "snapshot_loop p es = takeWhile (\<lambda>e. HasPrefix (fst e) p) es"
  by (induction es) auto

lemma drain_from:
  assumes "-1 \<le> pos" "pos < int (length es)"
  shows "drain \<lparr>it_entries = es, it_pos = pos\<rparr> = drop (nat (pos + 1)) es"
  using assms
proof (induction "nat (int (length es) - pos)" arbitrary: pos)
  case (Suc n)
  show ?case
  proof (cases "pos + 1 < int (length es)")
    case True
    have "drain \<lparr>it_entries = es, it_pos = pos\<rparr>
        = es ! nat (pos + 1) # drain \<lparr>it_entries = es, it_pos = pos + 1\<rparr>"
      using True Suc.prems by (subst drain.simps) (simp add: it_Next_def it_Key_def it_Value_def)
    also have "\<dots> = es ! nat (pos + 1) # drop (nat (pos + 2)) es"
      using Suc.hyps(1) [of "pos + 1"] Suc.hyps(2) Suc.prems True by (simp add: algebra_simps)
    also have "\<dots> = drop (nat (pos + 1)) es"
      using True Suc.prems Cons_nth_drop_Suc [of "nat (pos + 1)" es]
      by (simp add: Suc_nat_eq_nat_zadd1 algebra_simps)
    finally show ?thesis .
  next
    case False
    then show ?thesis using Suc.prems by (subst drain.simps) (simp add: it_Next_def)
  qed
qed simp

lemma drain_all: "drain \<lparr>it_entries = es, it_pos = -1\<rparr> = es"
  using drain_from [of "-1" es] by simp

lemma hm_Iterate_spec:
  assumes ok: "keys_ok (hm_entries h)" and up: "\<not> hm_closed h"
  shows "drain (hm_NewIterator h p) = filter (\<lambda>e. HasPrefix (fst e) p) (hm_entries h)"
proof -
  have "drop (slice_search (hm_entries h) p) (hm_entries h) = from_key p (hm_entries h)"
    unfolding slice_search_below [OF ok] by (rule drop_below)
  then show ?thesis
    using up prefix_scan_filter [OF ok, of p]
    by (simp add: hm_NewIterator_def Let_def drain_all snapshot_loop_takeWhile flip: slice_search_def)
qed

section \<open>What the interface promises\<close>

text \<open>A backend holds a partial map. A write that succeeds changes exactly its key, a write that
  fails changes nothing, and an iterator yields the pairs under its prefix in ascending key
  order, or nothing once the backend is closed.\<close>

locale state_backend =
  fixes ops :: "'s StateBackend" and contents :: "'s \<Rightarrow> bytes \<Rightarrow> slice option"
    and inv :: "'s \<Rightarrow> bool" and ended :: "'s \<Rightarrow> bool"
  assumes get: "inv s \<Longrightarrow> \<not> ended s \<Longrightarrow>
      Get ops s k = (case contents s k of None \<Rightarrow> Inl ErrKeyNotFound | Some v \<Rightarrow> Inr v)"
    and get_ended: "ended s \<Longrightarrow> Get ops s k = Inl ErrBackendClosed"
    and put: "inv s \<Longrightarrow> Put ops s k v = (e, s') \<Longrightarrow> inv s' \<and> ended s' = ended s
      \<and> contents s' = (if e = None then (contents s)(k \<mapsto> v) else contents s) \<and> e \<noteq> Some ErrKeyNotFound"
    and delete: "inv s \<Longrightarrow> Delete ops s k = (e, s') \<Longrightarrow> inv s' \<and> ended s' = ended s
      \<and> contents s' = (if e = None then (contents s)(k := None) else contents s)
      \<and> (e = Some ErrKeyNotFound \<longrightarrow> contents s k = None) \<and> (\<not> ended s \<longrightarrow> e = None \<or> e = Some ErrKeyNotFound)"
    and iterate: "inv s \<Longrightarrow> keys_ok (Iterate ops s p)
      \<and> map_of (Iterate ops s p) = (\<lambda>k. if HasPrefix k p \<and> \<not> ended s then contents s k else None)"

lemma hashmap_put_law:
  assumes "keys_ok (hm_entries h)" "hm_Put h k v = (e, h')"
  shows "keys_ok (hm_entries h') \<and> hm_closed h' = hm_closed h
    \<and> map_of (hm_entries h') = (if e = None then (map_of (hm_entries h))(k \<mapsto> v) else map_of (hm_entries h))
    \<and> e \<noteq> Some ErrKeyNotFound"
proof (cases "hm_closed h")
  case True
  then show ?thesis using assms by (auto simp: hm_Put_def)
next
  case False
  show ?thesis
    using hm_Put_spec [OF assms(1) False, of k v] assms by (auto simp: Let_def split: if_splits)
qed

lemma hashmap_delete_law:
  assumes "keys_ok (hm_entries h)" "hm_Delete h k = (e, h')"
  shows "keys_ok (hm_entries h') \<and> hm_closed h' = hm_closed h
    \<and> map_of (hm_entries h') = (if e = None then (map_of (hm_entries h))(k := None) else map_of (hm_entries h))
    \<and> (e = Some ErrKeyNotFound \<longrightarrow> map_of (hm_entries h) k = None)
    \<and> (\<not> hm_closed h \<longrightarrow> e = None \<or> e = Some ErrKeyNotFound)"
proof (cases "hm_closed h")
  case True
  then show ?thesis using assms by (auto simp: hm_Delete_def)
next
  case False
  show ?thesis
    using hm_Delete_spec [OF assms(1) False, of k] assms by (auto split: option.splits)
qed

lemma hashmap_iterate_closed: "hm_closed h \<Longrightarrow> drain (hm_NewIterator h p) = []"
  by (subst drain.simps) (simp add: hm_NewIterator_def it_Next_def)

interpretation hashmap: state_backend hashmap_ops "\<lambda>h. map_of (hm_entries h)" "\<lambda>h. keys_ok (hm_entries h)" hm_closed
proof
  fix s :: HashMapStateBackend and k
  show "keys_ok (hm_entries s) \<Longrightarrow> \<not> hm_closed s \<Longrightarrow> Get hashmap_ops s k
      = (case map_of (hm_entries s) k of None \<Rightarrow> Inl ErrKeyNotFound | Some v \<Rightarrow> Inr v)"
    by (simp add: hashmap_ops_def hm_Get_spec)
  show "hm_closed s \<Longrightarrow> Get hashmap_ops s k = Inl ErrBackendClosed"
    by (simp add: hashmap_ops_def hm_Get_def)
next
  fix s :: HashMapStateBackend and p
  assume ok: "keys_ok (hm_entries s)"
  show "keys_ok (Iterate hashmap_ops s p) \<and> map_of (Iterate hashmap_ops s p)
      = (\<lambda>k. if HasPrefix k p \<and> \<not> hm_closed s then map_of (hm_entries s) k else None)"
  proof (cases "hm_closed s")
    case True
    then show ?thesis
      by (simp add: hashmap_ops_def hashmap_iterate_closed keys_ok_def fun_eq_iff)
  next
    case False
    then show ?thesis
      using keys_ok_filter [OF ok, of "\<lambda>e. HasPrefix (fst e) p"] map_of_filter_keys [of "\<lambda>k. HasPrefix k p" "hm_entries s"]
      by (simp add: hashmap_ops_def hm_Iterate_spec [OF ok])
  qed
qed (auto simp: hashmap_ops_def dest: hashmap_put_law hashmap_delete_law)

section \<open>The backend as a bounded map\<close>

text \<open>The operations of a client and what they answer. \<open>abstract_op\<close> is the specification: a
  partial map whose logical size never passes the limit (\<open>limit = 0\<close> for none), \<open>None\<close> once closed.\<close>

datatype backend_op = OPut bytes slice | OGet bytes | ODelete bytes | OIterate bytes | OMemUsage | OLen
  | OCheckpoint u64 | ORestore SnapshotHandle | OClose

datatype answer = AErr "state_error option" | AValue "state_error + slice" | APairs "(bytes \<times> slice) list"
  | ANumber int | AHandle "state_error + SnapshotHandle"

primrec apply_op :: "backend_op \<Rightarrow> HashMapStateBackend \<Rightarrow> answer \<times> HashMapStateBackend" where
  "apply_op (OPut k v) h = (case hm_Put h k v of (e, h') \<Rightarrow> (AErr e, h'))"
| "apply_op (OGet k) h = (AValue (hm_Get h k), h)"
| "apply_op (ODelete k) h = (case hm_Delete h k of (e, h') \<Rightarrow> (AErr e, h'))"
| "apply_op (OIterate p) h = (APairs (drain (hm_NewIterator h p)), h)"
| "apply_op OMemUsage h = (ANumber (MemUsage h), h)"
| "apply_op OLen h = (ANumber (int (Len h)), h)"
| "apply_op (OCheckpoint cid) h = (AHandle (hm_Checkpoint h cid), h)"
| "apply_op (ORestore handle) h = (case hm_Restore h handle of (e, h') \<Rightarrow> (AErr e, h'))"
| "apply_op OClose h = (case hm_Close h of (e, h') \<Rightarrow> (AErr e, h'))"

definition pairs_under :: "bytes \<Rightarrow> (bytes \<Rightarrow> slice option) \<Rightarrow> (bytes \<times> slice) list" where
  "pairs_under p c = map (\<lambda>k. (k, the (c k))) (sorted_list_of_set {k \<in> dom c. HasPrefix k p})"

text \<open>A snapshot handle of the specification: the pairs in ascending key order, in the format of the
  backend. A handle of another backend or one that does not decode is refused; the pairs of any other
  are the new map.\<close>

definition snapshot_of :: "u64 \<Rightarrow> (bytes \<Rightarrow> slice option) \<Rightarrow> SnapshotHandle" where
  "snapshot_of cid c = \<lparr>hd_CheckpointID = cid, hd_BackendType = StateBackendHashMap,
     hd_Data = serializeHashMapSnapshot (pairs_under [] c)\<rparr>"

definition snapshot_pairs :: "SnapshotHandle \<Rightarrow> state_error + (bytes \<times> slice) list" where
  "snapshot_pairs handle =
     (if hd_BackendType handle \<noteq> StateBackendHashMap then Inl ErrSnapshotCorrupt
      else deserializeHashMapSnapshot (hd_Data handle))"

fun abstract_op ::
  "int \<Rightarrow> backend_op \<Rightarrow> (bytes \<Rightarrow> slice option) option \<Rightarrow> answer \<times> (bytes \<Rightarrow> slice option) option" where
  "abstract_op limit (OPut k v) (Some c) =
     (if limit > 0 \<and> map_size (c(k \<mapsto> v)) > limit then (AErr (Some ErrMemoryLimitExceeded), Some c)
      else (AErr None, Some (c(k \<mapsto> v))))"
| "abstract_op limit (OGet k) (Some c) =
     (AValue (case c k of None \<Rightarrow> Inl ErrKeyNotFound | Some v \<Rightarrow> Inr v), Some c)"
| "abstract_op limit (ODelete k) (Some c) =
     (case c k of None \<Rightarrow> (AErr (Some ErrKeyNotFound), Some c) | Some _ \<Rightarrow> (AErr None, Some (c(k := None))))"
| "abstract_op limit (OIterate p) (Some c) = (APairs (pairs_under p c), Some c)"
| "abstract_op limit OMemUsage (Some c) = (ANumber (map_size c), Some c)"
| "abstract_op limit OLen (Some c) = (ANumber (int (card (dom c))), Some c)"
| "abstract_op limit (OCheckpoint cid) (Some c) = (AHandle (Inr (snapshot_of cid c)), Some c)"
| "abstract_op limit (ORestore handle) (Some c) =
     (case snapshot_pairs handle of
        Inl e \<Rightarrow> (AErr (Some e), Some c)
      | Inr es \<Rightarrow>
          if limit > 0 \<and> map_size (map_of es) > limit then (AErr (Some ErrMemoryLimitExceeded), Some c)
          else (AErr None, Some (map_of es)))"
| "abstract_op limit OClose (Some c) = (AErr None, None)"
| "abstract_op limit (OGet k) None = (AValue (Inl ErrBackendClosed), None)"
| "abstract_op limit (OIterate p) None = (APairs [], None)"
| "abstract_op limit OMemUsage None = (ANumber 0, None)"
| "abstract_op limit OLen None = (ANumber 0, None)"
| "abstract_op limit (OCheckpoint cid) None = (AHandle (Inl ErrBackendClosed), None)"
| "abstract_op limit (ORestore handle) None =
     (AErr (Some (case snapshot_pairs handle of Inl e \<Rightarrow> e | Inr es \<Rightarrow> ErrBackendClosed)), None)"
| "abstract_op limit op None = (AErr (Some ErrBackendClosed), None)"

primrec run_ops :: "('s \<Rightarrow> 'a \<times> 's) list \<Rightarrow> 's \<Rightarrow> 'a list \<times> 's" where
  "run_ops [] s = ([], s)"
| "run_ops (f # fs) s = (case f s of (a, s') \<Rightarrow> (case run_ops fs s' of (as, s'') \<Rightarrow> (a # as, s'')))"

text \<open>The bytes a client hands over. They bound what the backend holds.\<close>

primrec op_bytes :: "backend_op \<Rightarrow> int" where
  "op_bytes (OPut k v) = entry_size (k, v)"
| "op_bytes (OGet k) = 0"
| "op_bytes (ODelete k) = 0"
| "op_bytes (OIterate p) = 0"
| "op_bytes OMemUsage = 0"
| "op_bytes OLen = 0"
| "op_bytes (OCheckpoint cid) = 0"
| "op_bytes (ORestore handle) = int (length (hd_Data handle))"
| "op_bytes OClose = 0"

lemma op_bytes_nonneg [simp]: "0 \<le> op_bytes op"
  by (cases op) simp_all

text \<open>The reader of a snapshot does not check the order of the keys. A snapshot is ordered when it
  does not decode, or decodes to pairs whose keys ascend, as every snapshot does that the backend
  wrote itself.\<close>

definition snapshot_ordered :: "SnapshotHandle \<Rightarrow> bool" where
  "snapshot_ordered handle = (case snapshot_pairs handle of Inl e \<Rightarrow> True | Inr es \<Rightarrow> keys_ok es)"

primrec op_ordered :: "backend_op \<Rightarrow> bool" where
  "op_ordered (OPut k v) = True"
| "op_ordered (OGet k) = True"
| "op_ordered (ODelete k) = True"
| "op_ordered (OIterate p) = True"
| "op_ordered OMemUsage = True"
| "op_ordered OLen = True"
| "op_ordered (OCheckpoint cid) = True"
| "op_ordered (ORestore handle) = snapshot_ordered handle"
| "op_ordered OClose = True"

definition hm_inv :: "HashMapStateBackend \<Rightarrow> bool" where
  "hm_inv h = (keys_ok (hm_entries h) \<and> curMemBytes h = mem_size (hm_entries h)
     \<and> (hm_closed h \<longrightarrow> hm_entries h = []))"

definition abstraction :: "HashMapStateBackend \<Rightarrow> (bytes \<Rightarrow> slice option) option" where
  "abstraction h = (if hm_closed h then None else Some (map_of (hm_entries h)))"

lemma pairs_under_filter:
  assumes "keys_ok es"
  shows "filter (\<lambda>e. HasPrefix (fst e) p) es = pairs_under p (map_of es)"
proof -
  let ?es = "filter (\<lambda>e. HasPrefix (fst e) p) es"
  have ok: "sorted (map fst ?es)" "distinct (map fst ?es)" and d: "distinct (map fst es)"
    using keys_ok_filter [OF assms] assms by (simp_all add: keys_ok_def)
  have "{k \<in> dom (map_of es). HasPrefix k p} = set (map fst ?es)"
    by (auto simp: dom_map_of_conv_image_fst)
  then have "pairs_under p (map_of es) = map (\<lambda>k. (k, the (map_of es k))) (map fst ?es)"
    unfolding pairs_under_def using sorted_list_of_set.idem_if_sorted_distinct [OF ok] by simp
  also have "\<dots> = ?es"
    unfolding map_map by (rule map_idI) (use d in \<open>auto simp: map_of_is_SomeI\<close>)
  finally show ?thesis ..
qed

lemma mem_loop_size: "0 \<le> m \<Longrightarrow> m + mem_size es \<le> MaxInt64 \<Longrightarrow> mem_loop m es = m + mem_size es"
proof (induction es arbitrary: m)
  case (Cons e es)
  have "wrap64 (m + entry_size e) = m + entry_size e"
    using Cons.prems mem_size_nonneg [of es] entry_size_nonneg [of e]
    by (intro fits_wrap) (simp_all del: mem_size_nonneg entry_size_nonneg)
  then show ?case using Cons by (simp flip: entry_size_def)
qed simp

lemma snapshot_entries_size:
  "snapshot_entries n data payloadLen pos = Inr (es, pos') \<Longrightarrow> int pos + mem_size es \<le> int pos'"
proof (induction n arbitrary: pos es pos')
  case (Suc n)
  show ?case
    using Suc.prems
    by (auto simp: Let_def entry_size_def slice_len_def split: if_splits sum.splits prod.splits
        simp del: of_nat_unat dest!: Suc.IH)
qed simp

lemma deserialize_size:
  assumes "deserializeHashMapSnapshot data = Inr es"
  shows "mem_size es \<le> int (length data)"
proof -
  obtain n pos where "snapshot_entries n data (length data - 4) 5 = Inr (es, pos)" "pos = length data - 4"
    using assms by (auto simp: deserializeHashMapSnapshot_def Let_def split: if_splits sum.splits prod.splits)
  then show ?thesis using snapshot_entries_size [of n data "length data - 4" 5 es pos] by simp
qed

lemma hm_Restore_pairs:
  "hm_Restore h handle =
     (case snapshot_pairs handle of
        Inl e \<Rightarrow> (Some e, h)
      | Inr es \<Rightarrow>
          if hm_closed h then (Some ErrBackendClosed, h)
          else let memBytes = mem_loop 0 es in
            if memLimit h > 0 \<and> memBytes > memLimit h then (Some ErrMemoryLimitExceeded, h)
            else (None, h\<lparr>hm_entries := es, curMemBytes := memBytes\<rparr>))"
  by (simp add: hm_Restore_def snapshot_pairs_def split: sum.splits)

lemma snapshot_pairs_size: "snapshot_pairs handle = Inr es \<Longrightarrow> mem_size es \<le> int (length (hd_Data handle))"
  by (auto simp: snapshot_pairs_def deserialize_size split: if_splits)

lemma wrap_size:
  assumes "hm_inv h" "mem_size es \<le> MaxInt64"
  shows "wrap64 (curMemBytes h + (mem_size es - mem_size (hm_entries h))) = mem_size es"
  using assms fits_wrap [of "mem_size es"] by (simp add: hm_inv_def)

lemma closed_step:
  assumes "hm_inv h" "hm_closed h"
  shows "apply_op op h = (fst (abstract_op (memLimit h) op None), h) \<and> snd (abstract_op (memLimit h) op None) = None"
  using assms
  by (cases op) (simp_all add: hm_inv_def hm_Put_def hm_Get_def hm_Delete_def hm_Close_def MemUsage_def Len_def
    hm_Checkpoint_def hm_Restore_pairs hashmap_iterate_closed split: sum.split)

text \<open>One operation of the backend is one operation of the map.\<close>

lemma open_step:
  assumes inv: "hm_inv h" and up: "\<not> hm_closed h" and fits: "mem_size (hm_entries h) + op_bytes op \<le> MaxInt64"
    and ordered: "op_ordered op" and step: "apply_op op h = (a, h')"
  shows "abstract_op (memLimit h) op (Some (map_of (hm_entries h))) = (a, abstraction h') \<and> hm_inv h'
    \<and> memLimit h' = memLimit h \<and> mem_size (hm_entries h') \<le> mem_size (hm_entries h) + op_bytes op"
proof -
  have ok: "keys_ok (hm_entries h)" using inv by (simp add: hm_inv_def)
  note size = keys_ok_size [OF ok]
  show ?thesis
  proof (cases op)
    case (OPut k v)
    from hm_Put_spec [OF ok up, of k v] obtain es where es: "keys_ok es" "map_of es = (map_of (hm_entries h))(k \<mapsto> v)"
      "mem_size es \<le> mem_size (hm_entries h) + entry_size (k, v)"
      and put: "hm_Put h k v = (let mem = wrap64 (curMemBytes h + (mem_size es - mem_size (hm_entries h))) in
        if memLimit h > 0 \<and> mem > memLimit h then (Some ErrMemoryLimitExceeded, h)
        else (None, h\<lparr>hm_entries := es, curMemBytes := mem\<rparr>))"
      by (elim exE conjE) (rule that)
    have mem: "wrap64 (curMemBytes h + (mem_size es - mem_size (hm_entries h))) = mem_size es"
      by (rule wrap_size [OF inv]) (use es(3) fits in \<open>simp add: OPut\<close>)
    have "map_size ((map_of (hm_entries h))(k \<mapsto> v)) = mem_size es"
      using keys_ok_size [OF es(1)] by (simp add: es(2))
    then show ?thesis
      using step put es inv up unfolding OPut mem
      by (auto simp: Let_def abstraction_def hm_inv_def split: if_splits)
  next
    case (ODelete k)
    show ?thesis
    proof (cases "map_of (hm_entries h) k")
      case None
      then show ?thesis
        using step hm_Delete_spec [OF ok up, of k] inv up by (auto simp: ODelete abstraction_def)
    next
      case (Some v)
      from hm_Delete_spec [OF ok up, of k, unfolded Some option.case]
      obtain es where es: "keys_ok es" "map_of es = (map_of (hm_entries h))(k := None)"
        "mem_size es \<le> mem_size (hm_entries h)"
        and del: "hm_Delete h k = (None, h\<lparr>hm_entries := es,
          curMemBytes := wrap64 (curMemBytes h + (mem_size es - mem_size (hm_entries h)))\<rparr>)"
        by (elim exE conjE) (rule that)
      have mem: "wrap64 (curMemBytes h + (mem_size es - mem_size (hm_entries h))) = mem_size es"
        by (rule wrap_size [OF inv]) (use es(3) fits in \<open>simp add: ODelete\<close>)
      show ?thesis
        using step del es inv up Some unfolding ODelete mem by (auto simp: abstraction_def hm_inv_def)
    qed
  next
    case (OGet k)
    then show ?thesis using step inv up hm_Get_spec [OF ok up] by (auto simp: abstraction_def)
  next
    case (OIterate p)
    then show ?thesis
      using step inv up by (auto simp: abstraction_def hm_Iterate_spec [OF ok up] pairs_under_filter [OF ok])
  next
    case OMemUsage
    then show ?thesis using step inv up size by (auto simp: abstraction_def hm_inv_def MemUsage_def)
  next
    case OLen
    then show ?thesis using step inv up keys_ok_dom [OF ok] by (auto simp: abstraction_def Len_def)
  next
    case (OCheckpoint cid)
    have "pairs_under [] (map_of (hm_entries h)) = hm_entries h"
      using pairs_under_filter [OF ok, of "[]"] by (simp add: HasPrefix_def)
    then show ?thesis
      using OCheckpoint step inv up by (auto simp: abstraction_def hm_Checkpoint_def snapshot_of_def)
  next
    case (ORestore handle)
    show ?thesis
    proof (cases "snapshot_pairs handle")
      case (Inl e)
      then show ?thesis using ORestore step inv up by (auto simp: abstraction_def hm_Restore_pairs)
    next
      case (Inr es)
      have es: "keys_ok es" using ordered by (simp add: ORestore snapshot_ordered_def Inr)
      have "0 \<le> mem_size (hm_entries h)" by simp
      with snapshot_pairs_size [OF Inr]
      have stored: "mem_size es \<le> mem_size (hm_entries h) + int (length (hd_Data handle))" by linarith
      have "mem_loop 0 es = mem_size es"
        using mem_loop_size [of 0 es] fits stored by (simp add: ORestore)
      then have "hm_Restore h handle = (if memLimit h > 0 \<and> mem_size es > memLimit h
          then (Some ErrMemoryLimitExceeded, h) else (None, h\<lparr>hm_entries := es, curMemBytes := mem_size es\<rparr>))"
        using up by (simp add: hm_Restore_pairs Inr Let_def)
      then show ?thesis
        using step inv up es stored keys_ok_size [OF es]
        by (auto simp: ORestore Inr abstraction_def hm_inv_def split: if_splits)
    qed
  next
    case OClose
    then show ?thesis using step up by (auto simp: abstraction_def hm_inv_def hm_Close_def keys_ok_def)
  qed
qed

lemma op_step:
  assumes inv: "hm_inv h" and fits: "mem_size (hm_entries h) + op_bytes op \<le> MaxInt64"
    and ordered: "op_ordered op" and step: "apply_op op h = (a, h')"
  shows "abstract_op (memLimit h) op (abstraction h) = (a, abstraction h') \<and> hm_inv h'
    \<and> memLimit h' = memLimit h \<and> mem_size (hm_entries h') \<le> mem_size (hm_entries h) + op_bytes op"
proof (cases "hm_closed h")
  case True
  show ?thesis
    using closed_step [OF inv True, of op] step inv True
    by (cases "abstract_op (memLimit h) op None") (simp add: abstraction_def)
next
  case False
  then show ?thesis using open_step [OF inv False fits ordered step] by (simp add: abstraction_def)
qed

lemma ops_ordered:
  assumes "\<And>handle es. ORestore handle \<in> set ops \<Longrightarrow> snapshot_pairs handle = Inr es \<Longrightarrow>
    sorted (map fst es) \<and> distinct (map fst es)"
  shows "list_all op_ordered ops"
  unfolding list_all_iff
proof
  fix op
  assume "op \<in> set ops"
  with assms show "op_ordered op"
    by - (cases op, simp_all add: snapshot_ordered_def keys_ok_def split: sum.split)
qed

lemma ops_refine:
  assumes "hm_inv h" "mem_size (hm_entries h) + sum_list (map op_bytes ops) \<le> MaxInt64"
    "list_all op_ordered ops"
  shows "run_ops (map (abstract_op (memLimit h)) ops) (abstraction h)
      = (fst (run_ops (map apply_op ops) h), abstraction (snd (run_ops (map apply_op ops) h)))
    \<and> hm_inv (snd (run_ops (map apply_op ops) h))"
  using assms
proof (induction ops arbitrary: h)
  case (Cons op ops)
  obtain a h' where step: "apply_op op h = (a, h')" by (rule prod.exhaust)
  have rest: "0 \<le> sum_list (map op_bytes ops)"
    by (rule sum_list_nonneg) auto
  have head: "abstract_op (memLimit h) op (abstraction h) = (a, abstraction h') \<and> hm_inv h'
      \<and> memLimit h' = memLimit h \<and> mem_size (hm_entries h') \<le> mem_size (hm_entries h) + op_bytes op"
    by (rule op_step [OF Cons.prems(1) _ _ step]) (use Cons.prems(2,3) rest in simp_all)
  then show ?case
    using Cons.IH [of h'] Cons.prems(2,3) step by (auto split: prod.split)
qed simp

section \<open>Checkpoints and restores\<close>

text \<open>What a snapshot carries of a pair: a nil value comes back as an empty one.\<close>

definition carried :: "bytes \<times> slice \<Rightarrow> bytes \<times> slice" where
  "carried e = (fst e, Some (content (snd e)))"

text \<open>The sizes that the four-byte fields of the format hold, with the cap on the number of entries
  that the reader derives from the payload length in 32 bits.\<close>

definition snapshot_fits :: "(bytes \<times> slice) list \<Rightarrow> bool" where
  "snapshot_fits es = (5 + length (concat (map entry_bytes es)) < 2 ^ 35
     \<and> (\<forall>e \<in> set es. length (fst e) < 2 ^ 32 \<and> length (content (snd e)) < 2 ^ 32))"

lemma length_entry_bytes: "int (length (entry_bytes e)) = 8 + entry_size e"
  by (simp add: entry_bytes_def entry_size_def slice_len_def codec_simps)

lemma length_entries: "int (length (concat (map entry_bytes es))) = 8 * int (length es) + mem_size es"
  by (induction es) (simp_all add: length_entry_bytes)

lemma unat_of_nat_u32: "n < 2 ^ 32 \<Longrightarrow> unat (of_nat n :: u32) = n"
  by (simp add: unat_of_nat)

lemma snapshot_entries_read:
  assumes "\<forall>e \<in> set es. length (fst e) < 2 ^ 32 \<and> length (content (snd e)) < 2 ^ 32"
    and "drop pos data = concat (map entry_bytes es) @ suf"
    and "pos + length (concat (map entry_bytes es)) \<le> payloadLen"
  shows "snapshot_entries (length es) data payloadLen pos
    = Inr (map carried es, pos + length (concat (map entry_bytes es)))"
  using assms
proof (induction es arbitrary: pos)
  case (Cons e es)
  let ?k = "fst e" and ?v = "content (snd e)"
  let ?rest = "concat (map entry_bytes es)"
  have lens: "unat (of_nat (length ?k) :: u32) = length ?k" "unat (of_nat (length ?v) :: u32) = length ?v"
    using Cons.prems(1) by (simp_all add: unat_of_nat_u32)
  have d0: "drop pos data = PutUint32LE (of_nat (length ?k)) @ ?k @ PutUint32LE (of_nat (length ?v)) @ ?v @ ?rest @ suf"
    using Cons.prems(2) by (simp add: entry_bytes_def [of e])
  have d1: "drop (pos + 4) data = ?k @ PutUint32LE (of_nat (length ?v)) @ ?v @ ?rest @ suf"
    using arg_cong [OF d0, of "drop 4"] by (simp add: codec_simps add.commute)
  have d2: "drop (pos + 4 + length ?k) data = PutUint32LE (of_nat (length ?v)) @ ?v @ ?rest @ suf"
    using arg_cong [OF d1, of "drop (length ?k)"] by (simp add: add.commute add.left_commute)
  have d3: "drop (pos + 4 + length ?k + 4) data = ?v @ ?rest @ suf"
    using arg_cong [OF d2, of "drop 4"] by (simp add: codec_simps add.commute add.left_commute)
  have d4: "drop (pos + 4 + length ?k + 4 + length ?v) data = ?rest @ suf"
    using arg_cong [OF d3, of "drop (length ?v)"] by (simp add: add.commute add.left_commute)
  have len: "length (entry_bytes e) = 4 + length ?k + 4 + length ?v"
    by (simp add: entry_bytes_def codec_simps)
  have room: "pos + (4 + length ?k + 4 + length ?v) + length ?rest \<le> payloadLen"
    using Cons.prems(3) len by simp
  have ih: "snapshot_entries (length es) data payloadLen (pos + 4 + length ?k + 4 + length ?v)
      = Inr (map carried es, pos + 4 + length ?k + 4 + length ?v + length ?rest)"
    by (rule Cons.IH) (use Cons.prems(1) d4 room in \<open>simp_all add: add.assoc\<close>)
  show ?case
    using room ih len d3 by (simp add: d0 d1 d2 codec_simps lens carried_def Let_def)
qed simp

lemma deserialize_snapshot:
  assumes "snapshot_fits es"
  shows "deserializeHashMapSnapshot (serializeHashMapSnapshot es) = Inr (map carried es)"
proof -
  let ?body = "concat (map entry_bytes es)"
  define buf where "buf = [hashMapSnapshotVersion] @ PutUint32LE (of_nat (length es)) @ ?body"
  define data where "data = buf @ PutUint32LE (ChecksumIEEE buf)"
  have ser: "serializeHashMapSnapshot es = data"
    by (simp add: serializeHashMapSnapshot_def data_def buf_def)
  have lb: "length buf = 5 + length ?body" "length data = length buf + 4"
    by (simp_all add: buf_def data_def codec_simps)
  have "8 * length es \<le> length ?body"
    using length_entries [of es] mem_size_nonneg [of es] by linarith
  then have n: "length es \<le> length buf div 8" "length buf div 8 < 2 ^ 32"
    using assms lb(1) less_mult_imp_div_less [of "length buf" "2 ^ 32" 8] by (simp_all add: snapshot_fits_def)
  have cap: "\<not> (of_nat (length buf div 8) :: u32) < of_nat (length es)"
    using n by (simp add: word_less_nat_alt unat_of_nat)
  have count: "unat (of_nat (length es) :: u32) = length es"
    using n by (intro unat_of_nat_u32) linarith
  have d5: "drop 5 data = ?body @ PutUint32LE (ChecksumIEEE buf)"
    by (simp add: data_def buf_def codec_simps)
  have read: "snapshot_entries (length es) data (length buf) 5 = Inr (map carried es, 5 + length ?body)"
    by (rule snapshot_entries_read [OF _ d5]) (use assms lb in \<open>simp_all add: snapshot_fits_def\<close>)
  have parts: "take (length buf) data = buf" "drop (length buf) data = PutUint32LE (ChecksumIEEE buf)"
    by (simp_all add: data_def)
  have fields: "data ! 0 = hashMapSnapshotVersion" "take 4 (drop 1 data) = PutUint32LE (of_nat (length es))"
    by (simp_all add: data_def buf_def codec_simps)
  have "deserializeHashMapSnapshot data = Inr (map carried es)"
    unfolding deserializeHashMapSnapshot_def Let_def lb(2) diff_add_inverse2 parts fields
    using cap read lb(1) by (simp add: codec_simps count)
  then show ?thesis by (simp add: ser)
qed

text \<open>C11. The in-memory state backend is a partial map of bounded size. Whatever operations its
  clients run, checkpoints and restores included, every answer is the one of the map: a read returns
  the last value put and not deleted since, an iterator yields the pairs under its prefix in ascending
  key order, a put is refused exactly when the map with the pair in it would pass the limit and then
  changes nothing, a checkpoint carries the pairs of the map in ascending key order, a restore
  replaces the map by the pairs of the snapshot unless the snapshot is corrupt or passes the limit,
  and then changes nothing, the memory counter is the size of the map, and after closing every
  operation with an error result reports it. Two things are required of the client: the operations
  together hand over fewer bytes than an \<^verbatim>\<open>int64\<close> counts, and a snapshot that it restores and that
  decodes has ascending keys. The reader does not check that order: without it the restored backend
  misses keys (\<open>unsorted_snapshot_accepted\<close>).\<close>

theorem hashmap_refines_bounded_map:
  assumes "sum_list (map op_bytes ops) \<le> MaxInt64"
    and "\<And>handle es. ORestore handle \<in> set ops \<Longrightarrow> snapshot_pairs handle = Inr es \<Longrightarrow>
      sorted (map fst es) \<and> distinct (map fst es)"
  shows "fst (run_ops (map apply_op ops) (NewHashMapStateBackend limit))
    = fst (run_ops (map (abstract_op limit) ops) (Some Map.empty))"
proof -
  let ?h = "NewHashMapStateBackend limit"
  have "hm_inv ?h" "memLimit ?h = limit" "abstraction ?h = Some Map.empty" "hm_entries ?h = []"
    by (simp_all add: NewHashMapStateBackend_def hm_inv_def abstraction_def keys_ok_def)
  then show ?thesis using ops_refine [OF _ _ ops_ordered [OF assms(2)], of ?h] assms(1) by simp
qed

text \<open>A client that overwrites and deletes under a limit of eight bytes, takes a checkpoint, restores a
  snapshot, fails to restore a truncated one, and closes.\<close>

definition example_pairs :: "(bytes \<times> slice) list" where
  "example_pairs = [([1], Some [4]), ([2], Some [])]"

definition example_handle :: "bytes \<Rightarrow> SnapshotHandle" where
  "example_handle data = \<lparr>hd_CheckpointID = 7, hd_BackendType = StateBackendHashMap, hd_Data = data\<rparr>"

definition example_ops :: "backend_op list" where
  "example_ops = [OPut [1] (Some [2, 3]), OPut [1] (Some [4]), OPut [0] (Some [1, 2, 3, 4, 5, 6]),
     OGet [1], OCheckpoint 7, ODelete [1], OGet [1],
     ORestore (example_handle (serializeHashMapSnapshot example_pairs)),
     ORestore (example_handle [1, 0]), OGet [1], OClose]"

theorem hashmap_refines_bounded_map_witness:
  "fst (run_ops (map apply_op example_ops) (NewHashMapStateBackend 8))
    = fst (run_ops (map (abstract_op 8) example_ops) (Some Map.empty))"
proof (rule hashmap_refines_bounded_map)
  show "sum_list (map op_bytes example_ops) \<le> MaxInt64"
    by (simp add: example_ops_def example_handle_def example_pairs_def serializeHashMapSnapshot_def
        entry_bytes_def codec_simps entry_size_def slice_len_def MaxInt64_def Let_def)
  have "snapshot_fits example_pairs"
    by (simp add: example_pairs_def snapshot_fits_def entry_bytes_def codec_simps)
  from deserialize_snapshot [OF this]
  have "snapshot_pairs (example_handle (serializeHashMapSnapshot example_pairs)) = Inr example_pairs"
    by (simp add: snapshot_pairs_def example_handle_def example_pairs_def carried_def)
  moreover have "snapshot_pairs (example_handle [1, 0]) = Inl ErrSnapshotCorrupt"
    by (simp add: snapshot_pairs_def example_handle_def deserializeHashMapSnapshot_def)
  moreover have "[1 :: byte] \<le> [2]" by (simp add: list_le_def list_less_def lexord_cons_cons)
  ultimately show "sorted (map fst es) \<and> distinct (map fst es)"
    if "ORestore handle \<in> set example_ops" "snapshot_pairs handle = Inr es" for handle es
    using that by (auto simp: example_ops_def example_pairs_def)
qed

text \<open>A change of up to four neighbouring bytes is detected, wherever it is.\<close>

lemma corrupted_snapshot:
  assumes data: "serializeHashMapSnapshot es = pre @ w @ post"
    and burst: "length w = length w'" "length w \<le> 4" "w \<noteq> w'"
  shows "deserializeHashMapSnapshot (pre @ w' @ post) = Inl ErrSnapshotCorrupt"
proof -
  define buf where "buf = [hashMapSnapshotVersion] @ PutUint32LE (of_nat (length es)) @ concat (map entry_bytes es)"
  have ser: "buf @ PutUint32LE (ChecksumIEEE buf) = pre @ w @ post"
    using data by (simp add: serializeHashMapSnapshot_def buf_def)
  let ?d = "pre @ w' @ post"
  have len: "length ?d = length buf + 4"
    using arg_cong [OF ser, of length] burst(1) by (simp add: codec_simps)
  have "Uint32LE (drop (length buf) ?d) \<noteq> crc32_Update 0 IEEE (take (length buf) ?d)"
  proof (rule ieee.burst_breaks_trailer [OF ser _ _ append_take_drop_id _ burst])
    show "Uint32LE (PutUint32LE (ChecksumIEEE buf)) = crc32_Update 0 IEEE buf"
      by (simp add: codec_simps ChecksumIEEE_def)
  qed (use len in \<open>simp_all add: codec_simps\<close>)
  then show ?thesis
    using len by (simp add: deserializeHashMapSnapshot_def Let_def buf_def codec_simps ChecksumIEEE_def)
qed

lemma carried_keys: "keys_ok es \<Longrightarrow> keys_ok (map carried es)"
  by (simp add: keys_ok_def carried_def comp_def)

lemma carried_contents: "map_of (map carried es) k = map_option (\<lambda>v. Some (content v)) (map_of es k)"
  by (induction es) (simp_all add: carried_def)

lemma carried_size: "mem_size (map carried es) = mem_size es"
  by (induction es) (simp_all add: carried_def entry_size_def slice_len_def)

lemma restored_snapshot:
  assumes "hm_inv h" "snapshot_fits (hm_entries h)" "\<not> hm_closed r"
    and "memLimit r > 0 \<Longrightarrow> curMemBytes h \<le> memLimit r"
  shows "hm_Restore r \<lparr>hd_CheckpointID = cid, hd_BackendType = StateBackendHashMap, hd_Data = serializeHashMapSnapshot (hm_entries h)\<rparr>
    = (None, r\<lparr>hm_entries := map carried (hm_entries h), curMemBytes := curMemBytes h\<rparr>)"
proof -
  have "mem_size (hm_entries h) < 2 ^ 35"
    using assms(2) length_entries [of "hm_entries h"] by (simp add: snapshot_fits_def)
  then have "mem_loop 0 (map carried (hm_entries h)) = mem_size (hm_entries h)"
    using mem_loop_size [of 0 "map carried (hm_entries h)"] by (simp add: carried_size MaxInt64_def)
  then show ?thesis
    using assms by (auto simp: hm_Restore_def Let_def deserialize_snapshot hm_inv_def)
qed

text \<open>C12. A checkpoint of the in-memory backend, taken after any operations (a restored snapshot
  that decodes having ascending keys), restores the same state into any open backend whose limit has
  room for it: every read of the restored backend gives what a read of the checkpointed one gives (an
  absent value as absent, but a nil value as an empty one), and the memory counter is the same. The
  state must fit the format (\<open>snapshot_fits\<close>): every key and value is shorter than 2^32 bytes and the
  snapshot shorter than 2^35, the sizes that its 32-bit fields and the reader's cap on the number of
  entries can carry. If up to four neighbouring bytes of the snapshot have changed, wherever they are,
  the restore reports a corrupt snapshot and keeps the old state.\<close>

theorem snapshot_restores_state:
  assumes "sum_list (map op_bytes ops) \<le> MaxInt64"
    and ordered: "\<And>handle es. ORestore handle \<in> set ops \<Longrightarrow> snapshot_pairs handle = Inr es \<Longrightarrow>
      sorted (map fst es) \<and> distinct (map fst es)"
    and h: "h = snd (run_ops (map apply_op ops) (NewHashMapStateBackend limit))" "\<not> hm_closed h"
    and fits: "snapshot_fits (hm_entries h)" and r: "\<not> hm_closed r" "memLimit r > 0 \<longrightarrow> MemUsage h \<le> memLimit r"
  shows "\<exists>handle r'. hm_Checkpoint h cid = Inr handle \<and> hm_Restore r handle = (None, r')
    \<and> (\<forall>k. hm_Get r' k = map_sum id (\<lambda>v. Some (content v)) (hm_Get h k)) \<and> MemUsage r' = MemUsage h
    \<and> (\<forall>pre w w' post. hd_Data handle = pre @ w @ post \<and> length w' = length w \<and> length w \<le> 4 \<and> w' \<noteq> w
        \<longrightarrow> hm_Restore r (handle\<lparr>hd_Data := pre @ w' @ post\<rparr>) = (Some ErrSnapshotCorrupt, r))"
proof -
  have "hm_inv (NewHashMapStateBackend limit)"
    by (simp add: NewHashMapStateBackend_def hm_inv_def keys_ok_def)
  then have inv: "hm_inv h"
    using ops_refine [OF _ _ ops_ordered [OF ordered], of "NewHashMapStateBackend limit"] assms(1) unfolding h(1)
    by (simp add: NewHashMapStateBackend_def)
  let ?handle = "\<lparr>hd_CheckpointID = cid, hd_BackendType = StateBackendHashMap, hd_Data = serializeHashMapSnapshot (hm_entries h)\<rparr>"
  let ?r = "r\<lparr>hm_entries := map carried (hm_entries h), curMemBytes := curMemBytes h\<rparr>"
  have restore: "hm_Restore r ?handle = (None, ?r)"
    using restored_snapshot [OF inv fits r(1)] r(2) by (simp add: MemUsage_def)
  have ok: "keys_ok (hm_entries h)" using inv by (simp add: hm_inv_def)
  have gets: "hm_Get ?r k = map_sum id (\<lambda>v. Some (content v)) (hm_Get h k)" for k
    using r(1) h(2) ok carried_keys [OF ok]
    by (simp add: hm_Get_spec carried_contents split: option.split)
  have bad: "hm_Restore r (?handle\<lparr>hd_Data := pre @ w' @ post\<rparr>) = (Some ErrSnapshotCorrupt, r)"
    if "hd_Data ?handle = pre @ w @ post \<and> length w' = length w \<and> length w \<le> 4 \<and> w' \<noteq> w" for pre w w' post
    using that corrupted_snapshot [of "hm_entries h" pre w post w'] by (auto simp: hm_Restore_def)
  show ?thesis
  proof (intro exI conjI)
    show "hm_Checkpoint h cid = Inr ?handle" using h(2) by (simp add: hm_Checkpoint_def)
    show "hm_Restore r ?handle = (None, ?r)" by (rule restore)
    show "\<forall>k. hm_Get ?r k = map_sum id (\<lambda>v. Some (content v)) (hm_Get h k)" by (rule allI) (rule gets)
    show "MemUsage ?r = MemUsage h" by (simp add: MemUsage_def)
  qed (intro allI impI, rule bad)
qed

text \<open>One pair, checkpointed and restored into a backend with a limit of eight bytes.\<close>

theorem snapshot_restores_state_witness:
  "\<exists>handle r'. hm_Checkpoint (snd (run_ops (map apply_op [OPut [7] (Some [1, 2])]) (NewHashMapStateBackend 0))) 3 = Inr handle
    \<and> hm_Restore (NewHashMapStateBackend 8) handle = (None, r')
    \<and> hm_Get r' [7] = map_sum id (\<lambda>v. Some (content v))
        (hm_Get (snd (run_ops (map apply_op [OPut [7] (Some [1, 2])]) (NewHashMapStateBackend 0))) [7])"
proof -
  let ?ops = "[OPut [7] (Some [1, 2])]"
  define h where "h = snd (run_ops (map apply_op ?ops) (NewHashMapStateBackend 0))"
  have h: "h = \<lparr>hm_entries = [([7], Some [1, 2])], curMemBytes = 3, memLimit = 0, hm_closed = False\<rparr>"
    by (simp add: h_def hm_Put_def NewHashMapStateBackend_def Let_def hm_search_def sort_Search_def
        search_loop.simps slice_len_def wrap64_def)
  have size: "sum_list (map op_bytes ?ops) \<le> MaxInt64"
    by (simp add: entry_size_def slice_len_def MaxInt64_def)
  have "snapshot_fits (hm_entries h)"
    by (simp add: h snapshot_fits_def entry_bytes_def codec_simps)
  then show ?thesis
    using snapshot_restores_state [OF size _ h_def, of "NewHashMapStateBackend 8" 3]
    unfolding h_def [symmetric] by (auto simp: h NewHashMapStateBackend_def MemUsage_def)
qed

text \<open>The reader of a snapshot does not check the order of the keys. A snapshot whose checksum is
  right and whose keys descend is restored, and none of its keys is found afterwards.\<close>

lemma unsorted_snapshot_accepted:
  defines "es \<equiv> [([2], Some []), ([1], Some [])] :: (bytes \<times> slice) list"
  defines "r \<equiv> snd (hm_Restore (NewHashMapStateBackend 0)
    \<lparr>hd_CheckpointID = 0, hd_BackendType = StateBackendHashMap, hd_Data = serializeHashMapSnapshot es\<rparr>)"
  shows "hm_entries r = es \<and> hm_Get r [1] = Inl ErrKeyNotFound \<and> hm_Get r [2] = Inl ErrKeyNotFound"
proof -
  have fits: "snapshot_fits es" by (simp add: es_def snapshot_fits_def entry_bytes_def codec_simps)
  have "map carried es = es" by (simp add: es_def carried_def)
  then have "hm_entries r = es \<and> \<not> hm_closed r"
    by (simp add: r_def hm_Restore_def deserialize_snapshot [OF fits] NewHashMapStateBackend_def Let_def)
  then show ?thesis
    by (simp add: es_def hm_Get_def Let_def hm_search_def sort_Search_def search_loop.simps)
qed

end
