(* ===== verification/Keyed_State.thy ===== *)
theory Keyed_State
  imports State_Backend
begin

text \<open>The keyed state of process functions (\<^verbatim>\<open>sdk/backend_state.go\<close>, interfaces in
  \<^verbatim>\<open>sdk/state.go\<close>) and the operator that runs them (the process adapter of
  \<^verbatim>\<open>sdk/embedded.go\<close>). Value, list and map states of an event key live in one flat state
  backend, under byte keys made of a kind, the event key and the name of the state.

  A process function is user code. It is a \<open>prog\<close>: a sequence of accesses to its states, each of
  which may depend on what the earlier ones returned, that ends with a result. A Go string is its
  bytes. The JSON codec of list states is the argument \<open>js\<close>.\<close>

section \<open>The context of an invocation\<close>

datatype context_error = StateFailed state_error | JsonFailed

record 's backendProcessContext =
  pc_key :: bytes
  pc_backend :: 's
  pc_err :: "context_error option"

record list_json =
  js_Marshal :: "slice list \<Rightarrow> bytes option"
  js_Unmarshal :: "bytes \<Rightarrow> slice list \<times> bool"

definition stateKey :: "byte \<Rightarrow> bytes \<Rightarrow> bytes \<Rightarrow> bytes" where
  "stateKey kind key name =
     [kind] @ PutUint64BE (of_nat (length key)) @ key @ PutUint64BE (of_nat (length name)) @ name"

definition ctx_fail :: "context_error option \<Rightarrow> 's backendProcessContext \<Rightarrow> 's backendProcessContext" where
  "ctx_fail err c = (if err \<noteq> None \<and> pc_err c = None then c\<lparr>pc_err := err\<rparr> else c)"

definition ctx_get :: "'s StateBackend \<Rightarrow> bytes \<Rightarrow> 's backendProcessContext \<Rightarrow> slice \<times> 's backendProcessContext" where
  "ctx_get ops key c =
     (if pc_err c \<noteq> None then (None, c)
      else case Get ops (pc_backend c) key of
        Inl e \<Rightarrow> if e = ErrKeyNotFound then (None, c) else (None, ctx_fail (Some (StateFailed e)) c)
      | Inr v \<Rightarrow> (v, c))"

definition ctx_put :: "'s StateBackend \<Rightarrow> bytes \<Rightarrow> slice \<Rightarrow> 's backendProcessContext \<Rightarrow> 's backendProcessContext" where
  "ctx_put ops key v c =
     (if pc_err c = None
      then case Put ops (pc_backend c) key v of
        (e, b) \<Rightarrow> ctx_fail (map_option StateFailed e) (c\<lparr>pc_backend := b\<rparr>)
      else c)"

definition ctx_remove :: "'s StateBackend \<Rightarrow> bytes \<Rightarrow> 's backendProcessContext \<Rightarrow> 's backendProcessContext" where
  "ctx_remove ops key c =
     (if pc_err c \<noteq> None then c
      else case Delete ops (pc_backend c) key of
        (e, b) \<Rightarrow>
          if e \<noteq> Some ErrKeyNotFound then ctx_fail (map_option StateFailed e) (c\<lparr>pc_backend := b\<rparr>)
          else c\<lparr>pc_backend := b\<rparr>)"

section \<open>Value, list and map states\<close>

text \<open>The kinds are the characters \<^verbatim>\<open>v\<close>, \<^verbatim>\<open>l\<close> and \<^verbatim>\<open>m\<close>.\<close>

definition value_key :: "'s backendProcessContext \<Rightarrow> bytes \<Rightarrow> bytes" where
  "value_key c name = stateKey 0x76 (pc_key c) name"

definition list_key :: "'s backendProcessContext \<Rightarrow> bytes \<Rightarrow> bytes" where
  "list_key c name = stateKey 0x6C (pc_key c) name"

definition map_prefix :: "'s backendProcessContext \<Rightarrow> bytes \<Rightarrow> bytes" where
  "map_prefix c name = stateKey 0x6D (pc_key c) name"

definition value_Get :: "'s StateBackend \<Rightarrow> bytes \<Rightarrow> 's backendProcessContext \<Rightarrow> slice \<times> 's backendProcessContext" where
  "value_Get ops name c = ctx_get ops (value_key c name) c"

definition value_Set :: "'s StateBackend \<Rightarrow> bytes \<Rightarrow> slice \<Rightarrow> 's backendProcessContext \<Rightarrow> 's backendProcessContext" where
  "value_Set ops name v c = ctx_put ops (value_key c name) v c"

definition value_Clear :: "'s StateBackend \<Rightarrow> bytes \<Rightarrow> 's backendProcessContext \<Rightarrow> 's backendProcessContext" where
  "value_Clear ops name c = ctx_remove ops (value_key c name) c"

definition list_Get ::
  "list_json \<Rightarrow> 's StateBackend \<Rightarrow> bytes \<Rightarrow> 's backendProcessContext \<Rightarrow> slice list \<times> 's backendProcessContext" where
  "list_Get js ops name c =
     (case ctx_get ops (list_key c name) c of
        (None, c) \<Rightarrow> ([], c)
      | (Some data, c) \<Rightarrow>
          (case js_Unmarshal js data of
             (vs, ok) \<Rightarrow> (vs, ctx_fail (if ok then None else Some JsonFailed) c)))"

definition list_Add ::
  "list_json \<Rightarrow> 's StateBackend \<Rightarrow> bytes \<Rightarrow> slice \<Rightarrow> 's backendProcessContext \<Rightarrow> 's backendProcessContext" where
  "list_Add js ops name v c =
     (case list_Get js ops name c of
        (vs, c) \<Rightarrow>
          let data = js_Marshal js (vs @ [v]);
              c = ctx_fail (if data = None then Some JsonFailed else None) c in
          ctx_put ops (list_key c name) data c)"

definition list_Clear :: "'s StateBackend \<Rightarrow> bytes \<Rightarrow> 's backendProcessContext \<Rightarrow> 's backendProcessContext" where
  "list_Clear ops name c = ctx_remove ops (list_key c name) c"

definition map_Get ::
  "'s StateBackend \<Rightarrow> bytes \<Rightarrow> bytes \<Rightarrow> 's backendProcessContext \<Rightarrow> slice \<times> 's backendProcessContext" where
  "map_Get ops name key c = ctx_get ops (map_prefix c name @ key) c"

definition map_Put ::
  "'s StateBackend \<Rightarrow> bytes \<Rightarrow> bytes \<Rightarrow> slice \<Rightarrow> 's backendProcessContext \<Rightarrow> 's backendProcessContext" where
  "map_Put ops name key v c = ctx_put ops (map_prefix c name @ key) v c"

definition map_Delete ::
  "'s StateBackend \<Rightarrow> bytes \<Rightarrow> bytes \<Rightarrow> 's backendProcessContext \<Rightarrow> 's backendProcessContext" where
  "map_Delete ops name key c = ctx_remove ops (map_prefix c name @ key) c"

definition map_Keys :: "'s StateBackend \<Rightarrow> bytes \<Rightarrow> 's backendProcessContext \<Rightarrow> bytes list" where
  "map_Keys ops name c =
     (if pc_err c \<noteq> None then []
      else map (\<lambda>kv. drop (length (map_prefix c name)) (fst kv)) (Iterate ops (pc_backend c) (map_prefix c name)))"

definition map_Clear :: "'s StateBackend \<Rightarrow> bytes \<Rightarrow> 's backendProcessContext \<Rightarrow> 's backendProcessContext" where
  "map_Clear ops name c = fold (map_Delete ops name) (map_Keys ops name c) c"

section \<open>Process functions\<close>

datatype 'r prog =
    Return 'r
  | ValueGet bytes "slice \<Rightarrow> 'r prog"
  | ValueSet bytes slice "'r prog"
  | ValueClear bytes "'r prog"
  | ListGet bytes "slice list \<Rightarrow> 'r prog"
  | ListAdd bytes slice "'r prog"
  | ListClear bytes "'r prog"
  | MapGet bytes bytes "slice \<Rightarrow> 'r prog"
  | MapPut bytes bytes slice "'r prog"
  | MapDelete bytes bytes "'r prog"
  | MapKeys bytes "bytes list \<Rightarrow> 'r prog"
  | MapClear bytes "'r prog"

primrec run_prog ::
  "list_json \<Rightarrow> 's StateBackend \<Rightarrow> 'r prog \<Rightarrow> 's backendProcessContext \<Rightarrow> 'r \<times> 's backendProcessContext" where
  "run_prog js ops (Return r) c = (r, c)"
| "run_prog js ops (ValueGet n f) c = (case value_Get ops n c of (v, c) \<Rightarrow> run_prog js ops (f v) c)"
| "run_prog js ops (ValueSet n v p) c = run_prog js ops p (value_Set ops n v c)"
| "run_prog js ops (ValueClear n p) c = run_prog js ops p (value_Clear ops n c)"
| "run_prog js ops (ListGet n f) c = (case list_Get js ops n c of (vs, c) \<Rightarrow> run_prog js ops (f vs) c)"
| "run_prog js ops (ListAdd n v p) c = run_prog js ops p (list_Add js ops n v c)"
| "run_prog js ops (ListClear n p) c = run_prog js ops p (list_Clear ops n c)"
| "run_prog js ops (MapGet n k f) c = (case map_Get ops n k c of (v, c) \<Rightarrow> run_prog js ops (f v) c)"
| "run_prog js ops (MapPut n k v p) c = run_prog js ops p (map_Put ops n k v c)"
| "run_prog js ops (MapDelete n k p) c = run_prog js ops p (map_Delete ops n k c)"
| "run_prog js ops (MapKeys n f) c = run_prog js ops (f (map_Keys ops n c)) c"
| "run_prog js ops (MapClear n p) c = run_prog js ops p (map_Clear ops n c)"

text \<open>The process adapter. Its process function returns events and an error; \<open>adapter_FlatMap\<close> answers with the
  two joined errors, the emitted events and the backend.\<close>

type_synonym 'u ProcessFunc = "Event \<Rightarrow> (Event list \<times> 'u option) prog"

definition adapter_FlatMap ::
  "list_json \<Rightarrow> 's StateBackend \<Rightarrow> 'u ProcessFunc \<Rightarrow> Event \<Rightarrow> 's
    \<Rightarrow> ('u option \<times> context_error option) \<times> Event list \<times> 's" where
  "adapter_FlatMap js ops fn event backend =
     (case run_prog js ops (fn event) \<lparr>pc_key = Key event, pc_backend = backend, pc_err = None\<rparr> of
        ((results, err), pctx) \<Rightarrow>
          if (err, pc_err pctx) \<noteq> (None, None) then ((err, pc_err pctx), [], pc_backend pctx)
          else ((None, None), results, pc_backend pctx))"

text \<open>The backend of an adapter is nil before it is opened and after it is closed. \<open>cleaned\<close> says
  whether the temporary directory has been removed.\<close>

record 's processAdapter =
  pa_backend :: "'s option"
  pa_cleaned :: bool

definition adapter_Close ::
  "'s StateBackend \<Rightarrow> 's processAdapter \<Rightarrow> state_error option \<times> 's processAdapter" where
  "adapter_Close ops a =
     (case pa_backend a of
        None \<Rightarrow> (None, a)
      | Some b \<Rightarrow> (fst (Close ops b), a\<lparr>pa_backend := None, pa_cleaned := True\<rparr>))"

definition adapter_CheckpointState :: "'s StateBackend \<Rightarrow> 's processAdapter \<Rightarrow> u64 \<Rightarrow> state_error + SnapshotHandle" where
  "adapter_CheckpointState ops a cid =
     (case pa_backend a of None \<Rightarrow> Inl ErrBackendClosed | Some b \<Rightarrow> Checkpoint ops b cid)"

definition adapter_RestoreState ::
  "'s StateBackend \<Rightarrow> 's processAdapter \<Rightarrow> SnapshotHandle \<Rightarrow> state_error option \<times> 's processAdapter" where
  "adapter_RestoreState ops a handle =
     (case pa_backend a of
        None \<Rightarrow> (Some ErrBackendClosed, a)
      | Some b \<Rightarrow> (case Restore ops b handle of (e, b') \<Rightarrow> (e, a\<lparr>pa_backend := Some b'\<rparr>)))"

section \<open>The layout of state keys\<close>

lemma append_less: "p @ a < p @ (b :: 'a::linorder list) \<longleftrightarrow> a < b"
  by (induction p) simp_all

lemma length_word_inject:
  "length a < 2 ^ 64 \<Longrightarrow> length b < 2 ^ 64 \<Longrightarrow> PutUint64BE (of_nat (length a)) = PutUint64BE (of_nat (length b))
    \<Longrightarrow> length a = length b"
proof -
  assume lens: "length a < 2 ^ 64" "length b < 2 ^ 64"
    and eq: "PutUint64BE (of_nat (length a)) = PutUint64BE (of_nat (length b))"
  have "(of_nat (length a) :: u64) = of_nat (length b)"
    using arg_cong [OF eq, of Uint64BE] by (simp add: codec_simps)
  then have "unat (of_nat (length a) :: u64) = unat (of_nat (length b) :: u64)" by simp
  then show ?thesis using lens by (simp add: unat_of_nat)
qed

text \<open>A length-prefixed string is read back unambiguously, whatever follows it.\<close>

lemma prefixed_inject:
  assumes "length a < 2 ^ 64" "length b < 2 ^ 64"
    and "PutUint64BE (of_nat (length a)) @ a @ r = PutUint64BE (of_nat (length b)) @ b @ s"
  shows "a = b \<and> r = s"
proof -
  have "PutUint64BE (of_nat (length a)) = PutUint64BE (of_nat (length b)) \<and> a @ r = b @ s"
    using assms(3) by (simp add: append_eq_append_conv codec_simps)
  then show ?thesis using length_word_inject [OF assms(1,2)] by simp
qed

lemma stateKey_inject:
  assumes "length k < 2 ^ 64" "length k' < 2 ^ 64" "length n < 2 ^ 64" "length n' < 2 ^ 64"
  shows "stateKey c k n @ r = stateKey c' k' n' @ r' \<longleftrightarrow> c = c' \<and> k = k' \<and> n = n' \<and> r = r'"
proof
  assume "stateKey c k n @ r = stateKey c' k' n' @ r'"
  then have "c = c'" and
    eq: "PutUint64BE (of_nat (length k)) @ k @ PutUint64BE (of_nat (length n)) @ n @ r
       = PutUint64BE (of_nat (length k')) @ k' @ PutUint64BE (of_nat (length n')) @ n' @ r'"
    by (simp_all add: stateKey_def)
  from prefixed_inject [OF assms(1,2) eq] prefixed_inject [OF assms(3,4)] \<open>c = c'\<close>
  show "c = c' \<and> k = k' \<and> n = n' \<and> r = r'" by blast
qed simp

lemma stateKey_inject_bare:
  assumes "length k < 2 ^ 64" "length k' < 2 ^ 64" "length n < 2 ^ 64" "length n' < 2 ^ 64"
  shows "stateKey c k n = stateKey c' k' n' \<longleftrightarrow> c = c' \<and> k = k' \<and> n = n'"
    "stateKey c k n @ r = stateKey c' k' n' \<longleftrightarrow> c = c' \<and> k = k' \<and> n = n' \<and> r = []"
    "stateKey c k n = stateKey c' k' n' @ r \<longleftrightarrow> c = c' \<and> k = k' \<and> n = n' \<and> r = []"
  using stateKey_inject [OF assms, of c "[]" c' "[]"] stateKey_inject [OF assms, of c r c' "[]"]
    stateKey_inject [OF assms, of c "[]" c' r] by auto

section \<open>Keyed state as it is meant\<close>

text \<open>The states of one event key: three independent families, each indexed by the name of a state.\<close>

record keyed =
  value_states :: "bytes \<Rightarrow> slice option"
  list_states :: "bytes \<Rightarrow> slice list option"
  map_states :: "bytes \<Rightarrow> bytes \<Rightarrow> slice option"

definition or_nil :: "slice option \<Rightarrow> slice" where
  "or_nil v = (case v of None \<Rightarrow> None | Some s \<Rightarrow> s)"

definition or_empty :: "slice list option \<Rightarrow> slice list" where
  "or_empty v = (case v of None \<Rightarrow> [] | Some vs \<Rightarrow> vs)"

primrec keyed_run :: "'r prog \<Rightarrow> keyed \<Rightarrow> 'r \<times> keyed" where
  "keyed_run (Return r) s = (r, s)"
| "keyed_run (ValueGet n f) s = keyed_run (f (or_nil (value_states s n))) s"
| "keyed_run (ValueSet n v p) s = keyed_run p (s\<lparr>value_states := (value_states s)(n \<mapsto> v)\<rparr>)"
| "keyed_run (ValueClear n p) s = keyed_run p (s\<lparr>value_states := (value_states s)(n := None)\<rparr>)"
| "keyed_run (ListGet n f) s = keyed_run (f (or_empty (list_states s n))) s"
| "keyed_run (ListAdd n v p) s =
     keyed_run p (s\<lparr>list_states := (list_states s)(n \<mapsto> or_empty (list_states s n) @ [v])\<rparr>)"
| "keyed_run (ListClear n p) s = keyed_run p (s\<lparr>list_states := (list_states s)(n := None)\<rparr>)"
| "keyed_run (MapGet n k f) s = keyed_run (f (or_nil (map_states s n k))) s"
| "keyed_run (MapPut n k v p) s =
     keyed_run p (s\<lparr>map_states := (map_states s)(n := (map_states s n)(k \<mapsto> v))\<rparr>)"
| "keyed_run (MapDelete n k p) s =
     keyed_run p (s\<lparr>map_states := (map_states s)(n := (map_states s n)(k := None))\<rparr>)"
| "keyed_run (MapKeys n f) s = keyed_run (f (sorted_list_of_set (dom (map_states s n)))) s"
| "keyed_run (MapClear n p) s = keyed_run p (s\<lparr>map_states := (map_states s)(n := Map.empty)\<rparr>)"

text \<open>How the flat contents \<open>c\<close> of a backend represent the states of the event key \<open>k\<close>.\<close>

definition represents :: "list_json \<Rightarrow> (bytes \<Rightarrow> slice option) \<Rightarrow> bytes \<Rightarrow> keyed \<Rightarrow> bool" where
  "represents js c k s \<longleftrightarrow> (\<forall>n. length n < 2 ^ 64 \<longrightarrow>
     c (stateKey 0x76 k n) = value_states s n
     \<and> c (stateKey 0x6C k n) = map_option (js_Marshal js) (list_states s n)
     \<and> (\<forall>m. c (stateKey 0x6D k n @ m) = map_states s n m))"

text \<open>The names of states in a process function are shorter than \<open>2 ^ 64\<close> bytes, as every Go string.\<close>

primrec names_ok :: "'r prog \<Rightarrow> bool" where
  "names_ok (Return r) = True"
| "names_ok (ValueGet n f) = (length n < 2 ^ 64 \<and> (\<forall>v. names_ok (f v)))"
| "names_ok (ValueSet n v p) = (length n < 2 ^ 64 \<and> names_ok p)"
| "names_ok (ValueClear n p) = (length n < 2 ^ 64 \<and> names_ok p)"
| "names_ok (ListGet n f) = (length n < 2 ^ 64 \<and> (\<forall>vs. names_ok (f vs)))"
| "names_ok (ListAdd n v p) = (length n < 2 ^ 64 \<and> names_ok p)"
| "names_ok (ListClear n p) = (length n < 2 ^ 64 \<and> names_ok p)"
| "names_ok (MapGet n k f) = (length n < 2 ^ 64 \<and> (\<forall>v. names_ok (f v)))"
| "names_ok (MapPut n k v p) = (length n < 2 ^ 64 \<and> names_ok p)"
| "names_ok (MapDelete n k p) = (length n < 2 ^ 64 \<and> names_ok p)"
| "names_ok (MapKeys n f) = (length n < 2 ^ 64 \<and> (\<forall>ks. names_ok (f ks)))"
| "names_ok (MapClear n p) = (length n < 2 ^ 64 \<and> names_ok p)"

text \<open>What is relied on of the JSON codec: a list of byte slices can be encoded and is read back.\<close>

definition json_lists :: "list_json \<Rightarrow> bool" where
  "json_lists js = (\<forall>vs. \<exists>data. js_Marshal js vs = Some data \<and> js_Unmarshal js data = (vs, True))"

text \<open>The keys outside the states of \<open>k\<close> keep their contents.\<close>

definition outside :: "bytes \<Rightarrow> bytes \<Rightarrow> bool" where
  "outside k key = (\<forall>kind n r. length n < 2 ^ 64 \<longrightarrow> key \<noteq> stateKey kind k n @ r)"

lemma other_key_outside:
  "length k < 2 ^ 64 \<Longrightarrow> length k' < 2 ^ 64 \<Longrightarrow> length n < 2 ^ 64 \<Longrightarrow> k' \<noteq> k \<Longrightarrow> outside k (stateKey kind k' n @ r)"
  by (auto simp: outside_def stateKey_inject)

lemma outside_bare: "outside k key \<Longrightarrow> length n < 2 ^ 64 \<Longrightarrow> key \<noteq> stateKey kind k n"
  unfolding outside_def by (metis append_Nil2)

text \<open>A write to one state is a write to one entry of one family.\<close>

lemma represents_value:
  "length k < 2 ^ 64 \<Longrightarrow> length n < 2 ^ 64 \<Longrightarrow> represents js c k s \<Longrightarrow>
    represents js (c(stateKey 0x76 k n := v)) k (s\<lparr>value_states := (value_states s)(n := v)\<rparr>)"
  by (auto simp: represents_def stateKey_inject_bare)

lemma represents_list:
  "length k < 2 ^ 64 \<Longrightarrow> length n < 2 ^ 64 \<Longrightarrow> represents js c k s \<Longrightarrow>
    represents js (c(stateKey 0x6C k n := map_option (js_Marshal js) vs)) k (s\<lparr>list_states := (list_states s)(n := vs)\<rparr>)"
  by (auto simp: represents_def stateKey_inject_bare)

lemma represents_map:
  "length k < 2 ^ 64 \<Longrightarrow> length n < 2 ^ 64 \<Longrightarrow> represents js c k s \<Longrightarrow>
    represents js (c(stateKey 0x6D k n @ m := v)) k (s\<lparr>map_states := (map_states s)(n := (map_states s n)(m := v))\<rparr>)"
  by (auto simp: represents_def stateKey_inject_bare stateKey_inject)

section \<open>The state operations on any backend\<close>

context state_backend
begin

text \<open>What an operation of a context keeps: the event key, the invariant, and everything stored
  outside the states of the event key. A recorded error stays.\<close>

definition kept :: "'s backendProcessContext \<Rightarrow> 's backendProcessContext \<Rightarrow> bool" where
  "kept c c' \<longleftrightarrow> pc_key c' = pc_key c
     \<and> (inv (pc_backend c) \<longrightarrow> inv (pc_backend c') \<and> ended (pc_backend c') = ended (pc_backend c)
         \<and> (\<forall>key. outside (pc_key c) key \<longrightarrow> contents (pc_backend c') key = contents (pc_backend c) key))
     \<and> (pc_err c' = None \<longrightarrow> pc_err c = None)"

lemma kept_refl: "kept c c"
  by (simp add: kept_def)

lemma kept_trans: "kept c c' \<Longrightarrow> kept c' c'' \<Longrightarrow> kept c c''"
  unfolding kept_def by metis

lemma kept_fail: "kept c (ctx_fail e c)" "pc_backend (ctx_fail e c) = pc_backend c" "pc_key (ctx_fail e c) = pc_key c"
  by (auto simp: kept_def ctx_fail_def)

lemma kept_get: "kept c (snd (ctx_get ops key c))"
  by (auto simp: ctx_get_def kept_refl kept_fail split: sum.split)

lemma get_result:
  assumes "inv (pc_backend c)" "\<not> ended (pc_backend c)" "pc_err c = None"
  shows "ctx_get ops key c = (or_nil (contents (pc_backend c) key), c)"
  using assms by (simp add: ctx_get_def get or_nil_def split: option.split)

lemma put_writes:
  assumes "inv (pc_backend c)" "pc_err (ctx_put ops key v c) = None"
  shows "contents (pc_backend (ctx_put ops key v c)) = (contents (pc_backend c))(key \<mapsto> v) \<and> pc_err c = None"
  using assms put [of "pc_backend c" key v]
  by (cases "Put ops (pc_backend c) key v") (auto simp: ctx_put_def ctx_fail_def split: if_splits)

lemma kept_put:
  assumes "\<And>key'. outside (pc_key c) key' \<Longrightarrow> key' \<noteq> key"
  shows "kept c (ctx_put ops key v c)"
  using assms put [of "pc_backend c" key v]
  by (cases "Put ops (pc_backend c) key v") (auto simp: ctx_put_def ctx_fail_def kept_def split: if_splits)

lemma remove_deletes:
  assumes "inv (pc_backend c)" "pc_err (ctx_remove ops key c) = None"
  shows "contents (pc_backend (ctx_remove ops key c)) = (contents (pc_backend c))(key := None) \<and> pc_err c = None"
  using assms delete [of "pc_backend c" key]
  by (cases "Delete ops (pc_backend c) key") (auto simp: ctx_remove_def ctx_fail_def fun_upd_idem split: if_splits)

lemma kept_remove:
  assumes "\<And>key'. outside (pc_key c) key' \<Longrightarrow> key' \<noteq> key"
  shows "kept c (ctx_remove ops key c)"
  using assms delete [of "pc_backend c" key]
  by (cases "Delete ops (pc_backend c) key") (auto simp: ctx_remove_def ctx_fail_def kept_def split: if_splits)

lemma outside_ne: "length n < 2 ^ 64 \<Longrightarrow> outside k key \<Longrightarrow> key \<noteq> stateKey kind k n @ r"
  by (simp add: outside_def)

lemma kept_list_Get: "kept c (snd (list_Get js ops n c))"
  using kept_get [of c "list_key c n"]
  by (auto simp: list_Get_def split: prod.split option.split intro: kept_trans kept_fail)

lemma kept_map_Delete: "length n < 2 ^ 64 \<Longrightarrow> kept c (map_Delete ops n k c)"
  unfolding map_Delete_def map_prefix_def by (rule kept_remove) (rule outside_ne)

lemma kept_deletes: "length n < 2 ^ 64 \<Longrightarrow> kept c (fold (map_Delete ops n) ks c)"
proof (induction ks arbitrary: c)
  case (Cons k ks)
  then show ?case using kept_map_Delete [of n c k] by (auto intro: kept_trans)
qed (simp add: kept_refl)

lemma kept_list_Add:
  assumes "length n < 2 ^ 64"
  shows "kept c (list_Add js ops n v c)"
proof -
  obtain vs c1 where g: "list_Get js ops n c = (vs, c1)" by (rule prod.exhaust)
  let ?c2 = "ctx_fail (if js_Marshal js (vs @ [v]) = None then Some JsonFailed else None) c1"
  have "kept ?c2 (ctx_put ops (list_key ?c2 n) (js_Marshal js (vs @ [v])) ?c2)"
    unfolding list_key_def by (rule kept_put) (rule outside_bare [OF _ assms])
  moreover have "kept c ?c2"
    using kept_list_Get [of c js n] kept_fail(1) by (auto simp: g intro: kept_trans)
  ultimately show ?thesis
    by (auto simp: list_Add_def g Let_def intro: kept_trans)
qed

text \<open>Whatever a process function does, only the states of its event key change.\<close>

lemma run_kept: "names_ok p \<Longrightarrow> kept c (snd (run_prog js ops p c))"
proof (induction p arbitrary: c)
  case (ValueGet n f)
  then show ?case
    using kept_get [of c "value_key c n"]
    by (auto simp: value_Get_def split: prod.split intro: kept_trans)
next
  case (ValueSet n v p)
  have "kept c (value_Set ops n v c)"
    unfolding value_Set_def value_key_def by (rule kept_put) (use ValueSet.prems in \<open>simp add: outside_bare\<close>)
  then show ?case using ValueSet by (auto intro: kept_trans)
next
  case (ValueClear n p)
  have "kept c (value_Clear ops n c)"
    unfolding value_Clear_def value_key_def by (rule kept_remove) (use ValueClear.prems in \<open>simp add: outside_bare\<close>)
  then show ?case using ValueClear by (auto intro: kept_trans)
next
  case (ListGet n f)
  then show ?case
    using kept_list_Get [of c js n] by (auto split: prod.split intro: kept_trans)
next
  case (ListAdd n v p)
  then show ?case using kept_list_Add [of n c js v] by (auto intro: kept_trans)
next
  case (ListClear n p)
  have "kept c (list_Clear ops n c)"
    unfolding list_Clear_def list_key_def by (rule kept_remove) (use ListClear.prems in \<open>simp add: outside_bare\<close>)
  then show ?case using ListClear by (auto intro: kept_trans)
next
  case (MapGet n k f)
  then show ?case
    using kept_get [of c "map_prefix c n @ k"]
    by (auto simp: map_Get_def split: prod.split intro: kept_trans)
next
  case (MapPut n k v p)
  have "kept c (map_Put ops n k v c)"
    unfolding map_Put_def map_prefix_def by (rule kept_put) (use MapPut.prems in \<open>simp add: outside_ne\<close>)
  then show ?case using MapPut by (auto intro: kept_trans)
next
  case (MapDelete n k p)
  then show ?case using kept_map_Delete [of n c k] by (auto intro: kept_trans)
next
  case (MapClear n p)
  then show ?case using kept_deletes [of n c] by (auto simp: map_Clear_def intro: kept_trans)
qed (auto simp: kept_refl)

text \<open>A context without an error whose backend represents \<open>s\<close>.\<close>

definition tracks :: "list_json \<Rightarrow> 's backendProcessContext \<Rightarrow> keyed \<Rightarrow> bool" where
  "tracks js c s \<longleftrightarrow> inv (pc_backend c) \<and> \<not> ended (pc_backend c) \<and> length (pc_key c) < 2 ^ 64 \<and> pc_err c = None
     \<and> represents js (contents (pc_backend c)) (pc_key c) s"

lemma tracks_get: "tracks js c s \<Longrightarrow> ctx_get ops key c = (or_nil (contents (pc_backend c) key), c)"
  by (rule get_result) (simp_all add: tracks_def)

lemma tracks_write:
  assumes "tracks js c s" "kept c c'" "pc_err c' = None" "contents (pc_backend c') = d" "represents js d (pc_key c) s'"
  shows "tracks js c' s'"
  using assms by (simp add: tracks_def kept_def)

lemma tracks_put:
  assumes "tracks js c s" "pc_err (ctx_put ops key v c) = None" "\<And>key'. outside (pc_key c) key' \<Longrightarrow> key' \<noteq> key"
    and "represents js ((contents (pc_backend c))(key \<mapsto> v)) (pc_key c) s'"
  shows "tracks js (ctx_put ops key v c) s'"
  by (rule tracks_write [OF assms(1) kept_put [OF assms(3)] assms(2) _ assms(4)])
    (use put_writes [OF _ assms(2)] assms(1) in \<open>simp_all add: tracks_def\<close>)

lemma tracks_remove:
  assumes "tracks js c s" "pc_err (ctx_remove ops key c) = None" "\<And>key'. outside (pc_key c) key' \<Longrightarrow> key' \<noteq> key"
    and "represents js ((contents (pc_backend c))(key := None)) (pc_key c) s'"
  shows "tracks js (ctx_remove ops key c) s'"
  by (rule tracks_write [OF assms(1) kept_remove [OF assms(3)] assms(2) _ assms(4)])
    (use remove_deletes [OF _ assms(2)] assms(1) in \<open>simp_all add: tracks_def\<close>)

lemma tracks_value:
  assumes "tracks js c s" "length n < 2 ^ 64"
  shows "value_Get ops n c = (or_nil (value_states s n), c)"
    and "pc_err (value_Set ops n v c) = None \<Longrightarrow> tracks js (value_Set ops n v c) (s\<lparr>value_states := (value_states s)(n \<mapsto> v)\<rparr>)"
    and "pc_err (value_Clear ops n c) = None \<Longrightarrow> tracks js (value_Clear ops n c) (s\<lparr>value_states := (value_states s)(n := None)\<rparr>)"
proof -
  have rep: "length (pc_key c) < 2 ^ 64" "represents js (contents (pc_backend c)) (pc_key c) s"
    using assms(1) by (simp_all add: tracks_def)
  show "value_Get ops n c = (or_nil (value_states s n), c)"
    using rep(2) assms(2) by (simp add: value_Get_def value_key_def tracks_get [OF assms(1)] represents_def)
  show "pc_err (value_Set ops n v c) = None \<Longrightarrow> tracks js (value_Set ops n v c) (s\<lparr>value_states := (value_states s)(n \<mapsto> v)\<rparr>)"
    unfolding value_Set_def value_key_def
    by (erule tracks_put [OF assms(1)]) (use outside_bare assms(2) represents_value [OF rep(1) assms(2) rep(2)] in auto)
  show "pc_err (value_Clear ops n c) = None \<Longrightarrow> tracks js (value_Clear ops n c) (s\<lparr>value_states := (value_states s)(n := None)\<rparr>)"
    unfolding value_Clear_def value_key_def
    by (erule tracks_remove [OF assms(1)]) (use outside_bare assms(2) represents_value [OF rep(1) assms(2) rep(2)] in auto)
qed

lemma tracks_list:
  assumes "tracks js c s" "length n < 2 ^ 64" and js: "json_lists js"
  shows "list_Get js ops n c = (or_empty (list_states s n), c)"
    and "pc_err (list_Add js ops n v c) = None \<Longrightarrow> tracks js (list_Add js ops n v c)
      (s\<lparr>list_states := (list_states s)(n \<mapsto> or_empty (list_states s n) @ [v])\<rparr>)"
    and "pc_err (list_Clear ops n c) = None \<Longrightarrow> tracks js (list_Clear ops n c) (s\<lparr>list_states := (list_states s)(n := None)\<rparr>)"
proof -
  have rep: "length (pc_key c) < 2 ^ 64" "represents js (contents (pc_backend c)) (pc_key c) s"
    using assms(1) by (simp_all add: tracks_def)
  have stored: "contents (pc_backend c) (stateKey 0x6C (pc_key c) n) = map_option (js_Marshal js) (list_states s n)"
    using rep(2) assms(2) by (simp add: represents_def)
  show get: "list_Get js ops n c = (or_empty (list_states s n), c)"
  proof (cases "list_states s n")
    case None
    then show ?thesis
      by (simp add: list_Get_def list_key_def tracks_get [OF assms(1)] stored or_nil_def or_empty_def)
  next
    case (Some vs)
    obtain data where "js_Marshal js vs = Some data" "js_Unmarshal js data = (vs, True)"
      using js unfolding json_lists_def by blast
    then show ?thesis
      by (simp add: list_Get_def list_key_def tracks_get [OF assms(1)] stored or_nil_def or_empty_def Some ctx_fail_def)
  qed
  let ?vs = "or_empty (list_states s n) @ [v]"
  obtain data where data: "js_Marshal js ?vs = Some data"
    using js unfolding json_lists_def by blast
  have add: "list_Add js ops n v c = ctx_put ops (stateKey 0x6C (pc_key c) n) (js_Marshal js ?vs) c"
    by (simp add: list_Add_def get Let_def data ctx_fail_def list_key_def)
  show "pc_err (list_Add js ops n v c) = None \<Longrightarrow> tracks js (list_Add js ops n v c)
      (s\<lparr>list_states := (list_states s)(n \<mapsto> ?vs)\<rparr>)"
    unfolding add
    by (erule tracks_put [OF assms(1)])
      (use outside_bare assms(2) represents_list [OF rep(1) assms(2) rep(2), of "Some ?vs"] in auto)
  show "pc_err (list_Clear ops n c) = None \<Longrightarrow> tracks js (list_Clear ops n c) (s\<lparr>list_states := (list_states s)(n := None)\<rparr>)"
    unfolding list_Clear_def list_key_def
    by (erule tracks_remove [OF assms(1)])
      (use outside_bare assms(2) represents_list [OF rep(1) assms(2) rep(2), of None] in auto)
qed

lemma tracks_map:
  assumes "tracks js c s" "length n < 2 ^ 64"
  shows "map_Get ops n k c = (or_nil (map_states s n k), c)"
    and "pc_err (map_Put ops n k v c) = None \<Longrightarrow> tracks js (map_Put ops n k v c)
      (s\<lparr>map_states := (map_states s)(n := (map_states s n)(k \<mapsto> v))\<rparr>)"
    and "pc_err (map_Delete ops n k c) = None \<Longrightarrow> tracks js (map_Delete ops n k c)
      (s\<lparr>map_states := (map_states s)(n := (map_states s n)(k := None))\<rparr>)"
proof -
  have rep: "length (pc_key c) < 2 ^ 64" "represents js (contents (pc_backend c)) (pc_key c) s"
    using assms(1) by (simp_all add: tracks_def)
  show "map_Get ops n k c = (or_nil (map_states s n k), c)"
    using rep(2) assms(2) by (simp add: map_Get_def map_prefix_def tracks_get [OF assms(1)] represents_def)
  show "pc_err (map_Put ops n k v c) = None \<Longrightarrow> tracks js (map_Put ops n k v c)
      (s\<lparr>map_states := (map_states s)(n := (map_states s n)(k \<mapsto> v))\<rparr>)"
    unfolding map_Put_def map_prefix_def
    by (erule tracks_put [OF assms(1)]) (use outside_ne assms(2) represents_map [OF rep(1) assms(2) rep(2)] in auto)
  show "pc_err (map_Delete ops n k c) = None \<Longrightarrow> tracks js (map_Delete ops n k c)
      (s\<lparr>map_states := (map_states s)(n := (map_states s n)(k := None))\<rparr>)"
    unfolding map_Delete_def map_prefix_def
    by (erule tracks_remove [OF assms(1)]) (use outside_ne assms(2) represents_map [OF rep(1) assms(2) rep(2)] in auto)
qed

lemma tracks_keys:
  assumes "tracks js c s" "length n < 2 ^ 64"
  shows "map_Keys ops n c = sorted_list_of_set (dom (map_states s n))" "finite (dom (map_states s n))"
proof -
  let ?p = "stateKey 0x6D (pc_key c) n"
  let ?kvs = "Iterate ops (pc_backend c) ?p"
  let ?ks = "map (\<lambda>kv. drop (length ?p) (fst kv)) ?kvs"
  have up: "inv (pc_backend c)" "\<not> ended (pc_backend c)" "pc_err c = None"
    and rep: "contents (pc_backend c) (?p @ m) = map_states s n m" for m
    using assms by (simp_all add: tracks_def represents_def)
  have sorted: "sorted_wrt (<) (map fst ?kvs)"
    and lookup: "map_of ?kvs = (\<lambda>k. if HasPrefix k ?p then contents (pc_backend c) k else None)"
    using iterate [OF up(1), of ?p] up(2) by (simp_all add: keys_ok_strict)
  have keys: "fst ` set ?kvs = (\<lambda>m. ?p @ m) ` dom (map_states s n)"
    unfolding dom_map_of_conv_image_fst [symmetric] lookup dom_def
    by (auto simp: HasPrefix_iff rep [symmetric])
  have under: "fst kv = ?p @ drop (length ?p) (fst kv)" if "kv \<in> set ?kvs" for kv
    using imageI [OF that, of fst] unfolding keys by auto
  have "map fst ?kvs = map ((@) ?p) ?ks"
    unfolding map_map comp_def by (rule map_cong [OF refl]) (rule under)
  then have "sorted_wrt (<) (map ((@) ?p) ?ks)" using sorted by (simp only:)
  then have "sorted_wrt (<) ?ks"
    unfolding sorted_wrt_map by (rule sorted_wrt_mono_rel [rotated]) (simp add: append_less)
  then have "sorted ?ks" "distinct ?ks" by (simp_all add: strict_sorted_iff)
  moreover have "set ?ks = drop (length ?p) ` fst ` set ?kvs" by (auto simp: image_image)
  then have all: "set ?ks = dom (map_states s n)" unfolding keys by (simp add: image_image)
  ultimately have "?ks = sorted_list_of_set (dom (map_states s n))"
    by (metis sorted_list_of_set.idem_if_sorted_distinct)
  then show "map_Keys ops n c = sorted_list_of_set (dom (map_states s n))"
    using up(3) by (simp add: map_Keys_def map_prefix_def)
  show "finite (dom (map_states s n))" unfolding all [symmetric] by (rule finite_set)
qed

lemma tracks_deletes:
  assumes "tracks js c s" "length n < 2 ^ 64" "pc_err (fold (map_Delete ops n) ks c) = None"
  shows "tracks js (fold (map_Delete ops n) ks c)
    (s\<lparr>map_states := (map_states s)(n := (\<lambda>m. if m \<in> set ks then None else map_states s n m))\<rparr>)"
  using assms(1,3)
proof (induction ks arbitrary: c s)
  case (Cons k ks)
  have "pc_err (map_Delete ops n k c) = None"
    using Cons.prems(2) kept_deletes [OF assms(2), of "map_Delete ops n k c" ks] by (simp add: kept_def)
  then have "tracks js (map_Delete ops n k c) (s\<lparr>map_states := (map_states s)(n := (map_states s n)(k := None))\<rparr>)"
    by (rule tracks_map(3) [OF Cons.prems(1) assms(2)])
  note rest = Cons.IH [OF this]
  have all: "(\<lambda>m. if m \<in> set ks then None else ((map_states s n)(k := None)) m)
      = (\<lambda>m. if m \<in> set (k # ks) then None else map_states s n m)" by (rule ext) simp
  show ?case using rest Cons.prems(2) unfolding all [symmetric] by (simp cong: if_cong)
qed (simp add: fun_upd_idem)

lemma tracks_clear:
  assumes "tracks js c s" "length n < 2 ^ 64" "pc_err (map_Clear ops n c) = None"
  shows "tracks js (map_Clear ops n c) (s\<lparr>map_states := (map_states s)(n := Map.empty)\<rparr>)"
proof -
  have "(\<lambda>m. if m \<in> set (map_Keys ops n c) then None else map_states s n m) = Map.empty"
    using tracks_keys [OF assms(1,2)] by (auto simp: fun_eq_iff)
  then show ?thesis
    using tracks_deletes [OF assms(1,2), of "map_Keys ops n c"] assms(3) by (simp add: map_Clear_def)
qed

text \<open>A process function that ends without a storage error has run on the intended keyed state.\<close>

lemma run_tracks:
  assumes js: "json_lists js"
  shows "names_ok p \<Longrightarrow> tracks js c s \<Longrightarrow> pc_err (snd (run_prog js ops p c)) = None \<Longrightarrow>
    fst (run_prog js ops p c) = fst (keyed_run p s) \<and> tracks js (snd (run_prog js ops p c)) (snd (keyed_run p s))"
proof (induction p arbitrary: c s)
  case (ValueGet n f)
  then show ?case using tracks_value(1) [OF ValueGet.prems(2), of n] by simp
next
  case (ListGet n f)
  then show ?case using tracks_list(1) [OF ListGet.prems(2) _ js, of n] by simp
next
  case (MapGet n k f)
  then show ?case using tracks_map(1) [OF MapGet.prems(2), of n k] by simp
next
  case (MapKeys n f)
  then show ?case using tracks_keys(1) [OF MapKeys.prems(2), of n] by simp
next
  case (ValueSet n v p)
  have "pc_err (value_Set ops n v c) = None"
    using run_kept [of p "value_Set ops n v c" js] ValueSet.prems by (simp add: kept_def)
  then show ?case using ValueSet tracks_value(2) [OF ValueSet.prems(2), of n v] by simp
next
  case (ValueClear n p)
  have "pc_err (value_Clear ops n c) = None"
    using run_kept [of p "value_Clear ops n c" js] ValueClear.prems by (simp add: kept_def)
  then show ?case using ValueClear tracks_value(3) [OF ValueClear.prems(2), of n] by simp
next
  case (ListAdd n v p)
  have "pc_err (list_Add js ops n v c) = None"
    using run_kept [of p "list_Add js ops n v c" js] ListAdd.prems by (simp add: kept_def)
  then show ?case using ListAdd tracks_list(2) [OF ListAdd.prems(2) _ js, of n v] by simp
next
  case (ListClear n p)
  have "pc_err (list_Clear ops n c) = None"
    using run_kept [of p "list_Clear ops n c" js] ListClear.prems by (simp add: kept_def)
  then show ?case using ListClear tracks_list(3) [OF ListClear.prems(2) _ js, of n] by simp
next
  case (MapPut n k v p)
  have "pc_err (map_Put ops n k v c) = None"
    using run_kept [of p "map_Put ops n k v c" js] MapPut.prems by (simp add: kept_def)
  then show ?case using MapPut tracks_map(2) [OF MapPut.prems(2), of n k v] by simp
next
  case (MapDelete n k p)
  have "pc_err (map_Delete ops n k c) = None"
    using run_kept [of p "map_Delete ops n k c" js] MapDelete.prems by (simp add: kept_def)
  then show ?case using MapDelete tracks_map(3) [OF MapDelete.prems(2), of n k] by simp
next
  case (MapClear n p)
  have "pc_err (map_Clear ops n c) = None"
    using run_kept [of p "map_Clear ops n c" js] MapClear.prems by (simp add: kept_def)
  then show ?case using MapClear tracks_clear [OF MapClear.prems(2), of n] by simp
qed simp

text \<open>One invocation of a process function.\<close>

lemma flat_map_keyed:
  assumes "json_lists js" "names_ok (fn event)" "inv b" "\<not> ended b" "length (Key event) < 2 ^ 64"
    and "represents js (contents b) (Key event) s"
    and flat: "adapter_FlatMap js ops fn event b = (err, emitted, b')"
  shows "inv b' \<and> \<not> ended b'
    \<and> (\<forall>key. outside (Key event) key \<longrightarrow> contents b' key = contents b key)
    \<and> (err \<noteq> (None, None) \<longrightarrow> emitted = [])
    \<and> (err = (None, None) \<longrightarrow> fst (keyed_run (fn event) s) = (emitted, None)
        \<and> represents js (contents b') (Key event) (snd (keyed_run (fn event) s)))"
proof -
  define c where "c = \<lparr>pc_key = Key event, pc_backend = b, pc_err = None\<rparr>"
  obtain results uerr c' where run: "run_prog js ops (fn event) c = ((results, uerr), c')"
    by (metis prod.exhaust)
  have start: "tracks js c s" using assms by (simp add: tracks_def c_def)
  have kept: "kept c c'" using run_kept [OF assms(2), of c js] run by simp
  have same: "pc_key c' = Key event" using kept by (simp add: kept_def c_def)
  have ends: "pc_err c' = None \<Longrightarrow> (results, uerr) = fst (keyed_run (fn event) s) \<and> tracks js c' (snd (keyed_run (fn event) s))"
    using run_tracks [OF assms(1,2) start] run by simp
  have out: "(err, emitted, b') = (if (uerr, pc_err c') \<noteq> (None, None) then ((uerr, pc_err c'), [], pc_backend c')
      else ((None, None), results, pc_backend c'))"
    using flat run by (simp add: adapter_FlatMap_def c_def)
  then have b': "b' = pc_backend c'" by (simp split: if_splits)
  show ?thesis
    using kept ends out same assms(3,4) unfolding b' by (auto simp: kept_def tracks_def c_def split: if_splits)
qed

end

section \<open>Properties\<close>

text \<open>C9. Process functions on the in-memory backend see the keyed state they are promised. An invocation
  without an error returns and emits what its accesses mean on three independent families of value, list
  and map states of its event key, and leaves the backend representing the resulting states. An
  invocation with an error, of the function or of the storage, emits nothing. In either case no state of
  another event key changes, although all of them share one flat key space.\<close>

theorem keyed_state_refined:
  assumes "json_lists js" "names_ok (fn event)" "keys_ok (hm_entries b)" "\<not> hm_closed b"
    and "length (Key event) < 2 ^ 64" "represents js (map_of (hm_entries b)) (Key event) s"
    and "adapter_FlatMap js hashmap_ops fn event b = (err, emitted, b')"
  shows "keys_ok (hm_entries b')
    \<and> (err \<noteq> (None, None) \<longrightarrow> emitted = [])
    \<and> (err = (None, None) \<longrightarrow> fst (keyed_run (fn event) s) = (emitted, None)
        \<and> represents js (map_of (hm_entries b')) (Key event) (snd (keyed_run (fn event) s)))
    \<and> (\<forall>k s'. length k < 2 ^ 64 \<and> k \<noteq> Key event \<and> represents js (map_of (hm_entries b)) k s'
        \<longrightarrow> represents js (map_of (hm_entries b')) k s')"
proof -
  note run = hashmap.flat_map_keyed [OF assms(1-7)]
  have frame: "represents js (map_of (hm_entries b')) k s'"
    if k: "length k < 2 ^ 64" "k \<noteq> Key event" and rep: "represents js (map_of (hm_entries b)) k s'" for k s'
  proof -
    have same: "map_of (hm_entries b') (stateKey kind k n @ r) = map_of (hm_entries b) (stateKey kind k n @ r)"
      if "length n < 2 ^ 64" for kind n r
      using run other_key_outside [OF assms(5) k(1) that k(2), of kind r] by blast
    have bare: "map_of (hm_entries b') (stateKey kind k n) = map_of (hm_entries b) (stateKey kind k n)"
      if "length n < 2 ^ 64" for kind n
      using same [OF that, of kind "[]"] by simp
    show ?thesis
      using rep unfolding represents_def by (simp add: same bare)
  qed
  show ?thesis using run frame by blast
qed

text \<open>A codec of lists of slices: every byte of a slice becomes a tagged pair, and a last pair closes the
  slice.\<close>

primrec pair_encode :: "slice list \<Rightarrow> bytes" where
  "pair_encode [] = []"
| "pair_encode (v # vs) =
     (case v of None \<Rightarrow> [0, 0] | Some bs \<Rightarrow> concat (map (\<lambda>b. [2, b]) bs) @ [1, 0]) @ pair_encode vs"

fun pair_decode :: "bytes \<Rightarrow> slice list" where
  "pair_decode (t # b # r) =
     (if t = 0 then None # pair_decode r
      else if t = 1 then Some [] # pair_decode r
      else case pair_decode r of Some bs # vs \<Rightarrow> Some (b # bs) # vs | vs \<Rightarrow> vs)"
| "pair_decode bs = []"

definition pair_json :: list_json where
  "pair_json = \<lparr>js_Marshal = \<lambda>vs. Some (pair_encode vs), js_Unmarshal = \<lambda>data. (pair_decode data, True)\<rparr>"

lemma pair_decode_slice: "pair_decode (concat (map (\<lambda>b. [2, b]) bs) @ 1 # 0 # r) = Some bs # pair_decode r"
  by (induction bs) simp_all

lemma pair_roundtrip: "pair_decode (pair_encode vs) = vs"
  by (induction vs) (simp_all add: pair_decode_slice split: option.split)

lemma pair_json_lists: "json_lists pair_json"
  by (simp add: json_lists_def pair_json_def pair_roundtrip)

definition tally :: "unit ProcessFunc" where
  "tally event = ValueSet [1] (Some (Value event)) (ValueGet [1] (\<lambda>v. Return (if v = None then [] else [event], None)))"

theorem keyed_state_refined_witness:
  "\<exists>b'. adapter_FlatMap pair_json hashmap_ops tally (WatermarkEvent 5) (NewHashMapStateBackend 0) = ((None, None), [WatermarkEvent 5], b')
    \<and> keys_ok (hm_entries b')
    \<and> represents pair_json (map_of (hm_entries b')) []
        (snd (keyed_run (tally (WatermarkEvent 5)) \<lparr>value_states = Map.empty, list_states = Map.empty, map_states = \<lambda>_. Map.empty\<rparr>))"
proof -
  let ?s = "\<lparr>value_states = Map.empty, list_states = Map.empty, map_states = \<lambda>_. Map.empty\<rparr>"
  let ?b = "NewHashMapStateBackend 0"
  have names: "names_ok (tally (WatermarkEvent 5))" by (simp add: tally_def)
  have start: "keys_ok (hm_entries ?b)" "\<not> hm_closed ?b" "length (Key (WatermarkEvent 5)) < 2 ^ 64"
    "represents pair_json (map_of (hm_entries ?b)) (Key (WatermarkEvent 5)) ?s"
    by (simp_all add: NewHashMapStateBackend_def keys_ok_def WatermarkEvent_def represents_def)
  obtain b' where flat: "adapter_FlatMap pair_json hashmap_ops tally (WatermarkEvent 5) ?b = ((None, None), [WatermarkEvent 5], b')"
    by (simp add: adapter_FlatMap_def tally_def value_Set_def value_Get_def value_key_def ctx_put_def ctx_get_def ctx_fail_def
        hashmap_ops_def hm_Put_def hm_Get_def Let_def hm_search_def sort_Search_def search_loop.simps NewHashMapStateBackend_def)
  show ?thesis
    using keyed_state_refined [OF pair_json_lists names start flat] flat by (simp add: WatermarkEvent_def)
qed

end
