(* ===== verification/Spec2Isabelle.thy ===== *)
theory Spec2Isabelle
  imports KeyGroup Barrier Watermark Window_Snapshot Workers Checkpoint_Protocol Scheduler
    Transaction_Protocol Frame_Stream Keyed_State
begin

text \<open>
  A verification library for \<^verbatim>\<open>wire\<close>, a distributed stream processor written in Go.

  \<^bold>\<open>The program.\<close> A job is a graph of operators. A coordinator
  (\<^verbatim>\<open>internal/coordinator\<close>) accepts jobs, fuses forward paths of the graph into chains, splits
  the chains into tasks, places the tasks on workers and drives checkpoints. It keeps its metadata
  in a store that only the elected leader may write and rebuilds its state from that store after
  a restart. A task (\<^verbatim>\<open>internal/engine\<close>) reads records and control messages from its inputs,
  aligns the barriers of checkpoints, tracks event time, runs its operator chain and takes part in
  the two-phase commit of transactional sinks. Keys are hashed to key groups
  (\<^verbatim>\<open>internal/keygroup\<close>), the unit in which state is assigned and moved when a job is
  rescaled. Tasks exchange records over framed streams (\<^verbatim>\<open>internal/protocol\<close>,
  \<^verbatim>\<open>internal/transport\<close>). User code reaches keyed state through the SDK (\<^verbatim>\<open>sdk\<close>), which
  stores it in a state backend of the engine.

  \<^bold>\<open>The theories.\<close> Paths are below \<^verbatim>\<open>src/\<close>; definitions keep the names of the code, with a
  prefix where two types have an operation of the same name.

  \<^item> \<open>Wire_Prelude\<close>: machine integers, maps, byte encodings (locale \<open>fixed_codec\<close>), binary search,
    sorting. \<open>Sorted_Slice\<close>: key-value slices sorted by key. \<open>Checksum\<close>: CRC-32 as a linear map, with
    the detection of bursts for both polynomials in use (locale \<open>crc_polynomial\<close>).
  \<^item> \<open>KeyGroup\<close> (\<^verbatim>\<open>internal/keygroup\<close>): every key group has one owner, and the walk over range
    boundaries plans each moved key group once.
  \<^item> \<open>Events\<close>, \<open>Barrier\<close>, \<open>Watermark\<close> (\<^verbatim>\<open>internal/engine/event.go\<close>, \<^verbatim>\<open>barrier.go\<close>,
    \<^verbatim>\<open>watermark_*.go\<close>): the aligner as a state machine on its record. No record is lost, doubled
    or reordered by alignment, retired checkpoints stay fenced, buffers are bounded; a source's
    watermark covers the records it emitted. The strategies and tickers are instances of the locales
    \<open>watermark_strategy\<close> and \<open>boundary_ticker\<close>.
  \<^item> \<open>Window\<close>, \<open>Window_Run\<close>, \<open>Windowing\<close>, \<open>Window_Snapshot\<close> (\<^verbatim>\<open>window_processor.go\<close>,
    \<^verbatim>\<open>window_snapshot.go\<close>, \<^verbatim>\<open>window_operator.go\<close>, \<^verbatim>\<open>sdk/aggregator.go\<close>): the contents of
    every window are the aggregate of exactly the events of its interval that were accepted, windows
    fire when the watermark passes them, and a snapshot restores the processor. The aggregator is the
    locale \<open>window_aggregator\<close>.
  \<^item> \<open>Error_Handler\<close>, \<open>Operator_Chain\<close>, \<open>Transaction_Protocol\<close> (\<^verbatim>\<open>error_handler.go\<close>,
    \<^verbatim>\<open>errorpolicy\<close>, \<^verbatim>\<open>operator_chain.go\<close> and the files it calls): one call of user code with
    retries, the handling of records and control messages, and the goroutine of the chain as a
    step relation. The trace of every run, under any control messages, obeys the contract of
    transactional sinks, which is a monitor over the calls of the sink; guarded calls end in one of the
    listed ways.
  \<^item> \<open>State_Backend\<close>, \<open>Keyed_State\<close> (\<^verbatim>\<open>state_backend.go\<close>, \<^verbatim>\<open>state_backend_hashmap.go\<close>,
    \<^verbatim>\<open>sdk/backend_state.go\<close>, the process adapter of \<^verbatim>\<open>sdk/embedded.go\<close>): the in-memory backend
    answers like a map of bounded size, checkpoints and restores included, its snapshots restore it
    and damaged ones are refused; the locale \<open>state_backend\<close> is
    what it promises to the keyed state above it, which refines three independent families of states
    per event key.
  \<^item> \<open>Wire_Payload\<close>, \<open>Wire_Frame\<close>, \<open>Frame_Stream\<close> (\<^verbatim>\<open>internal/protocol\<close>,
    \<^verbatim>\<open>internal/transport\<close>): the structural check of payloads accepts exactly the grammar of
    well-formed messages, messages and frames round trip, damaged frames are rejected, and a
    stream delivers what was sent, in order, without watermarks that go back.
  \<^item> \<open>Metadata_Store\<close> (\<^verbatim>\<open>internal/coordinator/store*.go\<close>): the interface as the locale
    \<open>metadata_store\<close>, interpreted on the in-memory store and on the fenced handle of a leader. The store
    answers like a map, and a revoked handle refuses every operation. Later theories assume only the
    locale of their store.
  \<^item> \<open>Coord_Types\<close>, \<open>Coordinator\<close>, \<open>Job_Lifecycle\<close>, \<open>Recovery\<close>, \<open>Workers\<close>, \<open>Task_Status\<close>
    (\<^verbatim>\<open>types.go\<close>, \<^verbatim>\<open>coordinator.go\<close>, \<^verbatim>\<open>job_manager.go\<close>, \<^verbatim>\<open>job_state_machine.go\<close>,
    \<^verbatim>\<open>recovery.go\<close>, \<^verbatim>\<open>reconcile.go\<close>, \<^verbatim>\<open>rpc_handlers.go\<close>): the state of the coordinator with
    jobs in shared cells, the transitions of jobs and what of them survives a restart, recovery under
    a new epoch, the conservation of worker commands, and the fencing of late reports.
  \<^item> \<open>Checkpoint_Manifest\<close>, \<open>Checkpoint_Manager\<close>, \<open>Checkpoint_Protocol\<close>, \<open>Restore\<close>
    (\<^verbatim>\<open>checkpoint_*.go\<close>, \<^verbatim>\<open>savepoint_*.go\<close>, \<^verbatim>\<open>final_checkpoint.go\<close>): the operations on
    checkpoints refine a transition system on the stored records. A completed checkpoint has the report of
    every task, decisions are final, and a deployment restores the newest usable checkpoint.
  \<^item> \<open>Job_Graph\<close>, \<open>Job_Tasks\<close>, \<open>Rescale_Plan\<close>, \<open>Scheduler\<close> (\<^verbatim>\<open>chain_plan.go\<close>,
    \<^verbatim>\<open>physical_tasks.go\<close>, \<^verbatim>\<open>rescale_*.go\<close>, \<^verbatim>\<open>scheduler.go\<close>, \<^verbatim>\<open>reservations.go\<close>,
    \<^verbatim>\<open>task_restart.go\<close>): topological order, chains, well-formed tasks and channels, the exact
    cover of state by a rescale plan, and the commit of a deployment before anything is dispatched.

  \<^bold>\<open>Conventions.\<close> A struct is a record, an interface a record of functions or a locale, an
  enumeration a datatype. An operation maps a state to a result and a state. Code under a mutex is one
  step; where a routine releases its lock, the sections are separate definitions, so that other
  operations may come in between. Goroutines meet in step relations or in sequences of operations that
  the theorems leave open. Clocks, random identifiers and answers of remote peers are arguments.
  Third-party code (the murmur3 hash, MessagePack, the JSON form of manifests and lists, Pebble) is
  an argument as well; what is relied on is a hypothesis of the theorems that need it, and each of
  these theorems comes with an instance in which the hypotheses hold.

  \<^bold>\<open>Termination and bounds.\<close> Loops over data are structural or have a termination proof. The
  retry loop of operator calls is a partial function; \<open>invokeWithRetry_returns\<close> shows that it returns
  for every budget below the largest integer, which the policies that compile have. The drain of a
  live input channel is a partial function as well, since readers may keep it busy, and a send to a
  full output may have no answer; a step of the chain need not return then. The theorems about
  chains are about the steps that return, for every environment: a step that does not return has, up
  to any point, the effects of one in which the readers stop or the context ends there. The handler of control messages calls itself; it is
  unrolled to three activations, the one bound on a recursion in the library. \<open>handleControl_recursive\<close>
  shows that the unrolling satisfies the recursive equation of the code, and \<open>control_depth_stable\<close> that
  a deeper one gives the same. Signed 64-bit arithmetic wraps (\<open>wrap64\<close>)
  where a result is stored or compared, and words are used for unsigned types; theorems state the
  ranges under which no wrap-around occurs.

  \<^bold>\<open>Not modelled.\<close>
  \<^item> The Pebble metadata store and the Pebble state backend: thin layers over the database, whose
    promises are the locales \<open>metadata_store\<close> and \<open>state_backend\<close>. State export, import and the
    rescaling of state files belong to them.
  \<^item> Files and networks: checkpoint archives, uploads, replication and relocation, yamux sessions, TLS,
    HTTP handlers, RPC clients and servers, the authorization of checkpoint transfers, leader election by file
    locks and Kubernetes leases. Their outcomes are arguments of the operations that use them.
  \<^item> Goroutine plumbing of a task (input readers, output writers, task slots, the checkpoint
    coordinator of a task) and the main loop of a worker: channels between the modelled parts, whose
    interleavings the step relations leave open.
  \<^item> Aggregators of the SDK on floating-point numbers, the builders of stream graphs, the YAML pipeline
    reader, connectors, configuration, metrics, logging and commands.
\<close>

end
